(* ===== verification/Prelude.thy ===== *)
theory Prelude
  imports
    Main
    "HOL-Library.Word"
    "HOL-Library.Multiset"
    "HOL-Library.Char_ord"
    "HOL-Library.List_Lexorder"
begin

text \<open>
  Vocabulary shared by every component of the development.

  \<^item> Machine types: \<open>u32\<close>, \<open>uuid\<close> (128 bits), instants in microseconds (the resolution of
    a PostgreSQL \<open>timestamptz\<close>); \<open>i64\<close> identifiers that the code only compares are \<open>int\<close>.
  \<^item> Results: \<open>sql_error\<close> and the sum type \<open>'a db\<close> (\<open>Inl\<close> is Rust's \<open>Err\<close>).
  \<^item> A relational table is the list of its rows. \<open>update_where\<close>, \<open>delete_where\<close> and
    \<open>fetch_optional\<close> are the SQL statements the repositories issue.
  \<^item> Rust text: a \<open>str\<close> is its UTF-8 byte sequence, so \<open>string\<close> (a list of bytes) is exact for
    lengths, offsets, prefixes and splitting at an ASCII byte.
  \<^item> The collections \<open>table_simps\<close> and \<open>text_simps\<close> that carry the component proofs.
\<close>

named_theorems table_simps \<open>rewrite rules for the table statements\<close>
named_theorems text_simps \<open>rewrite rules for Rust text\<close>

section \<open>Machine types and results\<close>

type_synonym u32 = "32 word"
type_synonym uuid = "128 word"
type_synonym instant = int

abbreviation micros_per_sec :: int where
  "micros_per_sec \<equiv> 1000000"

definition seconds :: "int \<Rightarrow> int" where
  "seconds n = n * micros_per_sec"

definition days :: "int \<Rightarrow> int" where
  "days n = seconds (n * 86400)"

lemma seconds_pos [simp]: "0 < seconds n \<longleftrightarrow> 0 < n"
  by (simp add: seconds_def zero_less_mult_iff)

lemma seconds_mono [simp]: "seconds a \<le> seconds b \<longleftrightarrow> a \<le> b"
  by (simp add: seconds_def)

lemma days_pos [simp]: "0 < days n \<longleftrightarrow> 0 < n"
  by (simp add: days_def)

datatype sql_error = Db_unavailable | Unique_violation | Bigint_out_of_range | Foreign_key_violation | Not_null_violation | Wrong_dimensions

type_synonym 'a db = "sql_error + 'a"

fun db_ok :: "'a db \<Rightarrow> 'a option" where
  "db_ok (Inl e) = None"
| "db_ok (Inr x) = Some x"

lemma db_ok_Some [simp]: "db_ok r = Some x \<longleftrightarrow> r = Inr x"
  by (cases r) auto

section \<open>Tables\<close>

definition update_where :: "('r \<Rightarrow> bool) \<Rightarrow> ('r \<Rightarrow> 'r) \<Rightarrow> 'r list \<Rightarrow> 'r list" where
  "update_where p f t = map (\<lambda>r. if p r then f r else r) t"

definition delete_where :: "('r \<Rightarrow> bool) \<Rightarrow> 'r list \<Rightarrow> 'r list" where
  "delete_where p t = filter (\<lambda>r. \<not> p r) t"

definition rows_affected :: "('r \<Rightarrow> bool) \<Rightarrow> 'r list \<Rightarrow> nat" where
  "rows_affected p t = length (filter p t)"

definition fetch_optional :: "('r \<Rightarrow> bool) \<Rightarrow> 'r list \<Rightarrow> 'r option" where
  "fetch_optional p t = List.find p t"

lemma set_update_where [table_simps]:
  "set (update_where p f t) = {r \<in> set t. \<not> p r} \<union> f ` {r \<in> set t. p r}"
  by (auto simp: update_where_def)

lemma length_update_where [simp]: "length (update_where p f t) = length t"
  by (simp add: update_where_def)

lemma update_where_none: "(\<And>r. r \<in> set t \<Longrightarrow> \<not> p r) \<Longrightarrow> update_where p f t = t"
  by (simp add: update_where_def map_idI)

lemma map_update_where:
  "(\<And>r. r \<in> set t \<Longrightarrow> p r \<Longrightarrow> g (f r) = g r) \<Longrightarrow> map g (update_where p f t) = map g t"
  by (simp add: update_where_def)

lemma update_where_append [table_simps]:
  "update_where p f (s @ t) = update_where p f s @ update_where p f t"
  by (simp add: update_where_def)

lemma update_where_keeps:
  "r \<in> set t \<Longrightarrow> (p r \<Longrightarrow> Q (f r)) \<Longrightarrow> (\<not> p r \<Longrightarrow> Q r) \<Longrightarrow>
     \<exists>r' \<in> set (update_where p f t). Q r'"
  by (cases "p r") (auto simp: update_where_def intro: bexI [where x = r])

lemma update_where_all:
  assumes "\<And>r. r \<in> set t \<Longrightarrow> p r \<Longrightarrow> Q (f r)" and "\<And>r. r \<in> set t \<Longrightarrow> \<not> p r \<Longrightarrow> Q r"
  shows "\<forall>r \<in> set (update_where p f t). Q r"
  using assms unfolding set_update_where by blast

lemma fetch_optional_Some:
  "fetch_optional p t = Some r \<Longrightarrow> r \<in> set t \<and> p r"
  by (auto simp: fetch_optional_def find_Some_iff)

lemma fetch_optional_None [table_simps]:
  "fetch_optional p t = None \<longleftrightarrow> (\<forall>r \<in> set t. \<not> p r)"
  by (auto simp: fetch_optional_def find_None_iff)

lemma fetch_optional_append [table_simps]:
  "fetch_optional p (s @ t) =
     (case fetch_optional p s of None \<Rightarrow> fetch_optional p t | Some r \<Rightarrow> Some r)"
  by (induction s) (auto simp: fetch_optional_def)

lemma fetch_optional_single [simp]: "fetch_optional p [r] = (if p r then Some r else None)"
  by (simp add: fetch_optional_def)

text \<open>With a key that is unique in the table, a statement selects exactly the row of that key.\<close>

lemma fetch_optional_key:
  assumes "distinct (map k t)" and "r \<in> set t" and "p r" and "\<And>x. p x \<Longrightarrow> k x = k r"
  shows "fetch_optional p t = Some r"
proof -
  have "fetch_optional p t \<noteq> None"
    using assms(2,3) unfolding fetch_optional_None by blast
  then obtain x where x: "fetch_optional p t = Some x" by blast
  from fetch_optional_Some [OF x] have "x \<in> set t" and "p x" by simp_all
  moreover from \<open>p x\<close> have "k x = k r" by (rule assms(4))
  ultimately have "x = r" using assms(1,2) by (meson distinct_map inj_onD)
  with x show ?thesis by simp
qed

lemma rows_affected_le_one:
  assumes "distinct (map k t)" and "\<And>x. p x \<Longrightarrow> k x = c"
  shows "rows_affected p t \<le> 1"
  using assms
proof (induction t)
  case Nil
  then show ?case by (simp add: rows_affected_def)
next
  case (Cons r t)
  have "p r \<Longrightarrow> filter p t = []"
    using Cons.prems by (auto simp: filter_empty_conv image_iff)
  with Cons show ?case by (auto simp: rows_affected_def)
qed

lemma rows_affected_pos: "0 < rows_affected p t \<longleftrightarrow> (\<exists>r \<in> set t. p r)"
  by (auto simp: rows_affected_def filter_empty_conv)

lemma rows_affected_one_key:
  assumes "distinct (map k t)" and "\<And>x. p x \<Longrightarrow> k x = c"
  shows "rows_affected p t = 1 \<longleftrightarrow> (\<exists>r \<in> set t. p r)"
proof -
  have "rows_affected p t \<le> 1"
    by (rule rows_affected_le_one [where k = k and c = c]) (fact assms)+
  then have "rows_affected p t = 1 \<longleftrightarrow> 0 < rows_affected p t" by linarith
  then show ?thesis by (simp only: rows_affected_pos)
qed

section \<open>Maps kept as association lists\<close>

text \<open>\<open>HashMap::entry(k).or_insert(d)\<close> followed by a change of the value, on an association list in first-insertion order.\<close>

fun entry :: "'k \<Rightarrow> 'v \<Rightarrow> ('v \<Rightarrow> 'v) \<Rightarrow> ('k \<times> 'v) list \<Rightarrow> ('k \<times> 'v) list" where
  "entry k d f [] = [(k, f d)]"
| "entry k d f ((k', v) # xs) = (if k' = k then (k', f v) # xs else (k', v) # entry k d f xs)"

lemma map_of_entry:
  "map_of (entry k d f xs) = (map_of xs)(k \<mapsto> f (case map_of xs k of None \<Rightarrow> d | Some v \<Rightarrow> v))"
  by (induction xs) (auto simp: fun_eq_iff)

lemma keys_entry: "fst ` set (entry k d f xs) = insert k (fst ` set xs)"
proof (induction xs)
  case (Cons x xs)
  then show ?case by (cases x) (simp add: insert_commute)
qed simp

lemma distinct_entry: "distinct (map fst xs) \<Longrightarrow> distinct (map fst (entry k d f xs))"
proof (induction xs)
  case (Cons x xs)
  then show ?case using keys_entry [of k d f xs] by (cases x) auto
qed simp

lemma set_map_filter: "y \<in> set (List.map_filter f xs) \<longleftrightarrow> (\<exists>x \<in> set xs. f x = Some y)"
  by (induction xs) (auto simp: map_filter_simps split: option.split)

end
