(* ===== verification/Rust_Text.thy ===== *)
theory Rust_Text
  imports Prelude
begin

text \<open>
  What the code uses of Rust's standard library on text: prefixes, hexadecimal and decimal
  formatting, integer parsing. A \<open>str\<close> is its UTF-8 byte sequence. Decimal printing and parsing
  of \<open>i64\<close> are related by a round trip, hexadecimal formatting by its length and alphabet.
\<close>

section \<open>Prefixes and suffixes\<close>

definition starts_with :: "string \<Rightarrow> string \<Rightarrow> bool" where
  "starts_with p s \<longleftrightarrow> take (length p) s = p"

definition ends_with :: "string \<Rightarrow> string \<Rightarrow> bool" where
  "ends_with p s \<longleftrightarrow> length p \<le> length s \<and> drop (length s - length p) s = p"

definition strip_prefix :: "string \<Rightarrow> string \<Rightarrow> string option" where
  "strip_prefix p s = (if starts_with p s then Some (drop (length p) s) else None)"

lemma strip_prefix_append [simp, text_simps]: "strip_prefix p (p @ s) = Some s"
  by (simp add: strip_prefix_def starts_with_def)

lemma strip_prefix_Some: "strip_prefix p s = Some r \<longleftrightarrow> s = p @ r"
proof
  assume "strip_prefix p s = Some r"
  then have "take (length p) s = p" and "drop (length p) s = r"
    by (auto simp: strip_prefix_def starts_with_def split: if_splits)
  then show "s = p @ r" by (metis append_take_drop_id)
qed simp

section \<open>Hexadecimal\<close>

definition hex_alphabet :: string where
  "hex_alphabet = ''0123456789abcdef''"

definition is_ascii_hexdigit :: "char \<Rightarrow> bool" where
  "is_ascii_hexdigit c \<longleftrightarrow> c \<in> set ''0123456789abcdefABCDEF''"

definition hex_digit :: "nat \<Rightarrow> char" where
  "hex_digit n = hex_alphabet ! (n mod 16)"

lemma hex_digit_in_alphabet: "hex_digit n \<in> set hex_alphabet"
  by (simp add: hex_digit_def hex_alphabet_def nth_mem del: list.set)

lemma hex_alphabet_hexdigit: "c \<in> set hex_alphabet \<Longrightarrow> is_ascii_hexdigit c"
  by (auto simp: is_ascii_hexdigit_def hex_alphabet_def)

lemma hex_digit_hexdigit [simp]: "is_ascii_hexdigit (hex_digit n)"
  by (rule hex_alphabet_hexdigit [OF hex_digit_in_alphabet])

lemma hex_digit_not_hyphen [simp]: "hex_digit n \<noteq> CHR ''-''"
  using hex_digit_in_alphabet [of n] by (auto simp: hex_alphabet_def)

text \<open>The \<open>{:02x}\<close> form of a sequence of bytes.\<close>

definition hex_of_bytes :: "8 word list \<Rightarrow> string" where
  "hex_of_bytes bs = concat (map (\<lambda>b. [hex_digit (unat b div 16), hex_digit (unat b)]) bs)"

lemma length_hex_of_bytes [simp]: "length (hex_of_bytes bs) = 2 * length bs"
  by (induction bs) (simp_all add: hex_of_bytes_def)

lemma hex_of_bytes_hexdigits: "c \<in> set (hex_of_bytes bs) \<Longrightarrow> is_ascii_hexdigit c"
  by (auto simp: hex_of_bytes_def)

text \<open>
  A UUID prints as 32 lower-case hexadecimal digits in groups of 8, 4, 4, 4 and 12. Removing the
  hyphens (\<open>replace('-', "")\<close>) gives the digits back.
\<close>

definition uuid_digits :: "uuid \<Rightarrow> string" where
  "uuid_digits u = map (\<lambda>i. hex_digit (unat u div 16 ^ (31 - i))) [0..<32]"

definition uuid_to_string :: "uuid \<Rightarrow> string" where
  "uuid_to_string u =
     (let h = uuid_digits u in
      take 8 h @ ''-'' @ take 4 (drop 8 h) @ ''-'' @ take 4 (drop 12 h) @ ''-''
      @ take 4 (drop 16 h) @ ''-'' @ drop 20 h)"

definition remove_hyphens :: "string \<Rightarrow> string" where
  "remove_hyphens s = filter (\<lambda>c. c \<noteq> CHR ''-'') s"

lemma length_uuid_digits [simp]: "length (uuid_digits u) = 32"
  by (simp add: uuid_digits_def)

lemma uuid_digits_hexdigit: "c \<in> set (uuid_digits u) \<Longrightarrow> is_ascii_hexdigit c"
  by (auto simp: uuid_digits_def)

lemma uuid_digits_not_hyphen: "c \<in> set (uuid_digits u) \<Longrightarrow> c \<noteq> CHR ''-''"
  by (auto simp: uuid_digits_def)

lemma remove_hyphens_part:
  "(\<And>c. c \<in> set s \<Longrightarrow> c \<noteq> CHR ''-'') \<Longrightarrow> remove_hyphens s = s"
  by (simp add: remove_hyphens_def)

lemma remove_hyphens_append: "remove_hyphens (s @ t) = remove_hyphens s @ remove_hyphens t"
  by (simp add: remove_hyphens_def)

lemma remove_hyphens_uuid [simp, text_simps]:
  "remove_hyphens (uuid_to_string u) = uuid_digits u"
proof -
  let ?h = "uuid_digits u"
  have keep: "remove_hyphens (take n (drop m ?h)) = take n (drop m ?h)" for n m
    by (rule remove_hyphens_part)
       (meson in_set_dropD in_set_takeD uuid_digits_not_hyphen)
  have keep0: "remove_hyphens (take n ?h) = take n ?h" for n
    using keep [of n 0] by simp
  have keepd: "remove_hyphens (drop m ?h) = drop m ?h" for m
    by (rule remove_hyphens_part) (meson in_set_dropD uuid_digits_not_hyphen)
  have hy: "remove_hyphens ''-'' = []" by (simp add: remove_hyphens_def)
  have "remove_hyphens (uuid_to_string u) =
      take 8 ?h @ take 4 (drop 8 ?h) @ take 4 (drop 12 ?h) @ take 4 (drop 16 ?h) @ drop 20 ?h"
    by (simp add: uuid_to_string_def Let_def remove_hyphens_append keep keep0 keepd hy
        del: append_Cons append.simps)
  also have "\<dots> = ?h"
    using append_take_drop_id [of 8 ?h] append_take_drop_id [of 4 "drop 8 ?h"]
      append_take_drop_id [of 4 "drop 12 ?h"] append_take_drop_id [of 4 "drop 16 ?h"]
    by simp
  finally show ?thesis .
qed

section \<open>Decimal integers\<close>

definition digit_char :: "nat \<Rightarrow> char" where
  "digit_char n = ''0123456789'' ! (n mod 10)"

fun dec_of_nat :: "nat \<Rightarrow> string" where
  "dec_of_nat n = (if n < 10 then [digit_char n] else dec_of_nat (n div 10) @ [digit_char n])"

declare dec_of_nat.simps [simp del]

definition dec_of_int :: "int \<Rightarrow> string" where
  "dec_of_int i = (if i < 0 then ''-'' @ dec_of_nat (nat (- i)) else dec_of_nat (nat i))"

definition char_digit :: "char \<Rightarrow> nat option" where
  "char_digit c =
     (if CHR ''0'' \<le> c \<and> c \<le> CHR ''9'' then Some (of_char c - 48) else None)"

fun digits_value :: "nat \<Rightarrow> string \<Rightarrow> nat option" where
  "digits_value acc [] = Some acc"
| "digits_value acc (c # cs) =
     (case char_digit c of None \<Rightarrow> None | Some d \<Rightarrow> digits_value (10 * acc + d) cs)"

text \<open>
  \<open>str::parse::<i64>\<close>: an optional sign, at least one digit, nothing else, and a value in range.
\<close>

definition i64_min :: int where
  "i64_min = - (2 ^ 63)"

definition i64_max :: int where
  "i64_max = 2 ^ 63 - 1"

definition parse_digits :: "string \<Rightarrow> nat option" where
  "parse_digits s = (if s = [] then None else digits_value 0 s)"

definition parse_i64 :: "string \<Rightarrow> int option" where
  "parse_i64 s =
     (let v = (case s of
                 [] \<Rightarrow> None
               | c # cs \<Rightarrow>
                   if c = CHR ''-'' then map_option (\<lambda>n. - int n) (parse_digits cs)
                   else if c = CHR ''+'' then map_option int (parse_digits cs)
                   else map_option int (parse_digits s))
      in case v of None \<Rightarrow> None
         | Some i \<Rightarrow> if i64_min \<le> i \<and> i \<le> i64_max then Some i else None)"

lemma char_digit_digit_char [simp]: "char_digit (digit_char n) = Some (n mod 10)"
proof -
  have small: "k < 10 \<Longrightarrow> k \<in> {0, 1, 2, 3, 4, 5, 6, 7, 8, 9}" for k :: nat
    by (simp add: numeral_eq_Suc less_Suc_eq)
  have "n mod 10 \<in> {0, 1, 2, 3, 4, 5, 6, 7, 8, 9}" by (rule small) simp
  then show ?thesis by (elim insertE emptyE) (simp_all add: digit_char_def char_digit_def)
qed

lemma digits_value_append:
  "digits_value acc (s @ t) =
     (case digits_value acc s of None \<Rightarrow> None | Some a \<Rightarrow> digits_value a t)"
  by (induction s arbitrary: acc) (auto split: option.splits)

lemma digits_value_dec_of_nat: "digits_value 0 (dec_of_nat n) = Some n"
proof (induction n rule: dec_of_nat.induct)
  case (1 n)
  show ?case
  proof (cases "n < 10")
    case True
    then show ?thesis by (subst dec_of_nat.simps) simp
  next
    case False
    with "1.IH" have "digits_value 0 (dec_of_nat (n div 10)) = Some (n div 10)" by simp
    with False show ?thesis
      by (subst dec_of_nat.simps) (simp add: digits_value_append)
  qed
qed

lemma dec_of_nat_not_Nil [simp]: "dec_of_nat n \<noteq> []"
  by (subst dec_of_nat.simps) simp

lemma digit_char_not_sign: "digit_char n \<noteq> CHR ''-''" "digit_char n \<noteq> CHR ''+''"
  using char_digit_digit_char [of n] by (auto simp: char_digit_def simp del: char_digit_digit_char)

lemma set_dec_of_nat: "c \<in> set (dec_of_nat n) \<Longrightarrow> \<exists>k. c = digit_char k"
proof (induction n rule: dec_of_nat.induct)
  case (1 n)
  then show ?case by (subst (asm) (2) dec_of_nat.simps) (auto split: if_splits)
qed

lemma parse_digits_dec [simp]: "parse_digits (dec_of_nat n) = Some n"
  by (simp add: parse_digits_def digits_value_dec_of_nat)

text \<open>Printing an \<open>i64\<close> and parsing the text gives the number back.\<close>

lemma parse_i64_dec_of_int:
  assumes "i64_min \<le> i" and "i \<le> i64_max"
  shows "parse_i64 (dec_of_int i) = Some i"
proof (cases "i < 0")
  case True
  with assms show ?thesis by (simp add: parse_i64_def dec_of_int_def Let_def)
next
  case False
  obtain c cs where cs: "dec_of_nat (nat i) = c # cs"
    by (cases "dec_of_nat (nat i)") auto
  then have "c \<in> set (dec_of_nat (nat i))" by simp
  then obtain k where "c = digit_char k" using set_dec_of_nat by blast
  then have "c \<noteq> CHR ''-''" and "c \<noteq> CHR ''+''" by (simp_all add: digit_char_not_sign)
  moreover have "parse_digits (c # cs) = Some (nat i)" using parse_digits_dec [of "nat i"] cs by simp
  ultimately show ?thesis
    using False assms by (simp add: parse_i64_def dec_of_int_def Let_def cs)
qed

section \<open>Splitting and trimming\<close>

text \<open>
  \<open>str::split\<close> on one character (at least one piece), \<open>str::trim\<close>,
  \<open>Iterator::find_map\<close>, \<open>str::replace\<close> of one character and \<open>to_ascii_uppercase\<close>.
\<close>

fun split_char :: "char \<Rightarrow> string \<Rightarrow> string list" where
  "split_char c [] = [[]]"
| "split_char c (x # xs) =
     (if x = c then [] # split_char c xs
      else case split_char c xs of [] \<Rightarrow> [[x]] | p # ps \<Rightarrow> (x # p) # ps)"

text \<open>
  The characters of Unicode's \<open>White_Space\<close> as UTF-8: the ASCII ones, U+0085, U+00A0, U+1680, U+2000 to U+200A, U+2028,
  U+2029, U+202F, U+205F and U+3000. On valid UTF-8 a byte position where one of these sequences stands is a character
  boundary.
\<close>

definition whitespace :: "string list" where
  "whitespace =
    [[CHR 0x20], [CHR 0x09], [CHR 0x0A], [CHR 0x0B], [CHR 0x0C], [CHR 0x0D], [CHR 0xC2, CHR 0x85],
     [CHR 0xC2, CHR 0xA0], [CHR 0xE1, CHR 0x9A, CHR 0x80], [CHR 0xE2, CHR 0x80, CHR 0x80],
     [CHR 0xE2, CHR 0x80, CHR 0x81], [CHR 0xE2, CHR 0x80, CHR 0x82], [CHR 0xE2, CHR 0x80, CHR 0x83],
     [CHR 0xE2, CHR 0x80, CHR 0x84], [CHR 0xE2, CHR 0x80, CHR 0x85], [CHR 0xE2, CHR 0x80, CHR 0x86],
     [CHR 0xE2, CHR 0x80, CHR 0x87], [CHR 0xE2, CHR 0x80, CHR 0x88], [CHR 0xE2, CHR 0x80, CHR 0x89],
     [CHR 0xE2, CHR 0x80, CHR 0x8A], [CHR 0xE2, CHR 0x80, CHR 0xA8], [CHR 0xE2, CHR 0x80, CHR 0xA9],
     [CHR 0xE2, CHR 0x80, CHR 0xAF], [CHR 0xE2, CHR 0x81, CHR 0x9F], [CHR 0xE3, CHR 0x80, CHR 0x80]]"

definition visible :: "char \<Rightarrow> bool" where
  "visible c \<longleftrightarrow> 32 < (of_char c :: nat) \<and> of_char c < (127 :: nat)"

lemma whitespace_bytes: "list_all (\<lambda>w. w \<noteq> [] \<and> \<not> visible (hd w) \<and> \<not> visible (last w)) whitespace"
  by code_simp

lemma whitespace_ends:
  assumes "w \<in> set whitespace"
  shows "w \<noteq> []" and "\<not> visible (hd w)" and "\<not> visible (last w)"
  using whitespace_bytes assms by (auto simp: list_all_iff)

definition ws_prefix :: "string \<Rightarrow> string option" where
  "ws_prefix s = List.find (\<lambda>w. starts_with w s) whitespace"

definition ws_suffix :: "string \<Rightarrow> string option" where
  "ws_suffix s = List.find (\<lambda>w. ends_with w s) whitespace"

lemma ws_prefix_Some:
  assumes "ws_prefix s = Some w"
  shows "w \<noteq> []" and "starts_with w s" and "w \<in> set whitespace" and "0 < length w" and "length w \<le> length s"
proof -
  show w: "w \<in> set whitespace" and st: "starts_with w s"
    using assms by (auto simp: ws_prefix_def find_Some_iff)
  show "w \<noteq> []" using whitespace_ends(1) [OF w] .
  then show "0 < length w" by simp
  show "length w \<le> length s" using st by (metis starts_with_def length_take min.cobounded1)
qed

lemma ws_suffix_Some:
  assumes "ws_suffix s = Some w"
  shows "w \<noteq> []" and "ends_with w s" and "w \<in> set whitespace" and "0 < length w" and "length w \<le> length s"
proof -
  show w: "w \<in> set whitespace" and st: "ends_with w s"
    using assms by (auto simp: ws_suffix_def find_Some_iff)
  show "w \<noteq> []" using whitespace_ends(1) [OF w] .
  then show "0 < length w" by simp
  show "length w \<le> length s" using st by (simp add: ends_with_def)
qed

function trim_start :: "string \<Rightarrow> string" where
  "trim_start s = (case ws_prefix s of None \<Rightarrow> s | Some w \<Rightarrow> trim_start (drop (length w) s))"
  by auto
termination
proof (relation "measure length")
  fix s w
  assume "ws_prefix s = Some w"
  from ws_prefix_Some(4,5) [OF this] show "(drop (length w) s, s) \<in> measure length" by (simp del: length_greater_0_conv)
qed simp

function trim_end :: "string \<Rightarrow> string" where
  "trim_end s = (case ws_suffix s of None \<Rightarrow> s | Some w \<Rightarrow> trim_end (take (length s - length w) s))"
  by auto
termination
proof (relation "measure length")
  fix s w
  assume "ws_suffix s = Some w"
  from ws_suffix_Some(4,5) [OF this] show "(take (length s - length w) s, s) \<in> measure length" by (simp del: length_greater_0_conv)
qed simp

declare trim_start.simps [simp del] trim_end.simps [simp del]

definition trim :: "string \<Rightarrow> string" where
  "trim s = trim_end (trim_start s)"

text \<open>\<open>split_once(char::is_whitespace)\<close>.\<close>

fun split_once_ws :: "string \<Rightarrow> (string \<times> string) option" where
  "split_once_ws [] = None"
| "split_once_ws (c # cs) =
     (case ws_prefix (c # cs) of
        Some w \<Rightarrow> Some ([], drop (length w) (c # cs))
      | None \<Rightarrow> map_option (\<lambda>(a, b). (c # a, b)) (split_once_ws cs))"

lemma length_trim_start: "length (trim_start s) \<le> length s"
proof (induction s rule: trim_start.induct)
  case (1 s)
  then show ?case by (subst trim_start.simps) (fastforce dest: ws_prefix_Some split: option.split)
qed

lemma length_trim_end: "length (trim_end s) \<le> length s"
proof (induction s rule: trim_end.induct)
  case (1 s)
  then show ?case by (subst trim_end.simps) (fastforce split: option.split)
qed

lemma length_trim: "length (trim s) \<le> length s"
  unfolding trim_def by (rule order_trans [OF length_trim_end length_trim_start])

text \<open>Text that begins and ends with visible ASCII is not trimmed.\<close>

lemma ws_prefix_visible: "visible c \<Longrightarrow> ws_prefix (c # cs) = None"
proof (cases "ws_prefix (c # cs)")
  case (Some w)
  from ws_prefix_Some(1,2) [OF Some] have "hd w = c" unfolding starts_with_def by (cases w) auto
  with whitespace_ends(2) [OF ws_prefix_Some(3) [OF Some]] show "visible c \<Longrightarrow> ws_prefix (c # cs) = None" by simp
qed simp

lemma ends_with_last: "ends_with w s \<Longrightarrow> w \<noteq> [] \<Longrightarrow> last w = last s"
  unfolding ends_with_def by (metis append_take_drop_id last_appendR)

lemma ws_suffix_visible: "visible c \<Longrightarrow> ws_suffix (cs @ [c]) = None"
  using ws_suffix_Some(1,2,3) whitespace_ends(3) ends_with_last by (metis last_snoc not_None_eq)

lemma trim_start_visible [text_simps]: "visible c \<Longrightarrow> trim_start (c # cs) = c # cs"
  by (subst trim_start.simps) (simp add: ws_prefix_visible)

lemma trim_end_visible [text_simps]: "visible c \<Longrightarrow> trim_end (cs @ [c]) = cs @ [c]"
  by (subst trim_end.simps) (simp add: ws_suffix_visible)

lemma trim_visible: "s \<noteq> [] \<Longrightarrow> visible (hd s) \<Longrightarrow> visible (last s) \<Longrightarrow> trim s = s"
  unfolding trim_def by (metis append_butlast_last_id list.collapse trim_end_visible trim_start_visible)

lemma trim_start_space [text_simps]: "trim_start (CHR 0x20 # cs) = trim_start cs"
  by (subst trim_start.simps) (simp add: ws_prefix_def whitespace_def starts_with_def)

lemma ends_with_snoc: "ends_with (w @ [x]) (cs @ [c]) \<longleftrightarrow> x = c \<and> ends_with w cs"
  by (auto simp: ends_with_def)

lemma trim_end_space [text_simps]: "trim_end (cs @ [CHR 0x20]) = trim_end cs"
  by (subst trim_end.simps) (simp add: ws_suffix_def whitespace_def ends_with_snoc [of "[]", simplified] ends_with_def)

lemma trim_empty [simp]: "trim_start [] = []" "trim_end [] = []" "trim [] = []"
proof -
  have "ws_prefix [] = None" "ws_suffix [] = None"
    using ws_prefix_Some(4,5) [of "[]"] ws_suffix_Some(4,5) [of "[]"] by fastforce+
  then show "trim_start [] = []" "trim_end [] = []" by (simp_all add: trim_start.simps trim_end.simps)
  then show "trim [] = []" by (simp add: trim_def)
qed

definition trim_end_matches :: "char \<Rightarrow> string \<Rightarrow> string" where
  "trim_end_matches c s = rev (dropWhile (\<lambda>x. x = c) (rev s))"

definition trim_start_matches :: "char \<Rightarrow> string \<Rightarrow> string" where
  "trim_start_matches c s = dropWhile (\<lambda>x. x = c) s"

fun find_map :: "('a \<Rightarrow> 'b option) \<Rightarrow> 'a list \<Rightarrow> 'b option" where
  "find_map f [] = None"
| "find_map f (x # xs) = (case f x of None \<Rightarrow> find_map f xs | Some y \<Rightarrow> Some y)"

definition replace_char :: "char \<Rightarrow> string \<Rightarrow> string \<Rightarrow> string" where
  "replace_char c r s = concat (map (\<lambda>x. if x = c then r else [x]) s)"

definition ascii_lower :: "char \<Rightarrow> char" where
  "ascii_lower c = (if 65 \<le> (of_char c :: nat) \<and> of_char c \<le> (90::nat) then char_of (of_char c + 32 :: nat) else c)"

definition ascii_upper :: "char \<Rightarrow> char" where
  "ascii_upper c = (if 97 \<le> (of_char c :: nat) \<and> of_char c \<le> (122::nat) then char_of (of_char c - 32 :: nat) else c)"

definition to_ascii_uppercase :: "string \<Rightarrow> string" where
  "to_ascii_uppercase s = map ascii_upper s"

lemma split_char_not_Nil [simp]: "split_char c s \<noteq> []"
  by (cases s) (auto split: list.splits)

lemma split_char_piece: "p \<in> set (split_char c s) \<Longrightarrow> c \<notin> set p"
  by (induction s arbitrary: p) (auto split: if_splits list.splits)

lemma split_char_none [simp]: "c \<notin> set s \<Longrightarrow> split_char c s = [s]"
  by (induction s) auto

text \<open>Joining the pieces of a split with the separator gives the text back.\<close>

fun join_with :: "string \<Rightarrow> string list \<Rightarrow> string" where
  "join_with sep [] = []"
| "join_with sep [p] = p"
| "join_with sep (p # q # ps) = p @ sep @ join_with sep (q # ps)"

lemma join_split: "join_with [c] (split_char c s) = s"
proof (induction s)
  case (Cons x s)
  obtain p ps where "split_char c s = p # ps" by (cases "split_char c s") simp_all
  with Cons show ?case by (cases ps) auto
qed simp

lemma split_char_inj: "split_char c s = split_char c t \<Longrightarrow> s = t"
  by (metis join_split)

lemma split_char_sep: "c \<notin> set a \<Longrightarrow> split_char c (a @ c # b) = a # split_char c b"
  by (induction a) auto

lemma find_map_Some: "find_map f xs = Some y \<Longrightarrow> \<exists>x \<in> set xs. f x = Some y"
  by (induction xs) (auto split: option.splits)

lemma find_map_None: "find_map f xs = None \<longleftrightarrow> (\<forall>x \<in> set xs. f x = None)"
  by (induction xs) (auto split: option.splits)

lemma trim_end_matches_no_suffix: "trim_end_matches c s = [] \<or> last (trim_end_matches c s) \<noteq> c"
proof (cases "dropWhile (\<lambda>x. x = c) (rev s)")
  case (Cons y ys)
  then have "y \<noteq> c" using hd_dropWhile [of "\<lambda>x. x = c" "rev s"] by simp
  with Cons show ?thesis by (simp add: trim_end_matches_def)
qed (simp add: trim_end_matches_def)

section \<open>Searching\<close>

definition strip_suffix :: "string \<Rightarrow> string \<Rightarrow> string option" where
  "strip_suffix p s = (if ends_with p s then Some (take (length s - length p) s) else None)"

text \<open>The text before the first occurrence of a pattern, or all of it.\<close>

fun before_first :: "string \<Rightarrow> string \<Rightarrow> string" where
  "before_first p [] = []"
| "before_first p (c # cs) = (if starts_with p (c # cs) then [] else c # before_first p cs)"

text \<open>\<open>str::lines\<close>: the pieces between line feeds, without a final empty one; a carriage return before a line feed goes.\<close>

definition text_lines :: "string \<Rightarrow> string list" where
  "text_lines s =
     (let ps = split_char CHR 0x0A s;
          chomp = (\<lambda>l. case strip_suffix [CHR 0x0D] l of None \<Rightarrow> l | Some t \<Rightarrow> t)
      in map chomp (butlast ps) @ (if last ps = [] then [] else [last ps]))"

definition split_once :: "char \<Rightarrow> string \<Rightarrow> (string \<times> string) option" where
  "split_once c s =
     (case dropWhile (\<lambda>x. x \<noteq> c) s of [] \<Rightarrow> None | _ # after \<Rightarrow> Some (takeWhile (\<lambda>x. x \<noteq> c) s, after))"

lemma starts_with_iff: "starts_with p s \<longleftrightarrow> (\<exists>r. s = p @ r)"
  unfolding starts_with_def by (metis append_eq_conv_conj append_take_drop_id)

lemma split_once_at: "c \<notin> set a \<Longrightarrow> split_once c (a @ c # b) = Some (a, b)"
  by (induction a) (auto simp: split_once_def split: list.splits)

text \<open>The suffix that starts with the first occurrence of a pattern (\<open>str::find\<close>), \<open>split_whitespace\<close>, and the characters of a text
  as UTF-8 sequences.\<close>

fun from_first :: "string \<Rightarrow> string \<Rightarrow> string option" where
  "from_first p [] = (if p = [] then Some [] else None)"
| "from_first p (c # cs) = (if starts_with p (c # cs) then Some (c # cs) else from_first p cs)"

function split_whitespace :: "string \<Rightarrow> string list" where
  "split_whitespace s =
     (let t = trim_start s in
      if t = [] then []
      else case split_once_ws t of None \<Rightarrow> [t] | Some (w, after) \<Rightarrow> w # split_whitespace after)"
  by auto
termination
proof (relation "measure length")
  fix s t after and p :: "string \<times> string" and w
  assume t: "t = trim_start s" "t \<noteq> []" and split: "split_once_ws t = Some p" "(w, after) = p"
  have shorter: "length b < length r" if "split_once_ws r = Some (a, b)" for r a b
    using that
  proof (induction r arbitrary: a)
    case (Cons c cs)
    show ?case
    proof (cases "ws_prefix (c # cs)")
      case None
      with Cons show ?thesis by auto
    next
      case (Some w)
      with Cons.prems ws_prefix_Some(4,5) [OF Some] show ?thesis by auto
    qed
  qed simp
  have "length after < length t" using shorter split by (metis split(2))
  then show "(after, s) \<in> measure length" using length_trim_start [of s] t(1) by simp
qed simp

declare split_whitespace.simps [simp del]

definition is_continuation :: "char \<Rightarrow> bool" where
  "is_continuation c \<longleftrightarrow> 128 \<le> (of_char c :: nat) \<and> of_char c < (192 :: nat)"

function utf8_chars :: "string \<Rightarrow> string list" where
  "utf8_chars [] = []"
| "utf8_chars (c # cs) = (c # takeWhile is_continuation cs) # utf8_chars (dropWhile is_continuation cs)"
  by pat_completeness auto
termination
  by (relation "measure length") (auto simp: less_Suc_eq_le length_dropWhile_le)

text \<open>\<open>trim_end_matches\<close> with a pattern, at most \<open>n\<close> times.\<close>

fun trim_end_pattern :: "nat \<Rightarrow> string \<Rightarrow> string \<Rightarrow> string" where
  "trim_end_pattern 0 p s = s"
| "trim_end_pattern (Suc n) p s = (case strip_suffix p s of None \<Rightarrow> s | Some t \<Rightarrow> trim_end_pattern n p t)"

end
