(* ===== verification/Token_Store.thy ===== *)
theory Token_Store
  imports Rust_Text
begin

text \<open>
  The bearer-credential repositories of \<open>akashic-store-pg\<close>: \<open>PgSessionTokenRepo\<close>,
  \<open>PgMcpTokenRepo\<close>, \<open>PgPassthroughTokenRepo\<close>, \<open>PgAccountAuditRepo\<close>
  (\<open>repos/identity.rs\<close>) and \<open>PgPublishTokenRepo\<close> (\<open>repos/publish_token.rs\<close>).

  Each operation takes the availability \<open>up\<close> of the database (a statement on a broken pool is an
  \<open>Err\<close>), the instants the statement and the process read, and the table. SHA-256 and the random
  UUIDs are arguments. A statement sent to the background with \<open>tokio::spawn\<close> is returned as a
  pending task and executed by an operation of its own, at any later time.

  The locale \<open>bearer_store\<close> is the contract that the MCP-token and the publish-token repository
  share: unique rows that are never deleted and never un-revoked. Its theorem (a revoked credential
  never authenticates again, whatever runs afterwards) is proved once and interpreted twice.
\<close>

section \<open>Sessions\<close>

record session_db_row =
  ss_api_key :: string
  ss_username :: string
  ss_name :: "string option"
  ss_avatar_url :: "string option"
  ss_gitlab_token :: string
  ss_expires_at :: "instant option"
  ss_gitlab_user_id :: "int option"

record session_row =
  sr_username :: string
  sr_name :: "string option"
  sr_avatar_url :: "string option"
  sr_gitlab_token :: string
  sr_gitlab_user_id :: "int option"

definition session_live :: "instant \<Rightarrow> session_db_row \<Rightarrow> bool" where
  "session_live now r \<longleftrightarrow> (case ss_expires_at r of None \<Rightarrow> True | Some e \<Rightarrow> now < e)"

definition validate_session ::
  "bool \<Rightarrow> instant \<Rightarrow> string \<Rightarrow> session_db_row list \<Rightarrow> session_row option db" where
  "validate_session up now api_key t =
     (if \<not> up then Inl Db_unavailable
      else Inr (map_option
        (\<lambda>r. \<lparr>sr_username = ss_username r, sr_name = ss_name r, sr_avatar_url = ss_avatar_url r,
              sr_gitlab_token = ss_gitlab_token r, sr_gitlab_user_id = ss_gitlab_user_id r\<rparr>)
        (fetch_optional (\<lambda>r. ss_api_key r = api_key \<and> session_live now r) t)))"

definition insert_session ::
  "bool \<Rightarrow> instant \<Rightarrow> string \<Rightarrow> string \<Rightarrow> string option \<Rightarrow> string option \<Rightarrow> string \<Rightarrow> nat \<Rightarrow> int option
   \<Rightarrow> session_db_row list \<Rightarrow> unit db \<times> session_db_row list" where
  "insert_session up app_now api_key username nm avatar gitlab_token ttl_secs gitlab_user_id t =
     (let expires_at = (if ttl_secs = 0 then None else Some (app_now + seconds (int ttl_secs))) in
      if \<not> up then (Inl Db_unavailable, t)
      else if api_key \<in> set (map ss_api_key t)
      then (Inr (), update_where (\<lambda>r. ss_api_key r = api_key)
              (\<lambda>r. r\<lparr>ss_gitlab_token := gitlab_token, ss_expires_at := expires_at,
                     ss_gitlab_user_id := gitlab_user_id\<rparr>) t)
      else (Inr (), t @ [\<lparr>ss_api_key = api_key, ss_username = username, ss_name = nm,
              ss_avatar_url = avatar, ss_gitlab_token = gitlab_token, ss_expires_at = expires_at,
              ss_gitlab_user_id = gitlab_user_id\<rparr>]))"

definition remove_session ::
  "bool \<Rightarrow> string \<Rightarrow> session_db_row list \<Rightarrow> unit db \<times> session_db_row list" where
  "remove_session up api_key t =
     (Inr (), if up then delete_where (\<lambda>r. ss_api_key r = api_key) t else t)"

definition cleanup_expired_sessions ::
  "bool \<Rightarrow> instant \<Rightarrow> session_db_row list \<Rightarrow> unit db \<times> session_db_row list" where
  "cleanup_expired_sessions up now t =
     (Inr (), if up then delete_where
        (\<lambda>r. case ss_expires_at r of None \<Rightarrow> False | Some e \<Rightarrow> e < now) t else t)"

section \<open>MCP tokens\<close>

record mcp_token_row =
  mt_id :: uuid
  mt_token_hash :: string
  mt_user_id :: int
  mt_user_login :: string
  mt_label :: "string option"
  mt_issued_at :: instant
  mt_last_used_at :: "instant option"
  mt_expires_at :: instant
  mt_revoked_at :: "instant option"

record validated_mcp_token =
  vm_token_id :: uuid
  vm_user_id :: int
  vm_user_login :: string

definition issue_mcp_token ::
  "(string \<Rightarrow> string) \<Rightarrow> bool \<Rightarrow> instant \<Rightarrow> uuid \<Rightarrow> uuid \<Rightarrow> int \<Rightarrow> string \<Rightarrow> string option
   \<Rightarrow> mcp_token_row list \<Rightarrow> (uuid \<times> string) db \<times> mcp_token_row list" where
  "issue_mcp_token sha256 up now fresh row_id user_id user_login lbl t =
     (let token_secret = remove_hyphens (uuid_to_string fresh);
          plaintext = ''ak_'' @ token_secret;
          h = sha256 token_secret in
      if \<not> up then (Inl Db_unavailable, t)
      else if row_id \<in> set (map mt_id t) \<or> h \<in> set (map mt_token_hash t)
      then (Inl Unique_violation, t)
      else (Inr (row_id, plaintext),
            t @ [\<lparr>mt_id = row_id, mt_token_hash = h, mt_user_id = user_id,
                  mt_user_login = user_login, mt_label = lbl, mt_issued_at = now,
                  mt_last_used_at = None, mt_expires_at = now + days 90,
                  mt_revoked_at = None\<rparr>]))"

text \<open>
  The shape test on a presented bearer, shared by both token families: the prefix, then exactly 32
  hexadecimal digits. \<open>None\<close> is the early \<open>return Ok(None)\<close>.
\<close>

definition bearer_secret :: "string \<Rightarrow> string \<Rightarrow> string option" where
  "bearer_secret pre presented =
     (case strip_prefix pre presented of
        None \<Rightarrow> None
      | Some s \<Rightarrow> if length s \<noteq> 32 \<or> \<not> list_all is_ascii_hexdigit s then None else Some s)"

definition needs_touch :: "instant \<Rightarrow> instant option \<Rightarrow> bool" where
  "needs_touch app_now last_used =
     (case last_used of None \<Rightarrow> True | Some u \<Rightarrow> app_now - u > seconds 60)"

definition mcp_live :: "instant \<Rightarrow> string \<Rightarrow> mcp_token_row \<Rightarrow> bool" where
  "mcp_live now h r \<longleftrightarrow> mt_token_hash r = h \<and> mt_revoked_at r = None \<and> now < mt_expires_at r"

text \<open>The second component lists the rows whose background sliding-TTL update was spawned.\<close>

definition validate_mcp_token ::
  "(string \<Rightarrow> string) \<Rightarrow> bool \<Rightarrow> instant \<Rightarrow> instant \<Rightarrow> string \<Rightarrow> mcp_token_row list
   \<Rightarrow> validated_mcp_token option db \<times> uuid list" where
  "validate_mcp_token sha256 up now app_now presented t =
     (case bearer_secret ''ak_'' presented of
        None \<Rightarrow> (Inr None, [])
      | Some token_secret \<Rightarrow>
          if \<not> up then (Inl Db_unavailable, [])
          else (case fetch_optional (mcp_live now (sha256 token_secret)) t of
                  None \<Rightarrow> (Inr None, [])
                | Some r \<Rightarrow>
                    (Inr (Some \<lparr>vm_token_id = mt_id r, vm_user_id = mt_user_id r,
                                vm_user_login = mt_user_login r\<rparr>),
                     if needs_touch app_now (mt_last_used_at r) then [mt_id r] else [])))"

definition touch_mcp_token ::
  "bool \<Rightarrow> instant \<Rightarrow> uuid \<Rightarrow> mcp_token_row list \<Rightarrow> mcp_token_row list" where
  "touch_mcp_token up now row_id t =
     (if up then update_where (\<lambda>r. mt_id r = row_id)
        (\<lambda>r. r\<lparr>mt_last_used_at := Some now, mt_expires_at := now + days 90\<rparr>) t else t)"

definition revoke_mcp_token ::
  "bool \<Rightarrow> instant \<Rightarrow> uuid \<Rightarrow> mcp_token_row list \<Rightarrow> unit db \<times> mcp_token_row list" where
  "revoke_mcp_token up now token_id t =
     (if \<not> up then (Inl Db_unavailable, t)
      else (Inr (), update_where (\<lambda>r. mt_id r = token_id \<and> mt_revoked_at r = None)
                      (\<lambda>r. r\<lparr>mt_revoked_at := Some now\<rparr>) t))"

section \<open>Passthrough tombstones\<close>

record tombstone_row =
  tb_token_id_hash :: string
  tb_revoked_by :: int

definition tombstone_passthrough ::
  "bool \<Rightarrow> string \<Rightarrow> int \<Rightarrow> tombstone_row list \<Rightarrow> unit db \<times> tombstone_row list" where
  "tombstone_passthrough up pre revoked_by t =
     (if \<not> up then (Inl Db_unavailable, t)
      else (Inr (), if pre \<in> set (map tb_token_id_hash t) then t
                    else t @ [\<lparr>tb_token_id_hash = pre, tb_revoked_by = revoked_by\<rparr>]))"

definition check_passthrough_revoked :: "bool \<Rightarrow> string \<Rightarrow> tombstone_row list \<Rightarrow> bool db" where
  "check_passthrough_revoked up pre t =
     (if \<not> up then Inl Db_unavailable
      else Inr (fetch_optional (\<lambda>r. tb_token_id_hash r = pre) t \<noteq> None))"

section \<open>Publish tokens\<close>

record publish_token_row =
  pt_id :: uuid
  pt_token_hash :: string
  pt_repo_name :: string
  pt_created_by :: string
  pt_created_at :: instant
  pt_expires_at :: "instant option"
  pt_revoked_at :: "instant option"
  pt_last_used_at :: "instant option"

record validated_publish_token =
  vp_token_id :: uuid
  vp_repo_name :: string

definition issue_publish_token ::
  "(string \<Rightarrow> string) \<Rightarrow> bool \<Rightarrow> instant \<Rightarrow> uuid \<Rightarrow> uuid \<Rightarrow> string \<Rightarrow> string
   \<Rightarrow> publish_token_row list \<Rightarrow> (uuid \<times> string) db \<times> publish_token_row list" where
  "issue_publish_token sha256 up now fresh row_id repo_name created_by t =
     (let token_secret = remove_hyphens (uuid_to_string fresh);
          plaintext = ''akp_'' @ token_secret;
          h = sha256 token_secret in
      if \<not> up then (Inl Db_unavailable, t)
      else if row_id \<in> set (map pt_id t) \<or> h \<in> set (map pt_token_hash t)
      then (Inl Unique_violation, t)
      else (Inr (row_id, plaintext),
            t @ [\<lparr>pt_id = row_id, pt_token_hash = h, pt_repo_name = repo_name,
                  pt_created_by = created_by, pt_created_at = now,
                  pt_expires_at = Some (now + days 90), pt_revoked_at = None,
                  pt_last_used_at = None\<rparr>]))"

text \<open>A \<open>NULL\<close> in \<open>expires_at > now()\<close> makes the condition false: such a row is expired.\<close>

definition publish_live :: "instant \<Rightarrow> string \<Rightarrow> publish_token_row \<Rightarrow> bool" where
  "publish_live now h r \<longleftrightarrow>
     pt_token_hash r = h \<and> pt_revoked_at r = None
     \<and> (case pt_expires_at r of None \<Rightarrow> False | Some e \<Rightarrow> now < e)"

definition validate_publish_token ::
  "(string \<Rightarrow> string) \<Rightarrow> bool \<Rightarrow> instant \<Rightarrow> instant \<Rightarrow> string \<Rightarrow> publish_token_row list
   \<Rightarrow> validated_publish_token option db \<times> uuid list" where
  "validate_publish_token sha256 up now app_now presented t =
     (case bearer_secret ''akp_'' presented of
        None \<Rightarrow> (Inr None, [])
      | Some token_secret \<Rightarrow>
          if \<not> up then (Inl Db_unavailable, [])
          else (case fetch_optional (publish_live now (sha256 token_secret)) t of
                  None \<Rightarrow> (Inr None, [])
                | Some r \<Rightarrow>
                    (Inr (Some \<lparr>vp_token_id = pt_id r, vp_repo_name = pt_repo_name r\<rparr>),
                     if needs_touch app_now (pt_last_used_at r) then [pt_id r] else [])))"

definition touch_publish_token ::
  "bool \<Rightarrow> instant \<Rightarrow> uuid \<Rightarrow> publish_token_row list \<Rightarrow> publish_token_row list" where
  "touch_publish_token up now row_id t =
     (if up then update_where (\<lambda>r. pt_id r = row_id)
        (\<lambda>r. r\<lparr>pt_last_used_at := Some now, pt_expires_at := Some (now + days 90)\<rparr>) t else t)"

definition revoke_publish_token ::
  "bool \<Rightarrow> instant \<Rightarrow> uuid \<Rightarrow> publish_token_row list \<Rightarrow> unit db \<times> publish_token_row list" where
  "revoke_publish_token up now token_id t =
     (if \<not> up then (Inl Db_unavailable, t)
      else (Inr (), update_where (\<lambda>r. pt_id r = token_id \<and> pt_revoked_at r = None)
                      (\<lambda>r. r\<lparr>pt_revoked_at := Some now\<rparr>) t))"

record publish_token_summary =
  ps_id :: uuid
  ps_repo_name :: string
  ps_created_at :: instant
  ps_last_used_at :: "instant option"
  ps_expires_at :: "instant option"
  ps_revoked_at :: "instant option"

definition list_publish_tokens ::
  "bool \<Rightarrow> string \<Rightarrow> publish_token_row list \<Rightarrow> publish_token_summary list db" where
  "list_publish_tokens up created_by t =
     (if \<not> up then Inl Db_unavailable
      else Inr (map (\<lambda>r. \<lparr>ps_id = pt_id r, ps_repo_name = pt_repo_name r,
                          ps_created_at = pt_created_at r, ps_last_used_at = pt_last_used_at r,
                          ps_expires_at = pt_expires_at r, ps_revoked_at = pt_revoked_at r\<rparr>)
             (sort_key (\<lambda>r. - pt_created_at r) (filter (\<lambda>r. pt_created_by r = created_by) t))))"

definition check_publish_token_ownership ::
  "bool \<Rightarrow> uuid \<Rightarrow> publish_token_row list \<Rightarrow> string option db" where
  "check_publish_token_ownership up token_id t =
     (if \<not> up then Inl Db_unavailable
      else Inr (map_option pt_created_by (fetch_optional (\<lambda>r. pt_id r = token_id) t)))"

section \<open>Account listing\<close>

record mcp_token_summary =
  ms_id :: uuid
  ms_label :: "string option"
  ms_issued_at :: instant
  ms_last_used_at :: "instant option"
  ms_expires_at :: instant
  ms_revoked_at :: "instant option"

definition list_my_tokens ::
  "bool \<Rightarrow> int \<Rightarrow> mcp_token_row list \<Rightarrow> mcp_token_summary list db" where
  "list_my_tokens up user_id t =
     (if \<not> up then Inl Db_unavailable
      else Inr (map (\<lambda>r. \<lparr>ms_id = mt_id r, ms_label = mt_label r, ms_issued_at = mt_issued_at r,
                          ms_last_used_at = mt_last_used_at r, ms_expires_at = mt_expires_at r,
                          ms_revoked_at = mt_revoked_at r\<rparr>)
             (sort_key (\<lambda>r. - mt_issued_at r) (filter (\<lambda>r. mt_user_id r = user_id) t))))"

definition check_token_ownership :: "bool \<Rightarrow> uuid \<Rightarrow> mcp_token_row list \<Rightarrow> int option db" where
  "check_token_ownership up token_id t =
     (if \<not> up then Inl Db_unavailable
      else Inr (map_option mt_user_id (fetch_optional (\<lambda>r. mt_id r = token_id) t)))"


section \<open>Histories of the token tables\<close>

text \<open>
  Everything that can write \<open>mcp_tokens\<close> and \<open>publish_tokens\<close>: issuing, revoking and the
  background sliding-TTL update, in any order and at any time. A validation only reads.
\<close>

datatype mcp_op =
    Mcp_issue bool instant uuid uuid int string "string option"
  | Mcp_touch bool instant uuid
  | Mcp_revoke bool instant uuid

fun mcp_exec :: "(string \<Rightarrow> string) \<Rightarrow> mcp_op \<Rightarrow> mcp_token_row list \<Rightarrow> mcp_token_row list" where
  "mcp_exec sha256 (Mcp_issue up now fresh i uid login lbl) t =
     snd (issue_mcp_token sha256 up now fresh i uid login lbl t)"
| "mcp_exec sha256 (Mcp_touch up now i) t = touch_mcp_token up now i t"
| "mcp_exec sha256 (Mcp_revoke up now i) t = snd (revoke_mcp_token up now i t)"

datatype publish_op =
    Pub_issue bool instant uuid uuid string string
  | Pub_touch bool instant uuid
  | Pub_revoke bool instant uuid

fun publish_exec ::
  "(string \<Rightarrow> string) \<Rightarrow> publish_op \<Rightarrow> publish_token_row list \<Rightarrow> publish_token_row list" where
  "publish_exec sha256 (Pub_issue up now fresh i repo by_user) t =
     snd (issue_publish_token sha256 up now fresh i repo by_user t)"
| "publish_exec sha256 (Pub_touch up now i) t = touch_publish_token up now i t"
| "publish_exec sha256 (Pub_revoke up now i) t = snd (revoke_publish_token up now i t)"

definition mcp_accepts ::
  "(string \<Rightarrow> string) \<Rightarrow> bool \<times> instant \<times> instant \<Rightarrow> string \<Rightarrow> mcp_token_row list \<Rightarrow> uuid option" where
  "mcp_accepts sha256 env presented t =
     (case env of (up, now, app_now) \<Rightarrow>
        Option.bind (db_ok (fst (validate_mcp_token sha256 up now app_now presented t)))
          (map_option vm_token_id))"

definition publish_accepts ::
  "(string \<Rightarrow> string) \<Rightarrow> bool \<times> instant \<times> instant \<Rightarrow> string \<Rightarrow> publish_token_row list \<Rightarrow> uuid option" where
  "publish_accepts sha256 env presented t =
     (case env of (up, now, app_now) \<Rightarrow>
        Option.bind (db_ok (fst (validate_publish_token sha256 up now app_now presented t)))
          (map_option vp_token_id))"

definition mcp_secret_hash :: "(string \<Rightarrow> string) \<Rightarrow> string \<Rightarrow> string" where
  "mcp_secret_hash sha256 presented = sha256 (drop 3 presented)"

definition publish_secret_hash :: "(string \<Rightarrow> string) \<Rightarrow> string \<Rightarrow> string" where
  "publish_secret_hash sha256 presented = sha256 (drop 4 presented)"

section \<open>The contract of a bearer-token repository\<close>

locale bearer_store =
  fixes row_id :: "'row \<Rightarrow> uuid"
    and row_hash :: "'row \<Rightarrow> string"
    and revoked :: "'row \<Rightarrow> bool"
    and secret_hash :: "string \<Rightarrow> string"
    and exec :: "'op \<Rightarrow> 'row list \<Rightarrow> 'row list"
    and accepts :: "'env \<Rightarrow> string \<Rightarrow> 'row list \<Rightarrow> uuid option"
  assumes exec_keeps:
      "r \<in> set t \<Longrightarrow> \<exists>r' \<in> set (exec e t).
         row_id r' = row_id r \<and> row_hash r' = row_hash r \<and> (revoked r \<longrightarrow> revoked r')"
    and exec_unique:
      "distinct (map row_id t) \<Longrightarrow> distinct (map row_hash t) \<Longrightarrow>
         distinct (map row_id (exec e t)) \<and> distinct (map row_hash (exec e t))"
    and accepts_live_row:
      "accepts env p t = Some i \<Longrightarrow>
         \<exists>r \<in> set t. row_id r = i \<and> row_hash r = secret_hash p \<and> \<not> revoked r"
begin

lemma run_keeps:
  "r \<in> set t \<Longrightarrow> \<exists>r' \<in> set (fold exec es t).
     row_id r' = row_id r \<and> row_hash r' = row_hash r \<and> (revoked r \<longrightarrow> revoked r')"
proof (induction es arbitrary: r t)
  case Nil
  then show ?case by auto
next
  case (Cons e es)
  obtain r1 where r1: "r1 \<in> set (exec e t)" "row_id r1 = row_id r" "row_hash r1 = row_hash r"
    "revoked r \<longrightarrow> revoked r1"
    using exec_keeps [OF Cons.prems, of e] by blast
  then show ?case using Cons.IH [OF r1(1)] by auto
qed

lemma run_unique:
  "distinct (map row_id t) \<Longrightarrow> distinct (map row_hash t) \<Longrightarrow>
     distinct (map row_id (fold exec es t)) \<and> distinct (map row_hash (fold exec es t))"
proof (induction es arbitrary: t)
  case (Cons e es)
  then show ?case using exec_unique [OF Cons.prems, of e] by simp
qed simp

lemma distinct_same_row:
  "distinct (map f xs) \<Longrightarrow> x \<in> set xs \<Longrightarrow> y \<in> set xs \<Longrightarrow> f x = f y \<Longrightarrow> x = y"
  by (metis distinct_map inj_onD)

lemma revoked_dead:
  assumes "distinct (map row_id t)" and "distinct (map row_hash t)"
    and "r \<in> set t" and "revoked r"
  shows "accepts env p (fold exec es t) \<noteq> Some (row_id r)"
    and "secret_hash p = row_hash r \<Longrightarrow> accepts env p (fold exec es t) = None"
proof -
  obtain r' where r': "r' \<in> set (fold exec es t)" "row_id r' = row_id r"
    "row_hash r' = row_hash r" "revoked r'"
    using run_keeps [OF assms(3)] assms(4) by blast
  note uniq = run_unique [OF assms(1,2), of es]
  show "accepts env p (fold exec es t) \<noteq> Some (row_id r)"
  proof
    assume "accepts env p (fold exec es t) = Some (row_id r)"
    then obtain x where x: "x \<in> set (fold exec es t)" "row_id x = row_id r" "\<not> revoked x"
      using accepts_live_row by blast
    then have "x = r'" using distinct_same_row [of row_id] uniq r' by metis
    with x r' show False by simp
  qed
  show "accepts env p (fold exec es t) = None" if h: "secret_hash p = row_hash r"
  proof (rule ccontr)
    assume "accepts env p (fold exec es t) \<noteq> None"
    then obtain i where "accepts env p (fold exec es t) = Some i" by blast
    then obtain x where x: "x \<in> set (fold exec es t)" "row_hash x = row_hash r" "\<not> revoked x"
      using accepts_live_row h by force
    then have "x = r'" using distinct_same_row [of row_hash] uniq r' by metis
    with x r' show False by simp
  qed
qed

end

section \<open>Lemmas on the token tables\<close>

lemma bearer_secret_Some:
  "bearer_secret pre p = Some s \<Longrightarrow> p = pre @ s \<and> length s = 32"
  by (auto simp: bearer_secret_def strip_prefix_Some split: option.splits if_splits)

lemma bearer_secret_uuid [simp]: "bearer_secret pre (pre @ uuid_digits u) = Some (uuid_digits u)"
  by (simp add: bearer_secret_def list_all_iff uuid_digits_hexdigit)

lemma mcp_exec_keeps:
  assumes "r \<in> set t"
  shows "\<exists>r' \<in> set (mcp_exec sha256 e t). mt_id r' = mt_id r \<and> mt_token_hash r' = mt_token_hash r
           \<and> (mt_revoked_at r \<noteq> None \<longrightarrow> mt_revoked_at r' \<noteq> None)"
  using assms
  by (cases e)
     (auto simp: issue_mcp_token_def touch_mcp_token_def revoke_mcp_token_def Let_def
       intro!: update_where_keeps)

lemma mcp_exec_unique:
  "distinct (map mt_id t) \<Longrightarrow> distinct (map mt_token_hash t) \<Longrightarrow>
     distinct (map mt_id (mcp_exec sha256 e t)) \<and> distinct (map mt_token_hash (mcp_exec sha256 e t))"
  by (cases e)
     (auto simp: issue_mcp_token_def touch_mcp_token_def revoke_mcp_token_def map_update_where Let_def)

lemma mcp_accepts_live_row:
  assumes "mcp_accepts sha256 env p t = Some i"
  shows "\<exists>r \<in> set t. mt_id r = i \<and> mt_token_hash r = mcp_secret_hash sha256 p
           \<and> \<not> mt_revoked_at r \<noteq> None"
  using assms
  by (auto simp: mcp_accepts_def validate_mcp_token_def mcp_secret_hash_def mcp_live_def
      split: option.splits if_splits prod.splits dest!: bearer_secret_Some fetch_optional_Some)

lemma publish_exec_keeps:
  assumes "r \<in> set t"
  shows "\<exists>r' \<in> set (publish_exec sha256 e t). pt_id r' = pt_id r
           \<and> pt_token_hash r' = pt_token_hash r
           \<and> (pt_revoked_at r \<noteq> None \<longrightarrow> pt_revoked_at r' \<noteq> None)"
  using assms
  by (cases e)
     (auto simp: issue_publish_token_def touch_publish_token_def revoke_publish_token_def Let_def
       intro!: update_where_keeps)

lemma publish_exec_unique:
  "distinct (map pt_id t) \<Longrightarrow> distinct (map pt_token_hash t) \<Longrightarrow>
     distinct (map pt_id (publish_exec sha256 e t))
     \<and> distinct (map pt_token_hash (publish_exec sha256 e t))"
  by (cases e)
     (auto simp: issue_publish_token_def touch_publish_token_def revoke_publish_token_def
       map_update_where Let_def)

lemma publish_accepts_live_row:
  assumes "publish_accepts sha256 env p t = Some i"
  shows "\<exists>r \<in> set t. pt_id r = i \<and> pt_token_hash r = publish_secret_hash sha256 p
           \<and> \<not> pt_revoked_at r \<noteq> None"
  using assms
  by (auto simp: publish_accepts_def validate_publish_token_def publish_secret_hash_def publish_live_def
      split: option.splits if_splits prod.splits dest!: bearer_secret_Some fetch_optional_Some)

interpretation mcp: bearer_store mt_id mt_token_hash "\<lambda>r. mt_revoked_at r \<noteq> None"
  "mcp_secret_hash sha256" "mcp_exec sha256" "mcp_accepts sha256" for sha256
  by (unfold_locales) (rule mcp_exec_keeps mcp_exec_unique mcp_accepts_live_row; assumption)+

interpretation pub: bearer_store pt_id pt_token_hash "\<lambda>r. pt_revoked_at r \<noteq> None"
  "publish_secret_hash sha256" "publish_exec sha256" "publish_accepts sha256" for sha256
  by (unfold_locales) (rule publish_exec_keeps publish_exec_unique publish_accepts_live_row; assumption)+


section \<open>A live token stays live until it is revoked or 90 days pass\<close>

fun mcp_op_harmless :: "instant \<Rightarrow> uuid \<Rightarrow> mcp_op \<Rightarrow> bool" where
  "mcp_op_harmless since i (Mcp_issue up now fresh j uid login lbl) = True"
| "mcp_op_harmless since i (Mcp_touch up now j) = (j = i \<longrightarrow> since \<le> now)"
| "mcp_op_harmless since i (Mcp_revoke up now j) = (j \<noteq> i)"

definition mcp_good_until :: "instant \<Rightarrow> mcp_token_row \<Rightarrow> mcp_token_row \<Rightarrow> bool" where
  "mcp_good_until e r0 r \<longleftrightarrow> mt_id r = mt_id r0 \<and> mt_token_hash r = mt_token_hash r0
     \<and> mt_user_id r = mt_user_id r0 \<and> mt_user_login r = mt_user_login r0
     \<and> mt_revoked_at r = None \<and> e \<le> mt_expires_at r"

lemma mcp_exec_good:
  assumes "r \<in> set t" and "mcp_good_until (since + days 90) r0 r"
    and "mcp_op_harmless since (mt_id r0) e"
  shows "\<exists>r' \<in> set (mcp_exec sha256 e t). mcp_good_until (since + days 90) r0 r'"
  using assms
  by (cases e)
     (auto simp: issue_mcp_token_def touch_mcp_token_def revoke_mcp_token_def mcp_good_until_def Let_def
       intro!: update_where_keeps)

lemma mcp_run_good:
  assumes "r \<in> set t" and "mcp_good_until (since + days 90) r0 r"
    and "\<forall>e \<in> set es. mcp_op_harmless since (mt_id r0) e"
  shows "\<exists>r' \<in> set (fold (mcp_exec sha256) es t). mcp_good_until (since + days 90) r0 r'"
  using assms
proof (induction es arbitrary: r t)
  case (Cons e es)
  then obtain r1 where "r1 \<in> set (mcp_exec sha256 e t)" "mcp_good_until (since + days 90) r0 r1"
    using mcp_exec_good [of r t since r0 e sha256] by auto
  with Cons show ?case by auto
qed auto

lemma mcp_reachable_unique:
  "distinct (map mt_id (fold (mcp_exec sha256) es []))
   \<and> distinct (map mt_token_hash (fold (mcp_exec sha256) es []))"
  by (rule mcp.run_unique) simp_all

lemma publish_reachable_unique:
  "distinct (map pt_id (fold (publish_exec sha256) es []))
   \<and> distinct (map pt_token_hash (fold (publish_exec sha256) es []))"
  by (rule pub.run_unique) simp_all

section \<open>Properties\<close>

text \<open>C1. A revoked MCP token never authenticates again. From any table the repository can reach,
  once \<open>revoke_mcp_token\<close> has run for a row, no later history of issues, revocations and
  delayed sliding-TTL updates makes any bearer validate as that token, and a bearer whose secret
  hashes to that row validates as nothing at all.\<close>

theorem mcp_revoked_never_authenticates:
  assumes "r \<in> set (fold (mcp_exec sha256) before [])"
  shows "let t = snd (revoke_mcp_token True now (mt_id r) (fold (mcp_exec sha256) before []));
             t' = fold (mcp_exec sha256) later t
         in mcp_accepts sha256 env p t' \<noteq> Some (mt_id r)
            \<and> (mcp_secret_hash sha256 p = mt_token_hash r \<longrightarrow> mcp_accepts sha256 env p t' = None)"
proof -
  let ?base = "fold (mcp_exec sha256) before []"
  let ?t = "mcp_exec sha256 (Mcp_revoke True now (mt_id r)) ?base"
  have "\<exists>r' \<in> set ?t. mt_id r' = mt_id r \<and> mt_token_hash r' = mt_token_hash r
          \<and> mt_revoked_at r' \<noteq> None"
    using assms by (auto simp: revoke_mcp_token_def intro!: update_where_keeps)
  then obtain r' where r': "r' \<in> set ?t" "mt_id r' = mt_id r" "mt_token_hash r' = mt_token_hash r"
    "mt_revoked_at r' \<noteq> None" by blast
  have u: "distinct (map mt_id ?t)" "distinct (map mt_token_hash ?t)"
    using mcp_exec_unique mcp_reachable_unique by blast+
  show ?thesis
    using mcp.revoked_dead [OF u r'(1,4), where env = env and p = p and es = later and ?sha256.0 = sha256] r'(2,3) by (simp add: Let_def)
qed

theorem mcp_revoked_never_authenticates_witness:
  "let before = [Mcp_issue True 0 5 7 42 ''ada'' None];
       r = hd (fold (mcp_exec (\<lambda>s. s)) before []);
       t = snd (revoke_mcp_token True 10 (mt_id r) (fold (mcp_exec (\<lambda>s. s)) before []));
       t' = fold (mcp_exec (\<lambda>s. s)) [Mcp_touch True 11 7] t
   in mcp_accepts (\<lambda>s. s) (True, 12, 12) (''ak_'' @ uuid_digits 5) t' \<noteq> Some (mt_id r)"
proof -
  let ?before = "[Mcp_issue True 0 5 7 42 ''ada'' None]"
  have "hd (fold (mcp_exec (\<lambda>s. s)) ?before []) \<in> set (fold (mcp_exec (\<lambda>s. s)) ?before [])"
    by (simp add: issue_mcp_token_def Let_def)
  from mcp_revoked_never_authenticates
    [OF this, of 10 "[Mcp_touch True 11 7]" "(True, 12, 12)" "''ak_'' @ uuid_digits 5"]
  show ?thesis unfolding Let_def by blast
qed

text \<open>The same guarantee for repo-scoped publish tokens: after \<open>revoke_publish_token\<close> no
  history of the \<open>publish_tokens\<close> table lets the token authenticate again.\<close>

theorem publish_revoked_never_authenticates:
  assumes "r \<in> set (fold (publish_exec sha256) before [])"
  shows "let t = snd (revoke_publish_token True now (pt_id r) (fold (publish_exec sha256) before []));
             t' = fold (publish_exec sha256) later t
         in publish_accepts sha256 env p t' \<noteq> Some (pt_id r)
            \<and> (publish_secret_hash sha256 p = pt_token_hash r \<longrightarrow> publish_accepts sha256 env p t' = None)"
proof -
  let ?base = "fold (publish_exec sha256) before []"
  let ?t = "publish_exec sha256 (Pub_revoke True now (pt_id r)) ?base"
  have "\<exists>r' \<in> set ?t. pt_id r' = pt_id r \<and> pt_token_hash r' = pt_token_hash r
          \<and> pt_revoked_at r' \<noteq> None"
    using assms by (auto simp: revoke_publish_token_def intro!: update_where_keeps)
  then obtain r' where r': "r' \<in> set ?t" "pt_id r' = pt_id r" "pt_token_hash r' = pt_token_hash r"
    "pt_revoked_at r' \<noteq> None" by blast
  have u: "distinct (map pt_id ?t)" "distinct (map pt_token_hash ?t)"
    using publish_exec_unique publish_reachable_unique by blast+
  show ?thesis
    using pub.revoked_dead [OF u r'(1,4), where env = env and p = p and es = later and ?sha256.0 = sha256] r'(2,3) by (simp add: Let_def)
qed

theorem publish_revoked_never_authenticates_witness:
  "let before = [Pub_issue True 0 5 7 ''repo'' ''ada''];
       r = hd (fold (publish_exec (\<lambda>s. s)) before []);
       t = snd (revoke_publish_token True 10 (pt_id r) (fold (publish_exec (\<lambda>s. s)) before []));
       t' = fold (publish_exec (\<lambda>s. s)) [Pub_touch True 11 7] t
   in publish_accepts (\<lambda>s. s) (True, 12, 12) (''akp_'' @ uuid_digits 5) t' \<noteq> Some (pt_id r)"
proof -
  let ?before = "[Pub_issue True 0 5 7 ''repo'' ''ada'']"
  have "hd (fold (publish_exec (\<lambda>s. s)) ?before []) \<in> set (fold (publish_exec (\<lambda>s. s)) ?before [])"
    by (simp add: issue_publish_token_def Let_def)
  from publish_revoked_never_authenticates
    [OF this, of 10 "[Pub_touch True 11 7]" "(True, 12, 12)" "''akp_'' @ uuid_digits 5"]
  show ?thesis unfolding Let_def by blast
qed

text \<open>Round trip of an MCP token. The plaintext that \<open>issue_mcp_token\<close> returns, presented
  within 90 days, validates as exactly the issued token id, user id and login, through any history
  in which that token is not revoked and the clock of its sliding updates does not run back.\<close>

theorem mcp_issue_validate_roundtrip:
  assumes "issue_mcp_token sha256 True now fresh i uid login lbl (fold (mcp_exec sha256) before [])
             = (Inr (tid, plaintext), t)"
    and "\<forall>e \<in> set later. mcp_op_harmless now tid e"
    and "at < now + days 90"
  shows "fst (validate_mcp_token sha256 True at app_now plaintext (fold (mcp_exec sha256) later t))
         = Inr (Some \<lparr>vm_token_id = tid, vm_user_id = uid, vm_user_login = login\<rparr>)"
proof -
  let ?base = "fold (mcp_exec sha256) before []"
  let ?t = "fold (mcp_exec sha256) later t"
  let ?h = "sha256 (uuid_digits fresh)"
  define r0 where "r0 = \<lparr>mt_id = i, mt_token_hash = ?h, mt_user_id = uid, mt_user_login = login,
    mt_label = lbl, mt_issued_at = now, mt_last_used_at = None, mt_expires_at = now + days 90,
    mt_revoked_at = None\<rparr>"
  have t: "t = ?base @ [r0]" "tid = i" "plaintext = ''ak_'' @ uuid_digits fresh"
    using assms(1) by (auto simp: issue_mcp_token_def r0_def Let_def split: if_splits)
  have r0: "r0 \<in> set t" "mcp_good_until (now + days 90) r0 r0" "mt_id r0 = tid"
    by (simp_all add: t mcp_good_until_def r0_def)
  have "t = mcp_exec sha256 (Mcp_issue True now fresh i uid login lbl) ?base"
    using assms(1) by simp
  then have "distinct (map mt_id t) \<and> distinct (map mt_token_hash t)"
    using mcp_exec_unique mcp_reachable_unique by blast
  then have uniq: "distinct (map mt_token_hash ?t)" using mcp.run_unique by blast
  obtain r where r: "r \<in> set ?t" "mcp_good_until (now + days 90) r0 r"
    using mcp_run_good [OF r0(1,2)] assms(2) r0(3) by metis
  have "fetch_optional (mcp_live at ?h) ?t = Some r"
    using uniq r(1)
  proof (rule fetch_optional_key)
    show "mcp_live at ?h r" using r(2) assms(3) by (simp add: mcp_live_def mcp_good_until_def r0_def)
    then show "mt_token_hash x = mt_token_hash r" if "mcp_live at ?h x" for x
      using that by (simp add: mcp_live_def)
  qed
  then have "fst (validate_mcp_token sha256 True at app_now (''ak_'' @ uuid_digits fresh) ?t)
      = Inr (Some \<lparr>vm_token_id = mt_id r, vm_user_id = mt_user_id r, vm_user_login = mt_user_login r\<rparr>)"
    unfolding validate_mcp_token_def bearer_secret_uuid by simp
  with t r(2) show ?thesis by (simp add: mcp_good_until_def r0_def)
qed

theorem mcp_issue_validate_roundtrip_witness:
  "fst (validate_mcp_token (\<lambda>s. s) True (days 89) 0 (''ak_'' @ uuid_digits 5)
      (fold (mcp_exec (\<lambda>s. s)) [Mcp_touch True 11 7]
        (snd (issue_mcp_token (\<lambda>s. s) True 0 5 7 42 ''ada'' None []))))
    = Inr (Some \<lparr>vm_token_id = 7, vm_user_id = 42, vm_user_login = ''ada''\<rparr>)"
proof (rule mcp_issue_validate_roundtrip [where before = "[]" and now = 0])
  show "issue_mcp_token (\<lambda>s. s) True 0 5 7 42 ''ada'' None (fold (mcp_exec (\<lambda>s. s)) [] [])
      = (Inr (7, ''ak_'' @ uuid_digits 5),
         snd (issue_mcp_token (\<lambda>s. s) True 0 5 7 42 ''ada'' None []))"
    by (simp add: issue_mcp_token_def Let_def)
  show "\<forall>e \<in> set [Mcp_touch True 11 7]. mcp_op_harmless 0 7 e" by simp
  show "days 89 < 0 + days 90" by (simp add: days_def seconds_def)
qed

text \<open>A user's token listing is exactly that user's rows: every summary comes from a row of
  that user, every row of that user is listed, and the list is ordered newest first.\<close>

theorem list_my_tokens_exact:
  "\<exists>rows. mset rows = mset (filter (\<lambda>r. mt_user_id r = uid) t)
     \<and> list_my_tokens True uid t = Inr (map (\<lambda>r. \<lparr>ms_id = mt_id r, ms_label = mt_label r,
          ms_issued_at = mt_issued_at r, ms_last_used_at = mt_last_used_at r,
          ms_expires_at = mt_expires_at r, ms_revoked_at = mt_revoked_at r\<rparr>) rows)
     \<and> sorted_wrt (\<lambda>a b. mt_issued_at b \<le> mt_issued_at a) rows"
proof -
  let ?rows = "sort_key (\<lambda>r. - mt_issued_at r) (filter (\<lambda>r. mt_user_id r = uid) t)"
  have "sorted (map (\<lambda>r. - mt_issued_at r) ?rows)" by simp
  then have "sorted_wrt (\<lambda>a b. mt_issued_at b \<le> mt_issued_at a) ?rows"
    by (simp add: sorted_map)
  moreover have "mset ?rows = mset (filter (\<lambda>r. mt_user_id r = uid) t)" by simp
  ultimately show ?thesis by (intro exI [of _ ?rows]) (simp add: list_my_tokens_def)
qed

end
