(* ===== verification/Oauth_Grants.thy ===== *)
theory Oauth_Grants
  imports Token_Store
begin

text \<open>
  Authorization codes (\<open>repos/oauth_code.rs\<close>) and pending consents (\<open>repos/oauth_consent.rs\<close>):
  the two one-time artefacts of the MCP OAuth flow. Each is redeemed by one atomic
  \<open>UPDATE ... SET used_at = now() WHERE ... used_at IS NULL AND expires_at > now() RETURNING ...\<close>.

  The locale \<open>single_use\<close> is the contract of such an artefact; its theorem bounds the number of
  successful redemptions over any interleaving of redemptions and other statements by one. It is
  interpreted on the authorization-code and on the consent repository.
\<close>

section \<open>Authorization codes\<close>

record oauth_code_row =
  oc_code_hash :: string
  oc_client_id :: string
  oc_user_id :: int
  oc_user_login :: string
  oc_code_challenge :: string
  oc_redirect_uri :: string
  oc_expires_at :: instant
  oc_used_at :: "instant option"

record consumed_oauth_code =
  cc_client_id :: string
  cc_user_id :: int
  cc_user_login :: string
  cc_code_challenge :: string
  cc_redirect_uri :: string

text \<open>The secret is the 16 bytes of one random UUID followed by those of another.\<close>

definition uuid_bytes :: "uuid \<Rightarrow> 8 word list" where
  "uuid_bytes u = map (\<lambda>i. word_of_nat (unat u div 256 ^ (15 - i))) [0..<16]"

definition oauth_code_plaintext :: "uuid \<Rightarrow> uuid \<Rightarrow> string" where
  "oauth_code_plaintext u1 u2 = hex_of_bytes (uuid_bytes u1 @ uuid_bytes u2)"

definition issue_code ::
  "(string \<Rightarrow> string) \<Rightarrow> bool \<Rightarrow> instant \<Rightarrow> uuid \<Rightarrow> uuid \<Rightarrow> string \<Rightarrow> int \<Rightarrow> string \<Rightarrow> string \<Rightarrow> string
   \<Rightarrow> oauth_code_row list \<Rightarrow> string db \<times> oauth_code_row list" where
  "issue_code sha256 up now u1 u2 client_id user_id user_login code_challenge redirect_uri t =
     (let plaintext = oauth_code_plaintext u1 u2; h = sha256 plaintext in
      if \<not> up then (Inl Db_unavailable, t)
      else if h \<in> set (map oc_code_hash t) then (Inl Unique_violation, t)
      else (Inr plaintext,
            t @ [\<lparr>oc_code_hash = h, oc_client_id = client_id, oc_user_id = user_id,
                  oc_user_login = user_login, oc_code_challenge = code_challenge,
                  oc_redirect_uri = redirect_uri, oc_expires_at = now + seconds 600,
                  oc_used_at = None\<rparr>]))"

definition code_redeemable :: "instant \<Rightarrow> string \<Rightarrow> oauth_code_row \<Rightarrow> bool" where
  "code_redeemable now h r \<longleftrightarrow> oc_code_hash r = h \<and> oc_used_at r = None \<and> now < oc_expires_at r"

definition consume_code ::
  "(string \<Rightarrow> string) \<Rightarrow> bool \<Rightarrow> instant \<Rightarrow> string \<Rightarrow> oauth_code_row list
   \<Rightarrow> consumed_oauth_code option db \<times> oauth_code_row list" where
  "consume_code sha256 up now presented t =
     (let p = code_redeemable now (sha256 presented) in
      if \<not> up then (Inl Db_unavailable, t)
      else (Inr (map_option
              (\<lambda>r. \<lparr>cc_client_id = oc_client_id r, cc_user_id = oc_user_id r,
                    cc_user_login = oc_user_login r, cc_code_challenge = oc_code_challenge r,
                    cc_redirect_uri = oc_redirect_uri r\<rparr>) (fetch_optional p t)),
            update_where p (\<lambda>r. r\<lparr>oc_used_at := Some now\<rparr>) t))"

section \<open>Pending consents\<close>

record pending_consent_input =
  pi_client_id :: string
  pi_client_name :: "string option"
  pi_redirect_uri :: string
  pi_oauth_state :: string
  pi_code_challenge :: string

record consent_row =
  cn_consent_id :: uuid
  cn_user_id :: int
  cn_user_login :: string
  cn_client_id :: string
  cn_client_name :: "string option"
  cn_redirect_uri :: string
  cn_oauth_state :: string
  cn_code_challenge :: string
  cn_expires_at :: instant
  cn_used_at :: "instant option"

record pending_consent =
  pc_client_id :: string
  pc_client_name :: "string option"
  pc_redirect_uri :: string
  pc_oauth_state :: string
  pc_code_challenge :: string
  pc_user_id :: int
  pc_user_login :: string

definition issue_pending ::
  "bool \<Rightarrow> instant \<Rightarrow> uuid \<Rightarrow> int \<Rightarrow> string \<Rightarrow> pending_consent_input
   \<Rightarrow> consent_row list \<Rightarrow> uuid db \<times> consent_row list" where
  "issue_pending up now fresh user_id user_login meta t =
     (if \<not> up then (Inl Db_unavailable, t)
      else if fresh \<in> set (map cn_consent_id t) then (Inl Unique_violation, t)
      else (Inr fresh,
            t @ [\<lparr>cn_consent_id = fresh, cn_user_id = user_id, cn_user_login = user_login,
                  cn_client_id = pi_client_id meta, cn_client_name = pi_client_name meta,
                  cn_redirect_uri = pi_redirect_uri meta, cn_oauth_state = pi_oauth_state meta,
                  cn_code_challenge = pi_code_challenge meta,
                  cn_expires_at = now + seconds 600, cn_used_at = None\<rparr>]))"

definition consent_redeemable :: "instant \<Rightarrow> uuid \<Rightarrow> int \<Rightarrow> consent_row \<Rightarrow> bool" where
  "consent_redeemable now consent_id user_id r \<longleftrightarrow>
     cn_consent_id r = consent_id \<and> cn_user_id r = user_id
     \<and> cn_used_at r = None \<and> now < cn_expires_at r"

definition redeem_pending ::
  "bool \<Rightarrow> instant \<Rightarrow> uuid \<Rightarrow> int \<Rightarrow> consent_row list
   \<Rightarrow> pending_consent option db \<times> consent_row list" where
  "redeem_pending up now consent_id user_id t =
     (let p = consent_redeemable now consent_id user_id in
      if \<not> up then (Inl Db_unavailable, t)
      else (Inr (map_option
              (\<lambda>r. \<lparr>pc_client_id = cn_client_id r, pc_client_name = cn_client_name r,
                    pc_redirect_uri = cn_redirect_uri r, pc_oauth_state = cn_oauth_state r,
                    pc_code_challenge = cn_code_challenge r, pc_user_id = cn_user_id r,
                    pc_user_login = cn_user_login r\<rparr>) (fetch_optional p t)),
            update_where p (\<lambda>r. r\<lparr>cn_used_at := Some now\<rparr>) t))"

section \<open>Histories with redemptions\<close>

text \<open>
  A history mixes redemptions (\<open>Inr\<close>) with the other statements on the table (\<open>Inl\<close>).
  \<open>redemptions\<close> lists the keys of the successful ones, in order.
\<close>

fun redemptions ::
  "('env \<Rightarrow> 'k \<Rightarrow> 's \<Rightarrow> 'v option \<times> 's) \<Rightarrow> ('op \<Rightarrow> 's \<Rightarrow> 's) \<Rightarrow> ('op + 'env \<times> 'k) list \<Rightarrow> 's
   \<Rightarrow> 'k list" where
  "redemptions consume exec [] s = []"
| "redemptions consume exec (Inl op # h) s = redemptions consume exec h (exec op s)"
| "redemptions consume exec (Inr (env, k) # h) s =
     (case consume env k s of
        (None, s') \<Rightarrow> redemptions consume exec h s'
      | (Some v, s') \<Rightarrow> k # redemptions consume exec h s')"

locale single_use =
  fixes consume :: "'env \<Rightarrow> 'k \<Rightarrow> 's \<Rightarrow> 'v option \<times> 's"
    and exec :: "'op \<Rightarrow> 's \<Rightarrow> 's"
    and inv :: "'s \<Rightarrow> bool"
    and spent :: "'k \<Rightarrow> 's \<Rightarrow> bool"
    and same :: "'k \<Rightarrow> 'k \<Rightarrow> bool"
  assumes inv_consume: "inv s \<Longrightarrow> inv (snd (consume env k s))"
    and inv_exec: "inv s \<Longrightarrow> inv (exec op s)"
    and consume_spends:
      "inv s \<Longrightarrow> fst (consume env k s) = Some v \<Longrightarrow> same k k' \<Longrightarrow> spent k' (snd (consume env k s))"
    and spent_refused: "inv s \<Longrightarrow> spent k s \<Longrightarrow> fst (consume env k s) = None"
    and spent_consume: "inv s \<Longrightarrow> spent k s \<Longrightarrow> spent k (snd (consume env k' s))"
    and spent_exec: "inv s \<Longrightarrow> spent k s \<Longrightarrow> spent k (exec op s)"
begin

lemma spent_never_redeemed:
  "inv s \<Longrightarrow> spent k s \<Longrightarrow> k \<notin> set (redemptions consume exec h s)"
proof (induction h arbitrary: s)
  case (Cons a h)
  show ?case
  proof (cases a)
    case (Inl op)
    with Cons show ?thesis by (simp add: inv_exec spent_exec)
  next
    case (Inr b)
    obtain env k' where b: "b = (env, k')" by (cases b)
    obtain r s' where c: "consume env k' s = (r, s')" by (cases "consume env k' s")
    have s': "inv s'" "spent k s'"
      using inv_consume [OF Cons.prems(1), of env k'] spent_consume [OF Cons.prems, of env k'] c by simp_all
    have "r \<noteq> None \<Longrightarrow> k' \<noteq> k" using spent_refused [OF Cons.prems, of env] c by auto
    with s' Cons.IH [of s'] Inr b c show ?thesis by (auto split: option.splits)
  qed
qed simp

lemma at_most_one_redemption:
  assumes "inv s" and "reflp same" and "symp same" and "transp same"
  shows "sorted_wrt (\<lambda>a b. \<not> same a b) (redemptions consume exec h s)"
  using assms(1)
proof (induction h arbitrary: s)
  case (Cons a h)
  show ?case
  proof (cases a)
    case (Inl op)
    with Cons show ?thesis by (simp add: inv_exec)
  next
    case (Inr b)
    obtain env k' where b: "b = (env, k')" by (cases b)
    obtain r s' where c: "consume env k' s = (r, s')" by (cases "consume env k' s")
    have s': "inv s'" using inv_consume [OF Cons.prems, of env k'] c by simp
    have "x \<notin> set (redemptions consume exec h s')" if "r \<noteq> None" "same k' x" for x
    proof (rule spent_never_redeemed [OF s'])
      from that obtain v where "fst (consume env k' s) = Some v" using c by auto
      from consume_spends [OF Cons.prems this that(2)] show "spent x s'" using c by simp
    qed
    with Cons.IH [OF s'] Inr b c show ?thesis by (auto split: option.splits)
  qed
qed simp

end

section \<open>The repositories meet the contract\<close>

datatype code_op = Code_issue bool instant uuid uuid string int string string string

fun code_exec :: "(string \<Rightarrow> string) \<Rightarrow> code_op \<Rightarrow> oauth_code_row list \<Rightarrow> oauth_code_row list" where
  "code_exec sha256 (Code_issue up now u1 u2 cid uid login ch ru) t =
     snd (issue_code sha256 up now u1 u2 cid uid login ch ru t)"

definition code_consume ::
  "(string \<Rightarrow> string) \<Rightarrow> bool \<times> instant \<Rightarrow> string \<Rightarrow> oauth_code_row list
   \<Rightarrow> consumed_oauth_code option \<times> oauth_code_row list" where
  "code_consume sha256 env presented t =
     (case consume_code sha256 (fst env) (snd env) presented t of
        (r, t') \<Rightarrow> (Option.bind (db_ok r) id, t'))"

definition code_spent :: "(string \<Rightarrow> string) \<Rightarrow> string \<Rightarrow> oauth_code_row list \<Rightarrow> bool" where
  "code_spent sha256 presented t \<longleftrightarrow>
     (\<exists>r \<in> set t. oc_code_hash r = sha256 presented \<and> oc_used_at r \<noteq> None)"

datatype consent_op = Consent_issue bool instant uuid int string pending_consent_input

fun consent_exec :: "consent_op \<Rightarrow> consent_row list \<Rightarrow> consent_row list" where
  "consent_exec (Consent_issue up now fresh uid login meta) t =
     snd (issue_pending up now fresh uid login meta t)"

definition consent_consume ::
  "bool \<times> instant \<Rightarrow> uuid \<times> int \<Rightarrow> consent_row list \<Rightarrow> pending_consent option \<times> consent_row list" where
  "consent_consume env k t =
     (case redeem_pending (fst env) (snd env) (fst k) (snd k) t of
        (r, t') \<Rightarrow> (Option.bind (db_ok r) id, t'))"

definition consent_spent :: "uuid \<times> int \<Rightarrow> consent_row list \<Rightarrow> bool" where
  "consent_spent k t \<longleftrightarrow> (\<exists>r \<in> set t. cn_consent_id r = fst k \<and> cn_used_at r \<noteq> None)"

lemma distinct_rows:
  "distinct (map f xs) \<Longrightarrow> x \<in> set xs \<Longrightarrow> y \<in> set xs \<Longrightarrow> f x = f y \<Longrightarrow> x = y"
  by (metis distinct_map inj_onD)

lemma code_consume_table:
  "snd (code_consume sha256 env p t) =
     (if fst env then update_where (code_redeemable (snd env) (sha256 p))
        (\<lambda>r. r\<lparr>oc_used_at := Some (snd env)\<rparr>) t else t)"
  by (simp add: code_consume_def consume_code_def Let_def)

lemma code_consume_hit:
  "fst (code_consume sha256 env p t) = Some v \<Longrightarrow>
     fst env \<and> (\<exists>r \<in> set t. code_redeemable (snd env) (sha256 p) r)"
  by (auto simp: code_consume_def consume_code_def Let_def split: if_splits dest!: fetch_optional_Some)

interpretation code: single_use "code_consume sha256" "code_exec sha256"
  "\<lambda>t. distinct (map oc_code_hash t)" "code_spent sha256" "\<lambda>a b. sha256 a = sha256 b" for sha256
proof (unfold_locales, goal_cases)
  case (1 s env k)
  then show ?case by (simp add: code_consume_table map_update_where)
next
  case (2 s op)
  then show ?case by (cases op) (auto simp: issue_code_def Let_def)
next
  case (3 s env k v k')
  then obtain r where "fst env" "r \<in> set s" "code_redeemable (snd env) (sha256 k) r"
    using code_consume_hit by blast
  then show ?case
    using 3(3) unfolding code_spent_def code_consume_table
    by (auto simp: code_redeemable_def intro!: update_where_keeps)
next
  case (4 s k env)
  then obtain r where r: "r \<in> set s" "oc_code_hash r = sha256 k" "oc_used_at r \<noteq> None"
    by (auto simp: code_spent_def)
  have "\<not> code_redeemable (snd env) (sha256 k) x" if "x \<in> set s" for x
    using distinct_rows [OF 4(1) that r(1)] r by (auto simp: code_redeemable_def)
  then show ?case using code_consume_hit by (metis not_None_eq)
next
  case (5 s k env k')
  then show ?case unfolding code_spent_def code_consume_table
    by (auto simp: code_redeemable_def intro!: update_where_keeps)
next
  case (6 s k op)
  then show ?case by (cases op) (auto simp: code_spent_def issue_code_def Let_def)
qed

lemma consent_consume_table:
  "snd (consent_consume env k t) =
     (if fst env then update_where (consent_redeemable (snd env) (fst k) (snd k))
        (\<lambda>r. r\<lparr>cn_used_at := Some (snd env)\<rparr>) t else t)"
  by (simp add: consent_consume_def redeem_pending_def Let_def)

lemma consent_consume_hit:
  "fst (consent_consume env k t) = Some v \<Longrightarrow>
     fst env \<and> (\<exists>r \<in> set t. consent_redeemable (snd env) (fst k) (snd k) r
        \<and> pc_user_id v = cn_user_id r)"
  by (auto simp: consent_consume_def redeem_pending_def Let_def split: if_splits
      dest!: fetch_optional_Some)

interpretation consent: single_use consent_consume consent_exec
  "\<lambda>t. distinct (map cn_consent_id t)" consent_spent "\<lambda>a b. fst a = fst b"
proof (unfold_locales, goal_cases)
  case (1 s env k)
  then show ?case by (simp add: consent_consume_table map_update_where)
next
  case (2 s op)
  then show ?case by (cases op) (auto simp: issue_pending_def)
next
  case (3 s env k v k')
  then obtain r where "fst env" "r \<in> set s" "consent_redeemable (snd env) (fst k) (snd k) r"
    using consent_consume_hit by blast
  then show ?case
    using 3(3) unfolding consent_spent_def consent_consume_table
    by (auto simp: consent_redeemable_def intro!: update_where_keeps)
next
  case (4 s k env)
  then obtain r where r: "r \<in> set s" "cn_consent_id r = fst k" "cn_used_at r \<noteq> None"
    by (auto simp: consent_spent_def)
  have "\<not> consent_redeemable (snd env) (fst k) (snd k) x" if "x \<in> set s" for x
    using distinct_rows [OF 4(1) that r(1)] r by (auto simp: consent_redeemable_def)
  then show ?case using consent_consume_hit by (metis not_None_eq)
next
  case (5 s k env k')
  then show ?case unfolding consent_spent_def consent_consume_table
    by (auto simp: consent_redeemable_def intro!: update_where_keeps)
next
  case (6 s k op)
  then show ?case by (cases op) (auto simp: consent_spent_def issue_pending_def)
qed

section \<open>Properties\<close>

text \<open>C2. An authorization code is redeemed at most once. Over any history of the
  \<open>mcp_oauth_codes\<close> table, with redemptions of any presented codes at any times interleaved with
  issues, no two successful redemptions present codes with the same SHA-256.\<close>

theorem oauth_code_single_use:
  "distinct (map sha256 (redemptions (code_consume sha256) (code_exec sha256) h []))"
proof -
  have "sorted_wrt (\<lambda>a b. sha256 a \<noteq> sha256 b)
          (redemptions (code_consume sha256) (code_exec sha256) h [])"
    by (rule code.at_most_one_redemption) (auto intro: reflpI sympI transpI)
  then show ?thesis by (simp add: distinct_conv_nth sorted_wrt_iff_nth_less nat_neq_iff) (metis neq_iff)
qed

text \<open>A pending consent is redeemed at most once, whichever users try, and only by the user
  whose session created it: every redeemed consent carries the redeeming user's id.\<close>

theorem consent_single_use:
  "distinct (map fst (redemptions consent_consume consent_exec h []))
   \<and> (fst (consent_consume env (cid, uid) t) = Some v \<longrightarrow> pc_user_id v = uid)"
proof -
  have "sorted_wrt (\<lambda>a b. fst a \<noteq> fst b) (redemptions consent_consume consent_exec h [])"
    by (rule consent.at_most_one_redemption) (auto intro: reflpI sympI transpI)
  then have "distinct (map fst (redemptions consent_consume consent_exec h []))"
    by (simp add: distinct_conv_nth sorted_wrt_iff_nth_less nat_neq_iff) (metis neq_iff)
  then show ?thesis by (auto simp: consent_redeemable_def dest!: consent_consume_hit)
qed

theorem consent_single_use_witness:
  "pc_user_id (the (fst (consent_consume (True, 5) (9, 42)
     (snd (issue_pending True 0 9 42 ''ada'' \<lparr>pi_client_id = ''c'', pi_client_name = None,
        pi_redirect_uri = ''r'', pi_oauth_state = ''s'', pi_code_challenge = ''x''\<rparr> []))))) = 42"
proof -
  let ?t = "snd (issue_pending True 0 9 42 ''ada'' \<lparr>pi_client_id = ''c'', pi_client_name = None,
        pi_redirect_uri = ''r'', pi_oauth_state = ''s'', pi_code_challenge = ''x''\<rparr> [])"
  have "\<exists>v. fst (consent_consume (True, 5) (9, 42) ?t) = Some v"
    by (simp add: consent_consume_def redeem_pending_def issue_pending_def consent_redeemable_def
        fetch_optional_def seconds_def Let_def)
  then obtain v where "fst (consent_consume (True, 5) (9, 42) ?t) = Some v" by blast
  with consent_single_use [where env = "(True, 5)" and cid = 9 and uid = 42 and t = ?t and v = v
      and h = "[]"] show ?thesis by simp
qed

end
