(* ===== verification/Device_Flow.thy ===== *)
theory Device_Flow
  imports Oauth_Grants
begin

text \<open>
  The RFC 8628 device authorization grant: \<open>PgDeviceFlowRepo\<close> (\<open>repos/identity.rs\<close>), the
  \<open>device_*\<close> operations of \<open>IdentityServices\<close> (\<open>akashic-identity/src/services.rs\<close>) and the code
  generators they share with \<open>auth/oauth_device.rs\<close>.

  \<open>device_token\<close> is written as the four phases the code awaits one after the other (poll, issue,
  mark, revoke the orphan). The sequential service composes them, and the step relation
  \<open>device_step\<close> interleaves the same phases of any number of concurrent polls with each other, with
  the browser side of the flow and with every other writer of \<open>mcp_tokens\<close>. The exactly-once and the
  authorization theorems are invariants of its reachable states.
\<close>

section \<open>Code generation\<close>

definition user_code_alphabet :: string where
  "user_code_alphabet = ''BCDFGHJKLMNPQRSTVWXYZ23456789''"

text \<open>The eight indices drawn by \<open>rng.gen_range(0..USER_CODE_ALPHABET.len())\<close> are the argument.\<close>

definition generate_user_code :: "nat list \<Rightarrow> string" where
  "generate_user_code idx =
     concat (map (\<lambda>i. (if i = 4 then ''-'' else []) @ [user_code_alphabet ! (idx ! i)]) [0..<8])"

definition generate_device_code :: "8 word list \<Rightarrow> string" where
  "generate_device_code bytes = hex_of_bytes bytes"

definition allowed_client_ids :: "string list" where
  "allowed_client_ids = [''claude-code'']"

section \<open>The repository\<close>

text \<open>The interval is an \<open>INTEGER\<close> column read into an \<open>i32\<close>, to which a poll that comes too fast adds five with wrap-around.\<close>

record device_row =
  df_device_code :: string
  df_user_code :: string
  df_client_id :: string
  df_expires_at :: instant
  df_interval_secs :: "32 word"
  df_last_polled_at :: "instant option"
  df_status :: string
  df_granted_user_id :: "int option"
  df_granted_user_login :: "string option"
  df_granted_token_id :: "uuid option"

record device_poll_result =
  pr_status :: string
  pr_expires_at :: instant
  pr_granted_user_id :: "int option"
  pr_granted_user_login :: "string option"
  pr_slow_down :: bool

definition insert_pending ::
  "bool \<Rightarrow> instant \<Rightarrow> string \<Rightarrow> string \<Rightarrow> string \<Rightarrow> device_row list \<Rightarrow> unit db \<times> device_row list" where
  "insert_pending up now device_code user_code client_id t =
     (if \<not> up then (Inl Db_unavailable, t)
      else if device_code \<in> set (map df_device_code t) \<or> user_code \<in> set (map df_user_code t)
      then (Inl Unique_violation, t)
      else (Inr (), t @ [\<lparr>df_device_code = device_code, df_user_code = user_code,
              df_client_id = client_id, df_expires_at = now + seconds 600, df_interval_secs = 5,
              df_last_polled_at = None, df_status = ''pending'', df_granted_user_id = None,
              df_granted_user_login = None, df_granted_token_id = None\<rparr>]))"

text \<open>
  \<open>up\<close> is the availability of the transaction and its \<open>SELECT\<close>; \<open>wr\<close> tells whether the
  \<open>UPDATE\<close> and the commit took effect, whose failure the code only logs.
\<close>

definition poll_device_token ::
  "bool \<Rightarrow> bool \<Rightarrow> instant \<Rightarrow> instant \<Rightarrow> string \<Rightarrow> device_row list
   \<Rightarrow> device_poll_result option db \<times> device_row list" where
  "poll_device_token up wr now app_now device_code t =
     (if \<not> up then (Inl Db_unavailable, t)
      else case fetch_optional (\<lambda>r. df_device_code r = device_code) t of
        None \<Rightarrow> (Inr None, t)
      | Some row \<Rightarrow>
          let too_fast = (case df_last_polled_at row of None \<Rightarrow> False
                          | Some p \<Rightarrow> app_now - p < seconds (sint (df_interval_secs row)));
              new_interval = (if too_fast then df_interval_secs row + 5 else df_interval_secs row)
          in (Inr (Some \<lparr>pr_status = df_status row, pr_expires_at = df_expires_at row,
                         pr_granted_user_id = df_granted_user_id row,
                         pr_granted_user_login = df_granted_user_login row,
                         pr_slow_down = too_fast\<rparr>),
              if wr then update_where (\<lambda>r. df_device_code r = device_code)
                (\<lambda>r. r\<lparr>df_last_polled_at := Some now, df_interval_secs := new_interval\<rparr>) t else t))"

definition set_pre_approved ::
  "bool \<Rightarrow> instant \<Rightarrow> string \<Rightarrow> int \<Rightarrow> string \<Rightarrow> device_row list \<Rightarrow> bool db \<times> device_row list" where
  "set_pre_approved up now user_code user_id user_login t =
     (let p = (\<lambda>r. df_user_code r = user_code \<and> df_status r = ''pending'' \<and> now < df_expires_at r) in
      if \<not> up then (Inl Db_unavailable, t)
      else (Inr (rows_affected p t = 1),
            update_where p (\<lambda>r. r\<lparr>df_status := ''pre_approved'',
              df_granted_user_id := Some user_id, df_granted_user_login := Some user_login\<rparr>) t))"

definition set_approved ::
  "bool \<Rightarrow> instant \<Rightarrow> string \<Rightarrow> int \<Rightarrow> device_row list \<Rightarrow> bool db \<times> device_row list" where
  "set_approved up now user_code user_id t =
     (let p = (\<lambda>r. df_user_code r = user_code \<and> df_status r = ''pre_approved''
                   \<and> df_granted_user_id r = Some user_id \<and> now < df_expires_at r) in
      if \<not> up then (Inl Db_unavailable, t)
      else (Inr (rows_affected p t = 1), update_where p (\<lambda>r. r\<lparr>df_status := ''approved''\<rparr>) t))"

definition mark_exchanged ::
  "bool \<Rightarrow> string \<Rightarrow> uuid \<Rightarrow> device_row list \<Rightarrow> bool db \<times> device_row list" where
  "mark_exchanged up device_code token_id t =
     (let p = (\<lambda>r. df_device_code r = device_code \<and> df_status r = ''approved'') in
      if \<not> up then (Inl Db_unavailable, t)
      else (Inr (rows_affected p t = 1),
            update_where p (\<lambda>r. r\<lparr>df_status := ''exchanged'', df_granted_token_id := Some token_id\<rparr>) t))"

section \<open>The service\<close>

datatype domain_error = Bad_request string | Unauthorized | Not_found string | Internal string

type_synonym 'a dres = "domain_error + 'a"

record device_authorization_json =
  da_device_code :: string
  da_user_code :: string
  da_verification_uri :: string
  da_verification_uri_complete :: string
  da_expires_in :: int
  da_interval :: int

text \<open>
  The retry loop over \<open>attempt in 0..3\<close>. Each attempt supplies its availability, its statement time
  and the random draws of the two codes.
\<close>

fun device_authorization_loop ::
  "string \<Rightarrow> string \<Rightarrow> nat \<Rightarrow> (bool \<times> instant \<times> 8 word list \<times> nat list) list \<Rightarrow> device_row list
   \<Rightarrow> device_authorization_json dres \<times> device_row list" where
  "device_authorization_loop base client_id attempt [] t =
     (Inl (Internal ''unreachable''), t)"
| "device_authorization_loop base client_id attempt ((up, now, bytes, idx) # draws) t =
     (let device_code = generate_device_code bytes; user_code = generate_user_code idx in
      case insert_pending up now device_code user_code client_id t of
        (Inr u, t') \<Rightarrow>
          (Inr \<lparr>da_device_code = device_code, da_user_code = user_code,
                da_verification_uri = base @ ''/device'',
                da_verification_uri_complete = base @ ''/device?user_code='' @ user_code,
                da_expires_in = 600, da_interval = 5\<rparr>, t')
      | (Inl e, t') \<Rightarrow>
          if attempt < 2 then device_authorization_loop base client_id (Suc attempt) draws t'
          else (Inl (Internal ''device_authorization_insert_failed''), t'))"

definition device_authorization ::
  "string \<Rightarrow> string \<Rightarrow> (bool \<times> instant \<times> 8 word list \<times> nat list) list \<Rightarrow> device_row list
   \<Rightarrow> device_authorization_json dres \<times> device_row list" where
  "device_authorization public_base_url client_id draws t =
     (if client_id \<notin> set allowed_client_ids then (Inl (Bad_request ''invalid_client''), t)
      else device_authorization_loop (trim_end_matches CHR ''/'' public_base_url) client_id 0 (take 3 draws) t)"

text \<open>The JSON of \<open>device_token\<close>: an RFC 8628 error code, or a bearer with its lifetime.\<close>

datatype token_reply = Error_reply string | Bearer_reply string int

datatype device_decision = Reply token_reply | Mint int string

definition device_token_decide ::
  "instant \<Rightarrow> device_poll_result option db \<Rightarrow> device_decision" where
  "device_token_decide app_now polled =
     (case polled of
        Inl e \<Rightarrow> Reply (Error_reply ''server_error'')
      | Inr None \<Rightarrow> Reply (Error_reply ''invalid_grant'')
      | Inr (Some poll) \<Rightarrow>
          if pr_expires_at poll < app_now then Reply (Error_reply ''expired_token'')
          else if pr_slow_down poll then Reply (Error_reply ''slow_down'')
          else if pr_status poll = ''pending'' \<or> pr_status poll = ''pre_approved''
          then Reply (Error_reply ''authorization_pending'')
          else if pr_status poll = ''denied'' then Reply (Error_reply ''access_denied'')
          else if pr_status poll = ''exchanged'' then Reply (Error_reply ''invalid_grant'')
          else if pr_status poll = ''approved''
          then (case pr_granted_user_id poll of
                  None \<Rightarrow> Reply (Error_reply ''server_error'')
                | Some user_id \<Rightarrow>
                    Mint user_id (case pr_granted_user_login poll of None \<Rightarrow> [] | Some l \<Rightarrow> l))
          else Reply (Error_reply ''server_error''))"

text \<open>What the result of \<open>mark_exchanged\<close> makes of the minted token.\<close>

datatype mark_outcome = Deliver | Revoke_orphan | Give_up

definition mark_outcome_of :: "bool db \<Rightarrow> mark_outcome" where
  "mark_outcome_of r = (case r of Inr True \<Rightarrow> Deliver | Inr False \<Rightarrow> Revoke_orphan | Inl e \<Rightarrow> Give_up)"

text \<open>Availability of the five statements of one call and the two random UUIDs of the token.\<close>

record device_env =
  de_poll_up :: bool
  de_poll_write :: bool
  de_issue_up :: bool
  de_mark_up :: bool
  de_revoke_up :: bool
  de_fresh :: uuid
  de_row_id :: uuid

definition device_token ::
  "(string \<Rightarrow> string) \<Rightarrow> device_env \<Rightarrow> instant \<Rightarrow> instant \<Rightarrow> string
   \<Rightarrow> device_row list \<times> mcp_token_row list \<Rightarrow> token_reply \<times> device_row list \<times> mcp_token_row list" where
  "device_token sha256 env now app_now device_code db =
     (let (devs, toks) = db;
          (polled, devs1) = poll_device_token (de_poll_up env) (de_poll_write env) now app_now device_code devs
      in case device_token_decide app_now polled of
           Reply r \<Rightarrow> (r, devs1, toks)
         | Mint user_id login \<Rightarrow>
             (case issue_mcp_token sha256 (de_issue_up env) now (de_fresh env) (de_row_id env)
                     user_id login None toks of
                (Inl e, toks1) \<Rightarrow> (Error_reply ''server_error'', devs1, toks1)
              | (Inr (token_id, plaintext), toks1) \<Rightarrow>
                  (let (marked, devs2) = mark_exchanged (de_mark_up env) device_code token_id devs1
                   in case mark_outcome_of marked of
                        Deliver \<Rightarrow> (Bearer_reply plaintext 7776000, devs2, toks1)
                      | Revoke_orphan \<Rightarrow>
                          (Error_reply ''invalid_grant'', devs2,
                           snd (revoke_mcp_token (de_revoke_up env) now token_id toks1))
                      | Give_up \<Rightarrow> (Error_reply ''server_error'', devs2, toks1))))"

definition device_verify ::
  "bool \<Rightarrow> instant \<Rightarrow> string \<Rightarrow> int \<Rightarrow> string \<Rightarrow> device_row list \<Rightarrow> bool dres \<times> device_row list" where
  "device_verify up now user_code user_id user_login t =
     (case set_pre_approved up now user_code user_id user_login t of
        (Inl e, t') \<Rightarrow> (Inl (Internal ''db''), t') | (Inr b, t') \<Rightarrow> (Inr b, t'))"

definition device_approve ::
  "bool \<Rightarrow> instant \<Rightarrow> string \<Rightarrow> int \<Rightarrow> device_row list \<Rightarrow> bool dres \<times> device_row list" where
  "device_approve up now user_code user_id t =
     (case set_approved up now user_code user_id t of
        (Inl e, t') \<Rightarrow> (Inl (Internal ''db''), t') | (Inr b, t') \<Rightarrow> (Inr b, t'))"

section \<open>Concurrent polls as a step relation\<close>

datatype worker =
    Idle
  | Polled string int string
  | Minted string uuid string int
  | Orphan uuid

text \<open>
  \<open>ds_delivered\<close> records each bearer handed to a client (device code, token id, plaintext, user id)
  and \<open>ds_approvals\<close> each successful approval (user code, approving user).
\<close>

record device_sys =
  ds_devices :: "device_row list"
  ds_tokens :: "mcp_token_row list"
  ds_workers :: "nat \<Rightarrow> worker"
  ds_delivered :: "(string \<times> uuid \<times> string \<times> int) list"
  ds_approvals :: "(string \<times> int) set"

definition device_init :: device_sys where
  "device_init = \<lparr>ds_devices = [], ds_tokens = [], ds_workers = (\<lambda>_. Idle),
                  ds_delivered = [], ds_approvals = {}\<rparr>"

inductive device_step :: "(string \<Rightarrow> string) \<Rightarrow> device_sys \<Rightarrow> device_sys \<Rightarrow> bool"
  for sha256 :: "string \<Rightarrow> string" where
  authorize: "device_step sha256 s
     (s\<lparr>ds_devices := snd (insert_pending up now dc uc client (ds_devices s))\<rparr>)"
| verify: "device_step sha256 s
     (s\<lparr>ds_devices := snd (device_verify up now uc uid login (ds_devices s))\<rparr>)"
| approve: "device_approve up now uc uid (ds_devices s) = (r, devs) \<Longrightarrow>
     device_step sha256 s
       (s\<lparr>ds_devices := devs,
          ds_approvals := (if r = Inr True then insert (uc, uid) (ds_approvals s) else ds_approvals s)\<rparr>)"
| poll: "ds_workers s w = Idle \<Longrightarrow>
     poll_device_token up wr now app_now dc (ds_devices s) = (polled, devs) \<Longrightarrow>
     device_step sha256 s
       (s\<lparr>ds_devices := devs,
          ds_workers := (ds_workers s)(w :=
            (case device_token_decide app_now polled of Reply r \<Rightarrow> Idle | Mint uid login \<Rightarrow> Polled dc uid login))\<rparr>)"
| issue: "ds_workers s w = Polled dc uid login \<Longrightarrow>
     issue_mcp_token sha256 up now fresh i uid login None (ds_tokens s) = (r, toks) \<Longrightarrow>
     device_step sha256 s
       (s\<lparr>ds_tokens := toks,
          ds_workers := (ds_workers s)(w :=
            (case r of Inl e \<Rightarrow> Idle | Inr (tid, plaintext) \<Rightarrow> Minted dc tid plaintext uid))\<rparr>)"
| mark: "ds_workers s w = Minted dc tid plaintext uid \<Longrightarrow>
     mark_exchanged up dc tid (ds_devices s) = (r, devs) \<Longrightarrow>
     device_step sha256 s
       (s\<lparr>ds_devices := devs,
          ds_workers := (ds_workers s)(w :=
            (case mark_outcome_of r of Deliver \<Rightarrow> Idle | Revoke_orphan \<Rightarrow> Orphan tid | Give_up \<Rightarrow> Idle)),
          ds_delivered := (if mark_outcome_of r = Deliver
                           then ds_delivered s @ [(dc, tid, plaintext, uid)] else ds_delivered s)\<rparr>)"
| revoke: "ds_workers s w = Orphan tid \<Longrightarrow>
     device_step sha256 s
       (s\<lparr>ds_tokens := snd (revoke_mcp_token up now tid (ds_tokens s)),
          ds_workers := (ds_workers s)(w := Idle)\<rparr>)"
| other: "device_step sha256 s (s\<lparr>ds_tokens := mcp_exec sha256 op (ds_tokens s)\<rparr>)"

inductive device_reachable :: "(string \<Rightarrow> string) \<Rightarrow> device_sys \<Rightarrow> bool"
  for sha256 :: "string \<Rightarrow> string" where
  start: "device_reachable sha256 device_init"
| step: "device_reachable sha256 s \<Longrightarrow> device_step sha256 s s' \<Longrightarrow> device_reachable sha256 s'"


section \<open>How device rows evolve\<close>

definition granted_to :: "int \<Rightarrow> device_row \<Rightarrow> bool" where
  "granted_to uid r \<longleftrightarrow> df_status r \<in> {''approved'', ''exchanged''} \<and> df_granted_user_id r = Some uid"

definition exchanged_for :: "uuid \<Rightarrow> device_row \<Rightarrow> bool" where
  "exchanged_for tid r \<longleftrightarrow> df_status r = ''exchanged'' \<and> df_granted_token_id r = Some tid"

definition device_evolves :: "device_row \<Rightarrow> device_row \<Rightarrow> bool" where
  "device_evolves r r' \<longleftrightarrow>
     df_device_code r' = df_device_code r \<and> df_user_code r' = df_user_code r
     \<and> (\<forall>uid. granted_to uid r \<longrightarrow> granted_to uid r')
     \<and> (\<forall>tid. exchanged_for tid r \<longrightarrow> exchanged_for tid r')"

definition devices_evolve :: "device_row list \<Rightarrow> device_row list \<Rightarrow> bool" where
  "devices_evolve t t' \<longleftrightarrow> (\<forall>r \<in> set t. \<exists>r' \<in> set t'. device_evolves r r')"

lemmas device_evolution_defs = devices_evolve_def device_evolves_def granted_to_def exchanged_for_def

lemma devices_evolve_update:
  "(\<And>r. r \<in> set t \<Longrightarrow> p r \<Longrightarrow> device_evolves r (f r)) \<Longrightarrow> devices_evolve t (update_where p f t)"
  unfolding devices_evolve_def
  by (intro ballI update_where_keeps) (auto simp: device_evolves_def)

lemma devices_evolve_refl [simp]: "devices_evolve t t"
  by (auto simp: devices_evolve_def device_evolves_def)

lemma insert_pending_evolves: "devices_evolve t (snd (insert_pending up now dc uc c t))"
  by (auto simp: insert_pending_def devices_evolve_def device_evolves_def)

lemma verify_evolves: "devices_evolve t (snd (device_verify up now uc uid login t))"
  by (auto simp: device_verify_def set_pre_approved_def Let_def
      device_evolves_def granted_to_def exchanged_for_def intro!: devices_evolve_update)

lemma approve_evolves: "devices_evolve t (snd (device_approve up now uc uid t))"
  by (auto simp: device_approve_def set_approved_def Let_def
      device_evolves_def granted_to_def exchanged_for_def intro!: devices_evolve_update)

lemma poll_evolves: "devices_evolve t (snd (poll_device_token up wr now app_now dc t))"
  by (auto simp: poll_device_token_def Let_def split: option.splits
      simp: device_evolves_def granted_to_def exchanged_for_def intro!: devices_evolve_update)

lemma mark_evolves: "devices_evolve t (snd (mark_exchanged up dc tid t))"
  by (auto simp: mark_exchanged_def Let_def
      device_evolves_def granted_to_def exchanged_for_def intro!: devices_evolve_update)

lemma evolve_granted:
  "devices_evolve t t' \<Longrightarrow> \<exists>r \<in> set t. df_device_code r = dc \<and> granted_to uid r \<Longrightarrow>
     \<exists>r \<in> set t'. df_device_code r = dc \<and> granted_to uid r"
  unfolding devices_evolve_def device_evolves_def by metis

lemma evolve_exchanged:
  "devices_evolve t t' \<Longrightarrow>
     \<exists>r \<in> set t. df_device_code r = dc \<and> granted_to uid r \<and> exchanged_for tid r \<Longrightarrow>
     \<exists>r \<in> set t'. df_device_code r = dc \<and> granted_to uid r \<and> exchanged_for tid r"
  unfolding devices_evolve_def device_evolves_def by metis

text \<open>No operation adds a second row for a device code or a user code.\<close>

definition devices_unique :: "device_row list \<Rightarrow> bool" where
  "devices_unique t \<longleftrightarrow> distinct (map df_device_code t) \<and> distinct (map df_user_code t)"

lemma devices_unique_ops:
  assumes "devices_unique t"
  shows "devices_unique (snd (insert_pending up now dc uc c t))"
    and "devices_unique (snd (device_verify up now uc uid login t))"
    and "devices_unique (snd (device_approve up now uc uid t))"
    and "devices_unique (snd (poll_device_token up wr now app_now dc t))"
    and "devices_unique (snd (mark_exchanged up dc tid t))"
  using assms
  by (auto simp: devices_unique_def insert_pending_def device_verify_def set_pre_approved_def
      device_approve_def set_approved_def poll_device_token_def mark_exchanged_def map_update_where Let_def
      split: option.splits)

text \<open>A row is granted only after a recorded approval by the user it is granted to.\<close>

definition approvals_recorded :: "(string \<times> int) set \<Rightarrow> device_row list \<Rightarrow> bool" where
  "approvals_recorded A t \<longleftrightarrow>
     (\<forall>r \<in> set t. df_status r \<in> {''approved'', ''exchanged''} \<longrightarrow>
        (\<exists>uid. df_granted_user_id r = Some uid \<and> (df_user_code r, uid) \<in> A))"

lemma approvals_recorded_ops:
  assumes "approvals_recorded A t"
  shows "approvals_recorded A (snd (insert_pending up now dc uc c t))"
    and "approvals_recorded A (snd (device_verify up now uc uid login t))"
    and "approvals_recorded A (snd (poll_device_token up wr now app_now dc t))"
    and "approvals_recorded A (snd (mark_exchanged up dc tid t))"
  using assms
  by (auto simp: approvals_recorded_def insert_pending_def device_verify_def set_pre_approved_def
      poll_device_token_def mark_exchanged_def set_update_where Let_def split: option.splits)

lemma approvals_recorded_approve:
  assumes "approvals_recorded A t" and "devices_unique t"
    and "device_approve up now uc uid t = (r, t')"
  shows "approvals_recorded (if r = Inr True then insert (uc, uid) A else A) t'"
proof (cases up)
  case False
  with assms show ?thesis by (auto simp: device_approve_def set_approved_def)
next
  case True
  let ?p = "\<lambda>r. df_user_code r = uc \<and> df_status r = ''pre_approved''
                \<and> df_granted_user_id r = Some uid \<and> now < df_expires_at r"
  have r: "r = Inr (rows_affected ?p t = 1)"
    and t': "t' = update_where ?p (\<lambda>r. r\<lparr>df_status := ''approved''\<rparr>) t"
    using assms(3) True by (auto simp: device_approve_def set_approved_def Let_def)
  have "rows_affected ?p t = 1 \<longleftrightarrow> (\<exists>r \<in> set t. ?p r)"
    by (rule rows_affected_one_key [where k = df_user_code and c = uc])
       (use assms(2) in \<open>auto simp: devices_unique_def\<close>)
  then show ?thesis using assms(1) by (auto simp: approvals_recorded_def r t' set_update_where)
qed

section \<open>The invariant of the concurrent system\<close>

definition token_of :: "(string \<Rightarrow> string) \<Rightarrow> uuid \<Rightarrow> string \<Rightarrow> int \<Rightarrow> mcp_token_row list \<Rightarrow> bool" where
  "token_of sha256 tid plaintext uid t \<longleftrightarrow>
     (\<exists>r \<in> set t. mt_id r = tid \<and> mt_user_id r = uid \<and> mt_token_hash r = mcp_secret_hash sha256 plaintext)"

lemma token_of_exec: "token_of sha256 tid p uid t \<Longrightarrow> token_of sha256 tid p uid (mcp_exec sha256 op t)"
  unfolding token_of_def
  by (cases op)
     (auto simp: issue_mcp_token_def touch_mcp_token_def revoke_mcp_token_def Let_def
       intro!: update_where_keeps)

lemma token_of_issue:
  "issue_mcp_token sha256 up now fresh i uid login lbl t = (Inr (tid, p), t') \<Longrightarrow>
     token_of sha256 tid p uid t'"
  by (auto simp: token_of_def issue_mcp_token_def mcp_secret_hash_def Let_def split: if_splits)

fun worker_ok :: "(string \<Rightarrow> string) \<Rightarrow> device_row list \<Rightarrow> mcp_token_row list \<Rightarrow> worker \<Rightarrow> bool" where
  "worker_ok sha256 devs toks Idle = True"
| "worker_ok sha256 devs toks (Polled dc uid login) =
     (\<exists>r \<in> set devs. df_device_code r = dc \<and> granted_to uid r)"
| "worker_ok sha256 devs toks (Minted dc tid p uid) =
     ((\<exists>r \<in> set devs. df_device_code r = dc \<and> granted_to uid r) \<and> token_of sha256 tid p uid toks)"
| "worker_ok sha256 devs toks (Orphan tid) = True"

definition delivery_ok ::
  "(string \<Rightarrow> string) \<Rightarrow> device_row list \<Rightarrow> mcp_token_row list \<Rightarrow> string \<times> uuid \<times> string \<times> int \<Rightarrow> bool" where
  "delivery_ok sha256 devs toks d =
     (case d of (dc, tid, p, uid) \<Rightarrow>
        (\<exists>r \<in> set devs. df_device_code r = dc \<and> granted_to uid r \<and> exchanged_for tid r)
        \<and> token_of sha256 tid p uid toks)"

definition device_inv :: "(string \<Rightarrow> string) \<Rightarrow> device_sys \<Rightarrow> bool" where
  "device_inv sha256 s \<longleftrightarrow>
     devices_unique (ds_devices s)
     \<and> approvals_recorded (ds_approvals s) (ds_devices s)
     \<and> (\<forall>w. worker_ok sha256 (ds_devices s) (ds_tokens s) (ds_workers s w))
     \<and> (\<forall>d \<in> set (ds_delivered s). delivery_ok sha256 (ds_devices s) (ds_tokens s) d)
     \<and> distinct (map fst (ds_delivered s))"

lemma worker_ok_mono:
  assumes "worker_ok sha256 devs toks w" and "devices_evolve devs devs'"
    and "\<And>tid p uid. token_of sha256 tid p uid toks \<Longrightarrow> token_of sha256 tid p uid toks'"
  shows "worker_ok sha256 devs' toks' w"
  using assms(1,3) evolve_granted [OF assms(2)] by (cases w) auto

lemma delivery_ok_mono:
  assumes "delivery_ok sha256 devs toks d" and "devices_evolve devs devs'"
    and "\<And>tid p uid. token_of sha256 tid p uid toks \<Longrightarrow> token_of sha256 tid p uid toks'"
  shows "delivery_ok sha256 devs' toks' d"
  using assms(1,3) evolve_exchanged [OF assms(2)] unfolding delivery_ok_def by (cases d) auto

text \<open>A step that only lets device rows and tokens evolve and sets one worker keeps the invariant.\<close>

lemma device_inv_update:
  assumes "device_inv sha256 s" and "devices_unique (ds_devices s')"
    and "approvals_recorded (ds_approvals s') (ds_devices s')"
    and "devices_evolve (ds_devices s) (ds_devices s')"
    and "\<And>tid p uid. token_of sha256 tid p uid (ds_tokens s) \<Longrightarrow> token_of sha256 tid p uid (ds_tokens s')"
    and "\<And>x. ds_workers s' x = ds_workers s x
             \<or> worker_ok sha256 (ds_devices s') (ds_tokens s') (ds_workers s' x)"
    and "ds_delivered s' = ds_delivered s @ new"
    and "\<forall>d \<in> set new. delivery_ok sha256 (ds_devices s') (ds_tokens s') d
             \<and> fst d \<notin> fst ` set (ds_delivered s)"
    and "distinct (map fst new)"
  shows "device_inv sha256 s'"
proof -
  have "worker_ok sha256 (ds_devices s') (ds_tokens s') (ds_workers s' x)" for x
    using assms(1,6) worker_ok_mono [OF _ assms(4,5)] unfolding device_inv_def by metis
  moreover have "delivery_ok sha256 (ds_devices s') (ds_tokens s') d" if "d \<in> set (ds_delivered s)" for d
    using that assms(1) delivery_ok_mono [OF _ assms(4,5)] unfolding device_inv_def by blast
  moreover have "distinct (map fst (ds_delivered s'))"
  proof -
    have "fst ` set (ds_delivered s) \<inter> fst ` set new = {}" unfolding disjoint_iff
    proof (intro allI impI)
      fix c
      assume "c \<in> fst ` set (ds_delivered s)"
      with assms(8) show "c \<notin> fst ` set new" by (metis (no_types, lifting) image_iff)
    qed
    moreover have "distinct (map fst (ds_delivered s))" using assms(1) by (simp add: device_inv_def)
    ultimately show ?thesis by (simp add: assms(7,9))
  qed
  ultimately show ?thesis using assms(2,3,7,8) unfolding device_inv_def by auto
qed

lemma device_token_decide_Mint:
  "device_token_decide app_now polled = Mint uid login \<Longrightarrow>
     \<exists>poll. polled = Inr (Some poll) \<and> pr_status poll = ''approved'' \<and> pr_granted_user_id poll = Some uid
        \<and> app_now \<le> pr_expires_at poll \<and> \<not> pr_slow_down poll"
  by (auto simp: device_token_decide_def split: sum.splits option.splits if_splits)

lemma poll_granted:
  assumes "poll_device_token up wr now app_now dc t = (polled, t')"
    and "device_token_decide app_now polled = Mint uid login"
  shows "\<exists>r \<in> set t. df_device_code r = dc \<and> granted_to uid r"
  using assms device_token_decide_Mint [OF assms(2)]
  by (auto simp: poll_device_token_def granted_to_def Let_def
      split: if_splits option.splits dest!: fetch_optional_Some intro!: bexI)

text \<open>A delivery: the marked row was the only one of its code and had not been exchanged before.\<close>

lemma mark_deliver:
  assumes "devices_unique t" and "mark_exchanged up dc tid t = (r, t')" and "mark_outcome_of r = Deliver"
    and "\<exists>x \<in> set t. df_device_code x = dc \<and> granted_to uid x"
  shows "\<exists>x \<in> set t'. df_device_code x = dc \<and> granted_to uid x \<and> exchanged_for tid x"
    and "\<forall>x \<in> set t. df_device_code x = dc \<longrightarrow> df_status x = ''approved''"
proof -
  let ?p = "\<lambda>r. df_device_code r = dc \<and> df_status r = ''approved''"
  have up: "up" and one: "rows_affected ?p t = 1"
    and t': "t' = update_where ?p (\<lambda>r. r\<lparr>df_status := ''exchanged'', df_granted_token_id := Some tid\<rparr>) t"
    using assms(2,3)
    by (auto simp: mark_exchanged_def mark_outcome_of_def Let_def split: if_splits sum.splits bool.splits)
  from one have "0 < rows_affected ?p t" by simp
  then obtain y where y: "y \<in> set t" "?p y" unfolding rows_affected_pos by blast
  have same: "x = y" if "x \<in> set t" "df_device_code x = dc" for x
    using distinct_rows [of df_device_code t x y] assms(1) that y by (simp add: devices_unique_def)
  from assms(4) same have "granted_to uid y" by blast
  with y show "\<exists>x \<in> set t'. df_device_code x = dc \<and> granted_to uid x \<and> exchanged_for tid x"
    unfolding t' set_update_where by (intro bexI [where x = "y\<lparr>df_status := ''exchanged'', df_granted_token_id := Some tid\<rparr>"])
      (auto simp: granted_to_def exchanged_for_def)
  from same y show "\<forall>x \<in> set t. df_device_code x = dc \<longrightarrow> df_status x = ''approved''" by blast
qed

lemma device_inv_parts:
  assumes "device_inv sha256 s"
  shows "devices_unique (ds_devices s)" and "approvals_recorded (ds_approvals s) (ds_devices s)"
    and "worker_ok sha256 (ds_devices s) (ds_tokens s) (ds_workers s w)"
  using assms by (auto simp: device_inv_def)

lemma device_inv_mark:
  assumes inv: "device_inv sha256 s" and w: "ds_workers s w = Minted dc tid p uid"
    and m: "mark_exchanged up dc tid (ds_devices s) = (r, devs)"
  shows "device_inv sha256
    (s\<lparr>ds_devices := devs,
       ds_workers := (ds_workers s)(w :=
         (case mark_outcome_of r of Deliver \<Rightarrow> Idle | Revoke_orphan \<Rightarrow> Orphan tid | Give_up \<Rightarrow> Idle)),
       ds_delivered := (if mark_outcome_of r = Deliver
                        then ds_delivered s @ [(dc, tid, p, uid)] else ds_delivered s)\<rparr>)"
    (is "device_inv sha256 ?s'")
proof (rule device_inv_update [OF inv, where new =
      "if mark_outcome_of r = Deliver then [(dc, tid, p, uid)] else []"])
  note parts = device_inv_parts [OF inv]
  have devs: "devs = snd (mark_exchanged up dc tid (ds_devices s))" using m by simp
  have granted: "\<exists>x \<in> set (ds_devices s). df_device_code x = dc \<and> granted_to uid x"
    and tok: "token_of sha256 tid p uid (ds_tokens s)"
    using parts(3) [of w] w by simp_all
  show "devices_unique (ds_devices ?s')" using parts(1) by (simp add: devs devices_unique_ops)
  show "approvals_recorded (ds_approvals ?s') (ds_devices ?s')"
    using parts(2) by (simp add: devs approvals_recorded_ops)
  show "devices_evolve (ds_devices s) (ds_devices ?s')" by (simp add: devs mark_evolves)
  show "ds_workers ?s' x = ds_workers s x \<or> worker_ok sha256 (ds_devices ?s') (ds_tokens ?s') (ds_workers ?s' x)"
    for x by (cases "x = w") (simp_all split: mark_outcome.splits)
  show "\<forall>d \<in> set (if mark_outcome_of r = Deliver then [(dc, tid, p, uid)] else []).
      delivery_ok sha256 (ds_devices ?s') (ds_tokens ?s') d \<and> fst d \<notin> fst ` set (ds_delivered s)"
  proof (cases "mark_outcome_of r = Deliver")
    case True
    note del = mark_deliver [OF parts(1) m True granted]
    have "dc \<notin> fst ` set (ds_delivered s)"
    proof
      assume "dc \<in> fst ` set (ds_delivered s)"
      then obtain d where d: "d \<in> set (ds_delivered s)" "fst d = dc" by blast
      then have "delivery_ok sha256 (ds_devices s) (ds_tokens s) d" using inv by (simp add: device_inv_def)
      with d(2) obtain x tid' where "x \<in> set (ds_devices s)" "df_device_code x = dc" "exchanged_for tid' x"
        by (cases d) (auto simp: delivery_ok_def)
      with del(2) show False by (auto simp: exchanged_for_def)
    qed
    with True del(1) tok show ?thesis by (simp add: delivery_ok_def)
  qed simp
qed (simp_all)

theorem device_step_inv:
  "device_step sha256 s s' \<Longrightarrow> device_inv sha256 s \<Longrightarrow> device_inv sha256 s'"
proof (induction rule: device_step.induct)
  case (authorize s up now dc uc client)
  note parts = device_inv_parts [OF authorize]
  show ?case
    by (rule device_inv_update [OF authorize, where new = "[]"])
       (simp_all add: parts devices_unique_ops approvals_recorded_ops insert_pending_evolves)
next
  case (verify s up now uc uid login)
  note parts = device_inv_parts [OF verify]
  show ?case
    by (rule device_inv_update [OF verify, where new = "[]"])
       (simp_all add: parts devices_unique_ops approvals_recorded_ops verify_evolves)
next
  case (approve up now uc uid s r devs)
  note parts = device_inv_parts [OF approve(2)]
  have devs: "devs = snd (device_approve up now uc uid (ds_devices s))" using approve(1) by simp
  show ?case
    by (rule device_inv_update [OF approve(2), where new = "[]"])
       (use approvals_recorded_approve [OF parts(2,1) approve(1)] in
         \<open>simp_all add: parts devs devices_unique_ops approve_evolves\<close>)
next
  case (poll s w up wr now app_now dc polled devs)
  note parts = device_inv_parts [OF poll(3)]
  have devs: "devs = snd (poll_device_token up wr now app_now dc (ds_devices s))" using poll(2) by simp
  have ok: "worker_ok sha256 devs (ds_tokens s)
     (case device_token_decide app_now polled of Reply r \<Rightarrow> Idle | Mint uid login \<Rightarrow> Polled dc uid login)"
    using poll_granted [OF poll(2)] evolve_granted [OF poll_evolves]
    by (auto simp: devs split: device_decision.splits)
  show ?case
    by (rule device_inv_update [OF poll(3), where new = "[]"])
       (use ok in \<open>simp_all add: parts devs devices_unique_ops approvals_recorded_ops poll_evolves\<close>)
next
  case (issue s w dc uid login up now fresh i r toks)
  note parts = device_inv_parts [OF issue(3)]
  have toks: "toks = mcp_exec sha256 (Mcp_issue up now fresh i uid login None) (ds_tokens s)"
    using issue(2) by simp
  have ok: "worker_ok sha256 (ds_devices s) toks
     (case r of Inl e \<Rightarrow> Idle | Inr (tid, plaintext) \<Rightarrow> Minted dc tid plaintext uid)"
    using parts(3) [of w] issue(1,2) token_of_issue [of sha256 up now fresh i uid login None]
    by (auto split: sum.splits)
  show ?case
    by (rule device_inv_update [OF issue(3), where new = "[]"])
       (use ok token_of_exec in \<open>simp_all add: parts toks del: mcp_exec.simps\<close>)
next
  case (mark s w dc tid plaintext uid up r devs)
  then show ?case by (blast intro: device_inv_mark)
next
  case (revoke s w tid up now)
  note parts = device_inv_parts [OF revoke(2)]
  have toks: "snd (revoke_mcp_token up now tid (ds_tokens s)) = mcp_exec sha256 (Mcp_revoke up now tid) (ds_tokens s)"
    by simp
  show ?case
    by (rule device_inv_update [OF revoke(2), where new = "[]"])
       (use token_of_exec in \<open>simp_all add: parts toks del: mcp_exec.simps\<close>)
next
  case (other s op)
  note parts = device_inv_parts [OF other]
  show ?case
    by (rule device_inv_update [OF other, where new = "[]"])
       (simp_all add: parts token_of_exec)
qed

lemma device_reachable_inv: "device_reachable sha256 s \<Longrightarrow> device_inv sha256 s"
proof (induction rule: device_reachable.induct)
  case start
  show ?case by (simp add: device_inv_def device_init_def devices_unique_def approvals_recorded_def)
next
  case (step s s')
  then show ?case by (blast intro: device_step_inv)
qed

section \<open>The sequential service\<close>

definition polled_too_fast :: "instant \<Rightarrow> device_row \<Rightarrow> bool" where
  "polled_too_fast app_now row \<longleftrightarrow>
     (case df_last_polled_at row of None \<Rightarrow> False | Some p \<Rightarrow> app_now - p < seconds (sint (df_interval_secs row)))"

definition grantable :: "instant \<Rightarrow> string \<Rightarrow> int \<Rightarrow> string \<Rightarrow> device_row \<Rightarrow> bool" where
  "grantable app_now dc uid login r \<longleftrightarrow>
     df_device_code r = dc \<and> app_now \<le> df_expires_at r \<and> \<not> polled_too_fast app_now r
     \<and> df_status r = ''approved'' \<and> df_granted_user_id r = Some uid
     \<and> login = (case df_granted_user_login r of None \<Rightarrow> [] | Some l \<Rightarrow> l)"

lemma poll_decides_Mint:
  assumes "devices_unique t"
  shows "device_token_decide app_now (fst (poll_device_token up wr now app_now dc t)) = Mint uid login
     \<longleftrightarrow> up \<and> (\<exists>r \<in> set t. grantable app_now dc uid login r)"
proof -
  have key: "r \<in> set t \<Longrightarrow> fetch_optional (\<lambda>x. df_device_code x = df_device_code r) t = Some r" for r
    using assms fetch_optional_key [of df_device_code t r] by (simp add: devices_unique_def)
  show ?thesis
  proof (cases "up \<and> (\<exists>r \<in> set t. df_device_code r = dc)")
    case True
    then obtain r where r: "r \<in> set t" "df_device_code r = dc" by blast
    have only: "x = r" if "x \<in> set t" "df_device_code x = dc" for x
      using distinct_rows [of df_device_code t x r] assms that r by (simp add: devices_unique_def)
    then have "(\<exists>x \<in> set t. grantable app_now dc uid login x) \<longleftrightarrow> grantable app_now dc uid login r"
      using r unfolding grantable_def by blast
    moreover have "fetch_optional (\<lambda>x. df_device_code x = dc) t = Some r" using key r by blast
    ultimately show ?thesis using True r(2)
      by (auto simp: poll_device_token_def device_token_decide_def Let_def grantable_def polled_too_fast_def
          split: option.splits if_splits)
  next
    case False
    then show ?thesis
      by (auto simp: poll_device_token_def device_token_decide_def Let_def grantable_def
          split: option.splits dest: fetch_optional_Some)
  qed
qed

lemma mark_after_poll:
  assumes "devices_unique t" and "r \<in> set t" and "grantable app_now dc uid login r"
  shows "mark_outcome_of (fst (mark_exchanged up dc tid (snd (poll_device_token pu wr now app_now dc t))))
     = (if up then Deliver else Give_up)"
proof -
  let ?t = "snd (poll_device_token pu wr now app_now dc t)"
  let ?p = "\<lambda>r. df_device_code r = dc \<and> df_status r = ''approved''"
  have uniq: "distinct (map df_device_code ?t)"
    using devices_unique_ops(4) [OF assms(1)] unfolding devices_unique_def by blast
  have "\<exists>x \<in> set ?t. ?p x"
    using assms(2,3) unfolding grantable_def
    by (auto simp: poll_device_token_def Let_def split: option.splits intro!: update_where_keeps)
  then have "rows_affected ?p ?t = 1"
    using rows_affected_one_key [OF uniq, of ?p dc] by blast
  then show ?thesis by (simp add: mark_exchanged_def mark_outcome_of_def Let_def)
qed

text \<open>A poll of the sequential service hands out a bearer exactly when the device code names a row
  that is unexpired, not polled faster than its interval, approved and granted to a user, the database
  answers, and the token issued to that user is the bearer.\<close>

theorem device_token_bearer_iff:
  assumes "devices_unique devs"
  shows "fst (device_token sha256 env now app_now dc (devs, toks)) = Bearer_reply p ttl \<longleftrightarrow>
     ttl = 7776000 \<and> de_poll_up env \<and> de_mark_up env \<and>
     (\<exists>r \<in> set devs. \<exists>uid login tid. grantable app_now dc uid login r \<and>
        fst (issue_mcp_token sha256 (de_issue_up env) now (de_fresh env) (de_row_id env) uid login None toks)
          = Inr (tid, p))"
proof -
  obtain polled devs1 where poll:
    "poll_device_token (de_poll_up env) (de_poll_write env) now app_now dc devs = (polled, devs1)"
    by fastforce
  show ?thesis
  proof (cases "device_token_decide app_now polled")
    case (Reply rep)
    then have "rep \<noteq> Bearer_reply p ttl"
      by (auto simp: device_token_decide_def split: sum.splits option.splits if_splits)
    moreover have "\<not> (de_poll_up env \<and> (\<exists>r \<in> set devs. grantable app_now dc uid login r))" for uid login
      using poll_decides_Mint [OF assms] poll Reply by (metis device_decision.distinct(1) fst_conv)
    ultimately show ?thesis using poll Reply by (auto simp: device_token_def)
  next
    case (Mint uid login)
    then obtain r where r: "de_poll_up env" "r \<in> set devs" "grantable app_now dc uid login r"
      using poll_decides_Mint [OF assms] poll by (metis fst_conv)
    have same: "uid' = uid \<and> login' = login" if "x \<in> set devs" "grantable app_now dc uid' login' x" for x uid' login'
      using distinct_rows [of df_device_code devs x r] assms that r
      by (auto simp: devices_unique_def grantable_def)
    have "mark_outcome_of (fst (mark_exchanged (de_mark_up env) dc tid devs1))
        = (if de_mark_up env then Deliver else Give_up)" for tid
      using mark_after_poll [OF assms r(2,3)] poll by (metis snd_conv)
    note mark = this
    let ?issue = "\<lambda>uid login. issue_mcp_token sha256 (de_issue_up env) now (de_fresh env) (de_row_id env) uid login None toks"
    have ex: "(\<exists>x \<in> set devs. \<exists>uid login tid. grantable app_now dc uid login x \<and> fst (?issue uid login) = Inr (tid, p))
        \<longleftrightarrow> (\<exists>tid. fst (?issue uid login) = Inr (tid, p))"
      using same r by blast
    show ?thesis
    proof (cases "?issue uid login")
      case (Pair res toks1)
      show ?thesis
      proof (cases res)
        case (Inl e)
        with poll Mint Pair show ?thesis unfolding ex by (simp add: device_token_def)
      next
        case (Inr tp)
        with poll Mint Pair r(1) mark [of "fst tp"] show ?thesis
          unfolding ex by (cases tp, cases "de_mark_up env") (auto simp: device_token_def Let_def split: prod.splits)
      qed
    qed
  qed
qed

text \<open>The concrete scenario of the witnesses: one authorization, verified and approved by user 7.\<close>

definition demo_row :: device_row where
  "demo_row = \<lparr>df_device_code = ''d'', df_user_code = ''u'', df_client_id = ''claude-code'',
     df_expires_at = 600000000, df_interval_secs = 5, df_last_polled_at = None, df_status = ''approved'',
     df_granted_user_id = Some 7, df_granted_user_login = Some ''ann'', df_granted_token_id = None\<rparr>"

definition demo_env :: device_env where
  "demo_env = \<lparr>de_poll_up = True, de_poll_write = True, de_issue_up = True, de_mark_up = True,
     de_revoke_up = True, de_fresh = 1, de_row_id = 2\<rparr>"

theorem device_token_bearer_iff_witness:
  "\<exists>p. fst (device_token (\<lambda>x. x) demo_env 3 3 ''d'' ([demo_row], [])) = Bearer_reply p 7776000"
proof -
  have u: "devices_unique [demo_row]" by (simp add: devices_unique_def)
  have g: "grantable 3 ''d'' 7 ''ann'' demo_row"
    by (simp add: grantable_def demo_row_def polled_too_fast_def)
  obtain tid p where "fst (issue_mcp_token (\<lambda>x. x) (de_issue_up demo_env) 3 (de_fresh demo_env)
      (de_row_id demo_env) 7 ''ann'' None []) = Inr (tid, p)"
    by (simp add: issue_mcp_token_def demo_env_def Let_def)
  then have "fst (device_token (\<lambda>x. x) demo_env 3 3 ''d'' ([demo_row], [])) = Bearer_reply p 7776000"
    unfolding device_token_bearer_iff [OF u] using g by (auto simp: demo_env_def)
  then show ?thesis by blast
qed

section \<open>The service as a run of the step relation\<close>

text \<open>What a finished call of the service leaves: its tables, an idle worker and at most one delivery.\<close>

definition served ::
  "string \<Rightarrow> device_sys \<Rightarrow> token_reply \<times> device_row list \<times> mcp_token_row list \<Rightarrow> device_sys \<Rightarrow> bool" where
  "served dc s res s' \<longleftrightarrow>
     (case res of (rep, devs, toks) \<Rightarrow>
        ds_devices s' = devs \<and> ds_tokens s' = toks \<and> ds_workers s' = ds_workers s
        \<and> ds_approvals s' = ds_approvals s
        \<and> (case rep of Error_reply e \<Rightarrow> ds_delivered s' = ds_delivered s
           | Bearer_reply p ttl \<Rightarrow> \<exists>tid uid. ds_delivered s' = ds_delivered s @ [(dc, tid, p, uid)]))"

lemma run_one: "device_step sha256 s s1 \<Longrightarrow> P s1 \<Longrightarrow> \<exists>s'. (device_step sha256)\<^sup>*\<^sup>* s s' \<and> P s'"
  by blast

lemma run_two:
  "device_step sha256 s s1 \<Longrightarrow> device_step sha256 s1 s2 \<Longrightarrow> P s2 \<Longrightarrow>
     \<exists>s'. (device_step sha256)\<^sup>*\<^sup>* s s' \<and> P s'"
  by (meson converse_rtranclp_into_rtranclp r_into_rtranclp)

lemma mark_steps:
  assumes "ds_workers s w = Minted dc tid p uid"
  shows "\<exists>s'. (device_step sha256)\<^sup>*\<^sup>* s s' \<and>
     served dc (s\<lparr>ds_workers := (ds_workers s)(w := Idle)\<rparr>)
       (let (marked, devs2) = mark_exchanged (de_mark_up env) dc tid (ds_devices s) in
        case mark_outcome_of marked of
          Deliver \<Rightarrow> (Bearer_reply p 7776000, devs2, ds_tokens s)
        | Revoke_orphan \<Rightarrow> (Error_reply ''invalid_grant'', devs2,
            snd (revoke_mcp_token (de_revoke_up env) now tid (ds_tokens s)))
        | Give_up \<Rightarrow> (Error_reply ''server_error'', devs2, ds_tokens s)) s'"
proof (cases "mark_exchanged (de_mark_up env) dc tid (ds_devices s)")
  case (Pair marked devs2)
  note mark = device_step.mark [OF assms Pair, of sha256]
  show ?thesis
  proof (cases "mark_outcome_of marked")
    case Revoke_orphan
    let ?s1 = "s\<lparr>ds_devices := devs2, ds_workers := (ds_workers s)(w := Orphan tid)\<rparr>"
    have "device_step sha256 s ?s1" using mark Revoke_orphan by simp
    moreover have "ds_workers ?s1 w = Orphan tid" by simp
    note device_step.revoke [OF this, of sha256 "de_revoke_up env" now]
    ultimately show ?thesis by (rule run_two) (simp add: served_def Pair Revoke_orphan)
  qed (rule run_one [OF mark], simp add: served_def Pair)+
qed

lemma device_token_run:
  assumes "ds_workers s w = Idle"
  shows "\<exists>s'. (device_step sha256)\<^sup>*\<^sup>* s s' \<and>
     served dc s (device_token sha256 env now app_now dc (ds_devices s, ds_tokens s)) s'"
proof -
  obtain polled devs1 where poll:
    "poll_device_token (de_poll_up env) (de_poll_write env) now app_now dc (ds_devices s) = (polled, devs1)"
    by fastforce
  note step1 = device_step.poll [OF assms poll, of sha256]
  show ?thesis
  proof (cases "device_token_decide app_now polled")
    case (Reply rep)
    then have "\<exists>e. rep = Error_reply e"
      by (auto simp: device_token_decide_def split: sum.splits option.splits if_splits)
    with Reply poll assms show ?thesis
      by (intro run_one [OF step1]) (auto simp: served_def device_token_def fun_upd_idem)
  next
    case (Mint uid login)
    let ?s1 = "s\<lparr>ds_devices := devs1, ds_workers := (ds_workers s)(w := Polled dc uid login)\<rparr>"
    have step1': "device_step sha256 s ?s1" using step1 Mint by simp
    obtain r toks where issue: "issue_mcp_token sha256 (de_issue_up env) now (de_fresh env) (de_row_id env)
        uid login None (ds_tokens ?s1) = (r, toks)" by fastforce
    have w1: "ds_workers ?s1 w = Polled dc uid login" by simp
    note step2 = device_step.issue [OF w1 issue]
    show ?thesis
    proof (cases r)
      case (Inl e)
      with poll Mint issue assms show ?thesis
        by (intro run_two [OF step1' step2]) (auto simp: served_def device_token_def fun_upd_idem)
    next
      case (Inr tp)
      obtain tid p where tp: "tp = (tid, p)" by fastforce
      let ?s2 = "?s1\<lparr>ds_tokens := toks, ds_workers := (ds_workers ?s1)(w := Minted dc tid p uid)\<rparr>"
      have "device_step sha256 ?s1 ?s2" using step2 Inr tp by simp
      with step1' have run: "(device_step sha256)\<^sup>*\<^sup>* s ?s2" by simp
      have "ds_workers ?s2 w = Minted dc tid p uid" by simp
      from mark_steps [OF this] obtain s' where s': "(device_step sha256)\<^sup>*\<^sup>* ?s2 s'"
        "served dc (?s2\<lparr>ds_workers := (ds_workers ?s2)(w := Idle)\<rparr>)
          (let (marked, devs2) = mark_exchanged (de_mark_up env) dc tid (ds_devices ?s2) in
           case mark_outcome_of marked of
             Deliver \<Rightarrow> (Bearer_reply p 7776000, devs2, ds_tokens ?s2)
           | Revoke_orphan \<Rightarrow> (Error_reply ''invalid_grant'', devs2,
               snd (revoke_mcp_token (de_revoke_up env) now tid (ds_tokens ?s2)))
           | Give_up \<Rightarrow> (Error_reply ''server_error'', devs2, ds_tokens ?s2)) s'" by blast
      have "served dc s (device_token sha256 env now app_now dc (ds_devices s, ds_tokens s)) s'"
        using s'(2) poll Mint issue Inr tp assms
        by (cases "mark_outcome_of (fst (mark_exchanged (de_mark_up env) dc tid devs1))")
           (auto simp: served_def device_token_def fun_upd_idem split: prod.splits)
      with run s'(1) show ?thesis by (meson rtranclp_trans)
    qed
  qed
qed

lemma device_reachable_run:
  "(device_step sha256)\<^sup>*\<^sup>* s s' \<Longrightarrow> device_reachable sha256 s \<Longrightarrow> device_reachable sha256 s'"
  by (induction rule: rtranclp_induct) (auto intro: device_reachable.step)

section \<open>Exactly-once delivery\<close>

lemma demo_approved:
  "device_reachable sha256 (device_init\<lparr>ds_devices := [demo_row], ds_approvals := {(''u'', 7)}\<rparr>)"
proof -
  let ?s1 = "device_init\<lparr>ds_devices := snd (insert_pending True 0 ''d'' ''u'' ''claude-code'' [])\<rparr>"
  let ?s2 = "?s1\<lparr>ds_devices := snd (device_verify True 1 ''u'' 7 ''ann'' (ds_devices ?s1))\<rparr>"
  have "device_step sha256 device_init ?s1"
    using device_step.authorize [of sha256 device_init True 0 "''d''" "''u''" "''claude-code''"]
    by (simp add: device_init_def)
  with device_reachable.start have "device_reachable sha256 ?s1" by (rule device_reachable.step)
  then have r2: "device_reachable sha256 ?s2"
    by (rule device_reachable.step) (rule device_step.verify)
  have "device_approve True 2 ''u'' 7 (ds_devices ?s2) = (Inr True, [demo_row])"
    by (simp add: device_verify_def device_approve_def insert_pending_def set_pre_approved_def
        set_approved_def update_where_def rows_affected_def demo_row_def seconds_def)
  from device_reachable.step [OF r2 device_step.approve [OF this]]
  show ?thesis by (simp add: device_init_def)
qed

lemma demo_delivered:
  "\<exists>s tid p uid. device_reachable (\<lambda>x. x) s \<and> ds_delivered s = [(''d'', tid, p, uid)]"
proof -
  let ?s = "device_init\<lparr>ds_devices := [demo_row], ds_approvals := {(''u'', 7)}\<rparr>"
  let ?res = "device_token (\<lambda>x. x) demo_env 3 3 ''d'' (ds_devices ?s, ds_tokens ?s)"
  have "ds_workers ?s 0 = Idle" by (simp add: device_init_def)
  from device_token_run [OF this] obtain s' where
    s': "(device_step (\<lambda>x. x))\<^sup>*\<^sup>* ?s s'" "served ''d'' ?s ?res s'" by blast
  have "\<exists>p ttl. fst ?res = Bearer_reply p ttl"
    by (simp add: device_token_def poll_device_token_def device_token_decide_def fetch_optional_def
        demo_row_def demo_env_def issue_mcp_token_def mark_exchanged_def mark_outcome_of_def
        update_where_def rows_affected_def device_init_def Let_def)
  with s'(2) have "\<exists>tid p uid. ds_delivered s' = [(''d'', tid, p, uid)]"
    by (auto simp: served_def device_init_def split: prod.splits token_reply.splits)
  with s'(1) demo_approved show ?thesis by (blast intro: device_reachable_run)
qed

text \<open>C3. In every interleaving of concurrent polls, browser steps and other token writers, a device
  code is exchanged for at most one delivered bearer.\<close>

theorem device_code_exchanged_once:
  assumes "device_reachable sha256 s"
  shows "distinct (map fst (ds_delivered s))"
  using device_reachable_inv [OF assms] by (simp add: device_inv_def)

text \<open>In every interleaving, each delivered bearer is the stored token of a user who approved the
  user code shown for exactly that device code, and the row of the device code records it as exchanged.\<close>

theorem device_bearer_only_for_approver:
  assumes "device_reachable sha256 s" and "(dc, tid, p, uid) \<in> set (ds_delivered s)"
  shows "(\<exists>r \<in> set (ds_devices s). df_device_code r = dc \<and> exchanged_for tid r
           \<and> (df_user_code r, uid) \<in> ds_approvals s) \<and> token_of sha256 tid p uid (ds_tokens s)"
proof
  have inv: "device_inv sha256 s" by (rule device_reachable_inv [OF assms(1)])
  then have ok: "delivery_ok sha256 (ds_devices s) (ds_tokens s) (dc, tid, p, uid)"
    using assms(2) unfolding device_inv_def by blast
  with device_inv_parts(2) [OF inv]
  show "\<exists>r \<in> set (ds_devices s). df_device_code r = dc \<and> exchanged_for tid r
           \<and> (df_user_code r, uid) \<in> ds_approvals s"
    unfolding delivery_ok_def approvals_recorded_def granted_to_def by fastforce
  from ok show "token_of sha256 tid p uid (ds_tokens s)" by (simp add: delivery_ok_def)
qed

theorem device_code_exchanged_once_witness:
  "\<exists>s. device_reachable (\<lambda>x. x) s \<and> map fst (ds_delivered s) = [''d''] \<and> distinct (map fst (ds_delivered s))"
proof -
  obtain s tid p uid where s: "device_reachable (\<lambda>x. x) s" "ds_delivered s = [(''d'', tid, p, uid)]"
    using demo_delivered by blast
  with device_code_exchanged_once [OF s(1)] show ?thesis by (intro exI [where x = s]) simp
qed

theorem device_bearer_only_for_approver_witness:
  "\<exists>s tid uid. device_reachable (\<lambda>x. x) s \<and>
     (\<exists>r \<in> set (ds_devices s). df_device_code r = ''d'' \<and> exchanged_for tid r
        \<and> (df_user_code r, uid) \<in> ds_approvals s)"
proof -
  obtain s tid p uid where s: "device_reachable (\<lambda>x. x) s" "ds_delivered s = [(''d'', tid, p, uid)]"
    using demo_delivered by blast
  then have "(''d'', tid, p, uid) \<in> set (ds_delivered s)" by simp
  from device_bearer_only_for_approver [OF s(1) this] s(1) show ?thesis by blast
qed

text \<open>Refinement: every call of the sequential \<open>device_token\<close>, whatever it replies, is a run of the
  concurrent step relation by one idle worker, which ends in a reachable state with the same tables and
  the same delivered bearer.\<close>

theorem device_token_is_run:
  assumes "device_reachable sha256 s" and "ds_workers s w = Idle"
  shows "\<exists>s'. device_reachable sha256 s' \<and> (device_step sha256)\<^sup>*\<^sup>* s s' \<and>
     served dc s (device_token sha256 env now app_now dc (ds_devices s, ds_tokens s)) s'"
  using device_token_run [OF assms(2)] device_reachable_run [OF _ assms(1)] by blast

theorem device_token_is_run_witness:
  "\<exists>s'. device_reachable (\<lambda>x. x) s' \<and> served ''d'' device_init
     (device_token (\<lambda>x. x) demo_env 3 3 ''d'' (ds_devices device_init, ds_tokens device_init)) s'"
  using device_token_is_run [OF device_reachable.start, where w = 0] by (fastforce simp: device_init_def)

section \<open>Starting a flow\<close>

definition user_code_char :: "char \<Rightarrow> bool" where
  "user_code_char c \<longleftrightarrow> c \<in> set user_code_alphabet"

definition user_code_format :: "string \<Rightarrow> bool" where
  "user_code_format s \<longleftrightarrow> length s = 9 \<and> s ! 4 = CHR ''-'' \<and> (\<forall>i < 9. i \<noteq> 4 \<longrightarrow> user_code_char (s ! i))"

lemma upt_0_8: "[0..<8] = [0, 1, 2, 3, 4, 5, 6, 7::nat]"
  by (simp add: upt_conv_Cons)

lemma user_code_char_nth: "i < 29 \<Longrightarrow> user_code_char (user_code_alphabet ! i)"
  unfolding user_code_char_def by (rule nth_mem) (simp add: user_code_alphabet_def)

lemma less_9_cases: "(\<forall>i < 9. P i) \<longleftrightarrow> P 0 \<and> P 1 \<and> P 2 \<and> P 3 \<and> P 4 \<and> P 5 \<and> P 6 \<and> P 7 \<and> P (8::nat)"
  by (simp add: numeral_eq_Suc All_less_Suc conj_ac)

text \<open>Whatever indices the random source draws below the alphabet's length, the generated user code
  has the form \<open>XXXX-XXXX\<close> over the unambiguous alphabet.\<close>

theorem generate_user_code_format:
  assumes "length idx = 8" and "\<And>i. i \<in> set idx \<Longrightarrow> i < length user_code_alphabet"
  shows "user_code_format (generate_user_code idx)"
proof -
  have len: "length user_code_alphabet = 29" by (simp add: user_code_alphabet_def)
  have ok: "user_code_char (user_code_alphabet ! (idx ! i))" if "i < 8" for i
    using assms that len by (intro user_code_char_nth) simp
  show ?thesis unfolding user_code_format_def less_9_cases
    by (simp add: generate_user_code_def upt_0_8 ok nth_Cons')
qed

theorem generate_user_code_format_witness:
  "user_code_format (generate_user_code [0, 1, 2, 3, 4, 5, 6, 28])"
  by (rule generate_user_code_format) (auto simp: user_code_alphabet_def)

definition pending_row :: "instant \<Rightarrow> string \<Rightarrow> device_authorization_json \<Rightarrow> device_row" where
  "pending_row now client_id j =
     \<lparr>df_device_code = da_device_code j, df_user_code = da_user_code j, df_client_id = client_id,
      df_expires_at = now + seconds (da_expires_in j), df_interval_secs = word_of_int (da_interval j),
      df_last_polled_at = None, df_status = ''pending'', df_granted_user_id = None,
      df_granted_user_login = None, df_granted_token_id = None\<rparr>"

lemma insert_pending_cases:
  "insert_pending up now dc uc client t = (r, t') \<Longrightarrow>
     (case r of Inl e \<Rightarrow> t' = t
      | Inr u \<Rightarrow> dc \<notin> df_device_code ` set t \<and> uc \<notin> df_user_code ` set t
          \<and> t' = t @ [\<lparr>df_device_code = dc, df_user_code = uc,
              df_client_id = client, df_expires_at = now + seconds 600, df_interval_secs = 5,
              df_last_polled_at = None, df_status = ''pending'', df_granted_user_id = None,
              df_granted_user_login = None, df_granted_token_id = None\<rparr>])"
  by (auto simp: insert_pending_def split: if_splits)

lemma device_authorization_loop_effect:
  "device_authorization_loop base client n draws t = (r, t') \<Longrightarrow>
     (case r of Inl e \<Rightarrow> t' = t
      | Inr j \<Rightarrow> \<exists>now. t' = t @ [pending_row now client j]
          \<and> da_device_code j \<notin> df_device_code ` set t \<and> da_user_code j \<notin> df_user_code ` set t
          \<and> da_verification_uri_complete j = base @ ''/device?user_code='' @ da_user_code j)"
proof (induction base client n draws t arbitrary: r t' rule: device_authorization_loop.induct)
  case (2 base client n up now bytes idx draws t)
  obtain res t1 where ins:
    "insert_pending up now (generate_device_code bytes) (generate_user_code idx) client t = (res, t1)"
    by fastforce
  show ?case
  proof (cases res)
    case (Inl e)
    with insert_pending_cases [OF ins] have "t1 = t" by simp
    with 2 ins Inl show ?thesis by (auto split: if_splits)
  next
    case (Inr u)
    note row = insert_pending_cases [OF ins, unfolded Inr sum.case]
    have "r = Inr \<lparr>da_device_code = generate_device_code bytes, da_user_code = generate_user_code idx,
        da_verification_uri = base @ ''/device'',
        da_verification_uri_complete = base @ ''/device?user_code='' @ generate_user_code idx,
        da_expires_in = 600, da_interval = 5\<rparr>" and "t' = t1"
      using 2(2) ins Inr by (simp_all add: Let_def)
    with row show ?thesis by (auto simp: pending_row_def simp del: seconds_def)
  qed
qed simp

text \<open>Starting a flow either fails and leaves the table as it was, or an allowed client gets the codes
  of exactly one appended pending row whose codes no earlier row had and whose lifetime and interval are
  the ones announced; retries leave nothing behind.\<close>

theorem device_authorization_effect:
  "case device_authorization url client draws t of
     (Inl e, t') \<Rightarrow> t' = t
   | (Inr j, t') \<Rightarrow> client = ''claude-code'' \<and> (\<exists>now. t' = t @ [pending_row now client j])
       \<and> da_device_code j \<notin> df_device_code ` set t \<and> da_user_code j \<notin> df_user_code ` set t
       \<and> da_verification_uri_complete j = trim_end_matches CHR ''/'' url @ ''/device?user_code='' @ da_user_code j"
  using device_authorization_loop_effect [of "trim_end_matches CHR ''/'' url" client 0 "take 3 draws" t]
  by (auto simp: device_authorization_def allowed_client_ids_def split: prod.splits sum.splits)

end
