(* ===== verification/Auth_Service.thy ===== *)
theory Auth_Service
  imports Device_Flow
begin

text \<open>
  \<open>AuthStore\<close> (\<open>akashic-identity/src/store.rs\<close>), the login, exchange, account and validation
  operations of \<open>IdentityServices\<close> (\<open>services.rs\<close>), the session cookie parser (\<open>lib.rs\<close>) and the MCP
  authentication layer (\<open>akashic-mcp/src/mcp_middleware.rs\<close>).

  GitLab is a service outside the repository: its three calls are the fields of \<open>gateway\<close>, an argument
  of every operation that uses them (\<open>None\<close> is the transport or status error). The LRU cache of the
  \<open>lru\<close> crate is given by its \<open>get\<close> and \<open>put\<close>, arguments of \<open>validate_passthrough_token\<close>.

  The locale \<open>one_time_tickets\<close> is the contract of an in-memory map of one-time values (CSRF states,
  CLI verification codes): it is interpreted on both maps of \<open>AuthStore\<close>.
\<close>

section \<open>State\<close>

record user_info =
  ui_username :: string
  ui_name :: "string option"
  ui_avatar_url :: "string option"

record pending_code =
  pn_user_info :: user_info
  pn_gitlab_token :: string
  pn_gitlab_user_id :: "int option"
  pn_expires_at :: instant

record pending_state =
  pe_expires_at :: instant
  pe_next :: "string option"

record cached_user =
  cu_user_id :: int
  cu_user_login :: string

record validated_passthrough =
  vt_user_id :: int
  vt_user_login :: string
  vt_token_id_prefix :: string

record gl_user =
  gl_id :: "int option"
  gl_username :: string
  gl_name :: "string option"
  gl_avatar_url :: "string option"

record gateway =
  gw_exchange_oauth_code :: "string \<Rightarrow> string \<Rightarrow> string option"
  gw_fetch_user :: "string \<Rightarrow> gl_user option"
  gw_validate_passthrough :: "string \<Rightarrow> gl_user option option"

record auth_state =
  au_pending_codes :: "string \<rightharpoonup> pending_code"
  au_pending_states :: "string \<rightharpoonup> pending_state"
  au_sessions :: "session_db_row list"

record auth_config =
  ac_gitlab_url :: string
  ac_gitlab_app_id :: string
  ac_gitlab_redirect_uri :: string
  ac_gitlab_web_redirect_uri :: string
  ac_auth_code_ttl_secs :: nat
  ac_api_key_ttl_secs :: nat
  ac_public_base_url :: string
  ac_frontend_url :: string
  ac_cookie_secure :: bool

section \<open>Sessions\<close>

definition auth_validate_session ::
  "bool \<Rightarrow> instant \<Rightarrow> string \<Rightarrow> session_db_row list \<Rightarrow> (user_info \<times> string \<times> int option) option" where
  "auth_validate_session up now api_key t =
     (case validate_session up now api_key t of
        Inl e \<Rightarrow> None
      | Inr None \<Rightarrow> None
      | Inr (Some row) \<Rightarrow>
          Some (\<lparr>ui_username = sr_username row, ui_name = sr_name row, ui_avatar_url = sr_avatar_url row\<rparr>,
                sr_gitlab_token row, sr_gitlab_user_id row))"

definition auth_insert_session ::
  "bool \<Rightarrow> instant \<Rightarrow> string \<Rightarrow> user_info \<Rightarrow> string \<Rightarrow> nat \<Rightarrow> int option \<Rightarrow> session_db_row list
   \<Rightarrow> unit db \<times> session_db_row list" where
  "auth_insert_session up now api_key ui gitlab_token ttl_secs gitlab_user_id t =
     insert_session up now api_key (ui_username ui) (ui_name ui) (ui_avatar_url ui) gitlab_token
       ttl_secs gitlab_user_id t"

definition map_retain :: "('v \<Rightarrow> bool) \<Rightarrow> ('k \<rightharpoonup> 'v) \<Rightarrow> ('k \<rightharpoonup> 'v)" where
  "map_retain p m = (\<lambda>k. case m k of None \<Rightarrow> None | Some v \<Rightarrow> if p v then Some v else None)"

definition cleanup_expired :: "bool \<Rightarrow> instant \<Rightarrow> auth_state \<Rightarrow> auth_state" where
  "cleanup_expired up now st =
     st\<lparr>au_pending_codes := map_retain (\<lambda>v. now < pn_expires_at v) (au_pending_codes st),
        au_pending_states := map_retain (\<lambda>v. now < pe_expires_at v) (au_pending_states st),
        au_sessions := snd (cleanup_expired_sessions up now (au_sessions st))\<rparr>"

definition resolve_gitlab_user_id :: "gateway \<Rightarrow> int option \<Rightarrow> string \<Rightarrow> int option" where
  "resolve_gitlab_user_id gw gitlab_user_id gitlab_token =
     (case gitlab_user_id of
        Some uid \<Rightarrow> Some uid
      | None \<Rightarrow> (case gw_fetch_user gw gitlab_token of Some u \<Rightarrow> gl_id u | None \<Rightarrow> None))"

text \<open>The argument is the \<open>Cookie\<close> header, \<open>None\<close> when it is absent or not visible ASCII.\<close>

definition session_cookie_value :: "string option \<Rightarrow> string option" where
  "session_cookie_value cookie =
     Option.bind cookie (\<lambda>h. find_map (\<lambda>part.
       Option.bind (strip_prefix ''ak_session='' (trim part)) (\<lambda>v.
         let val = trim v in if val \<noteq> [] then Some val else None)) (split_char CHR '';'' h))"

record session_user =
  su_user_id :: int
  su_user_login :: string

definition extract_session_user ::
  "gateway \<Rightarrow> bool \<Rightarrow> instant \<Rightarrow> string option \<Rightarrow> session_db_row list \<Rightarrow> session_user option" where
  "extract_session_user gw up now cookie t =
     Option.bind (session_cookie_value cookie) (\<lambda>api_key.
     Option.bind (auth_validate_session up now api_key t) (\<lambda>(info, gitlab_token, gitlab_user_id).
     Option.bind (resolve_gitlab_user_id gw gitlab_user_id gitlab_token) (\<lambda>uid.
       Some \<lparr>su_user_id = uid, su_user_login = ui_username info\<rparr>)))"

section \<open>Login, callback and exchange\<close>

text \<open>The responses the handlers build: an error or result body with its status, a redirect, a page.\<close>

datatype json_value = J_null | J_bool bool | J_str string | J_int int

datatype http_response =
    Json_error nat string
  | Json_error_desc nat string string
  | Text_response nat string
  | Status_only nat
  | Redirect_to string
  | Redirect_temporary string
  | Redirect_with_cookie string string
  | Found_with_cookie string string
  | Html string
  | Json_fields "(string \<times> json_value) list"
  | Bearer_json string int
  | Challenge_401 "string option"

definition put_state :: "string \<Rightarrow> instant \<Rightarrow> string option \<Rightarrow> auth_state \<Rightarrow> auth_state" where
  "put_state state_param now nxt st =
     st\<lparr>au_pending_states := (au_pending_states st)(state_param \<mapsto>
          \<lparr>pe_expires_at = now + seconds 300, pe_next = nxt\<rparr>)\<rparr>"

definition gitlab_authorize_url :: "(string \<Rightarrow> string) \<Rightarrow> auth_config \<Rightarrow> string \<Rightarrow> string" where
  "gitlab_authorize_url urlencode cfg state_param =
     ac_gitlab_url cfg @ ''/oauth/authorize?client_id='' @ urlencode (ac_gitlab_app_id cfg)
     @ ''&redirect_uri='' @ urlencode (ac_gitlab_redirect_uri cfg) @ ''&response_type=code&state=''
     @ urlencode state_param @ ''&scope='' @ urlencode ''read_user read_repository''"

definition login_initiate ::
  "(string \<Rightarrow> string) \<Rightarrow> auth_config \<Rightarrow> instant \<Rightarrow> uuid \<Rightarrow> auth_state \<Rightarrow> string \<times> auth_state" where
  "login_initiate urlencode cfg now fresh st =
     (let state_param = uuid_to_string fresh in
      (gitlab_authorize_url urlencode cfg state_param, put_state state_param now None st))"

definition login ::
  "(string \<Rightarrow> string) \<Rightarrow> auth_config \<Rightarrow> instant \<Rightarrow> uuid \<Rightarrow> auth_state \<Rightarrow> http_response \<times> auth_state" where
  "login urlencode cfg now fresh st =
     (let state_param = uuid_to_string fresh;
          secure = (if starts_with ''https://'' (ac_gitlab_redirect_uri cfg) then ''; Secure'' else []);
          cookie = ''ak_oauth_state='' @ state_param @ ''; HttpOnly; SameSite=Lax; Path=/; Max-Age=300'' @ secure
      in (Redirect_with_cookie cookie (gitlab_authorize_url urlencode cfg state_param),
          put_state state_param now None st))"

definition is_same_origin_path :: "(string \<Rightarrow> bool) \<Rightarrow> string \<Rightarrow> bool" where
  "is_same_origin_path url_parses nxt =
     (if \<not> starts_with ''/'' nxt \<or> starts_with ''//'' nxt \<or> starts_with [CHR ''/'', CHR 0x5C] nxt
      then False else \<not> url_parses nxt)"

definition web_login_go ::
  "auth_config \<Rightarrow> instant \<Rightarrow> uuid \<Rightarrow> string option \<Rightarrow> auth_state \<Rightarrow> http_response \<times> auth_state" where
  "web_login_go cfg now fresh nxt st =
     (let state_param = uuid_to_string fresh in
      (Redirect_temporary (ac_gitlab_url cfg @ ''/oauth/authorize?client_id='' @ ac_gitlab_app_id cfg
         @ ''&redirect_uri='' @ ac_gitlab_web_redirect_uri cfg @ ''&response_type=code&state=''
         @ state_param @ ''&scope=read_user+read_repository+read_api''),
       put_state state_param now nxt st))"

definition web_login ::
  "(string \<Rightarrow> bool) \<Rightarrow> auth_config \<Rightarrow> instant \<Rightarrow> uuid \<Rightarrow> string option \<Rightarrow> auth_state
   \<Rightarrow> http_response \<times> auth_state" where
  "web_login url_parses cfg now fresh nxt st =
     (case nxt of
        Some n \<Rightarrow> if is_same_origin_path url_parses n then web_login_go cfg now fresh (Some n) st
                  else (Json_error_desc 400 ''invalid_next''
                          ''next must be a same-origin path, e.g. /oauth/authorize?...'', st)
      | None \<Rightarrow> web_login_go cfg now fresh None st)"

definition callback_complete ::
  "gateway \<Rightarrow> auth_config \<Rightarrow> instant \<Rightarrow> nat list \<Rightarrow> string \<Rightarrow> string \<Rightarrow> auth_state
   \<Rightarrow> (string \<times> string \<times> nat) dres \<times> auth_state" where
  "callback_complete gw cfg now idx code state_param st =
     (case au_pending_states st state_param of
        None \<Rightarrow> (Inl (Bad_request ''invalid_or_expired_state''), st)
      | Some pending \<Rightarrow>
          let st1 = st\<lparr>au_pending_states := (au_pending_states st)(state_param := None)\<rparr> in
          if pe_expires_at pending < now then (Inl (Bad_request ''state_expired''), st1)
          else (case gw_exchange_oauth_code gw code (ac_gitlab_redirect_uri cfg) of
                  None \<Rightarrow> (Inl (Internal ''exchange''), st1)
                | Some access_token \<Rightarrow>
                    (case gw_fetch_user gw access_token of
                       None \<Rightarrow> (Inl (Internal ''fetch_user''), st1)
                     | Some u \<Rightarrow>
                         let verification_code = generate_user_code idx; ttl_secs = ac_auth_code_ttl_secs cfg in
                         (Inr (gl_username u, verification_code, ttl_secs),
                          st1\<lparr>au_pending_codes := (au_pending_codes st1)(verification_code \<mapsto>
                            \<lparr>pn_user_info = \<lparr>ui_username = gl_username u, ui_name = gl_name u,
                                             ui_avatar_url = gl_avatar_url u\<rparr>,
                             pn_gitlab_token = access_token, pn_gitlab_user_id = gl_id u,
                             pn_expires_at = now + seconds (int ttl_secs)\<rparr>)\<rparr>))))"

definition exchange_code ::
  "auth_config \<Rightarrow> bool \<Rightarrow> instant \<Rightarrow> uuid \<Rightarrow> string \<Rightarrow> auth_state \<Rightarrow> (string \<times> string) dres \<times> auth_state" where
  "exchange_code cfg up now fresh code st =
     (case au_pending_codes st code of
        None \<Rightarrow> (Inl Unauthorized, st)
      | Some pending \<Rightarrow>
          let st1 = st\<lparr>au_pending_codes := (au_pending_codes st)(code := None)\<rparr> in
          if pn_expires_at pending < now then (Inl Unauthorized, st1)
          else let api_key = ''ak-'' @ uuid_to_string fresh in
            (case auth_insert_session up now api_key (pn_user_info pending) (pn_gitlab_token pending)
                    (ac_api_key_ttl_secs cfg) (pn_gitlab_user_id pending) (au_sessions st1) of
               (Inl e, t) \<Rightarrow> (Inl (Internal ''session_insert_failed''), st1\<lparr>au_sessions := t\<rparr>)
             | (Inr u, t) \<Rightarrow> (Inr (api_key, ui_username (pn_user_info pending)), st1\<lparr>au_sessions := t\<rparr>)))"

record web_login_outcome =
  wo_api_key :: string
  wo_ttl_secs :: nat
  wo_username :: string
  wo_next :: "string option"

datatype web_login_error = Invalid_state | Upstream | Web_internal

definition complete_web_login ::
  "gateway \<Rightarrow> auth_config \<Rightarrow> bool \<Rightarrow> instant \<Rightarrow> uuid \<Rightarrow> string \<Rightarrow> string \<Rightarrow> auth_state
   \<Rightarrow> (web_login_error + web_login_outcome) \<times> auth_state" where
  "complete_web_login gw cfg up now fresh code state_param st =
     (case au_pending_states st state_param of
        None \<Rightarrow> (Inl Invalid_state, st)
      | Some pending \<Rightarrow>
          let st1 = st\<lparr>au_pending_states := (au_pending_states st)(state_param := None)\<rparr> in
          if pe_expires_at pending < now then (Inl Invalid_state, st1)
          else (case gw_exchange_oauth_code gw code (ac_gitlab_web_redirect_uri cfg) of
                  None \<Rightarrow> (Inl Upstream, st1)
                | Some access_token \<Rightarrow>
                    (case gw_fetch_user gw access_token of
                       None \<Rightarrow> (Inl Upstream, st1)
                     | Some u \<Rightarrow>
                         let api_key = ''ak-'' @ uuid_to_string fresh in
                         (case auth_insert_session up now api_key
                                 \<lparr>ui_username = gl_username u, ui_name = gl_name u, ui_avatar_url = gl_avatar_url u\<rparr>
                                 access_token (ac_api_key_ttl_secs cfg) (gl_id u) (au_sessions st1) of
                            (Inl e, t) \<Rightarrow> (Inl Web_internal, st1\<lparr>au_sessions := t\<rparr>)
                          | (Inr v, t) \<Rightarrow>
                              (Inr \<lparr>wo_api_key = api_key, wo_ttl_secs = ac_api_key_ttl_secs cfg,
                                    wo_username = gl_username u, wo_next = pe_next pending\<rparr>,
                               st1\<lparr>au_sessions := t\<rparr>)))))"

section \<open>The browser handlers\<close>

text \<open>
  \<open>url_host\<close> is \<open>reqwest::Url::parse(url).ok().and_then(host_str)\<close> and \<open>header_ok\<close> tells whether a
  string parses as an HTTP header value: both are third-party parsers.
\<close>

definition extract_domain :: "(string \<Rightarrow> string option) \<Rightarrow> string \<Rightarrow> string" where
  "extract_domain url_host url = (case url_host url of None \<Rightarrow> [] | Some h \<Rightarrow> h)"

definition build_session_cookie ::
  "(string \<Rightarrow> string option) \<Rightarrow> bool \<Rightarrow> string \<Rightarrow> string \<Rightarrow> nat \<Rightarrow> string" where
  "build_session_cookie url_host cookie_secure frontend_url val max_age_secs =
     ''ak_session='' @ val @ ''; HttpOnly; SameSite=Lax; Path=/; Max-Age='' @ dec_of_nat max_age_secs
     @ (if cookie_secure then ''; Secure'' else []) @ ''; Domain='' @ extract_domain url_host frontend_url"

definition web_callback ::
  "(string \<Rightarrow> bool) \<Rightarrow> (string \<Rightarrow> string option) \<Rightarrow> (string \<Rightarrow> bool) \<Rightarrow> gateway \<Rightarrow> auth_config \<Rightarrow> bool \<Rightarrow> instant
   \<Rightarrow> uuid \<Rightarrow> string \<Rightarrow> string \<Rightarrow> auth_state \<Rightarrow> http_response \<times> auth_state" where
  "web_callback url_parses url_host header_ok gw cfg up now fresh code state_param st =
     (case complete_web_login gw cfg up now fresh code state_param st of
        (Inl Invalid_state, st') \<Rightarrow> (Text_response 400 ''Invalid or expired state parameter'', st')
      | (Inl Upstream, st') \<Rightarrow> (Text_response 502 ''Failed to authenticate with GitLab'', st')
      | (Inl Web_internal, st') \<Rightarrow> (Status_only 500, st')
      | (Inr o', st') \<Rightarrow>
          (let location = (case wo_next o' of
                 Some nxt \<Rightarrow> if is_same_origin_path url_parses nxt
                             then trim_end_matches CHR ''/'' (ac_public_base_url cfg) @ nxt
                             else ac_frontend_url cfg
               | None \<Rightarrow> ac_frontend_url cfg);
               cookie = build_session_cookie url_host (ac_cookie_secure cfg) (ac_frontend_url cfg)
                          (wo_api_key o') (wo_ttl_secs o')
           in if \<not> header_ok cookie then (Status_only 500, st')
              else if \<not> header_ok location then (Status_only 500, st')
              else (Found_with_cookie cookie location, st')))"

definition auth_me ::
  "bool \<Rightarrow> instant \<Rightarrow> string option \<Rightarrow> session_db_row list \<Rightarrow> http_response" where
  "auth_me up now cookie t =
     (case session_cookie_value cookie of
        None \<Rightarrow> Json_error 401 ''Not logged in''
      | Some api_key \<Rightarrow>
          (case auth_validate_session up now api_key t of
             Some (ui, _, _) \<Rightarrow> Json_fields [(''username'', J_str (ui_username ui)),
               (''avatar_url'', case ui_avatar_url ui of None \<Rightarrow> J_null | Some u \<Rightarrow> J_str u)]
           | None \<Rightarrow> Json_error 401 ''Session expired''))"

definition auth_logout ::
  "bool \<Rightarrow> string option \<Rightarrow> session_db_row list \<Rightarrow> session_db_row list" where
  "auth_logout up cookie t =
     (case session_cookie_value cookie of None \<Rightarrow> t | Some api_key \<Rightarrow> snd (remove_session up api_key t))"

text \<open>The deprecated CLI callback: it requires the state cookie before the service is called.\<close>

fun cookie_value_parts :: "string \<Rightarrow> string list \<Rightarrow> string option" where
  "cookie_value_parts nm [] = None"
| "cookie_value_parts nm (p # ps) =
     (case Option.bind (strip_prefix nm (trim p)) (strip_prefix ''='') of
        Some val \<Rightarrow> Some val | None \<Rightarrow> cookie_value_parts nm ps)"

definition cookie_value :: "string option \<Rightarrow> string \<Rightarrow> string option" where
  "cookie_value cookie_header nm =
     (case cookie_header of None \<Rightarrow> None | Some h \<Rightarrow> cookie_value_parts nm (split_char CHR '';'' h))"

definition callback ::
  "gateway \<Rightarrow> auth_config \<Rightarrow> instant \<Rightarrow> nat list \<Rightarrow> string option \<Rightarrow> string \<Rightarrow> string \<Rightarrow> auth_state
   \<Rightarrow> (string + string \<times> string \<times> nat) \<times> auth_state" where
  "callback gw cfg now idx cookie code state_param st =
     (if cookie_value cookie ''ak_oauth_state'' \<noteq> Some state_param
      then (Inl ''Invalid or missing OAuth state cookie'', st)
      else case callback_complete gw cfg now idx code state_param st of
             (Inl e, st') \<Rightarrow> (Inl ''Failed to authenticate with GitLab'', st')
           | (Inr v, st') \<Rightarrow> (Inr v, st'))"

definition exchange ::
  "auth_config \<Rightarrow> bool \<Rightarrow> instant \<Rightarrow> uuid \<Rightarrow> string \<Rightarrow> auth_state \<Rightarrow> http_response \<times> auth_state" where
  "exchange cfg up now fresh code st =
     (case exchange_code cfg up now fresh code st of
        (Inr (api_key, username), st') \<Rightarrow> (Json_fields [(''api_key'', J_str api_key), (''username'', J_str username)], st')
      | (Inl Unauthorized, st') \<Rightarrow> (Json_error 401 ''Invalid or expired code'', st')
      | (Inl e, st') \<Rightarrow> (Json_error 500 ''Failed to create session'', st'))"

section \<open>Passthrough tokens\<close>

text \<open>
  \<open>cget\<close> and \<open>cput\<close> are \<open>LruCache::get\<close> (which also refreshes recency) and \<open>LruCache::put\<close>. The third
  component of the result records the calls of the gateway.
\<close>

definition passthrough_prefix :: "(string \<Rightarrow> string) \<Rightarrow> string \<Rightarrow> string option" where
  "passthrough_prefix sha256 token =
     (case strip_prefix ''glpat-'' token of
        None \<Rightarrow> None | Some raw \<Rightarrow> if raw = [] then None else Some (take 16 (sha256 raw)))"

definition validate_passthrough_token ::
  "(string \<Rightarrow> string) \<Rightarrow> (string \<Rightarrow> 'c \<Rightarrow> (cached_user \<times> instant) option \<times> 'c)
   \<Rightarrow> (string \<Rightarrow> cached_user \<times> instant \<Rightarrow> 'c \<Rightarrow> 'c) \<Rightarrow> gateway \<Rightarrow> int \<Rightarrow> bool \<Rightarrow> instant \<Rightarrow> string
   \<Rightarrow> tombstone_row list \<Rightarrow> 'c \<Rightarrow> validated_passthrough option \<times> 'c \<times> string list" where
  "validate_passthrough_token sha256 cget cput gw ttl_secs up now presented tombs c =
     (case strip_prefix ''glpat-'' presented of
        None \<Rightarrow> (None, c, [])
      | Some raw \<Rightarrow>
          if raw = [] then (None, c, [])
          else
            let hash_hex = sha256 raw; pre = take 16 hash_hex;
                tombstoned = (case check_passthrough_revoked up pre tombs of Inl e \<Rightarrow> False | Inr b \<Rightarrow> b)
            in if tombstoned then (None, c, [])
               else
                 let (hit, c1) = cget hash_hex c;
                     fresh_hit = (case hit of None \<Rightarrow> None
                        | Some (user, cached_at) \<Rightarrow> if now - cached_at < seconds ttl_secs then Some user else None)
                 in case fresh_hit of
                      Some user \<Rightarrow>
                        (Some \<lparr>vt_user_id = cu_user_id user, vt_user_login = cu_user_login user,
                               vt_token_id_prefix = pre\<rparr>, c1, [])
                    | None \<Rightarrow>
                        (case gw_validate_passthrough gw presented of
                           Some (Some gl) \<Rightarrow>
                             (case gl_id gl of
                                None \<Rightarrow> (None, c1, [presented])
                              | Some user_id \<Rightarrow>
                                  (Some \<lparr>vt_user_id = user_id, vt_user_login = gl_username gl,
                                         vt_token_id_prefix = pre\<rparr>,
                                   cput hash_hex (\<lparr>cu_user_id = user_id, cu_user_login = gl_username gl\<rparr>, now) c1,
                                   [presented]))
                         | _ \<Rightarrow> (None, c1, [presented])))"

definition revoke_passthrough ::
  "(string \<Rightarrow> string) \<Rightarrow> (string \<Rightarrow> 'c \<Rightarrow> (cached_user \<times> instant) option \<times> 'c)
   \<Rightarrow> (string \<Rightarrow> cached_user \<times> instant \<Rightarrow> 'c \<Rightarrow> 'c) \<Rightarrow> gateway \<Rightarrow> int \<Rightarrow> bool \<Rightarrow> bool \<Rightarrow> instant \<Rightarrow> int \<Rightarrow> string
   \<Rightarrow> tombstone_row list \<times> 'c \<Rightarrow> unit dres \<times> tombstone_row list \<times> 'c" where
  "revoke_passthrough sha256 cget cput gw ttl_secs up wr now user_id token s =
     (let (tombs, c) = s in
      case passthrough_prefix sha256 token of
        None \<Rightarrow> (Inl (Bad_request ''invalid_token_format''), tombs, c)
      | Some pre \<Rightarrow>
          (case validate_passthrough_token sha256 cget cput gw ttl_secs up now token tombs c of
             (v, c', _) \<Rightarrow>
               (case v of
                  None \<Rightarrow> (Inl (Not_found ''token''), tombs, c')
                | Some v' \<Rightarrow>
                    if vt_user_id v' = user_id
                    then (case tombstone_passthrough wr pre user_id tombs of
                            (Inl e, tombs') \<Rightarrow> (Inl (Internal ''revoke_passthrough_token''), tombs', c')
                          | (Inr u, tombs') \<Rightarrow> (Inr (), tombs', c'))
                    else (Inl (Not_found ''token''), tombs, c'))))"

section \<open>Account operations\<close>

definition revoke_my_token ::
  "bool \<Rightarrow> bool \<Rightarrow> instant \<Rightarrow> int \<Rightarrow> uuid \<Rightarrow> mcp_token_row list \<Rightarrow> unit dres \<times> mcp_token_row list" where
  "revoke_my_token up wr now user_id token_id t =
     (case check_token_ownership up token_id t of
        Inl e \<Rightarrow> (Inl (Internal ''check_token_ownership''), t)
      | Inr owner \<Rightarrow>
          if owner = Some user_id
          then (case revoke_mcp_token wr now token_id t of
                  (Inl e, t') \<Rightarrow> (Inl (Internal ''revoke_mcp_token''), t')
                | (Inr u, t') \<Rightarrow> (Inr (), t'))
          else (Inl (Not_found ''token''), t))"

definition account_revoke_my_token ::
  "(string \<Rightarrow> uuid option) \<Rightarrow> bool \<Rightarrow> bool \<Rightarrow> instant \<Rightarrow> session_user option \<Rightarrow> string \<Rightarrow> mcp_token_row list
   \<Rightarrow> http_response \<times> mcp_token_row list" where
  "account_revoke_my_token parse_uuid up wr now session id_str t =
     (case session of
        None \<Rightarrow> (Text_response 401 ''no session'', t)
      | Some su \<Rightarrow>
          (case parse_uuid id_str of
             None \<Rightarrow> (Text_response 400 ''invalid token id'', t)
           | Some token_id \<Rightarrow>
               (case revoke_my_token up wr now (su_user_id su) token_id t of
                  (Inr u, t') \<Rightarrow> (Status_only 204, t')
                | (Inl (Not_found x), t') \<Rightarrow> (Text_response 404 ''not found'', t')
                | (Inl e, t') \<Rightarrow> (Text_response 500 ''db error'', t'))))"

definition account_revoke_passthrough ::
  "(string \<Rightarrow> string) \<Rightarrow> (string \<Rightarrow> 'c \<Rightarrow> (cached_user \<times> instant) option \<times> 'c)
   \<Rightarrow> (string \<Rightarrow> cached_user \<times> instant \<Rightarrow> 'c \<Rightarrow> 'c) \<Rightarrow> gateway \<Rightarrow> int \<Rightarrow> bool \<Rightarrow> bool \<Rightarrow> instant \<Rightarrow> session_user option
   \<Rightarrow> string option \<Rightarrow> string option \<Rightarrow> tombstone_row list \<times> 'c \<Rightarrow> http_response \<times> tombstone_row list \<times> 'c" where
  "account_revoke_passthrough sha256 cget cput gw ttl_secs up wr now session token pre s =
     (case session of
        None \<Rightarrow> (Text_response 401 ''no session'', s)
      | Some su \<Rightarrow>
          (case (token, pre) of
             (Some _, Some _) \<Rightarrow> (Json_error 400 ''supply exactly one of `token` or `prefix`'', s)
           | (None, None) \<Rightarrow> (Json_error 400 ''supply exactly one of `token` or `prefix`'', s)
           | (None, Some p) \<Rightarrow>
               (let p' = map ascii_lower (trim p) in
                if length p' \<noteq> 16 \<or> \<not> list_all is_ascii_hexdigit p'
                then (Json_error 400 ''invalid_prefix_format'', s)
                else (Json_error_desc 403 ''prefix_revocation_forbidden''
                        ''ownership cannot be proven from a prefix; present the full token'', s))
           | (Some tok, None) \<Rightarrow>
               (case passthrough_prefix sha256 tok of
                  None \<Rightarrow> (Json_error 400 ''invalid_token_format'', s)
                | Some px \<Rightarrow>
                    (case revoke_passthrough sha256 cget cput gw ttl_secs up wr now (su_user_id su) tok s of
                       (Inr u, s') \<Rightarrow> (Json_fields [(''revoked'', J_bool True), (''prefix'', J_str px)], s')
                     | (Inl (Bad_request x), s') \<Rightarrow> (Json_error 400 ''invalid_token_format'', s')
                     | (Inl (Not_found x), s') \<Rightarrow> (Text_response 404 ''not found'', s')
                     | (Inl e, s') \<Rightarrow> (Text_response 500 ''db error'', s')))))"

section \<open>Authentication layers\<close>

datatype auth_method = DeviceFlow | GitLabPassthrough

record actor_identity =
  ai_user_id :: int
  ai_token_id :: string
  ai_auth_method :: auth_method

definition actor_id_of :: "int \<Rightarrow> string" where
  "actor_id_of user_id = ''gitlab:user:'' @ dec_of_int user_id"

definition parse_actor_id :: "string \<Rightarrow> int option" where
  "parse_actor_id actor_id = Option.bind (strip_prefix ''gitlab:user:'' actor_id) parse_i64"

text \<open>A layer either answers the request itself or runs the inner service for an actor.\<close>

datatype gate = Answer http_response | Run string actor_identity

definition bearer_header :: "string option \<Rightarrow> string option" where
  "bearer_header authorization = Option.bind authorization (strip_prefix ''Bearer '')"

definition require_auth_layer ::
  "gateway \<Rightarrow> bool \<Rightarrow> instant \<Rightarrow> string option \<Rightarrow> string option \<Rightarrow> session_db_row list \<Rightarrow> gate" where
  "require_auth_layer gw up now authorization cookie t =
     (let token = (case bearer_header authorization of
                     Some b \<Rightarrow> Some b | None \<Rightarrow> session_cookie_value cookie) in
      case token of
        None \<Rightarrow> Answer (Json_error 401 ''Missing or invalid Authorization header'')
      | Some tok \<Rightarrow>
          (case auth_validate_session up now tok t of
             None \<Rightarrow> Answer (Json_error 401 ''Invalid or expired API key'')
           | Some (ui, gitlab_token, gitlab_user_id) \<Rightarrow>
               (case resolve_gitlab_user_id gw gitlab_user_id gitlab_token of
                  None \<Rightarrow> Answer (Json_error 401 ''Could not resolve GitLab user identity for this session'')
                | Some uid \<Rightarrow>
                    Run [] \<lparr>ai_user_id = uid, ai_token_id = ''ak_session:'' @ ui_username ui,
                            ai_auth_method = DeviceFlow\<rparr>)))"

definition service_require_auth ::
  "(string \<Rightarrow> string) \<Rightarrow> bool \<Rightarrow> instant \<Rightarrow> instant \<Rightarrow> string \<Rightarrow> session_db_row list \<Rightarrow> mcp_token_row list
   \<Rightarrow> string dres" where
  "service_require_auth sha256 up now app_now token sess toks =
     (case auth_validate_session up now token sess of
        Some (ui, _, _) \<Rightarrow> Inr (''session:'' @ ui_username ui)
      | None \<Rightarrow>
          (case db_ok (fst (validate_mcp_token sha256 up now app_now token toks)) of
             Some (Some v) \<Rightarrow> Inr (actor_id_of (vm_user_id v))
           | _ \<Rightarrow> Inl Unauthorized))"

text \<open>The 401 carries the challenge header when \<open>HeaderValue::from_str\<close> (\<open>header_ok\<close>) accepts the configured base URL in it.\<close>

definition unauthorized_challenge :: "(string \<Rightarrow> bool) \<Rightarrow> string \<Rightarrow> http_response" where
  "unauthorized_challenge header_ok public_base_url =
     (let challenge = ''Bearer resource_metadata='' @ [CHR 0x22] @ trim_end_matches CHR ''/'' public_base_url
            @ ''/.well-known/oauth-protected-resource'' @ [CHR 0x22]
      in Challenge_401 (if header_ok challenge then Some challenge else None))"

definition mcp_auth ::
  "(string \<Rightarrow> bool) \<Rightarrow> (string \<Rightarrow> string) \<Rightarrow> (string \<Rightarrow> 'c \<Rightarrow> (cached_user \<times> instant) option \<times> 'c)
   \<Rightarrow> (string \<Rightarrow> cached_user \<times> instant \<Rightarrow> 'c \<Rightarrow> 'c) \<Rightarrow> gateway \<Rightarrow> int \<Rightarrow> string \<Rightarrow> bool \<Rightarrow> instant \<Rightarrow> instant
   \<Rightarrow> string option \<Rightarrow> mcp_token_row list \<Rightarrow> tombstone_row list \<Rightarrow> 'c \<Rightarrow> gate \<times> 'c" where
  "mcp_auth header_ok sha256 cget cput gw ttl_secs base up now app_now authorization toks tombs c =
     (case bearer_header authorization of
        None \<Rightarrow> (Answer (unauthorized_challenge header_ok base), c)
      | Some token \<Rightarrow>
          if starts_with ''ak_'' token
          then (case db_ok (fst (validate_mcp_token sha256 up now app_now token toks)) of
                  Some (Some v) \<Rightarrow>
                    (Run (actor_id_of (vm_user_id v))
                       \<lparr>ai_user_id = vm_user_id v, ai_token_id = ''mcp_token:'' @ uuid_to_string (vm_token_id v),
                        ai_auth_method = DeviceFlow\<rparr>, c)
                | _ \<Rightarrow> (Answer (unauthorized_challenge header_ok base), c))
          else if starts_with ''glpat-'' token
          then (case validate_passthrough_token sha256 cget cput gw ttl_secs up now token tombs c of
                  (Some v, c', _) \<Rightarrow>
                    (Run (actor_id_of (vt_user_id v))
                       \<lparr>ai_user_id = vt_user_id v, ai_token_id = ''gitlab_pat:'' @ vt_token_id_prefix v,
                        ai_auth_method = GitLabPassthrough\<rparr>, c')
                | (None, c', _) \<Rightarrow> (Answer (unauthorized_challenge header_ok base), c'))
          else (Answer (unauthorized_challenge header_ok base), c))"

section \<open>One-time in-memory values\<close>

text \<open>
  A history of operations on a map of one-time values: \<open>issues\<close> and \<open>redeems\<close> tell which key an
  operation puts into and successfully takes out of the map in a state.
\<close>

fun count_events :: "('op \<Rightarrow> 's \<Rightarrow> 's) \<Rightarrow> ('op \<Rightarrow> 's \<Rightarrow> 'k \<Rightarrow> bool) \<Rightarrow> 'k \<Rightarrow> 'op list \<Rightarrow> 's \<Rightarrow> nat" where
  "count_events exec ev k [] s = 0"
| "count_events exec ev k (op # h) s = (if ev op s k then 1 else 0) + count_events exec ev k h (exec op s)"

locale one_time_tickets =
  fixes exec :: "'op \<Rightarrow> 's \<Rightarrow> 's"
    and pending :: "'s \<Rightarrow> 'k \<Rightarrow> bool"
    and issues :: "'op \<Rightarrow> 's \<Rightarrow> 'k \<Rightarrow> bool"
    and redeems :: "'op \<Rightarrow> 's \<Rightarrow> 'k \<Rightarrow> bool"
  assumes pending_from: "pending (exec op s) k \<Longrightarrow> pending s k \<or> issues op s k"
    and redeem_pending: "redeems op s k \<Longrightarrow> pending s k"
    and redeem_takes: "redeems op s k \<Longrightarrow> pending (exec op s) k \<Longrightarrow> issues op s k"
begin

lemma redeemed_at_most_issued:
  "count_events exec redeems k h s \<le> count_events exec issues k h s + (if pending s k then 1 else 0)"
proof (induction h arbitrary: s)
  case (Cons op h)
  have "(if redeems op s k then 1 else 0) + (if pending (exec op s) k then 1 else 0)
      \<le> (if issues op s k then 1 else 0) + (if pending s k then 1 else (0::nat))"
    using pending_from [of op s k] redeem_pending [of op s k] redeem_takes [of op s k] by auto
  with Cons.IH [of "exec op s"] show ?case by simp
qed simp

end

datatype auth_op =
    A_login_initiate auth_config instant uuid
  | A_login auth_config instant uuid
  | A_web_login auth_config instant uuid "string option"
  | A_callback gateway auth_config instant "nat list" "string option" string string
  | A_exchange auth_config bool instant uuid string
  | A_web_callback gateway auth_config bool instant uuid string string
  | A_cleanup bool instant

fun auth_exec :: "(string \<Rightarrow> string) \<Rightarrow> (string \<Rightarrow> bool) \<Rightarrow> auth_op \<Rightarrow> auth_state \<Rightarrow> auth_state" where
  "auth_exec urlencode url_parses (A_login_initiate cfg now fresh) st = snd (login_initiate urlencode cfg now fresh st)"
| "auth_exec urlencode url_parses (A_login cfg now fresh) st = snd (login urlencode cfg now fresh st)"
| "auth_exec urlencode url_parses (A_web_login cfg now fresh nxt) st = snd (web_login url_parses cfg now fresh nxt st)"
| "auth_exec urlencode url_parses (A_callback gw cfg now idx cookie code sp) st =
     snd (callback gw cfg now idx cookie code sp st)"
| "auth_exec urlencode url_parses (A_exchange cfg up now fresh code) st = snd (exchange cfg up now fresh code st)"
| "auth_exec urlencode url_parses (A_web_callback gw cfg up now fresh code sp) st =
     snd (complete_web_login gw cfg up now fresh code sp st)"
| "auth_exec urlencode url_parses (A_cleanup up now) st = cleanup_expired up now st"

text \<open>An operation issues the state it puts into the redirect; a callback redeems a state when it passes the
  state check and goes on to GitLab.\<close>

fun issues_state :: "(string \<Rightarrow> bool) \<Rightarrow> auth_op \<Rightarrow> auth_state \<Rightarrow> string \<Rightarrow> bool" where
  "issues_state url_parses (A_login_initiate cfg now fresh) st k = (k = uuid_to_string fresh)"
| "issues_state url_parses (A_login cfg now fresh) st k = (k = uuid_to_string fresh)"
| "issues_state url_parses (A_web_login cfg now fresh nxt) st k =
     (k = uuid_to_string fresh \<and> (case nxt of None \<Rightarrow> True | Some n \<Rightarrow> is_same_origin_path url_parses n))"
| "issues_state url_parses op st k = False"

fun redeems_state :: "auth_op \<Rightarrow> auth_state \<Rightarrow> string \<Rightarrow> bool" where
  "redeems_state (A_callback gw cfg now idx cookie code sp) st k =
     (k = sp \<and> cookie_value cookie ''ak_oauth_state'' = Some sp
      \<and> (\<forall>m. fst (callback_complete gw cfg now idx code sp st) \<noteq> Inl (Bad_request m)))"
| "redeems_state (A_web_callback gw cfg up now fresh code sp) st k =
     (k = sp \<and> fst (complete_web_login gw cfg up now fresh code sp st) \<noteq> Inl Invalid_state)"
| "redeems_state op st k = False"

fun issues_code :: "auth_op \<Rightarrow> auth_state \<Rightarrow> string \<Rightarrow> bool" where
  "issues_code (A_callback gw cfg now idx cookie code sp) st k =
     (\<exists>u ttl. fst (callback gw cfg now idx cookie code sp st) = Inr (u, k, ttl))"
| "issues_code op st k = False"

fun redeems_code :: "auth_op \<Rightarrow> auth_state \<Rightarrow> string \<Rightarrow> bool" where
  "redeems_code (A_exchange cfg up now fresh code) st k =
     (k = code \<and> (\<exists>r. fst (exchange_code cfg up now fresh code st) = Inr r))"
| "redeems_code op st k = False"

lemma map_retain_Some: "map_retain p m k = Some v \<longleftrightarrow> m k = Some v \<and> p v"
  by (auto simp: map_retain_def split: option.splits if_splits)

lemma callback_complete_states:
  "au_pending_states (snd (callback_complete gw cfg now idx code sp st)) k
     = (if k = sp then None else au_pending_states st k)"
  by (auto simp: callback_complete_def Let_def split: option.splits)

lemma callback_complete_codes:
  "au_pending_codes (snd (callback_complete gw cfg now idx code sp st)) k \<noteq> None \<Longrightarrow>
     au_pending_codes st k \<noteq> None \<or> (\<exists>u ttl. fst (callback_complete gw cfg now idx code sp st) = Inr (u, k, ttl))"
  by (auto simp: callback_complete_def Let_def split: option.splits if_splits)

lemma web_login_states:
  "au_pending_states (snd (complete_web_login gw cfg up now fresh code sp st)) k
     = (if k = sp then None else au_pending_states st k)"
  by (auto simp: complete_web_login_def Let_def split: option.splits prod.splits sum.splits)

lemma web_login_codes:
  "au_pending_codes (snd (complete_web_login gw cfg up now fresh code sp st)) = au_pending_codes st"
  by (auto simp: complete_web_login_def Let_def split: option.splits prod.splits sum.splits)

lemma exchange_states: "au_pending_states (snd (exchange_code cfg up now fresh code st)) = au_pending_states st"
  by (auto simp: exchange_code_def Let_def split: option.splits prod.splits sum.splits)

lemma exchange_codes:
  "au_pending_codes (snd (exchange_code cfg up now fresh code st)) = (au_pending_codes st)(code := None)"
  by (auto simp: exchange_code_def Let_def fun_eq_iff split: option.splits prod.splits sum.splits)

lemma snd_exchange: "snd (exchange cfg up now fresh code st) = snd (exchange_code cfg up now fresh code st)"
  by (auto simp: exchange_def split: prod.splits sum.splits domain_error.splits)

lemma snd_callback:
  "snd (callback gw cfg now idx cookie code sp st) =
     (if cookie_value cookie ''ak_oauth_state'' = Some sp then snd (callback_complete gw cfg now idx code sp st) else st)"
  by (auto simp: callback_def split: prod.splits sum.splits)

lemma fst_callback_Inr:
  "fst (callback gw cfg now idx cookie code sp st) = Inr v \<longleftrightarrow>
     cookie_value cookie ''ak_oauth_state'' = Some sp \<and> fst (callback_complete gw cfg now idx code sp st) = Inr v"
  by (auto simp: callback_def split: prod.splits sum.splits)

lemmas auth_effects = callback_complete_states web_login_states web_login_codes
  exchange_states exchange_codes snd_exchange snd_callback fst_callback_Inr
  cleanup_expired_def put_state_def login_initiate_def login_def web_login_go_def Let_def

interpretation csrf: one_time_tickets "auth_exec urlencode url_parses"
  "\<lambda>st k. au_pending_states st k \<noteq> None" "issues_state url_parses" redeems_state
proof (unfold_locales, goal_cases)
  case (1 op s k)
  then show ?case
    by (cases op) (auto simp: auth_effects map_retain_Some web_login_def split: option.splits if_splits)
next
  case (2 op s k)
  then show ?case by (cases op) (auto simp: callback_complete_def complete_web_login_def split: option.splits)
next
  case (3 op s k)
  then show ?case by (cases op) (auto simp: auth_effects)
qed

interpretation cli: one_time_tickets "auth_exec urlencode url_parses"
  "\<lambda>st k. au_pending_codes st k \<noteq> None" issues_code redeems_code
proof (unfold_locales, goal_cases)
  case (1 op s k)
  then show ?case
  proof (cases op)
    case (A_callback gw cfg now idx cookie code sp)
    with 1 callback_complete_codes [of gw cfg now idx code sp s k] show ?thesis
      by (auto simp: auth_effects split: if_splits)
  qed (use 1 in \<open>auto simp: auth_effects map_retain_Some web_login_def split: option.splits if_splits\<close>)
next
  case (2 op s k)
  then show ?case by (cases op) (auto simp: exchange_code_def split: option.splits)
next
  case (3 op s k)
  then show ?case by (cases op) (auto simp: auth_effects)
qed

section \<open>Properties of login and exchange\<close>

text \<open>Over any history of logins, callbacks, exchanges and cleanups, the callbacks that pass the CSRF
  check with a state value are at most as many as the redirects that issued it (one more if it was pending
  at the start): a state value admits one callback.\<close>

theorem csrf_state_single_use:
  "count_events (auth_exec urlencode url_parses) redeems_state k h st
     \<le> count_events (auth_exec urlencode url_parses) (issues_state url_parses) k h st
       + (if au_pending_states st k \<noteq> None then 1 else 0)"
  by (rule csrf.redeemed_at_most_issued)

text \<open>Over any history, the CLI exchanges that succeed with a verification code are at most as many as
  the callbacks that issued it (one more if it was pending at the start).\<close>

theorem cli_code_single_use:
  "count_events (auth_exec urlencode url_parses) redeems_code k h st
     \<le> count_events (auth_exec urlencode url_parses) issues_code k h st
       + (if au_pending_codes st k \<noteq> None then 1 else 0)"
  by (rule cli.redeemed_at_most_issued)

text \<open>The web login callback redirects only to the configured frontend or to a path of the server
  itself: the character after the base URL is a slash that is followed neither by a slash nor by a
  backslash, so the browser stays on the server's origin.\<close>

theorem web_callback_no_open_redirect:
  assumes "web_callback url_parses url_host header_ok gw cfg up now fresh code sp st = (Found_with_cookie cookie loc, st')"
  shows "loc = ac_frontend_url cfg \<or>
     (\<exists>rest. loc = trim_end_matches CHR ''/'' (ac_public_base_url cfg) @ CHR ''/'' # rest
        \<and> (\<forall>c r. rest = c # r \<longrightarrow> c \<noteq> CHR ''/'' \<and> c \<noteq> CHR 0x5C))"
proof -
  have path: "\<exists>rest. nxt = CHR ''/'' # rest \<and> (\<forall>c r. rest = c # r \<longrightarrow> c \<noteq> CHR ''/'' \<and> c \<noteq> CHR 0x5C)"
    if "is_same_origin_path url_parses nxt" for nxt
    using that by (cases nxt; cases "tl nxt") (auto simp: is_same_origin_path_def starts_with_def split: if_splits)
  show ?thesis
    using assms path
    by (auto simp: web_callback_def Let_def split: prod.splits sum.splits web_login_error.splits option.splits if_splits)
qed

definition demo_gateway :: gateway where
  "demo_gateway = \<lparr>gw_exchange_oauth_code = (\<lambda>_ _. Some ''t''),
     gw_fetch_user = (\<lambda>_. Some \<lparr>gl_id = Some 7, gl_username = ''ann'', gl_name = None, gl_avatar_url = None\<rparr>),
     gw_validate_passthrough =
       (\<lambda>_. Some (Some \<lparr>gl_id = Some 7, gl_username = ''ann'', gl_name = None, gl_avatar_url = None\<rparr>))\<rparr>"

definition demo_config :: auth_config where
  "demo_config = \<lparr>ac_gitlab_url = ''g'', ac_gitlab_app_id = ''a'', ac_gitlab_redirect_uri = ''r'',
     ac_gitlab_web_redirect_uri = ''w'', ac_auth_code_ttl_secs = 300, ac_api_key_ttl_secs = 60,
     ac_public_base_url = ''https://b/'', ac_frontend_url = ''https://f'', ac_cookie_secure = True\<rparr>"

definition demo_auth_state :: auth_state where
  "demo_auth_state = \<lparr>au_pending_codes = [''K'' \<mapsto> \<lparr>pn_user_info = \<lparr>ui_username = ''ann'', ui_name = None,
       ui_avatar_url = None\<rparr>, pn_gitlab_token = ''t'', pn_gitlab_user_id = Some 7, pn_expires_at = 9\<rparr>],
     au_pending_states = [''s'' \<mapsto> \<lparr>pe_expires_at = 9, pe_next = Some ''/x''\<rparr>], au_sessions = []\<rparr>"

lemma demo_web_callback:
  "\<exists>cookie st'. web_callback (\<lambda>_. False) (\<lambda>_. None) (\<lambda>_. True) demo_gateway demo_config True 1 5 ''c'' ''s''
     demo_auth_state = (Found_with_cookie cookie ''https://b/x'', st')"
  by (simp add: web_callback_def complete_web_login_def auth_insert_session_def insert_session_def
      is_same_origin_path_def starts_with_def trim_end_matches_def demo_gateway_def demo_config_def
      demo_auth_state_def Let_def)

theorem web_callback_no_open_redirect_witness:
  "\<exists>rest. ''https://b/x'' = trim_end_matches CHR ''/'' ''https://b/'' @ CHR ''/'' # rest"
proof -
  obtain cookie st' where "web_callback (\<lambda>_. False) (\<lambda>_. None) (\<lambda>_. True) demo_gateway demo_config True 1 5
      ''c'' ''s'' demo_auth_state = (Found_with_cookie cookie ''https://b/x'', st')"
    using demo_web_callback by blast
  from web_callback_no_open_redirect [OF this] show ?thesis by (auto simp: demo_config_def)
qed

text \<open>Round trip: the API key handed out for a verification code authenticates, until its lifetime ends,
  as the user GitLab reported when the code was issued.\<close>

theorem exchange_code_session_roundtrip:
  assumes "exchange_code cfg up now fresh code st = (Inr (api_key, username), st')"
    and "api_key \<notin> set (map ss_api_key (au_sessions st))"
    and "later < now + seconds (int (ac_api_key_ttl_secs cfg)) \<or> ac_api_key_ttl_secs cfg = 0"
  shows "\<exists>p. au_pending_codes st code = Some p \<and> username = ui_username (pn_user_info p)
     \<and> auth_validate_session True later api_key (au_sessions st')
         = Some (pn_user_info p, pn_gitlab_token p, pn_gitlab_user_id p)"
proof -
  obtain p where p: "au_pending_codes st code = Some p" "now \<le> pn_expires_at p"
    using assms(1) by (auto simp: exchange_code_def Let_def split: option.splits if_splits)
  have key: "api_key = ''ak-'' @ uuid_to_string fresh" "username = ui_username (pn_user_info p)" "up"
    using assms(1) p
    by (auto simp: exchange_code_def auth_insert_session_def insert_session_def Let_def split: sum.splits if_splits)
  have none: "fetch_optional (\<lambda>r. ss_api_key r = api_key \<and> session_live later r) (au_sessions st) = None"
    unfolding fetch_optional_None using assms(2) by auto
  have "au_sessions st' = au_sessions st @
      [\<lparr>ss_api_key = api_key, ss_username = ui_username (pn_user_info p), ss_name = ui_name (pn_user_info p),
        ss_avatar_url = ui_avatar_url (pn_user_info p), ss_gitlab_token = pn_gitlab_token p,
        ss_expires_at = (if ac_api_key_ttl_secs cfg = 0 then None
                         else Some (now + seconds (int (ac_api_key_ttl_secs cfg)))),
        ss_gitlab_user_id = pn_gitlab_user_id p\<rparr>]"
    using assms(1,2) p key
    by (auto simp: exchange_code_def auth_insert_session_def insert_session_def Let_def split: sum.splits if_splits)
  then have "auth_validate_session True later api_key (au_sessions st')
      = Some (pn_user_info p, pn_gitlab_token p, pn_gitlab_user_id p)"
    using none assms(3)
    by (auto simp: auth_validate_session_def validate_session_def fetch_optional_append session_live_def)
  with p key show ?thesis by blast
qed

theorem exchange_code_session_roundtrip_witness:
  "\<exists>st'. exchange_code demo_config True 1 5 ''K'' demo_auth_state
       = (Inr (''ak-'' @ uuid_to_string 5, ''ann''), st') \<and>
     auth_validate_session True 2 (''ak-'' @ uuid_to_string 5) (au_sessions st')
       = Some (\<lparr>ui_username = ''ann'', ui_name = None, ui_avatar_url = None\<rparr>, ''t'', Some 7)"
proof -
  obtain st' where ex: "exchange_code demo_config True 1 5 ''K'' demo_auth_state
       = (Inr (''ak-'' @ uuid_to_string 5, ''ann''), st')"
    by (simp add: exchange_code_def auth_insert_session_def insert_session_def demo_config_def
        demo_auth_state_def Let_def)
  have "''ak-'' @ uuid_to_string 5 \<notin> set (map ss_api_key (au_sessions demo_auth_state))"
    by (simp add: demo_auth_state_def)
  from exchange_code_session_roundtrip [OF ex this, where later = 2] ex show ?thesis
    by (auto simp: demo_auth_state_def demo_config_def seconds_def)
qed

section \<open>Passthrough identities\<close>

text \<open>
  What the code relies on of the LRU cache: \<open>get\<close> answers from the current content and changes none of
  it, \<open>put\<close> stores under its key and may evict other entries.
\<close>

definition lru_ok ::
  "('c \<Rightarrow> string \<Rightarrow> (cached_user \<times> instant) option) \<Rightarrow> (string \<Rightarrow> 'c \<Rightarrow> (cached_user \<times> instant) option \<times> 'c)
   \<Rightarrow> (string \<Rightarrow> cached_user \<times> instant \<Rightarrow> 'c \<Rightarrow> 'c) \<Rightarrow> bool" where
  "lru_ok content cget cput \<longleftrightarrow>
     (\<forall>k c. fst (cget k c) = content c k \<and> content (snd (cget k c)) = content c)
     \<and> (\<forall>k v c. content (cput k v c) k = Some v)
     \<and> (\<forall>k v c k'. k' \<noteq> k \<longrightarrow> content (cput k v c) k' = None \<or> content (cput k v c) k' = content c k')"

type_synonym gitlab_answer = "string \<times> gl_user \<times> instant"

record passthrough_call =
  pl_gateway :: gateway
  pl_up :: bool
  pl_now :: instant
  pl_presented :: string
  pl_tombstones :: "tombstone_row list"

definition answers_of :: "gateway \<Rightarrow> instant \<Rightarrow> string list \<Rightarrow> gitlab_answer list" where
  "answers_of gw now asked =
     concat (map (\<lambda>p. case gw_validate_passthrough gw p of Some (Some gl) \<Rightarrow> [(p, gl, now)] | _ \<Rightarrow> []) asked)"

text \<open>A run of validations, with the log of the positive answers of GitLab.\<close>

fun passthrough_run ::
  "(string \<Rightarrow> string) \<Rightarrow> (string \<Rightarrow> 'c \<Rightarrow> (cached_user \<times> instant) option \<times> 'c)
   \<Rightarrow> (string \<Rightarrow> cached_user \<times> instant \<Rightarrow> 'c \<Rightarrow> 'c) \<Rightarrow> int \<Rightarrow> passthrough_call list
   \<Rightarrow> 'c \<times> gitlab_answer list \<Rightarrow> 'c \<times> gitlab_answer list" where
  "passthrough_run sha256 cget cput ttl [] s = s"
| "passthrough_run sha256 cget cput ttl (x # xs) s =
     (case validate_passthrough_token sha256 cget cput (pl_gateway x) ttl (pl_up x) (pl_now x)
             (pl_presented x) (pl_tombstones x) (fst s) of
        (v, c, asked) \<Rightarrow>
          passthrough_run sha256 cget cput ttl xs (c, snd s @ answers_of (pl_gateway x) (pl_now x) asked))"

text \<open>GitLab answered at \<open>t\<close>, for a token with the digest \<open>h\<close>, with this user.\<close>

definition vouched ::
  "(string \<Rightarrow> string) \<Rightarrow> gitlab_answer list \<Rightarrow> string \<Rightarrow> int \<Rightarrow> string \<Rightarrow> instant \<Rightarrow> bool" where
  "vouched sha256 answers h uid ulogin t \<longleftrightarrow>
     (\<exists>(p, gl, t') \<in> set answers. t' = t \<and> gl_id gl = Some uid \<and> gl_username gl = ulogin
        \<and> (\<exists>raw. p = ''glpat-'' @ raw \<and> sha256 raw = h))"

definition cache_backed ::
  "(string \<Rightarrow> string) \<Rightarrow> ('c \<Rightarrow> string \<Rightarrow> (cached_user \<times> instant) option) \<Rightarrow> 'c \<times> gitlab_answer list \<Rightarrow> bool" where
  "cache_backed sha256 content s \<longleftrightarrow>
     (\<forall>k u at. content (fst s) k = Some (u, at) \<longrightarrow> vouched sha256 (snd s) k (cu_user_id u) (cu_user_login u) at)"

lemma vouched_mono: "vouched sha256 a h uid l t \<Longrightarrow> vouched sha256 (a @ b) h uid l t"
  unfolding vouched_def by auto

definition not_tombstoned :: "bool \<Rightarrow> string \<Rightarrow> tombstone_row list \<Rightarrow> bool" where
  "not_tombstoned up h tombs \<longleftrightarrow> (up \<longrightarrow> take 16 h \<notin> set (map tb_token_id_hash tombs))"

lemma not_tombstoned_iff:
  "not_tombstoned up h tombs \<longleftrightarrow>
     \<not> (case check_passthrough_revoked up (take 16 h) tombs of Inl e \<Rightarrow> False | Inr b \<Rightarrow> b)"
proof -
  have "fetch_optional (\<lambda>r. tb_token_id_hash r = take 16 h) tombs = None
      \<longleftrightarrow> take 16 h \<notin> set (map tb_token_id_hash tombs)"
    unfolding fetch_optional_None set_map by (metis imageE image_eqI)
  then show ?thesis by (auto simp: not_tombstoned_def check_passthrough_revoked_def)
qed

text \<open>The three outcomes of a validation: refused, a fresh cache hit, a positive answer of GitLab.\<close>

lemma validate_passthrough_cases:
  assumes "validate_passthrough_token sha256 cget cput gw ttl up now presented tombs c = (v, c', asked)"
  obtains (refused) k where "v = None" "c' = c \<or> c' = snd (cget k c)"
  | (hit) raw u at where "presented = ''glpat-'' @ raw" "not_tombstoned up (sha256 raw) tombs"
      "fst (cget (sha256 raw) c) = Some (u, at)" "now - at < seconds ttl"
      "v = Some \<lparr>vt_user_id = cu_user_id u, vt_user_login = cu_user_login u,
                 vt_token_id_prefix = take 16 (sha256 raw)\<rparr>" "c' = snd (cget (sha256 raw) c)"
  | (answer) raw gl uid where "presented = ''glpat-'' @ raw" "not_tombstoned up (sha256 raw) tombs"
      "gw_validate_passthrough gw presented = Some (Some gl)" "gl_id gl = Some uid" "asked = [presented]"
      "v = Some \<lparr>vt_user_id = uid, vt_user_login = gl_username gl, vt_token_id_prefix = take 16 (sha256 raw)\<rparr>"
      "c' = cput (sha256 raw) (\<lparr>cu_user_id = uid, cu_user_login = gl_username gl\<rparr>, now) (snd (cget (sha256 raw) c))"
proof (cases "strip_prefix ''glpat-'' presented")
  case None
  with assms show ?thesis by (intro refused) (auto simp: validate_passthrough_token_def)
next
  case (Some raw)
  then have presented: "presented = ''glpat-'' @ raw" by (simp only: strip_prefix_Some)
  show ?thesis
  proof (cases "raw = [] \<or> \<not> not_tombstoned up (sha256 raw) tombs")
    case True
    with assms Some show ?thesis
      by (intro refused) (auto simp: validate_passthrough_token_def Let_def not_tombstoned_iff split: if_splits)
  next
    case False
    obtain got c1 where get: "cget (sha256 raw) c = (got, c1)" by fastforce
    let ?hit = "case got of None \<Rightarrow> None
       | Some (user, cached_at) \<Rightarrow> if now - cached_at < seconds ttl then Some user else None"
    note unf = assms [unfolded validate_passthrough_token_def Some option.case Let_def not_tombstoned_iff [symmetric]]
    show ?thesis
    proof (cases ?hit)
      case (Some u)
      then obtain at where "got = Some (u, at)" "now - at < seconds ttl" by (auto split: option.splits if_splits)
      with False get unf Some presented show ?thesis by (intro hit) (auto simp: not_tombstoned_iff)
    next
      case None
      show ?thesis
      proof (cases "\<exists>gl uid. gw_validate_passthrough gw presented = Some (Some gl) \<and> gl_id gl = Some uid")
        case True
        with False get unf None presented show ?thesis by (auto simp: not_tombstoned_iff intro: answer)
      next
        case no: False
        have "v = None \<and> c' = c1"
          using False get unf None no by (auto simp: not_tombstoned_iff split: option.splits)
        with get show ?thesis by (intro refused [of "sha256 raw"]) auto
      qed
    qed
  qed
qed

lemma lru_okD:
  assumes "lru_ok content cget cput"
  shows "fst (cget k c) = content c k" and "content (snd (cget k c)) = content c"
    and "content (cput k x c) k = Some x"
    and "k' \<noteq> k \<Longrightarrow> content (cput k x c) k' = None \<or> content (cput k x c) k' = content c k'"
  using assms unfolding lru_ok_def by blast+

lemma cache_backed_put:
  assumes "lru_ok content cget cput" and "cache_backed sha256 content (d, a)"
    and "vouched sha256 a k (cu_user_id u) (cu_user_login u) t"
  shows "cache_backed sha256 content (cput k (u, t) d, a)"
  unfolding cache_backed_def
proof (intro allI impI)
  fix k' u' at
  assume h: "content (fst (cput k (u, t) d, a)) k' = Some (u', at)"
  show "vouched sha256 (snd (cput k (u, t) d, a)) k' (cu_user_id u') (cu_user_login u') at"
  proof (cases "k' = k")
    case True
    with h lru_okD(3) [OF assms(1), of k "(u, t)" d] assms(3) show ?thesis by simp
  next
    case False
    with h lru_okD(4) [OF assms(1) False, of "(u, t)" d] have "content d k' = Some (u', at)" by auto
    with assms(2) show ?thesis unfolding cache_backed_def by simp
  qed
qed

lemma cache_backed_mono:
  assumes "lru_ok content cget cput" and "cache_backed sha256 content (c, a)"
  shows "cache_backed sha256 content (c, a @ b)" and "cache_backed sha256 content (snd (cget k c), a @ b)"
  using assms(2) lru_okD(2) [OF assms(1)] vouched_mono unfolding cache_backed_def by fastforce+

lemma validate_passthrough_step:
  assumes "lru_ok content cget cput" and "cache_backed sha256 content (c, log)"
    and val: "validate_passthrough_token sha256 cget cput gw ttl up now presented tombs c = (v, c', asked)"
  shows "cache_backed sha256 content (c', log @ answers_of gw now asked)
     \<and> (\<forall>r. v = Some r \<longrightarrow> (\<exists>raw t. presented = ''glpat-'' @ raw \<and>
           vouched sha256 (log @ answers_of gw now asked) (sha256 raw) (vt_user_id r) (vt_user_login r) t
           \<and> (t = now \<or> now - t < seconds ttl) \<and> not_tombstoned up (sha256 raw) tombs))"
  using val
proof (cases rule: validate_passthrough_cases)
  case (refused k)
  with cache_backed_mono [OF assms(1,2)] show ?thesis by auto
next
  case (hit raw u at)
  have "vouched sha256 log (sha256 raw) (cu_user_id u) (cu_user_login u) at"
    using hit(3) assms(2) lru_okD(1) [OF assms(1)] unfolding cache_backed_def by simp
  with hit cache_backed_mono(2) [OF assms(1,2)] vouched_mono show ?thesis by fastforce
next
  case (answer raw gl uid)
  have "vouched sha256 (log @ answers_of gw now asked) (sha256 raw) uid (gl_username gl) now"
    using answer(1,3,4,5) by (auto simp: vouched_def answers_of_def)
  moreover from this have "cache_backed sha256 content (c', log @ answers_of gw now asked)"
    unfolding answer(7) using cache_backed_mono(2) [OF assms(1,2)]
    by (intro cache_backed_put [OF assms(1)]) simp_all
  ultimately show ?thesis using answer by auto
qed

lemma passthrough_run_backed:
  assumes "lru_ok content cget cput"
  shows "cache_backed sha256 content s \<Longrightarrow> cache_backed sha256 content (passthrough_run sha256 cget cput ttl xs s)"
proof (induction xs arbitrary: s)
  case (Cons x xs)
  obtain c log where s: "s = (c, log)" by fastforce
  obtain v c' asked where v: "validate_passthrough_token sha256 cget cput (pl_gateway x) ttl (pl_up x) (pl_now x)
      (pl_presented x) (pl_tombstones x) c = (v, c', asked)" using prod_cases3 by blast
  from validate_passthrough_step [OF assms Cons.prems [unfolded s] v] Cons.IH v s show ?case by simp
qed simp

text \<open>Whenever a GitLab personal access token is accepted, after any run of earlier validations on an
  initially empty cache, GitLab itself has answered with that user id and login for a token of the same
  SHA-256 digest, now or less than the cache lifetime ago, and the token is not tombstoned unless the
  tombstone query failed.\<close>

theorem passthrough_identity_vouched:
  assumes "lru_ok content cget cput" and "content c0 = Map.empty"
    and "passthrough_run sha256 cget cput ttl xs (c0, []) = (c, log)"
    and "validate_passthrough_token sha256 cget cput gw ttl up now presented tombs c = (Some r, c', asked)"
  shows "\<exists>raw t. presented = ''glpat-'' @ raw \<and>
     vouched sha256 (log @ answers_of gw now asked) (sha256 raw) (vt_user_id r) (vt_user_login r) t
     \<and> (t = now \<or> now - t < seconds ttl) \<and> not_tombstoned up (sha256 raw) tombs"
proof -
  have "cache_backed sha256 content (c0, [])" using assms(2) by (simp add: cache_backed_def)
  from passthrough_run_backed [OF assms(1) this, of ttl xs] assms(3)
  have "cache_backed sha256 content (c, log)" by simp
  from validate_passthrough_step [OF assms(1) this assms(4)] show ?thesis by blast
qed

theorem passthrough_identity_vouched_witness:
  "\<exists>raw t. ''glpat-x'' = ''glpat-'' @ raw \<and>
     vouched (\<lambda>s. s) [(''glpat-x'', \<lparr>gl_id = Some 7, gl_username = ''ann'', gl_name = None, gl_avatar_url = None\<rparr>, 3)]
       raw 7 ''ann'' t \<and> (t = 3 \<or> 3 - t < seconds 60) \<and> not_tombstoned True raw []"
proof -
  let ?get = "\<lambda>k (c :: string \<rightharpoonup> cached_user \<times> instant). (c k, c)" and ?put = "\<lambda>k v c. c(k \<mapsto> v)"
  have "lru_ok (\<lambda>c. c) ?get ?put" by (simp add: lru_ok_def)
  moreover have "validate_passthrough_token (\<lambda>s. s) ?get ?put demo_gateway 60 True 3 ''glpat-x'' [] Map.empty
      = (Some \<lparr>vt_user_id = 7, vt_user_login = ''ann'', vt_token_id_prefix = ''x''\<rparr>,
         [''x'' \<mapsto> (\<lparr>cu_user_id = 7, cu_user_login = ''ann''\<rparr>, 3)], [''glpat-x''])"
    by (simp add: validate_passthrough_token_def strip_prefix_def starts_with_def check_passthrough_revoked_def
        fetch_optional_def demo_gateway_def Let_def)
  ultimately show ?thesis
    using passthrough_identity_vouched [where xs = "[]" and log = "[]" and content = "\<lambda>c. c"]
    by (fastforce simp: answers_of_def demo_gateway_def)
qed

section \<open>Revocation by the owner and the MCP gate\<close>

lemma revoke_leaves_revoked:
  "\<forall>r \<in> set (update_where (\<lambda>r. mt_id r = token_id \<and> mt_revoked_at r = None) (\<lambda>r. r\<lparr>mt_revoked_at := Some now\<rparr>) t).
     mt_id r = token_id \<longrightarrow> mt_revoked_at r \<noteq> None"
  by (rule update_where_all) simp_all

text \<open>Self-service revocation of an MCP token: it succeeds exactly for the recorded owner when the
  database answers, then no row of that id is left unrevoked; for anyone else, and on every error, the
  table is unchanged, and a foreign token is reported like a missing one.\<close>

theorem revoke_my_token_spec:
  "case revoke_my_token up wr now user_id token_id t of
     (Inr u, t') \<Rightarrow> up \<and> wr \<and> check_token_ownership True token_id t = Inr (Some user_id)
        \<and> (\<forall>r \<in> set t'. mt_id r = token_id \<longrightarrow> mt_revoked_at r \<noteq> None)
   | (Inl e, t') \<Rightarrow> t' = t \<and> (up \<and> wr \<longrightarrow> e = Not_found ''token'' \<and>
        check_token_ownership True token_id t \<noteq> Inr (Some user_id))"
proof (cases "up \<and> wr \<and> check_token_ownership True token_id t = Inr (Some user_id)")
  case True
  then show ?thesis using revoke_leaves_revoked [of token_id now t]
    by (simp add: revoke_my_token_def revoke_mcp_token_def)
next
  case False
  have own: "check_token_ownership up token_id t = (if up then check_token_ownership True token_id t else Inl Db_unavailable)"
    "\<exists>o'. check_token_ownership True token_id t = Inr o'"
    by (simp_all add: check_token_ownership_def)
  then obtain o' where "check_token_ownership True token_id t = Inr o'" by blast
  with False own(1) show ?thesis
    by (cases up; cases wr; cases "o' = Some user_id") (simp_all add: revoke_my_token_def revoke_mcp_token_def)
qed

definition demo_token_row :: mcp_token_row where
  "demo_token_row = \<lparr>mt_id = 1, mt_token_hash = ''h'', mt_user_id = 7, mt_user_login = ''ann'', mt_label = None,
     mt_issued_at = 0, mt_last_used_at = None, mt_expires_at = 9, mt_revoked_at = None\<rparr>"

theorem revoke_my_token_spec_witness:
  "\<exists>r. revoke_my_token True True 5 7 1 [demo_token_row] = (Inr (), [r]) \<and> mt_revoked_at r \<noteq> None"
proof -
  obtain r where r: "revoke_my_token True True 5 7 1 [demo_token_row] = (Inr (), [r])" "mt_id r = 1"
    by (simp add: revoke_my_token_def check_token_ownership_def revoke_mcp_token_def demo_token_row_def update_where_def)
  with revoke_my_token_spec [where up = True and wr = True and now = 5 and user_id = 7 and token_id = 1
      and t = "[demo_token_row]"] show ?thesis by auto
qed

text \<open>A passthrough token revoked by its owner is refused by every later validation whose tombstone
  query succeeds, whatever the cache holds and GitLab answers, and no other user can revoke it.\<close>

theorem revoke_passthrough_effective:
  assumes "revoke_passthrough sha256 cget cput gw ttl up wr now user_id token (tombs, c) = (Inr u, tombs', c')"
  shows "fst (validate_passthrough_token sha256 cget cput gw2 ttl True later token (tombs' @ newer) c2) = None
     \<and> (\<exists>v d. validate_passthrough_token sha256 cget cput gw ttl up now token tombs c = (Some v, d)
           \<and> vt_user_id v = user_id)"
proof
  obtain raw where raw: "strip_prefix ''glpat-'' token = Some raw" "raw \<noteq> []"
    using assms by (auto simp: revoke_passthrough_def passthrough_prefix_def split: option.splits if_splits)
  have "take 16 (sha256 raw) \<in> set (map tb_token_id_hash tombs')"
    using assms raw by (auto simp: revoke_passthrough_def passthrough_prefix_def tombstone_passthrough_def
        split: option.splits if_splits prod.splits sum.splits)
  then have "\<not> not_tombstoned True (sha256 raw) (tombs' @ newer)" by (auto simp: not_tombstoned_def)
  then show "fst (validate_passthrough_token sha256 cget cput gw2 ttl True later token (tombs' @ newer) c2) = None"
    using raw by (simp add: validate_passthrough_token_def not_tombstoned_iff)
  show "\<exists>v d. validate_passthrough_token sha256 cget cput gw ttl up now token tombs c = (Some v, d)
      \<and> vt_user_id v = user_id"
    using assms by (auto simp: revoke_passthrough_def split: option.splits if_splits prod.splits sum.splits)
qed

theorem revoke_passthrough_effective_witness:
  "\<exists>tombs' c'. revoke_passthrough (\<lambda>s. s) (\<lambda>k c. (c k, c)) (\<lambda>k v c. c(k \<mapsto> v)) demo_gateway 60 True True 3 7
       ''glpat-x'' ([], Map.empty) = (Inr (), tombs', c') \<and>
     fst (validate_passthrough_token (\<lambda>s. s) (\<lambda>k c. (c k, c)) (\<lambda>k v c. c(k \<mapsto> v)) demo_gateway 60 True 4
       ''glpat-x'' tombs' c') = None"
proof -
  obtain tombs' c' where r: "revoke_passthrough (\<lambda>s. s) (\<lambda>k c. (c k, c)) (\<lambda>k v c. c(k \<mapsto> v)) demo_gateway 60
      True True 3 7 ''glpat-x'' ([], Map.empty) = (Inr (), tombs', c')"
    by (simp add: revoke_passthrough_def passthrough_prefix_def validate_passthrough_token_def strip_prefix_def
        starts_with_def check_passthrough_revoked_def fetch_optional_def demo_gateway_def tombstone_passthrough_def Let_def)
  from revoke_passthrough_effective [OF r, where newer = "[]" and later = 4] r show ?thesis
    by (auto intro!: exI [where x = tombs'] exI [where x = c'])
qed

text \<open>The tombstone query that fails counts as \<open>not revoked\<close>: a revoked token is accepted while the table
  cannot be read.\<close>

lemma passthrough_tombstone_fails_open:
  "fst (validate_passthrough_token (\<lambda>s. s) (\<lambda>k c. (c k, c)) (\<lambda>k v c. c(k \<mapsto> v)) demo_gateway 60 up 3 ''glpat-x''
      [\<lparr>tb_token_id_hash = ''x'', tb_revoked_by = 7\<rparr>] Map.empty) \<noteq> None \<longleftrightarrow> \<not> up"
  by (simp add: validate_passthrough_token_def strip_prefix_def starts_with_def check_passthrough_revoked_def
      fetch_optional_def demo_gateway_def Let_def)

lemma mcp_valid_prefix:
  "fst (validate_mcp_token sha256 up now app_now token toks) = Inr (Some v) \<Longrightarrow> starts_with ''ak_'' token"
  by (auto simp: validate_mcp_token_def bearer_secret_def strip_prefix_def split: option.splits if_splits)

lemma passthrough_valid_prefix:
  assumes "fst (validate_passthrough_token sha256 cget cput gw ttl up now token tombs c) = Some v"
  shows "starts_with ''glpat-'' token" and "\<not> starts_with ''ak_'' token"
proof -
  obtain c' asked where "validate_passthrough_token sha256 cget cput gw ttl up now token tombs c = (Some v, c', asked)"
    using assms by (metis prod.collapse)
  then obtain raw where "token = ''glpat-'' @ raw" by (cases rule: validate_passthrough_cases) auto
  then show "starts_with ''glpat-'' token" and "\<not> starts_with ''ak_'' token" by (simp_all add: starts_with_def)
qed

lemma passthrough_refused_prefix:
  "starts_with ''ak_'' token \<or> \<not> starts_with ''glpat-'' token \<Longrightarrow>
     fst (validate_passthrough_token sha256 cget cput gw ttl up now token tombs c) = None"
  using passthrough_valid_prefix by (metis not_None_eq)

text \<open>C4. The MCP gate is fail-closed: it runs the inner service exactly for a bearer that validates as an MCP
  token or as a passthrough token, and then under the user id of that token; every other request gets the
  challenge and never an anonymous run.\<close>

theorem mcp_auth_runs_only_authenticated:
  "case fst (mcp_auth header_ok sha256 cget cput gw ttl base up now app_now authz toks tombs c) of
     Answer r \<Rightarrow> r = unauthorized_challenge header_ok base \<and>
       \<not> (\<exists>token v. authz = Some (''Bearer '' @ token) \<and>
            fst (validate_mcp_token sha256 up now app_now token toks) = Inr (Some v)) \<and>
       \<not> (\<exists>token v. authz = Some (''Bearer '' @ token) \<and>
            fst (validate_passthrough_token sha256 cget cput gw ttl up now token tombs c) = Some v)
   | Run aid a \<Rightarrow> aid = actor_id_of (ai_user_id a) \<and>
       (\<exists>token. authz = Some (''Bearer '' @ token) \<and>
        ((\<exists>v. fst (validate_mcp_token sha256 up now app_now token toks) = Inr (Some v)
            \<and> ai_user_id a = vm_user_id v \<and> ai_auth_method a = DeviceFlow)
         \<or> (\<exists>v. fst (validate_passthrough_token sha256 cget cput gw ttl up now token tombs c) = Some v
            \<and> ai_user_id a = vt_user_id v \<and> ai_auth_method a = GitLabPassthrough)))"
proof (cases "bearer_header authz")
  case None
  then have "authz \<noteq> Some (''Bearer '' @ token)" for token
    by (auto simp: bearer_header_def simp del: append.simps)
  with None show ?thesis by (simp add: mcp_auth_def)
next
  case (Some token)
  then have authz: "authz = Some (''Bearer '' @ token)"
    by (auto simp: bearer_header_def strip_prefix_Some bind_eq_Some_conv)
  consider (ak) "starts_with ''ak_'' token" | (pat) "starts_with ''glpat-'' token" "\<not> starts_with ''ak_'' token"
    | (none) "\<not> starts_with ''glpat-'' token" "\<not> starts_with ''ak_'' token" by blast
  then show ?thesis
  proof cases
    case ak
    with Some authz show ?thesis
      by (cases "fst (validate_mcp_token sha256 up now app_now token toks)")
         (auto simp: mcp_auth_def passthrough_refused_prefix split: option.splits)
  next
    case pat
    with Some authz show ?thesis
      by (cases "validate_passthrough_token sha256 cget cput gw ttl up now token tombs c")
         (auto simp: mcp_auth_def split: option.splits dest: mcp_valid_prefix)
  next
    case none
    with Some authz show ?thesis
      by (auto simp: mcp_auth_def passthrough_refused_prefix dest: mcp_valid_prefix)
  qed
qed

text \<open>The actor id a layer builds from a GitLab user id parses back to the same id.\<close>

theorem actor_id_roundtrip:
  assumes "i64_min \<le> user_id" and "user_id \<le> i64_max"
  shows "parse_actor_id (actor_id_of user_id) = Some user_id"
  unfolding parse_actor_id_def actor_id_of_def
  by (simp add: parse_i64_dec_of_int [OF assms] del: append.simps)

theorem actor_id_roundtrip_witness: "parse_actor_id (actor_id_of (- 42)) = Some (- 42)"
  by (rule actor_id_roundtrip) (simp_all add: i64_min_def i64_max_def)

end
