(* ===== verification/Quota.thy ===== *)
theory Quota
  imports Auth_Service
begin

text \<open>
  The per-actor token quota: the rolling-window repository \<open>PgQuotaRepo\<close> (\<open>repos/identity.rs\<close>), the
  engine \<open>Quota\<close> and the provider decorators \<open>QuotaEmbedding\<close> and \<open>QuotaLlm\<close> (crate \<open>akashic-quota\<close>).

  The wrapped provider is an argument of each decorator. A decorator returns its result, whether the
  provider was called, and the tasks it spawned; the spawned tasks run later, as \<open>run_spawned\<close>.
  Token counts are 32-bit words, as in the code. The locale \<open>metered\<close> states what a decorator promises
  about the usage table; its theorem bounds the overshoot of the cap with calls in flight at once, and it is interpreted on the
  three metered operations together.
\<close>

section \<open>The repository\<close>

datatype usage_kind = Llm | Embedding

fun kind_str :: "usage_kind \<Rightarrow> string" where
  "kind_str Llm = ''llm''"
| "kind_str Embedding = ''embedding''"

record usage_row =
  us_ts :: instant
  us_actor_user_id :: int
  us_actor_token_id :: string
  us_kind :: string
  us_tokens_used :: int
  us_model :: string

datatype quota_check = Quota_ok | Exceeded u32 u32 int

definition u32_max :: int where
  "u32_max = 2 ^ 32 - 1"

definition i32_max :: int where
  "i32_max = 2 ^ 31 - 1"

definition window_sum :: "instant \<Rightarrow> int \<Rightarrow> int \<Rightarrow> usage_row list \<Rightarrow> int" where
  "window_sum now window_secs user t =
     sum_list (map us_tokens_used
       (filter (\<lambda>r. us_actor_user_id r = user \<and> now - seconds window_secs < us_ts r) t))"

text \<open>\<open>i64::clamp\<close> followed by \<open>as u32\<close>.\<close>

definition clamp_u32 :: "int \<Rightarrow> u32" where
  "clamp_u32 used = word_of_int (if used < 0 then 0 else if u32_max < used then u32_max else used)"

definition repo_check ::
  "bool \<Rightarrow> instant \<Rightarrow> int \<Rightarrow> u32 \<Rightarrow> int \<Rightarrow> usage_row list \<Rightarrow> quota_check" where
  "repo_check up now user cap_per_window window_secs t =
     (let used = window_sum now window_secs user t in
      if \<not> up \<or> \<not> (i64_min \<le> used \<and> used \<le> i64_max) then Quota_ok
      else let used_u32 = clamp_u32 used in
           if cap_per_window \<le> used_u32 then Exceeded used_u32 cap_per_window window_secs else Quota_ok)"

definition repo_consume ::
  "bool \<Rightarrow> instant \<Rightarrow> int \<Rightarrow> string \<Rightarrow> usage_kind \<Rightarrow> u32 \<Rightarrow> string \<Rightarrow> usage_row list \<Rightarrow> usage_row list" where
  "repo_consume up now user token_id kind tokens_used model t =
     (if \<not> up then t
      else t @ [\<lparr>us_ts = now, us_actor_user_id = user, us_actor_token_id = token_id, us_kind = kind_str kind,
                 us_tokens_used = min (uint tokens_used) i32_max, us_model = model\<rparr>])"

section \<open>The engine and the decorators\<close>

record quota =
  q_cap_per_window :: u32
  q_window_secs :: int
  q_enabled :: bool

definition system_ingestion_actor :: actor_identity where
  "system_ingestion_actor = \<lparr>ai_user_id = - 1, ai_token_id = ''system:ingestion'', ai_auth_method = DeviceFlow\<rparr>"

definition quota_check_actor :: "quota \<Rightarrow> bool \<Rightarrow> instant \<Rightarrow> actor_identity \<Rightarrow> usage_row list \<Rightarrow> quota_check" where
  "quota_check_actor q up now a t =
     (if \<not> q_enabled q then Quota_ok
      else repo_check up now (ai_user_id a) (q_cap_per_window q) (q_window_secs q) t)"

datatype spawned =
    Consume actor_identity usage_kind u32 string
  | Audit_exceeded string string string

datatype provider_error = Quota_exceeded u32 u32 int | Provider_failed string

record 'r metered_call =
  mc_result :: "provider_error + 'r"
  mc_inner_called :: bool
  mc_spawned :: "spawned list"

definition audit_quota_exceeded :: "actor_identity \<Rightarrow> usage_kind \<Rightarrow> u32 \<Rightarrow> u32 \<Rightarrow> int \<Rightarrow> spawned" where
  "audit_quota_exceeded a kind used cap window_secs =
     Audit_exceeded (actor_id_of (ai_user_id a)) (''quota_exceeded:'' @ kind_str kind)
       (''used='' @ dec_of_nat (unat used) @ '' cap='' @ dec_of_nat (unat cap)
        @ '' window_secs='' @ dec_of_int window_secs)"

record 'v embedding_response =
  er_vector :: 'v
  er_tokens_used :: u32
  er_model :: string

text \<open>The block all three operations open with: \<open>Some\<close> is the early return of the exceeded quota.\<close>

definition precheck ::
  "quota \<Rightarrow> bool \<Rightarrow> instant \<Rightarrow> usage_row list \<Rightarrow> usage_kind \<Rightarrow> actor_identity option \<Rightarrow> 'r metered_call option" where
  "precheck q up now t kind actor =
     (case actor of
        None \<Rightarrow> None
      | Some a \<Rightarrow>
          (case quota_check_actor q up now a t of
             Quota_ok \<Rightarrow> None
           | Exceeded used cap window_secs \<Rightarrow>
               Some \<lparr>mc_result = Inl (Quota_exceeded used cap window_secs), mc_inner_called = False,
                     mc_spawned = [audit_quota_exceeded a kind used cap window_secs]\<rparr>))"

definition embed ::
  "(string \<Rightarrow> string + 'v embedding_response) \<Rightarrow> quota \<Rightarrow> bool \<Rightarrow> instant \<Rightarrow> usage_row list
   \<Rightarrow> actor_identity option \<Rightarrow> string \<Rightarrow> 'v embedding_response metered_call" where
  "embed inner q up now t actor text =
     (case precheck q up now t Embedding actor of
        Some refused \<Rightarrow> refused
      | None \<Rightarrow>
          (case inner text of
             Inl e \<Rightarrow> \<lparr>mc_result = Inl (Provider_failed e), mc_inner_called = True, mc_spawned = []\<rparr>
           | Inr resp \<Rightarrow>
               \<lparr>mc_result = Inr resp, mc_inner_called = True,
                mc_spawned = (case actor of None \<Rightarrow> []
                  | Some a \<Rightarrow> [Consume a Embedding (er_tokens_used resp) (er_model resp)])\<rparr>))"

text \<open>\<open>t.len() / 4 + 1\<close> per text, summed in \<open>u64\<close> and capped at \<open>u32::MAX\<close>.\<close>

definition est_tokens :: "string list \<Rightarrow> u32" where
  "est_tokens texts = word_of_int (min (sum_list (map (\<lambda>s. int (length s div 4) + 1) texts)) u32_max)"

definition embed_batch ::
  "(string list \<Rightarrow> string + 'v list) \<Rightarrow> string \<Rightarrow> quota \<Rightarrow> bool \<Rightarrow> instant \<Rightarrow> usage_row list
   \<Rightarrow> actor_identity option \<Rightarrow> string list \<Rightarrow> 'v list metered_call" where
  "embed_batch inner provider_label q up now t actor texts =
     (case precheck q up now t Embedding actor of
        Some refused \<Rightarrow> refused
      | None \<Rightarrow>
          (case inner texts of
             Inl e \<Rightarrow> \<lparr>mc_result = Inl (Provider_failed e), mc_inner_called = True, mc_spawned = []\<rparr>
           | Inr vectors \<Rightarrow>
               \<lparr>mc_result = Inr vectors, mc_inner_called = True,
                mc_spawned = (case actor of None \<Rightarrow> []
                  | Some a \<Rightarrow> [Consume a Embedding (est_tokens texts) provider_label])\<rparr>))"

record llm_usage =
  lu_input_tokens :: u32
  lu_output_tokens :: u32

record llm_response =
  lr_text :: string
  lr_usage :: llm_usage
  lr_model :: string

text \<open>\<open>saturating_add\<close> on \<open>u32\<close>.\<close>

definition total :: "llm_usage \<Rightarrow> u32" where
  "total u = (if u32_max < uint (lu_input_tokens u) + uint (lu_output_tokens u) then word_of_int u32_max
              else lu_input_tokens u + lu_output_tokens u)"

definition generate_json ::
  "(string \<Rightarrow> string + llm_response) \<Rightarrow> quota \<Rightarrow> bool \<Rightarrow> instant \<Rightarrow> usage_row list
   \<Rightarrow> actor_identity option \<Rightarrow> string \<Rightarrow> llm_response metered_call" where
  "generate_json inner q up now t actor prompt =
     (case precheck q up now t Llm actor of
        Some refused \<Rightarrow> refused
      | None \<Rightarrow>
          (case inner prompt of
             Inl e \<Rightarrow> \<lparr>mc_result = Inl (Provider_failed e), mc_inner_called = True, mc_spawned = []\<rparr>
           | Inr resp \<Rightarrow>
               \<lparr>mc_result = Inr resp, mc_inner_called = True,
                mc_spawned = (case actor of None \<Rightarrow> []
                  | Some a \<Rightarrow> [Consume a Llm (total (lr_usage resp)) (lr_model resp)])\<rparr>))"

fun run_spawned :: "bool \<Rightarrow> instant \<Rightarrow> spawned list \<Rightarrow> usage_row list \<Rightarrow> usage_row list" where
  "run_spawned up now [] t = t"
| "run_spawned up now (Consume a kind tokens model # xs) t =
     run_spawned up now xs (repo_consume up now (ai_user_id a) (ai_token_id a) kind tokens model t)"
| "run_spawned up now (Audit_exceeded _ _ _ # xs) t = run_spawned up now xs t"

section \<open>Token arithmetic\<close>

lemma uint_clamp_u32: "uint (clamp_u32 used) = max 0 (min used u32_max)"
  by (auto simp: clamp_u32_def u32_max_def uint_word_of_int)

text \<open>Saturating addition of token counts never wraps: the total is the exact sum capped at
  \<open>u32::MAX\<close>, so it is at least each of the two counts.\<close>

theorem total_saturates:
  "uint (total u) = min (uint (lu_input_tokens u) + uint (lu_output_tokens u)) u32_max"
proof (cases "u32_max < uint (lu_input_tokens u) + uint (lu_output_tokens u)")
  case True
  then show ?thesis by (simp add: total_def u32_max_def)
next
  case False
  then have "uint (lu_input_tokens u + lu_output_tokens u) = uint (lu_input_tokens u) + uint (lu_output_tokens u)"
    by (simp add: u32_max_def uint_plus_simple_iff uint_word_ariths)
  with False show ?thesis by (simp add: total_def)
qed

lemma uint_est_tokens: "uint (est_tokens texts) = min (sum_list (map (\<lambda>s. int (length s div 4) + 1) texts)) u32_max"
proof -
  have "0 \<le> sum_list (map (\<lambda>s. int (length s div 4) + 1) texts)" by (rule sum_list_nonneg) auto
  then show ?thesis by (simp add: est_tokens_def u32_max_def uint_word_of_int)
qed

section \<open>The contract of a metered operation\<close>

text \<open>
  A call checks the usage table when it opens; its charge is written by a task of its own, some time after the provider has answered. So the
  state is the table and the charges of the calls in flight: calls open, charges are written or lost (the database is away, the process ends)
  in any order, and rows of other writers arrive.
\<close>

record meter_state =
  mt_usage :: "usage_row list"
  mt_flight :: "spawned list"

datatype 'req meter_event = Call instant actor_identity 'req | Charge bool instant nat | Lost nat | Foreign usage_row

definition remove_nth :: "nat \<Rightarrow> 'a list \<Rightarrow> 'a list" where
  "remove_nth k xs = take k xs @ drop (Suc k) xs"

fun meter_step ::
  "(instant \<Rightarrow> actor_identity \<Rightarrow> 'req \<Rightarrow> usage_row list \<Rightarrow> spawned list) \<Rightarrow> 'req meter_event \<Rightarrow> meter_state \<Rightarrow> meter_state" where
  "meter_step call (Call now a req) s = s\<lparr>mt_flight := mt_flight s @ call now a req (mt_usage s)\<rparr>"
| "meter_step call (Charge up now k) s =
     (if k < length (mt_flight s)
      then s\<lparr>mt_usage := run_spawned up now [mt_flight s ! k] (mt_usage s), mt_flight := remove_nth k (mt_flight s)\<rparr> else s)"
| "meter_step call (Lost k) s = (if k < length (mt_flight s) then s\<lparr>mt_flight := remove_nth k (mt_flight s)\<rparr> else s)"
| "meter_step call (Foreign r) s = s\<lparr>mt_usage := mt_usage s @ [r]\<rparr>"

fun event_time :: "'req meter_event \<Rightarrow> instant option" where
  "event_time (Call now _ _) = Some now"
| "event_time (Charge _ now _) = Some now"
| "event_time _ = None"

fun in_time :: "instant \<Rightarrow> 'req meter_event list \<Rightarrow> instant \<Rightarrow> bool" where
  "in_time from [] until \<longleftrightarrow> from \<le> until"
| "in_time from (e # es) until \<longleftrightarrow>
     (case event_time e of None \<Rightarrow> in_time from es until | Some now \<Rightarrow> from \<le> now \<and> in_time now es until)"

fun charge_of :: "int \<Rightarrow> spawned \<Rightarrow> int option" where
  "charge_of user (Consume a _ tokens _) = (if ai_user_id a = user then Some (min (uint tokens) i32_max) else None)"
| "charge_of user (Audit_exceeded _ _ _) = None"

definition charges :: "int \<Rightarrow> spawned list \<Rightarrow> int list" where
  "charges user xs = List.map_filter (charge_of user) xs"

text \<open>At most \<open>n\<close> calls of the user in flight at any time, each charging at most \<open>m\<close>; other writers do not write for the user.\<close>

fun flight_bounded ::
  "(instant \<Rightarrow> actor_identity \<Rightarrow> 'req \<Rightarrow> usage_row list \<Rightarrow> spawned list) \<Rightarrow> int \<Rightarrow> nat \<Rightarrow> int \<Rightarrow> 'req meter_event list \<Rightarrow> meter_state \<Rightarrow> bool" where
  "flight_bounded call user n m [] s \<longleftrightarrow> True"
| "flight_bounded call user n m (e # es) s \<longleftrightarrow>
     (case e of Foreign r \<Rightarrow> us_actor_user_id r \<noteq> user | _ \<Rightarrow> True)
     \<and> length (charges user (mt_flight (meter_step call e s))) \<le> n
     \<and> list_all (\<lambda>c. c \<le> m) (charges user (mt_flight (meter_step call e s)))
     \<and> flight_bounded call user n m es (meter_step call e s)"

definition meter_run where
  "meter_run call es s = fold (meter_step call) es s"

definition billed :: "int \<Rightarrow> usage_row list \<Rightarrow> bool" where
  "billed user t \<longleftrightarrow> (\<forall>r \<in> set t. us_actor_user_id r = user \<longrightarrow> 0 \<le> us_tokens_used r)"

lemma window_sum_append: "window_sum now w user (s @ t) = window_sum now w user s + window_sum now w user t"
  by (simp add: window_sum_def)

lemma window_sum_foreign [simp]: "us_actor_user_id r \<noteq> user \<Longrightarrow> window_sum now w user [r] = 0"
  by (simp add: window_sum_def)

lemma window_sum_antimono:
  assumes "billed user t" and "now \<le> later"
  shows "window_sum later w user t \<le> window_sum now w user t"
  using assms
proof (induction t)
  case (Cons r t)
  then have "window_sum later w user [r] \<le> window_sum now w user [r]"
    by (auto simp: window_sum_def billed_def)
  with Cons show ?case
    using window_sum_append [of later w user "[r]" t] window_sum_append [of now w user "[r]" t]
    by (simp add: billed_def)
qed (simp add: window_sum_def)

lemma window_sum_nonneg: "billed user t \<Longrightarrow> 0 \<le> window_sum now w user t"
  unfolding window_sum_def billed_def by (rule sum_list_nonneg) auto

lemma charges_simps [simp]:
  "charges user [] = []" "charges user (xs @ ys) = charges user xs @ charges user ys"
  "charges user (x # xs) = (case charge_of user x of None \<Rightarrow> [] | Some c \<Rightarrow> [c]) @ charges user xs"
  by (auto simp: charges_def map_filter_def split: option.split)

lemma charges_nonneg: "c \<in> set (charges user xs) \<Longrightarrow> 0 \<le> c"
proof (induction xs)
  case (Cons x xs)
  then show ?case by (cases x) (auto simp: i32_max_def split: if_splits)
qed simp

lemma sum_charges_le: "list_all (\<lambda>c. c \<le> m) cs \<Longrightarrow> sum_list cs \<le> int (length cs) * m"
  by (induction cs) (auto simp: algebra_simps)

lemma charges_remove:
  assumes "k < length xs"
  shows "sum_list (charges user xs) = (case charge_of user (xs ! k) of None \<Rightarrow> 0 | Some c \<Rightarrow> c) + sum_list (charges user (remove_nth k xs))"
proof -
  have "charges user xs = charges user (take k xs @ xs ! k # drop (Suc k) xs)" using assms by (simp add: id_take_nth_drop [symmetric])
  then show ?thesis by (simp add: remove_nth_def split: option.split)
qed

lemma charged_row:
  assumes "billed user t"
  shows "billed user (run_spawned up now [x] t)"
    and "window_sum now w user (run_spawned up now [x] t) \<le> window_sum now w user t + (case charge_of user x of None \<Rightarrow> 0 | Some c \<Rightarrow> c)"
  using assms
  by (cases x; auto simp: billed_def repo_consume_def window_sum_def i32_max_def)+

locale metered =
  fixes call :: "instant \<Rightarrow> actor_identity \<Rightarrow> 'req \<Rightarrow> usage_row list \<Rightarrow> spawned list"
    and cap :: int and window_secs :: int
  assumes cap_u32: "0 \<le> cap" "cap \<le> u32_max"
    and own_charge: "ai_user_id a \<noteq> user \<Longrightarrow> charges user (call now a req t) = []"
    and one_charge: "length (charges user (call now a req t)) \<le> 1"
    and admitted: "charges (ai_user_id a) (call now a req t) \<noteq> [] \<Longrightarrow> 0 \<le> window_sum now window_secs (ai_user_id a) t \<Longrightarrow>
      window_sum now window_secs (ai_user_id a) t \<le> i64_max \<Longrightarrow> window_sum now window_secs (ai_user_id a) t < cap"
begin

definition spent :: "instant \<Rightarrow> int \<Rightarrow> meter_state \<Rightarrow> int" where
  "spent now user s = window_sum now window_secs user (mt_usage s) + sum_list (charges user (mt_flight s))"

lemma charge_spent:
  assumes "billed user (mt_usage s)" and "e = Charge up now k \<or> e = Lost k"
  shows "spent now user (meter_step call e s) \<le> spent now user s" and "billed user (mt_usage (meter_step call e s))"
proof -
  have "0 \<le> (case charge_of user x of None \<Rightarrow> 0 | Some c \<Rightarrow> c)" for x
    using charges_nonneg [of _ user "[x]"] by (simp split: option.split)
  with assms charged_row [OF assms(1), where up = up and now = now and x = "mt_flight s ! k"] charges_remove [of k "mt_flight s" user]
  show "spent now user (meter_step call e s) \<le> spent now user s" "billed user (mt_usage (meter_step call e s))"
    by (auto simp: spent_def intro: order_trans)
qed

lemma call_spent:
  assumes "billed user (mt_usage s)" and "length (charges user (mt_flight (meter_step call (Call now a req) s))) \<le> n"
    and "list_all (\<lambda>c. c \<le> m) (charges user (mt_flight (meter_step call (Call now a req) s)))"
    and "0 < m" and "int n * m \<le> 2 ^ 62" and below: "spent now user s < cap + int n * m"
  shows "spent now user (meter_step call (Call now a req) s) < cap + int n * m"
proof (cases "charges user (call now a req (mt_usage s)) = []")
  case True
  with below show ?thesis by (simp add: spent_def)
next
  case False
  then have user: "ai_user_id a = user" using own_charge by blast
  let ?w = "window_sum now window_secs user (mt_usage s)"
  have pos: "0 \<le> ?w" by (rule window_sum_nonneg [OF assms(1)])
  have "0 \<le> sum_list (charges user (mt_flight s))" by (rule sum_list_nonneg) (rule charges_nonneg)
  with below have "?w < cap + 2 ^ 62" using assms(5) by (simp add: spent_def)
  then have "?w \<le> i64_max" using cap_u32 by (simp add: i64_max_def u32_max_def)
  with admitted [of a now req "mt_usage s"] False pos user have "?w < cap" by simp
  moreover have "sum_list (charges user (mt_flight (meter_step call (Call now a req) s))) \<le> int n * m"
    using sum_charges_le [OF assms(3)] assms(2,4) by (meson int_ops(1) less_imp_le mult_right_mono of_nat_mono order_trans)
  ultimately show ?thesis by (simp add: spent_def)
qed

lemma spent_later: "billed user (mt_usage s) \<Longrightarrow> now \<le> later \<Longrightarrow> spent later user s \<le> spent now user s"
  using window_sum_antimono by (simp add: spent_def)

lemma overshoot_bounded:
  assumes "in_time from es until" and "flight_bounded call user n m es s"
    and "0 < m" and "int n * m \<le> 2 ^ 62" and "billed user (mt_usage s)" and "spent from user s < cap + int n * m"
  shows "spent until user (meter_run call es s) < cap + int n * m \<and> billed user (mt_usage (meter_run call es s))"
  using assms
proof (induction es arbitrary: s "from")
  case Nil
  then show ?case using spent_later [of user s "from" until] by (simp add: meter_run_def)
next
  case (Cons e es)
  have later: "spent now user s < cap + int n * m" if "from \<le> now" for now
    using spent_later [OF Cons.prems(5) that] Cons.prems(6) by simp
  have next_ok: "\<exists>now. in_time now es until \<and> spent now user (meter_step call e s) < cap + int n * m \<and> billed user (mt_usage (meter_step call e s))"
  proof (cases e)
    case (Call now a req)
    with Cons.prems later call_spent [of user s now a req n m] show ?thesis by (intro exI [of _ now]) simp
  next
    case (Charge up now k)
    with Cons.prems later charge_spent [OF Cons.prems(5), of e up now k] show ?thesis by (intro exI [of _ now]) fastforce
  next
    case (Lost k)
    with Cons.prems charge_spent [OF Cons.prems(5), of e _ "from" k] show ?thesis by (intro exI [of _ "from"]) fastforce
  next
    case (Foreign r)
    with Cons.prems show ?thesis by (intro exI [of _ "from"]) (auto simp: spent_def window_sum_append billed_def)
  qed
  then obtain now where "in_time now es until" "spent now user (meter_step call e s) < cap + int n * m"
    "billed user (mt_usage (meter_step call e s))" by blast
  with Cons.IH [of now "meter_step call e s"] Cons.prems(2-4) show ?case by (simp add: meter_run_def)
qed

lemma window_bounded:
  assumes "in_time from es until" and "flight_bounded call user n m es s"
    and "0 < m" and "int n * m \<le> 2 ^ 62" and "billed user (mt_usage s)" and "spent from user s < cap + int n * m"
  shows "window_sum until window_secs user (mt_usage (meter_run call es s)) < cap + int n * m"
proof -
  have "0 \<le> sum_list (charges user (mt_flight (meter_run call es s)))" by (rule sum_list_nonneg) (rule charges_nonneg)
  with overshoot_bounded [OF assms] show ?thesis by (simp add: spent_def)
qed

end

section \<open>The decorators meet the contract\<close>

text \<open>A request to one of the three operations of the decorators, which share the quota. What the provider answers belongs to the request.\<close>

datatype 'v metered_request =
    Embed_one "string + 'v embedding_response" string
  | Embed_many "string + 'v list" string "string list"
  | Generate "string + llm_response" string

fun request_spawned :: "quota \<Rightarrow> instant \<Rightarrow> actor_identity \<Rightarrow> 'v metered_request \<Rightarrow> usage_row list \<Rightarrow> spawned list" where
  "request_spawned q now a (Embed_one answer text) t = mc_spawned (embed (\<lambda>_. answer) q True now t (Some a) text)"
| "request_spawned q now a (Embed_many answer lbl texts) t = mc_spawned (embed_batch (\<lambda>_. answer) lbl q True now t (Some a) texts)"
| "request_spawned q now a (Generate answer prompt) t = mc_spawned (generate_json (\<lambda>_. answer) q True now t (Some a) prompt)"

lemma repo_check_exact:
  assumes "0 \<le> window_sum now w user t" and "window_sum now w user t \<le> i64_max"
  shows "repo_check True now user cap w t =
     (if uint cap \<le> window_sum now w user t
      then Exceeded (clamp_u32 (window_sum now w user t)) cap w else Quota_ok)"
proof -
  have "uint cap \<le> u32_max" using uint_lt2p [of cap] by (simp add: u32_max_def)
  then have "cap \<le> clamp_u32 (window_sum now w user t) \<longleftrightarrow> uint cap \<le> window_sum now w user t"
    using assms(1) by (auto simp: word_le_def uint_clamp_u32)
  with assms show ?thesis by (simp add: repo_check_def i64_min_def)
qed

lemma precheck_admits:
  assumes "precheck q True now t kind (Some a) = None" and "q_enabled q"
    and "0 \<le> window_sum now (q_window_secs q) (ai_user_id a) t" and "window_sum now (q_window_secs q) (ai_user_id a) t \<le> i64_max"
  shows "window_sum now (q_window_secs q) (ai_user_id a) t < uint (q_cap_per_window q)"
  using assms by (simp add: precheck_def quota_check_actor_def repo_check_exact split: if_splits)

lemma refused_charges [simp]: "precheck q up now t kind actor = Some r \<Longrightarrow> charges user (mc_spawned r) = []"
  by (auto simp: precheck_def audit_quota_exceeded_def split: option.splits quota_check.splits)

lemma i32_max_nonneg [simp]: "0 \<le> i32_max"
  by (simp add: i32_max_def)

lemma uint_cap_u32: "0 \<le> uint (q_cap_per_window q)" "uint (q_cap_per_window q) \<le> u32_max"
  using uint_lt2p [of "q_cap_per_window q"] by (simp_all add: u32_max_def)

lemmas metered_defs = embed_def embed_batch_def generate_json_def

lemma request_charges:
  shows "ai_user_id a \<noteq> user \<Longrightarrow> charges user (request_spawned q now a req t) = []"
    and "length (charges user (request_spawned q now a req t)) \<le> 1"
    and "q_enabled q \<Longrightarrow> charges user (request_spawned q now a req t) \<noteq> [] \<Longrightarrow> 0 \<le> window_sum now (q_window_secs q) (ai_user_id a) t \<Longrightarrow>
      window_sum now (q_window_secs q) (ai_user_id a) t \<le> i64_max \<Longrightarrow> window_sum now (q_window_secs q) (ai_user_id a) t < uint (q_cap_per_window q)"
  by (cases req; auto simp: metered_defs precheck_admits split: option.splits sum.splits)+

definition enabled_request where
  "enabled_request q = request_spawned (q\<lparr>q_enabled := True\<rparr>)"

interpretation meter: metered "enabled_request q" "uint (q_cap_per_window q)" "q_window_secs q"
  by unfold_locales
     (use uint_cap_u32 request_charges(1,2) request_charges(3) [of "q\<lparr>q_enabled := True\<rparr>"] in \<open>auto simp: enabled_request_def\<close>)

section \<open>Properties\<close>

definition quota_admits :: "quota \<Rightarrow> bool \<Rightarrow> instant \<Rightarrow> usage_row list \<Rightarrow> actor_identity option \<Rightarrow> bool" where
  "quota_admits q up now t actor \<longleftrightarrow>
     (case actor of None \<Rightarrow> True
      | Some a \<Rightarrow> let used = window_sum now (q_window_secs q) (ai_user_id a) t in
          \<not> q_enabled q \<or> \<not> up \<or> used < i64_min \<or> i64_max < used \<or> max 0 used < uint (q_cap_per_window q))"

lemma repo_check_ok_iff:
  "repo_check up now user cap w t = Quota_ok \<longleftrightarrow>
     (let used = window_sum now w user t in
      \<not> up \<or> used < i64_min \<or> i64_max < used \<or> max 0 used < uint cap)"
proof -
  have "uint cap \<le> u32_max" using uint_lt2p [of cap] by (simp add: u32_max_def)
  then have "(cap \<le> clamp_u32 used) = (\<not> max 0 used < uint cap)" for used
    by (auto simp: word_le_def uint_clamp_u32)
  then show ?thesis unfolding repo_check_def Let_def by (simp add: not_le) blast
qed

lemma precheck_None_iff: "precheck q up now t kind actor = None \<longleftrightarrow> quota_admits q up now t actor"
proof (cases actor)
  case (Some a)
  have "quota_check_actor q up now a t = Quota_ok \<longleftrightarrow> quota_admits q up now t actor"
    by (simp add: Some quota_check_actor_def quota_admits_def repo_check_ok_iff Let_def)
  then show ?thesis by (auto simp: Some precheck_def split: quota_check.splits)
qed (simp add: precheck_def quota_admits_def)

lemma guarded_call:
  assumes "mc_inner_called x" and "\<And>u c w. mc_result x \<noteq> Inl (Quota_exceeded u c w)"
  shows "mc_inner_called (case precheck q up now t kind actor of None \<Rightarrow> x | Some r \<Rightarrow> r)
           \<longleftrightarrow> quota_admits q up now t actor"
    and "(\<exists>u c w. mc_result (case precheck q up now t kind actor of None \<Rightarrow> x | Some r \<Rightarrow> r) = Inl (Quota_exceeded u c w))
           \<longleftrightarrow> \<not> quota_admits q up now t actor"
proof -
  have refusal: "\<not> mc_inner_called r \<and> (\<exists>u c w. mc_result r = Inl (Quota_exceeded u c w))"
    if "precheck q up now t kind actor = Some r" for r :: "'a metered_call"
    using that by (auto simp: precheck_def split: option.splits quota_check.splits)
  have adm: "quota_admits q up now t actor \<longleftrightarrow> (precheck q up now t kind actor :: 'a metered_call option) = None"
    by (simp only: precheck_None_iff)
  show "mc_inner_called (case precheck q up now t kind actor of None \<Rightarrow> x | Some r \<Rightarrow> r)
      \<longleftrightarrow> quota_admits q up now t actor"
    unfolding adm
    using assms refusal by (cases "precheck q up now t kind actor :: 'a metered_call option") auto
  show "(\<exists>u c w. mc_result (case precheck q up now t kind actor of None \<Rightarrow> x | Some r \<Rightarrow> r) = Inl (Quota_exceeded u c w))
      \<longleftrightarrow> \<not> quota_admits q up now t actor"
    unfolding adm
    using assms refusal by (cases "precheck q up now t kind actor :: 'a metered_call option") auto
qed

text \<open>Each of the three metered operations calls its provider exactly when the quota admits the actor:
  there is no actor, the quota is disabled, the window sum cannot be read, or it is below the cap. In every
  other case the result is the quota error.\<close>

theorem quota_gate_exact:
  "(mc_inner_called (embed ie q up now t actor text) \<longleftrightarrow> quota_admits q up now t actor)
   \<and> (mc_inner_called (embed_batch ib lbl q up now t actor texts) \<longleftrightarrow> quota_admits q up now t actor)
   \<and> (mc_inner_called (generate_json il q up now t actor prompt) \<longleftrightarrow> quota_admits q up now t actor)
   \<and> ((\<exists>u c w. mc_result (generate_json il q up now t actor prompt) = Inl (Quota_exceeded u c w))
        \<longleftrightarrow> \<not> quota_admits q up now t actor)"
  unfolding embed_def embed_batch_def generate_json_def
  by (intro conjI guarded_call) (auto split: sum.splits)

text \<open>C5. Bounded overshoot. Requests of any actors to the three metered operations open, and the charges of the admitted ones are written
  or lost, in any order, with every check reaching the database. When never more than \<open>n\<close> charges of a user are outstanding, each of at
  most \<open>m\<close> tokens, the tokens recorded for the user in the rolling window stay below the cap plus \<open>n * m\<close>; for calls that wait
  for their charge that is one call. The table starts empty, the clock does not run backwards, and nobody else writes rows of the user.\<close>

theorem quota_overshoot_bounded:
  assumes "in_time t0 es now" and "flight_bounded (enabled_request q) user n m es \<lparr>mt_usage = [], mt_flight = []\<rparr>"
    and "0 < n" and "0 < m" and "int n * m \<le> 2 ^ 62"
  shows "window_sum now (q_window_secs q) user (mt_usage (meter_run (enabled_request q) es \<lparr>mt_usage = [], mt_flight = []\<rparr>))
     < uint (q_cap_per_window q) + int n * m"
  by (rule meter.window_bounded [OF assms(1,2,4,5)])
     (use assms(3,4) in \<open>simp_all add: billed_def meter.spent_def window_sum_def add_nonneg_pos\<close>)

text \<open>Two calls in flight and two charges of seven against a cap of five: the bound for one call does not hold.\<close>

definition demo_usage :: llm_response where
  "demo_usage = \<lparr>lr_text = ''x'', lr_usage = \<lparr>lu_input_tokens = 3, lu_output_tokens = 4\<rparr>, lr_model = ''m''\<rparr>"

definition demo_meter :: "unit metered_request meter_event list" where
  "demo_meter = [Call 1 system_ingestion_actor (Generate (Inr demo_usage) ''a''), Call 2 system_ingestion_actor (Generate (Inr demo_usage) ''b''),
     Charge True 3 0, Charge True 3 0, Call 4 system_ingestion_actor (Embed_many (Inr []) ''p'' [''c''])]"

definition demo_quota :: quota where
  "demo_quota = \<lparr>q_cap_per_window = 5, q_window_secs = 60, q_enabled = True\<rparr>"

lemma concurrent_calls_overshoot:
  "window_sum 9 60 (- 1) (mt_usage (meter_run (enabled_request demo_quota) demo_meter \<lparr>mt_usage = [], mt_flight = []\<rparr>)) = 14"
  by code_simp

theorem quota_overshoot_bounded_witness:
  "window_sum 9 60 (- 1) (mt_usage (meter_run (enabled_request demo_quota) demo_meter \<lparr>mt_usage = [], mt_flight = []\<rparr>)) < 5 + 2 * 7"
proof -
  have "flight_bounded (enabled_request demo_quota) (- 1) 2 7 demo_meter \<lparr>mt_usage = [], mt_flight = []\<rparr>" by code_simp
  moreover have "in_time 0 demo_meter 9" by (simp add: demo_meter_def)
  ultimately show ?thesis
    using quota_overshoot_bounded [of 0 demo_meter 9 demo_quota "- 1" 2 7] by (simp add: demo_quota_def)
qed

end
