(* ===== verification/Rate_Limit.thy ===== *)
theory Rate_Limit
  imports Rust_Text
begin

unbundle bit_operations_syntax

text \<open>
  IP addresses of \<open>std::net\<close> with the predicates the backend uses, and the per-client rate limiter
  (\<open>akashic-platform/src/middleware/rate_limit.rs\<close>): the trusted-proxy key extractor, the IPv6 /64
  bucket, the route quotas and the middleware.

  CIDR membership (\<open>ipnet\<close>), the textual address parser and the keyed limiter (\<open>governor\<close>) are
  arguments: \<open>contains\<close>, \<open>parse_ip\<close> and \<open>check_key\<close>. \<open>check_key\<close> returns the wait time of a refused
  request, or \<open>None\<close>, and the limiter's new state.
\<close>

section \<open>Addresses\<close>

datatype ip_addr =
    V4 "8 word" "8 word" "8 word" "8 word"
  | V6 "16 word" "16 word" "16 word" "16 word" "16 word" "16 word" "16 word" "16 word"

section \<open>Key extraction\<close>

definition ip_in_trusted :: "('n \<Rightarrow> ip_addr \<Rightarrow> bool) \<Rightarrow> 'n list \<Rightarrow> ip_addr \<Rightarrow> bool" where
  "ip_in_trusted contains trusted ip \<longleftrightarrow> (\<exists>net \<in> set trusted. contains net ip)"

fun resolve_loop ::
  "(string \<Rightarrow> ip_addr option) \<Rightarrow> ('n \<Rightarrow> ip_addr \<Rightarrow> bool) \<Rightarrow> 'n list \<Rightarrow> ip_addr \<Rightarrow> string list \<Rightarrow> ip_addr" where
  "resolve_loop parse_ip contains trusted peer [] = peer"
| "resolve_loop parse_ip contains trusted peer (raw # rest) =
     (if raw = [] then resolve_loop parse_ip contains trusted peer rest
      else case parse_ip raw of
             None \<Rightarrow> resolve_loop parse_ip contains trusted peer rest
           | Some parsed \<Rightarrow>
               if \<not> ip_in_trusted contains trusted parsed then parsed
               else resolve_loop parse_ip contains trusted peer rest)"

definition resolve ::
  "(string \<Rightarrow> ip_addr option) \<Rightarrow> ('n \<Rightarrow> ip_addr \<Rightarrow> bool) \<Rightarrow> 'n list \<Rightarrow> ip_addr \<Rightarrow> string option \<Rightarrow> ip_addr" where
  "resolve parse_ip contains trusted peer xff =
     (if \<not> ip_in_trusted contains trusted peer then peer
      else case xff of
             None \<Rightarrow> peer
           | Some h \<Rightarrow> resolve_loop parse_ip contains trusted peer (map trim (rev (split_char CHR '','' h))))"

fun bucket_key :: "ip_addr \<Rightarrow> ip_addr" where
  "bucket_key (V4 a b c d) = V4 a b c d"
| "bucket_key (V6 a b c d e f g h) = V6 a b c d 0 0 0 0"

text \<open>\<open>peer\<close> is the address of \<open>ConnectInfo\<close>, absent on a misconfigured server.\<close>

definition extract_from_req ::
  "(string \<Rightarrow> ip_addr option) \<Rightarrow> ('n \<Rightarrow> ip_addr \<Rightarrow> bool) \<Rightarrow> 'n list \<Rightarrow> ip_addr option \<Rightarrow> string option
   \<Rightarrow> ip_addr option" where
  "extract_from_req parse_ip contains trusted peer xff =
     map_option (\<lambda>p. bucket_key (resolve parse_ip contains trusted p xff)) peer"

section \<open>The middleware\<close>

record route_quota =
  rq_burst :: u32
  rq_period_secs :: nat

definition quota_auth :: route_quota where "quota_auth = \<lparr>rq_burst = 10, rq_period_secs = 6\<rparr>"
definition quota_ingest :: route_quota where "quota_ingest = \<lparr>rq_burst = 5, rq_period_secs = 12\<rparr>"
definition quota_api :: route_quota where "quota_api = \<lparr>rq_burst = 60, rq_period_secs = 1\<rparr>"
definition quota_mcp :: route_quota where "quota_mcp = \<lparr>rq_burst = 30, rq_period_secs = 2\<rparr>"

datatype limit_verdict = Run_next | Too_many string nat

definition rate_limit_layer ::
  "(string \<Rightarrow> ip_addr option) \<Rightarrow> ('n \<Rightarrow> ip_addr \<Rightarrow> bool) \<Rightarrow> (ip_addr \<Rightarrow> 'l \<Rightarrow> nat option \<times> 'l) \<Rightarrow> 'n list \<Rightarrow> 'n list
   \<Rightarrow> ip_addr option \<Rightarrow> string option \<Rightarrow> 'l \<Rightarrow> limit_verdict \<times> 'l" where
  "rate_limit_layer parse_ip contains check_key trusted allowlist peer xff l =
     (let key = (case extract_from_req parse_ip contains trusted peer xff of
                   Some k \<Rightarrow> k | None \<Rightarrow> V4 0 0 0 0) in
      if \<exists>net \<in> set allowlist. contains net key then (Run_next, l)
      else case check_key key l of
             (None, l') \<Rightarrow> (Run_next, l')
           | (Some wait, l') \<Rightarrow>
               (Too_many (''rate limit exceeded; retry after '' @ dec_of_nat wait @ ''s'') wait, l'))"

text \<open>A route group of the router: without rate limiting the request goes straight to the handler.\<close>

definition apply_layer ::
  "bool \<Rightarrow> (string \<Rightarrow> ip_addr option) \<Rightarrow> ('n \<Rightarrow> ip_addr \<Rightarrow> bool) \<Rightarrow> (ip_addr \<Rightarrow> 'l \<Rightarrow> nat option \<times> 'l) \<Rightarrow> 'n list
   \<Rightarrow> 'n list \<Rightarrow> ip_addr option \<Rightarrow> string option \<Rightarrow> 'l \<Rightarrow> limit_verdict \<times> 'l" where
  "apply_layer enabled parse_ip contains check_key trusted allowlist peer xff l =
     (if \<not> enabled then (Run_next, l)
      else rate_limit_layer parse_ip contains check_key trusted allowlist peer xff l)"

section \<open>The client key\<close>







fun bucket_network :: "ip_addr \<Rightarrow> (8 word list) + (16 word list)" where
  "bucket_network (V4 a b c d) = Inl [a, b, c, d]"
| "bucket_network (V6 a b c d e f g h) = Inr [a, b, c, d]"

text \<open>The key the limiter counts under is the /64 network of an IPv6 client and the address of an IPv4
  client: two requests share a bucket exactly when they agree on it, and never across the two families.\<close>

theorem bucket_key_is_network: "bucket_key x = bucket_key y \<longleftrightarrow> bucket_network x = bucket_network y"
  by (cases x; cases y) auto

lemma bucket_key_idem [simp]: "bucket_key (bucket_key x) = bucket_key x"
  by (cases x) auto

text \<open>An allowlisted single IPv6 host whose interface identifier is not zero never bypasses the limiter:
  the allowlist is matched against the /64 network, which is a different address.\<close>

theorem allowlist_ipv6_host_ineffective:
  assumes "\<And>ip. contains host ip \<longleftrightarrow> ip = V6 a b c d e f g h" and "[e, f, g, h] \<noteq> [0, 0, 0, 0]"
  shows "rate_limit_layer parse_ip contains check_key trusted [host] peer xff l
     = rate_limit_layer parse_ip contains check_key trusted [] peer xff l"
proof -
  have "bucket_key x \<noteq> V6 a b c d e f g h" for x using assms(2) by (cases x) auto
  then show ?thesis by (auto simp: rate_limit_layer_def extract_from_req_def assms(1) Let_def split: option.splits)
qed

theorem allowlist_ipv6_host_ineffective_witness:
  "fst (rate_limit_layer (\<lambda>_. None) (\<lambda>n ip. ip = n) (\<lambda>_ l. (Some 1, l)) [] [V6 1 2 3 4 0 0 0 1]
     (Some (V6 1 2 3 4 0 0 0 1)) None ()) \<noteq> Run_next"
  unfolding allowlist_ipv6_host_ineffective [where contains = "\<lambda>n ip. ip = n" and host = "V6 1 2 3 4 0 0 0 1"
      and e = 0 and f = 0 and g = 0 and h = 1, OF refl, simplified]
  by (simp add: rate_limit_layer_def extract_from_req_def resolve_def ip_in_trusted_def)

end
