(* ===== verification/Cimd.thy ===== *)
theory Cimd
  imports Rate_Limit
begin

text \<open>
  The client-metadata fetcher (\<open>akashic-http/src/auth/cimd.rs\<close>): URL checks, the SSRF guard on resolved
  addresses, the capped body reader, document validation and the five-minute cache.

  The URL parser, the address parser, DNS, the HTTP client and the JSON decoder are third-party: they
  are the fields of \<open>cimd_env\<close>, an argument of the fetcher. The address predicates are those of
  \<open>std::net\<close>; \<open>internal_v4\<close> and \<open>internal_addr\<close> state the blocked networks independently, as ranges of
  the numeric address, and \<open>blocked_ip\<close> is proved equal to them.
\<close>

section \<open>Address classes of the standard library\<close>

fun v4_is_loopback :: "ip_addr \<Rightarrow> bool" where
  "v4_is_loopback (V4 a b c d) = (a = 127)"
| "v4_is_loopback _ = False"

fun v4_is_private :: "ip_addr \<Rightarrow> bool" where
  "v4_is_private (V4 a b c d) = (a = 10 \<or> (a = 172 \<and> 16 \<le> b \<and> b \<le> 31) \<or> (a = 192 \<and> b = 168))"
| "v4_is_private _ = False"

fun v4_is_link_local :: "ip_addr \<Rightarrow> bool" where
  "v4_is_link_local (V4 a b c d) = (a = 169 \<and> b = 254)"
| "v4_is_link_local _ = False"

fun v4_is_unspecified :: "ip_addr \<Rightarrow> bool" where
  "v4_is_unspecified (V4 a b c d) = (a = 0 \<and> b = 0 \<and> c = 0 \<and> d = 0)"
| "v4_is_unspecified _ = False"

fun to_ipv4_mapped :: "ip_addr \<Rightarrow> ip_addr option" where
  "to_ipv4_mapped (V6 a b c d e f g h) =
     (if a = 0 \<and> b = 0 \<and> c = 0 \<and> d = 0 \<and> e = 0 \<and> f = 0xffff
      then Some (V4 (ucast (drop_bit 8 g)) (ucast g) (ucast (drop_bit 8 h)) (ucast h)) else None)"
| "to_ipv4_mapped _ = None"

section \<open>The fetcher\<close>

definition fetch_cap :: nat where
  "fetch_cap = 64 * 1024"

definition cache_ttl :: int where
  "cache_ttl = seconds 300"

record client_metadata =
  cm_client_id :: string
  cm_redirect_uris :: "string list"
  cm_client_name :: "string option"
  cm_logo_uri :: "string option"

datatype cimd_error = Invalid_url | Ssrf_blocked | Fetch_failed string | Too_large | Invalid_document string | Client_id_mismatch

record parsed_url =
  pu_scheme :: string
  pu_fragment :: "string option"
  pu_host :: "string option"

record http_reply =
  hr_success :: bool
  hr_status :: string
  hr_content_length :: "nat option"
  hr_chunks :: "(string + string) list"

record cimd_env =
  ce_parse_url :: "string \<Rightarrow> parsed_url option"
  ce_parse_ip :: "string \<Rightarrow> ip_addr option"
  ce_lookup_host :: "string \<Rightarrow> string + ip_addr list"
  ce_get :: "string \<Rightarrow> string + http_reply"
  ce_decode :: "string \<Rightarrow> string + client_metadata"

definition v4_blocked :: "ip_addr \<Rightarrow> bool" where
  "v4_blocked ip \<longleftrightarrow> v4_is_loopback ip \<or> v4_is_private ip \<or> v4_is_link_local ip \<or> v4_is_unspecified ip"

fun blocked_ip :: "ip_addr \<Rightarrow> bool" where
  "blocked_ip (V4 a b c d) = v4_blocked (V4 a b c d)"
| "blocked_ip (V6 a b c d e f g h) =
     (case to_ipv4_mapped (V6 a b c d e f g h) of
        Some v4 \<Rightarrow> v4_blocked v4
      | None \<Rightarrow> [a, b, c, d, e, f, g, h] = [0, 0, 0, 0, 0, 0, 0, 1]
          \<or> [a, b, c, d, e, f, g, h] = [0, 0, 0, 0, 0, 0, 0, 0]
          \<or> a AND 0xfe00 = 0xfc00 \<or> a AND 0xffc0 = 0xfe80)"

definition ssrf_guard :: "cimd_env \<Rightarrow> bool \<Rightarrow> string \<Rightarrow> cimd_error + unit" where
  "ssrf_guard env allow_loopback host =
     (if allow_loopback then Inr ()
      else case (case ce_parse_ip env (trim_end_matches CHR '']'' (trim_start_matches CHR ''['' host)) of
                   Some ip \<Rightarrow> Inr [ip]
                 | None \<Rightarrow> (case ce_lookup_host env host of
                              Inl e \<Rightarrow> Inl (Fetch_failed (''dns: '' @ e)) | Inr ips \<Rightarrow> Inr ips)) of
             Inl e \<Rightarrow> Inl e
           | Inr ips \<Rightarrow> if (\<exists>ip \<in> set ips. blocked_ip ip) \<or> ips = [] then Inl Ssrf_blocked else Inr ())"

fun read_capped_body :: "string \<Rightarrow> (string + string) list \<Rightarrow> cimd_error + string" where
  "read_capped_body buf [] = Inr buf"
| "read_capped_body buf (Inl e # rest) = Inl (Fetch_failed e)"
| "read_capped_body buf (Inr chunk # rest) =
     (if fetch_cap < length (buf @ chunk) then Inl Too_large else read_capped_body (buf @ chunk) rest)"

type_synonym cimd_cache = "string \<rightharpoonup> instant \<times> client_metadata"

definition cached_doc :: "instant \<Rightarrow> string \<Rightarrow> cimd_cache \<Rightarrow> client_metadata option" where
  "cached_doc now url cache =
     (case cache url of None \<Rightarrow> None | Some (at, doc) \<Rightarrow> if now - at < cache_ttl then Some doc else None)"

text \<open>The last component lists the URLs requested over HTTP.\<close>

definition fetch_and_validate ::
  "cimd_env \<Rightarrow> bool \<Rightarrow> instant \<Rightarrow> instant \<Rightarrow> string \<Rightarrow> cimd_cache \<Rightarrow> (cimd_error + client_metadata) \<times> cimd_cache \<times> string list" where
  "fetch_and_validate env allow_loopback now later client_id_url cache =
     (case ce_parse_url env client_id_url of
        None \<Rightarrow> (Inl Invalid_url, cache, [])
      | Some parsed \<Rightarrow>
          let https_ok = (pu_scheme parsed = ''https'' \<or> (allow_loopback \<and> pu_scheme parsed = ''http'')) in
          if \<not> https_ok \<or> pu_fragment parsed \<noteq> None then (Inl Invalid_url, cache, [])
          else case pu_host parsed of
            None \<Rightarrow> (Inl Invalid_url, cache, [])
          | Some host \<Rightarrow>
              (case ssrf_guard env allow_loopback host of
                 Inl e \<Rightarrow> (Inl e, cache, [])
               | Inr u \<Rightarrow>
                   (case cached_doc now client_id_url cache of
                      Some doc \<Rightarrow> (Inr doc, cache, [])
                    | None \<Rightarrow>
                        (case ce_get env client_id_url of
                           Inl e \<Rightarrow> (Inl (Fetch_failed e), cache, [client_id_url])
                         | Inr resp \<Rightarrow>
                             if \<not> hr_success resp
                             then (Inl (Fetch_failed (''status '' @ hr_status resp)), cache, [client_id_url])
                             else if (case hr_content_length resp of None \<Rightarrow> False | Some l \<Rightarrow> fetch_cap < l)
                             then (Inl Too_large, cache, [client_id_url])
                             else (case read_capped_body [] (hr_chunks resp) of
                                     Inl e \<Rightarrow> (Inl e, cache, [client_id_url])
                                   | Inr bytes \<Rightarrow>
                                       (case ce_decode env bytes of
                                          Inl e \<Rightarrow> (Inl (Invalid_document e), cache, [client_id_url])
                                        | Inr doc \<Rightarrow>
                                            if trim_end_matches CHR ''/'' (cm_client_id doc)
                                                 \<noteq> trim_end_matches CHR ''/'' client_id_url
                                            then (Inl Client_id_mismatch, cache, [client_id_url])
                                            else if cm_redirect_uris doc = []
                                            then (Inl (Invalid_document ''redirect_uris is empty''), cache, [client_id_url])
                                            else (Inr doc, cache(client_id_url \<mapsto> (later, doc)), [client_id_url])))))))"

section \<open>The blocked networks\<close>

fun addr_num :: "ip_addr \<Rightarrow> nat" where
  "addr_num (V4 a b c d) = ((unat a * 256 + unat b) * 256 + unat c) * 256 + unat d"
| "addr_num (V6 a b c d e f g h) =
     ((((((unat a * 65536 + unat b) * 65536 + unat c) * 65536 + unat d) * 65536 + unat e) * 65536 + unat f) * 65536
       + unat g) * 65536 + unat h"

text \<open>\<open>in_net n base len bits\<close>: \<open>n\<close> lies in the network of the given prefix length.\<close>

definition in_net :: "nat \<Rightarrow> nat \<Rightarrow> nat \<Rightarrow> nat \<Rightarrow> bool" where
  "in_net n base len bits \<longleftrightarrow> n div 2 ^ (bits - len) = base div 2 ^ (bits - len)"

definition internal_v4 :: "nat \<Rightarrow> bool" where
  "internal_v4 n \<longleftrightarrow> in_net n 0x7f000000 8 32 \<or> in_net n 0x0a000000 8 32 \<or> in_net n 0xac100000 12 32
     \<or> in_net n 0xc0a80000 16 32 \<or> in_net n 0xa9fe0000 16 32 \<or> n = 0"

definition internal_addr :: "ip_addr \<Rightarrow> bool" where
  "internal_addr ip \<longleftrightarrow> (case ip of
     V4 _ _ _ _ \<Rightarrow> internal_v4 (addr_num ip)
   | V6 _ _ _ _ _ _ _ _ \<Rightarrow>
       let n = addr_num ip in
       if n div 2 ^ 32 = 0xffff then internal_v4 (n mod 2 ^ 32)
       else n = 0 \<or> n = 1 \<or> in_net n (0xfc00 * 2 ^ 112) 7 128 \<or> in_net n (0xfe80 * 2 ^ 112) 10 128)"

lemma less_16_cases:
  "(\<forall>i < 16. P i) \<longleftrightarrow> P 0 \<and> P 1 \<and> P 2 \<and> P 3 \<and> P 4 \<and> P 5 \<and> P 6 \<and> P 7 \<and> P 8 \<and> P 9 \<and> P 10 \<and> P 11
     \<and> P 12 \<and> P 13 \<and> P 14 \<and> P (15::nat)"
  by (simp add: numeral_eq_Suc All_less_Suc conj_ac)

lemma word16_eq_bits: "x = y \<longleftrightarrow> (\<forall>n < 16. bit x n \<longleftrightarrow> bit y n)" for x y :: "16 word"
  by (auto simp: bit_eq_iff not_less) 

lemma word16_high_bits: "16 \<le> n \<Longrightarrow> \<not> bit (x :: 16 word) n"
  by (auto dest: bit_imp_le_length)

lemma unat_drop_bit_div: "unat (drop_bit n w) = unat w div 2 ^ n"
  by (subst unat_drop_bit_eq) (rule drop_bit_eq_div)

lemma ula_prefix: "a AND 0xfe00 = 0xfc00 \<longleftrightarrow> unat a div 2 ^ 9 = 0x7e" for a :: "16 word"
proof -
  have "unat a div 2 ^ 9 = 0x7e \<longleftrightarrow> drop_bit 9 a = 0x7e"
    unfolding word_unat_eq_iff unat_drop_bit_div by simp
  also have "\<dots> \<longleftrightarrow> a AND 0xfe00 = 0xfc00"
    unfolding word16_eq_bits less_16_cases by (simp add: bit_simps word16_high_bits)
  finally show ?thesis by simp
qed

lemma link_local_prefix: "a AND 0xffc0 = 0xfe80 \<longleftrightarrow> unat a div 2 ^ 6 = 0x3fa" for a :: "16 word"
proof -
  have "unat a div 2 ^ 6 = 0x3fa \<longleftrightarrow> drop_bit 6 a = 0x3fa"
    unfolding word_unat_eq_iff unat_drop_bit_div by simp
  also have "\<dots> \<longleftrightarrow> a AND 0xffc0 = 0xfe80"
    unfolding word16_eq_bits less_16_cases by (simp add: bit_simps word16_high_bits)
  finally show ?thesis by simp
qed

lemma base_div: "b < k \<Longrightarrow> (a * k + b) div (k * m) = a div m" for a b k m :: nat
  by (simp add: div_mult2_eq)

lemma radix_eq: "y < k \<Longrightarrow> x * k + y = n \<longleftrightarrow> x = n div k \<and> y = n mod k" for x y k n :: nat
  by (auto simp: div_mult_mod_eq)

lemma unat_8_lt: "unat x < 256" for x :: "8 word"
  using unsigned_less [of x, where ?'a = nat] by simp

lemma unat_16_lt: "unat x < 65536" for x :: "16 word"
  using unsigned_less [of x, where ?'a = nat] by simp

lemma v4_num_div:
  shows "addr_num (V4 a b c d) div 16777216 = unat a" (is ?A)
    and "addr_num (V4 a b c d) div 1048576 = unat a * 16 + unat b div 16" (is ?B)
    and "addr_num (V4 a b c d) div 65536 = unat a * 256 + unat b" (is ?C)
proof -
  have p: "(16777216::nat) = 256 * (256 * (256 * 1))" "(1048576::nat) = 256 * (256 * 16)"
    "(65536::nat) = 256 * (256 * 1)" by simp_all
  show ?A ?B ?C unfolding addr_num.simps p base_div [OF unat_8_lt] by simp_all
qed

lemma v4_blocked_iff: "v4_blocked (V4 a b c d) \<longleftrightarrow> internal_v4 (addr_num (V4 a b c d))"
proof -
  have n0: "addr_num (V4 a b c d) = 0 \<longleftrightarrow> a = 0 \<and> b = 0 \<and> c = 0 \<and> d = 0" by (auto simp: unat_eq_0)
  have r: "16 \<le> b \<and> b \<le> 31 \<longleftrightarrow> unat b div 16 = 1" by (auto simp: word_le_nat_alt)
  have "unat a * 16 + unat b div 16 = 2753 \<longleftrightarrow> unat a = 172 \<and> unat b div 16 = 1"
    "unat a * 256 + unat b = 49320 \<longleftrightarrow> unat a = 192 \<and> unat b = 168"
    "unat a * 256 + unat b = 43518 \<longleftrightarrow> unat a = 169 \<and> unat b = 254"
    using unat_8_lt [of b] by (simp_all add: radix_eq)
  then show ?thesis
    unfolding v4_blocked_def internal_v4_def in_net_def n0
    by (simp add: v4_num_div word_unat_eq_iff r del: addr_num.simps)
qed

lemma v6_num_div:
  fixes g h :: "16 word"
  shows "addr_num (V6 a b c d e f g h) div 2 ^ 32
      = ((((unat a * 65536 + unat b) * 65536 + unat c) * 65536 + unat d) * 65536 + unat e) * 65536 + unat f" (is ?A)
    and "addr_num (V6 a b c d e f g h) div 2 ^ 121 = unat a div 2 ^ 9" (is ?B)
    and "addr_num (V6 a b c d e f g h) div 2 ^ 118 = unat a div 2 ^ 6" (is ?C)
    and "addr_num (V6 a b c d e f g h) mod 2 ^ 32 = unat g * 65536 + unat h" (is ?D)
proof -
  have p: "(2::nat) ^ 32 = 65536 * (65536 * 1)"
    "(2::nat) ^ 121 = 65536 * (65536 * (65536 * (65536 * (65536 * (65536 * (65536 * 2 ^ 9))))))"
    "(2::nat) ^ 118 = 65536 * (65536 * (65536 * (65536 * (65536 * (65536 * (65536 * 2 ^ 6))))))" by simp_all
  show ?A ?B ?C unfolding addr_num.simps p base_div [OF unat_16_lt] by simp_all
  have "(x * 65536 + unat g) * 65536 + unat h = x * 2 ^ 32 + (unat g * 65536 + unat h)" for x by simp
  moreover have "unat g * 65536 + unat h < 2 ^ 32" using unat_16_lt [of g] unat_16_lt [of h] by simp
  ultimately show ?D unfolding addr_num.simps by (metis mod_less mod_mult_self3)
qed

lemma mapped_iff:
  "((((unat a * 65536 + unat b) * 65536 + unat c) * 65536 + unat d) * 65536 + unat e) * 65536 + unat f = 0xffff
     \<longleftrightarrow> a = 0 \<and> b = 0 \<and> c = 0 \<and> d = 0 \<and> e = 0 \<and> f = (0xffff :: 16 word)"
proof -
  have r: "x * 65536 + unat f = 0xffff \<longleftrightarrow> x = 0 \<and> unat f = 0xffff" for x using unat_16_lt [of f] by (simp add: radix_eq)
  show ?thesis unfolding r unfolding word_unat_eq_iff by simp
qed

lemma mapped_num:
  fixes g h :: "16 word"
  shows "addr_num (V4 (ucast (drop_bit 8 g)) (ucast g) (ucast (drop_bit 8 h)) (ucast h)) = unat g * 65536 + unat h"
proof -
  have hi: "unat (ucast (drop_bit 8 x) :: 8 word) = unat x div 256" for x :: "16 word"
    unfolding unsigned_ucast_eq unat_drop_bit_div using unat_16_lt [of x] by (simp add: take_bit_eq_mod)
  have lo: "unat (ucast x :: 8 word) = unat x mod 256" for x :: "16 word"
    by (simp add: unsigned_ucast_eq take_bit_eq_mod)
  have "(x * 256 + unat h div 256) * 256 + unat h mod 256 = x * 65536 + unat h" for x
    using div_mult_mod_eq [of "unat h" 256] by (simp add: algebra_simps)
  then show ?thesis unfolding addr_num.simps hi unfolding lo unfolding div_mult_mod_eq .
qed

lemma blocked_ip_iff: "blocked_ip ip \<longleftrightarrow> internal_addr ip"
proof (cases ip)
  case (V4 a b c d)
  then show ?thesis by (simp add: internal_addr_def v4_blocked_iff del: addr_num.simps)
next
  case (V6 a b c d e f g h)
  let ?n = "addr_num (V6 a b c d e f g h)"
  have zero: "?n = 0 \<longleftrightarrow> [a, b, c, d, e, f, g, h] = [0, 0, 0, 0, 0, 0, 0, 0]" by (auto simp: unat_eq_0)
  have one: "?n = 1 \<longleftrightarrow> [a, b, c, d, e, f, g, h] = [0, 0, 0, 0, 0, 0, 0, 1]"
  proof -
    have r: "x * 65536 + unat h = 1 \<longleftrightarrow> x = 0 \<and> unat h = 1" for x using unat_16_lt [of h] by (simp add: radix_eq)
    show ?thesis unfolding addr_num.simps r by (simp add: word_unat_eq_iff)
  qed
  have ula: "in_net ?n (0xfc00 * 2 ^ 112) 7 128 \<longleftrightarrow> a AND 0xfe00 = 0xfc00"
    unfolding in_net_def ula_prefix using v6_num_div(2) by simp
  have ll: "in_net ?n (0xfe80 * 2 ^ 112) 10 128 \<longleftrightarrow> a AND 0xffc0 = 0xfe80"
    unfolding in_net_def link_local_prefix using v6_num_div(3) by simp
  show ?thesis
  proof (cases "a = 0 \<and> b = 0 \<and> c = 0 \<and> d = 0 \<and> e = 0 \<and> f = 0xffff")
    case True
    then have "?n div 2 ^ 32 = 0xffff" unfolding v6_num_div(1) mapped_iff .
    with True v6_num_div(4) [of a b c d e f g h] show ?thesis
      unfolding V6 internal_addr_def Let_def
      by (simp add: v4_blocked_iff mapped_num del: addr_num.simps)
  next
    case False
    then have "?n div 2 ^ 32 \<noteq> 0xffff" unfolding v6_num_div(1) mapped_iff .
    with False show ?thesis
      unfolding V6 internal_addr_def Let_def ip_addr.case
      by (simp only: blocked_ip.simps to_ipv4_mapped.simps if_False option.case zero one ula ll) blast
  qed
qed

text \<open>The addresses the guard looks at: the literal of the host, or what DNS answers.\<close>

definition resolved_ips :: "cimd_env \<Rightarrow> string \<Rightarrow> ip_addr list option" where
  "resolved_ips env host =
     (case ce_parse_ip env (trim_end_matches CHR '']'' (trim_start_matches CHR ''['' host)) of
        Some ip \<Rightarrow> Some [ip]
      | None \<Rightarrow> (case ce_lookup_host env host of Inl e \<Rightarrow> None | Inr ips \<Rightarrow> Some ips))"

text \<open>C7. In production the SSRF guard passes exactly the hosts that resolve to at least one address and to
  no internal one: no loopback, RFC 1918, link-local or unspecified IPv4 address, no IPv4-mapped form of
  one, and no IPv6 loopback, unspecified, unique-local or link-local address.\<close>

theorem ssrf_guard_exact:
  "ssrf_guard env False host = Inr u \<longleftrightarrow>
     (\<exists>ip ips. resolved_ips env host = Some (ip # ips) \<and> list_all (\<lambda>x. \<not> internal_addr x) (ip # ips))"
proof -
  have "ssrf_guard env False host = Inr u \<longleftrightarrow>
      (\<exists>ips. resolved_ips env host = Some ips \<and> ips \<noteq> [] \<and> list_all (\<lambda>x. \<not> internal_addr x) ips)"
    by (auto simp: ssrf_guard_def resolved_ips_def blocked_ip_iff list_all_iff split: option.splits sum.splits)
  then show ?thesis unfolding neq_Nil_conv by auto
qed

section \<open>Bodies and documents\<close>

text \<open>The body reader accepts exactly the responses without a transport error whose total size is
  within the cap, and then returns all of the body.\<close>

theorem read_capped_body_exact:
  "read_capped_body [] chunks = Inr body \<longleftrightarrow>
     (\<exists>cs. chunks = map Inr cs \<and> body = concat cs) \<and> length body \<le> fetch_cap"
proof -
  have "length buf \<le> fetch_cap \<Longrightarrow> read_capped_body buf chunks = Inr body \<longleftrightarrow>
      (\<exists>cs. chunks = map Inr cs \<and> body = buf @ concat cs) \<and> length body \<le> fetch_cap" for buf
  proof (induction buf chunks rule: read_capped_body.induct)
    case (3 buf chunk rest)
    have split: "(\<exists>cs. Inr chunk # rest = map Inr cs \<and> body = buf @ concat cs) \<longleftrightarrow>
        (\<exists>cs. rest = map Inr cs \<and> body = (buf @ chunk) @ concat cs)"
      by (auto simp: Cons_eq_map_conv)
    show ?case
    proof (cases "fetch_cap < length (buf @ chunk)")
      case True
      then have "\<not> length body \<le> fetch_cap" if "body = (buf @ chunk) @ concat cs" for cs using that by simp
      with True show ?thesis unfolding split by auto
    next
      case False
      with 3 show ?thesis unfolding split by simp
    qed
  qed (auto simp: Cons_eq_map_conv)
  from this [of "[]"] show ?thesis by (simp add: fetch_cap_def)
qed

definition document_ok :: "string \<Rightarrow> client_metadata \<Rightarrow> bool" where
  "document_ok url doc \<longleftrightarrow>
     trim_end_matches CHR ''/'' (cm_client_id doc) = trim_end_matches CHR ''/'' url \<and> cm_redirect_uris doc \<noteq> []"

definition cache_ok :: "cimd_cache \<Rightarrow> bool" where
  "cache_ok cache \<longleftrightarrow> (\<forall>url at doc. cache url = Some (at, doc) \<longrightarrow> document_ok url doc)"

lemma fetch_and_validate_step:
  assumes "cache_ok cache" and "fetch_and_validate env lb now later url cache = (r, cache', gets)"
  shows "cache_ok cache' \<and> (\<forall>doc. r = Inr doc \<longrightarrow> document_ok url doc)"
  using assms
  by (auto simp: fetch_and_validate_def cached_doc_def Let_def cache_ok_def document_ok_def
      split: option.splits if_splits sum.splits prod.splits)

fun fetch_run :: "(cimd_env \<times> bool \<times> instant \<times> instant \<times> string) list \<Rightarrow> cimd_cache \<Rightarrow> cimd_cache" where
  "fetch_run [] cache = cache"
| "fetch_run ((env, lb, now, later, url) # cs) cache =
     fetch_run cs (fst (snd (fetch_and_validate env lb now later url cache)))"

lemma fetch_run_ok: "cache_ok cache \<Longrightarrow> cache_ok (fetch_run cs cache)"
proof (induction cs arbitrary: cache)
  case (Cons x cs)
  obtain env lb now later url where x: "x = (env, lb, now, later, url)" by (cases x)
  obtain r cache' gets where f: "fetch_and_validate env lb now later url cache = (r, cache', gets)"
    using prod_cases3 by blast
  from fetch_and_validate_step [OF Cons.prems f] Cons.IH x f show ?case by simp
qed simp

text \<open>After any run of fetches on an empty cache, a document the fetcher returns, cached or not, names
  the requested URL as its client id up to trailing slashes and registers at least one redirect URI; and a
  request leaves the server only for an HTTPS URL without fragment whose host passed the guard: in
  production none of its addresses is internal.\<close>

theorem fetched_document_validated:
  assumes "fetch_and_validate env lb now later url (fetch_run cs Map.empty) = (r, cache', gets)"
  shows "(\<forall>doc. r = Inr doc \<longrightarrow> document_ok url doc) \<and>
     (gets \<noteq> [] \<longrightarrow> gets = [url] \<and> (\<exists>p host. ce_parse_url env url = Some p \<and> pu_fragment p = None \<and> pu_host p = Some host \<and>
        (pu_scheme p = ''https'' \<or> lb \<and> pu_scheme p = ''http'') \<and> ssrf_guard env lb host = Inr ()))"
proof
  have "cache_ok (fetch_run cs Map.empty)" by (rule fetch_run_ok) (simp add: cache_ok_def)
  from fetch_and_validate_step [OF this assms] show "\<forall>doc. r = Inr doc \<longrightarrow> document_ok url doc" by blast
  show "gets \<noteq> [] \<longrightarrow> gets = [url] \<and> (\<exists>p host. ce_parse_url env url = Some p \<and> pu_fragment p = None \<and> pu_host p = Some host \<and>
        (pu_scheme p = ''https'' \<or> lb \<and> pu_scheme p = ''http'') \<and> ssrf_guard env lb host = Inr ())"
    using assms
    by (auto simp: fetch_and_validate_def Let_def split: option.splits if_splits sum.splits)
qed

definition demo_cimd_env :: cimd_env where
  "demo_cimd_env = \<lparr>ce_parse_url = (\<lambda>u. Some \<lparr>pu_scheme = ''https'', pu_fragment = None, pu_host = Some ''c''\<rparr>),
     ce_parse_ip = (\<lambda>_. None), ce_lookup_host = (\<lambda>_. Inr [V4 8 8 8 8]),
     ce_get = (\<lambda>_. Inr \<lparr>hr_success = True, hr_status = ''200'', hr_content_length = None, hr_chunks = [Inr ''x'']\<rparr>),
     ce_decode = (\<lambda>_. Inr \<lparr>cm_client_id = ''https://c/'', cm_redirect_uris = [''https://c/cb''],
                           cm_client_name = None, cm_logo_uri = None\<rparr>)\<rparr>"

theorem fetched_document_validated_witness:
  "\<exists>doc cache'. fetch_and_validate demo_cimd_env False 1 2 ''https://c'' Map.empty = (Inr doc, cache', [''https://c''])
     \<and> document_ok ''https://c'' doc"
proof -
  obtain doc cache' where
    f: "fetch_and_validate demo_cimd_env False 1 2 ''https://c'' (fetch_run [] Map.empty) = (Inr doc, cache', [''https://c''])"
    by (simp add: fetch_and_validate_def demo_cimd_env_def ssrf_guard_def v4_blocked_def cached_doc_def fetch_cap_def
        trim_end_matches_def Let_def)
  from fetched_document_validated [OF f] f show ?thesis by auto
qed

end
