(* ===== verification/Admin_Grants.thy ===== *)
theory Admin_Grants
  imports Auth_Service
begin

text \<open>
  The delegated admin trust chain: \<open>PgAdminGrantRepo\<close> (\<open>repos/admin_grant.rs\<close>), the admin guard of
  \<open>api/routes/mod.rs\<close> and the endpoints of \<open>api/routes/admins.rs\<close>.

  The recursive CTE is evaluated the way PostgreSQL evaluates \<open>WITH RECURSIVE ... UNION\<close>: a working
  table that is joined with the grants and replaced by its new rows until there are none. The
  theorems show that this terminates with exactly the users reachable from the roots over active
  grants, and what granting and revoking do to that set.
\<close>

section \<open>The repository\<close>

record grant_row =
  gr_id :: uuid
  gr_grantee :: string
  gr_granter :: string
  gr_granted_at :: instant
  gr_revoked_at :: "instant option"
  gr_revoked_by :: "string option"

record admin_entry =
  ae_username :: string
  ae_granter :: "string option"
  ae_granted_at :: "instant option"

definition active_edges :: "grant_row list \<Rightarrow> (string \<times> string) list" where
  "active_edges t = map (\<lambda>r. (gr_granter r, gr_grantee r)) (filter (\<lambda>r. gr_revoked_at r = None) t)"

definition cte_new :: "(string \<times> string) list \<Rightarrow> string list \<Rightarrow> string list \<Rightarrow> string list" where
  "cte_new es work res = remdups (filter (\<lambda>v. v \<notin> set res) (map snd (filter (\<lambda>e. fst e \<in> set work) es)))"

lemma set_cte_new: "set (cte_new es work res) = {v. \<exists>u \<in> set work. (u, v) \<in> set es} - set res"
  by (force simp: cte_new_def)

function cte_loop :: "(string \<times> string) list \<Rightarrow> string list \<Rightarrow> string list \<Rightarrow> string list" where
  "cte_loop es work res =
     (let new = cte_new es work res in if new = [] then res else cte_loop es new (res @ new))"
  by pat_completeness auto

lemma cte_measure:
  assumes "cte_new es work res \<noteq> []"
  shows "card (snd ` set es - set (res @ cte_new es work res)) < card (snd ` set es - set res)"
proof (rule psubset_card_mono)
  obtain v where "v \<in> set (cte_new es work res)" using assms by (cases "cte_new es work res") auto
  then have "v \<in> snd ` set es - set res" "v \<in> set (cte_new es work res)" by (force simp: set_cte_new)+
  then show "snd ` set es - set (res @ cte_new es work res) \<subset> snd ` set es - set res" by auto
qed simp

termination cte_loop
  by (relation "measure (\<lambda>(es, work, res). card (snd ` set es - set res))") (simp_all only: in_measure prod.case wf_measure cte_measure not_False_eq_True)

declare cte_loop.simps [simp del]

definition admins_cte :: "string list \<Rightarrow> grant_row list \<Rightarrow> string list" where
  "admins_cte roots t = cte_loop (active_edges t) (remdups roots) (remdups roots)"

definition is_admin :: "bool \<Rightarrow> string list \<Rightarrow> string \<Rightarrow> grant_row list \<Rightarrow> bool db" where
  "is_admin up roots username t =
     (if roots = [] then Inr False
      else if \<not> up then Inl Db_unavailable
      else Inr (username \<in> set (admins_cte roots t)))"

text \<open>The lateral join picks the earliest active grant of a user.\<close>

definition first_grant :: "string \<Rightarrow> grant_row list \<Rightarrow> grant_row option" where
  "first_grant username t =
     (case sort_key gr_granted_at (filter (\<lambda>r. gr_grantee r = username \<and> gr_revoked_at r = None) t) of
        [] \<Rightarrow> None | r # rs \<Rightarrow> Some r)"

definition list_admins :: "bool \<Rightarrow> string list \<Rightarrow> grant_row list \<Rightarrow> admin_entry list db" where
  "list_admins up roots t =
     (if roots = [] then Inr []
      else if \<not> up then Inl Db_unavailable
      else Inr (map (\<lambda>u. \<lparr>ae_username = u, ae_granter = map_option gr_granter (first_grant u t),
                          ae_granted_at = map_option gr_granted_at (first_grant u t)\<rparr>)
             (sort (admins_cte roots t))))"

definition grant :: "bool \<Rightarrow> instant \<Rightarrow> uuid \<Rightarrow> string \<Rightarrow> string \<Rightarrow> grant_row list \<Rightarrow> uuid db \<times> grant_row list" where
  "grant up now fresh grantee granter t =
     (if \<not> up then (Inl Db_unavailable, t)
      else if fresh \<in> set (map gr_id t) then (Inl Unique_violation, t)
      else (Inr fresh, t @ [\<lparr>gr_id = fresh, gr_grantee = grantee, gr_granter = granter, gr_granted_at = now,
                             gr_revoked_at = None, gr_revoked_by = None\<rparr>]))"

definition revoke ::
  "bool \<Rightarrow> instant \<Rightarrow> string \<Rightarrow> string \<Rightarrow> bool \<Rightarrow> string \<Rightarrow> grant_row list \<Rightarrow> nat db \<times> grant_row list" where
  "revoke up now grantee revoked_by caller_is_root caller t =
     (let p = (if caller_is_root
               then (\<lambda>r. gr_grantee r = grantee \<and> gr_revoked_at r = None)
               else (\<lambda>r. gr_grantee r = grantee \<and> gr_granter r = caller \<and> gr_revoked_at r = None)) in
      if \<not> up then (Inl Db_unavailable, t)
      else (Inr (rows_affected p t),
            update_where p (\<lambda>r. r\<lparr>gr_revoked_at := Some now, gr_revoked_by := Some revoked_by\<rparr>) t))"

section \<open>The endpoints\<close>

datatype app_error = App_unauthorized | App_forbidden string | App_conflict string | App_not_found | App_internal

definition username_is_admin :: "string \<Rightarrow> string list \<Rightarrow> bool" where
  "username_is_admin username admins \<longleftrightarrow> admins \<noteq> [] \<and> (\<exists>a \<in> set admins. a = username)"

fun session_key_parts :: "string list \<Rightarrow> string option" where
  "session_key_parts [] = None"
| "session_key_parts (p # ps) =
     (case strip_prefix ''ak_session='' (trim p) of
        None \<Rightarrow> session_key_parts ps
      | Some v \<Rightarrow> if trim v \<noteq> [] then Some (trim v) else session_key_parts ps)"

definition extract_session_key :: "string option \<Rightarrow> string option \<Rightarrow> string option" where
  "extract_session_key authorization cookie =
     (case Option.bind authorization (strip_prefix ''Bearer '') of
        Some k \<Rightarrow> Some k
      | None \<Rightarrow> Option.bind cookie (\<lambda>h. session_key_parts (split_char CHR '';'' h)))"

definition resolve_username ::
  "bool \<Rightarrow> instant \<Rightarrow> string option \<Rightarrow> string option \<Rightarrow> session_db_row list \<Rightarrow> string option" where
  "resolve_username up now authorization cookie sess =
     Option.bind (extract_session_key authorization cookie) (\<lambda>k.
       map_option (\<lambda>(ui, _, _). ui_username ui) (auth_validate_session up now k sess))"

text \<open>The resolved session user is an argument of the guard and the endpoints from here on.\<close>

definition require_admin :: "bool \<Rightarrow> string list \<Rightarrow> string option \<Rightarrow> grant_row list \<Rightarrow> app_error + string" where
  "require_admin up roots caller t =
     (case caller of
        None \<Rightarrow> Inl App_unauthorized
      | Some username \<Rightarrow>
          if username_is_admin username roots then Inr username
          else (case is_admin up roots username t of
                  Inl e \<Rightarrow> Inl App_internal
                | Inr b \<Rightarrow> if b then Inr username
                           else Inl (App_forbidden (''admin privileges required for '' @ username))))"

definition grant_admin ::
  "bool \<Rightarrow> bool \<Rightarrow> instant \<Rightarrow> uuid \<Rightarrow> string list \<Rightarrow> string option \<Rightarrow> string \<Rightarrow> grant_row list
   \<Rightarrow> (app_error + string) \<times> grant_row list" where
  "grant_admin up wr now fresh roots who target t =
     (case require_admin up roots who t of
        Inl e \<Rightarrow> (Inl e, t)
      | Inr caller \<Rightarrow>
          if username_is_admin target roots then (Inl (App_conflict target), t)
          else (case grant wr now fresh target caller t of
                  (Inl e, t') \<Rightarrow> (Inl App_internal, t')
                | (Inr i, t') \<Rightarrow> (Inr target, t')))"

definition revoke_admin ::
  "bool \<Rightarrow> bool \<Rightarrow> instant \<Rightarrow> string list \<Rightarrow> string option \<Rightarrow> string \<Rightarrow> grant_row list
   \<Rightarrow> (app_error + nat) \<times> grant_row list" where
  "revoke_admin up wr now roots who target t =
     (case require_admin up roots who t of
        Inl e \<Rightarrow> (Inl e, t)
      | Inr caller \<Rightarrow>
          if username_is_admin target roots then (Inl (App_forbidden target), t)
          else let caller_is_root = username_is_admin caller roots in
            (case revoke wr now target caller caller_is_root caller t of
               (Inl e, t') \<Rightarrow> (Inl App_internal, t')
             | (Inr revoked, t') \<Rightarrow>
                 if revoked = 0
                 then (if caller_is_root then (Inl App_not_found, t') else (Inl (App_forbidden target), t'))
                 else (Inr revoked, t')))"

section \<open>The CTE computes reachability\<close>

lemma cte_loop_correct:
  assumes "set work \<subseteq> set res" and "S \<subseteq> set res" and "set res \<subseteq> (set es)\<^sup>* `` S"
    and "\<forall>(u, v) \<in> set es. u \<in> set res - set work \<longrightarrow> v \<in> set res"
  shows "set (cte_loop es work res) = (set es)\<^sup>* `` S"
  using assms
proof (induction es work res rule: cte_loop.induct)
  case (1 es work res)
  let ?new = "cte_new es work res"
  show ?case
  proof (cases "?new = []")
    case True
    then have none: "{v. \<exists>u \<in> set work. (u, v) \<in> set es} \<subseteq> set res" using set_cte_new [of es work res] by auto
    have "v \<in> set res" if "(u, v) \<in> set es" "u \<in> set res" for u v
      using that none "1.prems"(4) by (cases "u \<in> set work") auto
    note closed = this
    have "v \<in> set res" if "(u, v) \<in> (set es)\<^sup>*" "u \<in> set res" for u v
      using that(1) by (induction rule: rtrancl_induct) (use that(2) closed in auto)
    with "1.prems"(2) have "(set es)\<^sup>* `` S \<subseteq> set res" by blast
    with "1.prems"(3) True show ?thesis by (simp add: cte_loop.simps [of es work res])
  next
    case False
    have sub: "set ?new \<subseteq> (set es)\<^sup>* `` S"
    proof
      fix v
      assume "v \<in> set ?new"
      then obtain u where "u \<in> set work" "(u, v) \<in> set es" by (auto simp: set_cte_new)
      with "1.prems"(1,3) obtain s where "s \<in> S" "(s, u) \<in> (set es)\<^sup>*" "(u, v) \<in> set es" by blast
      then show "v \<in> (set es)\<^sup>* `` S" by (meson ImageI rtrancl.rtrancl_into_rtrancl)
    qed
    have "\<forall>(u, v) \<in> set es. u \<in> set (res @ ?new) - set ?new \<longrightarrow> v \<in> set (res @ ?new)"
      using "1.prems"(4) by (auto simp: set_cte_new)
    with "1.IH" [OF refl False] "1.prems" sub have "set (cte_loop es ?new (res @ ?new)) = (set es)\<^sup>* `` S"
      by auto
    with False show ?thesis by (simp add: cte_loop.simps [of es work res] Let_def)
  qed
qed

lemma set_admins_cte: "set (admins_cte roots t) = (set (active_edges t))\<^sup>* `` set roots"
  unfolding admins_cte_def by (rule cte_loop_correct) auto

lemma distinct_cte_loop: "distinct res \<Longrightarrow> distinct (cte_loop es work res)"
proof (induction es work res rule: cte_loop.induct)
  case (1 es work res)
  have "distinct (res @ cte_new es work res)" using "1.prems" by (auto simp: set_cte_new) (simp add: cte_new_def)
  with 1 show ?case by (subst cte_loop.simps) (simp add: Let_def)
qed

text \<open>The abstract specification of the trust chain: reachability over active grants.\<close>

inductive trusted_admin :: "string list \<Rightarrow> grant_row list \<Rightarrow> string \<Rightarrow> bool" for roots t where
  root: "u \<in> set roots \<Longrightarrow> trusted_admin roots t u"
| granted: "\<lbrakk>trusted_admin roots t (gr_granter r); r \<in> set t; gr_revoked_at r = None\<rbrakk> \<Longrightarrow> trusted_admin roots t (gr_grantee r)"

lemma trusted_admin_iff: "trusted_admin roots t u \<longleftrightarrow> (\<exists>r \<in> set roots. (r, u) \<in> (set (active_edges t))\<^sup>*)"
proof
  assume "trusted_admin roots t u"
  then show "\<exists>r \<in> set roots. (r, u) \<in> (set (active_edges t))\<^sup>*"
  proof induction
    case (granted row)
    have "(gr_granter row, gr_grantee row) \<in> set (active_edges t)"
      using granted.hyps by (auto simp: active_edges_def)
    with granted.IH show ?case by (meson rtrancl_into_rtrancl)
  qed auto
next
  assume "\<exists>r \<in> set roots. (r, u) \<in> (set (active_edges t))\<^sup>*"
  then obtain r where r: "r \<in> set roots" "(r, u) \<in> (set (active_edges t))\<^sup>*" by blast
  from r(2) show "trusted_admin roots t u"
    by induction (use r(1) in \<open>auto simp: active_edges_def intro: trusted_admin.intros\<close>)
qed

text \<open>C8. The admin check computes exactly reachability from the configured roots over non-revoked grants,
  and with no roots nobody is admin.\<close>

theorem is_admin_reachability:
  "is_admin True roots u t = Inr (trusted_admin roots t u)"
  using set_admins_cte [of roots t] by (auto simp: is_admin_def trusted_admin_iff)

text \<open>The admin listing names every reachable user exactly once, in ascending order.\<close>

theorem list_admins_exact:
  "\<exists>es. list_admins True roots t = Inr es \<and> sorted (map ae_username es) \<and> distinct (map ae_username es)
     \<and> set (map ae_username es) = {u. trusted_admin roots t u}"
proof (cases "roots = []")
  case False
  have "distinct (admins_cte roots t)" unfolding admins_cte_def by (rule distinct_cte_loop) simp
  moreover have "set (admins_cte roots t) = {u. trusted_admin roots t u}"
    using set_admins_cte by (auto simp: trusted_admin_iff)
  ultimately show ?thesis using False by (simp add: list_admins_def comp_def image_image)
qed (simp add: list_admins_def trusted_admin_iff)

section \<open>Granting and revoking\<close>

lemma require_admin_trusted:
  assumes "require_admin up roots who t = Inr c"
  shows "who = Some c" and "trusted_admin roots t c"
proof -
  show who: "who = Some c"
    using assms by (auto simp: require_admin_def split: option.splits if_splits sum.splits)
  have "c \<in> set roots \<or> c \<in> set (admins_cte roots t)"
    using assms who by (auto simp: require_admin_def username_is_admin_def is_admin_def split: if_splits)
  then show "trusted_admin roots t c" using set_admins_cte by (fastforce simp: trusted_admin_iff)
qed

lemma active_edges_append [simp]: "active_edges (s @ t) = active_edges s @ active_edges t"
  by (simp add: active_edges_def)

lemma active_edges_update:
  "active_edges (update_where (\<lambda>r. Q (gr_granter r) (gr_grantee r) \<and> gr_revoked_at r = None)
       (\<lambda>r. r\<lparr>gr_revoked_at := Some now, gr_revoked_by := x\<rparr>) t)
     = filter (\<lambda>e. \<not> Q (fst e) (snd e)) (active_edges t)"
  by (induction t) (auto simp: active_edges_def update_where_def)

lemma active_edges_revoke:
  assumes "revoke True now target by' root caller t = (r, t')"
  shows "set (active_edges t') = set (active_edges t) - {(a, b). b = target \<and> (root \<or> a = caller)}"
proof -
  have "active_edges t' = filter (\<lambda>e. \<not> (snd e = target \<and> (root \<or> fst e = caller))) (active_edges t)"
    using assms active_edges_update [where Q = "\<lambda>a b. b = target \<and> (root \<or> a = caller)" and now = now and x = "Some by'" and t = t]
    by (cases root) (auto simp: revoke_def conj_assoc Let_def)
  then show ?thesis by auto
qed

lemma active_edges_grant:
  assumes "grant up now fresh target caller t = (Inr i, t')"
  shows "set (active_edges t') = insert (caller, target) (set (active_edges t))"
proof -
  have "active_edges t' = active_edges t @ [(caller, target)]"
    using assms by (auto simp: grant_def active_edges_def split: if_splits)
  then show ?thesis by simp
qed

text \<open>Granting: only a current admin can grant, the grant makes the target admin, and exactly the users
  the target had already delegated to become admin with it.\<close>

theorem grant_admin_effect:
  assumes "grant_admin up wr now fresh roots who target t = (Inr x, t')"
  shows "\<exists>c. who = Some c \<and> trusted_admin roots t c \<and> trusted_admin roots t' target \<and>
     (\<forall>u. trusted_admin roots t' u \<longleftrightarrow> trusted_admin roots t u \<or> (target, u) \<in> (set (active_edges t))\<^sup>*)"
proof -
  obtain c i where c: "require_admin up roots who t = Inr c" "grant wr now fresh target c t = (Inr i, t')"
    using assms by (auto simp: grant_admin_def split: sum.splits if_splits prod.splits)
  note adm = require_admin_trusted [OF c(1)] and edges = active_edges_grant [OF c(2)]
  from adm(2) obtain r where r: "r \<in> set roots" "(r, c) \<in> (set (active_edges t))\<^sup>*" by (auto simp: trusted_admin_iff)
  have iff: "trusted_admin roots t' u \<longleftrightarrow> trusted_admin roots t u \<or> (target, u) \<in> (set (active_edges t))\<^sup>*" for u
    using r rtrancl_insert [of c target "set (active_edges t)"] unfolding trusted_admin_iff edges by auto
  from iff [of target] have "trusted_admin roots t' target" by simp
  with adm iff show ?thesis by blast
qed

text \<open>Revoking cascades: after a successful revocation the admins are exactly the users reachable without
  the revoked grants (all grants of the target for a root caller, the caller's own grants otherwise), so
  nobody gains rights, and a target revoked by a root is no longer admin.\<close>

theorem revoke_admin_cascades:
  assumes "revoke_admin up wr now roots who target t = (Inr n, t')"
  shows "\<exists>c. who = Some c \<and> trusted_admin roots t c \<and> target \<notin> set roots \<and>
     (\<forall>u. trusted_admin roots t' u \<longleftrightarrow> (\<exists>r \<in> set roots.
        (r, u) \<in> (set (active_edges t) - {(a, b). b = target \<and> (c \<in> set roots \<or> a = c)})\<^sup>*)) \<and>
     (c \<in> set roots \<longrightarrow> \<not> trusted_admin roots t' target)"
proof -
  obtain c where c: "require_admin up roots who t = Inr c" "\<not> username_is_admin target roots"
    and rev: "revoke wr now target c (username_is_admin c roots) c t = (Inr n, t')"
    using assms by (auto simp: revoke_admin_def Let_def split: sum.splits if_splits prod.splits)
  note adm = require_admin_trusted [OF c(1)]
  have root: "username_is_admin x roots \<longleftrightarrow> x \<in> set roots" for x by (auto simp: username_is_admin_def)
  have wr using rev by (auto simp: revoke_def Let_def split: if_splits)
  with rev have edges: "set (active_edges t') = set (active_edges t) - {(a, b). b = target \<and> (c \<in> set roots \<or> a = c)}"
    using active_edges_revoke [of now target c "username_is_admin c roots" c t "Inr n" t'] by (simp add: root)
  have "\<not> trusted_admin roots t' target" if "c \<in> set roots"
  proof
    assume "trusted_admin roots t' target"
    then obtain r where r: "r \<in> set roots" "(r, target) \<in> (set (active_edges t'))\<^sup>*" by (auto simp: trusted_admin_iff)
    from r(2) show False
      by (cases rule: rtranclE) (use c(2) r(1) that in \<open>auto simp: root edges\<close>)
  qed
  with adm c(2) root edges show ?thesis by (auto simp: trusted_admin_iff)
qed

text \<open>A caller who is not admin, or has no session, changes nothing through either endpoint.\<close>

theorem non_admin_changes_nothing:
  assumes "\<And>c. who = Some c \<Longrightarrow> \<not> trusted_admin roots t c"
  shows "snd (grant_admin up wr now fresh roots who target t) = t
     \<and> snd (revoke_admin up wr now roots who target t) = t"
proof -
  have "\<nexists>c. require_admin up roots who t = Inr c" using assms require_admin_trusted by blast
  then obtain e where "require_admin up roots who t = Inl e" by (metis sum.exhaust)
  then show ?thesis by (simp add: grant_admin_def revoke_admin_def)
qed

text \<open>Witnesses: the root \<open>r\<close> has granted \<open>b\<close>, and \<open>b\<close> has granted \<open>c\<close>.\<close>

definition demo_grants :: "grant_row list" where
  "demo_grants =
     [\<lparr>gr_id = 1, gr_grantee = ''b'', gr_granter = ''r'', gr_granted_at = 0, gr_revoked_at = None, gr_revoked_by = None\<rparr>,
      \<lparr>gr_id = 2, gr_grantee = ''c'', gr_granter = ''b'', gr_granted_at = 1, gr_revoked_at = None, gr_revoked_by = None\<rparr>]"

theorem grant_admin_effect_witness:
  "\<exists>t'. grant_admin True True 5 9 [''r''] (Some ''r'') ''d'' demo_grants = (Inr ''d'', t') \<and> trusted_admin [''r''] t' ''d''"
proof -
  obtain t' where g: "grant_admin True True 5 9 [''r''] (Some ''r'') ''d'' demo_grants = (Inr ''d'', t')"
    by (simp add: grant_admin_def require_admin_def username_is_admin_def grant_def demo_grants_def)
  from grant_admin_effect [OF g] g show ?thesis by blast
qed

theorem revoke_admin_cascades_witness:
  "\<exists>t'. revoke_admin True True 5 [''r''] (Some ''r'') ''b'' demo_grants = (Inr 1, t') \<and> \<not> trusted_admin [''r''] t' ''b''"
proof -
  obtain t' where g: "revoke_admin True True 5 [''r''] (Some ''r'') ''b'' demo_grants = (Inr 1, t')"
    by (simp add: revoke_admin_def require_admin_def username_is_admin_def revoke_def demo_grants_def rows_affected_def)
  from revoke_admin_cascades [OF g] g show ?thesis by auto
qed

theorem non_admin_changes_nothing_witness:
  "snd (grant_admin True True 5 9 [''r''] (Some ''x'') ''x'' demo_grants) = demo_grants"
proof -
  have "admins_cte [''r''] demo_grants = [''r'', ''b'', ''c'']"
    by (simp add: admins_cte_def demo_grants_def active_edges_def cte_loop.simps cte_new_def)
  then have "(set (active_edges demo_grants))\<^sup>* `` {''r''} = {''r'', ''b'', ''c''}"
    using set_admins_cte [of "[''r'']" demo_grants] by simp
  then have "''x'' \<notin> (set (active_edges demo_grants))\<^sup>* `` {''r''}" by simp
  then have "\<not> trusted_admin [''r''] demo_grants ''x''" by (simp add: trusted_admin_iff Image_singleton_iff)
  with non_admin_changes_nothing [where who = "Some ''x''" and roots = "[''r'']" and t = demo_grants]
  show ?thesis by simp
qed

end
