(* ===== verification/Base64url.thy ===== *)
theory Base64url
  imports Rust_Text
begin

unbundle bit_operations_syntax

text \<open>
  The hand-written base64url encoder without padding (\<open>base64url_nopad\<close> in
  \<open>akashic-http/src/auth/mcp_oauth.rs\<close>) on 8-bit words, with a decoder that inverts it.
\<close>

section \<open>Encoding\<close>

definition b64_alphabet :: string where
  "b64_alphabet = ''ABCDEFGHIJKLMNOPQRSTUVWXYZabcdefghijklmnopqrstuvwxyz0123456789-_''"

definition b64_char :: "8 word \<Rightarrow> char" where
  "b64_char w = b64_alphabet ! unat w"

fun base64url_nopad :: "8 word list \<Rightarrow> string" where
  "base64url_nopad [] = []"
| "base64url_nopad [b0] =
     [b64_char (drop_bit 2 b0), b64_char (push_bit 4 (b0 AND 3) OR drop_bit 4 0)]"
| "base64url_nopad [b0, b1] =
     [b64_char (drop_bit 2 b0), b64_char (push_bit 4 (b0 AND 3) OR drop_bit 4 b1),
      b64_char (push_bit 2 (b1 AND 0x0f) OR drop_bit 6 0)]"
| "base64url_nopad (b0 # b1 # b2 # rest) =
     [b64_char (drop_bit 2 b0), b64_char (push_bit 4 (b0 AND 3) OR drop_bit 4 b1),
      b64_char (push_bit 2 (b1 AND 0x0f) OR drop_bit 6 b2), b64_char (b2 AND 0x3f)]
     @ base64url_nopad rest"


section \<open>Decoding\<close>

definition b64_value :: "char \<Rightarrow> 8 word" where
  "b64_value c = word_of_nat (length (takeWhile (\<lambda>x. x \<noteq> c) b64_alphabet))"

fun base64url_decode :: "string \<Rightarrow> 8 word list" where
  "base64url_decode [] = []"
| "base64url_decode [c0] = []"
| "base64url_decode [c0, c1] = [push_bit 2 (b64_value c0) OR drop_bit 4 (b64_value c1)]"
| "base64url_decode [c0, c1, c2] =
     [push_bit 2 (b64_value c0) OR drop_bit 4 (b64_value c1), push_bit 4 (b64_value c1) OR drop_bit 2 (b64_value c2)]"
| "base64url_decode (c0 # c1 # c2 # c3 # rest) =
     [push_bit 2 (b64_value c0) OR drop_bit 4 (b64_value c1), push_bit 4 (b64_value c1) OR drop_bit 2 (b64_value c2),
      push_bit 6 (b64_value c2) OR b64_value c3] @ base64url_decode rest"

lemma distinct_b64_alphabet: "distinct b64_alphabet" "length b64_alphabet = 64"
  by (simp_all add: b64_alphabet_def)

lemma takeWhile_nth: "distinct xs \<Longrightarrow> i < length xs \<Longrightarrow> length (takeWhile (\<lambda>x. x \<noteq> xs ! i) xs) = i"
proof (induction xs arbitrary: i)
  case (Cons a xs)
  then show ?case by (cases i) auto
qed simp

lemma b64_value_char: "unat w < 64 \<Longrightarrow> b64_value (b64_char w) = w"
  unfolding b64_value_def b64_char_def using distinct_b64_alphabet by (simp add: takeWhile_nth)

lemma less_8_cases:
  "(\<forall>i < 8. P i) \<longleftrightarrow> P 0 \<and> P 1 \<and> P 2 \<and> P 3 \<and> P 4 \<and> P 5 \<and> P 6 \<and> P (7::nat)"
  by (simp add: numeral_eq_Suc All_less_Suc conj_ac)

lemma word8_eq_bits: "x = y \<longleftrightarrow> (\<forall>n < 8. bit x n \<longleftrightarrow> bit y n)" for x y :: "8 word"
  by (auto simp: bit_eq_iff not_less)

lemma word8_high_bits: "8 \<le> n \<Longrightarrow> \<not> bit (x :: 8 word) n"
  by (auto dest: bit_imp_le_length)

lemma six_bits: "\<not> bit w 6 \<Longrightarrow> \<not> bit w 7 \<Longrightarrow> unat w < 64" for w :: "8 word"
proof -
  assume "\<not> bit w 6" "\<not> bit w 7"
  then have "take_bit 6 w = w" unfolding word8_eq_bits less_8_cases by (simp add: bit_simps)
  then have "unat w = unat (take_bit 6 w)" by simp
  also have "\<dots> < 2 ^ 6" unfolding unsigned_take_bit_eq by (rule take_bit_nat_less_exp)
  finally show ?thesis by simp
qed

lemma sextets:
  fixes b0 b1 b2 :: "8 word"
  shows "unat (drop_bit 2 b0) < 64" "unat (push_bit 4 (b0 AND 3) OR drop_bit 4 b1) < 64"
    "unat (push_bit 2 (b1 AND 0x0f) OR drop_bit 6 b2) < 64" "unat (b2 AND 0x3f) < 64"
  by (rule six_bits; simp add: bit_simps word8_high_bits)+

lemma octets:
  fixes b0 b1 b2 :: "8 word"
  shows "push_bit 2 (drop_bit 2 b0) OR drop_bit 4 (push_bit 4 (b0 AND 3) OR drop_bit 4 b1) = b0"
    "push_bit 4 (push_bit 4 (b0 AND 3) OR drop_bit 4 b1) OR drop_bit 2 (push_bit 2 (b1 AND 0x0f) OR drop_bit 6 b2) = b1"
    "push_bit 6 (push_bit 2 (b1 AND 0x0f) OR drop_bit 6 b2) OR (b2 AND 0x3f) = b2"
  unfolding word8_eq_bits less_8_cases by (simp_all add: bit_simps word8_high_bits)

lemma base64url_roundtrip: "base64url_decode (base64url_nopad bs) = bs"
  by (induction bs rule: base64url_nopad.induct) (simp_all only: base64url_nopad.simps base64url_decode.simps append.simps b64_value_char sextets octets)
end
