(* ===== verification/Oauth_Http.thy ===== *)
theory Oauth_Http
  imports Auth_Service Cimd Base64url
begin

text \<open>
  The MCP OAuth endpoints (\<open>akashic-http/src/auth/mcp_oauth.rs\<close>: metadata, authorize, consent, token
  exchange, PKCE) and the HTTP side of the device grant (\<open>oauth_device.rs\<close>).

  Third-party code is in \<open>oauth_env\<close>: the SHA-256 digest (its hexadecimal form is what the repositories
  store), \<open>urlencoding::encode\<close> and \<open>Uuid::parse_str\<close>. The session user is what \<open>extract_session_user\<close>
  returned and \<open>fetch\<close> is the metadata fetcher of \<open>Cimd\<close>. Strings are UTF-8 byte strings.

  The step relation \<open>oauth_step\<close> interleaves all requests of all users, a whole request as one step: a request reads and
  spends what others could spend too in a single statement (the redemption of the pending consent, of the code), and its
  other statements insert a row of its own. Its invariant ties every token the flow mints to a consent that the same user approved.
\<close>

record oauth_env =
  oe_digest :: "string \<Rightarrow> 8 word list"
  oe_urlencode :: "string \<Rightarrow> string"
  oe_parse_uuid :: "string \<Rightarrow> uuid option"

abbreviation sha256_hex :: "oauth_env \<Rightarrow> string \<Rightarrow> string" where
  "sha256_hex env \<equiv> \<lambda>s. hex_of_bytes (oe_digest env s)"

record oauth_state =
  os_consents :: "consent_row list"
  os_codes :: "oauth_code_row list"
  os_tokens :: "mcp_token_row list"

section \<open>PKCE\<close>

definition pkce_verifier_matches :: "oauth_env \<Rightarrow> string \<Rightarrow> string \<Rightarrow> bool" where
  "pkce_verifier_matches env code_verifier code_challenge \<longleftrightarrow>
     base64url_nopad (oe_digest env code_verifier) = code_challenge"

section \<open>Metadata and pages\<close>

definition base_url :: "string \<Rightarrow> string" where
  "base_url public_base_url = trim_end_matches CHR ''/'' public_base_url"

datatype json = Js_str string | Js_list "json list" | Js_bool bool | Js_obj "(string \<times> json) list"

definition protected_resource_body :: "string \<Rightarrow> json" where
  "protected_resource_body base =
     Js_obj [(''resource'', Js_str base), (''authorization_servers'', Js_list [Js_str base])]"

definition authorization_server_body :: "string \<Rightarrow> json" where
  "authorization_server_body base =
     Js_obj [(''issuer'', Js_str base),
       (''authorization_endpoint'', Js_str (base @ ''/oauth/authorize'')),
       (''token_endpoint'', Js_str (base @ ''/oauth/token'')),
       (''response_types_supported'', Js_list [Js_str ''code'']),
       (''grant_types_supported'', Js_list [Js_str ''authorization_code'']),
       (''code_challenge_methods_supported'', Js_list [Js_str ''S256'']),
       (''token_endpoint_auth_methods_supported'', Js_list [Js_str ''none'']),
       (''client_id_metadata_document_supported'', Js_bool True)]"

text \<open>The escaping closure of the consent page: four replacements, the ampersand first.\<close>

definition consent_esc :: "string \<Rightarrow> string" where
  "consent_esc s =
     replace_char CHR 0x22 ''&quot;'' (replace_char CHR ''>'' ''&gt;''
       (replace_char CHR ''<'' ''&lt;'' (replace_char CHR ''&'' ''&amp;'' s)))"

definition nl :: string where
  "nl = [CHR 0x0A]"

definition dq :: string where
  "dq = [CHR 0x22]"

definition consent_page_html :: "uuid \<Rightarrow> client_metadata \<Rightarrow> string \<Rightarrow> string" where
  "consent_page_html consent_id doc redirect_uri =
     (let nm = consent_esc (case cm_client_name doc of None \<Rightarrow> ''(unnamed client)'' | Some n \<Rightarrow> n);
          cid = consent_esc (cm_client_id doc);
          ruri = consent_esc redirect_uri
      in ''<!doctype html><html><head><meta charset='' @ dq @ ''utf-8'' @ dq @ ''><title>Authorize MCP client ''
         @ [CHR 0xE2, CHR 0x80, CHR 0x94] @ '' Akashic Record</title></head>'' @ nl
         @ ''<body style='' @ dq @ ''font-family:system-ui;max-width:32rem;margin:4rem auto;padding:0 1rem'' @ dq @ ''>'' @ nl
         @ ''<h1>Authorize MCP client?</h1>'' @ nl
         @ ''<p><strong>'' @ nm @ ''</strong></p>'' @ nl
         @ ''<p>Client ID: <code>'' @ cid @ ''</code></p>'' @ nl
         @ ''<p>Redirects to: <code>'' @ ruri @ ''</code></p>'' @ nl
         @ ''<p>This grants the client a 90-day MCP access token for your account.</p>'' @ nl
         @ ''<form method='' @ dq @ ''post'' @ dq @ '' action='' @ dq @ ''/oauth/authorize/consent'' @ dq @ ''>'' @ nl
         @ ''<input type='' @ dq @ ''hidden'' @ dq @ '' name='' @ dq @ ''consent_id'' @ dq @ '' value='' @ dq
         @ uuid_to_string consent_id @ dq @ ''>'' @ nl
         @ ''<button type='' @ dq @ ''submit'' @ dq @ '' name='' @ dq @ ''decision'' @ dq @ '' value='' @ dq @ ''approve'' @ dq
         @ ''>Approve</button>'' @ nl
         @ ''<button type='' @ dq @ ''submit'' @ dq @ '' name='' @ dq @ ''decision'' @ dq @ '' value='' @ dq @ ''deny'' @ dq
         @ ''>Deny</button>'' @ nl @ ''</form></body></html>'')"

fun html_escape :: "string \<Rightarrow> string" where
  "html_escape [] = []"
| "html_escape (c # cs) =
     (if c = CHR ''&'' then ''&amp;'' else if c = CHR ''<'' then ''&lt;'' else if c = CHR ''>'' then ''&gt;''
      else if c = CHR 0x22 then ''&quot;'' else if c = CHR 0x27 then ''&#x27;'' else [c]) @ html_escape cs"

section \<open>Authorize, consent and token exchange\<close>

record authorize_query =
  aq_response_type :: string
  aq_client_id :: string
  aq_redirect_uri :: string
  aq_state :: string
  aq_code_challenge :: string
  aq_code_challenge_method :: string

definition redirect_with_error :: "oauth_env \<Rightarrow> string \<Rightarrow> string \<Rightarrow> string \<Rightarrow> http_response" where
  "redirect_with_error env redirect_uri err st =
     Redirect_to (redirect_uri @ (if CHR ''?'' \<in> set redirect_uri then ''&'' else ''?'') @ ''error='' @ err
       @ ''&state='' @ oe_urlencode env st)"

definition redirect_with_code :: "oauth_env \<Rightarrow> string \<Rightarrow> string \<Rightarrow> string \<Rightarrow> http_response" where
  "redirect_with_code env redirect_uri code st =
     Redirect_to (redirect_uri @ (if CHR ''?'' \<in> set redirect_uri then ''&'' else ''?'') @ ''code='' @ code
       @ ''&state='' @ oe_urlencode env st)"

text \<open>The third component lists the client ids whose metadata document was fetched.\<close>

definition authorize ::
  "oauth_env \<Rightarrow> (string \<Rightarrow> cimd_error + client_metadata) \<Rightarrow> string \<Rightarrow> string \<Rightarrow> string option \<Rightarrow> authorize_query
   \<Rightarrow> session_user option \<Rightarrow> bool \<Rightarrow> instant \<Rightarrow> uuid \<Rightarrow> oauth_state \<Rightarrow> http_response \<times> oauth_state \<times> string list" where
  "authorize env fetch public_base_url path query q session up now fresh st =
     (if aq_response_type q \<noteq> ''code''
      then (Json_error_desc 400 ''unsupported_response_type'' (''response_type must be '' @ dq @ ''code'' @ dq), st, [])
      else if aq_code_challenge_method q \<noteq> ''S256''
      then (Json_error_desc 400 ''invalid_request'' (''code_challenge_method must be '' @ dq @ ''S256'' @ dq), st, [])
      else if aq_code_challenge q = []
      then (Json_error_desc 400 ''invalid_request'' ''code_challenge is required'', st, [])
      else case session of
        None \<Rightarrow>
          (let nxt = (case query of Some qs \<Rightarrow> path @ ''?'' @ qs | None \<Rightarrow> path) in
           (Redirect_to (base_url public_base_url @ ''/auth/web/login?next='' @ oe_urlencode env nxt), st, []))
      | Some su \<Rightarrow>
          (case fetch (aq_client_id q) of
             Inl e \<Rightarrow> (Json_error_desc 400 ''invalid_client''
                         ''client_id metadata document could not be fetched or validated'', st, [aq_client_id q])
           | Inr doc \<Rightarrow>
               if aq_redirect_uri q \<notin> set (cm_redirect_uris doc)
               then (Json_error_desc 400 ''invalid_client''
                       (''redirect_uri is not one of the client'' @ [CHR 0x27] @ ''s registered redirect_uris''), st, [aq_client_id q])
               else
                 (case issue_pending up now fresh (su_user_id su) (su_user_login su)
                         \<lparr>pi_client_id = aq_client_id q, pi_client_name = cm_client_name doc,
                          pi_redirect_uri = aq_redirect_uri q, pi_oauth_state = aq_state q,
                          pi_code_challenge = aq_code_challenge q\<rparr> (os_consents st) of
                    (Inr consent_id, t) \<Rightarrow>
                      (Html (consent_page_html consent_id doc (aq_redirect_uri q)), st\<lparr>os_consents := t\<rparr>, [aq_client_id q])
                  | (Inl e, t) \<Rightarrow>
                      (redirect_with_error env (aq_redirect_uri q) ''server_error'' (aq_state q),
                       st\<lparr>os_consents := t\<rparr>, [aq_client_id q]))))"

definition consent ::
  "oauth_env \<Rightarrow> session_user option \<Rightarrow> string \<Rightarrow> string \<Rightarrow> bool \<Rightarrow> bool \<Rightarrow> instant \<Rightarrow> uuid \<Rightarrow> uuid \<Rightarrow> oauth_state
   \<Rightarrow> http_response \<times> oauth_state" where
  "consent env session consent_id_str decision up wr now u1 u2 st =
     (case session of
        None \<Rightarrow> (Json_error 401 ''unauthorized'', st)
      | Some su \<Rightarrow>
          (case oe_parse_uuid env consent_id_str of
             None \<Rightarrow> (Json_error_desc 400 ''invalid_request'' ''unknown consent_id'', st)
           | Some consent_id \<Rightarrow>
               (case redeem_pending up now consent_id (su_user_id su) (os_consents st) of
                  (Inl e, t) \<Rightarrow> (Json_error 500 ''server_error'', st\<lparr>os_consents := t\<rparr>)
                | (Inr None, t) \<Rightarrow>
                    (Json_error_desc 400 ''invalid_request''
                       ''consent_id is unknown, expired, already used, or does not belong to this session'',
                     st\<lparr>os_consents := t\<rparr>)
                | (Inr (Some row), t) \<Rightarrow>
                    if decision \<noteq> ''approve''
                    then (redirect_with_error env (pc_redirect_uri row) ''access_denied'' (pc_oauth_state row),
                          st\<lparr>os_consents := t\<rparr>)
                    else
                      (case issue_code (sha256_hex env) wr now u1 u2 (pc_client_id row) (pc_user_id row)
                              (pc_user_login row) (pc_code_challenge row) (pc_redirect_uri row) (os_codes st) of
                         (Inr code, cs) \<Rightarrow>
                           (redirect_with_code env (pc_redirect_uri row) code (pc_oauth_state row),
                            st\<lparr>os_consents := t, os_codes := cs\<rparr>)
                       | (Inl e, cs) \<Rightarrow>
                           (redirect_with_error env (pc_redirect_uri row) ''server_error'' (pc_oauth_state row),
                            st\<lparr>os_consents := t, os_codes := cs\<rparr>)))))"

record token_request =
  tr_grant_type :: string
  tr_code :: string
  tr_redirect_uri :: string
  tr_client_id :: string
  tr_code_verifier :: string

definition token_exchange ::
  "oauth_env \<Rightarrow> token_request \<Rightarrow> bool \<Rightarrow> bool \<Rightarrow> instant \<Rightarrow> uuid \<Rightarrow> uuid \<Rightarrow> oauth_state \<Rightarrow> http_response \<times> oauth_state" where
  "token_exchange env req up wr now fresh row_id st =
     (if tr_grant_type req \<noteq> ''authorization_code'' then (Json_error 400 ''unsupported_grant_type'', st)
      else case consume_code (sha256_hex env) up now (tr_code req) (os_codes st) of
        (Inl e, cs) \<Rightarrow> (Json_error 500 ''server_error'', st\<lparr>os_codes := cs\<rparr>)
      | (Inr None, cs) \<Rightarrow> (Json_error 400 ''invalid_grant'', st\<lparr>os_codes := cs\<rparr>)
      | (Inr (Some consumed), cs) \<Rightarrow>
          let st1 = st\<lparr>os_codes := cs\<rparr> in
          if cc_client_id consumed \<noteq> tr_client_id req \<or> cc_redirect_uri consumed \<noteq> tr_redirect_uri req
          then (Json_error 400 ''invalid_grant'', st1)
          else if \<not> pkce_verifier_matches env (tr_code_verifier req) (cc_code_challenge consumed)
          then (Json_error 400 ''invalid_grant'', st1)
          else
            (case issue_mcp_token (sha256_hex env) wr now fresh row_id (cc_user_id consumed)
                    (cc_user_login consumed) (Some ''oauth'') (os_tokens st1) of
               (Inr (i, plaintext), ts) \<Rightarrow> (Bearer_json plaintext 7776000, st1\<lparr>os_tokens := ts\<rparr>)
             | (Inl e, ts) \<Rightarrow> (Json_error 500 ''server_error'', st1\<lparr>os_tokens := ts\<rparr>)))"

section \<open>The device endpoints\<close>

definition device_page_html :: "string \<Rightarrow> string" where
  "device_page_html user_code =
     (let prefilled = html_escape user_code in
      ''<!doctype html>'' @ nl
      @ ''<html><head><meta charset='' @ dq @ ''utf-8'' @ dq @ ''><title>Authorize Akashic MCP</title>'' @ nl
      @ ''<style>body{font-family:system-ui;max-width:480px;margin:4rem auto;padding:1rem}'' @ nl
      @ ''input{font-size:1.5rem;padding:.5rem;width:100%;font-family:monospace;text-align:center;letter-spacing:.2em}'' @ nl
      @ ''button{font-size:1rem;padding:.5rem 1.5rem;margin-top:1rem}'' @ nl
      @ ''form{margin-top:1rem}</style></head>'' @ nl
      @ ''<body><h1>Authorize Akashic MCP</h1>'' @ nl
      @ ''<p>Enter the code shown in your client (e.g. <code>ABCD-1234</code>):</p>'' @ nl
      @ ''<form method='' @ dq @ ''post'' @ dq @ '' action='' @ dq @ ''/device/verify'' @ dq @ ''>'' @ nl
      @ ''  <input name='' @ dq @ ''user_code'' @ dq @ '' value='' @ dq @ prefilled @ dq
      @ '' autofocus required pattern='' @ dq @ ''[A-Z2-9]{4}-[A-Z2-9]{4}'' @ dq @ '' />'' @ nl
      @ ''  <button type='' @ dq @ ''submit'' @ dq @ ''>Continue</button>'' @ nl
      @ ''</form>'' @ nl
      @ ''<p><small>You will be asked to log in via GitLab if you haven'' @ [CHR 0x27] @ ''t already.</small></p>'' @ nl
      @ ''</body></html>'')"

definition verify_page_html :: "string \<Rightarrow> string \<Rightarrow> string" where
  "verify_page_html user_code user_login =
     (let safe_code = html_escape user_code; safe_login = html_escape user_login in
      ''<!doctype html><body style='' @ dq @ ''font-family:system-ui;max-width:480px;margin:4rem auto;padding:1rem'' @ dq @ ''>'' @ nl
      @ ''<h1>Confirm authorization</h1>'' @ nl
      @ ''<p>Code <code>'' @ safe_code @ ''</code> will authorize a new MCP token for <strong>'' @ safe_login @ ''</strong>.</p>'' @ nl
      @ ''<form method='' @ dq @ ''post'' @ dq @ '' action='' @ dq @ ''/device/approve'' @ dq @ ''>'' @ nl
      @ ''<input type='' @ dq @ ''hidden'' @ dq @ '' name='' @ dq @ ''user_code'' @ dq @ '' value='' @ dq @ safe_code @ dq @ '' />'' @ nl
      @ ''<button type='' @ dq @ ''submit'' @ dq @ '' style='' @ dq @ ''font-size:1rem;padding:.5rem 1.5rem'' @ dq @ ''>Authorize</button>'' @ nl
      @ ''</form></body>'')"

datatype browser_reply = Session_expired | Confirm_page string | Code_rejected | Approved_page | Approval_failed

definition http_device_verify ::
  "bool \<Rightarrow> instant \<Rightarrow> session_user option \<Rightarrow> string \<Rightarrow> device_row list \<Rightarrow> browser_reply \<times> device_row list" where
  "http_device_verify up now session code t =
     (let user_code = to_ascii_uppercase (trim code) in
      case session of
        None \<Rightarrow> (Session_expired, t)
      | Some su \<Rightarrow>
          (case device_verify up now user_code (su_user_id su) (su_user_login su) t of
             (Inr True, t') \<Rightarrow> (Confirm_page (verify_page_html user_code (su_user_login su)), t')
           | (_, t') \<Rightarrow> (Code_rejected, t')))"

definition http_device_approve ::
  "bool \<Rightarrow> instant \<Rightarrow> session_user option \<Rightarrow> string \<Rightarrow> device_row list \<Rightarrow> browser_reply \<times> device_row list" where
  "http_device_approve up now session code t =
     (let user_code = to_ascii_uppercase (trim code) in
      case session of
        None \<Rightarrow> (Session_expired, t)
      | Some su \<Rightarrow>
          (case device_approve up now user_code (su_user_id su) t of
             (Inr True, t') \<Rightarrow> (Approved_page, t')
           | (_, t') \<Rightarrow> (Approval_failed, t')))"

definition http_device_authorization ::
  "string \<Rightarrow> string \<Rightarrow> (bool \<times> instant \<times> 8 word list \<times> nat list) list \<Rightarrow> device_row list
   \<Rightarrow> (http_response + device_authorization_json) \<times> device_row list" where
  "http_device_authorization public_base_url client_id draws t =
     (case device_authorization public_base_url client_id draws t of
        (Inr j, t') \<Rightarrow> (Inr j, t')
      | (Inl (Bad_request m), t') \<Rightarrow> (Inl (Json_error 400 ''invalid_client''), t')
      | (Inl e, t') \<Rightarrow> (Inl (Json_error 503 ''server_error''), t'))"

definition device_code_grant :: string where
  "device_code_grant = ''urn:ietf:params:oauth:grant-type:device_code''"

definition token_error_response :: "string \<Rightarrow> http_response" where
  "token_error_response err_code =
     Json_error (if err_code \<in> {''unsupported_grant_type'', ''invalid_grant'', ''expired_token'', ''access_denied'',
                                ''slow_down'', ''authorization_pending''} then 400 else 500)
       (if err_code \<in> {''invalid_grant'', ''expired_token'', ''access_denied'', ''slow_down'', ''authorization_pending''}
        then err_code else ''server_error'')"

definition http_device_token ::
  "(string \<Rightarrow> string) \<Rightarrow> device_env \<Rightarrow> instant \<Rightarrow> instant \<Rightarrow> string \<Rightarrow> string \<Rightarrow> device_row list \<times> mcp_token_row list
   \<Rightarrow> http_response \<times> device_row list \<times> mcp_token_row list" where
  "http_device_token sha256 env now app_now grant_type device_code db =
     (if grant_type \<noteq> device_code_grant then (Json_error 400 ''unsupported_grant_type'', db)
      else case device_token sha256 env now app_now device_code db of
             (Error_reply e, db') \<Rightarrow> (token_error_response e, db')
           | (Bearer_reply tok ttl, db') \<Rightarrow> (Bearer_json tok ttl, db'))"

text \<open>The dispatcher of \<open>/oauth/token\<close>: the body is decoded as a form or as JSON (\<open>None\<close> when it does not
  decode), according to the content type only.\<close>

datatype token_route = Auth_code_grant token_request | Device_grant string string | Bad_body

definition oauth_token_dispatch ::
  "string option \<Rightarrow> token_request option \<Rightarrow> (string \<times> string) option \<Rightarrow> token_route" where
  "oauth_token_dispatch content_type as_form as_json =
     (if (case content_type of None \<Rightarrow> False | Some ct \<Rightarrow> starts_with ''application/x-www-form-urlencoded'' ct)
      then (case as_form of Some f \<Rightarrow> Auth_code_grant f | None \<Rightarrow> Bad_body)
      else (case as_json of Some (grant_type, device_code) \<Rightarrow> Device_grant grant_type device_code | None \<Rightarrow> Bad_body))"

section \<open>Escaping\<close>

definition markup :: "char \<Rightarrow> bool" where
  "markup c \<longleftrightarrow> c \<in> {CHR ''<'', CHR ''>'', CHR 0x22}"

lemma replace_char_Cons: "replace_char c r (x # xs) = (if x = c then r else [x]) @ replace_char c r xs"
  by (simp add: replace_char_def)

lemma replace_char_append: "replace_char c r (s @ t) = replace_char c r s @ replace_char c r t"
  by (simp add: replace_char_def)

lemma replace_char_Nil [simp]: "replace_char c r [] = []"
  by (simp add: replace_char_def)

text \<open>The four replacements in sequence escape each character once: the ampersands they introduce are not
  escaped again.\<close>

definition esc_once :: "char \<Rightarrow> string" where
  "esc_once c = (if c = CHR ''&'' then ''&amp;'' else if c = CHR ''<'' then ''&lt;''
                 else if c = CHR ''>'' then ''&gt;'' else if c = CHR 0x22 then ''&quot;'' else [c])"

lemma consent_esc_once: "consent_esc s = concat (map esc_once s)"
proof (induction s)
  case (Cons c s)
  then show ?case by (simp add: consent_esc_def replace_char_Cons replace_char_append esc_once_def)
qed (simp add: consent_esc_def)

lemma filter_markup_consent_esc [simp]: "filter markup (consent_esc s) = []"
  unfolding consent_esc_once by (induction s) (auto simp: esc_once_def markup_def)

lemma filter_markup_html_escape [simp]: "filter markup (html_escape s) = []"
  by (induction s) (auto simp: markup_def)

lemma uuid_to_string_chars: "c \<in> set (uuid_to_string u) \<Longrightarrow> is_ascii_hexdigit c \<or> c = CHR ''-''"
  using uuid_digits_hexdigit by (auto simp: uuid_to_string_def Let_def dest: in_set_takeD in_set_dropD)

lemma filter_markup_uuid [simp]: "filter markup (uuid_to_string u) = []"
  unfolding filter_empty_conv using uuid_to_string_chars
  by (fastforce simp: markup_def is_ascii_hexdigit_def)

text \<open>No markup injection: the tag and attribute delimiters of the consent page, of the device page and of
  the confirmation page are those of the templates, whatever the client document, the redirect URI, the
  user code and the login contain.\<close>

theorem pages_markup_constant:
  "filter markup (consent_page_html i doc uri) = filter markup (consent_page_html i' doc' uri')
   \<and> filter markup (device_page_html c) = filter markup (device_page_html c')
   \<and> filter markup (verify_page_html c l) = filter markup (verify_page_html c' l')"
  unfolding consent_page_html_def device_page_html_def verify_page_html_def Let_def
  by (intro conjI; simp only: filter_append filter_markup_consent_esc filter_markup_html_escape filter_markup_uuid)

lemma html_escape_Nil_iff: "html_escape s = [] \<longleftrightarrow> s = []"
  by (cases s) auto

text \<open>The HTML escaper loses nothing: different texts have different escaped forms.\<close>

theorem html_escape_injective: "html_escape s = html_escape t \<longleftrightarrow> s = t"
proof
  show "html_escape s = html_escape t \<Longrightarrow> s = t"
  proof (induction s arbitrary: t)
    case Nil
    then show ?case by (metis html_escape.simps(1) html_escape_Nil_iff)
  next
    case (Cons c s)
    then obtain d t' where t: "t = d # t'" by (cases t) (auto split: if_splits)
    with Cons.prems have "c = d \<and> html_escape s = html_escape t'"
      by (auto split: if_splits)
    with Cons.IH t show ?case by simp
  qed
qed simp

section \<open>PKCE\<close>

text \<open>A verifier matches the challenge derived from another verifier exactly when their digests are
  equal: the encoding neither merges nor separates digests.\<close>

theorem pkce_binds_verifier:
  "pkce_verifier_matches env v (base64url_nopad (oe_digest env w)) \<longleftrightarrow> oe_digest env v = oe_digest env w"
  unfolding pkce_verifier_matches_def by (metis base64url_roundtrip)

section \<open>The order of the authorize checks\<close>

text \<open>The metadata document is fetched only for a well-formed request with a session, so an anonymous
  caller cannot drive outbound requests; the only redirects are to the login page, before any fetch, and to
  a redirect URI the fetched document registers; and a pending consent is created only for such a URI.\<close>

theorem authorize_checks_ordered:
  assumes "authorize env fetch base path query q session up now fresh st = (resp, st', fetched)"
  shows "(fetched \<noteq> [] \<longrightarrow> session \<noteq> None \<and> aq_response_type q = ''code''
            \<and> aq_code_challenge_method q = ''S256'' \<and> aq_code_challenge q \<noteq> [])
     \<and> (\<forall>l. resp = Redirect_to l \<longrightarrow>
          (session = None \<and> fetched = [] \<and> (\<exists>x. l = base_url base @ ''/auth/web/login?next='' @ oe_urlencode env x))
          \<or> (\<exists>doc rest. fetch (aq_client_id q) = Inr doc \<and> aq_redirect_uri q \<in> set (cm_redirect_uris doc)
               \<and> l = aq_redirect_uri q @ rest))
     \<and> (st' \<noteq> st \<longrightarrow> (\<exists>doc. fetch (aq_client_id q) = Inr doc \<and> aq_redirect_uri q \<in> set (cm_redirect_uris doc)))"
  using assms
  by (auto simp: authorize_def redirect_with_error_def Let_def split: if_splits option.splits sum.splits prod.splits)

definition demo_oauth_env :: oauth_env where
  "demo_oauth_env = \<lparr>oe_digest = (\<lambda>s. map (\<lambda>c. of_char c) s), oe_urlencode = (\<lambda>s. s), oe_parse_uuid = (\<lambda>_. Some 1)\<rparr>"

definition demo_query :: authorize_query where
  "demo_query = \<lparr>aq_response_type = ''code'', aq_client_id = ''https://c'', aq_redirect_uri = ''https://c/cb'',
     aq_state = ''s'', aq_code_challenge = ''YQ'', aq_code_challenge_method = ''S256''\<rparr>"

definition demo_doc :: client_metadata where
  "demo_doc = \<lparr>cm_client_id = ''https://c'', cm_redirect_uris = [''https://c/cb''], cm_client_name = None, cm_logo_uri = None\<rparr>"

theorem authorize_checks_ordered_witness:
  "\<exists>resp st'. authorize demo_oauth_env (\<lambda>_. Inr demo_doc) ''b'' ''p'' None demo_query
       (Some \<lparr>su_user_id = 7, su_user_login = ''ann''\<rparr>) True 0 1 \<lparr>os_consents = [], os_codes = [], os_tokens = []\<rparr>
       = (resp, st', [''https://c'']) \<and> aq_code_challenge demo_query \<noteq> []"
proof -
  obtain resp st' where a: "authorize demo_oauth_env (\<lambda>_. Inr demo_doc) ''b'' ''p'' None demo_query
       (Some \<lparr>su_user_id = 7, su_user_login = ''ann''\<rparr>) True 0 1 \<lparr>os_consents = [], os_codes = [], os_tokens = []\<rparr>
       = (resp, st', [''https://c''])"
    by (simp add: authorize_def demo_query_def demo_doc_def issue_pending_def)
  from authorize_checks_ordered [OF a] a show ?thesis by auto
qed

section \<open>The flow as a transition system\<close>

text \<open>
  \<open>sy_registered\<close> collects the redirect URIs of the documents fetched so far, \<open>sy_approved\<close> what users
  approved on the consent page (user, client, redirect URI, challenge), and \<open>sy_minted\<close> the bearers handed
  out with the token request they answered.
\<close>

record oauth_sys =
  sy_state :: oauth_state
  sy_registered :: "(string \<times> string) set"
  sy_approved :: "(int \<times> string \<times> string \<times> string) set"
  sy_minted :: "(string \<times> token_request) list"

definition oauth_init :: oauth_sys where
  "oauth_init = \<lparr>sy_state = \<lparr>os_consents = [], os_codes = [], os_tokens = []\<rparr>,
                 sy_registered = {}, sy_approved = {}, sy_minted = []\<rparr>"

definition registered_by :: "(string \<Rightarrow> cimd_error + client_metadata) \<Rightarrow> string list \<Rightarrow> (string \<times> string) set" where
  "registered_by fetch fetched =
     {(c, u). c \<in> set fetched \<and> (case fetch c of Inl e \<Rightarrow> False | Inr doc \<Rightarrow> u \<in> set (cm_redirect_uris doc))}"

definition approvals_of ::
  "oauth_env \<Rightarrow> session_user option \<Rightarrow> string \<Rightarrow> string \<Rightarrow> bool \<Rightarrow> instant \<Rightarrow> oauth_state
   \<Rightarrow> (int \<times> string \<times> string \<times> string) set" where
  "approvals_of env session cid decision up now st =
     {(su_user_id su, pc_client_id row, pc_redirect_uri row, pc_code_challenge row) | su i row.
        session = Some su \<and> decision = ''approve'' \<and> oe_parse_uuid env cid = Some i
        \<and> fst (redeem_pending up now i (su_user_id su) (os_consents st)) = Inr (Some row)}"

inductive oauth_step :: "oauth_env \<Rightarrow> oauth_sys \<Rightarrow> oauth_sys \<Rightarrow> bool" for env :: oauth_env where
  authorize: "authorize env fetch base path query q session up now fresh (sy_state s) = (resp, st', fetched) \<Longrightarrow>
     oauth_step env s (s\<lparr>sy_state := st', sy_registered := sy_registered s \<union> registered_by fetch fetched\<rparr>)"
| consent: "consent env session cid decision up wr now u1 u2 (sy_state s) = (resp, st') \<Longrightarrow>
     oauth_step env s (s\<lparr>sy_state := st',
       sy_approved := sy_approved s \<union> approvals_of env session cid decision up now (sy_state s)\<rparr>)"
| exchange: "token_exchange env req up wr now fresh row_id (sy_state s) = (resp, st') \<Longrightarrow>
     oauth_step env s (s\<lparr>sy_state := st',
       sy_minted := sy_minted s @ (case resp of Bearer_json p ttl \<Rightarrow> [(p, req)] | _ \<Rightarrow> [])\<rparr>)"
| other: "oauth_step env s
     (s\<lparr>sy_state := (sy_state s)\<lparr>os_tokens := mcp_exec (sha256_hex env) op (os_tokens (sy_state s))\<rparr>\<rparr>)"

inductive oauth_reachable :: "oauth_env \<Rightarrow> oauth_sys \<Rightarrow> bool" for env :: oauth_env where
  start: "oauth_reachable env oauth_init"
| step: "oauth_reachable env s \<Longrightarrow> oauth_step env s s' \<Longrightarrow> oauth_reachable env s'"

definition consents_registered :: "(string \<times> string) set \<Rightarrow> consent_row list \<Rightarrow> bool" where
  "consents_registered R t \<longleftrightarrow> (\<forall>r \<in> set t. (cn_client_id r, cn_redirect_uri r) \<in> R)"

definition codes_approved :: "(int \<times> string \<times> string \<times> string) set \<Rightarrow> oauth_code_row list \<Rightarrow> bool" where
  "codes_approved A t \<longleftrightarrow> (\<forall>r \<in> set t. (oc_user_id r, oc_client_id r, oc_redirect_uri r, oc_code_challenge r) \<in> A)"

text \<open>A minted bearer is the stored token of a user who approved the client, redirect URI and challenge of
  the request, and its code is spent.\<close>

definition minted_ok :: "oauth_env \<Rightarrow> oauth_sys \<Rightarrow> string \<times> token_request \<Rightarrow> bool" where
  "minted_ok env s m \<longleftrightarrow> (case m of (p, req) \<Rightarrow>
     (\<exists>uid ch tid. (uid, tr_client_id req, tr_redirect_uri req, ch) \<in> sy_approved s
        \<and> pkce_verifier_matches env (tr_code_verifier req) ch
        \<and> token_of (sha256_hex env) tid p uid (os_tokens (sy_state s)))
     \<and> code_spent (sha256_hex env) (tr_code req) (os_codes (sy_state s)))"

definition oauth_inv :: "oauth_env \<Rightarrow> oauth_sys \<Rightarrow> bool" where
  "oauth_inv env s \<longleftrightarrow>
     consents_registered (sy_registered s) (os_consents (sy_state s))
     \<and> (\<forall>(u, c, r, ch) \<in> sy_approved s. (c, r) \<in> sy_registered s)
     \<and> codes_approved (sy_approved s) (os_codes (sy_state s))
     \<and> distinct (map oc_code_hash (os_codes (sy_state s)))
     \<and> (\<forall>m \<in> set (sy_minted s). minted_ok env s m)
     \<and> distinct (map (\<lambda>(p, req). sha256_hex env (tr_code req)) (sy_minted s))"

lemma minted_ok_mono:
  assumes "minted_ok env s m" and "sy_approved s \<subseteq> sy_approved s'"
    and "\<And>tid p uid. token_of (sha256_hex env) tid p uid (os_tokens (sy_state s)) \<Longrightarrow>
           token_of (sha256_hex env) tid p uid (os_tokens (sy_state s'))"
    and "\<And>c. code_spent (sha256_hex env) c (os_codes (sy_state s)) \<Longrightarrow>
           code_spent (sha256_hex env) c (os_codes (sy_state s'))"
  shows "minted_ok env s' m"
  using assms unfolding minted_ok_def by (cases m) (auto, blast)

lemma authorize_effect:
  assumes "authorize env fetch base path query q session up now fresh st = (resp, st', fetched)"
    and "consents_registered R (os_consents st)"
  shows "os_codes st' = os_codes st" and "os_tokens st' = os_tokens st"
    and "consents_registered (R \<union> registered_by fetch fetched) (os_consents st')"
  using assms
  by (auto simp: authorize_def issue_pending_def consents_registered_def registered_by_def Let_def
      split: if_splits option.splits sum.splits prod.splits)

lemma redeem_row:
  assumes "redeem_pending up now i uid t = (Inr (Some row), t')"
  shows "pc_user_id row = uid" and "consents_registered R t \<Longrightarrow> (pc_client_id row, pc_redirect_uri row) \<in> R"
  using assms
  by (auto simp: redeem_pending_def Let_def consent_redeemable_def consents_registered_def
      split: if_splits dest!: fetch_optional_Some)

lemma consents_registered_update:
  "consents_registered R t \<Longrightarrow> consents_registered R (update_where p (\<lambda>r. r\<lparr>cn_used_at := x\<rparr>) t)"
  unfolding consents_registered_def by (rule update_where_all) simp_all

lemma redeem_registered:
  assumes "consents_registered R t"
  shows "consents_registered R (snd (redeem_pending up now i uid t))"
  using assms by (simp add: redeem_pending_def Let_def consents_registered_update)

lemma consume_via_contract:
  "consume_code sha256 up now p t = (r, t') \<Longrightarrow>
     t' = snd (code_consume sha256 (up, now) p t) \<and>
     fst (code_consume sha256 (up, now) p t) = Option.bind (db_ok r) id"
  by (auto simp: code_consume_def)

lemma consume_row:
  assumes "consume_code sha256 up now p t = (Inr (Some c), t')"
  shows "\<exists>r \<in> set t. cc_user_id c = oc_user_id r \<and> cc_client_id c = oc_client_id r
     \<and> cc_redirect_uri c = oc_redirect_uri r \<and> cc_code_challenge c = oc_code_challenge r"
  using assms by (auto simp: consume_code_def Let_def split: if_splits dest!: fetch_optional_Some)

lemma codes_approved_update:
  "codes_approved A t \<Longrightarrow> codes_approved A (update_where p (\<lambda>r. r\<lparr>oc_used_at := x\<rparr>) t)"
  unfolding codes_approved_def by (rule update_where_all) simp_all

lemma codes_approved_consume:
  assumes "codes_approved A t"
  shows "codes_approved A (snd (consume_code sha256 up now p t))"
  using assms by (simp add: consume_code_def Let_def codes_approved_update)

lemma codes_approved_issue:
  assumes "codes_approved A t"
  shows "codes_approved (insert (uid, cid, ru, ch) A) (snd (issue_code sha256 up now u1 u2 cid uid ulogin ch ru t))"
  using assms by (auto simp: codes_approved_def issue_code_def Let_def)

lemma issue_code_contract:
  assumes "distinct (map oc_code_hash t)"
  shows "distinct (map oc_code_hash (snd (issue_code sha256 up now u1 u2 cid uid ulogin ch ru t)))"
    and "code_spent sha256 c t \<Longrightarrow> code_spent sha256 c (snd (issue_code sha256 up now u1 u2 cid uid ulogin ch ru t))"
  using code.inv_exec [OF assms, of sha256 "Code_issue up now u1 u2 cid uid ulogin ch ru"]
    code.spent_exec [OF assms, of sha256 c "Code_issue up now u1 u2 cid uid ulogin ch ru"] by simp_all

lemma oauth_inv_update:
  assumes inv: "oauth_inv env s"
    and reg: "consents_registered (sy_registered s') (os_consents (sy_state s'))"
    and app: "\<forall>(u, c, r, ch) \<in> sy_approved s'. (c, r) \<in> sy_registered s'"
    and codes: "codes_approved (sy_approved s') (os_codes (sy_state s'))"
      "distinct (map oc_code_hash (os_codes (sy_state s')))"
    and mono: "sy_approved s \<subseteq> sy_approved s'"
      "\<And>tid p uid. token_of (sha256_hex env) tid p uid (os_tokens (sy_state s)) \<Longrightarrow>
           token_of (sha256_hex env) tid p uid (os_tokens (sy_state s'))"
      "\<And>c. code_spent (sha256_hex env) c (os_codes (sy_state s)) \<Longrightarrow>
           code_spent (sha256_hex env) c (os_codes (sy_state s'))"
    and new: "sy_minted s' = sy_minted s @ new" "length new \<le> 1"
      "\<forall>(p, req) \<in> set new. minted_ok env s' (p, req)
         \<and> \<not> code_spent (sha256_hex env) (tr_code req) (os_codes (sy_state s))"
  shows "oauth_inv env s'"
proof -
  have old: "minted_ok env s m" if "m \<in> set (sy_minted s)" for m
    using inv that by (simp add: oauth_inv_def)
  have "sha256_hex env (tr_code req) \<noteq> sha256_hex env (tr_code req')"
    if "(p, req) \<in> set new" "(p', req') \<in> set (sy_minted s)" for p req p' req'
    using that new(3) old [OF that(2)] by (auto simp: minted_ok_def code_spent_def)
  then have "distinct (map (\<lambda>(p, req). sha256_hex env (tr_code req)) (sy_minted s'))"
    using inv new(2) unfolding oauth_inv_def new(1) by (cases new) (force+)
  moreover have "\<forall>m \<in> set (sy_minted s'). minted_ok env s' m"
    using new(3) minted_ok_mono [OF old mono] unfolding new(1) by auto
  ultimately show ?thesis using reg app codes by (simp add: oauth_inv_def)
qed

lemma consent_effect:
  assumes "consent env session cid decision up wr now u1 u2 st = (resp, st')"
    and "consents_registered R (os_consents st)" and "distinct (map oc_code_hash (os_codes st))"
    and "codes_approved A (os_codes st)"
  shows "os_tokens st' = os_tokens st" and "consents_registered R (os_consents st')"
    and "distinct (map oc_code_hash (os_codes st'))"
    and "code_spent (sha256_hex env) c (os_codes st) \<Longrightarrow> code_spent (sha256_hex env) c (os_codes st')"
    and "codes_approved (A \<union> approvals_of env session cid decision up now st) (os_codes st')"
proof -
  let ?A = "approvals_of env session cid decision up now st"
  consider (same) "os_codes st' = os_codes st"
    | (issued) su i row where "session = Some su" "oe_parse_uuid env cid = Some i" "decision = ''approve''"
        "fst (redeem_pending up now i (su_user_id su) (os_consents st)) = Inr (Some row)"
        "os_codes st' = snd (issue_code (sha256_hex env) wr now u1 u2 (pc_client_id row) (pc_user_id row)
            (pc_user_login row) (pc_code_challenge row) (pc_redirect_uri row) (os_codes st))"
    using assms(1)
    by (auto simp: consent_def split: if_splits option.splits sum.splits prod.splits)
  note codes = this
  have "consents_registered R (snd (redeem_pending up now i u (os_consents st)))" for i u
    by (rule redeem_registered [OF assms(2)])
  then show "os_tokens st' = os_tokens st" and "consents_registered R (os_consents st')"
    using assms(1,2)
    by (auto simp: consent_def split: if_splits option.splits sum.splits prod.splits) (metis snd_conv)+
  show "distinct (map oc_code_hash (os_codes st'))"
    using codes by cases (use assms(3) issue_code_contract(1) in auto)
  show "code_spent (sha256_hex env) c (os_codes st) \<Longrightarrow> code_spent (sha256_hex env) c (os_codes st')"
    using codes by cases (use assms(3) issue_code_contract(2) in auto)
  show "codes_approved (A \<union> ?A) (os_codes st')"
    using codes
  proof cases
    case same
    then show ?thesis using assms(4) by (auto simp: codes_approved_def)
  next
    case issued
    then obtain t' where "redeem_pending up now i (su_user_id su) (os_consents st) = (Inr (Some row), t')"
      by (metis prod.collapse)
    then have "pc_user_id row = su_user_id su" by (rule redeem_row)
    with issued have "(pc_user_id row, pc_client_id row, pc_redirect_uri row, pc_code_challenge row) \<in> ?A"
      by (auto simp: approvals_of_def)
    then show ?thesis
      using codes_approved_issue [OF assms(4), of "pc_user_id row" "pc_client_id row" "pc_redirect_uri row"
          "pc_code_challenge row" "sha256_hex env" wr now u1 u2 "pc_user_login row"] issued(5)
      by (auto simp: codes_approved_def)
  qed
qed

lemma approvals_registered:
  assumes "consents_registered R (os_consents st)"
  shows "\<forall>(u, c, r, ch) \<in> approvals_of env session cid decision up now st. (c, r) \<in> R"
  using assms by (auto simp: approvals_of_def) (metis prod.collapse redeem_row(2))

lemma exchange_effect:
  assumes "token_exchange env req up wr now fresh row_id st = (resp, st')"
    and "distinct (map oc_code_hash (os_codes st))" and "codes_approved A (os_codes st)"
  shows "os_consents st' = os_consents st" and "distinct (map oc_code_hash (os_codes st'))"
    and "codes_approved A (os_codes st')"
    and "code_spent (sha256_hex env) c (os_codes st) \<Longrightarrow> code_spent (sha256_hex env) c (os_codes st')"
    and "token_of (sha256_hex env) tid p uid (os_tokens st) \<Longrightarrow> token_of (sha256_hex env) tid p uid (os_tokens st')"
proof -
  have codes: "os_codes st' = os_codes st \<or> os_codes st' = snd (consume_code (sha256_hex env) up now (tr_code req) (os_codes st))"
    using assms(1)
    by (auto simp: token_exchange_def Let_def split: if_splits option.splits sum.splits prod.splits)
  have consume: "snd (consume_code (sha256_hex env) up now (tr_code req) (os_codes st))
      = snd (code_consume (sha256_hex env) (up, now) (tr_code req) (os_codes st))"
    by (metis consume_via_contract prod.collapse)
  show "os_consents st' = os_consents st"
    using assms(1) by (auto simp: token_exchange_def Let_def split: if_splits option.splits sum.splits prod.splits)
  show "distinct (map oc_code_hash (os_codes st'))"
    using codes assms(2) code.inv_consume [OF assms(2), of "sha256_hex env" "(up, now)" "tr_code req"] consume by auto
  show "codes_approved A (os_codes st')"
    using codes assms(3) codes_approved_consume by auto
  show "code_spent (sha256_hex env) c (os_codes st) \<Longrightarrow> code_spent (sha256_hex env) c (os_codes st')"
    using codes code.spent_consume [OF assms(2), of "sha256_hex env" c "(up, now)" "tr_code req"] consume by auto
  have toks: "os_tokens st' = os_tokens st
     \<or> (\<exists>u l. os_tokens st' = snd (issue_mcp_token (sha256_hex env) wr now fresh row_id u l (Some ''oauth'') (os_tokens st)))"
    using assms(1)
    by (auto simp: token_exchange_def Let_def split: if_splits option.splits sum.splits prod.splits) (metis snd_conv)+
  show "token_of (sha256_hex env) tid p uid (os_tokens st) \<Longrightarrow> token_of (sha256_hex env) tid p uid (os_tokens st')"
    using toks token_of_exec [of "sha256_hex env" tid p uid "os_tokens st"
        "Mcp_issue wr now fresh row_id u l (Some ''oauth'')" for u l] by auto
qed

lemma exchange_bearer:
  assumes "token_exchange env req up wr now fresh row_id st = (Bearer_json b ttl, st')"
    and "distinct (map oc_code_hash (os_codes st))" and "codes_approved A (os_codes st)"
  shows "\<exists>uid ch tid. (uid, tr_client_id req, tr_redirect_uri req, ch) \<in> A
      \<and> pkce_verifier_matches env (tr_code_verifier req) ch
      \<and> token_of (sha256_hex env) tid b uid (os_tokens st')"
    and "code_spent (sha256_hex env) (tr_code req) (os_codes st')"
    and "\<not> code_spent (sha256_hex env) (tr_code req) (os_codes st)"
proof -
  obtain cc cs tid ts where
    cc: "consume_code (sha256_hex env) up now (tr_code req) (os_codes st) = (Inr (Some cc), cs)"
    and chk: "cc_client_id cc = tr_client_id req" "cc_redirect_uri cc = tr_redirect_uri req"
      "pkce_verifier_matches env (tr_code_verifier req) (cc_code_challenge cc)"
    and iss: "issue_mcp_token (sha256_hex env) wr now fresh row_id (cc_user_id cc) (cc_user_login cc)
        (Some ''oauth'') (os_tokens st) = (Inr (tid, b), ts)"
    and st': "os_codes st' = cs" "os_tokens st' = ts"
    using assms(1) by (auto simp: token_exchange_def Let_def split: if_splits option.splits sum.splits prod.splits)
  have "(cc_user_id cc, cc_client_id cc, cc_redirect_uri cc, cc_code_challenge cc) \<in> A"
    using consume_row [OF cc] assms(3) by (auto simp: codes_approved_def)
  then show "\<exists>uid ch tid. (uid, tr_client_id req, tr_redirect_uri req, ch) \<in> A
      \<and> pkce_verifier_matches env (tr_code_verifier req) ch
      \<and> token_of (sha256_hex env) tid b uid (os_tokens st')"
    using chk token_of_issue [OF iss] st' by auto
  have hit: "fst (code_consume (sha256_hex env) (up, now) (tr_code req) (os_codes st)) = Some cc"
    and cs: "cs = snd (code_consume (sha256_hex env) (up, now) (tr_code req) (os_codes st))"
    using consume_via_contract [OF cc] by simp_all
  show "code_spent (sha256_hex env) (tr_code req) (os_codes st')"
    using code.consume_spends [OF assms(2) hit refl] cs st' by simp
  show "\<not> code_spent (sha256_hex env) (tr_code req) (os_codes st)"
    using code.spent_refused [OF assms(2)] hit by fastforce
qed

lemma oauth_step_inv:
  assumes "oauth_step env s s'" and "oauth_inv env s"
  shows "oauth_inv env s'"
proof -
  from assms(2) have reg: "consents_registered (sy_registered s) (os_consents (sy_state s))"
    and app: "\<forall>(u, c, r, ch) \<in> sy_approved s. (c, r) \<in> sy_registered s"
    and codes: "codes_approved (sy_approved s) (os_codes (sy_state s))"
    and dist: "distinct (map oc_code_hash (os_codes (sy_state s)))" by (simp_all add: oauth_inv_def)
  from assms(1) show ?thesis
  proof cases
    case (authorize fetch base path query q session up now fresh resp st' fetched)
    note eff = authorize_effect [OF authorize(2) reg]
    show ?thesis
      by (rule oauth_inv_update [OF assms(2), where new = "[]"])
         (use app codes dist eff in \<open>auto simp: authorize(1)\<close>)
  next
    case (consent session cid decision up wr now u1 u2 resp st')
    note eff = consent_effect [OF consent(2) reg dist codes]
      and new = approvals_registered [OF reg, of env session cid decision up now]
    show ?thesis
      by (rule oauth_inv_update [OF assms(2), where new = "[]"])
         (use app new in \<open>auto simp: consent(1) eff\<close>)
  next
    case (exchange req up wr now fresh row_id resp st')
    note eff = exchange_effect [OF exchange(2) dist codes]
    note bearer = exchange_bearer [OF _ dist codes, of env req up wr now fresh row_id]
    show ?thesis
      by (rule oauth_inv_update [OF assms(2),
            where new = "case resp of Bearer_json p ttl \<Rightarrow> [(p, req)] | _ \<Rightarrow> []"])
         (use reg app bearer exchange(2) in
           \<open>auto simp: exchange(1) eff minted_ok_def split: http_response.splits\<close>)
  next
    case (other op)
    show ?thesis
      by (rule oauth_inv_update [OF assms(2), where new = "[]"])
         (use reg app codes dist in \<open>auto simp: other(1) token_of_exec simp del: mcp_exec.simps\<close>)
  qed
qed

lemma oauth_reachable_inv: "oauth_reachable env s \<Longrightarrow> oauth_inv env s"
proof (induction rule: oauth_reachable.induct)
  case start
  show ?case by (simp add: oauth_init_def oauth_inv_def consents_registered_def codes_approved_def)
next
  case (step s s')
  then show ?case by (blast intro: oauth_step_inv)
qed

section \<open>Who gets a bearer\<close>

text \<open>C9. Over every interleaving of requests, a bearer handed out by the token endpoint is the stored token of a
  user who approved, on the consent page, exactly the client and redirect URI of the token request, which a fetched
  document of that client registered, and a challenge that the request's verifier matches; and no two bearers were
  given for codes with the same hash.\<close>

theorem oauth_bearer_only_for_approver:
  assumes "oauth_reachable env s"
  shows "(\<forall>(p, req) \<in> set (sy_minted s). \<exists>uid ch tid.
            (uid, tr_client_id req, tr_redirect_uri req, ch) \<in> sy_approved s
          \<and> (tr_client_id req, tr_redirect_uri req) \<in> sy_registered s
          \<and> pkce_verifier_matches env (tr_code_verifier req) ch
          \<and> token_of (sha256_hex env) tid p uid (os_tokens (sy_state s)))
     \<and> distinct (map (\<lambda>(p, req). sha256_hex env (tr_code req)) (sy_minted s))"
  using oauth_reachable_inv [OF assms] unfolding oauth_inv_def minted_ok_def by fastforce

definition demo_user :: "session_user option" where
  "demo_user = Some \<lparr>su_user_id = 7, su_user_login = ''ann''\<rparr>"

definition demo_st1 :: oauth_state where
  "demo_st1 = fst (snd (authorize demo_oauth_env (\<lambda>_. Inr demo_doc) ''b'' ''p'' None demo_query demo_user True 0 1
     (sy_state oauth_init)))"

definition demo_st2 :: oauth_state where
  "demo_st2 = snd (consent demo_oauth_env demo_user ''1'' ''approve'' True True 1 2 3 demo_st1)"

definition demo_req :: token_request where
  "demo_req = \<lparr>tr_grant_type = ''authorization_code'', tr_code = oauth_code_plaintext 2 3,
     tr_redirect_uri = ''https://c/cb'', tr_client_id = ''https://c'', tr_code_verifier = ''a''\<rparr>"


lemma demo_st1_eq:
  "demo_st1 = \<lparr>os_consents = [\<lparr>cn_consent_id = 1, cn_user_id = 7, cn_user_login = ''ann'', cn_client_id = ''https://c'',
     cn_client_name = None, cn_redirect_uri = ''https://c/cb'', cn_oauth_state = ''s'', cn_code_challenge = ''YQ'',
     cn_expires_at = seconds 600, cn_used_at = None\<rparr>], os_codes = [], os_tokens = []\<rparr>"
  by (simp add: demo_st1_def authorize_def demo_query_def demo_doc_def demo_user_def issue_pending_def oauth_init_def)

lemma demo_st2_codes:
  "os_codes demo_st2 = [\<lparr>oc_code_hash = sha256_hex demo_oauth_env (oauth_code_plaintext 2 3), oc_client_id = ''https://c'',
     oc_user_id = 7, oc_user_login = ''ann'', oc_code_challenge = ''YQ'', oc_redirect_uri = ''https://c/cb'',
     oc_expires_at = 1 + seconds 600, oc_used_at = None\<rparr>]" "os_tokens demo_st2 = []"
  by (simp_all add: demo_st2_def demo_st1_eq consent_def demo_user_def demo_oauth_env_def redeem_pending_def
      consent_redeemable_def fetch_optional_def seconds_def issue_code_def Let_def)

lemma demo_pkce: "pkce_verifier_matches demo_oauth_env ''a'' ''YQ''"
  unfolding pkce_verifier_matches_def by code_simp

lemma demo_exchange:
  "\<exists>p ttl. fst (token_exchange demo_oauth_env demo_req True True 2 4 5 demo_st2) = Bearer_json p ttl"
  by (simp add: token_exchange_def demo_req_def consume_code_def demo_st2_codes code_redeemable_def fetch_optional_def
      seconds_def demo_pkce issue_mcp_token_def Let_def)

theorem oauth_bearer_only_for_approver_witness:
  "\<exists>s p. oauth_reachable demo_oauth_env s \<and> (p, demo_req) \<in> set (sy_minted s)
     \<and> (\<exists>uid ch. (uid, ''https://c'', ''https://c/cb'', ch) \<in> sy_approved s)"
proof -
  obtain s1 where s1: "oauth_reachable demo_oauth_env s1" "sy_state s1 = demo_st1"
  proof -
    obtain r f where "authorize demo_oauth_env (\<lambda>_. Inr demo_doc) ''b'' ''p'' None demo_query demo_user True 0 1
        (sy_state oauth_init) = (r, demo_st1, f)"
      unfolding demo_st1_def by (metis prod.collapse)
    from oauth_step.authorize [OF this] show ?thesis
      using that oauth_reachable.start oauth_reachable.step by fastforce
  qed
  obtain s2 where s2: "oauth_reachable demo_oauth_env s2" "sy_state s2 = demo_st2"
  proof -
    obtain r where "consent demo_oauth_env demo_user ''1'' ''approve'' True True 1 2 3 (sy_state s1) = (r, demo_st2)"
      unfolding demo_st2_def s1(2) by (metis prod.collapse)
    from oauth_step.consent [OF this] show ?thesis
      using that s1(1) oauth_reachable.step by fastforce
  qed
  obtain p ttl st3 where "token_exchange demo_oauth_env demo_req True True 2 4 5 (sy_state s2) = (Bearer_json p ttl, st3)"
    using demo_exchange s2(2) by (metis prod.collapse)
  from oauth_step.exchange [OF this] obtain s3 where s3: "oauth_reachable demo_oauth_env s3" "(p, demo_req) \<in> set (sy_minted s3)"
    using s2(1) oauth_reachable.step by fastforce
  with oauth_bearer_only_for_approver [OF s3(1)] show ?thesis by (fastforce simp: demo_req_def)
qed

end
