(* ===== verification/Snapshot.thy ===== *)
theory Snapshot
  imports Prelude
begin

text \<open>
  The commit of an ingestion run: the snapshot repository of PostgreSQL
  (\<open>akashic-store-pg/src/repos/snapshot.rs\<close>) and the commit gate of the pipeline
  (\<open>akashic-ingestion/src/ingestion/snapshot_commit.rs\<close>), which writes PostgreSQL first and then replays the
  graph into Neo4j.

  A table is the list of its rows paired with their \<open>repo_name\<close>; the primary keys, the unique constraint and
  the foreign keys of \<open>schema.rs\<close> are the checks of the statements. A transaction is a list of statements with
  the number of round trips the connection survives, so every failure point is covered, and with the three
  outcomes of \<open>COMMIT\<close>. Neo4j is the sequence of port calls it receives. Embedding components, graph edges and
  flows are opaque (type variables).
\<close>

section \<open>Rows\<close>

record 'f module_snapshot_row =
  mo_id :: uuid
  mo_path :: string
  mo_language :: "string option"
  mo_summary :: "string option"
  mo_exports_count :: "int option"
  mo_file_count :: "int option"
  mo_is_virtual :: bool
  mo_embedding :: "'f list option"
  mo_git_ref :: "string option"
  mo_ingested_at :: "instant option"

record 'f chunk_snapshot_row =
  ch_id :: uuid
  ch_module_path :: string
  ch_chunk_type :: string
  ch_name :: string
  ch_signature :: "string option"
  ch_content :: string
  ch_language :: "string option"
  ch_embedding :: "'f list"
  ch_signature_embedding :: "'f list option"
  ch_git_ref :: "string option"
  ch_fqn :: "string option"
  ch_parent_fqn :: "string option"
  ch_start_line :: "int option"
  ch_end_line :: "int option"
  ch_visibility :: "string option"
  ch_is_async :: bool
  ch_is_static :: bool
  ch_is_exported :: bool
  ch_doc :: "string option"
  ch_ingested_at :: "instant option"

record 'f large_chunk_snapshot_row =
  lc_id :: uuid
  lc_module_path :: string
  lc_chunk_ids :: "uuid list"
  lc_content :: string
  lc_embedding :: "'f list"
  lc_git_ref :: "string option"
  lc_ingested_at :: "instant option"

record 'f community_snapshot_row =
  co_id :: uuid
  co_level :: int
  co_name :: "string option"
  co_summary :: "string option"
  co_member_count :: "int option"
  co_embedding :: "'f list option"
  co_parent_id :: "uuid option"
  co_created_at :: "instant option"

record community_member_snapshot_row =
  cm_community_id :: uuid
  cm_chunk_id :: "uuid option"
  cm_module_id :: "uuid option"

record 'f pg_repo_snapshot =
  sn_modules :: "'f module_snapshot_row list"
  sn_chunks :: "'f chunk_snapshot_row list"
  sn_large_chunks :: "'f large_chunk_snapshot_row list"
  sn_communities :: "'f community_snapshot_row list"
  sn_community_members :: "community_member_snapshot_row list"

record 'f pg_tables =
  tb_modules :: "(string \<times> 'f module_snapshot_row) list"
  tb_chunks :: "(string \<times> 'f chunk_snapshot_row) list"
  tb_large_chunks :: "(string \<times> 'f large_chunk_snapshot_row) list"
  tb_communities :: "(string \<times> 'f community_snapshot_row) list"
  tb_community_members :: "community_member_snapshot_row list"
  tb_dims :: nat

abbreviation module_ids :: "'f pg_tables \<Rightarrow> uuid list" where
  "module_ids d \<equiv> map (\<lambda>r. mo_id (snd r)) (tb_modules d)"

abbreviation chunk_ids :: "'f pg_tables \<Rightarrow> uuid list" where
  "chunk_ids d \<equiv> map (\<lambda>r. ch_id (snd r)) (tb_chunks d)"

abbreviation large_chunk_ids :: "'f pg_tables \<Rightarrow> uuid list" where
  "large_chunk_ids d \<equiv> map (\<lambda>r. lc_id (snd r)) (tb_large_chunks d)"

abbreviation community_ids :: "'f pg_tables \<Rightarrow> uuid list" where
  "community_ids d \<equiv> map (\<lambda>r. co_id (snd r)) (tb_communities d)"

section \<open>Transactions\<close>

type_synonym 'd stmt = "'d \<Rightarrow> 'd db"

definition guarded :: "('d \<Rightarrow> sql_error option) \<Rightarrow> ('d \<Rightarrow> 'd) \<Rightarrow> 'd stmt" where
  "guarded chk f d = (case chk d of Some e \<Rightarrow> Inl e | None \<Rightarrow> Inr (f d))"

fun run_stmts :: "nat \<Rightarrow> 'd stmt list \<Rightarrow> 'd \<Rightarrow> 'd db" where
  "run_stmts n [] d = Inr d"
| "run_stmts 0 (s # ss) d = Inl Db_unavailable"
| "run_stmts (Suc n) (s # ss) d = (case s d of Inl e \<Rightarrow> Inl e | Inr d' \<Rightarrow> run_stmts n ss d')"

datatype commit_outcome =
    Commit_ok       \<comment> \<open>durable and acknowledged\<close>
  | Commit_failed   \<comment> \<open>rolled back, error reported\<close>
  | Commit_lost     \<comment> \<open>durable, but the acknowledgement was lost\<close>

definition in_tx :: "nat \<Rightarrow> commit_outcome \<Rightarrow> 'd stmt list \<Rightarrow> 'd \<Rightarrow> unit db \<times> 'd" where
  "in_tx n commit ss d =
     (case n of
        0 \<Rightarrow> (Inl Db_unavailable, d)
      | Suc k \<Rightarrow>
          (case run_stmts k ss d of
             Inl e \<Rightarrow> (Inl e, d)
           | Inr d' \<Rightarrow> (case commit of Commit_ok \<Rightarrow> (Inr (), d') | Commit_failed \<Rightarrow> (Inl Db_unavailable, d)
                       | Commit_lost \<Rightarrow> (Inl Db_unavailable, d'))))"

section \<open>Statements\<close>

text \<open>The embedding columns have the type \<open>vector(dims)\<close>: a vector of another length is refused.\<close>

definition vectors_ok :: "nat \<Rightarrow> 'f list option list \<Rightarrow> bool" where
  "vectors_ok dims vs \<longleftrightarrow> list_all (\<lambda>v. case v of None \<Rightarrow> True | Some xs \<Rightarrow> length xs = dims) vs"

definition insert_module :: "string \<Rightarrow> 'f module_snapshot_row \<Rightarrow> 'f pg_tables stmt" where
  "insert_module repo m = guarded
     (\<lambda>d. if \<not> vectors_ok (tb_dims d) [mo_embedding m] then Some Wrong_dimensions else if mo_id m \<in> set (module_ids d) \<or> (repo, mo_path m) \<in> set (map (\<lambda>r. (fst r, mo_path (snd r))) (tb_modules d))
          then Some Unique_violation else None)
     (\<lambda>d. d\<lparr>tb_modules := tb_modules d @ [(repo, m)]\<rparr>)"

definition insert_chunk :: "string \<Rightarrow> 'f chunk_snapshot_row \<Rightarrow> 'f pg_tables stmt" where
  "insert_chunk repo c = guarded (\<lambda>d. if \<not> vectors_ok (tb_dims d) [Some (ch_embedding c), ch_signature_embedding c] then Some Wrong_dimensions else if ch_id c \<in> set (chunk_ids d) then Some Unique_violation else None)
     (\<lambda>d. d\<lparr>tb_chunks := tb_chunks d @ [(repo, c)]\<rparr>)"

definition insert_large_chunk :: "string \<Rightarrow> 'f large_chunk_snapshot_row \<Rightarrow> 'f pg_tables stmt" where
  "insert_large_chunk repo lc = guarded
     (\<lambda>d. if \<not> vectors_ok (tb_dims d) [Some (lc_embedding lc)] then Some Wrong_dimensions else if lc_id lc \<in> set (large_chunk_ids d) then Some Unique_violation else None)
     (\<lambda>d. d\<lparr>tb_large_chunks := tb_large_chunks d @ [(repo, lc)]\<rparr>)"

text \<open>The \<open>INSERT\<close> of a community does not name \<open>parent_id\<close>, so the column is \<open>NULL\<close> until the backfill.\<close>

definition insert_community :: "string \<Rightarrow> 'f community_snapshot_row \<Rightarrow> 'f pg_tables stmt" where
  "insert_community repo c = guarded
     (\<lambda>d. if \<not> vectors_ok (tb_dims d) [co_embedding c] then Some Wrong_dimensions else if co_id c \<in> set (community_ids d) then Some Unique_violation else None)
     (\<lambda>d. d\<lparr>tb_communities := tb_communities d @ [(repo, c\<lparr>co_parent_id := None\<rparr>)]\<rparr>)"

definition set_parent ::
  "uuid \<Rightarrow> uuid \<Rightarrow> (string \<times> 'f community_snapshot_row) list \<Rightarrow> (string \<times> 'f community_snapshot_row) list" where
  "set_parent parent i = map (\<lambda>(r, c). (r, if co_id c = i then c\<lparr>co_parent_id := Some parent\<rparr> else c))"

definition backfill_parent :: "uuid \<Rightarrow> uuid \<Rightarrow> 'f pg_tables stmt" where
  "backfill_parent parent i = guarded
     (\<lambda>d. if i \<in> set (community_ids d) \<and> parent \<notin> set (community_ids d) then Some Foreign_key_violation else None)
     (\<lambda>d. d\<lparr>tb_communities := set_parent parent i (tb_communities d)\<rparr>)"

definition references :: "uuid list \<Rightarrow> uuid option \<Rightarrow> bool" where
  "references ids r \<longleftrightarrow> (case r of None \<Rightarrow> True | Some i \<Rightarrow> i \<in> set ids)"

definition insert_community_member :: "community_member_snapshot_row \<Rightarrow> 'f pg_tables stmt" where
  "insert_community_member cm = guarded
     (\<lambda>d. if cm_community_id cm \<in> set (community_ids d) \<and> references (chunk_ids d) (cm_chunk_id cm)
            \<and> references (module_ids d) (cm_module_id cm) then None else Some Foreign_key_violation)
     (\<lambda>d. d\<lparr>tb_community_members := tb_community_members d @ [cm]\<rparr>)"

definition insert_all :: "string \<Rightarrow> 'f pg_repo_snapshot \<Rightarrow> 'f pg_tables stmt list" where
  "insert_all repo s =
     map (insert_module repo) (sn_modules s)
     @ map (insert_chunk repo) (sn_chunks s)
     @ map (insert_large_chunk repo) (sn_large_chunks s)
     @ map (insert_community repo) (sn_communities s)
     @ concat (map (\<lambda>c. case co_parent_id c of None \<Rightarrow> [] | Some p \<Rightarrow> [backfill_parent p (co_id c)]) (sn_communities s))
     @ map insert_community_member (sn_community_members s)"

text \<open>Deleting communities cascades to their members; a community of another repository whose parent is deleted
  blocks the statement, as does a member row that refers to a deleted chunk or module.\<close>

definition delete_members_of_repo :: "string \<Rightarrow> 'f pg_tables stmt" where
  "delete_members_of_repo repo d =
     Inr (d\<lparr>tb_community_members := delete_where
       (\<lambda>m. cm_community_id m \<in> set (map (\<lambda>r. co_id (snd r)) (filter (\<lambda>r. fst r = repo) (tb_communities d))))
       (tb_community_members d)\<rparr>)"

definition delete_communities_of_repo :: "string \<Rightarrow> 'f pg_tables stmt" where
  "delete_communities_of_repo repo = guarded
     (\<lambda>d. let kept = filter (\<lambda>r. fst r \<noteq> repo) (tb_communities d) in
          if list_all (\<lambda>r. references (map (\<lambda>r. co_id (snd r)) kept) (co_parent_id (snd r))) kept
          then None else Some Foreign_key_violation)
     (\<lambda>d. let kept = filter (\<lambda>r. fst r \<noteq> repo) (tb_communities d) in
          d\<lparr>tb_communities := kept,
            tb_community_members := filter (\<lambda>m. cm_community_id m \<in> set (map (\<lambda>r. co_id (snd r)) kept))
              (tb_community_members d)\<rparr>)"

definition delete_chunks_of_repo :: "string \<Rightarrow> 'f pg_tables stmt" where
  "delete_chunks_of_repo repo = guarded
     (\<lambda>d. let kept = filter (\<lambda>r. fst r \<noteq> repo) (tb_chunks d) in
          if list_all (\<lambda>m. references (map (\<lambda>r. ch_id (snd r)) kept) (cm_chunk_id m)) (tb_community_members d)
          then None else Some Foreign_key_violation)
     (\<lambda>d. d\<lparr>tb_chunks := filter (\<lambda>r. fst r \<noteq> repo) (tb_chunks d)\<rparr>)"

definition delete_large_chunks_of_repo :: "string \<Rightarrow> 'f pg_tables stmt" where
  "delete_large_chunks_of_repo repo d =
     Inr (d\<lparr>tb_large_chunks := filter (\<lambda>r. fst r \<noteq> repo) (tb_large_chunks d)\<rparr>)"

definition delete_modules_where :: "(string \<times> 'f module_snapshot_row \<Rightarrow> bool) \<Rightarrow> 'f pg_tables stmt" where
  "delete_modules_where p = guarded
     (\<lambda>d. let kept = filter (\<lambda>r. \<not> p r) (tb_modules d) in
          if list_all (\<lambda>m. references (map (\<lambda>r. mo_id (snd r)) kept) (cm_module_id m)) (tb_community_members d)
          then None else Some Foreign_key_violation)
     (\<lambda>d. d\<lparr>tb_modules := filter (\<lambda>r. \<not> p r) (tb_modules d)\<rparr>)"

definition wipe_repo :: "string \<Rightarrow> 'f pg_tables stmt list" where
  "wipe_repo repo =
     [delete_members_of_repo repo, delete_communities_of_repo repo, delete_chunks_of_repo repo,
      delete_large_chunks_of_repo repo, delete_modules_where (\<lambda>r. fst r = repo)]"

section \<open>The repository\<close>

definition import_repo_snapshot ::
  "nat \<Rightarrow> commit_outcome \<Rightarrow> string \<Rightarrow> 'f pg_repo_snapshot \<Rightarrow> 'f pg_tables \<Rightarrow> unit db \<times> 'f pg_tables" where
  "import_repo_snapshot n commit repo s = in_tx n commit (insert_all repo s)"

definition import_repo_snapshot_replacing ::
  "nat \<Rightarrow> commit_outcome \<Rightarrow> string \<Rightarrow> 'f pg_repo_snapshot \<Rightarrow> 'f pg_tables \<Rightarrow> unit db \<times> 'f pg_tables" where
  "import_repo_snapshot_replacing n commit repo s = in_tx n commit (wipe_repo repo @ insert_all repo s)"

definition rows_of :: "string \<Rightarrow> (string \<times> 'r) list \<Rightarrow> 'r list" where
  "rows_of repo t = map snd (filter (\<lambda>r. fst r = repo) t)"

definition export_repo_snapshot :: "nat \<Rightarrow> string \<Rightarrow> 'f pg_tables \<Rightarrow> 'f pg_repo_snapshot db" where
  "export_repo_snapshot n repo d =
     (if n < 5 then Inl Db_unavailable
      else Inr \<lparr>sn_modules = rows_of repo (tb_modules d), sn_chunks = rows_of repo (tb_chunks d),
                sn_large_chunks = rows_of repo (tb_large_chunks d), sn_communities = rows_of repo (tb_communities d),
                sn_community_members = filter (\<lambda>m. cm_community_id m \<in> set (map co_id (rows_of repo (tb_communities d))))
                  (tb_community_members d)\<rparr>)"

section \<open>Running statements\<close>

lemma run_stmts_append:
  "run_stmts n (xs @ ys) d =
     (case run_stmts n xs d of Inl e \<Rightarrow> Inl e | Inr d' \<Rightarrow> run_stmts (n - length xs) ys d')"
proof (induction n xs d rule: run_stmts.induct)
  case (3 n s ss d)
  then show ?case by (auto split: sum.splits)
qed auto

lemma run_stmts_append_Inr:
  "run_stmts n (xs @ ys) d = Inr d2 \<longleftrightarrow>
     (\<exists>d1. run_stmts n xs d = Inr d1 \<and> run_stmts (n - length xs) ys d1 = Inr d2)"
  by (simp add: run_stmts_append split: sum.splits)

text \<open>A run of guarded statements succeeds exactly when the connection survives it and each check passes in its
  turn; its result is then the fold of the updates.\<close>

fun checks_pass :: "('x \<Rightarrow> 'd \<Rightarrow> sql_error option) \<Rightarrow> ('x \<Rightarrow> 'd \<Rightarrow> 'd) \<Rightarrow> 'x list \<Rightarrow> 'd \<Rightarrow> bool" where
  "checks_pass chk upd [] d = True"
| "checks_pass chk upd (x # xs) d = (chk x d = None \<and> checks_pass chk upd xs (upd x d))"

lemma run_guarded:
  "run_stmts n (map (\<lambda>x. guarded (chk x) (upd x)) xs) d = Inr d' \<longleftrightarrow>
     length xs \<le> n \<and> checks_pass chk upd xs d \<and> d' = fold upd xs d"
proof (induction xs arbitrary: n d)
  case (Cons x xs)
  then show ?case by (cases n) (auto simp: guarded_def split: option.splits)
qed auto

lemma guarded_Inr: "guarded chk f d = Inr d' \<longleftrightarrow> chk d = None \<and> d' = f d"
  by (auto simp: guarded_def split: option.splits)

lemma run_Cons:
  "run_stmts n (s # ss) d = Inr d2 \<longleftrightarrow> (\<exists>k d1. n = Suc k \<and> s d = Inr d1 \<and> run_stmts k ss d1 = Inr d2)"
  by (cases n) (auto split: sum.splits)

lemma insert_module_Inr:
  "insert_module repo m d = Inr d' \<longleftrightarrow>
     vectors_ok (tb_dims d) [mo_embedding m] \<and> mo_id m \<notin> set (module_ids d) \<and> mo_path m \<notin> set (map mo_path (rows_of repo (tb_modules d)))
     \<and> d' = d\<lparr>tb_modules := tb_modules d @ [(repo, m)]\<rparr>"
  by (force simp: insert_module_def guarded_Inr rows_of_def split: if_splits)

lemma rows_of_append [simp]: "rows_of repo (xs @ ys) = rows_of repo xs @ rows_of repo ys"
  by (simp add: rows_of_def)

lemma rows_of_Pair [simp]: "rows_of repo (map (Pair r) xs) = (if r = repo then xs else [])"
  by (induction xs) (auto simp: rows_of_def)

lemma rows_of_single [simp]: "rows_of repo [(r, x)] = (if r = repo then [x] else [])"
  by (simp add: rows_of_def)

lemma run_modules:
  "run_stmts n (map (insert_module repo) ms) d = Inr d' \<longleftrightarrow>
     length ms \<le> n \<and> d' = d\<lparr>tb_modules := tb_modules d @ map (Pair repo) ms\<rparr>
     \<and> distinct (map mo_id ms) \<and> set (map mo_id ms) \<inter> set (module_ids d) = {}
     \<and> distinct (map mo_path ms) \<and> set (map mo_path ms) \<inter> set (map mo_path (rows_of repo (tb_modules d))) = {}
     \<and> (\<forall>m \<in> set ms. vectors_ok (tb_dims d) [mo_embedding m])"
proof (induction ms arbitrary: n d)
  case (Cons m ms)
  show ?case unfolding list.map run_Cons insert_module_Inr Cons.IH by (cases n) auto
qed auto

lemma run_chunks:
  "run_stmts n (map (insert_chunk repo) cs) d = Inr d' \<longleftrightarrow>
     length cs \<le> n \<and> d' = d\<lparr>tb_chunks := tb_chunks d @ map (Pair repo) cs\<rparr>
     \<and> distinct (map ch_id cs) \<and> set (map ch_id cs) \<inter> set (chunk_ids d) = {}
     \<and> (\<forall>c \<in> set cs. vectors_ok (tb_dims d) [Some (ch_embedding c), ch_signature_embedding c])"
proof (induction cs arbitrary: n d)
  case (Cons c cs)
  then show ?case by (cases n) (auto simp: insert_chunk_def guarded_def split: option.splits)
qed auto

lemma run_large_chunks:
  "run_stmts n (map (insert_large_chunk repo) cs) d = Inr d' \<longleftrightarrow>
     length cs \<le> n \<and> d' = d\<lparr>tb_large_chunks := tb_large_chunks d @ map (Pair repo) cs\<rparr>
     \<and> distinct (map lc_id cs) \<and> set (map lc_id cs) \<inter> set (large_chunk_ids d) = {}
     \<and> (\<forall>c \<in> set cs. vectors_ok (tb_dims d) [Some (lc_embedding c)])"
proof (induction cs arbitrary: n d)
  case (Cons c cs)
  then show ?case by (cases n) (auto simp: insert_large_chunk_def guarded_def split: option.splits)
qed auto

lemma run_communities:
  "run_stmts n (map (insert_community repo) cs) d = Inr d' \<longleftrightarrow>
     length cs \<le> n
     \<and> d' = d\<lparr>tb_communities := tb_communities d @ map (\<lambda>c. (repo, c\<lparr>co_parent_id := None\<rparr>)) cs\<rparr>
     \<and> distinct (map co_id cs) \<and> set (map co_id cs) \<inter> set (community_ids d) = {}
     \<and> (\<forall>c \<in> set cs. vectors_ok (tb_dims d) [co_embedding c])"
proof (induction cs arbitrary: n d)
  case (Cons c cs)
  then show ?case by (cases n) (auto simp: insert_community_def guarded_def split: option.splits)
qed auto

lemma insert_community_member_Inr:
  "insert_community_member m d = Inr d' \<longleftrightarrow>
     cm_community_id m \<in> set (community_ids d) \<and> references (chunk_ids d) (cm_chunk_id m)
     \<and> references (module_ids d) (cm_module_id m)
     \<and> d' = d\<lparr>tb_community_members := tb_community_members d @ [m]\<rparr>"
  by (auto simp: insert_community_member_def guarded_Inr split: if_splits)

lemma run_members:
  "run_stmts n (map insert_community_member ms) d = Inr d' \<longleftrightarrow>
     length ms \<le> n \<and> d' = d\<lparr>tb_community_members := tb_community_members d @ ms\<rparr>
     \<and> (\<forall>m \<in> set ms. cm_community_id m \<in> set (community_ids d) \<and> references (chunk_ids d) (cm_chunk_id m)
          \<and> references (module_ids d) (cm_module_id m))"
proof (induction ms arbitrary: n d)
  case (Cons m ms)
  show ?case unfolding list.map run_Cons insert_community_member_Inr Cons.IH by (cases n) auto
qed auto

text \<open>The backfill as one pass: \<open>restore\<close> is what it does to one row.\<close>

abbreviation backfills :: "'f community_snapshot_row list \<Rightarrow> 'f pg_tables stmt list" where
  "backfills cs \<equiv>
     concat (map (\<lambda>c. case co_parent_id c of None \<Rightarrow> [] | Some p \<Rightarrow> [backfill_parent p (co_id c)]) cs)"

fun restore :: "'f community_snapshot_row list \<Rightarrow> 'f community_snapshot_row \<Rightarrow> 'f community_snapshot_row" where
  "restore [] c = c"
| "restore (x # xs) c = restore xs
     (if co_id c = co_id x \<and> co_parent_id x \<noteq> None then c\<lparr>co_parent_id := co_parent_id x\<rparr> else c)"

lemma co_id_restore [simp]: "co_id (restore cs c) = co_id c"
  by (induction cs arbitrary: c) auto

lemma restore_other: "co_id c \<notin> co_id ` set cs \<Longrightarrow> restore cs c = c"
  by (induction cs) auto

lemma restore_own:
  "distinct (map co_id cs) \<Longrightarrow> c \<in> set cs \<Longrightarrow> restore cs (c\<lparr>co_parent_id := None\<rparr>) = c"
proof (induction cs)
  case (Cons x cs)
  show ?case
  proof (cases "c = x")
    case True
    have "c\<lparr>co_parent_id := None, co_parent_id := co_parent_id c\<rparr> = c"
      "co_parent_id c = None \<Longrightarrow> c\<lparr>co_parent_id := None\<rparr> = c" by (cases c; simp)+
    with True Cons.prems show ?thesis by (auto simp: restore_other)
  next
    case False
    with Cons.prems have c: "c \<in> set cs" by auto
    with Cons.prems have "co_id c \<noteq> co_id x" by (metis distinct.simps(2) image_eqI list.simps(9) set_map)
    with c Cons show ?thesis by simp
  qed
qed simp

lemma ids_set_parent [simp]: "map (\<lambda>r. co_id (snd r)) (set_parent p i t) = map (\<lambda>r. co_id (snd r)) t"
  by (auto simp: set_parent_def)

lemma set_ids_set_parent [simp]:
  "(\<lambda>r. co_id (snd r)) ` set (set_parent p i t) = (\<lambda>r. co_id (snd r)) ` set t"
  by (metis ids_set_parent set_map)

lemma references_simps [simp]: "references ids None" "references ids (Some i) \<longleftrightarrow> i \<in> set ids"
  by (simp_all add: references_def)

lemma backfill_parent_Inr:
  "backfill_parent p i d = Inr d' \<longleftrightarrow>
     (i \<in> set (community_ids d) \<longrightarrow> p \<in> set (community_ids d))
     \<and> d' = d\<lparr>tb_communities := set_parent p i (tb_communities d)\<rparr>"
  by (auto simp: backfill_parent_def guarded_Inr split: if_splits)

lemma restore_set_parent:
  "co_parent_id x = Some p \<Longrightarrow>
     map (\<lambda>(r, c). (r, restore cs c)) (set_parent p (co_id x) t) = map (\<lambda>(r, c). (r, restore (x # cs) c)) t"
  by (auto simp: set_parent_def)

lemma run_backfills:
  "run_stmts n (backfills cs) d = Inr d' \<longleftrightarrow>
     length (backfills cs) \<le> n
     \<and> d' = d\<lparr>tb_communities := map (\<lambda>(r, c). (r, restore cs c)) (tb_communities d)\<rparr>
     \<and> (\<forall>c \<in> set cs. co_id c \<in> set (community_ids d) \<longrightarrow> references (community_ids d) (co_parent_id c))"
proof (induction cs arbitrary: n d)
  case Nil
  then show ?case by auto
next
  case (Cons x cs)
  show ?case
  proof (cases "co_parent_id x")
    case None
    then show ?thesis using Cons.IH [of n d] by simp
  next
    case (Some p)
    have step: "backfills (x # cs) = backfill_parent p (co_id x) # backfills cs" using Some by simp
    show ?thesis
      unfolding step run_Cons backfill_parent_Inr Cons.IH
      by (cases n) (auto simp: Some restore_set_parent [OF Some] simp del: restore.simps)
  qed
qed

section \<open>What an import does\<close>

definition added :: "string \<Rightarrow> 'f pg_repo_snapshot \<Rightarrow> 'f pg_tables \<Rightarrow> 'f pg_tables" where
  "added repo s d =
     d\<lparr>tb_modules := tb_modules d @ map (Pair repo) (sn_modules s),
       tb_chunks := tb_chunks d @ map (Pair repo) (sn_chunks s),
       tb_large_chunks := tb_large_chunks d @ map (Pair repo) (sn_large_chunks s),
       tb_communities := tb_communities d @ map (Pair repo) (sn_communities s),
       tb_community_members := tb_community_members d @ sn_community_members s\<rparr>"

definition vectors_fit :: "nat \<Rightarrow> 'f pg_repo_snapshot \<Rightarrow> bool" where
  "vectors_fit dims s \<longleftrightarrow>
     (\<forall>m \<in> set (sn_modules s). vectors_ok dims [mo_embedding m])
     \<and> (\<forall>c \<in> set (sn_chunks s). vectors_ok dims [Some (ch_embedding c), ch_signature_embedding c])
     \<and> (\<forall>c \<in> set (sn_large_chunks s). vectors_ok dims [Some (lc_embedding c)])
     \<and> (\<forall>c \<in> set (sn_communities s). vectors_ok dims [co_embedding c])"

text \<open>The constraints the rows of a snapshot meet against the rows already stored.\<close>

definition fits :: "string \<Rightarrow> 'f pg_repo_snapshot \<Rightarrow> 'f pg_tables \<Rightarrow> bool" where
  "fits repo s d \<longleftrightarrow>
     vectors_fit (tb_dims d) s \<and> distinct (map mo_id (sn_modules s)) \<and> set (map mo_id (sn_modules s)) \<inter> set (module_ids d) = {}
     \<and> distinct (map mo_path (sn_modules s))
     \<and> set (map mo_path (sn_modules s)) \<inter> set (map mo_path (rows_of repo (tb_modules d))) = {}
     \<and> distinct (map ch_id (sn_chunks s)) \<and> set (map ch_id (sn_chunks s)) \<inter> set (chunk_ids d) = {}
     \<and> distinct (map lc_id (sn_large_chunks s)) \<and> set (map lc_id (sn_large_chunks s)) \<inter> set (large_chunk_ids d) = {}
     \<and> distinct (map co_id (sn_communities s)) \<and> set (map co_id (sn_communities s)) \<inter> set (community_ids d) = {}
     \<and> (\<forall>c \<in> set (sn_communities s). references (community_ids (added repo s d)) (co_parent_id c))
     \<and> (\<forall>m \<in> set (sn_community_members s). cm_community_id m \<in> set (community_ids (added repo s d))
          \<and> references (chunk_ids (added repo s d)) (cm_chunk_id m)
          \<and> references (module_ids (added repo s d)) (cm_module_id m))"

lemma references_set: "set a = set b \<Longrightarrow> references a r = references b r"
  by (cases r) auto

lemma restore_rows:
  assumes "distinct (map co_id cs)" and "set (map co_id cs) \<inter> set (map (\<lambda>r. co_id (snd r)) t) = {}"
  shows "map (\<lambda>(r, c). (r, restore cs c)) (t @ map (\<lambda>c. (repo, c\<lparr>co_parent_id := None\<rparr>)) cs) = t @ map (Pair repo) cs"
proof -
  have "map (\<lambda>(r, c). (r, restore cs c)) t = t"
    by (rule map_idI) (use assms(2) in \<open>force intro!: restore_other\<close>)
  then show ?thesis using restore_own [OF assms(1)] by simp
qed

text \<open>A stage is a list of statements that succeeds exactly when the connection survives it and a condition holds,
  with a known result. Stages compose.\<close>

definition stage :: "'d stmt list \<Rightarrow> ('d \<Rightarrow> bool) \<Rightarrow> ('d \<Rightarrow> 'd) \<Rightarrow> bool" where
  "stage ss ok f \<longleftrightarrow> (\<forall>n d d'. run_stmts n ss d = Inr d' \<longleftrightarrow> length ss \<le> n \<and> ok d \<and> d' = f d)"

lemma stage_append: "stage xs ok f \<Longrightarrow> stage ys ok' g \<Longrightarrow> stage (xs @ ys) (\<lambda>d. ok d \<and> ok' (f d)) (\<lambda>d. g (f d))"
  unfolding stage_def run_stmts_append_Inr by auto

lemma stage_cong: "stage ss ok f \<Longrightarrow> (\<And>d. ok d = ok' d) \<Longrightarrow> (\<And>d. ok d \<Longrightarrow> f d = g d) \<Longrightarrow> stage ss ok' g"
  unfolding stage_def by auto


lemma insert_stages:
  shows "stage (map (insert_module repo) ms)
      (\<lambda>d. distinct (map mo_id ms) \<and> set (map mo_id ms) \<inter> set (module_ids d) = {}
        \<and> distinct (map mo_path ms) \<and> set (map mo_path ms) \<inter> set (map mo_path (rows_of repo (tb_modules d))) = {} \<and> (\<forall>m \<in> set ms. vectors_ok (tb_dims d) [mo_embedding m]))
      (\<lambda>d. d\<lparr>tb_modules := tb_modules d @ map (Pair repo) ms\<rparr>)"
    and "stage (map (insert_chunk repo) cs)
      (\<lambda>d. distinct (map ch_id cs) \<and> set (map ch_id cs) \<inter> set (chunk_ids d) = {} \<and> (\<forall>c \<in> set cs. vectors_ok (tb_dims d) [Some (ch_embedding c), ch_signature_embedding c]))
      (\<lambda>d. d\<lparr>tb_chunks := tb_chunks d @ map (Pair repo) cs\<rparr>)"
    and "stage (map (insert_large_chunk repo) ls)
      (\<lambda>d. distinct (map lc_id ls) \<and> set (map lc_id ls) \<inter> set (large_chunk_ids d) = {} \<and> (\<forall>c \<in> set ls. vectors_ok (tb_dims d) [Some (lc_embedding c)]))
      (\<lambda>d. d\<lparr>tb_large_chunks := tb_large_chunks d @ map (Pair repo) ls\<rparr>)"
    and "stage (map (insert_community repo) xs)
      (\<lambda>d. distinct (map co_id xs) \<and> set (map co_id xs) \<inter> set (community_ids d) = {} \<and> (\<forall>c \<in> set xs. vectors_ok (tb_dims d) [co_embedding c]))
      (\<lambda>d. d\<lparr>tb_communities := tb_communities d @ map (\<lambda>c. (repo, c\<lparr>co_parent_id := None\<rparr>)) xs\<rparr>)"
    and "stage (backfills xs)
      (\<lambda>d. \<forall>c \<in> set xs. co_id c \<in> set (community_ids d) \<longrightarrow> references (community_ids d) (co_parent_id c))
      (\<lambda>d. d\<lparr>tb_communities := map (\<lambda>(r, c). (r, restore xs c)) (tb_communities d)\<rparr>)"
    and "stage (map insert_community_member ms')
      (\<lambda>d. \<forall>m \<in> set ms'. cm_community_id m \<in> set (community_ids d) \<and> references (chunk_ids d) (cm_chunk_id m)
          \<and> references (module_ids d) (cm_module_id m))
      (\<lambda>d. d\<lparr>tb_community_members := tb_community_members d @ ms'\<rparr>)"
  unfolding stage_def run_modules run_chunks run_large_chunks run_communities run_backfills run_members
  by (simp_all only: length_map) blast+

lemma stage_insert_all: "stage (insert_all repo s) (fits repo s) (added repo s)"
  unfolding insert_all_def
proof (rule stage_cong [OF insert_stages(1) [THEN stage_append, OF insert_stages(2) [THEN stage_append,
        OF insert_stages(3) [THEN stage_append, OF insert_stages(4) [THEN stage_append,
        OF insert_stages(5) [THEN stage_append, OF insert_stages(6)]]]]]], goal_cases)
  case (1 d)
  show ?case by (auto simp: fits_def vectors_fit_def added_def comp_def case_prod_beta)
next
  case (2 d)
  then have "distinct (map co_id (sn_communities s))"
    "set (map co_id (sn_communities s)) \<inter> set (community_ids d) = {}" by simp_all
  from restore_rows [OF this, of repo] show ?case by (simp add: added_def)
qed

definition wiped :: "string \<Rightarrow> 'f pg_tables \<Rightarrow> 'f pg_tables" where
  "wiped repo d =
     d\<lparr>tb_modules := filter (\<lambda>r. fst r \<noteq> repo) (tb_modules d),
       tb_chunks := filter (\<lambda>r. fst r \<noteq> repo) (tb_chunks d),
       tb_large_chunks := filter (\<lambda>r. fst r \<noteq> repo) (tb_large_chunks d),
       tb_communities := filter (\<lambda>r. fst r \<noteq> repo) (tb_communities d),
       tb_community_members :=
         filter (\<lambda>m. cm_community_id m \<notin> co_id ` set (rows_of repo (tb_communities d))
                  \<and> cm_community_id m \<in> set (map (\<lambda>r. co_id (snd r)) (filter (\<lambda>r. fst r \<noteq> repo) (tb_communities d))))
           (tb_community_members d)\<rparr>"

definition wipe_allowed :: "string \<Rightarrow> 'f pg_tables \<Rightarrow> bool" where
  "wipe_allowed repo d \<longleftrightarrow>
     (\<forall>r \<in> set (tb_communities (wiped repo d)). references (community_ids (wiped repo d)) (co_parent_id (snd r)))
     \<and> (\<forall>m \<in> set (tb_community_members (wiped repo d)).
          references (chunk_ids (wiped repo d)) (cm_chunk_id m) \<and> references (module_ids (wiped repo d)) (cm_module_id m))"

lemma stage_single: "(\<And>d d'. s d = Inr d' \<longleftrightarrow> ok d \<and> d' = f d) \<Longrightarrow> stage [s] ok f"
  unfolding stage_def run_Cons by (auto simp: Suc_le_eq gr0_conv_Suc)

lemma stage_guarded: "stage [guarded chk f] (\<lambda>d. chk d = None) f"
  by (rule stage_single) (rule guarded_Inr)

lemma stage_wipe: "stage (wipe_repo repo) (wipe_allowed repo) (wiped repo)"
proof -
  have mem: "stage [delete_members_of_repo repo] (\<lambda>d. True) (\<lambda>d. projr (delete_members_of_repo repo d))"
    and lrg: "stage [delete_large_chunks_of_repo repo] (\<lambda>d. True) (\<lambda>d. projr (delete_large_chunks_of_repo repo d))"
    by (rule stage_single; auto simp: delete_members_of_repo_def delete_large_chunks_of_repo_def)+
  have split: "wipe_repo repo = [delete_members_of_repo repo] @ [delete_communities_of_repo repo]
      @ [delete_chunks_of_repo repo] @ [delete_large_chunks_of_repo repo] @ [delete_modules_where (\<lambda>r. fst r = repo)]"
    by (simp add: wipe_repo_def)
  note guarded_dels = delete_communities_of_repo_def delete_chunks_of_repo_def delete_modules_where_def
  show ?thesis unfolding split guarded_dels
  proof (rule stage_cong [OF mem [THEN stage_append, OF stage_guarded [THEN stage_append,
          OF stage_guarded [THEN stage_append, OF lrg [THEN stage_append, OF stage_guarded]]]]], goal_cases)
    case (1 d)
    show ?case
      by (auto simp: wipe_allowed_def wiped_def delete_members_of_repo_def delete_large_chunks_of_repo_def delete_where_def
          rows_of_def list_all_iff image_image Let_def split: if_splits)
  next
    case (2 d)
    show ?case
      by (simp add: wiped_def delete_members_of_repo_def delete_large_chunks_of_repo_def delete_where_def rows_of_def
          Let_def image_image conj_commute)
  qed
qed

lemma stage_replace:
  "stage (wipe_repo repo @ insert_all repo s) (\<lambda>d. wipe_allowed repo d \<and> fits repo s (wiped repo d))
     (\<lambda>d. added repo s (wiped repo d))"
  by (rule stage_append [OF stage_wipe stage_insert_all])

text \<open>A transaction over a stage leaves the tables alone or applies all of it.\<close>

lemma tx_stage:
  assumes "stage ss ok f" and "in_tx n commit ss d = (r, d')"
  shows "d' = d \<or> ok d \<and> d' = f d" and "r = Inr () \<Longrightarrow> ok d \<and> d' = f d"
    and "r = Inl e \<Longrightarrow> d' = d \<or> commit = Commit_lost \<and> e = Db_unavailable \<and> ok d \<and> d' = f d"
proof -
  from assms(1) have run: "run_stmts k ss d = Inr d1 \<Longrightarrow> ok d \<and> d1 = f d" for k d1
    unfolding stage_def by blast
  show "d' = d \<or> ok d \<and> d' = f d" and "r = Inr () \<Longrightarrow> ok d \<and> d' = f d"
    and "r = Inl e \<Longrightarrow> d' = d \<or> commit = Commit_lost \<and> e = Db_unavailable \<and> ok d \<and> d' = f d"
    using assms(2) run
    by (auto simp: in_tx_def split: nat.splits sum.splits commit_outcome.splits)
qed

lemma tx_stage_succeeds:
  assumes "stage ss ok f" and "ok d" and "length ss < n"
  shows "in_tx n Commit_ok ss d = (Inr (), f d)"
proof -
  from assms(3) obtain k where "n = Suc k" "length ss \<le> k" by (cases n) auto
  then have "run_stmts k ss d = Inr (f d)" using assms(1,2) unfolding stage_def by blast
  with \<open>n = Suc k\<close> show ?thesis by (simp add: in_tx_def)
qed

section \<open>The schema constraints\<close>

definition constraints_hold :: "'f pg_tables \<Rightarrow> bool" where
  "constraints_hold d \<longleftrightarrow>
     distinct (module_ids d) \<and> distinct (map (\<lambda>r. (fst r, mo_path (snd r))) (tb_modules d))
     \<and> distinct (chunk_ids d) \<and> distinct (large_chunk_ids d) \<and> distinct (community_ids d)
     \<and> (\<forall>r \<in> set (tb_communities d). references (community_ids d) (co_parent_id (snd r)))
     \<and> (\<forall>m \<in> set (tb_community_members d). cm_community_id m \<in> set (community_ids d)
          \<and> references (chunk_ids d) (cm_chunk_id m) \<and> references (module_ids d) (cm_module_id m))"

section \<open>Export after import\<close>

text \<open>A \<open>SELECT\<close> without \<open>ORDER BY\<close> promises no order, so snapshots are compared as multisets of rows.\<close>

definition same_rows :: "'f pg_repo_snapshot \<Rightarrow> 'f pg_repo_snapshot \<Rightarrow> bool" where
  "same_rows a b \<longleftrightarrow>
     mset (sn_modules a) = mset (sn_modules b) \<and> mset (sn_chunks a) = mset (sn_chunks b)
     \<and> mset (sn_large_chunks a) = mset (sn_large_chunks b) \<and> mset (sn_communities a) = mset (sn_communities b)
     \<and> mset (sn_community_members a) = mset (sn_community_members b)"

definition members_own :: "'f pg_repo_snapshot \<Rightarrow> bool" where
  "members_own s \<longleftrightarrow> (\<forall>m \<in> set (sn_community_members s). cm_community_id m \<in> set (map co_id (sn_communities s)))"

lemma rows_of_wipe: "rows_of r (filter (\<lambda>x. fst x \<noteq> repo) t) = (if r = repo then [] else rows_of r t)"
  by (induction t) (auto simp: rows_of_def)

lemma rows_of_keys_differ:
  assumes "distinct (map (\<lambda>x. f (snd x)) t)" and "r \<noteq> r'" and "a \<in> set (rows_of r t)" and "b \<in> set (rows_of r' t)"
  shows "f a \<noteq> f b"
proof
  assume "f a = f b"
  moreover from assms(3,4) have "(r, a) \<in> set t" "(r', b) \<in> set t" by (auto simp: rows_of_def)
  ultimately have "(r, a) = (r', b)" using assms(1) unfolding distinct_map by (metis inj_onD snd_conv)
  with assms(2) show False by simp
qed

lemma export_own:
  assumes "fits repo s (wiped repo d)" and "members_own s"
  shows "export_repo_snapshot 5 repo (added repo s (wiped repo d)) = Inr s"
proof -
  let ?w = "wiped repo d"
  have tables: "rows_of repo (tb_modules (added repo s ?w)) = sn_modules s"
    "rows_of repo (tb_chunks (added repo s ?w)) = sn_chunks s"
    "rows_of repo (tb_large_chunks (added repo s ?w)) = sn_large_chunks s"
    "rows_of repo (tb_communities (added repo s ?w)) = sn_communities s"
    by (simp_all add: added_def wiped_def rows_of_wipe)
  have "filter (\<lambda>m. cm_community_id m \<in> set (map co_id (sn_communities s))) (tb_community_members ?w) = []"
    using assms(1) by (auto simp: filter_empty_conv fits_def wiped_def)
  moreover have "filter (\<lambda>m. cm_community_id m \<in> set (map co_id (sn_communities s))) (sn_community_members s)
      = sn_community_members s"
    using assms(2) by (simp add: members_own_def filter_id_conv)
  ultimately show ?thesis by (simp add: export_repo_snapshot_def tables) (simp add: added_def)
qed

lemma export_other:
  assumes "constraints_hold d" and "fits repo s (wiped repo d)" and "members_own s" and "repo' \<noteq> repo"
  shows "export_repo_snapshot 5 repo' (added repo s (wiped repo d)) = export_repo_snapshot 5 repo' d"
proof -
  let ?w = "wiped repo d" and ?ids = "set (map co_id (rows_of repo' (tb_communities d)))"
  have tables: "rows_of repo' (tb_modules (added repo s ?w)) = rows_of repo' (tb_modules d)"
    "rows_of repo' (tb_chunks (added repo s ?w)) = rows_of repo' (tb_chunks d)"
    "rows_of repo' (tb_large_chunks (added repo s ?w)) = rows_of repo' (tb_large_chunks d)"
    "rows_of repo' (tb_communities (added repo s ?w)) = rows_of repo' (tb_communities d)"
    using assms(4) by (simp_all add: added_def wiped_def rows_of_wipe)
  have ids: "?ids \<subseteq> set (community_ids ?w)" using assms(4) by (auto simp: rows_of_def wiped_def)
  have "?ids \<inter> set (map co_id (rows_of repo (tb_communities d))) = {}"
    using rows_of_keys_differ [of co_id "tb_communities d" repo' repo] assms(1,4)
    by (force simp: constraints_hold_def)
  then have "filter (\<lambda>m. cm_community_id m \<in> ?ids) (tb_community_members ?w)
      = filter (\<lambda>m. cm_community_id m \<in> ?ids) (tb_community_members d)"
    using ids by (auto simp: wiped_def intro!: filter_cong)
  moreover have "filter (\<lambda>m. cm_community_id m \<in> ?ids) (sn_community_members s) = []"
    using assms(2,3) ids by (fastforce simp: filter_empty_conv members_own_def fits_def)
  ultimately show ?thesis by (simp add: export_repo_snapshot_def tables) (simp add: added_def)
qed

text \<open>What a replacing import leaves when its statements took effect: an export of the repository returns the imported rows, an export of any
  other repository is unchanged.\<close>

definition imported :: "string \<Rightarrow> 'f pg_repo_snapshot \<Rightarrow> 'f pg_tables \<Rightarrow> 'f pg_tables \<Rightarrow> bool" where
  "imported repo s d d' \<longleftrightarrow>
     (\<exists>x. export_repo_snapshot 5 repo d' = Inr x \<and> same_rows x s)
     \<and> (\<forall>repo'. repo' \<noteq> repo \<longrightarrow> export_repo_snapshot 5 repo' d' = export_repo_snapshot 5 repo' d)"

text \<open>C11. A replacing import is all or nothing, wherever the connection fails, for a snapshot whose community members belong to its own
  communities: after success an export of the repository returns exactly the imported rows and an export of any other repository is unchanged;
  after an error every table is as before, except when only the acknowledgement of the commit was lost, where the import may have taken effect.\<close>

theorem snapshot_replace_atomic:
  assumes "constraints_hold d" and "members_own s"
    and "import_repo_snapshot_replacing n commit repo s d = (r, d')"
  shows "case r of
      Inr _ \<Rightarrow> imported repo s d d'
    | Inl e \<Rightarrow> d' = d \<or> commit = Commit_lost \<and> e = Db_unavailable \<and> imported repo s d d'"
proof -
  note tx = tx_stage [OF stage_replace assms(3) [unfolded import_repo_snapshot_replacing_def]]
  have eff: "imported repo s d (added repo s (wiped repo d))" if "fits repo s (wiped repo d)"
    using export_own [OF that assms(2)] export_other [OF assms(1) that assms(2)] by (auto simp: imported_def same_rows_def)
  show ?thesis using tx(2,3) eff by (cases r) auto
qed

text \<open>A repository is closed when nothing of another repository refers to its rows; a snapshot is self-contained
  when its references stay inside it, and fresh when its keys do not occur in other repositories.\<close>

definition repo_closed :: "string \<Rightarrow> 'f pg_tables \<Rightarrow> bool" where
  "repo_closed repo d \<longleftrightarrow>
     (\<forall>r \<in> set (tb_communities d). fst r \<noteq> repo \<longrightarrow>
        (\<forall>p. co_parent_id (snd r) = Some p \<longrightarrow> p \<notin> set (map co_id (rows_of repo (tb_communities d)))))
     \<and> (\<forall>m \<in> set (tb_community_members d). cm_community_id m \<notin> set (map co_id (rows_of repo (tb_communities d))) \<longrightarrow>
          (\<forall>i. cm_chunk_id m = Some i \<longrightarrow> i \<notin> set (map ch_id (rows_of repo (tb_chunks d))))
          \<and> (\<forall>i. cm_module_id m = Some i \<longrightarrow> i \<notin> set (map mo_id (rows_of repo (tb_modules d)))))"

definition self_contained :: "'f pg_repo_snapshot \<Rightarrow> bool" where
  "self_contained s \<longleftrightarrow>
     distinct (map mo_id (sn_modules s)) \<and> distinct (map mo_path (sn_modules s)) \<and> distinct (map ch_id (sn_chunks s))
     \<and> distinct (map lc_id (sn_large_chunks s)) \<and> distinct (map co_id (sn_communities s))
     \<and> (\<forall>c \<in> set (sn_communities s). references (map co_id (sn_communities s)) (co_parent_id c))
     \<and> (\<forall>m \<in> set (sn_community_members s). cm_community_id m \<in> set (map co_id (sn_communities s))
          \<and> references (map ch_id (sn_chunks s)) (cm_chunk_id m) \<and> references (map mo_id (sn_modules s)) (cm_module_id m))"

definition fresh_for :: "string \<Rightarrow> 'f pg_repo_snapshot \<Rightarrow> 'f pg_tables \<Rightarrow> bool" where
  "fresh_for repo s d \<longleftrightarrow>
     (\<forall>r \<in> set (tb_modules d). fst r \<noteq> repo \<longrightarrow> mo_id (snd r) \<notin> set (map mo_id (sn_modules s)))
     \<and> (\<forall>r \<in> set (tb_chunks d). fst r \<noteq> repo \<longrightarrow> ch_id (snd r) \<notin> set (map ch_id (sn_chunks s)))
     \<and> (\<forall>r \<in> set (tb_large_chunks d). fst r \<noteq> repo \<longrightarrow> lc_id (snd r) \<notin> set (map lc_id (sn_large_chunks s)))
     \<and> (\<forall>r \<in> set (tb_communities d). fst r \<noteq> repo \<longrightarrow> co_id (snd r) \<notin> set (map co_id (sn_communities s)))"

lemma references_prepend: "references b r \<Longrightarrow> references (a @ b) r"
  by (cases r) auto

lemma references_kept:
  assumes "references (map (\<lambda>r. f (snd r)) t) x" and "\<And>i. x = Some i \<Longrightarrow> i \<notin> f ` set (rows_of repo t)"
  shows "references (map (\<lambda>r. f (snd r)) (filter (\<lambda>r. fst r \<noteq> repo) t)) x"
  using assms by (cases x) (force simp: rows_of_def)+

lemma closed_wipe_allowed:
  assumes "constraints_hold d" and "repo_closed repo d"
  shows "wipe_allowed repo d"
proof -
  have "references (map (\<lambda>r. co_id (snd r)) (filter (\<lambda>r. fst r \<noteq> repo) (tb_communities d))) (co_parent_id (snd r))"
    if "r \<in> set (tb_communities d)" "fst r \<noteq> repo" for r
    by (rule references_kept) (use assms that in \<open>auto simp: constraints_hold_def repo_closed_def\<close>)
  moreover have "references (map (\<lambda>r. ch_id (snd r)) (filter (\<lambda>r. fst r \<noteq> repo) (tb_chunks d))) (cm_chunk_id m)
      \<and> references (map (\<lambda>r. mo_id (snd r)) (filter (\<lambda>r. fst r \<noteq> repo) (tb_modules d))) (cm_module_id m)"
    if "m \<in> set (tb_community_members d)" "cm_community_id m \<notin> co_id ` set (rows_of repo (tb_communities d))" for m
    by (intro conjI; rule references_kept)
       (use assms that in \<open>auto simp: constraints_hold_def repo_closed_def\<close>)
  ultimately show ?thesis by (auto simp: wipe_allowed_def wiped_def)
qed

lemma kept_keys_fresh:
  "\<forall>r \<in> set t. fst r \<noteq> repo \<longrightarrow> f (snd r) \<notin> X \<Longrightarrow> X \<inter> set (map (\<lambda>r. f (snd r)) (filter (\<lambda>r. fst r \<noteq> repo) t)) = {}"
  by auto

lemma fresh_fits:
  assumes "self_contained s" and "fresh_for repo s d" and "vectors_fit (tb_dims d) s"
  shows "fits repo s (wiped repo d)"
proof -
  let ?w = "wiped repo d"
  have keys: "set (map mo_id (sn_modules s)) \<inter> set (module_ids ?w) = {}"
    "set (map ch_id (sn_chunks s)) \<inter> set (chunk_ids ?w) = {}"
    "set (map lc_id (sn_large_chunks s)) \<inter> set (large_chunk_ids ?w) = {}"
    "set (map co_id (sn_communities s)) \<inter> set (community_ids ?w) = {}"
    "rows_of repo (tb_modules ?w) = []"
    using assms(2) unfolding fresh_for_def by (simp_all add: wiped_def rows_of_wipe kept_keys_fresh del: set_map)
  have refs: "community_ids (added repo s ?w) = community_ids ?w @ map co_id (sn_communities s)"
    "chunk_ids (added repo s ?w) = chunk_ids ?w @ map ch_id (sn_chunks s)"
    "module_ids (added repo s ?w) = module_ids ?w @ map mo_id (sn_modules s)"
    by (simp_all add: added_def comp_def)
  show ?thesis
    unfolding fits_def refs using assms(1,3) keys by (simp add: self_contained_def references_prepend wiped_def)
qed

text \<open>C12. The deletions of a replacing import are in an order the foreign keys accept, and so are the insertions: if
  nothing of another repository refers to the repository's rows, the snapshot is self-contained and fresh, and
  its embeddings have the width of the columns, the import succeeds whenever the connection survives its statements and
  the commit.\<close>

theorem snapshot_replace_succeeds:
  assumes "constraints_hold d" and "repo_closed repo d" and "self_contained s" and "fresh_for repo s d"
    and "vectors_fit (tb_dims d) s" and "length (wipe_repo repo @ insert_all repo s) < n"
  shows "fst (import_repo_snapshot_replacing n Commit_ok repo s d) = Inr ()"
  unfolding import_repo_snapshot_replacing_def
  using tx_stage_succeeds [OF stage_replace, of repo d s n] closed_wipe_allowed [OF assms(1,2)]
    fresh_fits [OF assms(3,4,5)] assms(6) by simp

definition demo_module :: "uuid \<Rightarrow> string \<Rightarrow> nat module_snapshot_row" where
  "demo_module i p = \<lparr>mo_id = i, mo_path = p, mo_language = None, mo_summary = None, mo_exports_count = None,
     mo_file_count = Some 1, mo_is_virtual = False, mo_embedding = Some [1, 2], mo_git_ref = None, mo_ingested_at = Some 7\<rparr>"

definition demo_community :: "uuid \<Rightarrow> uuid option \<Rightarrow> nat community_snapshot_row" where
  "demo_community i p = \<lparr>co_id = i, co_level = 0, co_name = None, co_summary = None, co_member_count = Some 1,
     co_embedding = None, co_parent_id = p, co_created_at = None\<rparr>"

definition demo_snapshot :: "nat pg_repo_snapshot" where
  "demo_snapshot = \<lparr>sn_modules = [demo_module 1 ''src''], sn_chunks = [], sn_large_chunks = [],
     sn_communities = [demo_community 11 (Some 12), demo_community 12 None],
     sn_community_members = [\<lparr>cm_community_id = 11, cm_chunk_id = None, cm_module_id = Some 1\<rparr>]\<rparr>"

definition demo_tables :: "nat pg_tables" where
  "demo_tables = \<lparr>tb_modules = [(''a'', demo_module 5 ''src''), (''b'', demo_module 6 ''lib'')], tb_chunks = [],
     tb_large_chunks = [], tb_communities = [(''a'', demo_community 21 None), (''b'', demo_community 22 None)],
     tb_community_members = [\<lparr>cm_community_id = 21, cm_chunk_id = None, cm_module_id = Some 5\<rparr>], tb_dims = 2\<rparr>"

lemmas demo_defs = demo_snapshot_def demo_tables_def demo_module_def demo_community_def

lemma demo_facts:
  "constraints_hold demo_tables" "members_own demo_snapshot" "repo_closed ''a'' demo_tables"
  "self_contained demo_snapshot" "fresh_for ''a'' demo_snapshot demo_tables" "vectors_fit (tb_dims demo_tables) demo_snapshot"
  by (simp_all add: demo_defs vectors_fit_def vectors_ok_def constraints_hold_def members_own_def repo_closed_def rows_of_def self_contained_def
      fresh_for_def)

theorem snapshot_replace_succeeds_witness:
  "fst (import_repo_snapshot_replacing 20 Commit_ok ''a'' demo_snapshot demo_tables) = Inr ()"
  by (rule snapshot_replace_succeeds [OF demo_facts(1,3,4,5,6)]) (simp add: wipe_repo_def insert_all_def demo_defs)

theorem snapshot_replace_atomic_witness:
  "snd (import_repo_snapshot_replacing 4 Commit_ok ''a'' demo_snapshot demo_tables) = demo_tables"
proof -
  obtain r d' where run: "import_repo_snapshot_replacing 4 Commit_ok ''a'' demo_snapshot demo_tables = (r, d')" by (cases "import_repo_snapshot_replacing 4 Commit_ok ''a'' demo_snapshot demo_tables")
  moreover have "fst (import_repo_snapshot_replacing 4 Commit_ok ''a'' demo_snapshot demo_tables) = Inl Db_unavailable" by code_simp
  ultimately show ?thesis using snapshot_replace_atomic [OF demo_facts(1,2) run] by simp
qed

end
