(* ===== verification/Snapshot_Commit.thy ===== *)
theory Snapshot_Commit
  imports Snapshot
begin

text \<open>
  The commit gate of the ingestion pipeline (\<open>akashic-ingestion/src/ingestion/snapshot_commit.rs\<close>): stamping, the
  two commit strategies, and the replay of the graph snapshot through the Neo4j write ports.

  Neo4j is seen through its ports: a commit yields the sequence of port calls that were executed, and \<open>ce_graph\<close>
  says how many of them succeed before the store fails. \<open>Uuid::parse_str\<close> is the parameter \<open>parse_uuid\<close>; a plan entry
  \<open>Inl\<close> is a \<open>?\<close> on a failed parse.
\<close>

record chunk_graph_node =
  gn_pg_id :: string
  gn_name :: string
  gn_chunk_type :: string
  gn_module_path :: string
  gn_fqn :: "string option"
  gn_parent_fqn :: "string option"
  gn_start_line :: int
  gn_end_line :: int
  gn_visibility :: string
  gn_is_async :: bool
  gn_is_static :: bool
  gn_is_exported :: bool
  gn_http_method :: "string option"
  gn_http_path :: "string option"

record graph_community_snapshot =
  gc_community_id :: uuid
  gc_level :: "8 word"
  gc_member_count :: nat
  gc_members :: "(uuid \<times> string) list"

record ('e, 'w) graph_repo_snapshot =
  gs_chunk_nodes :: "chunk_graph_node list"
  gs_module_nodes :: "(string \<times> string) list"
  gs_calls_edges :: "'e list"
  gs_reference_edges :: "'e list"
  gs_implements_edges :: "'e list"
  gs_routes_to_edges :: "'e list"
  gs_http_call_edges :: "'e list"
  gs_chunk_tags :: "(string \<times> string) list"
  gs_symbol_import_edges :: "(string \<times> uuid) list"
  gs_module_import_edges :: "(string \<times> string) list"
  gs_flows :: "'w list"
  gs_communities :: "graph_community_snapshot list"

record ('f, 'e, 'w) ingest_accumulator =
  ac_pg :: "'f pg_repo_snapshot"
  ac_graph :: "('e, 'w) graph_repo_snapshot"

section \<open>Graph replay\<close>

datatype ('e, 'w) graph_op =
    Ensure_repository
  | Upsert_module uuid string
  | Has_module uuid
  | Create_chunks "chunk_graph_node list"
  | Has_chunks uuid "uuid list"
  | Call_edges "'e list"
  | Reference_edges "'e list"
  | Implements_edges "'e list"
  | Routes_to_edges "'e list"
  | Http_call_edges "'e list"
  | Symbol_import_edges "(string \<times> uuid) list"
  | Import_edges "string list" "string list"
  | Tagged_with_edges "string list" "string list"
  | Store_flows "'w list"
  | Community_node uuid "8 word" nat
  | Has_member uuid uuid string
  | Delete_communities
  | Delete_chunks
  | Delete_modules

fun replay_modules :: "(string \<Rightarrow> uuid option) \<Rightarrow> (string \<times> string) list \<Rightarrow> (unit + ('e, 'w) graph_op) list" where
  "replay_modules parse_uuid [] = []"
| "replay_modules parse_uuid ((pg_id, path) # ms) =
     (case parse_uuid pg_id of
        None \<Rightarrow> [Inl ()]
      | Some u \<Rightarrow> [Inr (Upsert_module u path), Inr (Has_module u)]) @ replay_modules parse_uuid ms"

text \<open>\<open>chunks_by_module\<close>: the parsed ids of a module's chunk nodes, in input order.\<close>

definition chunks_by_module :: "(string \<Rightarrow> uuid option) \<Rightarrow> chunk_graph_node list \<Rightarrow> string \<Rightarrow> uuid list" where
  "chunks_by_module parse_uuid ns path =
     List.map_filter (\<lambda>c. parse_uuid (gn_pg_id c)) (filter (\<lambda>c. gn_module_path c = path) ns)"

fun replay_has_chunks ::
  "(string \<Rightarrow> uuid option) \<Rightarrow> chunk_graph_node list \<Rightarrow> (string \<times> string) list \<Rightarrow> (unit + ('e, 'w) graph_op) list" where
  "replay_has_chunks parse_uuid ns [] = []"
| "replay_has_chunks parse_uuid ns ((pg_id, path) # ms) =
     (case parse_uuid pg_id of
        None \<Rightarrow> [Inl ()]
      | Some u \<Rightarrow> (if chunks_by_module parse_uuid ns path = [] then []
                  else [Inr (Has_chunks u (chunks_by_module parse_uuid ns path))]))
     @ replay_has_chunks parse_uuid ns ms"

definition import_graph_snapshot ::
  "(string \<Rightarrow> uuid option) \<Rightarrow> ('e, 'w) graph_repo_snapshot \<Rightarrow> (unit + ('e, 'w) graph_op) list" where
  "import_graph_snapshot parse_uuid g =
     [Inr Ensure_repository]
     @ replay_modules parse_uuid (gs_module_nodes g)
     @ [Inr (Create_chunks (gs_chunk_nodes g))]
     @ map (\<lambda>c. Inl ()) (filter (\<lambda>c. parse_uuid (gn_pg_id c) = None) (gs_chunk_nodes g))
     @ replay_has_chunks parse_uuid (gs_chunk_nodes g) (gs_module_nodes g)
     @ [Inr (Call_edges (gs_calls_edges g)), Inr (Reference_edges (gs_reference_edges g)),
        Inr (Implements_edges (gs_implements_edges g)), Inr (Routes_to_edges (gs_routes_to_edges g)),
        Inr (Http_call_edges (gs_http_call_edges g)), Inr (Symbol_import_edges (gs_symbol_import_edges g)),
        Inr (Import_edges (map fst (gs_module_import_edges g)) (map snd (gs_module_import_edges g)))]
     @ (if gs_chunk_tags g = [] then []
        else [Inr (Tagged_with_edges (map fst (gs_chunk_tags g)) (map snd (gs_chunk_tags g)))])
     @ [Inr (Store_flows (gs_flows g))]
     @ concat (map (\<lambda>c. Inr (Community_node (gc_community_id c) (gc_level c) (gc_member_count c))
                      # map (\<lambda>(i, l). Inr (Has_member (gc_community_id c) i l)) (gc_members c)) (gs_communities g))"

text \<open>Executing a plan: the calls made before the first failure, and whether it ran to the end.\<close>

fun run_plan :: "nat \<Rightarrow> (unit + 'op) list \<Rightarrow> bool \<times> 'op list" where
  "run_plan n [] = (True, [])"
| "run_plan n (Inl () # ps) = (False, [])"
| "run_plan 0 (Inr op # ps) = (False, [])"
| "run_plan (Suc n) (Inr op # ps) = (let (ok, ops) = run_plan n ps in (ok, op # ops))"

section \<open>The commit gate\<close>

record commit_env =
  ce_now :: instant
  ce_pre_members :: bool
  ce_pre_modules :: bool
  ce_tx :: nat
  ce_commit :: commit_outcome
  ce_graph :: nat

definition stamp :: "instant \<Rightarrow> 'f pg_repo_snapshot \<Rightarrow> 'f pg_repo_snapshot" where
  "stamp now s = s\<lparr>sn_modules := map (\<lambda>m. m\<lparr>mo_ingested_at := Some now\<rparr>) (sn_modules s),
     sn_chunks := map (\<lambda>c. c\<lparr>ch_ingested_at := Some now\<rparr>) (sn_chunks s),
     sn_large_chunks := map (\<lambda>l. l\<lparr>lc_ingested_at := Some now\<rparr>) (sn_large_chunks s)\<rparr>"

datatype commit_error = Pg_failed sql_error | Graph_failed

text \<open>The \<open>run_sync\<close> strategy deletes the module rows it will insert again, and first the member rows that refer to
  them; both statements run outside the transaction.\<close>

definition delete_touched_modules :: "commit_env \<Rightarrow> uuid list \<Rightarrow> 'f pg_tables \<Rightarrow> unit db \<times> 'f pg_tables" where
  "delete_touched_modules env ids d =
     (if ids = [] then (Inr (), d)
      else if \<not> ce_pre_members env then (Inl Db_unavailable, d)
      else let d1 = d\<lparr>tb_community_members := delete_where
                        (\<lambda>m. case cm_module_id m of None \<Rightarrow> False | Some i \<Rightarrow> i \<in> set ids) (tb_community_members d)\<rparr> in
        if \<not> ce_pre_modules env then (Inl Db_unavailable, d1)
        else case delete_modules_where (\<lambda>r. mo_id (snd r) \<in> set ids) d1 of
               Inl e \<Rightarrow> (Inl e, d1)
             | Inr d2 \<Rightarrow> (Inr (), d2))"

definition commit_snapshot ::
  "commit_env \<Rightarrow> (string \<Rightarrow> uuid option) \<Rightarrow> string \<Rightarrow> bool \<Rightarrow> ('f, 'e, 'w) ingest_accumulator \<Rightarrow> 'f pg_tables
   \<Rightarrow> (commit_error + 'f pg_repo_snapshot) \<times> 'f pg_tables \<times> ('e, 'w) graph_op list" where
  "commit_snapshot env parse_uuid repo preserve_existing acc d =
     (let s = stamp (ce_now env) (ac_pg acc);
          graph = import_graph_snapshot parse_uuid (ac_graph acc) in
      if preserve_existing then
        (case delete_touched_modules env (map mo_id (sn_modules s)) d of
           (Inl e, d1) \<Rightarrow> (Inl (Pg_failed e), d1, [])
         | (Inr _, d1) \<Rightarrow>
             (case import_repo_snapshot (ce_tx env) (ce_commit env) repo s d1 of
                (Inl e, d2) \<Rightarrow> (Inl (Pg_failed e), d2, [])
              | (Inr _, d2) \<Rightarrow>
                  (case run_plan (ce_graph env) graph of
                     (ok, ops) \<Rightarrow> (if ok then Inr s else Inl Graph_failed, d2, ops))))
      else
        (case import_repo_snapshot_replacing (ce_tx env) (ce_commit env) repo s d of
           (Inl e, d1) \<Rightarrow> (Inl (Pg_failed e), d1, [])
         | (Inr _, d1) \<Rightarrow>
             (case run_plan (ce_graph env) ([Inr Delete_communities, Inr Delete_chunks, Inr Delete_modules] @ graph) of
                (ok, ops) \<Rightarrow> (if ok then Inr s else Inl Graph_failed, d1, ops))))"

section \<open>Properties of the replacing commit\<close>

text \<open>The calls of a plan, up to the first failed parse.\<close>

fun plan_calls :: "(unit + 'op) list \<Rightarrow> 'op list" where
  "plan_calls [] = []"
| "plan_calls (Inl () # ps) = []"
| "plan_calls (Inr op # ps) = op # plan_calls ps"

lemma run_plan_prefix:
  "run_plan n ps = (ok, ops) \<Longrightarrow> ops = take n (plan_calls ps) \<and> (ok \<longrightarrow> ops = plan_calls ps \<and> Inl () \<notin> set ps)"
proof (induction n ps arbitrary: ok ops rule: run_plan.induct)
  case (4 n op ps)
  then show ?case by (auto split: prod.splits)
qed auto

lemma members_own_stamp [simp]: "members_own (stamp now s) = members_own s"
  by (simp add: members_own_def stamp_def)

definition replaced :: "string \<Rightarrow> 'f pg_repo_snapshot \<Rightarrow> 'f pg_tables \<Rightarrow> 'f pg_tables \<Rightarrow> bool" where
  "replaced repo s d d' \<longleftrightarrow>
     export_repo_snapshot 5 repo d' = Inr s
     \<and> (\<forall>repo'. repo' \<noteq> repo \<longrightarrow> export_repo_snapshot 5 repo' d' = export_repo_snapshot 5 repo' d)"

lemma replacing_effect:
  assumes "constraints_hold d" and "members_own s" and "import_repo_snapshot_replacing n commit repo s d = (r, d')"
  shows "r = Inr () \<Longrightarrow> replaced repo s d d'" and "r = Inl e \<Longrightarrow> d' = d \<or> commit = Commit_lost \<and> e = Db_unavailable \<and> replaced repo s d d'"
proof -
  note tx = tx_stage [OF stage_replace assms(3) [unfolded import_repo_snapshot_replacing_def]]
  have eff: "fits repo s (wiped repo d) \<Longrightarrow> replaced repo s d (added repo s (wiped repo d))"
    using export_own [of repo s d] export_other [OF assms(1), of repo s] assms(2) by (auto simp: replaced_def)
  show "r = Inr () \<Longrightarrow> replaced repo s d d'" using tx(2) eff by blast
  show "r = Inl e \<Longrightarrow> d' = d \<or> commit = Commit_lost \<and> e = Db_unavailable \<and> replaced repo s d d'" using tx(3) eff by blast
qed

text \<open>C13. The ordering of the production commit (the one that replaces the rows of the repository), for a snapshot whose community members
  belong to its own communities: PostgreSQL first. Success means that PostgreSQL holds exactly the stamped snapshot for the repository, other
  repositories are untouched, and Neo4j received all wipe and replay calls in their order. A graph failure means the same of PostgreSQL, and that
  Neo4j received a prefix of the calls. After a failure of PostgreSQL, Neo4j was not called, and the tables are as before unless only the
  acknowledgement of the commit was lost.\<close>

theorem commit_pg_before_graph:
  assumes "constraints_hold d" and "members_own (ac_pg acc)"
    and "commit_snapshot env parse_uuid repo False acc d = (r, d', ops)"
    and "s = stamp (ce_now env) (ac_pg acc)"
    and "calls = [Delete_communities, Delete_chunks, Delete_modules] @ plan_calls (import_graph_snapshot parse_uuid (ac_graph acc))"
  shows "case r of
      Inr s' \<Rightarrow> s' = s \<and> ops = calls \<and> replaced repo s d d'
    | Inl Graph_failed \<Rightarrow> (\<exists>k. ops = take k calls) \<and> replaced repo s d d'
    | Inl (Pg_failed e) \<Rightarrow> ops = [] \<and> (d' = d \<or> ce_commit env = Commit_lost \<and> e = Db_unavailable \<and> replaced repo s d d')"
proof -
  let ?plan = "[Inr Delete_communities, Inr Delete_chunks, Inr Delete_modules] @ import_graph_snapshot parse_uuid (ac_graph acc)"
  obtain q d1 where imp: "import_repo_snapshot_replacing (ce_tx env) (ce_commit env) repo s d = (q, d1)"
    by (metis prod.exhaust)
  have "members_own s" using assms(2,4) by simp
  note eff = replacing_effect [OF assms(1) this imp]
  show ?thesis
  proof (cases q)
    case (Inl e)
    then have "d' = d1" "ops = []" "r = Inl (Pg_failed e)"
      using assms(3,4) imp by (simp_all add: commit_snapshot_def Let_def)
    with eff(2) Inl show ?thesis by simp
  next
    case (Inr u)
    obtain ok cs where run: "run_plan (ce_graph env) ?plan = (ok, cs)" by (metis prod.exhaust)
    then have "d' = d1" "ops = cs" "r = (if ok then Inr s else Inl Graph_failed)"
      using assms(3,4) imp Inr by (auto simp: commit_snapshot_def Let_def split: prod.splits)
    moreover have "\<exists>k. cs = take k calls" and "ok \<Longrightarrow> cs = calls" using run_plan_prefix [OF run] assms(5) by auto
    ultimately show ?thesis using eff(1) Inr by (cases ok) simp_all
  qed
qed

section \<open>Properties of the preserving commit\<close>

lemma delete_touched_keeps:
  assumes "delete_touched_modules env ids d = (q, d1)"
  shows "tb_chunks d1 = tb_chunks d" and "tb_large_chunks d1 = tb_large_chunks d" and "tb_communities d1 = tb_communities d"
    and "\<And>r. r \<in> set (tb_modules d) \<Longrightarrow> mo_id (snd r) \<notin> set ids \<Longrightarrow> r \<in> set (tb_modules d1)"
    and "\<And>m. m \<in> set (tb_community_members d) \<Longrightarrow> cm_module_id m \<notin> Some ` set ids \<Longrightarrow> m \<in> set (tb_community_members d1)"
  using assms
  by (auto simp: delete_touched_modules_def delete_modules_where_def guarded_def delete_where_def Let_def
      split: if_splits option.splits)

text \<open>The preserving commit of \<open>run_sync\<close> loses nothing it does not rewrite, at whatever point it fails: every chunk,
  large chunk and community of every repository stays, as does every module that is not staged and every community
  member that does not refer to a staged module.\<close>

theorem preserving_commit_keeps_rows:
  assumes "commit_snapshot env parse_uuid repo True acc d = (r, d', ops)"
  shows "set (tb_chunks d) \<subseteq> set (tb_chunks d') \<and> set (tb_large_chunks d) \<subseteq> set (tb_large_chunks d')
     \<and> set (tb_communities d) \<subseteq> set (tb_communities d')
     \<and> {x \<in> set (tb_modules d). mo_id (snd x) \<notin> mo_id ` set (sn_modules (ac_pg acc))} \<subseteq> set (tb_modules d')
     \<and> {m \<in> set (tb_community_members d). cm_module_id m \<notin> Some ` mo_id ` set (sn_modules (ac_pg acc))}
         \<subseteq> set (tb_community_members d')"
proof -
  let ?s = "stamp (ce_now env) (ac_pg acc)"
  have ids: "set (map mo_id (sn_modules ?s)) = mo_id ` set (sn_modules (ac_pg acc))" by (auto simp: stamp_def)
  obtain q1 d1 where del: "delete_touched_modules env (map mo_id (sn_modules ?s)) d = (q1, d1)" by (metis prod.exhaust)
  obtain q2 d2 where imp: "in_tx (ce_tx env) (ce_commit env) (insert_all repo ?s) d1 = (q2, d2)" by (metis prod.exhaust)
  have "d' = d1 \<or> d' = d2"
    using assms del imp
    by (auto simp: commit_snapshot_def import_repo_snapshot_def Let_def split: prod.splits sum.splits)
  then have d': "d' = d1 \<or> d' = added repo ?s d1" using tx_stage(1) [OF stage_insert_all imp] by blast
  then have sub: "set (tb_chunks d1) \<subseteq> set (tb_chunks d')" "set (tb_large_chunks d1) \<subseteq> set (tb_large_chunks d')"
    "set (tb_communities d1) \<subseteq> set (tb_communities d')" "set (tb_modules d1) \<subseteq> set (tb_modules d')"
    "set (tb_community_members d1) \<subseteq> set (tb_community_members d')"
    by (auto simp: added_def)
  note keep = delete_touched_keeps [OF del, unfolded ids]
  have "{x \<in> set (tb_modules d). mo_id (snd x) \<notin> mo_id ` set (sn_modules (ac_pg acc))} \<subseteq> set (tb_modules d')"
    using keep(4) sub(4) by blast
  moreover have "{m \<in> set (tb_community_members d). cm_module_id m \<notin> Some ` mo_id ` set (sn_modules (ac_pg acc))}
      \<subseteq> set (tb_community_members d')" using keep(5) sub(5) by blast
  ultimately show ?thesis using keep(1-3) sub(1-3) by simp
qed

definition demo_acc :: "(nat, nat, nat) ingest_accumulator" where
  "demo_acc = \<lparr>ac_pg = demo_snapshot, ac_graph = \<lparr>gs_chunk_nodes = [], gs_module_nodes = [(''1'', ''src'')],
     gs_calls_edges = [], gs_reference_edges = [], gs_implements_edges = [], gs_routes_to_edges = [],
     gs_http_call_edges = [], gs_chunk_tags = [], gs_symbol_import_edges = [], gs_module_import_edges = [],
     gs_flows = [], gs_communities = []\<rparr>\<rparr>"

definition demo_commit_env :: commit_env where
  "demo_commit_env = \<lparr>ce_now = 3, ce_pre_members = True, ce_pre_modules = True, ce_tx = 40, ce_commit = Commit_ok, ce_graph = 2\<rparr>"

theorem commit_pg_before_graph_witness:
  "export_repo_snapshot 5 ''a'' (fst (snd (commit_snapshot demo_commit_env (\<lambda>_. Some 1) ''a'' False demo_acc demo_tables)))
     = Inr (stamp 3 demo_snapshot)"
proof -
  obtain r d' ops where c: "commit_snapshot demo_commit_env (\<lambda>_. Some 1) ''a'' False demo_acc demo_tables = (r, d', ops)"
    by (metis prod.exhaust)
  have "members_own (ac_pg demo_acc)" using demo_facts(2) by (simp add: demo_acc_def)
  note all = commit_pg_before_graph [OF demo_facts(1) this c HOL.refl HOL.refl]
  have "fst (commit_snapshot demo_commit_env (\<lambda>_. Some 1) ''a'' False demo_acc demo_tables) = Inl Graph_failed" by code_simp
  with all c show ?thesis by (simp add: replaced_def demo_acc_def demo_commit_env_def)
qed

theorem preserving_commit_keeps_rows_witness:
  "set (tb_communities demo_tables)
     \<subseteq> set (tb_communities (fst (snd (commit_snapshot demo_commit_env (\<lambda>_. Some 1) ''a'' True demo_acc demo_tables))))"
proof -
  obtain r d' ops where c: "commit_snapshot demo_commit_env (\<lambda>_. Some 1) ''a'' True demo_acc demo_tables = (r, d', ops)"
    by (metis prod.exhaust)
  from preserving_commit_keeps_rows [OF c] show ?thesis unfolding c by simp
qed

end
