(* ===== verification/Community.thy ===== *)
theory Community
  imports Prelude "HOL-Library.Product_Lexorder" "HOL-Library.Monad_Syntax"
begin

text \<open>
  Community detection: the union-find fallback of \<open>akashic-domain/src/algos/community.rs\<close> and the call-graph communities
  of \<open>code_community.rs\<close>.

  The Leiden implementation (crate \<open>fa-leiden-cd\<close>) is the parameter \<open>try_leiden\<close>, which returns an assignment or
  \<open>None\<close> after a panic. The parent vector of the union-find is a list; the recursion of \<open>find\<close> is a partial function
  (\<open>None\<close>: an index out of range or no end), and the main theorem shows that it always returns.
\<close>

section \<open>Union-find\<close>

partial_function (option) uf_find :: "nat list \<Rightarrow> nat \<Rightarrow> (nat \<times> nat list) option" where
  "uf_find parent x =
     (if x < length parent then
        if parent ! x \<noteq> x then
          do { (r, parent') \<leftarrow> uf_find parent (parent ! x); Some (r, parent'[x := r]) }
        else Some (parent ! x, parent)
      else None)"

fun uf_unions :: "nat \<Rightarrow> (nat \<times> nat) list \<Rightarrow> nat list \<Rightarrow> nat list option" where
  "uf_unions node_count [] parent = Some parent"
| "uf_unions node_count ((u, v) # edges) parent =
     (if u < node_count \<and> v < node_count then
        do { (pu, p1) \<leftarrow> uf_find parent u;
             (pv, p2) \<leftarrow> uf_find p1 v;
             uf_unions node_count edges (if pu \<noteq> pv then p2[pv := pu] else p2) }
      else uf_unions node_count edges parent)"

fun uf_number :: "nat list \<Rightarrow> nat list \<Rightarrow> (nat \<rightharpoonup> nat) \<Rightarrow> nat \<Rightarrow> nat list option" where
  "uf_number [] parent ids next_id = Some []"
| "uf_number (i # is) parent ids next_id =
     do { (root, p') \<leftarrow> uf_find parent i;
          (case ids root of
             Some cid \<Rightarrow> do { rest \<leftarrow> uf_number is p' ids next_id; Some (cid # rest) }
           | None \<Rightarrow> do { rest \<leftarrow> uf_number is p' (ids(root \<mapsto> next_id)) (Suc next_id); Some (next_id # rest) }) }"

definition union_find_components :: "nat \<Rightarrow> (nat \<times> nat) list \<Rightarrow> nat list option" where
  "union_find_components node_count edges =
     do { parent \<leftarrow> uf_unions node_count edges [0..<node_count]; uf_number [0..<node_count] parent Map.empty 0 }"

definition run_leiden ::
  "(nat \<Rightarrow> (nat \<times> nat) list \<Rightarrow> 'w list \<Rightarrow> 'w \<Rightarrow> nat list option) \<Rightarrow> nat \<Rightarrow> (nat \<times> nat \<times> 'w) list \<Rightarrow> 'w \<Rightarrow> nat list option" where
  "run_leiden try_leiden node_count edges resolution =
     (let edge_pairs = map (\<lambda>(s, t, w). (s, t)) edges; weights = map (\<lambda>(s, t, w). w) edges in
      case try_leiden node_count edge_pairs weights resolution of
        Some communities \<Rightarrow>
          if length communities = node_count then Some communities else union_find_components node_count edge_pairs
      | None \<Rightarrow> union_find_components node_count edge_pairs)"

section \<open>Roots\<close>

inductive root :: "nat list \<Rightarrow> nat \<Rightarrow> nat \<Rightarrow> bool" for p where
  here: "i < length p \<Longrightarrow> p ! i = i \<Longrightarrow> root p i i"
| up: "i < length p \<Longrightarrow> p ! i \<noteq> i \<Longrightarrow> root p (p ! i) r \<Longrightarrow> root p i r"

lemma root_top: "i < length p \<Longrightarrow> p ! i = i \<Longrightarrow> root p i r \<longleftrightarrow> r = i"
  by (subst root.simps) auto

lemma root_below: "i < length p \<Longrightarrow> p ! i \<noteq> i \<Longrightarrow> root p i r \<longleftrightarrow> root p (p ! i) r"
  by (subst root.simps) auto

lemma root_fun: "root p i r \<Longrightarrow> root p i s \<Longrightarrow> r = s"
  by (induction arbitrary: s rule: root.induct) (simp_all add: root_top root_below)

lemma root_root: "root p i r \<Longrightarrow> r < length p \<and> p ! r = r"
  by (induction rule: root.induct) auto

lemma root_index: "root p i r \<Longrightarrow> i < length p"
  by (cases rule: root.cases) auto

definition uf_inv :: "nat list \<Rightarrow> bool" where
  "uf_inv p \<longleftrightarrow> (\<forall>i < length p. \<exists>r. root p i r)"

text \<open>Path compression keeps every root.\<close>

lemma root_compress:
  assumes "uf_inv p" and "root p i r"
  shows "root (p[i := r]) j s \<longleftrightarrow> root p j s"
proof -
  let ?q = "p[i := r]"
  have r: "r < length p" "p ! r = r" "i < length p" using assms(2) root_root root_index by blast+
  have top: "root ?q r r" using r by (subst root_top) (simp_all add: nth_list_update)
  have fwd: "root p j s \<Longrightarrow> root ?q j s" for j s
  proof (induction rule: root.induct)
    case (here j)
    then have "j = i \<Longrightarrow> r = i" using assms(2) root_top by blast
    with here have "?q ! j = j" by (cases "j = i") simp_all
    with here show ?case by (subst root_top) simp_all
  next
    case (up j s)
    show ?case
    proof (cases "j = i")
      case True
      then have "s = r" using up.hyps assms(2) root_fun root.up by blast
      moreover have "root ?q i r"
        using top r by (cases "r = i") (auto simp: root_below [of i ?q r])
      ultimately show ?thesis using True by simp
    next
      case False
      with up show ?thesis by (subst root_below) simp_all
    qed
  qed
  moreover have "root p j s" if "root ?q j s"
  proof -
    from root_index [OF that] assms(1) obtain s' where s': "root p j s'" by (auto simp: uf_inv_def)
    from root_fun [OF fwd [OF s'] that] s' show ?thesis by simp
  qed
  ultimately show ?thesis by blast
qed

lemma uf_find_root:
  assumes "root p i r" and "uf_inv p"
  shows "\<exists>p'. uf_find p i = Some (r, p') \<and> length p' = length p \<and> uf_inv p' \<and> (\<forall>j s. root p' j s \<longleftrightarrow> root p j s)"
  using assms
proof (induction rule: root.induct)
  case (here i)
  then show ?case by (subst uf_find.simps) simp
next
  case (up i r)
  then obtain p' where p': "uf_find p (p ! i) = Some (r, p')" "length p' = length p" "uf_inv p'"
    "\<And>j s. root p' j s \<longleftrightarrow> root p j s" by blast
  have "root p' i r" using up.hyps p'(4) by (blast intro: root.up)
  note same = root_compress [OF p'(3) this]
  then have "uf_inv (p'[i := r])" using p'(3) by (simp add: uf_inv_def)
  moreover have "uf_find p i = Some (r, p'[i := r])" using up.hyps p'(1) by (subst uf_find.simps) simp
  ultimately show ?case using same p' by simp
qed

text \<open>Linking one root below another redirects exactly its tree.\<close>

lemma root_link:
  assumes "uf_inv p" and "root p pu pu" and "root p pv pv" and "pu \<noteq> pv"
  shows "root (p[pv := pu]) j s \<longleftrightarrow> (\<exists>s0. root p j s0 \<and> s = (if s0 = pv then pu else s0))"
proof -
  let ?q = "p[pv := pu]"
  have pu: "p ! pu = pu" "pu < length p" "p ! pv = pv" "pv < length p" using assms(2,3) root_root by blast+
  have fwd: "root p j s0 \<Longrightarrow> root ?q j (if s0 = pv then pu else s0)" for j s0
  proof (induction rule: root.induct)
    case (here j)
    have "root ?q pu pu" using pu assms(4) by (subst root_top) simp_all
    then have "root ?q pv pu" using pu assms(4) by (subst root_below) simp_all
    with here show ?case by (cases "j = pv") (simp_all add: root_top)
  next
    case (up j s0)
    with pu have "j \<noteq> pv" by auto
    with up show ?case by (subst root_below) simp_all
  qed
  moreover have "\<exists>s0. root p j s0 \<and> s = (if s0 = pv then pu else s0)" if "root ?q j s"
  proof -
    from root_index [OF that] assms(1) obtain s0 where s0: "root p j s0" by (auto simp: uf_inv_def)
    from root_fun [OF fwd [OF s0] that] s0 show ?thesis by blast
  qed
  ultimately show ?thesis by blast
qed

lemma uf_inv_link:
  assumes "uf_inv p" and "root p pu pu" and "root p pv pv" and "pu \<noteq> pv"
  shows "uf_inv (p[pv := pu])"
  using assms(1) unfolding uf_inv_def root_link [OF assms] by fastforce

section \<open>Connected components\<close>

text \<open>The specification: two nodes are connected when a path of edges, taken in either direction, joins them. Edges
  with an endpoint out of range do not count.\<close>

inductive connected :: "nat \<Rightarrow> (nat \<times> nat) list \<Rightarrow> nat \<Rightarrow> nat \<Rightarrow> bool" for n es where
  refl: "i < n \<Longrightarrow> connected n es i i"
| edge: "(u, v) \<in> set es \<Longrightarrow> u < n \<Longrightarrow> v < n \<Longrightarrow> connected n es u v"
| sym: "connected n es i j \<Longrightarrow> connected n es j i"
| trans: "connected n es i j \<Longrightarrow> connected n es j k \<Longrightarrow> connected n es i k"

lemma connected_mono: "connected n es i j \<Longrightarrow> set es \<subseteq> set es' \<Longrightarrow> connected n es' i j"
  by (induction rule: connected.induct) (auto intro: connected.intros)

lemma connected_Cons: "connected n es i j \<Longrightarrow> connected n (e # es) i j"
  by (erule connected_mono) auto

definition same_tree :: "nat list \<Rightarrow> nat \<Rightarrow> nat \<Rightarrow> bool" where
  "same_tree p i j \<longleftrightarrow> (\<exists>r. root p i r \<and> root p j r)"

lemma same_tree_trans: "same_tree p i j \<Longrightarrow> same_tree p j k \<Longrightarrow> same_tree p i k"
  unfolding same_tree_def using root_fun by blast

text \<open>What holds of the parent vector once the edges \<open>es\<close> are merged.\<close>

definition merged :: "nat \<Rightarrow> (nat \<times> nat) list \<Rightarrow> nat list \<Rightarrow> bool" where
  "merged n es p \<longleftrightarrow>
     uf_inv p \<and> length p = n \<and> (\<forall>i j. same_tree p i j \<longrightarrow> connected n es i j)
     \<and> (\<forall>(u, v) \<in> set es. u < n \<longrightarrow> v < n \<longrightarrow> same_tree p u v)"

lemma merged_connected:
  assumes "merged n es p"
  shows "same_tree p i j \<longleftrightarrow> connected n es i j"
proof
  assume "connected n es i j"
  then show "same_tree p i j"
  proof (induction rule: connected.induct)
    case (refl i)
    with assms show ?case by (auto simp: merged_def uf_inv_def same_tree_def)
  next
    case (edge u v)
    with assms show ?case by (auto simp: merged_def)
  next
    case (sym i j)
    then show ?case by (auto simp: same_tree_def)
  next
    case (trans i j k)
    then show ?case by (blast intro: same_tree_trans)
  qed
qed (use assms in \<open>simp add: merged_def\<close>)

lemma merged_roots_eq:
  assumes "merged n es p" and "length p' = length p" and "uf_inv p'" and "\<And>j s. root p' j s \<longleftrightarrow> root p j s"
  shows "merged n es p'"
  using assms by (simp add: merged_def same_tree_def)

lemma merged_skip: "merged n es p \<Longrightarrow> \<not> (u < n \<and> v < n) \<Longrightarrow> merged n ((u, v) # es) p"
  unfolding merged_def by (auto intro: connected_Cons)

lemma merged_same:
  assumes "merged n es p" and "root p u r" and "root p v r"
  shows "merged n ((u, v) # es) p"
  using assms unfolding merged_def by (auto simp: same_tree_def intro: connected_Cons)

lemma merged_link:
  assumes "merged n es p" and "root p u pu" and "root p v pv" and "pu \<noteq> pv"
  shows "merged n ((u, v) # es) (p[pv := pu])"
proof -
  let ?q = "p[pv := pu]" and ?es = "(u, v) # es"
  have inv: "uf_inv p" "length p = n" using assms(1) by (simp_all add: merged_def)
  have tops: "root p pu pu" "root p pv pv" using assms(2,3) root_root root_top by blast+
  note link = root_link [OF inv(1) tops assms(4)]
  have old: "connected n ?es i j" if "same_tree p i j" for i j
    using assms(1) that by (auto simp: merged_def intro: connected_Cons)
  have uv: "connected n ?es u v"
    using root_index [OF assms(2)] root_index [OF assms(3)] inv(2) by (auto intro: connected.edge)
  have to_u: "connected n ?es i u" if "root p i s" "s = pu \<or> s = pv" for i s
    using that(2)
  proof
    assume "s = pu"
    then show ?thesis using that(1) assms(2) by (auto intro!: old simp: same_tree_def)
  next
    assume "s = pv"
    then have "connected n ?es i v" using that(1) assms(3) by (auto intro!: old simp: same_tree_def)
    then show ?thesis using uv by (blast intro: connected.sym connected.trans)
  qed
  have "connected n ?es i j" if "same_tree ?q i j" for i j
  proof -
    from that obtain si sj where s: "root p i si" "root p j sj"
      "(if si = pv then pu else si) = (if sj = pv then pu else sj)" by (auto simp: same_tree_def link)
    show ?thesis
    proof (cases "si = sj")
      case True
      with s show ?thesis by (auto intro!: old simp: same_tree_def)
    next
      case False
      with s(3) have "si = pu \<or> si = pv" "sj = pu \<or> sj = pv" by (auto split: if_splits)
      with to_u s(1,2) show ?thesis by (blast intro: connected.sym connected.trans)
    qed
  qed
  moreover have "same_tree ?q a b" if "same_tree p a b" for a b
    using that unfolding same_tree_def link by blast
  moreover have "same_tree ?q u v" using assms(2-4) by (auto simp: same_tree_def link)
  moreover have "uf_inv ?q" by (rule uf_inv_link [OF inv(1) tops assms(4)])
  ultimately show ?thesis using assms(1) inv(2) by (auto simp: merged_def)
qed

lemma uf_unions_merged:
  assumes "merged n done p"
  shows "\<exists>p'. uf_unions n es p = Some p' \<and> merged n (rev es @ done) p'"
  using assms
proof (induction es arbitrary: "done" p)
  case (Cons e es)
  obtain u v where e: "e = (u, v)" by (cases e)
  show ?case
  proof (cases "u < n \<and> v < n")
    case False
    with Cons.IH [OF merged_skip [OF Cons.prems False]] show ?thesis by (auto simp: e)
  next
    case True
    have inv: "uf_inv p" "length p = n" using Cons.prems by (simp_all add: merged_def)
    then obtain pu pv where r: "root p u pu" "root p v pv" using True unfolding uf_inv_def by blast
    obtain p1 where p1: "uf_find p u = Some (pu, p1)" "length p1 = length p" "uf_inv p1"
      "\<And>j s. root p1 j s \<longleftrightarrow> root p j s" using uf_find_root [OF r(1) inv(1)] by blast
    have "root p1 v pv" using r(2) p1(4) by simp
    then obtain p2 where p2: "uf_find p1 v = Some (pv, p2)" "length p2 = length p1" "uf_inv p2"
      "\<And>j s. root p2 j s \<longleftrightarrow> root p1 j s" using uf_find_root [OF _ p1(3)] by blast
    have m2: "merged n done p2" using merged_roots_eq [OF Cons.prems] p1 p2 by simp
    have r2: "root p2 u pu" "root p2 v pv" using r p1(4) p2(4) by simp_all
    have "merged n ((u, v) # done) (if pu \<noteq> pv then p2[pv := pu] else p2)"
      using merged_link [OF m2 r2] merged_same [OF m2 r2(1)] r2(2) by auto
    from Cons.IH [OF this] show ?thesis using True p1(1) p2(1) by (simp add: e)
  qed
qed auto

lemma merged_init: "merged n [] [0..<n]"
proof -
  have r: "root [0..<n] i r \<longleftrightarrow> i < n \<and> r = i" for i r
    by (cases "i < n") (auto simp: root_top dest: root_index)
  then show ?thesis by (auto simp: merged_def uf_inv_def same_tree_def intro: connected.refl)
qed

text \<open>Numbering gives equal ids exactly to equal roots.\<close>

definition numbering :: "(nat \<rightharpoonup> nat) \<Rightarrow> nat \<Rightarrow> bool" where
  "numbering ids next_id \<longleftrightarrow>
     (\<forall>x y c. ids x = Some c \<longrightarrow> ids y = Some c \<longrightarrow> x = y) \<and> (\<forall>r c. ids r = Some c \<longrightarrow> c < next_id)"

lemma numbering_extend:
  assumes "numbering ids k" and "ids r = None"
  shows "numbering (ids(r \<mapsto> k)) (Suc k)"
proof -
  have new: "ids x \<noteq> Some k" for x using assms(1) by (auto simp: numbering_def)
  have "x = y" if "(ids(r \<mapsto> k)) x = Some c" "(ids(r \<mapsto> k)) y = Some c" for x y c
  proof (cases "c = k")
    case True
    with that new show ?thesis by (simp split: if_splits)
  next
    case False
    with that have "ids x = Some c" "ids y = Some c" by (simp_all split: if_splits)
    with assms(1) show ?thesis by (simp add: numbering_def)
  qed
  moreover have "c < Suc k" if "(ids(r \<mapsto> k)) x = Some c" for x c
    using that assms(1) by (simp add: numbering_def less_Suc_eq split: if_splits)
  ultimately show ?thesis unfolding numbering_def by blast
qed

lemma uf_number_roots:
  assumes "uf_inv p" and "\<forall>i \<in> set is. i < length p" and "numbering ids k"
  shows "\<exists>res ids' k'. uf_number is p ids k = Some res \<and> length res = length is \<and> ids \<subseteq>\<^sub>m ids' \<and> numbering ids' k'
     \<and> (\<forall>j < length is. \<forall>r. root p (is ! j) r \<longrightarrow> ids' r = Some (res ! j))"
  using assms
proof (induction "is" arbitrary: p ids k)
  case (Cons i "is")
  then obtain r where r: "root p i r" by (auto simp: uf_inv_def)
  obtain p' where p': "uf_find p i = Some (r, p')" "length p' = length p" "uf_inv p'"
    "\<And>j s. root p' j s \<longleftrightarrow> root p j s" using uf_find_root [OF r Cons.prems(1)] by blast
  define c where "c = (case ids r of Some c \<Rightarrow> c | None \<Rightarrow> k)"
  define ids1 where "ids1 = (case ids r of Some c \<Rightarrow> ids | None \<Rightarrow> ids(r \<mapsto> k))"
  define k1 where "k1 = (case ids r of Some c \<Rightarrow> k | None \<Rightarrow> Suc k)"
  have n1: "numbering ids1 k1" "ids \<subseteq>\<^sub>m ids1" "ids1 r = Some c"
    using Cons.prems(3) numbering_extend
    by (auto simp: ids1_def k1_def c_def map_le_def split: option.splits)
  obtain res ids' k' where rest: "uf_number is p' ids1 k1 = Some res" "length res = length is" "ids1 \<subseteq>\<^sub>m ids'"
    "numbering ids' k'" "\<And>j s. j < length is \<Longrightarrow> root p (is ! j) s \<Longrightarrow> ids' s = Some (res ! j)"
    using Cons.IH [OF p'(3) _ n1(1)] Cons.prems(2) p'(2,4) by auto
  have "uf_number (i # is) p ids k = Some (c # res)"
    using p'(1) rest(1) by (simp add: ids1_def k1_def c_def split: option.splits)
  moreover have "ids' r = Some c" using n1(3) rest(3) by (metis domI map_le_def)
  moreover have "\<forall>s. root p i s \<longrightarrow> s = r" using r root_fun by blast
  ultimately show ?case
    using rest n1(2) map_le_trans
    by (intro exI [of _ "c # res"] exI [of _ ids'] exI [of _ k']) (auto simp: nth_Cons split: nat.splits)
next
  case Nil
  then show ?case by (auto intro: map_le_refl)
qed

lemma uf_components:
  "\<exists>res. union_find_components n es = Some res \<and> length res = n
     \<and> (\<forall>i < n. \<forall>j < n. res ! i = res ! j \<longleftrightarrow> connected n es i j)"
proof -
  obtain p where p: "uf_unions n es [0..<n] = Some p" "merged n (rev es) p"
    using uf_unions_merged [OF merged_init, of n es] by auto
  have inv: "uf_inv p" "length p = n" using p(2) by (simp_all add: merged_def)
  have "numbering Map.empty 0" by (simp add: numbering_def)
  then obtain res ids k where res: "uf_number [0..<n] p Map.empty 0 = Some res" "length res = n" "numbering ids k"
    "\<And>j r. j < n \<Longrightarrow> root p j r \<Longrightarrow> ids r = Some (res ! j)"
    using uf_number_roots [OF inv(1), of "[0..<n]" Map.empty 0] inv(2) by auto
  have "res ! i = res ! j \<longleftrightarrow> connected n es i j" if "i < n" "j < n" for i j
  proof -
    from that inv obtain ri rj where r: "root p i ri" "root p j rj" unfolding uf_inv_def by blast
    have ids: "ids ri = Some (res ! i)" "ids rj = Some (res ! j)" using res(4) that r by blast+
    then have "res ! i = res ! j \<longleftrightarrow> ri = rj"
      using res(3) unfolding numbering_def by (metis option.inject)
    also have "\<dots> \<longleftrightarrow> same_tree p i j" unfolding same_tree_def using r root_fun by blast
    also have "\<dots> \<longleftrightarrow> connected n (rev es) i j" by (rule merged_connected [OF p(2)])
    also have "\<dots> \<longleftrightarrow> connected n es i j" using connected_mono by (metis set_rev subset_refl)
    finally show ?thesis .
  qed
  with p(1) res(1,2) show ?thesis by (simp add: union_find_components_def)
qed

lemma union_find_components_length: "union_find_components n es = Some res \<Longrightarrow> length res = n"
  using uf_components [of n es] by auto

text \<open>C14. The union-find fallback returns, and its communities are the connected components: two nodes get the same
  community id exactly when a path of edges joins them.\<close>

theorem union_find_components_correct:
  "\<exists>res. union_find_components n es = Some res \<and> length res = n
     \<and> (\<forall>i < n. \<forall>j < n. res ! i = res ! j \<longleftrightarrow> connected n es i j)"
  by (rule uf_components)

theorem union_find_components_correct_witness:
  "\<exists>res. union_find_components 3 [(0, 2)] = Some res \<and> res ! 0 = res ! 2"
proof -
  obtain res where "union_find_components 3 [(0, 2)] = Some res"
    "\<forall>i < 3. \<forall>j < 3. res ! i = res ! j \<longleftrightarrow> connected 3 [(0, 2)] i j"
    using union_find_components_correct [of 3 "[(0, 2)]"] by blast
  moreover have "connected 3 [(0, 2)] 0 2" by (rule connected.edge) simp_all
  ultimately show ?thesis by (auto intro!: exI [of _ res])
qed

section \<open>Call-graph communities\<close>

record 'w community_edge =
  ed_source_id :: string
  ed_source_name :: string
  ed_source_module :: string
  ed_target_id :: string
  ed_target_name :: string
  ed_target_module :: string
  ed_weight :: 'w

record community_member =
  mb_name :: string
  mb_module :: string

record community =
  cy_label :: string
  cy_size :: nat
  cy_members :: "community_member list"

text \<open>Iterating a hash map visits its entries in an unspecified order: \<open>hash_order\<close> and \<open>hash_order'\<close> permute the keys.\<close>

definition intern ::
  "string \<Rightarrow> string \<Rightarrow> string \<Rightarrow> (string \<rightharpoonup> nat) \<times> community_member list \<Rightarrow> nat \<times> (string \<rightharpoonup> nat) \<times> community_member list" where
  "intern i nm md st =
     (case st of (index, meta) \<Rightarrow>
        (case index i of
           Some k \<Rightarrow> (k, index, meta)
         | None \<Rightarrow> (length meta, index(i \<mapsto> length meta), meta @ [\<lparr>mb_name = nm, mb_module = md\<rparr>])))"

fun index_edges ::
  "'w community_edge list \<Rightarrow> (string \<rightharpoonup> nat) \<times> community_member list
   \<Rightarrow> (nat \<times> nat \<times> 'w) list \<times> (string \<rightharpoonup> nat) \<times> community_member list" where
  "index_edges [] st = ([], st)"
| "index_edges (e # es) st =
     (let (s, st1) = intern (ed_source_id e) (ed_source_name e) (ed_source_module e) st;
          (t, st2) = intern (ed_target_id e) (ed_target_name e) (ed_target_module e) st1;
          (rest, st3) = index_edges es st2
      in ((s, t, ed_weight e) # rest, st3))"

definition module_count :: "community_member list \<Rightarrow> string \<Rightarrow> nat" where
  "module_count members m = length (filter (\<lambda>x. mb_module x = m) members)"

definition beats :: "community_member list \<Rightarrow> string \<Rightarrow> string \<Rightarrow> bool" where
  "beats members a b \<longleftrightarrow>
     module_count members b < module_count members a \<or> module_count members a = module_count members b \<and> a < b"

definition dominant_module :: "(string list \<Rightarrow> string list) \<Rightarrow> community_member list \<Rightarrow> string" where
  "dominant_module hash_order' members =
     (case hash_order' (remdups (map mb_module members)) of
        [] \<Rightarrow> []
      | m # ms \<Rightarrow> foldl (\<lambda>best x. if beats members best x then best else x) m ms)"

definition community_of :: "(string list \<Rightarrow> string list) \<Rightarrow> community_member list \<Rightarrow> nat list \<Rightarrow> community" where
  "community_of hash_order' meta node_idxs =
     (let members = sort_key (\<lambda>m. (mb_module m, mb_name m)) (map (\<lambda>i. meta ! i) node_idxs) in
      \<lparr>cy_label = dominant_module hash_order' members, cy_size = length members, cy_members = members\<rparr>)"

definition community_key :: "community \<Rightarrow> int \<times> string \<times> (string \<times> string) list" where
  "community_key c = (- int (cy_size c), cy_label c, map (\<lambda>m. (mb_name m, mb_module m)) (cy_members c))"

definition bucket :: "nat list \<Rightarrow> nat \<Rightarrow> nat list" where
  "bucket assignments cid = filter (\<lambda>i. assignments ! i = cid) [0..<length assignments]"

definition group_communities ::
  "(nat list \<Rightarrow> nat list) \<Rightarrow> (string list \<Rightarrow> string list) \<Rightarrow> community_member list \<Rightarrow> nat list \<Rightarrow> community list" where
  "group_communities hash_order hash_order' meta assignments =
     sort_key community_key
       (map (\<lambda>cid. community_of hash_order' meta (bucket assignments cid)) (hash_order (remdups assignments)))"

definition detect_communities ::
  "(nat \<Rightarrow> (nat \<times> nat) list \<Rightarrow> 'w list \<Rightarrow> 'w \<Rightarrow> nat list option) \<Rightarrow> 'w \<Rightarrow> (nat list \<Rightarrow> nat list)
   \<Rightarrow> (string list \<Rightarrow> string list) \<Rightarrow> 'w community_edge list \<Rightarrow> community list option" where
  "detect_communities try_leiden one hash_order hash_order' edges =
     (if edges = [] then Some []
      else let (idx_edges, index, meta) = index_edges edges (Map.empty, []) in
        map_option (group_communities hash_order hash_order' meta) (run_leiden try_leiden (length meta) idx_edges one))"

section \<open>Grouping is a partition and does not depend on hash order\<close>

lemma beats_trans: "beats ms a b \<Longrightarrow> beats ms b c \<Longrightarrow> beats ms a c"
  by (auto simp: beats_def)

lemma beats_total: "a \<noteq> b \<Longrightarrow> beats ms a b \<or> beats ms b a"
  by (auto simp: beats_def)

lemma beats_irrefl: "\<not> beats ms a a"
  by (simp add: beats_def)

text \<open>The dominant module beats every other module.\<close>

lemma foldl_beats:
  "let r = foldl (\<lambda>best x. if beats ms best x then best else x) b xs in
   r \<in> set (b # xs) \<and> (\<forall>x \<in> set (b # xs). x = r \<or> beats ms r x)"
proof (induction xs arbitrary: b)
  case (Cons x xs)
  show ?case
  proof (cases "beats ms b x")
    case True
    with Cons.IH [of b] show ?thesis by (auto simp: Let_def intro: beats_trans)
  next
    case False
    then have "b = x \<or> beats ms x b" using beats_total by blast
    with False Cons.IH [of x] show ?thesis by (auto simp: Let_def intro: beats_trans)
  qed
qed simp

lemma dominant_unique:
  assumes "\<And>xs. mset (h xs) = mset xs" and "\<And>xs. mset (h' xs) = mset xs"
  shows "dominant_module h ms = dominant_module h' ms"
proof (cases "ms = []")
  case True
  have "h [] = []" "h' [] = []" using assms(1) [of "[]"] assms(2) [of "[]"] by simp_all
  with True show ?thesis by (simp add: dominant_module_def)
next
  case False
  let ?mods = "remdups (map mb_module ms)"
  have ne: "h ?mods \<noteq> []" "h' ?mods \<noteq> []"
    using False assms(1) [of ?mods] assms(2) [of ?mods] by (metis mset_zero_iff map_is_Nil_conv remdups_eq_nil_iff)+
  have best: "dominant_module k ms \<in> set ?mods \<and> (\<forall>x \<in> set ?mods. x = dominant_module k ms \<or> beats ms (dominant_module k ms) x)"
    if k: "k ?mods \<noteq> []" "mset (k ?mods) = mset ?mods" for k
  proof -
    obtain b xs where "k ?mods = b # xs" using k(1) by (cases "k ?mods") auto
    moreover from this have "set (b # xs) = set ?mods" using k(2) by (metis set_mset_mset)
    ultimately show ?thesis using foldl_beats [of ms b xs] by (simp add: dominant_module_def Let_def)
  qed
  from best [of h, OF ne(1) assms(1)] best [of h', OF ne(2) assms(2)] beats_trans beats_irrefl show ?thesis by metis
qed

lemma inj_community_key: "inj community_key"
proof (rule injI)
  fix a b :: community
  assume eq: "community_key a = community_key b"
  have "inj (\<lambda>m :: community_member. (mb_name m, mb_module m))" by (rule injI) simp
  with eq have "cy_members a = cy_members b" by (auto simp: community_key_def dest: map_injective)
  with eq show "a = b" by (simp add: community_key_def)
qed

lemma sort_key_mset:
  assumes "inj k" and "mset xs = mset ys"
  shows "sort_key k xs = sort_key (k :: 'a \<Rightarrow> 'b :: linorder) ys"
proof -
  have "map k (sort_key k xs) = sort (map k xs)" for xs
    by (rule properties_for_sort [symmetric]) simp_all
  then have "map k (sort_key k xs) = map k (sort_key k ys)"
    using assms(2) by (metis mset_map properties_for_sort mset_sort sorted_sort)
  then show ?thesis using assms(1) map_injective by blast
qed

text \<open>The communities do not depend on the iteration order of the hash maps: for any two orders the result, order of
  the list, labels and members included, is the same.\<close>

theorem group_communities_deterministic:
  assumes "\<And>xs. mset (h1 xs) = mset xs" and "\<And>xs. mset (h2 xs) = mset xs"
    and "\<And>xs. mset (h1' xs) = mset xs" and "\<And>xs. mset (h2' xs) = mset xs"
  shows "detect_communities try_leiden one h1 h1' edges = detect_communities try_leiden one h2 h2' edges"
proof -
  have "community_of h1' meta = community_of h2' meta" for meta
    using dominant_unique [OF assms(3,4)] by (simp add: fun_eq_iff community_of_def)
  then have "group_communities h1 h1' meta = group_communities h2 h2' meta" for meta
    using assms(1,2) by (auto simp: fun_eq_iff group_communities_def intro!: sort_key_mset inj_community_key)
  then show ?thesis by (simp add: detect_communities_def split: prod.splits)
qed

definition demo_edges :: "nat community_edge list" where
  "demo_edges = [\<lparr>ed_source_id = ''1'', ed_source_name = ''f'', ed_source_module = ''m'', ed_target_id = ''2'',
     ed_target_name = ''g'', ed_target_module = ''k'', ed_weight = 1\<rparr>]"

theorem group_communities_deterministic_witness:
  "detect_communities (\<lambda>_ _ _ _. None) 1 rev rev demo_edges = detect_communities (\<lambda>_ _ _ _. None) 1 id id demo_edges"
  by (rule group_communities_deterministic) simp_all

text \<open>Every node lands in exactly one bucket.\<close>

lemma buckets_partition:
  assumes "mset cids = mset (remdups as)"
  shows "mset (concat (map (bucket as) cids)) = mset [0..<length as]"
proof -
  have d: "distinct cids" using assms by (metis distinct_remdups mset_eq_imp_distinct_iff)
  have s: "set cids = set as" using assms by (metis mset_eq_setD set_remdups)
  have "distinct cs \<Longrightarrow> distinct (concat (map (bucket as) cs))" for cs
    by (induction cs) (auto simp: bucket_def)
  with d have "distinct (concat (map (bucket as) cids))" by blast
  moreover have "set (concat (map (bucket as) cids)) = set [0..<length as]" using s by (auto simp: bucket_def)
  ultimately show ?thesis by (simp add: set_eq_iff_mset_eq_distinct [symmetric] del: mset_upt)
qed

lemma group_members:
  assumes "\<And>xs. mset (h xs) = mset xs" and "length as = length meta"
  shows "mset (concat (map cy_members (group_communities h h' meta as))) = mset meta"
proof -
  let ?cids = "h (remdups as)"
  have "mset (concat (map cy_members (group_communities h h' meta as)))
      = \<Sum>\<^sub># (mset (map (\<lambda>c. mset (cy_members c)) (group_communities h h' meta as)))"
    by (simp only: mset_concat sum_mset_sum_list map_map comp_def)
  also have "\<dots> = \<Sum>\<^sub># (mset (map (\<lambda>cid. mset (map (\<lambda>i. meta ! i) (bucket as cid))) ?cids))"
    by (simp add: group_communities_def community_of_def Let_def comp_def image_mset.compositionality)
  also have "\<dots> = mset (map (\<lambda>i. meta ! i) (concat (map (bucket as) ?cids)))"
    by (simp only: mset_concat map_concat sum_mset_sum_list map_map comp_def)
  also have "\<dots> = image_mset (\<lambda>i. meta ! i) (mset [0..<length as])"
    using buckets_partition [OF assms(1), of as] by (simp only: mset_map)
  also have "\<dots> = mset (map (\<lambda>i. meta ! i) [0..<length meta])" using assms(2) by (simp only: mset_map)
  also have "\<dots> = mset meta" by (simp add: map_nth)
  finally show ?thesis .
qed

text \<open>The endpoints of the edges in order, one entry per id (the first).\<close>

definition endpoints :: "'w community_edge list \<Rightarrow> (string \<times> community_member) list" where
  "endpoints es = concat (map (\<lambda>e.
     [(ed_source_id e, \<lparr>mb_name = ed_source_name e, mb_module = ed_source_module e\<rparr>),
      (ed_target_id e, \<lparr>mb_name = ed_target_name e, mb_module = ed_target_module e\<rparr>)]) es)"

function first_by_id :: "(string \<times> 'm) list \<Rightarrow> (string \<times> 'm) list" where
  "first_by_id [] = []"
| "first_by_id (x # xs) = x # first_by_id (filter (\<lambda>y. fst y \<noteq> fst x) xs)"
  by pat_completeness auto
termination by (relation "measure length") (auto simp: le_imp_less_Suc)

lemma first_by_id_filter:
  "first_by_id (filter (\<lambda>y. fst y \<notin> D) (x # xs)) =
     (if fst x \<in> D then first_by_id (filter (\<lambda>y. fst y \<notin> D) xs)
      else x # first_by_id (filter (\<lambda>y. fst y \<notin> insert (fst x) D) xs))"
  by (simp add: conj_commute)

lemma intern_step:
  assumes "intern i nm md (index, meta) = (k, index', meta')"
  shows "dom index' = insert i (dom index)"
    and "meta' = (if i \<in> dom index then meta else meta @ [\<lparr>mb_name = nm, mb_module = md\<rparr>])"
  using assms by (auto simp: intern_def split: option.splits)

lemma index_edges_meta:
  "index_edges es (index, meta) = (idx, index', meta') \<Longrightarrow>
     meta' = meta @ map snd (first_by_id (filter (\<lambda>y. fst y \<notin> dom index) (endpoints es)))"
proof (induction es arbitrary: index meta idx index' meta')
  case Nil
  then show ?case by (simp add: endpoints_def)
next
  case (Cons e es)
  let ?s = "(ed_source_id e, \<lparr>mb_name = ed_source_name e, mb_module = ed_source_module e\<rparr>)"
  let ?t = "(ed_target_id e, \<lparr>mb_name = ed_target_name e, mb_module = ed_target_module e\<rparr>)"
  obtain k1 i1 m1 where s: "intern (ed_source_id e) (ed_source_name e) (ed_source_module e) (index, meta) = (k1, i1, m1)"
    by (metis prod.exhaust)
  obtain k2 i2 m2 where t: "intern (ed_target_id e) (ed_target_name e) (ed_target_module e) (i1, m1) = (k2, i2, m2)"
    by (metis prod.exhaust)
  obtain r i3 m3 where rest: "index_edges es (i2, m2) = (r, i3, m3)" by (metis prod.exhaust)
  have e: "endpoints (e # es) = ?s # ?t # endpoints es" by (simp add: endpoints_def)
  have "meta' = m2 @ map snd (first_by_id (filter (\<lambda>y. fst y \<notin> dom i2) (endpoints es)))"
    using Cons.prems s t rest Cons.IH [OF rest] by simp
  then show ?case
    unfolding e first_by_id_filter intern_step [OF s] intern_step [OF t]
    by (cases "ed_source_id e \<in> dom index"; cases "ed_target_id e \<in> insert (ed_source_id e) (dom index)")
       (simp_all only: fst_conv snd_conv insert_absorb if_True if_False list.map append_assoc append.simps simp_thms)
qed

text \<open>The communities partition the symbols: whatever assignment the clustering returns, every symbol that occurs
  in a call edge is a member of exactly one community, once, with the name and module of its first occurrence; the
  communities are ordered by decreasing size and each states its size.\<close>

theorem communities_partition_symbols:
  assumes "\<And>xs. mset (h xs) = mset xs" and "detect_communities try_leiden one h h' edges = Some cs"
  shows "mset (concat (map cy_members cs)) = mset (map snd (first_by_id (endpoints edges)))
    \<and> sorted_wrt (\<lambda>a b. cy_size b \<le> cy_size a) cs \<and> (\<forall>c \<in> set cs. cy_size c = length (cy_members c))"
proof (cases "edges = []")
  case True
  with assms(2) show ?thesis by (simp add: detect_communities_def endpoints_def)
next
  case False
  obtain idx index meta where ix: "index_edges edges (Map.empty, []) = (idx, index, meta)" by (metis prod.exhaust)
  with False assms(2) obtain as where as: "run_leiden try_leiden (length meta) idx one = Some as"
    and cs: "cs = group_communities h h' meta as" by (auto simp: detect_communities_def)
  have "length as = length meta"
    using as union_find_components_length by (auto simp: run_leiden_def Let_def split: option.splits if_splits)
  then have "mset (concat (map cy_members cs)) = mset meta" unfolding cs by (rule group_members [OF assms(1)])
  moreover have "meta = map snd (first_by_id (endpoints edges))" using index_edges_meta [OF ix] by simp
  moreover have "sorted_wrt (\<lambda>a b. cy_size b \<le> cy_size a) cs"
  proof -
    have "sorted (map community_key cs)" unfolding cs group_communities_def by (rule sorted_sort_key)
    then show ?thesis by (auto simp: sorted_map community_key_def elim!: sorted_wrt_mono_rel [rotated])
  qed
  moreover have "\<forall>c \<in> set cs. cy_size c = length (cy_members c)"
    by (auto simp: cs group_communities_def community_of_def Let_def)
  ultimately show ?thesis by simp
qed

theorem communities_partition_symbols_witness:
  "\<exists>cs. detect_communities (\<lambda>_ _ _ _. None) 1 rev rev demo_edges = Some cs
     \<and> mset (concat (map cy_members cs)) = {#\<lparr>mb_name = ''f'', mb_module = ''m''\<rparr>, \<lparr>mb_name = ''g'', mb_module = ''k''\<rparr>#}"
proof -
  obtain as where "union_find_components (Suc (Suc 0)) [(0, Suc 0)] = Some as" using uf_components by blast
  then obtain cs where cs: "detect_communities (\<lambda>_ _ _ _. None) 1 rev rev demo_edges = Some cs"
    by (simp add: detect_communities_def run_leiden_def demo_edges_def intern_def)
  have "mset (rev xs) = mset xs" for xs :: "nat list" by simp
  from communities_partition_symbols [OF this cs] have
    "mset (concat (map cy_members cs)) = mset (map snd (first_by_id (endpoints demo_edges)))" by simp
  also have "\<dots> = {#\<lparr>mb_name = ''f'', mb_module = ''m''\<rparr>, \<lparr>mb_name = ''g'', mb_module = ''k''\<rparr>#}"
    by (simp add: demo_edges_def endpoints_def)
  finally show ?thesis using cs by blast
qed

end
