(* ===== verification/Http_Link.thy ===== *)
theory Http_Link
  imports Rust_Text
begin

text \<open>
  Cross-service HTTP links (\<open>akashic-domain/src/algos/http_link.rs\<close>): matching client calls against server routes, with
  the routes bucketed by segment count, and the list of dangling calls.
\<close>

record http_call_site =
  hc_caller_pg_id :: string
  hc_caller_repo :: string
  hc_caller_fqn :: string
  hc_http_method :: string
  hc_http_path :: string

record route_site =
  rs_handler_pg_id :: string
  rs_handler_repo :: string
  rs_handler_fqn :: string
  rs_http_method :: string
  rs_http_path :: string

datatype match_kind = Exact | Param

record cross_service_link =
  cl_caller_pg_id :: string
  cl_handler_pg_id :: string
  cl_http_method :: string
  cl_http_path :: string
  cl_matched_via :: match_kind
  cl_cross_repo :: bool

record cross_service_link_item =
  li_caller_repo :: string
  li_caller_fqn :: string
  li_handler_repo :: string
  li_handler_fqn :: string
  li_http_method :: string
  li_http_path :: string
  li_matched_via :: "match_kind option"
  li_cross_repo :: bool

section \<open>Matching\<close>

definition normalize_path :: "string \<Rightarrow> string" where
  "normalize_path p = (if length p > 1 then (if ends_with ''/'' p then butlast p else p) else p)"

definition is_param_segment :: "string \<Rightarrow> bool" where
  "is_param_segment seg \<longleftrightarrow>
     starts_with '':'' seg \<or> starts_with ''{'' seg \<and> ends_with ''}'' seg \<and> length seg \<ge> 2"

definition eq_ignore_ascii_case :: "string \<Rightarrow> string \<Rightarrow> bool" where
  "eq_ignore_ascii_case a b \<longleftrightarrow> map ascii_lower a = map ascii_lower b"

definition method_matches :: "string \<Rightarrow> string \<Rightarrow> bool" where
  "method_matches call_method route_method \<longleftrightarrow>
     eq_ignore_ascii_case call_method ''ANY'' \<or> eq_ignore_ascii_case route_method ''ANY''
     \<or> eq_ignore_ascii_case call_method route_method"

fun match_segments :: "bool \<Rightarrow> string list \<Rightarrow> string list \<Rightarrow> match_kind option" where
  "match_segments saw_param (c # cs) (r # rs) =
     (if is_param_segment r then (if c = [] then None else match_segments True cs rs)
      else if c \<noteq> r then None else match_segments saw_param cs rs)"
| "match_segments saw_param cs rs = Some (if saw_param then Param else Exact)"

definition path_matches :: "string \<Rightarrow> string \<Rightarrow> match_kind option" where
  "path_matches call_path route_path =
     (let call_n = normalize_path call_path; route_n = normalize_path route_path in
      if call_n = route_n then Some Exact
      else
        let call_segs = split_char CHR ''/'' call_n; route_segs = split_char CHR ''/'' route_n in
        if length call_segs \<noteq> length route_segs then None else match_segments False call_segs route_segs)"

definition link_of :: "http_call_site \<Rightarrow> route_site \<Rightarrow> match_kind \<Rightarrow> cross_service_link" where
  "link_of call route via =
     \<lparr>cl_caller_pg_id = hc_caller_pg_id call, cl_handler_pg_id = rs_handler_pg_id route,
      cl_http_method = hc_http_method call, cl_http_path = hc_http_path call, cl_matched_via = via,
      cl_cross_repo = (hc_caller_repo call \<noteq> rs_handler_repo route)\<rparr>"

definition match_route :: "http_call_site \<Rightarrow> route_site \<Rightarrow> cross_service_link list" where
  "match_route call route =
     (if \<not> method_matches (hc_http_method call) (rs_http_method route) then []
      else case path_matches (hc_http_path call) (rs_http_path route) of
             None \<Rightarrow> [] | Some via \<Rightarrow> [link_of call route via])"

definition seg_count :: "string \<Rightarrow> nat" where
  "seg_count p = length (split_char CHR ''/'' (normalize_path p))"

text \<open>The hash map from segment counts to routes, in input order.\<close>

fun by_seg_count :: "route_site list \<Rightarrow> (nat \<rightharpoonup> route_site list) \<Rightarrow> (nat \<rightharpoonup> route_site list)" where
  "by_seg_count [] m = m"
| "by_seg_count (r # rs) m =
     (let k = seg_count (rs_http_path r) in
      by_seg_count rs (m(k \<mapsto> (case m k of None \<Rightarrow> [] | Some b \<Rightarrow> b) @ [r])))"

definition link_calls :: "http_call_site list \<Rightarrow> route_site list \<Rightarrow> cross_service_link list" where
  "link_calls calls routes =
     (let buckets = by_seg_count routes Map.empty in
      concat (map (\<lambda>call. case buckets (seg_count (hc_http_path call)) of
                            None \<Rightarrow> [] | Some bucket \<Rightarrow> concat (map (match_route call) bucket)) calls))"

definition dangling_calls :: "http_call_site list \<Rightarrow> cross_service_link list \<Rightarrow> cross_service_link_item list" where
  "dangling_calls calls links =
     (let linked = map (\<lambda>l. (cl_caller_pg_id l, cl_http_method l, cl_http_path l)) links in
      map (\<lambda>c. \<lparr>li_caller_repo = hc_caller_repo c, li_caller_fqn = hc_caller_fqn c, li_handler_repo = [],
                li_handler_fqn = [], li_http_method = hc_http_method c, li_http_path = hc_http_path c,
                li_matched_via = None, li_cross_repo = False\<rparr>)
        (filter (\<lambda>c. (hc_caller_pg_id c, hc_http_method c, hc_http_path c) \<notin> set linked) calls))"

section \<open>Properties\<close>

lemma by_seg_count_lookup:
  "by_seg_count routes m k =
     (if filter (\<lambda>r. seg_count (rs_http_path r) = k) routes = [] then m k
      else Some ((case m k of None \<Rightarrow> [] | Some b \<Rightarrow> b) @ filter (\<lambda>r. seg_count (rs_http_path r) = k) routes))"
  by (induction routes arbitrary: m) (auto simp: Let_def split: option.splits)

lemma match_route_other_bucket:
  "seg_count (rs_http_path route) \<noteq> seg_count (hc_http_path call) \<Longrightarrow> match_route call route = []"
  by (auto simp: match_route_def path_matches_def seg_count_def Let_def split: option.splits if_splits)

lemma concat_filter_empty: "(\<And>x. x \<in> set xs \<Longrightarrow> \<not> p x \<Longrightarrow> f x = []) \<Longrightarrow> concat (map f (filter p xs)) = concat (map f xs)"
  by (induction xs) auto

lemma link_calls_all:
  "link_calls calls routes = concat (map (\<lambda>call. concat (map (match_route call) routes)) calls)"
proof -
  have "(case by_seg_count routes Map.empty (seg_count (hc_http_path call)) of
           None \<Rightarrow> [] | Some bucket \<Rightarrow> concat (map (match_route call) bucket))
        = concat (map (match_route call) (filter (\<lambda>r. seg_count (rs_http_path r) = seg_count (hc_http_path call)) routes))"
    for call by (simp add: by_seg_count_lookup)
  then show ?thesis by (simp add: link_calls_def Let_def concat_filter_empty match_route_other_bucket)
qed

text \<open>C15. Bucketing routes by segment count changes nothing: the links are those of the full cross product, in the
  same order (calls outer, routes inner).\<close>

theorem link_calls_cross_product:
  "link_calls calls routes = concat (map (\<lambda>call. concat (map (match_route call) routes)) calls)"
  by (rule link_calls_all)

text \<open>A route pattern as a relation: segment by segment, a placeholder takes any non-empty segment.\<close>

definition segments_match :: "string list \<Rightarrow> string list \<Rightarrow> bool" where
  "segments_match cs rs \<longleftrightarrow> list_all2 (\<lambda>c r. if is_param_segment r then c \<noteq> [] else c = r) cs rs"

lemma match_segments_iff:
  "length cs = length rs \<Longrightarrow>
     match_segments b cs rs = (if segments_match cs rs then Some (if b \<or> list_ex is_param_segment rs then Param else Exact) else None)"
proof (induction cs rs arbitrary: b rule: list_induct2)
  case (Cons c cs r rs)
  then show ?case by (auto simp: segments_match_def)
qed (simp add: segments_match_def)

lemma param_free_match_eq: "segments_match cs rs \<Longrightarrow> \<not> list_ex is_param_segment rs \<Longrightarrow> cs = rs"
  unfolding segments_match_def by (induction rule: list_all2_induct) auto

text \<open>Path matching: the result is exact precisely for equal normalized paths, and otherwise a parameter match
  precisely when the paths have the same segments up to placeholders standing for non-empty segments. The defensive
  branch of the code, a match without a placeholder of different paths, does not occur.\<close>

theorem path_matches_spec:
  "path_matches c r =
     (if normalize_path c = normalize_path r then Some Exact
      else if segments_match (split_char CHR ''/'' (normalize_path c)) (split_char CHR ''/'' (normalize_path r)) then Some Param
      else None)"
proof -
  let ?c = "split_char CHR ''/'' (normalize_path c)" and ?r = "split_char CHR ''/'' (normalize_path r)"
  have "normalize_path c \<noteq> normalize_path r \<Longrightarrow> segments_match ?c ?r \<Longrightarrow> list_ex is_param_segment ?r"
    using param_free_match_eq split_char_inj by blast
  moreover have "length ?c \<noteq> length ?r \<Longrightarrow> \<not> segments_match ?c ?r"
    unfolding segments_match_def using list_all2_lengthD by blast
  ultimately show ?thesis by (auto simp: path_matches_def Let_def match_segments_iff)
qed

text \<open>The dangling calls are exactly the calls that no route matches, in input order: a call that shares its caller,
  method and path with a matched call is matched too.\<close>

theorem dangling_calls_exact:
  "map (\<lambda>i. (li_caller_repo i, li_caller_fqn i, li_http_method i, li_http_path i)) (dangling_calls calls (link_calls calls routes))
   = map (\<lambda>c. (hc_caller_repo c, hc_caller_fqn c, hc_http_method c, hc_http_path c))
       (filter (\<lambda>c. \<not> (\<exists>r \<in> set routes. method_matches (hc_http_method c) (rs_http_method r)
                        \<and> path_matches (hc_http_path c) (rs_http_path r) \<noteq> None)) calls)"
proof -
  let ?key = "\<lambda>c. (hc_caller_pg_id c, hc_http_method c, hc_http_path c)"
  let ?links = "map (\<lambda>l. (cl_caller_pg_id l, cl_http_method l, cl_http_path l)) (link_calls calls routes)"
  let ?hit = "\<lambda>c. \<exists>r \<in> set routes. method_matches (hc_http_method c) (rs_http_method r)
                  \<and> path_matches (hc_http_path c) (rs_http_path r) \<noteq> None"
  have keys: "l \<in> set (match_route c r) \<Longrightarrow> (cl_caller_pg_id l, cl_http_method l, cl_http_path l) = ?key c" for l c r
    by (auto simp: match_route_def link_of_def split: if_splits option.splits)
  have ne: "match_route c r \<noteq> [] \<longleftrightarrow> method_matches (hc_http_method c) (rs_http_method r)
      \<and> path_matches (hc_http_path c) (rs_http_path r) \<noteq> None" for c r
    by (auto simp: match_route_def split: option.splits)
  have "?key c \<in> set ?links \<longleftrightarrow> ?hit c" if "c \<in> set calls" for c
  proof
    assume "?key c \<in> set ?links"
    then obtain c' r l where l: "r \<in> set routes" "l \<in> set (match_route c' r)"
      "?key c = (cl_caller_pg_id l, cl_http_method l, cl_http_path l)" by (auto simp: link_calls_all)
    with keys [OF l(2)] ne [of c' r] show "?hit c" by (auto intro!: bexI [of _ r])
  next
    assume "?hit c"
    then obtain r where r: "r \<in> set routes" "match_route c r \<noteq> []" using ne by blast
    then obtain l where l: "l \<in> set (match_route c r)" by (cases "match_route c r") auto
    with r that have "l \<in> set (link_calls calls routes)" by (auto simp: link_calls_all)
    with keys [OF l] show "?key c \<in> set ?links" by force
  qed
  then have "filter (\<lambda>c. ?key c \<notin> set ?links) calls = filter (\<lambda>c. \<not> ?hit c) calls" by (intro filter_cong) auto
  then show ?thesis by (simp add: dangling_calls_def Let_def comp_def)
qed

end
