(* ===== verification/Alerts.thy ===== *)
theory Alerts
  imports Rust_Text "HOL-Library.AList" "HOL-Library.Product_Lexorder"
begin

text \<open>
  The alert evaluator (\<open>akashic-platform/src/alerts\<close>: \<open>state.rs\<close> and \<open>rules.rs\<close>): per-rule cooldown, counter deltas,
  consecutive probe failures, and the five rules over the samples of one tick.

  The operations of \<open>f64\<close> and its formatting are the fields of \<open>f64_ops\<close>, so the theorems hold for IEEE arithmetic with
  its rounding and NaN as for any other. Instants are seconds on the monotonic clock; \<open>duration_since\<close> saturates at
  zero. Hash maps are association lists with distinct keys.
\<close>

record 'f f64_ops =
  f_sum :: "'f list \<Rightarrow> 'f"
  f_sub :: "'f \<Rightarrow> 'f \<Rightarrow> 'f"
  f_mul :: "'f \<Rightarrow> 'f \<Rightarrow> 'f"
  f_div :: "'f \<Rightarrow> 'f \<Rightarrow> 'f"
  f_gt :: "'f \<Rightarrow> 'f \<Rightarrow> bool"
  f_ge :: "'f \<Rightarrow> 'f \<Rightarrow> bool"
  f_lit :: "nat \<Rightarrow> 'f"
  f_half :: 'f
  f_of_u64 :: "nat \<Rightarrow> 'f"
  f_as_u64 :: "'f \<Rightarrow> nat"
  f_fmt :: "nat \<Rightarrow> 'f \<Rightarrow> string"

record 'f sample =
  sa_metric :: string
  sa_labels :: "(string \<times> string) list"
  sa_value :: 'f

section \<open>Evaluator state\<close>

datatype rule_id = R1_5xxRate | R2_LlmQuotaLow | R3_ReadinessProbeFail | R4_AuditLogSpike | R5_ShutdownDrainTimeout

definition max_tracked_counter_keys :: nat where
  "max_tracked_counter_keys = 4096"

record 'f evaluator_state =
  es_last_fired :: "(rule_id \<times> int) list"
  es_cooldown :: int
  es_prev_counters :: "(string \<times> 'f) list"
  es_probe_fails :: "(string \<times> u32) list"

definition new_evaluator :: "int \<Rightarrow> 'f evaluator_state" where
  "new_evaluator cooldown = \<lparr>es_last_fired = [], es_cooldown = cooldown, es_prev_counters = [], es_probe_fails = []\<rparr>"

definition should_fire :: "rule_id \<Rightarrow> int \<Rightarrow> 'f evaluator_state \<Rightarrow> bool" where
  "should_fire rule now st =
     (case map_of (es_last_fired st) rule of None \<Rightarrow> True | Some t \<Rightarrow> max 0 (now - t) \<ge> es_cooldown st)"

definition mark_fired :: "rule_id \<Rightarrow> int \<Rightarrow> 'f evaluator_state \<Rightarrow> 'f evaluator_state" where
  "mark_fired rule now st = st\<lparr>es_last_fired := AList.update rule now (es_last_fired st)\<rparr>"

definition observe_counter :: "string \<Rightarrow> 'f \<Rightarrow> 'f evaluator_state \<Rightarrow> ('f \<times> 'f) \<times> 'f evaluator_state" where
  "observe_counter key current st =
     (case map_of (es_prev_counters st) key of
        Some prev \<Rightarrow> ((prev, current), st\<lparr>es_prev_counters := AList.update key current (es_prev_counters st)\<rparr>)
      | None \<Rightarrow>
          let kept = (if length (es_prev_counters st) \<ge> max_tracked_counter_keys then [] else es_prev_counters st) in
          ((current, current), st\<lparr>es_prev_counters := AList.update key current kept\<rparr>))"

definition probe_fail_observed :: "string \<Rightarrow> 'f evaluator_state \<Rightarrow> u32 \<times> 'f evaluator_state" where
  "probe_fail_observed probe st =
     (let n = (case map_of (es_probe_fails st) probe of None \<Rightarrow> 0 | Some n \<Rightarrow> n) + 1 in
      (n, st\<lparr>es_probe_fails := AList.update probe n (es_probe_fails st)\<rparr>))"

definition probe_recovered :: "string \<Rightarrow> 'f evaluator_state \<Rightarrow> 'f evaluator_state" where
  "probe_recovered probe st = st\<lparr>es_probe_fails := AList.delete probe (es_probe_fails st)\<rparr>"

definition reset_probes_absent_from :: "string set \<Rightarrow> 'f evaluator_state \<Rightarrow> 'f evaluator_state" where
  "reset_probes_absent_from seen st = st\<lparr>es_probe_fails := filter (\<lambda>(p, n). p \<in> seen) (es_probe_fails st)\<rparr>"

section \<open>Rules\<close>

datatype severity = Info | Warn | Critical

fun emoji :: "severity \<Rightarrow> string" where
  "emoji Info = [CHR 0xE2, CHR 0x84, CHR 0xB9, CHR 0xEF, CHR 0xB8, CHR 0x8F]"
| "emoji Warn = [CHR 0xE2, CHR 0x9A, CHR 0xA0, CHR 0xEF, CHR 0xB8, CHR 0x8F]"
| "emoji Critical = [CHR 0xF0, CHR 0x9F, CHR 0x9A, CHR 0xA8]"

record alert =
  al_rule :: rule_id
  al_severity :: severity
  al_text :: string

text \<open>A rule that watches the growth of a counter: R1, R4 and R5 share this shape.\<close>

definition r1_5xx_rate ::
  "'f f64_ops \<Rightarrow> 'f sample list \<Rightarrow> nat \<Rightarrow> int \<Rightarrow> 'f evaluator_state \<Rightarrow> alert option \<times> 'f evaluator_state" where
  "r1_5xx_rate F samples tick_secs now st =
     (let total = f_sum F (map sa_value (filter (\<lambda>s. sa_metric s = ''akashic_http_requests_total''
                    \<and> (case map_of (sa_labels s) ''status'' of None \<Rightarrow> False | Some v \<Rightarrow> starts_with ''5'' v)) samples));
          ((prev, cur), st) = observe_counter ''akashic_http_5xx_total'' total st;
          delta = f_sub F cur prev in
      if \<not> should_fire R1_5xxRate now st then (None, st)
      else
        let per_min = f_mul F delta (f_div F (f_lit F 60) (f_of_u64 F tick_secs)) in
        if f_gt F per_min (f_lit F 5) then
          (Some \<lparr>al_rule = R1_5xxRate, al_severity = Warn,
                 al_text = emoji Warn @ '' [akashic-record] 5xx rate '' @ f_fmt F 1 per_min @ ''/min (threshold ''
                   @ f_fmt F 0 (f_lit F 5) @ ''/min)''\<rparr>, mark_fired R1_5xxRate now st)
        else (None, st))"

definition is_utf8_continuation :: "char \<Rightarrow> bool" where
  "is_utf8_continuation c \<longleftrightarrow> 128 \<le> (of_char c :: nat) \<and> of_char c < (192 :: nat)"

fun take_chars :: "nat \<Rightarrow> string \<Rightarrow> string" where
  "take_chars 0 s = []"
| "take_chars (Suc n) [] = []"
| "take_chars (Suc n) (c # cs) = c # takeWhile is_utf8_continuation cs @ take_chars n (dropWhile is_utf8_continuation cs)"

definition short_id :: "string \<Rightarrow> string" where
  "short_id full = take_chars 16 full"

definition r2_llm_quota_low ::
  "'f f64_ops \<Rightarrow> 'f sample list \<Rightarrow> int \<Rightarrow> 'f evaluator_state \<Rightarrow> alert option \<times> 'f evaluator_state" where
  "r2_llm_quota_low F samples now st =
     (if \<not> should_fire R2_LlmQuotaLow now st then (None, st)
      else
        let low = filter (\<lambda>s. sa_metric s = ''akashic_llm_quota_remaining'' \<and> f_gt F (f_lit F 1000) (sa_value s)) samples in
        case low of
          [] \<Rightarrow> (None, st)
        | s # others \<Rightarrow>
            (Some \<lparr>al_rule = R2_LlmQuotaLow, al_severity = Info,
                   al_text =
                     (if others = [] then
                        emoji Info @ '' [akashic-record] LLM quota low: actor=''
                        @ (case map_of (sa_labels s) ''actor_token_id'' of None \<Rightarrow> ''unknown'' | Some a \<Rightarrow> short_id a)
                        @ '' remaining='' @ dec_of_nat (f_as_u64 F (sa_value s)) @ '' tokens''
                      else
                        emoji Info @ '' [akashic-record] '' @ dec_of_nat (length low)
                        @ '' actors below LLM quota floor ('' @ dec_of_nat (f_as_u64 F (f_lit F 1000)) @ '' tokens)'')\<rparr>,
             mark_fired R2_LlmQuotaLow now st))"

definition r3_threshold :: u32 where
  "r3_threshold = 2"

definition probe_of :: "'f sample \<Rightarrow> string" where
  "probe_of s = (case map_of (sa_labels s) ''probe'' of None \<Rightarrow> ''unknown'' | Some p \<Rightarrow> p)"

definition is_probe_sample :: "'f sample \<Rightarrow> bool" where
  "is_probe_sample s \<longleftrightarrow> sa_metric s = ''akashic_readiness_probe_status''"

fun r3_loop ::
  "'f f64_ops \<Rightarrow> 'f sample list \<Rightarrow> (string \<times> u32) list \<Rightarrow> 'f evaluator_state \<Rightarrow> (string \<times> u32) list \<times> 'f evaluator_state" where
  "r3_loop F [] failing st = (failing, st)"
| "r3_loop F (s # ss) failing st =
     (if f_ge F (sa_value s) (f_half F) then
        (let (streak, st1) = probe_fail_observed (probe_of s) st in
         r3_loop F ss (if streak \<ge> r3_threshold then failing @ [(probe_of s, streak)] else failing) st1)
      else r3_loop F ss failing (probe_recovered (probe_of s) st))"

definition r3_readiness_probe_fail ::
  "'f f64_ops \<Rightarrow> 'f sample list \<Rightarrow> int \<Rightarrow> 'f evaluator_state \<Rightarrow> alert option \<times> 'f evaluator_state" where
  "r3_readiness_probe_fail F samples now st =
     (let probes = filter is_probe_sample samples;
          (failing, st1) = r3_loop F probes [] st;
          st2 = reset_probes_absent_from (set (map probe_of probes)) st1 in
      if failing = [] then (None, st2)
      else if \<not> should_fire R3_ReadinessProbeFail now st2 then (None, st2)
      else
        (Some \<lparr>al_rule = R3_ReadinessProbeFail, al_severity = Critical,
               al_text = emoji Critical @ '' [akashic-record] Readiness probe FAIL: ''
                 @ join_with '', '' (map (\<lambda>(p, n). p @ '' ('' @ dec_of_nat (unat n) @ '' consecutive ticks)'')
                     (sort_key (\<lambda>(p, n). (p, unat n)) failing))\<rparr>,
         mark_fired R3_ReadinessProbeFail now st2))"

definition r4_audit_log_spike ::
  "'f f64_ops \<Rightarrow> 'f sample list \<Rightarrow> nat \<Rightarrow> int \<Rightarrow> 'f evaluator_state \<Rightarrow> alert option \<times> 'f evaluator_state" where
  "r4_audit_log_spike F samples tick_secs now st =
     (let total = f_sum F (map sa_value (filter (\<lambda>s. sa_metric s = ''akashic_audit_log_writes_total'') samples));
          ((prev, cur), st) = observe_counter ''akashic_audit_log_writes_total'' total st;
          delta = f_sub F cur prev in
      if \<not> should_fire R4_AuditLogSpike now st then (None, st)
      else
        let per_min = f_mul F delta (f_div F (f_lit F 60) (f_of_u64 F tick_secs)) in
        if f_gt F per_min (f_lit F 30) then
          (Some \<lparr>al_rule = R4_AuditLogSpike, al_severity = Warn,
                 al_text = emoji Warn @ '' [akashic-record] Audit log spike: '' @ f_fmt F 0 per_min
                   @ '' writes/min (threshold '' @ f_fmt F 0 (f_lit F 30) @ ''/min)''\<rparr>, mark_fired R4_AuditLogSpike now st)
        else (None, st))"

definition r5_shutdown_drain_timeout ::
  "'f f64_ops \<Rightarrow> 'f sample list \<Rightarrow> int \<Rightarrow> 'f evaluator_state \<Rightarrow> alert option \<times> 'f evaluator_state" where
  "r5_shutdown_drain_timeout F samples now st =
     (let total = f_sum F (map sa_value (filter (\<lambda>s. sa_metric s = ''akashic_shutdown_drain_seconds_count''
                    \<and> map_of (sa_labels s) ''outcome'' = Some ''timed_out'') samples));
          ((prev, cur), st) = observe_counter ''akashic_shutdown_drain_timed_out_total'' total st;
          delta = f_sub F cur prev in
      if \<not> should_fire R5_ShutdownDrainTimeout now st then (None, st)
      else if f_gt F delta (f_lit F 0) then
        (Some \<lparr>al_rule = R5_ShutdownDrainTimeout, al_severity = Critical,
               al_text = emoji Critical @ '' [akashic-record] Shutdown drain TIMEOUT: '' @ f_fmt F 0 delta
                 @ '' new timed-out drains; recent restart had in-flight work that didn'' @ [CHR 0x27]
                 @ ''t drain cleanly''\<rparr>,
         mark_fired R5_ShutdownDrainTimeout now st)
      else (None, st))"

definition evaluate_all ::
  "'f f64_ops \<Rightarrow> 'f sample list \<Rightarrow> nat \<Rightarrow> int \<Rightarrow> 'f evaluator_state \<Rightarrow> alert list \<times> 'f evaluator_state" where
  "evaluate_all F samples tick_secs now st0 =
     (let (a1, st1) = r1_5xx_rate F samples tick_secs now st0;
          (a2, st2) = r2_llm_quota_low F samples now st1;
          (a3, st3) = r3_readiness_probe_fail F samples now st2;
          (a4, st4) = r4_audit_log_spike F samples tick_secs now st3;
          (a5, st5) = r5_shutdown_drain_timeout F samples now st4
      in (List.map_filter id [a1, a2, a3, a4, a5], st5))"

text \<open>The evaluator loop: one evaluation per tick, given as (instant, samples); the alerts with their instants.\<close>

fun run_ticks ::
  "'f f64_ops \<Rightarrow> nat \<Rightarrow> (int \<times> 'f sample list) list \<Rightarrow> 'f evaluator_state \<Rightarrow> (int \<times> alert) list \<times> 'f evaluator_state" where
  "run_ticks F tick_secs [] st = ([], st)"
| "run_ticks F tick_secs ((now, samples) # ts) st =
     (let (alerts, st1) = evaluate_all F samples tick_secs now st;
          (rest, st2) = run_ticks F tick_secs ts st1
      in (map (Pair now) alerts @ rest, st2))"

section \<open>The contract of a rule\<close>

locale alert_rule =
  fixes rule :: rule_id and eval :: "int \<Rightarrow> 'f evaluator_state \<Rightarrow> alert option \<times> 'f evaluator_state"
  assumes fired: "eval now st = (Some a, st') \<Longrightarrow>
      al_rule a = rule \<and> should_fire rule now st \<and> es_last_fired st' = AList.update rule now (es_last_fired st)"
    and silent: "eval now st = (None, st') \<Longrightarrow> es_last_fired st' = es_last_fired st"
    and cooldown_kept: "eval now st = (r, st') \<Longrightarrow> es_cooldown st' = es_cooldown st"
begin

lemma last_fired_eval:
  "eval now st = (r, st') \<Longrightarrow>
     map_of (es_last_fired st') x = (if x = rule \<and> r \<noteq> None then Some now else map_of (es_last_fired st) x)"
  by (cases r) (auto dest: fired silent simp: update_conv')

lemma rule_of: "fst (eval now st) = Some a \<Longrightarrow> al_rule a = rule"
  using fired [of now st a "snd (eval now st)"] by (metis prod.collapse)

lemma should_fire_other: "eval now st = (r, st') \<Longrightarrow> x \<noteq> rule \<Longrightarrow> should_fire x t st' = should_fire x t st"
  by (simp add: should_fire_def last_fired_eval cooldown_kept split: option.split)

end

lemma observe_counter_keeps [simp]:
  "es_last_fired (snd (observe_counter key current st)) = es_last_fired st"
  "es_cooldown (snd (observe_counter key current st)) = es_cooldown st"
  "es_probe_fails (snd (observe_counter key current st)) = es_probe_fails st"
  by (simp_all add: observe_counter_def Let_def split: option.split)

lemma should_fire_cong:
  "es_last_fired st' = es_last_fired st \<Longrightarrow> es_cooldown st' = es_cooldown st \<Longrightarrow> should_fire r now st' = should_fire r now st"
  by (simp add: should_fire_def split: option.split)

lemma should_fire_observe [simp]: "should_fire r now (snd (observe_counter key current st)) = should_fire r now st"
  by (rule should_fire_cong) simp_all

lemma r3_loop_keeps [simp]:
  "es_last_fired (snd (r3_loop F ss failing st)) = es_last_fired st"
  "es_cooldown (snd (r3_loop F ss failing st)) = es_cooldown st"
  "es_prev_counters (snd (r3_loop F ss failing st)) = es_prev_counters st"
  by (induction ss arbitrary: failing st)
     (simp_all add: probe_fail_observed_def probe_recovered_def Let_def)

lemma reset_keeps [simp]:
  "es_last_fired (reset_probes_absent_from seen st) = es_last_fired st"
  "es_cooldown (reset_probes_absent_from seen st) = es_cooldown st"
  "es_prev_counters (reset_probes_absent_from seen st) = es_prev_counters st"
  by (simp_all add: reset_probes_absent_from_def)

lemma should_fire_r3 [simp]:
  "should_fire r now (reset_probes_absent_from seen (snd (r3_loop F ss failing st))) = should_fire r now st"
  by (rule should_fire_cong) simp_all

interpretation r1: alert_rule R1_5xxRate "r1_5xx_rate F samples tick_secs" for F samples tick_secs
  by unfold_locales (auto simp: r1_5xx_rate_def mark_fired_def Let_def case_prod_beta split: if_splits)

interpretation r2: alert_rule R2_LlmQuotaLow "r2_llm_quota_low F samples" for F samples
  by unfold_locales (auto simp: r2_llm_quota_low_def mark_fired_def Let_def split: list.splits if_splits)

interpretation r3: alert_rule R3_ReadinessProbeFail "r3_readiness_probe_fail F samples" for F samples
  by unfold_locales (auto simp: r3_readiness_probe_fail_def mark_fired_def Let_def case_prod_beta split: if_splits)

interpretation r4: alert_rule R4_AuditLogSpike "r4_audit_log_spike F samples tick_secs" for F samples tick_secs
  by unfold_locales (auto simp: r4_audit_log_spike_def mark_fired_def Let_def case_prod_beta split: if_splits)

interpretation r5: alert_rule R5_ShutdownDrainTimeout "r5_shutdown_drain_timeout F samples" for F samples
  by unfold_locales (auto simp: r5_shutdown_drain_timeout_def mark_fired_def Let_def case_prod_beta split: if_splits)

section \<open>Cooldown\<close>

text \<open>A tick runs the rules one after the other; what holds of the contract holds of the run.\<close>

fun run_rules ::
  "(rule_id \<times> (int \<Rightarrow> 'f evaluator_state \<Rightarrow> alert option \<times> 'f evaluator_state)) list \<Rightarrow> int \<Rightarrow> 'f evaluator_state
   \<Rightarrow> alert list \<times> 'f evaluator_state" where
  "run_rules [] now st = ([], st)"
| "run_rules ((i, e) # es) now st =
     (let (a, st1) = e now st; (as, st2) = run_rules es now st1 in (case a of None \<Rightarrow> as | Some x \<Rightarrow> x # as, st2))"

abbreviation rules where
  "rules F samples tick \<equiv>
     [(R1_5xxRate, r1_5xx_rate F samples tick), (R2_LlmQuotaLow, r2_llm_quota_low F samples),
      (R3_ReadinessProbeFail, r3_readiness_probe_fail F samples), (R4_AuditLogSpike, r4_audit_log_spike F samples tick),
      (R5_ShutdownDrainTimeout, r5_shutdown_drain_timeout F samples)]"

lemma evaluate_all_rules: "evaluate_all F samples tick now st = run_rules (rules F samples tick) now st"
  by (simp add: evaluate_all_def map_filter_simps case_prod_beta Let_def split: option.split)

lemma run_rules_fired:
  assumes "run_rules es now st = (alerts, st')" and "\<forall>(i, e) \<in> set es. alert_rule i e" and "distinct (map fst es)"
  shows "es_cooldown st' = es_cooldown st \<and> distinct (map al_rule alerts) \<and> al_rule ` set alerts \<subseteq> fst ` set es
    \<and> (\<forall>x. map_of (es_last_fired st') x = (if x \<in> al_rule ` set alerts then Some now else map_of (es_last_fired st) x))
    \<and> (\<forall>a \<in> set alerts. should_fire (al_rule a) now st)"
  using assms
proof (induction es arbitrary: st alerts st')
  case (Cons ie es)
  obtain i e where ie: "ie = (i, e)" by (cases ie)
  obtain a st1 where step: "e now st = (a, st1)" by (metis prod.exhaust)
  obtain as st2 where rest: "run_rules es now st1 = (as, st2)" by (metis prod.exhaust)
  have rule: "alert_rule i e" using Cons.prems(2) ie by simp
  note IH = Cons.IH [OF rest]
  have out: "alerts = (case a of None \<Rightarrow> as | Some x \<Rightarrow> x # as)" "st' = st2"
    using Cons.prems(1) ie step rest by simp_all
  have i: "i \<notin> fst ` set es" using Cons.prems(3) ie by simp
  have "st' = st2" using out(2) .
  with IH Cons.prems have IH': "es_cooldown st' = es_cooldown st1" "distinct (map al_rule as)" "al_rule ` set as \<subseteq> fst ` set es"
    "\<And>x. map_of (es_last_fired st') x = (if x \<in> al_rule ` set as then Some now else map_of (es_last_fired st1) x)"
    "\<And>b. b \<in> set as \<Longrightarrow> should_fire (al_rule b) now st1" by auto
  have other: "should_fire (al_rule b) now st" if "b \<in> set as" for b
    using IH'(3,5) that i alert_rule.should_fire_other [OF rule step, of "al_rule b" now] by fastforce
  show ?case
  proof (cases a)
    case None
    with IH' other out alert_rule.last_fired_eval [OF rule step] alert_rule.cooldown_kept [OF rule step] show ?thesis
      by (auto simp: ie)
  next
    case (Some x)
    have "al_rule x = i" "should_fire i now st" using alert_rule.fired [OF rule] step Some by blast+
    with Some IH' other i out alert_rule.last_fired_eval [OF rule step] alert_rule.cooldown_kept [OF rule step] show ?thesis
      by (auto simp: ie)
  qed
qed simp

lemma evaluate_all_fired:
  assumes "evaluate_all F samples tick now st = (alerts, st')"
  shows "es_cooldown st' = es_cooldown st" and "distinct (map al_rule alerts)"
    and "\<And>x. map_of (es_last_fired st') x = (if x \<in> al_rule ` set alerts then Some now else map_of (es_last_fired st) x)"
    and "\<And>a. a \<in> set alerts \<Longrightarrow> should_fire (al_rule a) now st"
proof -
  have "\<forall>(i, e) \<in> set (rules F samples tick). alert_rule i e"
    using r1.alert_rule_axioms r2.alert_rule_axioms r3.alert_rule_axioms r4.alert_rule_axioms r5.alert_rule_axioms
    by auto
  note fired = run_rules_fired [OF assms [unfolded evaluate_all_rules] this]
  then show "es_cooldown st' = es_cooldown st" and "distinct (map al_rule alerts)"
    and "\<And>x. map_of (es_last_fired st') x = (if x \<in> al_rule ` set alerts then Some now else map_of (es_last_fired st) x)"
    and "\<And>a. a \<in> set alerts \<Longrightarrow> should_fire (al_rule a) now st" by simp_all
qed

lemma run_ticks_spacing:
  assumes "run_ticks F tick ts st = (alerts, st')" and "sorted (map fst ts)"
  shows "(\<forall>(t, a) \<in> set alerts. t \<in> fst ` set ts
            \<and> (\<forall>t0. map_of (es_last_fired st) (al_rule a) = Some t0 \<longrightarrow> (\<forall>u \<in> fst ` set ts. t0 \<le> u) \<longrightarrow> es_cooldown st \<le> t - t0))
     \<and> sorted_wrt (\<lambda>(t1, a1) (t2, a2). al_rule a1 = al_rule a2 \<longrightarrow> es_cooldown st \<le> t2 - t1) alerts"
  using assms
proof (induction ts arbitrary: st alerts st')
  case (Cons tk ts)
  obtain now samples where tk: "tk = (now, samples)" by (cases tk)
  obtain as st1 where ev: "evaluate_all F samples tick now st = (as, st1)" by (metis prod.exhaust)
  obtain rest st2 where rest: "run_ticks F tick ts st1 = (rest, st2)" by (metis prod.exhaust)
  note fired = evaluate_all_fired [OF ev]
  have out: "alerts = map (Pair now) as @ rest" using Cons.prems(1) tk ev rest by simp
  have later: "now \<le> u" if "u \<in> fst ` set ts" for u using Cons.prems(2) tk that by auto
  have IH: "t \<in> fst ` set ts"
    "map_of (es_last_fired st1) (al_rule a) = Some t0 \<Longrightarrow> \<forall>u \<in> fst ` set ts. t0 \<le> u \<Longrightarrow> es_cooldown st \<le> t - t0"
    if "(t, a) \<in> set rest" for t a t0
    using Cons.IH [OF rest] Cons.prems(2) tk that fired(1) by auto
  have IHs: "sorted_wrt (\<lambda>(t1, a1) (t2, a2). al_rule a1 = al_rule a2 \<longrightarrow> es_cooldown st \<le> t2 - t1) rest"
    using Cons.IH [OF rest] Cons.prems(2) tk fired(1) by simp
  have first: "es_cooldown st \<le> now - t0"
    if "a \<in> set as" "map_of (es_last_fired st) (al_rule a) = Some t0" "t0 \<le> now" for a t0
    using fired(4) [OF that(1)] that(2,3) by (simp add: should_fire_def max_def split: if_splits)
  have spaced: "es_cooldown st \<le> t - now" if "(t, b) \<in> set rest" "a \<in> set as" "al_rule a = al_rule b" for t b a
  proof -
    have "al_rule b \<in> al_rule ` set as" using that(2,3) by (metis imageI)
    then have "map_of (es_last_fired st1) (al_rule b) = Some now" by (simp add: fired(3))
    then show ?thesis using IH(2) [OF that(1)] later by blast
  qed
  have tail: "es_cooldown st \<le> t - t0"
    if "(t, a) \<in> set rest" "map_of (es_last_fired st) (al_rule a) = Some t0" "\<forall>u \<in> insert now (fst ` set ts). t0 \<le> u" for t a t0
  proof (cases "al_rule a \<in> al_rule ` set as")
    case True
    then obtain b where "b \<in> set as" "al_rule b = al_rule a" by auto
    with spaced [OF that(1)] that(3) show ?thesis by force
  next
    case False
    with IH(2) [OF that(1), of t0] fired(3) [of "al_rule a"] that show ?thesis by simp
  qed
  have "sorted_wrt (\<lambda>(t1, a1) (t2, a2). al_rule a1 = al_rule a2 \<longrightarrow> es_cooldown st \<le> t2 - t1) alerts"
  proof -
    have "sorted_wrt (\<lambda>(t1, a1) (t2, a2). al_rule a1 = al_rule a2 \<longrightarrow> es_cooldown st \<le> t2 - t1) (map (Pair now) as)"
      using fired(2) by (auto simp: sorted_wrt_map distinct_conv_nth sorted_wrt_iff_nth_less)
    with IHs spaced show ?thesis by (auto simp: out sorted_wrt_append)
  qed
  moreover have "\<forall>(t, a) \<in> set alerts. t \<in> fst ` set (tk # ts)
      \<and> (\<forall>t0. map_of (es_last_fired st) (al_rule a) = Some t0 \<longrightarrow> (\<forall>u \<in> fst ` set (tk # ts). t0 \<le> u) \<longrightarrow> es_cooldown st \<le> t - t0)"
    using first tail IH(1) by (auto simp: out tk)
  ultimately show ?case by blast
qed simp

text \<open>Cooldown: over any run of the evaluator, two alerts of the same rule are at least the configured cooldown
  apart, and a tick raises at most one alert per rule when the cooldown is positive.\<close>

theorem alert_cooldown_respected:
  assumes "run_ticks F tick ts (new_evaluator cooldown) = (alerts, st)" and "sorted (map fst ts)"
  shows "sorted_wrt (\<lambda>(t1, a1) (t2, a2). al_rule a1 = al_rule a2 \<longrightarrow> cooldown \<le> t2 - t1) alerts"
  using run_ticks_spacing [OF assms] by (simp add: new_evaluator_def)


definition int_ops :: "int f64_ops" where
  "int_ops = \<lparr>f_sum = sum_list, f_sub = (-), f_mul = (*), f_div = (div), f_gt = (\<lambda>x y. y < x), f_ge = (\<lambda>x y. y \<le> x),
     f_lit = int, f_half = 1, f_of_u64 = int, f_as_u64 = nat, f_fmt = (\<lambda>p x. dec_of_nat (nat x))\<rparr>"

definition drained :: "int \<Rightarrow> int sample list" where
  "drained n = [\<lparr>sa_metric = ''akashic_shutdown_drain_seconds_count'', sa_labels = [(''outcome'', ''timed_out'')], sa_value = n\<rparr>]"

theorem alert_cooldown_respected_witness:
  "map (\<lambda>(t, a). (t, al_rule a))
       (fst (run_ticks int_ops 60 [(0, drained 0), (60, drained 1), (120, drained 2), (400, drained 3)] (new_evaluator 300)))
     = [(60, R5_ShutdownDrainTimeout), (400, R5_ShutdownDrainTimeout)]
   \<and> sorted_wrt (\<lambda>(t1, a1) (t2, a2). al_rule a1 = al_rule a2 \<longrightarrow> 300 \<le> t2 - t1)
       (fst (run_ticks int_ops 60 [(0, drained 0), (60, drained 1), (120, drained 2), (400, drained 3)] (new_evaluator 300)))"
  by (rule conjI, code_simp,
      rule alert_cooldown_respected [where ts = "[(0, drained 0), (60, drained 1), (120, drained 2), (400, drained 3)]"
        and F = int_ops and tick = 60 and cooldown = 300, OF surjective_pairing]) simp

section \<open>Readiness probes\<close>

text \<open>What one tick says of a probe (\<open>Some True\<close>: failing), when a tick carries at most one sample per probe, and the run
  of failing ticks that ends at the last one.\<close>

definition probe_status :: "'f f64_ops \<Rightarrow> 'f sample list \<Rightarrow> string \<rightharpoonup> bool" where
  "probe_status F samples = map_of (map (\<lambda>s. (probe_of s, f_ge F (sa_value s) (f_half F))) (filter is_probe_sample samples))"

fun failing_streak :: "'f f64_ops \<Rightarrow> string \<Rightarrow> 'f sample list list \<Rightarrow> nat" where
  "failing_streak F p [] = 0"
| "failing_streak F p (samples # older) =
     (if probe_status F samples p = Some True then Suc (failing_streak F p older) else 0)"

definition probe_streak :: "'f evaluator_state \<Rightarrow> string \<Rightarrow> u32" where
  "probe_streak st p = (case map_of (es_probe_fails st) p of None \<Rightarrow> 0 | Some n \<Rightarrow> n)"

definition evaluator_inv :: "'f evaluator_state \<Rightarrow> bool" where
  "evaluator_inv st \<longleftrightarrow> distinct (map fst (es_last_fired st)) \<and> distinct (map fst (es_prev_counters st))
     \<and> distinct (map fst (es_probe_fails st)) \<and> length (es_prev_counters st) \<le> max_tracked_counter_keys"

lemma probe_streak_fail [simp]:
  "probe_streak (snd (probe_fail_observed p st)) q = (if q = p then probe_streak st p + 1 else probe_streak st q)"
  by (simp add: probe_streak_def probe_fail_observed_def Let_def update_conv' split: option.split)

lemma fst_probe_fail [simp]: "fst (probe_fail_observed p st) = probe_streak st p + 1"
  by (simp add: probe_streak_def probe_fail_observed_def Let_def)

lemma probe_streak_recovered [simp]:
  "probe_streak (probe_recovered p st) q = (if q = p then 0 else probe_streak st q)"
  by (simp add: probe_streak_def probe_recovered_def delete_conv' split: option.split)

lemma map_of_filter_keys: "map_of (filter (\<lambda>(p, n). p \<in> seen) xs) q = (if q \<in> seen then map_of xs q else None)"
  by (induction xs) auto

lemma probe_streak_reset [simp]:
  "probe_streak (reset_probes_absent_from seen st) q = (if q \<in> seen then probe_streak st q else 0)"
  by (simp add: probe_streak_def reset_probes_absent_from_def map_of_filter_keys split: option.split)

lemma r3_loop_streak:
  "distinct (map probe_of ss) \<Longrightarrow>
     probe_streak (snd (r3_loop F ss failing st)) p =
       (case map_of (map (\<lambda>s. (probe_of s, f_ge F (sa_value s) (f_half F))) ss) p of
          None \<Rightarrow> probe_streak st p | Some True \<Rightarrow> probe_streak st p + 1 | Some False \<Rightarrow> 0)"
proof (induction ss arbitrary: failing st)
  case (Cons s ss)
  have absent: "map_of (map (\<lambda>s. (probe_of s, f_ge F (sa_value s) (f_half F))) ss) (probe_of s) = None"
    using Cons.prems by (auto simp: map_of_eq_None_iff image_image)
  show ?case using Cons absent by (auto simp: case_prod_beta Let_def split: option.split bool.split)
qed simp

lemma r3_loop_failing:
  "distinct (map probe_of ss) \<Longrightarrow>
     set (fst (r3_loop F ss failing st)) = set failing \<union>
       {(p, probe_streak st p + 1) |p. map_of (map (\<lambda>s. (probe_of s, f_ge F (sa_value s) (f_half F))) ss) p = Some True
          \<and> r3_threshold \<le> probe_streak st p + 1}"
proof (induction ss arbitrary: failing st)
  case (Cons s ss)
  have absent: "map_of (map (\<lambda>s. (probe_of s, f_ge F (sa_value s) (f_half F))) ss) (probe_of s) = None"
    using Cons.prems by (auto simp: map_of_eq_None_iff image_image)
  show ?case using Cons absent by (auto simp: case_prod_beta Let_def)
qed simp

definition probes_distinct :: "'f sample list \<Rightarrow> bool" where
  "probes_distinct samples \<longleftrightarrow> distinct (map probe_of (filter is_probe_sample samples))"

lemma r3_streak:
  assumes "probes_distinct samples"
  shows "probe_streak (snd (r3_readiness_probe_fail F samples now st)) p =
    (if probe_status F samples p = Some True then probe_streak st p + 1 else 0)"
proof -
  let ?ps = "filter is_probe_sample samples"
  have mark: "probe_streak (mark_fired r now st') p = probe_streak st' p" for r st'
    by (simp add: probe_streak_def mark_fired_def)
  have seen: "probe_status F samples p = None \<longleftrightarrow> p \<notin> set (map probe_of ?ps)"
    by (auto simp: probe_status_def map_of_eq_None_iff image_image)
  have "probe_streak (snd (r3_readiness_probe_fail F samples now st)) p =
    probe_streak (reset_probes_absent_from (set (map probe_of ?ps)) (snd (r3_loop F ?ps [] st))) p"
    by (simp add: r3_readiness_probe_fail_def Let_def case_prod_beta mark)
  also have "\<dots> = (if probe_status F samples p = Some True then probe_streak st p + 1 else 0)"
    using assms seen by (auto simp: probes_distinct_def r3_loop_streak probe_status_def split: option.splits bool.splits)
  finally show ?thesis .
qed

lemma r3_alerts:
  assumes "probes_distinct samples"
  shows "fst (r3_readiness_probe_fail F samples now st) \<noteq> None \<longleftrightarrow>
    should_fire R3_ReadinessProbeFail now st \<and>
    (\<exists>p. probe_status F samples p = Some True \<and> r3_threshold \<le> probe_streak st p + 1)"
proof -
  let ?ps = "filter is_probe_sample samples"
  have "fst (r3_loop F ?ps [] st) = [] \<longleftrightarrow> set (fst (r3_loop F ?ps [] st)) = {}" by simp
  also have "\<dots> \<longleftrightarrow> \<not> (\<exists>p. probe_status F samples p = Some True \<and> r3_threshold \<le> probe_streak st p + 1)"
    using r3_loop_failing [OF assms [unfolded probes_distinct_def], of F "[]" st] by (auto simp: probe_status_def)
  finally show ?thesis by (auto simp: r3_readiness_probe_fail_def Let_def case_prod_beta)
qed

lemma other_rules_probe_fails [simp]:
  "probe_streak (snd (r1_5xx_rate F samples tick now st)) p = probe_streak st p"
  "probe_streak (snd (r2_llm_quota_low F samples now st)) p = probe_streak st p"
  "probe_streak (snd (r4_audit_log_spike F samples tick now st)) p = probe_streak st p"
  "probe_streak (snd (r5_shutdown_drain_timeout F samples now st)) p = probe_streak st p"
  by (simp_all add: probe_streak_def r1_5xx_rate_def r2_llm_quota_low_def r4_audit_log_spike_def r5_shutdown_drain_timeout_def
        mark_fired_def Let_def case_prod_beta split: list.split)

lemma evaluate_all_streak:
  assumes "probes_distinct samples"
  shows "probe_streak (snd (evaluate_all F samples tick now st)) p =
    (if probe_status F samples p = Some True then probe_streak st p + 1 else 0)"
  by (simp add: evaluate_all_def case_prod_beta Let_def r3_streak [OF assms])

lemma run_ticks_append:
  "run_ticks F tick (ts @ [(now, samples)]) st =
     (let (alerts, st1) = run_ticks F tick ts st; (as, st2) = evaluate_all F samples tick now st1
      in (alerts @ map (Pair now) as, st2))"
  by (induction ts arbitrary: st) (auto simp: case_prod_beta Let_def)

lemma run_ticks_streak:
  "\<forall>(t, samples) \<in> set ts. probes_distinct samples \<Longrightarrow>
     probe_streak (snd (run_ticks F tick ts (new_evaluator cooldown))) p = of_nat (failing_streak F p (rev (map snd ts)))"
proof (induction ts rule: rev_induct)
  case Nil
  then show ?case by (simp add: probe_streak_def new_evaluator_def)
next
  case (snoc x ts)
  obtain now samples where "x = (now, samples)" by (cases x)
  with snoc show ?case
    by (auto simp: run_ticks_append case_prod_beta Let_def evaluate_all_streak)
qed

lemma should_fire_r12:
  "should_fire R3_ReadinessProbeFail now (snd (r2_llm_quota_low F samples now (snd (r1_5xx_rate F samples tick now st))))
     = should_fire R3_ReadinessProbeFail now st"
  by (simp add: r2.should_fire_other [OF surjective_pairing] r1.should_fire_other [OF surjective_pairing])

lemma evaluate_all_r3:
  "(\<exists>a \<in> set (fst (evaluate_all F samples tick now st)). al_rule a = R3_ReadinessProbeFail) \<longleftrightarrow>
     fst (r3_readiness_probe_fail F samples now (snd (r2_llm_quota_low F samples now (snd (r1_5xx_rate F samples tick now st))))) \<noteq> None"
proof -
  have mem: "a \<in> set (List.map_filter id xs) \<longleftrightarrow> Some a \<in> set xs" for a and xs :: "alert option list"
    by (induction xs) (auto simp: map_filter_simps split: option.split)
  show ?thesis
    unfolding evaluate_all_def case_prod_beta Let_def fst_conv mem Bex_def
    by (auto dest: r1.rule_of [OF sym] r2.rule_of [OF sym] r4.rule_of [OF sym] r5.rule_of [OF sym] r3.rule_of intro: sym)
qed

text \<open>C10. Readiness alerts: when no tick repeats a probe, the tick after any run of the evaluator raises the readiness
  alert exactly when the rule is out of its cooldown and some probe fails in this tick and failed in the tick before it
  (as long as no probe fails \<open>2 ^ 32 - 1\<close> ticks in a row, where the \<open>u32\<close> streak wraps).\<close>

theorem readiness_alert_exact:
  assumes "run_ticks F tick ts (new_evaluator cooldown) = (alerts, st)"
    and "\<forall>(t, samples) \<in> set (ts @ [(now, samples)]). probes_distinct samples" and "length ts < 2 ^ 32 - 1"
  shows "(\<exists>a \<in> set (fst (evaluate_all F samples tick now st)). al_rule a = R3_ReadinessProbeFail) \<longleftrightarrow>
    should_fire R3_ReadinessProbeFail now st \<and>
    (\<exists>p. 2 \<le> failing_streak F p (samples # rev (map snd ts)))"
proof -
  have st: "st = snd (run_ticks F tick ts (new_evaluator cooldown))" using assms(1) by simp
  have bound: "failing_streak F p older \<le> length older" for p older by (induction older) auto
  have "r3_threshold \<le> probe_streak st p + 1 \<longleftrightarrow> 1 \<le> failing_streak F p (rev (map snd ts))" for p
  proof -
    have small: "failing_streak F p (rev (map snd ts)) < 2 ^ 32 - 1" using bound [of p "rev (map snd ts)"] assms(3) by simp
    have "probe_streak st p + 1 = of_nat (Suc (failing_streak F p (rev (map snd ts))))"
      using run_ticks_streak [of ts F tick cooldown p] assms(2) st by simp
    with small show ?thesis by (simp add: r3_threshold_def word_le_nat_alt unat_of_nat take_bit_nat_eq_self del: of_nat_Suc)
  qed
  then show ?thesis
    using r3_alerts [of samples F now "snd (r2_llm_quota_low F samples now (snd (r1_5xx_rate F samples tick now st)))"] assms(2)
    by (auto simp: evaluate_all_r3 should_fire_r12)
qed

definition pg_down :: "int sample list" where
  "pg_down = [\<lparr>sa_metric = ''akashic_readiness_probe_status'', sa_labels = [(''probe'', ''pg'')], sa_value = 1\<rparr>]"

theorem readiness_alert_exact_witness:
  "probes_distinct pg_down
   \<and> (\<exists>a \<in> set (fst (evaluate_all int_ops pg_down 60 60 (snd (run_ticks int_ops 60 [(0, pg_down)] (new_evaluator 300))))).
        al_rule a = R3_ReadinessProbeFail)"
proof -
  have distinct_probes: "probes_distinct pg_down" by code_simp
  have "should_fire R3_ReadinessProbeFail 60 (snd (run_ticks int_ops 60 [(0, pg_down)] (new_evaluator 300)))" by code_simp
  moreover have "2 \<le> failing_streak int_ops ''pg'' (pg_down # rev (map snd [(0 :: int, pg_down)]))" by code_simp
  moreover have "\<forall>(t, samples) \<in> set ([(0, pg_down)] @ [(60 :: int, pg_down)]). probes_distinct samples"
    using distinct_probes by simp
  moreover have "length [(0 :: int, pg_down)] < 2 ^ 32 - 1" by simp
  ultimately show ?thesis
    using distinct_probes readiness_alert_exact [OF surjective_pairing, of "[(0, pg_down)]" 60 pg_down int_ops 60 300] by blast
qed

section \<open>The evaluator state stays bounded\<close>

lemma length_update: "length (AList.update k v xs) \<le> Suc (length xs)"
  by (induction xs) auto

lemma length_update_known: "map_of xs k \<noteq> None \<Longrightarrow> length (AList.update k v xs) = length xs"
  by (induction xs) (auto split: if_splits)

lemma inv_mark_fired: "evaluator_inv st \<Longrightarrow> evaluator_inv (mark_fired r now st)"
  by (simp add: evaluator_inv_def mark_fired_def distinct_update)

lemma inv_observe_counter: "evaluator_inv st \<Longrightarrow> evaluator_inv (snd (observe_counter key current st))"
  using length_update [of key current "es_prev_counters st"]
  by (auto simp: evaluator_inv_def observe_counter_def Let_def distinct_update length_update_known max_tracked_counter_keys_def
        split: option.split)

lemma inv_probe_fail: "evaluator_inv st \<Longrightarrow> evaluator_inv (snd (probe_fail_observed p st))"
  by (simp add: evaluator_inv_def probe_fail_observed_def Let_def distinct_update)

lemma inv_probe_recovered: "evaluator_inv st \<Longrightarrow> evaluator_inv (probe_recovered p st)"
  by (simp add: evaluator_inv_def probe_recovered_def distinct_delete)

lemma inv_reset: "evaluator_inv st \<Longrightarrow> evaluator_inv (reset_probes_absent_from seen st)"
  by (simp add: evaluator_inv_def reset_probes_absent_from_def distinct_map_filter)

lemma inv_r3_loop: "evaluator_inv st \<Longrightarrow> evaluator_inv (snd (r3_loop F ss failing st))"
  by (induction ss arbitrary: failing st) (simp_all add: case_prod_beta Let_def inv_probe_fail inv_probe_recovered)

lemma inv_rules:
  assumes "evaluator_inv st"
  shows "evaluator_inv (snd (r1_5xx_rate F samples tick now st))" "evaluator_inv (snd (r2_llm_quota_low F samples now st))"
    "evaluator_inv (snd (r3_readiness_probe_fail F samples now st))" "evaluator_inv (snd (r4_audit_log_spike F samples tick now st))"
    "evaluator_inv (snd (r5_shutdown_drain_timeout F samples now st))"
  using assms
  by (simp_all add: r1_5xx_rate_def r2_llm_quota_low_def r3_readiness_probe_fail_def r4_audit_log_spike_def
        r5_shutdown_drain_timeout_def case_prod_beta Let_def inv_mark_fired inv_observe_counter inv_r3_loop inv_reset split: list.split)

lemma inv_evaluate_all: "evaluator_inv st \<Longrightarrow> evaluator_inv (snd (evaluate_all F samples tick now st))"
  by (simp add: evaluate_all_def case_prod_beta Let_def inv_rules)

lemma inv_new_evaluator: "evaluator_inv (new_evaluator cooldown)"
  by (simp add: evaluator_inv_def new_evaluator_def)

lemma inv_run_ticks: "evaluator_inv st \<Longrightarrow> evaluator_inv (snd (run_ticks F tick ts st))"
  by (induction ts arbitrary: st) (auto simp: case_prod_beta Let_def inv_evaluate_all)

text \<open>The failing probes a state remembers are those of its last tick.\<close>

lemma r3_probe_fails_seen:
  "fst ` set (es_probe_fails (snd (r3_readiness_probe_fail F samples now st))) \<subseteq> probe_of ` {s \<in> set samples. is_probe_sample s}"
  by (auto simp: r3_readiness_probe_fail_def case_prod_beta Let_def mark_fired_def reset_probes_absent_from_def)

lemma probe_fails_other_rules [simp]:
  "es_probe_fails (snd (r4_audit_log_spike F samples tick now st)) = es_probe_fails st"
  "es_probe_fails (snd (r5_shutdown_drain_timeout F samples now st)) = es_probe_fails st"
  by (simp_all add: r4_audit_log_spike_def r5_shutdown_drain_timeout_def mark_fired_def Let_def case_prod_beta)

lemma probe_fails_seen:
  "fst ` set (es_probe_fails (snd (evaluate_all F samples tick now st))) \<subseteq> probe_of ` {s \<in> set samples. is_probe_sample s}"
  using r3_probe_fails_seen by (simp add: evaluate_all_def case_prod_beta Let_def)

text \<open>Bounded memory: after any run of ticks the evaluator's three maps have distinct keys, the counter baselines
  number at most \<open>MAX_TRACKED_COUNTER_KEYS\<close>, and after one more tick the probe streaks are those of probes that tick
  reported.\<close>

theorem evaluator_state_bounded:
  shows "evaluator_inv (snd (run_ticks F tick ts (new_evaluator cooldown)))
    \<and> fst ` set (es_probe_fails (snd (run_ticks F tick (ts @ [(now, samples)]) (new_evaluator cooldown))))
        \<subseteq> probe_of ` {s \<in> set samples. is_probe_sample s}"
  by (rule conjI, rule inv_run_ticks [OF inv_new_evaluator]) (simp add: run_ticks_append case_prod_beta Let_def probe_fails_seen)

end
