(* ===== verification/Chunk_Index.thy ===== *)
theory Chunk_Index
  imports Rust_Text
begin

text \<open>
  The chunk index and the call cascade of \<open>akashic-extraction/src/resolution\<close> (\<open>chunk_index.rs\<close>, \<open>edge_resolver.rs\<close>):
  type-name normalization, the signature and struct-body parsers, the registries built from a repository's chunks, and the
  tiers that bind a call to its target.

  Text is UTF-8 bytes; the parsers of the code work on bytes. Bracket depths are \<open>int\<close> (\<open>i32\<close> in the code: a depth of
  \<open>2 ^ 31\<close> needs a two-gigabyte chunk). Confidences are the code's literals in hundredths. Hash maps are partial
  functions, since none is iterated.
\<close>

section \<open>Type names\<close>

function strip_refs :: "string \<Rightarrow> string" where
  "strip_refs s =
     (case strip_prefix ''&mut '' s of
        Some r \<Rightarrow> strip_refs (trim_start r)
      | None \<Rightarrow>
          (case strip_prefix ''&mut'' s of
             Some r \<Rightarrow> strip_refs (trim_start r)
           | None \<Rightarrow> (case strip_prefix ''&'' s of Some r \<Rightarrow> strip_refs (trim_start r) | None \<Rightarrow> s)))"
  by auto
termination
  by (relation "measure length")
     (auto simp: strip_prefix_Some intro: le_less_trans [OF length_trim_start] less_Suc_eq_le [THEN iffD2])

declare strip_refs.simps [simp del]

definition strip_lifetime :: "string \<Rightarrow> string" where
  "strip_lifetime s =
     (case strip_prefix [CHR 0x27] s of
        None \<Rightarrow> s
      | Some rest \<Rightarrow>
          (case split_once_ws rest of
             None \<Rightarrow> s
           | Some (_, after) \<Rightarrow>
               let t = trim_start after in
               trim_start (case strip_prefix ''mut '' t of None \<Rightarrow> t | Some u \<Rightarrow> u)))"

text \<open>The text after the rightmost \<open>::\<close>, the first item of \<open>rsplit("::")\<close>.\<close>

fun after_colons :: "string \<Rightarrow> string option" where
  "after_colons [] = None"
| "after_colons (c # cs) =
     (case after_colons cs of
        Some t \<Rightarrow> Some t
      | None \<Rightarrow> if c = CHR '':'' \<and> starts_with '':'' cs then Some (tl cs) else None)"

definition rsplit_path :: "string \<Rightarrow> string" where
  "rsplit_path s = (case after_colons s of None \<Rightarrow> s | Some t \<Rightarrow> t)"

definition normalize_base_type :: "string \<Rightarrow> string" where
  "normalize_base_type ty =
     (let s = strip_lifetime (strip_refs (trim ty));
          s = trim (hd (split_char CHR ''<'' s))
      in trim (rsplit_path s))"

definition unwrap_layer :: "string \<Rightarrow> string \<Rightarrow> string option" where
  "unwrap_layer s wrapper =
     Option.bind (map_option trim_start (strip_prefix wrapper s)) (\<lambda>r.
     Option.bind (strip_prefix ''<'' r) (\<lambda>r.
     Option.bind (strip_suffix ''>'' r) (\<lambda>inner.
       if starts_with ''dyn '' (trim inner) then Some (trim inner) else None)))"

lemma length_strip_refs: "length (strip_refs s) \<le> length s"
proof (induction s rule: strip_refs.induct)
  case (1 s)
  note IH = 1
  have "length r \<le> length s" if "strip_prefix p s = Some r" for p r using that by (simp add: strip_prefix_Some)
  then have "length (trim_start r) \<le> length s" if "strip_prefix p s = Some r" for p r
    using that length_trim_start order_trans by blast
  with IH show ?case by (subst strip_refs.simps) (auto split: option.split intro: order_trans)
qed

lemma split_once_ws_shorter: "split_once_ws r = Some (a, b) \<Longrightarrow> length b \<le> length r"
  by (induction r arbitrary: a) (auto split: option.splits)

lemma length_strip_lifetime: "length (strip_lifetime s) \<le> length s"
proof (cases "strip_lifetime s = s")
  case False
  then obtain rest a after where s: "s = CHR 0x27 # rest" and split: "split_once_ws rest = Some (a, after)"
    by (auto simp: strip_lifetime_def strip_prefix_Some split: option.splits)
  let ?t = "trim_start after"
  let ?u = "case strip_prefix ''mut '' ?t of None \<Rightarrow> ?t | Some u \<Rightarrow> u"
  have "strip_lifetime s = trim_start ?u" using s split by (simp add: strip_lifetime_def strip_prefix_def starts_with_def Let_def)
  moreover have "length ?u \<le> length ?t" by (auto simp: strip_prefix_Some split: option.split)
  moreover have "length ?t \<le> length rest" using length_trim_start split_once_ws_shorter [OF split] order_trans by blast
  ultimately show ?thesis using length_trim_start [of ?u] s by simp
qed simp

lemma unwrap_layer_shorter: "unwrap_layer s w = Some inner \<Longrightarrow> length inner < length s"
proof -
  assume "unwrap_layer s w = Some inner"
  then obtain r r' i where "strip_prefix w s = Some r" "strip_prefix ''<'' (trim_start r) = Some r'"
    "strip_suffix ''>'' r' = Some i" "inner = trim i"
    by (auto simp: unwrap_layer_def bind_eq_Some_conv split: if_splits)
  then have "length r \<le> length s" "trim_start r = CHR ''<'' # r'" "length i \<le> length r'"
    by (auto simp: strip_prefix_Some strip_suffix_def split: if_splits)
  with length_trim [of i] length_trim_start [of r] \<open>inner = trim i\<close> show ?thesis by simp
qed

function resolve_dyn_trait_name :: "string \<Rightarrow> string option" where
  "resolve_dyn_trait_name type_text =
     (let s = strip_lifetime (strip_refs (trim type_text)) in
      case strip_prefix ''dyn '' s of
        Some rest \<Rightarrow>
          (let n = normalize_base_type (trim (hd (split_char CHR ''+'' rest))) in if n = [] then None else Some n)
      | None \<Rightarrow>
          (case find_map (unwrap_layer s) [''Box'', ''Arc'', ''Rc''] of
             Some inner \<Rightarrow> resolve_dyn_trait_name inner
           | None \<Rightarrow> None))"
  by auto
termination
proof (relation "measure length")
  fix type_text s inner
  assume s: "s = strip_lifetime (strip_refs (trim type_text))"
    and i: "find_map (unwrap_layer s) [''Box'', ''Arc'', ''Rc''] = Some inner"
  from find_map_Some [OF i] have "length inner < length s" by (auto dest: unwrap_layer_shorter)
  also have "length s \<le> length type_text"
    unfolding s using length_strip_lifetime length_strip_refs length_trim order_trans by metis
  finally show "(inner, type_text) \<in> measure length" by simp
qed simp

declare resolve_dyn_trait_name.simps [simp del]

section \<open>Signatures and struct bodies\<close>

fun return_arrow :: "int \<Rightarrow> string \<Rightarrow> string option" where
  "return_arrow depth [] = None"
| "return_arrow depth (c # cs) =
     (if c = CHR ''-'' \<and> starts_with ''>'' cs
      then if depth = 0 then Some (tl cs) else return_arrow depth (tl cs)
      else return_arrow
             (if c \<in> set ''(<['' then depth + 1 else if c \<in> set '')]>'' then depth - 1 else depth) cs)"

definition parse_return_type :: "string \<Rightarrow> string \<Rightarrow> string option" where
  "parse_return_type signature owner_type =
     (let head = before_first '' where '' (before_first ''{'' signature) in
      case return_arrow 0 head of
        None \<Rightarrow> None
      | Some rest \<Rightarrow>
          let ty = trim rest in
          if ty = [] then None
          else let normalized = normalize_base_type ty in
               Some (if normalized = ''Self'' then owner_type else normalized))"

text \<open>The struct body: from after the first \<open>{\<close> to the matching \<open>}\<close>.\<close>

fun body_until_close :: "int \<Rightarrow> string \<Rightarrow> string option" where
  "body_until_close depth [] = None"
| "body_until_close depth (c # cs) =
     (if c = CHR ''{'' then map_option ((#) c) (body_until_close (depth + 1) cs)
      else if c = CHR ''}'' then
        if depth - 1 = 0 then Some [] else map_option ((#) c) (body_until_close (depth - 1) cs)
      else map_option ((#) c) (body_until_close depth cs))"

definition struct_body :: "string \<Rightarrow> string option" where
  "struct_body content =
     (case dropWhile (\<lambda>c. c \<noteq> CHR ''{'') content of [] \<Rightarrow> None | c # cs \<Rightarrow> body_until_close 1 cs)"

definition cons_piece :: "string \<Rightarrow> string list \<Rightarrow> string list" where
  "cons_piece p pieces = (case pieces of [] \<Rightarrow> [p] | q # qs \<Rightarrow> (p @ q) # qs)"

fun split_top :: "int \<Rightarrow> string \<Rightarrow> string list" where
  "split_top d [] = [[]]"
| "split_top d (c # cs) =
     (if c = CHR ''-'' \<and> starts_with ''>'' cs then cons_piece ''->'' (split_top d (tl cs))
      else if c = CHR '','' \<and> d = 0 then [] # split_top d cs
      else cons_piece [c]
             (split_top (if c \<in> set ''(<[{'' then d + 1 else if c \<in> set '')>]}'' then d - 1 else d) cs))"

definition skipped_line :: "string \<Rightarrow> bool" where
  "skipped_line line \<longleftrightarrow> (let t = trim line in t = [] \<or> starts_with ''//'' t \<or> starts_with ''#['' t)"

definition strip_visibility :: "string \<Rightarrow> string option" where
  "strip_visibility rest =
     (if starts_with ''pub('' rest
      then map_option (\<lambda>(_, after). trim_start after) (split_once CHR '')'' (drop 3 rest))
      else case strip_prefix ''pub '' rest of Some after \<Rightarrow> Some (trim_start after) | None \<Rightarrow> Some rest)"

definition parse_one_field :: "string \<Rightarrow> (string \<times> string \<times> bool) option" where
  "parse_one_field segment =
     (let rest = trim (join_with '' '' (dropWhile skipped_line (text_lines segment))) in
      if rest = [] then None
      else Option.bind (strip_visibility rest) (\<lambda>rest.
           Option.bind (split_once CHR '':'' rest) (\<lambda>(n, t).
             let nm = trim n; ty = trim t in
             if nm = [] \<or> ty = [] then None
             else case resolve_dyn_trait_name ty of
                    Some trait_name \<Rightarrow> Some (nm, trait_name, True)
                  | None \<Rightarrow> Some (nm, normalize_base_type ty, False))))"

definition parse_struct_fields :: "string \<Rightarrow> (string \<times> string \<times> bool) list" where
  "parse_struct_fields content =
     (case struct_body content of None \<Rightarrow> [] | Some body \<Rightarrow> List.map_filter parse_one_field (split_top 0 body))"

section \<open>The index\<close>

type_synonym symbol_key = "string \<times> string"

record chunk_index =
  by_path_and_name :: "symbol_key \<rightharpoonup> uuid"
  by_name :: "string \<rightharpoonup> uuid list"
  chunk_module :: "uuid \<rightharpoonup> string"
  by_type_and_name :: "symbol_key \<rightharpoonup> uuid list"
  by_return_type :: "symbol_key \<rightharpoonup> string"
  return_type_conflicts :: "symbol_key set"
  by_field_type :: "symbol_key \<rightharpoonup> string"
  field_type_conflicts :: "symbol_key set"
  field_type_is_trait :: "symbol_key set"

definition empty_index :: chunk_index where
  "empty_index =
     \<lparr>by_path_and_name = Map.empty, by_name = Map.empty, chunk_module = Map.empty, by_type_and_name = Map.empty,
      by_return_type = Map.empty, return_type_conflicts = {}, by_field_type = Map.empty, field_type_conflicts = {},
      field_type_is_trait = {}\<rparr>"

definition push :: "'k \<Rightarrow> 'v \<Rightarrow> ('k \<rightharpoonup> 'v list) \<Rightarrow> ('k \<rightharpoonup> 'v list)" where
  "push k v m = m(k \<mapsto> (case m k of None \<Rightarrow> [] | Some vs \<Rightarrow> vs) @ [v])"

definition insert_chunk_entry :: "string \<Rightarrow> string \<Rightarrow> uuid \<Rightarrow> chunk_index \<Rightarrow> chunk_index" where
  "insert_chunk_entry module_path nm i idx =
     idx\<lparr>by_path_and_name := (by_path_and_name idx)((module_path, nm) \<mapsto> i),
         by_name := push nm i (by_name idx),
         chunk_module := (chunk_module idx)(i \<mapsto> module_path)\<rparr>"

definition insert_method :: "string \<Rightarrow> string \<Rightarrow> uuid \<Rightarrow> chunk_index \<Rightarrow> chunk_index" where
  "insert_method type_name meth i idx =
     idx\<lparr>by_type_and_name := push (normalize_base_type type_name, meth) i (by_type_and_name idx)\<rparr>"

definition insert_return_type :: "string \<Rightarrow> string \<Rightarrow> string \<Rightarrow> chunk_index \<Rightarrow> chunk_index" where
  "insert_return_type owner_type meth return_type idx =
     (let key = (normalize_base_type owner_type, meth) in
      if key \<in> return_type_conflicts idx then idx
      else case by_return_type idx key of
             Some existing \<Rightarrow>
               if existing \<noteq> return_type
               then idx\<lparr>by_return_type := (by_return_type idx)(key := None),
                        return_type_conflicts := insert key (return_type_conflicts idx)\<rparr>
               else idx
           | None \<Rightarrow> idx\<lparr>by_return_type := (by_return_type idx)(key \<mapsto> return_type)\<rparr>)"

definition insert_field_type :: "string \<Rightarrow> string \<Rightarrow> string \<Rightarrow> chunk_index \<Rightarrow> chunk_index" where
  "insert_field_type owner_type field field_type idx =
     (let key = (normalize_base_type owner_type, field) in
      if key \<in> field_type_conflicts idx then idx
      else case by_field_type idx key of
             Some existing \<Rightarrow>
               if existing \<noteq> field_type
               then idx\<lparr>by_field_type := (by_field_type idx)(key := None),
                        field_type_conflicts := insert key (field_type_conflicts idx)\<rparr>
               else idx
           | None \<Rightarrow> idx\<lparr>by_field_type := (by_field_type idx)(key \<mapsto> field_type)\<rparr>)"

record chunk_index_row =
  ir_id :: uuid
  ir_name :: string
  ir_module_path :: string
  ir_parent_fqn :: "string option"
  ir_signature :: "string option"
  ir_chunk_type :: string
  ir_content :: string

definition index_parent :: "chunk_index_row \<Rightarrow> chunk_index \<Rightarrow> chunk_index" where
  "index_parent r idx =
     (case ir_parent_fqn r of
        None \<Rightarrow> idx
      | Some t \<Rightarrow>
          let owner = normalize_base_type t;
              idx = insert_method t (ir_name r) (ir_id r) idx
          in case Option.bind (ir_signature r) (\<lambda>sig. parse_return_type sig owner) of
               Some ret \<Rightarrow> insert_return_type owner (ir_name r) ret idx
             | None \<Rightarrow> idx)"

definition index_field :: "string \<Rightarrow> string \<times> string \<times> bool \<Rightarrow> chunk_index \<Rightarrow> chunk_index" where
  "index_field nm = (\<lambda>(field, field_type, is_trait) idx.
     insert_field_type nm field field_type
       (if is_trait
        then idx\<lparr>field_type_is_trait := insert (normalize_base_type nm, field) (field_type_is_trait idx)\<rparr>
        else idx))"

definition index_row :: "chunk_index_row \<Rightarrow> chunk_index \<Rightarrow> chunk_index" where
  "index_row r idx =
     (let idx = index_parent r (insert_chunk_entry (ir_module_path r) (ir_name r) (ir_id r) idx) in
      if ir_chunk_type r = ''struct'' then fold (index_field (ir_name r)) (parse_struct_fields (ir_content r)) idx
      else idx)"

definition build_from :: "chunk_index_row list \<Rightarrow> chunk_index" where
  "build_from rows = fold index_row rows empty_index"

section \<open>Edges and the call cascade\<close>

datatype 'f metadata_value =
    MString string
  | MNumber 'f
  | MBool bool
  | MStringList "string list"
  | MMap "(string \<times> 'f metadata_value) list"

datatype edge_endpoint =
    Byte_range nat nat
  | Name string "string option"
  | Resolved uuid

datatype edge_kind =
    Call | Import | Extends | Implements | References | Instantiates | Overrides | Decorates | Includes | DependsOn | RoutesTo
  | UsesImage | Triggers | PartOfStage | BindsTo | Contains | ExplainedBy | MakesHttpCall

datatype provenance = Static | Heuristic string | Manual

record 'f raw_edge =
  re_source :: edge_endpoint
  re_target :: edge_endpoint
  re_kind :: edge_kind
  re_provenance :: provenance
  re_line :: "nat option"
  re_metadata :: "string \<rightharpoonup> 'f metadata_value"

record resolved_edge =
  rv_src :: uuid
  rv_tgt :: uuid
  rv_kind :: edge_kind
  rv_confidence :: nat
  rv_method :: string
  rv_line :: "nat option"
  rv_ref_kind :: "string option"

type_synonym import_map = "string \<rightharpoonup> (string \<times> string)"

definition meta_string :: "'f raw_edge \<Rightarrow> string \<Rightarrow> string option" where
  "meta_string e k = (case re_metadata e k of Some (MString s) \<Rightarrow> Some s | _ \<Rightarrow> None)"

definition meta_true :: "'f raw_edge \<Rightarrow> string \<Rightarrow> bool" where
  "meta_true e k \<longleftrightarrow> (case re_metadata e k of Some (MBool True) \<Rightarrow> True | _ \<Rightarrow> False)"

definition unique_id :: "uuid list option \<Rightarrow> uuid option" where
  "unique_id ids = (case ids of Some [i] \<Rightarrow> Some i | _ \<Rightarrow> None)"

text \<open>Each tier gives its target with the confidence and the label, or falls through.\<close>

definition tier_receiver :: "'f raw_edge \<Rightarrow> string \<Rightarrow> chunk_index \<Rightarrow> (uuid \<times> nat \<times> string) option" where
  "tier_receiver e nm idx =
     Option.bind (meta_string e ''edge.recv_type'') (\<lambda>recv_type.
       map_option (\<lambda>i.
           (i, if meta_true e ''edge.recv_is_trait_bound'' then (50, ''trait_default'')
               else if meta_true e ''edge.recv_inferred'' then (80, ''receiver_type'')
               else (90, ''type_qualified'')))
         (unique_id (by_type_and_name idx (recv_type, nm))))"

definition tier_chain :: "'f raw_edge \<Rightarrow> string \<Rightarrow> chunk_index \<Rightarrow> (uuid \<times> nat \<times> string) option" where
  "tier_chain e nm idx =
     Option.bind (meta_string e ''edge.chain_recv_type'') (\<lambda>chain_type.
     Option.bind (meta_string e ''edge.chain_recv_method'') (\<lambda>chain_method.
     Option.bind (by_return_type idx (chain_type, chain_method)) (\<lambda>inner_return.
       map_option (\<lambda>i. (i, 75, ''method_chain'')) (unique_id (by_type_and_name idx (inner_return, nm))))))"

definition tier_field :: "'f raw_edge \<Rightarrow> string \<Rightarrow> chunk_index \<Rightarrow> (uuid \<times> nat \<times> string) option" where
  "tier_field e nm idx =
     Option.bind (meta_string e ''edge.field_recv_type'') (\<lambda>field_recv_type.
     Option.bind (meta_string e ''edge.field_name'') (\<lambda>field_name.
     Option.bind (by_field_type idx (field_recv_type, field_name)) (\<lambda>field_type.
       map_option (\<lambda>i. (i, if (field_recv_type, field_name) \<in> field_type_is_trait idx then (50, ''trait_default'')
                          else (75, ''field_type'')))
         (unique_id (by_type_and_name idx (field_type, nm))))))"

definition tier_import :: "string \<Rightarrow> import_map \<Rightarrow> chunk_index \<Rightarrow> (uuid \<times> nat \<times> string) option" where
  "tier_import nm imports idx =
     Option.bind (imports nm) (\<lambda>(resolved_module, source).
       map_option (\<lambda>i. (i, 100, ''import_resolved'')) (by_path_and_name idx (resolved_module, source)))"

definition tier_same_file :: "string \<Rightarrow> string \<Rightarrow> chunk_index \<Rightarrow> (uuid \<times> nat \<times> string) option" where
  "tier_same_file src_module nm idx =
     map_option (\<lambda>i. (i, 80, ''same_file'')) (by_path_and_name idx (src_module, nm))"

definition in_modules :: "string set \<Rightarrow> chunk_index \<Rightarrow> uuid \<Rightarrow> bool" where
  "in_modules ms idx i \<longleftrightarrow> (case chunk_module idx i of None \<Rightarrow> False | Some m \<Rightarrow> m \<in> ms)"

definition tier_import_scoped :: "string \<Rightarrow> string set \<Rightarrow> chunk_index \<Rightarrow> (uuid \<times> nat \<times> string) option" where
  "tier_import_scoped nm imported_modules idx =
     (if imported_modules = {} then None
      else Option.bind (by_name idx nm) (\<lambda>candidates.
             map_option (\<lambda>i. (i, 70, ''import_scoped''))
               (unique_id (Some (filter (in_modules imported_modules idx) candidates)))))"

definition tier_unique :: "string \<Rightarrow> chunk_index \<Rightarrow> (uuid \<times> nat \<times> string) option" where
  "tier_unique nm idx = map_option (\<lambda>i. (i, 60, ''heuristic'')) (unique_id (by_name idx nm))"

definition resolve_call_edge ::
  "'f raw_edge \<Rightarrow> uuid \<Rightarrow> string \<Rightarrow> chunk_index \<Rightarrow> import_map \<Rightarrow> string set \<Rightarrow> resolved_edge option" where
  "resolve_call_edge e src_chunk_id src_module idx imports imported_modules =
     (case re_target e of
        Name nm _ \<Rightarrow>
          map_option (\<lambda>(tgt, confidence, meth).
              \<lparr>rv_src = src_chunk_id, rv_tgt = tgt, rv_kind = Call, rv_confidence = confidence, rv_method = meth,
               rv_line = re_line e, rv_ref_kind = None\<rparr>)
            (find_map id
               [tier_receiver e nm idx, tier_chain e nm idx, tier_field e nm idx, tier_import nm imports idx,
                tier_same_file src_module nm idx, tier_import_scoped nm imported_modules idx, tier_unique nm idx])
      | _ \<Rightarrow> None)"

definition resolve_edges ::
  "'f raw_edge list \<Rightarrow> (nat \<Rightarrow> (uuid \<times> string) option) \<Rightarrow> chunk_index \<Rightarrow> import_map \<Rightarrow> string set \<Rightarrow> resolved_edge list" where
  "resolve_edges raw_edges enclosing_src idx imports imported_modules =
     List.map_filter (\<lambda>e.
       if re_kind e = Call then
         (case re_source e of
            Byte_range start _ \<Rightarrow>
              Option.bind (enclosing_src start) (\<lambda>(src_id, src_module).
                resolve_call_edge e src_id src_module idx imports imported_modules)
          | _ \<Rightarrow> None)
       else None) raw_edges"

section \<open>Registries that drop a key on disagreement\<close>

text \<open>The contract of \<open>insert_return_type\<close> and \<open>insert_field_type\<close>: a key keeps its value while all its entries agree
  and is excluded for good once two of them differ.\<close>

definition agreed :: "('k \<times> 'v) set \<Rightarrow> 'k \<Rightarrow> 'v option" where
  "agreed P k = (if \<exists>!v. (k, v) \<in> P then Some (THE v. (k, v) \<in> P) else None)"

lemma agreed_Some: "agreed P k = Some v \<longleftrightarrow> (k, v) \<in> P \<and> (\<forall>w. (k, w) \<in> P \<longrightarrow> w = v)"
proof (cases "\<exists>!v. (k, v) \<in> P")
  case True
  then have "(k, THE v. (k, v) \<in> P) \<in> P" by (rule theI')
  with True show ?thesis by (auto simp: agreed_def)
qed (auto simp: agreed_def)

lemma agreed_None: "agreed P k = None \<longleftrightarrow> (\<forall>v. (k, v) \<in> P \<longrightarrow> (\<exists>w. (k, w) \<in> P \<and> w \<noteq> v))"
  using agreed_Some [of P k] by (cases "agreed P k") auto

lemma agreed_insert:
  "agreed (insert (a, v) P) k =
     (if k \<noteq> a then agreed P k else if \<forall>w. (k, w) \<in> P \<longrightarrow> w = v then Some v else None)"
proof -
  have "agreed (insert (a, v) P) k = Some u \<longleftrightarrow>
      (if k \<noteq> a then agreed P k else if \<forall>w. (k, w) \<in> P \<longrightarrow> w = v then Some v else None) = Some u" for u
    by (cases "k = a") (auto simp: agreed_Some)
  then show ?thesis by (metis not_None_eq)
qed

definition tracks :: "('k \<rightharpoonup> 'v) \<Rightarrow> 'k set \<Rightarrow> ('k \<times> 'v) set \<Rightarrow> bool" where
  "tracks m b P \<longleftrightarrow> (\<forall>k. m k = agreed P k \<and> (k \<in> b \<longleftrightarrow> (\<exists>v w. (k, v) \<in> P \<and> (k, w) \<in> P \<and> v \<noteq> w)))"

locale poisoning_registry =
  fixes get :: "'s \<Rightarrow> 'k \<Rightarrow> 'v option" and bad :: "'s \<Rightarrow> 'k set" and ins :: "'a \<Rightarrow> 'v \<Rightarrow> 's \<Rightarrow> 's" and key :: "'a \<Rightarrow> 'k"
  assumes ins_bad: "key a \<in> bad s \<Longrightarrow> get (ins a v s) = get s \<and> bad (ins a v s) = bad s"
    and ins_new: "key a \<notin> bad s \<Longrightarrow> get s (key a) = None \<Longrightarrow>
      get (ins a v s) = (get s)(key a \<mapsto> v) \<and> bad (ins a v s) = bad s"
    and ins_same: "key a \<notin> bad s \<Longrightarrow> get s (key a) = Some v \<Longrightarrow> get (ins a v s) = get s \<and> bad (ins a v s) = bad s"
    and ins_differs: "key a \<notin> bad s \<Longrightarrow> get s (key a) = Some w \<Longrightarrow> w \<noteq> v \<Longrightarrow>
      get (ins a v s) = (get s)(key a := None) \<and> bad (ins a v s) = insert (key a) (bad s)"
begin

lemma tracks_ins:
  assumes "tracks (get s) (bad s) P"
  shows "tracks (get (ins a v s)) (bad (ins a v s)) (insert (key a, v) P)"
proof -
  let ?k = "key a"
  have get: "get s k = agreed P k" and bad_iff: "k \<in> bad s \<longleftrightarrow> (\<exists>v w. (k, v) \<in> P \<and> (k, w) \<in> P \<and> v \<noteq> w)" for k
    using assms by (auto simp: tracks_def)
  consider (bad) "?k \<in> bad s" | (new) "?k \<notin> bad s" "get s ?k = None" | (same) "?k \<notin> bad s" "get s ?k = Some v"
    | (differs) w where "?k \<notin> bad s" "get s ?k = Some w" "w \<noteq> v" by (cases "get s ?k") auto
  then show ?thesis
  proof cases
    case bad
    then obtain x y where xy: "(?k, x) \<in> P" "(?k, y) \<in> P" "x \<noteq> y" using bad_iff by blast
    then have "agreed P ?k = None" by (metis agreed_Some not_None_eq)
    with xy bad show ?thesis using ins_bad [of a s v]
      by (auto simp: tracks_def agreed_insert get bad_iff)
  next
    case new
    then have "(?k, u) \<notin> P" for u using get [of ?k] bad_iff [of ?k] by (metis agreed_None)
    with new show ?thesis using ins_new [of a s v] by (auto simp: tracks_def agreed_insert get bad_iff)
  next
    case same
    then have "(?k, u) \<in> P \<longleftrightarrow> u = v" for u using get [of ?k] by (auto simp: agreed_Some)
    with same show ?thesis using ins_same [of a s v] by (auto simp: tracks_def agreed_insert get bad_iff)
  next
    case differs
    then have "(?k, u) \<in> P \<longleftrightarrow> u = w" for u using get [of ?k] by (auto simp: agreed_Some)
    with differs show ?thesis using ins_differs [of a s w v] by (auto simp: tracks_def agreed_insert get bad_iff)
  qed
qed

end

interpretation ret: poisoning_registry by_return_type return_type_conflicts "\<lambda>(owner, meth). insert_return_type owner meth"
  "\<lambda>(owner, meth). (normalize_base_type owner, meth)"
  by unfold_locales (simp_all add: insert_return_type_def Let_def split_beta)

interpretation fld: poisoning_registry by_field_type field_type_conflicts "\<lambda>(owner, field). insert_field_type owner field"
  "\<lambda>(owner, field). (normalize_base_type owner, field)"
  by unfold_locales (simp_all add: insert_field_type_def Let_def split_beta)

section \<open>What the index holds\<close>

text \<open>The entries each row contributes, and the rows a lookup stands for.\<close>

definition return_entries :: "chunk_index_row \<Rightarrow> (symbol_key \<times> string) set" where
  "return_entries r =
     {((normalize_base_type (normalize_base_type t), ir_name r), ret) |t sig ret.
        ir_parent_fqn r = Some t \<and> ir_signature r = Some sig \<and> parse_return_type sig (normalize_base_type t) = Some ret}"

definition field_entries :: "chunk_index_row \<Rightarrow> (symbol_key \<times> string) set" where
  "field_entries r =
     {((normalize_base_type (ir_name r), field), ty) |field ty is_trait.
        ir_chunk_type r = ''struct'' \<and> (field, ty, is_trait) \<in> set (parse_struct_fields (ir_content r))}"

definition trait_fields :: "chunk_index_row \<Rightarrow> symbol_key set" where
  "trait_fields r =
     {(normalize_base_type (ir_name r), field) |field ty.
        ir_chunk_type r = ''struct'' \<and> (field, ty, True) \<in> set (parse_struct_fields (ir_content r))}"

definition named :: "string \<Rightarrow> chunk_index_row \<Rightarrow> bool" where
  "named nm r \<longleftrightarrow> ir_name r = nm"

definition method_of :: "string \<Rightarrow> string \<Rightarrow> chunk_index_row \<Rightarrow> bool" where
  "method_of ty nm r \<longleftrightarrow> ir_name r = nm \<and> (\<exists>t. ir_parent_fqn r = Some t \<and> normalize_base_type t = ty)"

definition located :: "string \<Rightarrow> string \<Rightarrow> chunk_index_row \<Rightarrow> bool" where
  "located module_path nm r \<longleftrightarrow> ir_module_path r = module_path \<and> ir_name r = nm"

definition ids_or_none :: "'a list \<Rightarrow> 'a list option" where
  "ids_or_none xs = (if xs = [] then None else Some xs)"

definition final :: "'a list \<Rightarrow> 'a option" where
  "final xs = (if xs = [] then None else Some (last xs))"

lemma push_ids: "push k v m k' = (if k' = k then Some ((case m k of None \<Rightarrow> [] | Some vs \<Rightarrow> vs) @ [v]) else m k')"
  by (simp add: push_def)

lemma ids_or_none_simps [simp]:
  "(case ids_or_none xs of None \<Rightarrow> [] | Some vs \<Rightarrow> vs) = xs" "ids_or_none (xs @ [v]) = Some (xs @ [v])"
  by (simp_all add: ids_or_none_def)

lemma index_field_keeps [simp]:
  "by_path_and_name (index_field nm f idx) = by_path_and_name idx"
  "by_name (index_field nm f idx) = by_name idx"
  "chunk_module (index_field nm f idx) = chunk_module idx"
  "by_type_and_name (index_field nm f idx) = by_type_and_name idx"
  "by_return_type (index_field nm f idx) = by_return_type idx"
  "return_type_conflicts (index_field nm f idx) = return_type_conflicts idx"
  by (simp_all add: index_field_def insert_field_type_def Let_def split_beta split: option.split)

lemma fold_index_field_keeps [simp]:
  "by_path_and_name (fold (index_field nm) fs idx) = by_path_and_name idx"
  "by_name (fold (index_field nm) fs idx) = by_name idx"
  "chunk_module (fold (index_field nm) fs idx) = chunk_module idx"
  "by_type_and_name (fold (index_field nm) fs idx) = by_type_and_name idx"
  "by_return_type (fold (index_field nm) fs idx) = by_return_type idx"
  "return_type_conflicts (fold (index_field nm) fs idx) = return_type_conflicts idx"
  by (induction fs arbitrary: idx) simp_all

lemma insert_return_type_keeps [simp]:
  "by_path_and_name (insert_return_type ow m t idx) = by_path_and_name idx"
  "by_name (insert_return_type ow m t idx) = by_name idx"
  "chunk_module (insert_return_type ow m t idx) = chunk_module idx"
  "by_type_and_name (insert_return_type ow m t idx) = by_type_and_name idx"
  "by_field_type (insert_return_type ow m t idx) = by_field_type idx"
  "field_type_conflicts (insert_return_type ow m t idx) = field_type_conflicts idx"
  "field_type_is_trait (insert_return_type ow m t idx) = field_type_is_trait idx"
  by (simp_all add: insert_return_type_def Let_def split: option.split)

lemma index_parent_keeps [simp]:
  "by_path_and_name (index_parent r idx) = by_path_and_name idx"
  "by_name (index_parent r idx) = by_name idx"
  "chunk_module (index_parent r idx) = chunk_module idx"
  "by_field_type (index_parent r idx) = by_field_type idx"
  "field_type_conflicts (index_parent r idx) = field_type_conflicts idx"
  "field_type_is_trait (index_parent r idx) = field_type_is_trait idx"
  by (simp_all add: index_parent_def insert_method_def Let_def split: option.split)

lemma insert_chunk_entry_keeps [simp]:
  "by_type_and_name (insert_chunk_entry mp nm i idx) = by_type_and_name idx"
  "by_return_type (insert_chunk_entry mp nm i idx) = by_return_type idx"
  "return_type_conflicts (insert_chunk_entry mp nm i idx) = return_type_conflicts idx"
  "by_field_type (insert_chunk_entry mp nm i idx) = by_field_type idx"
  "field_type_conflicts (insert_chunk_entry mp nm i idx) = field_type_conflicts idx"
  "field_type_is_trait (insert_chunk_entry mp nm i idx) = field_type_is_trait idx"
  by (simp_all add: insert_chunk_entry_def)

lemma index_row_locations:
  "by_path_and_name (index_row r idx) = (by_path_and_name idx)((ir_module_path r, ir_name r) \<mapsto> ir_id r)"
  "by_name (index_row r idx) = push (ir_name r) (ir_id r) (by_name idx)"
  "chunk_module (index_row r idx) = (chunk_module idx)(ir_id r \<mapsto> ir_module_path r)"
  by (simp_all add: index_row_def insert_chunk_entry_def Let_def)

lemma index_row_methods:
  "by_type_and_name (index_row r idx) =
     (case ir_parent_fqn r of None \<Rightarrow> by_type_and_name idx
      | Some t \<Rightarrow> push (normalize_base_type t, ir_name r) (ir_id r) (by_type_and_name idx))"
  by (simp add: index_row_def index_parent_def insert_method_def Let_def split: option.split)

lemma build_from_snoc: "build_from (rows @ [r]) = index_row r (build_from rows)"
  by (simp add: build_from_def)

lemma build_by_path: "by_path_and_name (build_from rows) (m, nm) = map_option ir_id (final (filter (located m nm) rows))"
proof (induction rows rule: rev_induct)
  case Nil
  then show ?case by (simp add: build_from_def empty_index_def final_def)
next
  case (snoc r rows)
  then show ?case by (simp add: build_from_snoc index_row_locations final_def located_def)
qed

lemma build_by_name: "by_name (build_from rows) nm = ids_or_none (map ir_id (filter (named nm) rows))"
proof (induction rows rule: rev_induct)
  case Nil
  then show ?case by (simp add: build_from_def empty_index_def ids_or_none_def)
next
  case (snoc r rows)
  then show ?case
    by (cases "ir_name r = nm") (simp_all add: build_from_snoc index_row_locations named_def push_ids)
qed

lemma build_by_type: "by_type_and_name (build_from rows) (ty, nm) = ids_or_none (map ir_id (filter (method_of ty nm) rows))"
proof (induction rows rule: rev_induct)
  case Nil
  then show ?case by (simp add: build_from_def empty_index_def ids_or_none_def)
next
  case (snoc r rows)
  then show ?case
    by (cases "ir_parent_fqn r"; cases "method_of ty nm r")
       (auto simp: build_from_snoc index_row_methods method_of_def push_ids)
qed

lemma build_chunk_module:
  "distinct (map ir_id rows) \<Longrightarrow> r \<in> set rows \<Longrightarrow> chunk_module (build_from rows) (ir_id r) = Some (ir_module_path r)"
proof (induction rows rule: rev_induct)
  case (snoc x rows)
  then show ?case by (auto simp: build_from_snoc index_row_locations image_iff)
qed simp

lemma index_row_return:
  assumes "tracks (by_return_type idx) (return_type_conflicts idx) P"
  shows "tracks (by_return_type (index_row r idx)) (return_type_conflicts (index_row r idx)) (P \<union> return_entries r)"
proof (cases "ir_parent_fqn r")
  case None
  with assms show ?thesis by (simp add: index_row_def index_parent_def return_entries_def Let_def)
next
  case (Some t)
  let ?o = "normalize_base_type t"
  show ?thesis
  proof (cases "Option.bind (ir_signature r) (\<lambda>sig. parse_return_type sig ?o)")
    case None
    then have "return_entries r = {}" using Some by (auto simp: return_entries_def)
    with None Some assms show ?thesis by (simp add: index_row_def index_parent_def insert_method_def Let_def)
  next
    case ret: (Some v)
    then have "return_entries r = {((normalize_base_type ?o, ir_name r), v)}"
      using Some by (auto simp: return_entries_def bind_eq_Some_conv)
    with ret Some ret.tracks_ins [of "insert_method t (ir_name r) (ir_id r) (insert_chunk_entry (ir_module_path r) (ir_name r) (ir_id r) idx)" P "(?o, ir_name r)" v] assms
    show ?thesis by (simp add: index_row_def index_parent_def insert_method_def Let_def)
  qed
qed

lemma fold_index_field:
  assumes "tracks (by_field_type idx) (field_type_conflicts idx) P"
  shows "tracks (by_field_type (fold (index_field nm) fs idx)) (field_type_conflicts (fold (index_field nm) fs idx))
    (P \<union> {((normalize_base_type nm, field), ty) |field ty b. (field, ty, b) \<in> set fs})"
  using assms
proof (induction fs arbitrary: idx P)
  case (Cons f fs)
  obtain field ty b where f: "f = (field, ty, b)" by (cases f)
  let ?idx = "if b then idx\<lparr>field_type_is_trait := insert (normalize_base_type nm, field) (field_type_is_trait idx)\<rparr> else idx"
  have "tracks (by_field_type ?idx) (field_type_conflicts ?idx) P" using Cons.prems by simp
  from fld.tracks_ins [OF this, of "(nm, field)" ty] Cons.IH [of "index_field nm f idx"
      "insert ((normalize_base_type nm, field), ty) P"]
  have "tracks (by_field_type (fold (index_field nm) (f # fs) idx)) (field_type_conflicts (fold (index_field nm) (f # fs) idx))
      (insert ((normalize_base_type nm, field), ty) P \<union> {((normalize_base_type nm, field), ty) |field ty b. (field, ty, b) \<in> set fs})"
    by (simp add: index_field_def f)
  moreover have "insert ((normalize_base_type nm, field), ty) P \<union> {((normalize_base_type nm, field), ty) |field ty b. (field, ty, b) \<in> set fs}
      = P \<union> {((normalize_base_type nm, field), ty) |field ty b. (field, ty, b) \<in> set (f # fs)}"
    by (auto simp: f)
  ultimately show ?case by simp
qed simp

lemma index_row_field:
  assumes "tracks (by_field_type idx) (field_type_conflicts idx) P"
  shows "tracks (by_field_type (index_row r idx)) (field_type_conflicts (index_row r idx)) (P \<union> field_entries r)"
proof (cases "ir_chunk_type r = ''struct''")
  case True
  let ?idx = "index_parent r (insert_chunk_entry (ir_module_path r) (ir_name r) (ir_id r) idx)"
  have "tracks (by_field_type ?idx) (field_type_conflicts ?idx) P" using assms by simp
  from fold_index_field [OF this, of "ir_name r" "parse_struct_fields (ir_content r)"] True
  show ?thesis by (simp add: index_row_def Let_def field_entries_def)
qed (use assms in \<open>simp add: index_row_def Let_def field_entries_def\<close>)

lemma fold_index_field_traits:
  "field_type_is_trait (fold (index_field nm) fs idx) =
     field_type_is_trait idx \<union> {(normalize_base_type nm, field) |field ty. (field, ty, True) \<in> set fs}"
proof (induction fs arbitrary: idx)
  case (Cons f fs)
  have "field_type_is_trait (index_field nm f idx) =
      (if snd (snd f) then insert (normalize_base_type nm, fst f) (field_type_is_trait idx) else field_type_is_trait idx)"
    by (simp add: index_field_def insert_field_type_def Let_def split_beta split: option.split)
  with Cons show ?case by (cases f) auto
qed simp

lemma index_row_traits: "field_type_is_trait (index_row r idx) = field_type_is_trait idx \<union> trait_fields r"
  by (auto simp: index_row_def Let_def fold_index_field_traits trait_fields_def)

lemma build_registries:
  "tracks (by_return_type (build_from rows)) (return_type_conflicts (build_from rows)) (\<Union>r \<in> set rows. return_entries r)
   \<and> tracks (by_field_type (build_from rows)) (field_type_conflicts (build_from rows)) (\<Union>r \<in> set rows. field_entries r)
   \<and> field_type_is_trait (build_from rows) = (\<Union>r \<in> set rows. trait_fields r)"
proof (induction rows rule: rev_induct)
  case Nil
  then show ?case by (simp add: build_from_def empty_index_def tracks_def agreed_def Ex1_def)
next
  case (snoc r rows)
  have U: "(\<Union>x \<in> set (rows @ [r]). g x) = (\<Union>x \<in> set rows. g x) \<union> g r" for g :: "chunk_index_row \<Rightarrow> 'a set" by auto
  have V: "(\<Union>x \<in> set (rows @ [r]). g x) = (\<Union>x \<in> set rows. g x) \<union> g r" for g :: "chunk_index_row \<Rightarrow> 'b set" by auto
  from snoc index_row_return [of "build_from rows" _ r] index_row_field [of "build_from rows" _ r] show ?case
    unfolding build_from_snoc index_row_traits U V by blast
qed

lemma build_return_type: "by_return_type (build_from rows) k = agreed (\<Union>r \<in> set rows. return_entries r) k"
  and build_field_type: "by_field_type (build_from rows) k = agreed (\<Union>r \<in> set rows. field_entries r) k"
  and build_traits: "field_type_is_trait (build_from rows) = (\<Union>r \<in> set rows. trait_fields r)"
  using build_registries [of rows] unfolding tracks_def by blast+

section \<open>The cascade as a scan of the rows\<close>

definition sole :: "'a list \<Rightarrow> 'a option" where
  "sole xs = (case xs of [x] \<Rightarrow> Some x | _ \<Rightarrow> None)"

definition scan_tiers ::
  "chunk_index_row list \<Rightarrow> 'f raw_edge \<Rightarrow> string \<Rightarrow> string \<Rightarrow> import_map \<Rightarrow> string set \<Rightarrow> (chunk_index_row \<times> nat \<times> string) option list" where
  "scan_tiers rows e nm src_module imports imported_modules =
     [Option.bind (meta_string e ''edge.recv_type'') (\<lambda>ty.
        map_option (\<lambda>r. (r, if meta_true e ''edge.recv_is_trait_bound'' then (50, ''trait_default'')
                            else if meta_true e ''edge.recv_inferred'' then (80, ''receiver_type'') else (90, ''type_qualified'')))
          (sole (filter (method_of ty nm) rows))),
      Option.bind (meta_string e ''edge.chain_recv_type'') (\<lambda>ty.
        Option.bind (meta_string e ''edge.chain_recv_method'') (\<lambda>m.
        Option.bind (agreed (\<Union>r \<in> set rows. return_entries r) (ty, m)) (\<lambda>ret.
        map_option (\<lambda>r. (r, 75, ''method_chain'')) (sole (filter (method_of ret nm) rows))))),
      Option.bind (meta_string e ''edge.field_recv_type'') (\<lambda>ty.
        Option.bind (meta_string e ''edge.field_name'') (\<lambda>f.
        Option.bind (agreed (\<Union>r \<in> set rows. field_entries r) (ty, f)) (\<lambda>ft.
        map_option (\<lambda>r. (r, if \<exists>s \<in> set rows. (ty, f) \<in> trait_fields s then (50, ''trait_default'') else (75, ''field_type'')))
          (sole (filter (method_of ft nm) rows))))),
      Option.bind (imports nm) (\<lambda>(m, source). map_option (\<lambda>r. (r, 100, ''import_resolved'')) (final (filter (located m source) rows))),
      map_option (\<lambda>r. (r, 80, ''same_file'')) (final (filter (located src_module nm) rows)),
      map_option (\<lambda>r. (r, 70, ''import_scoped'')) (sole (filter (\<lambda>r. named nm r \<and> ir_module_path r \<in> imported_modules) rows)),
      map_option (\<lambda>r. (r, 60, ''heuristic'')) (sole (filter (named nm) rows))]"

definition to_target :: "chunk_index_row \<times> nat \<times> string \<Rightarrow> uuid \<times> nat \<times> string" where
  "to_target = (\<lambda>(r, c, m). (ir_id r, c, m))"

lemma unique_id_rows: "unique_id (ids_or_none (map ir_id rs)) = map_option ir_id (sole rs)"
  by (auto simp: unique_id_def ids_or_none_def sole_def split: list.split)

lemma sole_map: "unique_id (Some (map ir_id rs)) = map_option ir_id (sole rs)"
  by (auto simp: unique_id_def sole_def split: list.split)

lemma scoped_rows:
  assumes "distinct (map ir_id rows)"
  shows "filter (in_modules ms (build_from rows)) (map ir_id (filter (named nm) rows))
    = map ir_id (filter (\<lambda>r. named nm r \<and> ir_module_path r \<in> ms) rows)"
proof -
  have "in_modules ms (build_from rows) (ir_id r) \<longleftrightarrow> ir_module_path r \<in> ms" if "r \<in> set rows" for r
    using build_chunk_module [OF assms that] by (simp add: in_modules_def)
  then have "filter (\<lambda>r. in_modules ms (build_from rows) (ir_id r)) (filter (named nm) rows)
      = filter (\<lambda>r. ir_module_path r \<in> ms) (filter (named nm) rows)"
    by (intro filter_cong) auto
  then show ?thesis by (simp add: filter_map o_def conj_commute)
qed

lemma tiers_scan:
  assumes "distinct (map ir_id rows)"
  shows "[tier_receiver e nm (build_from rows), tier_chain e nm (build_from rows), tier_field e nm (build_from rows),
      tier_import nm imports (build_from rows), tier_same_file m nm (build_from rows),
      tier_import_scoped nm ms (build_from rows), tier_unique nm (build_from rows)]
    = map (map_option to_target) (scan_tiers rows e nm m imports ms)"
proof -
  have scoped: "tier_import_scoped nm ms (build_from rows)
      = map_option to_target (map_option (\<lambda>r. (r, 70, ''import_scoped''))
          (sole (filter (\<lambda>r. named nm r \<and> ir_module_path r \<in> ms) rows)))"
  proof (cases "ms = {} \<or> filter (named nm) rows = []")
    case True
    then have "filter (\<lambda>r. named nm r \<and> ir_module_path r \<in> ms) rows = []" by (auto simp: filter_empty_conv)
    with True show ?thesis by (auto simp: tier_import_scoped_def build_by_name ids_or_none_def sole_def)
  next
    case False
    then show ?thesis
      by (simp add: tier_import_scoped_def build_by_name ids_or_none_def scoped_rows [OF assms] sole_map option.map_comp
            o_def to_target_def)
  qed
  show ?thesis
    by (simp add: scan_tiers_def scoped)
       (simp add: tier_receiver_def tier_chain_def tier_field_def tier_import_def tier_same_file_def tier_unique_def
          build_by_type build_by_name build_by_path build_return_type build_field_type build_traits unique_id_rows
          to_target_def option.map_comp o_def map_option_bind case_prod_unfold)
qed

lemma find_map_map: "find_map id (map (map_option f) xs) = map_option f (find_map id xs)"
  by (induction xs) (auto split: option.split)

definition call_scan ::
  "chunk_index_row list \<Rightarrow> 'f raw_edge \<Rightarrow> uuid \<Rightarrow> string \<Rightarrow> import_map \<Rightarrow> string set \<Rightarrow> resolved_edge option" where
  "call_scan rows e src src_module imports imported_modules =
     (case re_target e of
        Name nm _ \<Rightarrow>
          map_option (\<lambda>(r, confidence, meth).
              \<lparr>rv_src = src, rv_tgt = ir_id r, rv_kind = Call, rv_confidence = confidence, rv_method = meth,
               rv_line = re_line e, rv_ref_kind = None\<rparr>)
            (find_map id (scan_tiers rows e nm src_module imports imported_modules))
      | _ \<Rightarrow> None)"

lemma resolve_call_edge_scan:
  assumes "distinct (map ir_id rows)"
  shows "resolve_call_edge e src m (build_from rows) imports ms = call_scan rows e src m imports ms"
  by (simp only: resolve_call_edge_def call_scan_def tiers_scan [OF assms] find_map_map)
     (auto simp: option.map_comp o_def to_target_def case_prod_unfold split: edge_endpoint.split)

text \<open>C16. The hash index is an optimisation only: with distinct chunk ids, a call resolved through the index built from the
  rows gets the edge that a scan of the rows gives, tier by tier. A receiver, chain or field type and a repository-wide
  or import-scoped name bind only when exactly one row qualifies; a return or field type counts only when all rows that
  declare it agree, in whatever order they come; an import binding and a name of the same file take the last row inserted.\<close>

theorem call_cascade_scans_rows:
  assumes "distinct (map ir_id rows)"
  shows "resolve_call_edge e src m (build_from rows) imports ms = call_scan rows e src m imports ms"
  by (rule resolve_call_edge_scan [OF assms])

definition demo_row :: "uuid \<Rightarrow> string \<Rightarrow> string \<Rightarrow> string option \<Rightarrow> string option \<Rightarrow> chunk_index_row" where
  "demo_row i nm m parent sig =
     \<lparr>ir_id = i, ir_name = nm, ir_module_path = m, ir_parent_fqn = parent, ir_signature = sig, ir_chunk_type = ''method'',
      ir_content = ''''\<rparr>"

definition demo_rows :: "chunk_index_row list" where
  "demo_rows =
     [demo_row 1 ''open'' ''a.rs'' (Some ''Store<T>'') (Some ''fn open(&self) -> &mut Conn''),
      demo_row 2 ''send'' ''a.rs'' (Some ''Conn'') (Some ''fn send(&self)''),
      demo_row 3 ''send'' ''b.rs'' (Some ''Mail'') None]"

definition demo_edge :: "unit raw_edge" where
  "demo_edge =
     \<lparr>re_source = Byte_range 3 9, re_target = Name ''send'' None, re_kind = Call, re_provenance = Static, re_line = Some 7,
      re_metadata = [''edge.chain_recv_type'' \<mapsto> MString ''Store'', ''edge.chain_recv_method'' \<mapsto> MString ''open'']\<rparr>"

theorem call_cascade_scans_rows_witness:
  "resolve_call_edge demo_edge 9 ''c.rs'' (build_from demo_rows) Map.empty {} = call_scan demo_rows demo_edge 9 ''c.rs'' Map.empty {}
   \<and> map_option rv_tgt (resolve_call_edge demo_edge 9 ''c.rs'' (build_from demo_rows) Map.empty {}) = Some 2"
  by (rule conjI, rule call_cascade_scans_rows, code_simp, code_simp)

lemma sole_Some: "sole xs = Some x \<longleftrightarrow> xs = [x]"
  by (auto simp: sole_def split: list.splits)

lemma final_Some: "final xs = Some x \<Longrightarrow> x \<in> set xs"
  by (auto simp: final_def split: if_splits)

lemma scan_tier_named:
  assumes "Some (r, c, m) \<in> set (scan_tiers rows e nm src_module imports ms)" and "imports nm = None"
  shows "r \<in> set rows \<and> ir_name r = nm"
proof -
  have mem: "r \<in> set rows \<and> P r" if "sole (filter P rows) = Some r" for P
    using that by (auto simp: sole_Some filter_eq_Cons_iff)
  have last: "r \<in> set rows \<and> P r" if "final (filter P rows) = Some r" for P using final_Some [OF that] by simp
  from assms show ?thesis
    by (auto simp: scan_tiers_def bind_eq_Some_conv eq_commute [of "Some _"]
          dest!: mem last simp: method_of_def named_def located_def)
qed

lemma find_map_id_Some: "find_map id xs = Some y \<Longrightarrow> Some y \<in> set xs"
  using find_map_Some [of id xs y] by auto

text \<open>A call is never lost to ambiguity that is not there: when exactly one chunk of the repository has the called name
  and the file does not import that name, the call resolves, and to that chunk.\<close>

theorem unique_name_resolves:
  assumes "filter (named nm) rows = [r]" and "distinct (map ir_id rows)" and "re_target e = Name nm spec" and "imports nm = None"
  shows "\<exists>rv. resolve_call_edge e src m (build_from rows) imports ms = Some rv \<and> rv_tgt rv = ir_id r \<and> rv_src rv = src"
proof -
  let ?tiers = "scan_tiers rows e nm m imports ms"
  have "Some (r, 60, ''heuristic'') \<in> set ?tiers" using assms(1) by (simp add: scan_tiers_def sole_def)
  then have "find_map id ?tiers \<noteq> None" by (auto simp: find_map_None)
  then obtain r' c l where found: "find_map id ?tiers = Some (r', c, l)" by (metis not_None_eq prod.exhaust)
  have "r' \<in> set (filter (named nm) rows)"
    using scan_tier_named [OF find_map_id_Some [OF found] assms(4)] by (simp add: named_def)
  then have "r' = r" using assms(1) by simp
  with found assms(3) show ?thesis by (simp add: resolve_call_edge_scan [OF assms(2)] call_scan_def)
qed

theorem unique_name_resolves_witness:
  "\<exists>rv. resolve_call_edge (demo_edge\<lparr>re_target := Name ''open'' None\<rparr>) 9 ''c.rs'' (build_from demo_rows) Map.empty {} = Some rv
     \<and> rv_tgt rv = 1 \<and> rv_src rv = 9"
  using unique_name_resolves [of "''open''" demo_rows "demo_row 1 ''open'' ''a.rs'' (Some ''Store<T>'') (Some ''fn open(&self) -> &mut Conn'')"
      "demo_edge\<lparr>re_target := Name ''open'' None\<rparr>" None Map.empty 9 "''c.rs''" "{}"]
  by (simp add: demo_rows_def demo_row_def named_def)

section \<open>Struct declarations\<close>

text \<open>A printed struct with named fields, one to a line, each with its visibility: \<open>None\<close> for none, \<open>Some []\<close> for \<open>pub\<close>,
  \<open>Some p\<close> for \<open>pub(p)\<close>.\<close>

definition print_vis :: "string option \<Rightarrow> string" where
  "print_vis v = (case v of None \<Rightarrow> [] | Some p \<Rightarrow> if p = [] then ''pub '' else ''pub('' @ p @ '') '')"

definition print_field :: "string option \<times> string \<times> string \<Rightarrow> string" where
  "print_field = (\<lambda>(v, n, t). [CHR 0x0A] @ ''    '' @ print_vis v @ n @ '': '' @ t)"

definition print_struct :: "string \<Rightarrow> (string option \<times> string \<times> string) list \<Rightarrow> string" where
  "print_struct header fs = header @ ''{'' @ concat (map (\<lambda>f. print_field f @ '','') fs) @ [CHR 0x0A] @ ''}''"

text \<open>Type text whose brackets close, with no comma outside them; \<open>->\<close> is not a bracket.\<close>

fun closed_at :: "int \<Rightarrow> string \<Rightarrow> bool" where
  "closed_at d [] \<longleftrightarrow> d = 0"
| "closed_at d (c # cs) \<longleftrightarrow>
     (if c = CHR ''-'' \<and> starts_with ''>'' cs then closed_at d (tl cs)
      else if c = CHR '','' \<and> d = 0 then False
      else closed_at (if c \<in> set ''(<[{'' then d + 1 else if c \<in> set '')>]}'' then d - 1 else d) cs)"

definition ident_char :: "char \<Rightarrow> bool" where
  "ident_char c \<longleftrightarrow>
     (let n = of_char c :: nat in 48 \<le> n \<and> n \<le> 57 \<or> 65 \<le> n \<and> n \<le> 90 \<or> n = 95 \<or> 97 \<le> n \<and> n \<le> 122)"

definition vis_ok :: "string option \<Rightarrow> bool" where
  "vis_ok v = (case v of None \<Rightarrow> True | Some p \<Rightarrow> list_all ident_char p)"

definition type_char :: "char \<Rightarrow> bool" where
  "type_char c \<longleftrightarrow> c \<noteq> CHR ''{'' \<and> c \<noteq> CHR ''}'' \<and> c \<noteq> CHR 0x0A"

definition field_ok :: "string option \<times> string \<times> string \<Rightarrow> bool" where
  "field_ok = (\<lambda>(v, n, t). vis_ok v \<and> n \<noteq> [] \<and> list_all ident_char n
     \<and> t \<noteq> [] \<and> visible (hd t) \<and> visible (last t) \<and> closed_at 0 t \<and> list_all type_char t)"

definition field_meaning :: "string option \<times> string \<times> string \<Rightarrow> string \<times> string \<times> bool" where
  "field_meaning = (\<lambda>(v, n, t). case resolve_dyn_trait_name t of
       Some tr \<Rightarrow> (n, tr, True) | None \<Rightarrow> (n, normalize_base_type t, False))"

lemma ident_char_visible: "ident_char c \<Longrightarrow> visible c"
  by (auto simp: ident_char_def visible_def Let_def)

lemma ident_char_literals [simp]:
  "\<not> ident_char CHR '' ''" "\<not> ident_char CHR '':''" "\<not> ident_char CHR '',''" "\<not> ident_char CHR ''-''"
  "\<not> ident_char CHR ''(''" "\<not> ident_char CHR '')''" "\<not> ident_char CHR ''<''" "\<not> ident_char CHR ''>''"
  "\<not> ident_char CHR ''[''" "\<not> ident_char CHR '']''" "\<not> ident_char CHR ''{''" "\<not> ident_char CHR ''}''"
  "\<not> ident_char CHR ''/''" "\<not> ident_char CHR ''#''" "\<not> ident_char CHR 0x0A"
  "ident_char CHR ''p''" "ident_char CHR ''u''" "ident_char CHR ''b''"
  by (simp_all add: ident_char_def)

lemma ident_free: "list_all ident_char p \<Longrightarrow> \<not> ident_char c \<Longrightarrow> c \<notin> set p"
  by (auto simp: list_all_iff)

lemma split_top_closed: "closed_at d t \<Longrightarrow> split_top d (t @ CHR '','' # rest) = t # split_top 0 rest"
proof (induction d t rule: closed_at.induct)
  case (2 d c cs)
  show ?case
  proof (cases "c = CHR ''-'' \<and> starts_with ''>'' cs")
    case True
    then obtain cs' where cs: "cs = CHR ''>'' # cs'" by (cases cs) (auto simp: starts_with_def)
    with 2 True show ?thesis by (simp add: starts_with_def cons_piece_def)
  next
    case False
    then have "\<not> (c = CHR ''-'' \<and> starts_with ''>'' (cs @ CHR '','' # rest))" by (cases cs) (auto simp: starts_with_def)
    with 2 False show ?thesis by (auto simp: cons_piece_def split: if_splits)
  qed
qed simp

lemma closed_at_plain: "list_all (\<lambda>c. c \<notin> set ''-,(<[{)>]}'') s \<Longrightarrow> closed_at d (s @ t) = closed_at d t"
  by (induction s) auto

lemma closed_at_open: "closed_at 0 (CHR ''('' # s) = closed_at 1 s" "closed_at 1 (CHR '')'' # s) = closed_at 0 s"
  by simp_all

definition brace_free :: "string \<Rightarrow> bool" where
  "brace_free s \<longleftrightarrow> CHR ''{'' \<notin> set s \<and> CHR ''}'' \<notin> set s"

lemma body_until_close_plain:
  "brace_free s \<Longrightarrow> body_until_close 1 (s @ CHR ''}'' # rest) = Some s"
  by (induction s) (auto simp: brace_free_def)

lemma text_lines_field: "CHR 0x0A \<notin> set s \<Longrightarrow> s \<noteq> [] \<Longrightarrow> text_lines (CHR 0x0A # s) = [[], s]"
  by (simp add: text_lines_def Let_def strip_suffix_def ends_with_def)

lemma plain_ident: "list_all ident_char p \<Longrightarrow> list_all (\<lambda>c. c \<notin> set ''-,(<[{)>]}'') p"
  by (auto simp: list_all_iff)

lemma closed_vis: "vis_ok v \<Longrightarrow> closed_at 0 (print_vis v @ s) = closed_at 0 s"
proof (cases v)
  case (Some p)
  assume "vis_ok v"
  then have "closed_at 1 (p @ '') '' @ s) = closed_at 0 s" using Some by (simp add: vis_ok_def closed_at_plain [OF plain_ident])
  then show ?thesis using Some by (simp add: print_vis_def)
qed (simp add: print_vis_def)

lemma closed_field: "field_ok f \<Longrightarrow> closed_at 0 (print_field f)"
  by (cases f) (simp add: field_ok_def print_field_def closed_vis closed_at_plain [OF plain_ident])

lemma split_fields:
  "list_all field_ok fs \<Longrightarrow>
     split_top 0 (concat (map (\<lambda>f. print_field f @ '','') fs) @ [CHR 0x0A]) = map print_field fs @ [[CHR 0x0A]]"
  by (induction fs) (simp_all add: cons_piece_def starts_with_def split_top_closed closed_field)

lemma strip_visibility_print:
  assumes "vis_ok v" and "n \<noteq> []" and "list_all ident_char n"
  shows "strip_visibility (print_vis v @ n @ '': '' @ t) = Some (n @ '': '' @ t)"
proof -
  obtain c cs where n: "n = c # cs" using assms(2) by (cases n) auto
  have c: "visible c" using assms(3) ident_char_visible by (simp add: n)
  have no: "n @ '': '' @ t \<noteq> ''pub'' @ x # r" if "\<not> ident_char x" "x \<noteq> CHR '':''" for x r
  proof
    assume "n @ '': '' @ t = ''pub'' @ x # r"
    then have "dropWhile ident_char (n @ CHR '':'' # '' '' @ t) = dropWhile ident_char (''pub'' @ x # r)" by simp
    moreover have "dropWhile ident_char (n @ CHR '':'' # '' '' @ t) = CHR '':'' # '' '' @ t"
      using assms(3) by (subst dropWhile_append2) (auto simp: list_all_iff)
    ultimately show False using that by simp
  qed
  have no: "\<not> starts_with ''pub('' (n @ '': '' @ t)" "strip_prefix ''pub '' (n @ '': '' @ t) = None"
    using no [of "CHR ''(''"] no [of "CHR '' ''"] by (auto simp: starts_with_iff strip_prefix_def)
  show ?thesis
  proof (cases v)
    case None
    with no show ?thesis by (simp add: strip_visibility_def print_vis_def)
  next
    case (Some p)
    have p: "CHR '')'' \<notin> set p" using assms(1) Some ident_free [of p "CHR '')''"] by (simp add: vis_ok_def)
    show ?thesis
    proof (cases "p = []")
      case True
      with Some c show ?thesis
        by (simp add: strip_visibility_def print_vis_def starts_with_def strip_prefix_def n trim_start_visible)
    next
      case False
      have "split_once CHR '')'' (''('' @ p @ '') '' @ n @ '': '' @ t) = Some (''('' @ p, '' '' @ n @ '': '' @ t)"
        using split_once_at [of "CHR '')''" "CHR ''('' # p"] p by simp
      with Some False c show ?thesis
        by (simp add: strip_visibility_def print_vis_def starts_with_def n trim_start_space trim_start_visible)
    qed
  qed
qed

lemma split_once_field:
  "list_all ident_char n \<Longrightarrow> split_once CHR '':'' (n @ '': '' @ t) = Some (n, '' '' @ t)"
  using split_once_at [of "CHR '':''" n] ident_free [of n "CHR '':''"] by simp

lemma trim_head_space: "trim (CHR '' '' # s) = trim s"
  by (simp add: trim_def trim_start_space)

lemma ident_trim: "n \<noteq> [] \<Longrightarrow> list_all ident_char n \<Longrightarrow> trim n = n"
  using ident_char_visible by (intro trim_visible) (simp_all add: list_all_iff)

lemma print_vis_chars: "vis_ok v \<Longrightarrow> c \<in> set (print_vis v) \<Longrightarrow> ident_char c \<or> c = CHR ''('' \<or> c = CHR '')'' \<or> c = CHR '' ''"
  by (cases v) (auto simp: print_vis_def vis_ok_def list_all_iff split: if_splits)

lemma field_line_head:
  assumes "vis_ok v" and "n \<noteq> []" and "list_all ident_char n"
  shows "ident_char (hd (print_vis v @ n @ s))"
  using assms by (cases v; cases n) (simp_all add: print_vis_def)

lemma skipped_line_ident: "ident_char (hd s) \<Longrightarrow> s \<noteq> [] \<Longrightarrow> trim s = s \<Longrightarrow> \<not> skipped_line s"
  by (cases s) (auto simp: skipped_line_def Let_def starts_with_def)

lemma parse_one_field_print:
  assumes "field_ok f"
  shows "parse_one_field (print_field f) = Some (field_meaning f)"
proof -
  obtain v n t where f: "f = (v, n, t)" by (cases f)
  let ?line = "print_vis v @ n @ '': '' @ t"
  have ok: "vis_ok v" "n \<noteq> []" "list_all ident_char n" "t \<noteq> []" "visible (hd t)" "visible (last t)" "list_all type_char t"
    using assms by (simp_all add: field_ok_def f)
  have "CHR 0x0A \<notin> set ?line"
  proof -
    have "CHR 0x0A \<notin> set (print_vis v)" using print_vis_chars [OF ok(1), of "CHR 0x0A"] by auto
    moreover have "CHR 0x0A \<notin> set n" using ok(3) by (rule ident_free) simp
    moreover have "CHR 0x0A \<notin> set t" using ok(7) by (auto simp: list_all_iff type_char_def)
    ultimately show ?thesis by simp
  qed
  then have lines: "text_lines (print_field f) = [[], ''    '' @ ?line]"
    using text_lines_field [of "''    '' @ ?line"] by (simp add: print_field_def f)
  have line: "?line \<noteq> []" "ident_char (hd ?line)" using ok(2) field_line_head [OF ok(1-3)] by simp_all
  have trim: "trim ?line = ?line"
    by (rule trim_visible) (use line ident_char_visible ok(4,6) in simp_all)
  have "\<not> skipped_line (''    '' @ ?line)"
    using skipped_line_ident [OF line(2,1) trim] by (simp add: skipped_line_def trim_head_space)
  moreover have "skipped_line []" by (simp add: skipped_line_def)
  ultimately have keep: "dropWhile skipped_line [[], ''    '' @ ?line] = [''    '' @ ?line]" by simp
  have "trim (''    '' @ ?line) = ?line" using trim by (simp add: trim_head_space)
  moreover have "trim ('' '' @ t) = t" using trim_visible [OF ok(4-6)] by (simp add: trim_head_space)
  ultimately show ?thesis
    unfolding parse_one_field_def lines keep Let_def join_with.simps
    using line(1) strip_visibility_print [OF ok(1-3)] split_once_field [OF ok(3)] ident_trim [OF ok(2,3)] ok(2,4)
    by (simp add: field_meaning_def f split: option.split)
qed

lemma parse_one_field_blank: "parse_one_field [CHR 0x0A] = None"
  by code_simp

lemma brace_free_append: "brace_free (s @ t) \<longleftrightarrow> brace_free s \<and> brace_free t"
  by (auto simp: brace_free_def)

lemma brace_free_field:
  assumes "field_ok f"
  shows "brace_free (print_field f)"
proof -
  obtain v n t where f: "f = (v, n, t)" by (cases f)
  have ok: "vis_ok v" "list_all ident_char n" "list_all type_char t" using assms by (simp_all add: field_ok_def f)
  have "brace_free n" using ident_free [OF ok(2)] by (simp add: brace_free_def)
  moreover have "brace_free t" using ok(3) by (auto simp: list_all_iff type_char_def brace_free_def)
  moreover have "brace_free (print_vis v)"
    using print_vis_chars [OF ok(1), of "CHR ''{''"] print_vis_chars [OF ok(1), of "CHR ''}''"] by (auto simp: brace_free_def)
  ultimately show ?thesis by (simp add: print_field_def f brace_free_def)
qed

text \<open>C17. Round trip of a struct declaration: parsing the printed text of a struct gives back its fields in order, each with
  the base name of its type or, for a trait object, its trait, whatever the visibilities and however deeply the types nest
  brackets, commas and arrows.\<close>

theorem parse_struct_fields_print:
  assumes "list_all field_ok fs" and "CHR ''{'' \<notin> set header"
  shows "parse_struct_fields (print_struct header fs) = map field_meaning fs"
proof -
  let ?body = "concat (map (\<lambda>f. print_field f @ '','') fs) @ [CHR 0x0A]"
  have "brace_free ?body"
    using assms(1) by (induction fs) (simp_all add: brace_free_append brace_free_field, simp_all add: brace_free_def)
  moreover have "dropWhile (\<lambda>c. c \<noteq> CHR ''{'') (header @ ''{'' @ ?body @ ''}'') = CHR ''{'' # ?body @ ''}''"
    using assms(2) by (subst dropWhile_append2) auto
  ultimately have "struct_body (print_struct header fs) = Some ?body"
    using body_until_close_plain [of ?body "[]"] by (simp add: struct_body_def print_struct_def)
  then have "parse_struct_fields (print_struct header fs) = List.map_filter parse_one_field (map print_field fs @ [[CHR 0x0A]])"
    by (simp add: parse_struct_fields_def split_fields [OF assms(1)])
  also have "\<dots> = map field_meaning fs"
    using assms(1)
    by (induction fs) (simp_all add: List.map_filter_simps parse_one_field_print parse_one_field_blank)
  finally show ?thesis .
qed

theorem parse_struct_fields_print_witness:
  "parse_struct_fields (print_struct ''struct P<K> '' [(Some ''crate'', ''m'', ''Map<K, Vec<V>>''), (None, ''h'', ''fn(&K, u8) -> (V, V)'')])
     = map field_meaning [(Some ''crate'', ''m'', ''Map<K, Vec<V>>''), (None, ''h'', ''fn(&K, u8) -> (V, V)'')]"
  by (rule parse_struct_fields_print, code_simp, simp)

end
