(* ===== verification/Inherited_Calls.thy ===== *)
theory Inherited_Calls
  imports Chunk_Index
begin

text \<open>
  Inheritance-aware call resolution (\<open>akashic-ingestion/src/ingestion/tier0.rs\<close>): for a call the cascade dropped, a
  breadth-first search from the caller's enclosing type over its supertypes, at most eight levels up.

  The search visits every chunk id at most once, so it ends on cyclic hierarchies. \<open>explored\<close> is the specification: the types
  within \<open>n\<close> steps. The call binds to a definition at the least distance, and is dropped only when no type within eight
  steps defines the method.
\<close>

section \<open>The search\<close>

record hierarchy =
  supertypes_of :: "uuid \<rightharpoonup> uuid list"
  fqn_by_id :: "uuid \<rightharpoonup> string"
  type_id_by_fqn :: "string \<rightharpoonup> uuid"
  parent_fqn_by_id :: "uuid \<rightharpoonup> string"
  method_by_type_and_name :: "(string \<times> string) \<rightharpoonup> uuid"

text \<open>\<open>for &st in supers { if visited.insert(st) { queue.push_back((st, depth)) } }\<close>\<close>

fun enqueue :: "uuid list \<Rightarrow> nat \<Rightarrow> uuid set \<Rightarrow> (uuid \<times> nat) list \<Rightarrow> uuid set \<times> (uuid \<times> nat) list" where
  "enqueue [] depth visited queue = (visited, queue)"
| "enqueue (st # sts) depth visited queue =
     (if st \<in> visited then enqueue sts depth visited queue
      else enqueue sts depth (insert st visited) (queue @ [(st, depth)]))"

lemma enqueue_visited: "fst (enqueue sts d v q) = v \<union> set sts"
  by (induction sts arbitrary: v q) auto

lemma enqueue_queue: "\<exists>new. snd (enqueue sts d v q) = q @ map (\<lambda>s. (s, d)) new \<and> set new = set sts - v \<and> distinct new"
proof (induction sts arbitrary: v q)
  case (Cons s sts)
  show ?case
  proof (cases "s \<in> v")
    case True
    with Cons [of v q] show ?thesis by (auto simp: insert_Diff_if)
  next
    case False
    from Cons [of "insert s v" "q @ [(s, d)]"] obtain new where
      "snd (enqueue sts d (insert s v) (q @ [(s, d)])) = (q @ [(s, d)]) @ map (\<lambda>s. (s, d)) new" "set new = set sts - insert s v" "distinct new"
      by blast
    with False show ?thesis by (intro exI [of _ "s # new"]) auto
  qed
qed auto

definition supertypes :: "hierarchy \<Rightarrow> uuid \<Rightarrow> uuid list" where
  "supertypes h s = (case supertypes_of h s of None \<Rightarrow> [] | Some sts \<Rightarrow> sts)"

function nearest_definition :: "hierarchy \<Rightarrow> string \<Rightarrow> uuid set \<Rightarrow> (uuid \<times> nat) list \<Rightarrow> uuid option" where
  "nearest_definition h nm visited [] = None"
| "nearest_definition h nm visited ((s, depth) # queue) =
     (case fqn_by_id h s of
        None \<Rightarrow> nearest_definition h nm visited queue
      | Some f \<Rightarrow>
          (case method_by_type_and_name h (f, nm) of
             Some m \<Rightarrow> Some m
           | None \<Rightarrow>
               if depth < 8
               then nearest_definition h nm (fst (enqueue (supertypes h s) (depth + 1) visited queue))
                      (snd (enqueue (supertypes h s) (depth + 1) visited queue))
               else nearest_definition h nm visited queue))"
  by pat_completeness auto
termination
proof (relation "measures [\<lambda>(h, nm, visited, queue). card (- visited), \<lambda>(h, nm, visited, queue). length queue]")
  fix h nm visited s depth and queue :: "(uuid \<times> nat) list" and f
  let ?e = "enqueue (supertypes h s) (depth + 1) visited queue"
  obtain new where new: "snd ?e = queue @ map (\<lambda>s. (s, depth + 1)) new" "set new = set (supertypes h s) - visited"
    using enqueue_queue by blast
  have card: "card (- fst ?e) < card (- visited) \<or> card (- fst ?e) = card (- visited) \<and> new = []"
  proof (cases "new = []")
    case True
    then have "fst ?e = visited" using new(2) by (auto simp: enqueue_visited)
    with True show ?thesis by simp
  next
    case False
    then obtain x where "x \<in> set (supertypes h s)" "x \<notin> visited" using new(2) by (cases new) auto
    then have "- fst ?e \<subset> - visited" by (auto simp: enqueue_visited)
    then show ?thesis by (simp add: psubset_card_mono)
  qed
  with new(1) show "((h, nm, fst ?e, snd ?e), h, nm, visited, (s, depth) # queue)
    \<in> measures [\<lambda>(h, nm, visited, queue). card (- visited), \<lambda>(h, nm, visited, queue). length queue]" by auto
qed auto

definition inherited_target :: "hierarchy \<Rightarrow> string \<Rightarrow> uuid \<Rightarrow> uuid option" where
  "inherited_target h nm caller =
     Option.bind (parent_fqn_by_id h caller) (\<lambda>caller_type_fqn.
     Option.bind (type_id_by_fqn h caller_type_fqn) (\<lambda>caller_type_id.
       nearest_definition h nm (fst (enqueue (supertypes h caller_type_id) 1 {caller_type_id} []))
         (snd (enqueue (supertypes h caller_type_id) 1 {caller_type_id} []))))"

definition inherited_edge :: "uuid \<Rightarrow> uuid \<Rightarrow> resolved_edge" where
  "inherited_edge caller m =
     \<lparr>rv_src = caller, rv_tgt = m, rv_kind = Call, rv_confidence = 90, rv_method = ''inherited'', rv_line = None,
      rv_ref_kind = None\<rparr>"

fun inherited_loop :: "hierarchy \<Rightarrow> (string \<times> uuid) list \<Rightarrow> (uuid \<times> uuid) set \<Rightarrow> resolved_edge list" where
  "inherited_loop h [] seen = []"
| "inherited_loop h ((nm, caller) # dropped) seen =
     (case inherited_target h nm caller of
        None \<Rightarrow> inherited_loop h dropped seen
      | Some m \<Rightarrow>
          if (caller, m) \<in> seen then inherited_loop h dropped seen
          else inherited_edge caller m # inherited_loop h dropped (insert (caller, m) seen))"

definition inherited_call_targets :: "(string \<times> uuid) list \<Rightarrow> hierarchy \<Rightarrow> resolved_edge list" where
  "inherited_call_targets dropped h = inherited_loop h dropped {}"

definition edge_key :: "resolved_edge \<Rightarrow> uuid \<times> uuid \<times> edge_kind" where
  "edge_key e = (rv_src e, rv_tgt e, rv_kind e)"

definition filter_new_inherited_edges :: "resolved_edge list \<Rightarrow> resolved_edge list \<Rightarrow> resolved_edge list" where
  "filter_new_inherited_edges existing inherited = filter (\<lambda>e. edge_key e \<notin> edge_key ` set existing) inherited"

section \<open>Distance\<close>

definition expands :: "hierarchy \<Rightarrow> uuid \<Rightarrow> uuid \<Rightarrow> bool" where
  "expands h start s \<longleftrightarrow> s = start \<or> fqn_by_id h s \<noteq> None"

fun explored :: "hierarchy \<Rightarrow> uuid \<Rightarrow> nat \<Rightarrow> uuid set" where
  "explored h start 0 = {start}"
| "explored h start (Suc n) =
     explored h start n \<union> (\<Union>s \<in> {s \<in> explored h start n. expands h start s}. set (supertypes h s))"

definition provides :: "hierarchy \<Rightarrow> string \<Rightarrow> uuid \<Rightarrow> uuid \<Rightarrow> bool" where
  "provides h nm s m \<longleftrightarrow> (\<exists>f. fqn_by_id h s = Some f \<and> method_by_type_and_name h (f, nm) = Some m)"

lemma explored_mono: "i \<le> j \<Longrightarrow> explored h s i \<subseteq> explored h s j"
  by (induction rule: dec_induct) auto

text \<open>The loop invariant at level \<open>k\<close>: the queue holds the rest \<open>qa\<close> of level \<open>k\<close> and what was found of level \<open>k + 1\<close>.\<close>

definition bfs_inv :: "hierarchy \<Rightarrow> string \<Rightarrow> uuid \<Rightarrow> nat \<Rightarrow> uuid list \<Rightarrow> uuid list \<Rightarrow> uuid set \<Rightarrow> bool" where
  "bfs_inv h nm start k qa qb visited \<longleftrightarrow>
     1 \<le> k \<and> k \<le> 8 \<and> visited = explored h start k \<union> set qb \<and> set qa \<subseteq> explored h start k - explored h start (k - 1)
     \<and> set qb \<subseteq> explored h start (Suc k) - explored h start k \<and> (k = 8 \<longrightarrow> qb = [])
     \<and> (k < 8 \<longrightarrow> (\<forall>s \<in> explored h start k - set qa. expands h start s \<longrightarrow> set (supertypes h s) \<subseteq> visited))
     \<and> (\<forall>s \<in> explored h start k - set qa - {start}. \<forall>m. \<not> provides h nm s m)"

definition outcome_ok :: "hierarchy \<Rightarrow> string \<Rightarrow> uuid \<Rightarrow> uuid option \<Rightarrow> bool" where
  "outcome_ok h nm start r \<longleftrightarrow>
     (case r of
        None \<Rightarrow> \<forall>s \<in> explored h start 8 - {start}. \<forall>m. \<not> provides h nm s m
      | Some m \<Rightarrow> \<exists>k s. k < 8 \<and> s \<in> explored h start (Suc k) - {start} \<and> provides h nm s m
                    \<and> (\<forall>t \<in> explored h start k - {start}. \<forall>m'. \<not> provides h nm t m'))"

lemma explored_stable:
  assumes "\<forall>s \<in> explored h start k. expands h start s \<longrightarrow> set (supertypes h s) \<subseteq> explored h start k"
  shows "explored h start (k + i) = explored h start k"
  using assms by (induction i) auto

lemma bfs_inv_next:
  assumes "bfs_inv h nm start k [] qb visited" and "qb \<noteq> []"
  shows "bfs_inv h nm start (Suc k) qb [] visited"
proof -
  have k: "k < 8" using assms by (auto simp: bfs_inv_def order_le_less)
  have "explored h start (Suc k) = explored h start k \<union> set qb"
    using assms(1) k by (auto simp: bfs_inv_def)
  with assms k show ?thesis unfolding bfs_inv_def by (auto simp del: explored.simps)
qed

lemma bfs_inv_done:
  assumes "bfs_inv h nm start k [] [] visited"
  shows "outcome_ok h nm start None"
proof -
  have "explored h start 8 = explored h start k"
  proof (cases "k = 8")
    case False
    then have "explored h start (k + (8 - k)) = explored h start k"
      using assms by (intro explored_stable) (auto simp: bfs_inv_def)
    then show ?thesis using assms by (simp add: bfs_inv_def)
  qed simp
  with assms show ?thesis by (simp add: bfs_inv_def outcome_ok_def)
qed


lemma bfs_inv_pop:
  assumes "bfs_inv h nm start k (s # qa) qb visited" and "distinct (s # qa)" and "\<forall>m. \<not> provides h nm s m"
    and "k = 8 \<or> \<not> expands h start s"
  shows "bfs_inv h nm start k qa qb visited"
proof -
  have "s \<in> explored h start k" "s \<noteq> start"
    using assms(1) explored_mono [of 0 "k - 1" h start] by (auto simp: bfs_inv_def)
  then have "explored h start k - set qa \<subseteq> insert s (explored h start k - set (s # qa))" by auto
  with assms show ?thesis by (auto simp: bfs_inv_def simp del: explored.simps)
qed

lemma bfs_inv_expand:
  assumes "bfs_inv h nm start k (s # qa) qb visited" and "\<forall>m. \<not> provides h nm s m" and "k < 8" and "expands h start s"
    and "set new = set (supertypes h s) - visited"
  shows "bfs_inv h nm start k qa (qb @ new) (visited \<union> set (supertypes h s))"
proof -
  have inv: "visited = explored h start k \<union> set qb" "s \<in> explored h start k" using assms(1) by (auto simp: bfs_inv_def)
  then have "set new \<subseteq> explored h start (Suc k) - explored h start k" using assms(4,5) by auto
  with assms inv show ?thesis by (auto simp: bfs_inv_def simp del: explored.simps)
qed

lemma nearest_definition_correct:
  assumes "bfs_inv h nm start k qa qb visited" and "queue = map (\<lambda>s. (s, k)) qa @ map (\<lambda>s. (s, Suc k)) qb"
    and "distinct (qa @ qb)"
  shows "outcome_ok h nm start (nearest_definition h nm visited queue)"
  using assms
proof (induction h nm visited queue arbitrary: k qa qb rule: nearest_definition.induct)
  case (1 h nm visited)
  then show ?case using bfs_inv_done by auto
next
  case (2 h nm visited s depth queue)
  obtain k' as bs where inv: "bfs_inv h nm start k' (s # as) bs visited" and d: "depth = k'"
    and q: "queue = map (\<lambda>s. (s, k')) as @ map (\<lambda>s. (s, Suc k')) bs" and dist: "distinct (s # as @ bs)"
  proof (cases qa)
    case Nil
    with "2.prems"(2) obtain qb' where "qb = s # qb'" "depth = Suc k" "queue = map (\<lambda>s. (s, Suc k)) qb'" by (cases qb) auto
    with "2.prems" Nil bfs_inv_next [of h nm start k qb visited] that [of "Suc k" qb' "[]"] show ?thesis by simp
  next
    case (Cons s' qa')
    with "2.prems" that [of k qa' qb] show ?thesis by auto
  qed
  have s: "s \<in> explored h start k' - explored h start (k' - 1)" "s \<noteq> start" "1 \<le> k'" "k' \<le> 8"
    using inv explored_mono [of 0 "k' - 1" h start] by (auto simp: bfs_inv_def)
  show ?case
  proof (cases "fqn_by_id h s")
    case None
    then have "\<forall>m. \<not> provides h nm s m" "\<not> expands h start s" using s(2) by (simp_all add: provides_def expands_def)
    with bfs_inv_pop [OF inv] dist have "bfs_inv h nm start k' as bs visited" by simp
    from "2.IH"(1) [OF None this q] dist show ?thesis by (simp add: None)
  next
    case f: (Some f)
    show ?thesis
    proof (cases "method_by_type_and_name h (f, nm)")
      case (Some m)
      have "provides h nm s m" using f Some by (simp add: provides_def)
      moreover have "explored h start (k' - 1) \<subseteq> explored h start k' - set (s # as)"
        using inv explored_mono [of "k' - 1" k' h start] by (auto simp: bfs_inv_def)
      then have "\<forall>t \<in> explored h start (k' - 1) - {start}. \<forall>m'. \<not> provides h nm t m'"
        using inv by (auto simp: bfs_inv_def simp del: explored.simps)
      moreover have "k' - 1 < 8" "Suc (k' - 1) = k'" using s by auto
      ultimately have "outcome_ok h nm start (Some m)"
        unfolding outcome_ok_def option.case using s(1,2) by (intro exI [of _ "k' - 1"] exI [of _ s]) auto
      then show ?thesis by (simp add: f Some)
    next
      case m: None
      then have no: "\<forall>m. \<not> provides h nm s m" using f by (simp add: provides_def)
      show ?thesis
      proof (cases "depth < 8")
        case True
        let ?e = "enqueue (supertypes h s) (depth + 1) visited queue"
        obtain new where new: "snd ?e = queue @ map (\<lambda>s. (s, depth + 1)) new" "set new = set (supertypes h s) - visited" "distinct new"
          using enqueue_queue by blast
        have "expands h start s" using f by (simp add: expands_def)
        with bfs_inv_expand [OF inv no _ _ new(2)] True d
        have inv': "bfs_inv h nm start k' as (bs @ new) (fst ?e)" by (simp add: enqueue_visited)
        have "set as \<union> set bs \<subseteq> visited" using inv by (auto simp: bfs_inv_def)
        then have "distinct (as @ bs @ new)" using dist new(2,3) by auto
        with "2.IH"(2) [OF f m True inv'] new(1) q d True show ?thesis by (simp add: f m)
      next
        case False
        with s(4) d have "k' = 8" by simp
        with bfs_inv_pop [OF inv _ no] dist have "bfs_inv h nm start k' as bs visited" by simp
        from "2.IH"(3) [OF f m False this q] dist show ?thesis by (simp add: f m False)
      qed
    qed
  qed
qed

section \<open>Inherited calls\<close>

lemma inherited_target_correct:
  assumes "parent_fqn_by_id h caller = Some f" and "type_id_by_fqn h f = Some start"
  shows "outcome_ok h nm start (inherited_target h nm caller)"
proof -
  let ?e = "enqueue (supertypes h start) 1 {start} []"
  obtain new where new: "snd ?e = map (\<lambda>s. (s, 1)) new" "set new = set (supertypes h start) - {start}" "distinct new"
    using enqueue_queue [of "supertypes h start" 1 "{start}" "[]"] by auto
  have "explored h start (Suc 0) = {start} \<union> set new" using new(2) by (auto simp: expands_def)
  then have "bfs_inv h nm start (Suc 0) new [] (fst ?e)"
    using new(2) by (auto simp: bfs_inv_def enqueue_visited simp del: explored.simps) (auto simp: expands_def)
  then have "outcome_ok h nm start (nearest_definition h nm (fst ?e) (snd ?e))"
    by (rule nearest_definition_correct) (use new in simp_all)
  then show ?thesis using assms by (simp add: inherited_target_def)
qed

lemma inherited_loop_edges:
  "set (inherited_loop h dropped seen) =
     (\<lambda>(c, m). inherited_edge c m) ` ({(c, m). \<exists>nm. (nm, c) \<in> set dropped \<and> inherited_target h nm c = Some m} - seen)"
proof (induction dropped arbitrary: seen)
  case (Cons d dropped)
  obtain nm c where d: "d = (nm, c)" by (cases d)
  show ?case
  proof (cases "inherited_target h nm c")
    case None
    then have "{(c', m). \<exists>nm'. (nm', c') \<in> set (d # dropped) \<and> inherited_target h nm' c' = Some m}
      = {(c', m). \<exists>nm'. (nm', c') \<in> set dropped \<and> inherited_target h nm' c' = Some m}" by (auto simp: d)
    with None Cons show ?thesis by (simp add: d)
  next
    case (Some m)
    then have "{(c', m). \<exists>nm'. (nm', c') \<in> set (d # dropped) \<and> inherited_target h nm' c' = Some m}
      = insert (c, m) {(c', m). \<exists>nm'. (nm', c') \<in> set dropped \<and> inherited_target h nm' c' = Some m}" by (auto simp: d)
    with Some Cons show ?thesis by (auto simp: d)
  qed
qed simp

lemma inherited_loop_unseen: "e \<in> set (inherited_loop h dropped seen) \<Longrightarrow> (rv_src e, rv_tgt e) \<notin> seen"
  by (auto simp: inherited_loop_edges inherited_edge_def)

lemma inherited_loop_distinct: "distinct (map (\<lambda>e. (rv_src e, rv_tgt e)) (inherited_loop h dropped seen))"
proof (induction dropped arbitrary: seen)
  case (Cons d dropped)
  obtain nm c where d: "d = (nm, c)" by (cases d)
  show ?case
  proof (cases "inherited_target h nm c")
    case (Some m)
    have "(c, m) \<notin> (\<lambda>e. (rv_src e, rv_tgt e)) ` set (inherited_loop h dropped (insert (c, m) seen))"
      using inherited_loop_unseen by fastforce
    with Some Cons show ?thesis by (simp add: d inherited_edge_def)
  qed (use Cons in \<open>simp add: d\<close>)
qed simp

lemma inherited_edges:
  "set (inherited_call_targets dropped h) =
     {inherited_edge c m |c m nm. (nm, c) \<in> set dropped \<and> inherited_target h nm c = Some m}"
  by (auto simp: inherited_call_targets_def inherited_loop_edges)

text \<open>C18. Nearest definition wins: a dropped call in a method of a known type gets an edge to the method of a supertype at
  distance at most eight such that no nearer supertype defines the method, and stays without an edge only when no supertype
  within eight steps defines it. The search ends on every hierarchy, cyclic ones included, and no caller gets two edges to
  the same method.\<close>

theorem inherited_calls_nearest:
  assumes "parent_fqn_by_id h caller = Some f" and "type_id_by_fqn h f = Some start" and "(nm, caller) \<in> set dropped"
  shows "(case inherited_target h nm caller of
            None \<Rightarrow> \<forall>s \<in> explored h start 8 - {start}. \<forall>m. \<not> provides h nm s m
          | Some m \<Rightarrow> inherited_edge caller m \<in> set (inherited_call_targets dropped h)
              \<and> (\<exists>k s. k < 8 \<and> s \<in> explored h start (Suc k) - {start} \<and> provides h nm s m
                    \<and> (\<forall>t \<in> explored h start k - {start}. \<forall>m'. \<not> provides h nm t m')))
    \<and> distinct (map (\<lambda>e. (rv_src e, rv_tgt e)) (inherited_call_targets dropped h))"
  using inherited_target_correct [OF assms(1,2), of nm] assms(3) inherited_loop_distinct [of h dropped "{}"]
  by (auto simp: outcome_ok_def inherited_edges inherited_call_targets_def [symmetric] split: option.splits)

definition demo_hierarchy :: hierarchy where
  "demo_hierarchy =
     \<lparr>supertypes_of = [1 \<mapsto> [3], 3 \<mapsto> [5, 1], 5 \<mapsto> [1]],
      fqn_by_id = [1 \<mapsto> ''Sub'', 3 \<mapsto> ''Mid'', 5 \<mapsto> ''Base''],
      type_id_by_fqn = [''Sub'' \<mapsto> 1, ''Mid'' \<mapsto> 3, ''Base'' \<mapsto> 5],
      parent_fqn_by_id = [2 \<mapsto> ''Sub''],
      method_by_type_and_name = [(''Base'', ''greet'') \<mapsto> 4]\<rparr>"

theorem inherited_calls_nearest_witness:
  "inherited_target demo_hierarchy ''greet'' 2 = Some 4 \<and> inherited_edge 2 4 \<in> set (inherited_call_targets [(''greet'', 2)] demo_hierarchy)"
proof -
  have t: "inherited_target demo_hierarchy ''greet'' 2 = Some 4" by code_simp
  moreover have "parent_fqn_by_id demo_hierarchy 2 = Some ''Sub''" "type_id_by_fqn demo_hierarchy ''Sub'' = Some 1"
    by (simp_all add: demo_hierarchy_def)
  ultimately show ?thesis using inherited_calls_nearest [of demo_hierarchy 2 "''Sub''" 1 "''greet''" "[(''greet'', 2)]"] by simp
qed

end
