(* ===== verification/Go_Structural.thy ===== *)
theory Go_Structural
  imports Rust_Text "HOL-Library.Product_Lexorder"
begin

text \<open>
  Structural interface satisfaction of Go types (\<open>akashic-domain/src/algos/go_structural.rs\<close>): which types of a package
  implement which interfaces of it, by containment of the method names.

  \<open>char::is_alphanumeric\<close> beyond ASCII is a table of the Unicode version the program is built with; it is the argument
  \<open>alnum\<close>, on one character as its UTF-8 bytes. The order in which a \<open>HashMap\<close> is walked is an argument too, an
  arbitrary rearrangement of the entries.
\<close>

section \<open>Reading Go declarations\<close>

definition go_type_head :: "string \<Rightarrow> string option" where
  "go_type_head content =
     List.find (\<lambda>l. case split_whitespace l of [] \<Rightarrow> False | w # _ \<Rightarrow> w = ''type'') (map trim_start (text_lines content))"

definition go_kind_word :: "string \<Rightarrow> string" where
  "go_kind_word kind =
     (let k1 = rev (dropWhile (\<lambda>c. c = CHR ''{'' \<or> c = CHR ''}'') (rev kind));
          k2 = (case split_char CHR ''{'' k1 of [] \<Rightarrow> k1 | p # _ \<Rightarrow> p)
      in case split_whitespace k2 of [] \<Rightarrow> k2 | w # _ \<Rightarrow> w)"

definition go_type_is_interface :: "string \<Rightarrow> bool" where
  "go_type_is_interface content =
     (case go_type_head content of
        None \<Rightarrow> False
      | Some head \<Rightarrow>
          (case split_whitespace head of
             first # _ # kind # _ \<Rightarrow> first = ''type'' \<and> go_kind_word kind = ''interface''
           | _ \<Rightarrow> False))"

text \<open>The text up to the brace that closes depth 1, or \<open>None\<close> when no brace does.\<close>

fun body_to_close :: "nat \<Rightarrow> string \<Rightarrow> string option" where
  "body_to_close depth [] = None"
| "body_to_close depth (c # cs) =
     (if c = CHR ''{'' then map_option ((#) c) (body_to_close (depth + 1) cs)
      else if c = CHR ''}'' then
        (if depth - 1 = 0 then Some [] else map_option ((#) c) (body_to_close (depth - 1) cs))
      else map_option ((#) c) (body_to_close depth cs))"

definition go_method_of_line :: "(string \<Rightarrow> bool) \<Rightarrow> string \<Rightarrow> string option" where
  "go_method_of_line alnum line =
     (let trimmed = trim line in
      if trimmed = [] \<or> starts_with ''//'' trimmed then None
      else case split_once CHR ''('' trimmed of
             None \<Rightarrow> None
           | Some (before, _) \<Rightarrow>
               (let nm = trim before in
                if nm \<noteq> [] \<and> (\<forall>c \<in> set (utf8_chars nm). alnum c \<or> c = ''_'') then Some nm else None))"

definition go_interface_body :: "string \<Rightarrow> string option" where
  "go_interface_body content =
     (case (case from_first ''interface {'' content of
              Some s \<Rightarrow> Some s
            | None \<Rightarrow> from_first ''interface{'' content) of
        None \<Rightarrow> None
      | Some s \<Rightarrow>
          (case split_once CHR ''{'' s of
             None \<Rightarrow> None
           | Some (_, body) \<Rightarrow> body_to_close 1 body))"

definition go_interface_methods :: "(string \<Rightarrow> bool) \<Rightarrow> string \<Rightarrow> string list" where
  "go_interface_methods alnum content =
     (if \<not> go_type_is_interface content then []
      else case go_interface_body content of
             None \<Rightarrow> []
           | Some body \<Rightarrow> List.map_filter (go_method_of_line alnum) (text_lines body))"

definition go_method_receiver :: "string \<Rightarrow> string option" where
  "go_method_receiver content =
     (case from_first ''func'' content of
        None \<Rightarrow> None
      | Some s \<Rightarrow>
          (case strip_prefix ''('' (trim_start (drop 4 s)) of
             None \<Rightarrow> None
           | Some after_func \<Rightarrow>
               (case split_once CHR '')'' after_func of
                  None \<Rightarrow> None
                | Some (receiver_list, _) \<Rightarrow>
                    (let type_part = (case split_whitespace receiver_list of _ # t # _ \<Rightarrow> t | _ \<Rightarrow> trim receiver_list);
                         bare = trim (trim_start_matches CHR ''*'' type_part)
                     in if bare = [] then None else Some bare))))"

section \<open>Matching within a package\<close>

type_synonym go_row = "uuid \<times> string \<times> string \<times> string \<times> string"

record package_scope =
  interfaces :: "(uuid \<times> string list) list"
  type_id_by_name :: "string \<rightharpoonup> uuid"
  methods_by_receiver :: "(string \<times> string set) list"

definition empty_scope :: package_scope where
  "empty_scope = \<lparr>interfaces = [], type_id_by_name = Map.empty, methods_by_receiver = []\<rparr>"

definition add_go_row :: "(string \<Rightarrow> bool) \<Rightarrow> uuid \<Rightarrow> string \<Rightarrow> string \<Rightarrow> string \<Rightarrow> package_scope \<Rightarrow> package_scope" where
  "add_go_row alnum i nm chunk_type content scope =
     (if chunk_type = ''type'' then
        (let scope = scope\<lparr>type_id_by_name := (type_id_by_name scope)(nm \<mapsto> i)\<rparr>;
             required = go_interface_methods alnum content
         in if required = [] then scope else scope\<lparr>interfaces := interfaces scope @ [(i, required)]\<rparr>)
      else if chunk_type = ''method'' then
        (case go_method_receiver content of
           None \<Rightarrow> scope
         | Some recv \<Rightarrow> scope\<lparr>methods_by_receiver := entry recv {} (insert nm) (methods_by_receiver scope)\<rparr>)
      else scope)"

fun go_packages :: "(string \<Rightarrow> bool) \<Rightarrow> (string \<times> package_scope) list \<Rightarrow> go_row list \<Rightarrow> (string \<times> package_scope) list" where
  "go_packages alnum by_package [] = by_package"
| "go_packages alnum by_package ((i, nm, chunk_type, content, module_path) # rows) =
     go_packages alnum (entry module_path empty_scope (add_go_row alnum i nm chunk_type content) by_package) rows"

definition match_within_package ::
  "((string \<times> string set) list \<Rightarrow> (string \<times> string set) list) \<Rightarrow> package_scope \<Rightarrow> (uuid \<times> uuid) list" where
  "match_within_package walk scope =
     concat (map (\<lambda>(iface_id, required).
       List.map_filter (\<lambda>(recv_type, method_set).
         if \<forall>m \<in> set required. m \<in> method_set then
           (case type_id_by_name scope recv_type of
              None \<Rightarrow> None
            | Some struct_id \<Rightarrow> if struct_id \<noteq> iface_id then Some (struct_id, iface_id) else None)
         else None) (walk (methods_by_receiver scope))) (interfaces scope))"

definition go_structural_implements ::
  "(string \<Rightarrow> bool) \<Rightarrow> ((string \<times> package_scope) list \<Rightarrow> (string \<times> package_scope) list) \<Rightarrow>
     ((string \<times> string set) list \<Rightarrow> (string \<times> string set) list) \<Rightarrow> go_row list \<Rightarrow> (uuid \<times> uuid) list" where
  "go_structural_implements alnum walk_packages walk_receivers rows =
     remdups_adj (sort (concat (map (\<lambda>(_, scope). match_within_package walk_receivers scope)
       (walk_packages (go_packages alnum [] rows)))))"

section \<open>The rows decide the pairs\<close>

text \<open>The type a name stands for in a package is the last row that declares it.\<close>

definition declared_type :: "go_row list \<Rightarrow> string \<Rightarrow> string \<Rightarrow> uuid option" where
  "declared_type rows pkg nm =
     map_option fst (List.find (\<lambda>(_, n, t, _, p). p = pkg \<and> n = nm \<and> t = ''type'') (rev rows))"

definition has_method :: "go_row list \<Rightarrow> string \<Rightarrow> string \<Rightarrow> string \<Rightarrow> bool" where
  "has_method rows pkg recv m \<longleftrightarrow>
     (\<exists>i c. (i, m, ''method'', c, pkg) \<in> set rows \<and> go_method_receiver c = Some recv)"

definition declares_interface :: "(string \<Rightarrow> bool) \<Rightarrow> go_row list \<Rightarrow> string \<Rightarrow> uuid \<Rightarrow> string list \<Rightarrow> bool" where
  "declares_interface alnum rows pkg i required \<longleftrightarrow>
     required \<noteq> [] \<and> (\<exists>n c. (i, n, ''type'', c, pkg) \<in> set rows \<and> required = go_interface_methods alnum c)"

definition implements_structurally :: "(string \<Rightarrow> bool) \<Rightarrow> go_row list \<Rightarrow> uuid \<Rightarrow> uuid \<Rightarrow> bool" where
  "implements_structurally alnum rows s i \<longleftrightarrow>
     s \<noteq> i \<and> (\<exists>pkg required recv. declares_interface alnum rows pkg i required \<and>
        declared_type rows pkg recv = Some s \<and> (\<forall>m \<in> set required. has_method rows pkg recv m))"

text \<open>What the table of packages holds after the rows.\<close>

definition scope_of :: "(string \<times> package_scope) list \<Rightarrow> string \<Rightarrow> package_scope" where
  "scope_of by_package pkg = (case map_of by_package pkg of None \<Rightarrow> empty_scope | Some s \<Rightarrow> s)"

definition methods_of :: "package_scope \<Rightarrow> string \<Rightarrow> string set" where
  "methods_of scope recv = (case map_of (methods_by_receiver scope) recv of None \<Rightarrow> {} | Some ms \<Rightarrow> ms)"

definition scope_reflects :: "(string \<Rightarrow> bool) \<Rightarrow> go_row list \<Rightarrow> string \<Rightarrow> package_scope \<Rightarrow> bool" where
  "scope_reflects alnum rows pkg scope \<longleftrightarrow>
     (\<forall>i req. (i, req) \<in> set (interfaces scope) \<longleftrightarrow> declares_interface alnum rows pkg i req) \<and>
     type_id_by_name scope = declared_type rows pkg \<and>
     distinct (map fst (methods_by_receiver scope)) \<and>
     (\<forall>recv m. m \<in> methods_of scope recv \<longleftrightarrow> has_method rows pkg recv m)"

lemma row_specs_Nil [simp]:
  "declared_type [] pkg nm = None" "\<not> has_method [] pkg recv m" "\<not> declares_interface alnum [] pkg i req"
  by (simp_all add: declared_type_def has_method_def declares_interface_def)

lemma declared_type_snoc [simp]:
  "declared_type (rows @ [(i, n, t, c, p)]) pkg nm =
     (if p = pkg \<and> n = nm \<and> t = ''type'' then Some i else declared_type rows pkg nm)"
  by (simp add: declared_type_def)

lemma has_method_snoc [simp]:
  "has_method (rows @ [(i, n, t, c, p)]) pkg recv m \<longleftrightarrow>
     has_method rows pkg recv m \<or> p = pkg \<and> n = m \<and> t = ''method'' \<and> go_method_receiver c = Some recv"
  by (auto simp: has_method_def)

lemma declares_interface_snoc [simp]:
  "declares_interface alnum (rows @ [(i, n, t, c, p)]) pkg j req \<longleftrightarrow>
     declares_interface alnum rows pkg j req \<or>
     req \<noteq> [] \<and> i = j \<and> p = pkg \<and> t = ''type'' \<and> req = go_interface_methods alnum c"
  by (auto simp: declares_interface_def)

lemma scope_reflects_empty: "scope_reflects alnum [] pkg empty_scope"
  by (simp add: scope_reflects_def empty_scope_def methods_of_def fun_eq_iff)

lemma scope_reflects_other:
  "p \<noteq> pkg \<Longrightarrow> scope_reflects alnum rows pkg scope \<Longrightarrow> scope_reflects alnum (rows @ [(i, n, t, c, p)]) pkg scope"
  by (simp add: scope_reflects_def fun_eq_iff)

lemma scope_reflects_add:
  assumes "scope_reflects alnum rows pkg scope"
  shows "scope_reflects alnum (rows @ [(i, n, t, c, pkg)]) pkg (add_go_row alnum i n t c scope)"
proof -
  consider (decl) "t = ''type''" | (meth) "t = ''method''" | (other) "t \<noteq> ''type''" "t \<noteq> ''method''" by blast
  then show ?thesis
  proof cases
    case decl
    with assms show ?thesis by (auto simp: scope_reflects_def add_go_row_def methods_of_def Let_def fun_eq_iff)
  next
    case meth
    show ?thesis
    proof (cases "go_method_receiver c")
      case None
      with assms meth show ?thesis by (simp add: scope_reflects_def add_go_row_def methods_of_def fun_eq_iff)
    next
      case (Some r)
      have "m \<in> methods_of (add_go_row alnum i n t c scope) recv \<longleftrightarrow> m \<in> methods_of scope recv \<or> n = m \<and> r = recv" for recv m
        using Some meth by (auto simp: methods_of_def add_go_row_def map_of_entry split: option.split)
      with Some assms meth show ?thesis
        by (simp add: scope_reflects_def) (simp add: add_go_row_def fun_eq_iff distinct_entry)
    qed
  next
    case other
    with assms show ?thesis by (simp add: scope_reflects_def add_go_row_def methods_of_def fun_eq_iff)
  qed
qed

lemma scope_of_entry:
  "scope_of (entry p empty_scope f xs) pkg = (if pkg = p then f (scope_of xs pkg) else scope_of xs pkg)"
  by (simp add: scope_of_def map_of_entry)

lemma go_packages_reflect:
  assumes "\<And>pkg. scope_reflects alnum seen pkg (scope_of by_package pkg)"
  shows "scope_reflects alnum (seen @ rows) pkg (scope_of (go_packages alnum by_package rows) pkg)"
  using assms
proof (induction rows arbitrary: seen by_package)
  case (Cons row rows)
  obtain i n t c p where row: "row = (i, n, t, c, p)" by (cases row)
  have "scope_reflects alnum (seen @ [row]) q (scope_of (entry p empty_scope (add_go_row alnum i n t c) by_package) q)" for q
    unfolding row scope_of_entry using Cons.prems [of q] by (cases "q = p") (simp_all add: scope_reflects_add scope_reflects_other)
  from Cons.IH [OF this] show ?case by (simp add: row)
qed simp

lemma go_packages_distinct: "distinct (map fst by_package) \<Longrightarrow> distinct (map fst (go_packages alnum by_package rows))"
  by (induction alnum by_package rows rule: go_packages.induct) (simp_all add: distinct_entry)

section \<open>The result\<close>

lemma set_match_within:
  "(s, i) \<in> set (match_within_package walk scope) \<longleftrightarrow>
      (\<exists>required recv ms. (i, required) \<in> set (interfaces scope) \<and> (recv, ms) \<in> set (walk (methods_by_receiver scope)) \<and>
         (\<forall>m \<in> set required. m \<in> ms) \<and> type_id_by_name scope recv = Some s \<and> s \<noteq> i)"
proof -
  have one: "(if \<forall>m \<in> set req. m \<in> ms then
        (case type_id_by_name scope recv of None \<Rightarrow> None
         | Some struct_id \<Rightarrow> if struct_id \<noteq> j then Some (struct_id, j) else None)
      else None) = Some (s, i) \<longleftrightarrow>
      j = i \<and> (\<forall>m \<in> set req. m \<in> ms) \<and> type_id_by_name scope recv = Some s \<and> s \<noteq> i" for req ms recv j
    by (auto split: option.split)
  show ?thesis
    by (simp add: match_within_package_def set_map_filter Bex_def split_paired_Ex one) blast
qed

lemma set_match_within_package:
  assumes refl: "scope_reflects alnum rows pkg scope" and walk: "\<And>xs. mset (walk xs) = mset xs"
  shows "(s, i) \<in> set (match_within_package walk scope) \<longleftrightarrow>
     s \<noteq> i \<and> (\<exists>required recv. declares_interface alnum rows pkg i required \<and>
        declared_type rows pkg recv = Some s \<and> (\<forall>m \<in> set required. has_method rows pkg recv m))"
proof -
  have entries: "(recv, ms) \<in> set (walk (methods_by_receiver scope)) \<longleftrightarrow> map_of (methods_by_receiver scope) recv = Some ms" for recv ms
    using refl walk [of "methods_by_receiver scope"] by (metis mset_eq_setD scope_reflects_def map_of_eq_Some_iff)
  have matched: "(s, i) \<in> set (match_within_package walk scope) \<longleftrightarrow>
      (\<exists>required recv ms. (i, required) \<in> set (interfaces scope) \<and> (recv, ms) \<in> set (walk (methods_by_receiver scope)) \<and>
         (\<forall>m \<in> set required. m \<in> ms) \<and> type_id_by_name scope recv = Some s \<and> s \<noteq> i)"
    by (rule set_match_within)
  have nonempty: "required \<noteq> []" if "(i, required) \<in> set (interfaces scope)" for required
    using that refl by (simp add: scope_reflects_def declares_interface_def)
  have all_found: "(\<exists>ms. map_of (methods_by_receiver scope) recv = Some ms \<and> (\<forall>m \<in> set required. m \<in> ms)) \<longleftrightarrow>
      (\<forall>m \<in> set required. m \<in> methods_of scope recv)" if "required \<noteq> []" for required recv
    using that hd_in_set [OF that] by (auto simp: methods_of_def split: option.splits)
  have "(s, i) \<in> set (match_within_package walk scope) \<longleftrightarrow>
      (\<exists>required recv. (i, required) \<in> set (interfaces scope) \<and>
         (\<exists>ms. map_of (methods_by_receiver scope) recv = Some ms \<and> (\<forall>m \<in> set required. m \<in> ms)) \<and>
         type_id_by_name scope recv = Some s \<and> s \<noteq> i)"
    unfolding matched entries by blast
  also have "\<dots> \<longleftrightarrow> (\<exists>required recv. (i, required) \<in> set (interfaces scope) \<and>
         (\<forall>m \<in> set required. m \<in> methods_of scope recv) \<and> type_id_by_name scope recv = Some s \<and> s \<noteq> i)"
    using nonempty all_found by blast
  also have "\<dots> \<longleftrightarrow> s \<noteq> i \<and> (\<exists>required recv. declares_interface alnum rows pkg i required \<and>
        declared_type rows pkg recv = Some s \<and> (\<forall>m \<in> set required. has_method rows pkg recv m))"
    using refl by (auto simp: scope_reflects_def)
  finally show ?thesis .
qed

lemma match_within_empty: "walk [] = [] \<Longrightarrow> match_within_package walk empty_scope = []"
  by (simp add: match_within_package_def empty_scope_def)

lemma set_go_structural:
  assumes packages: "\<And>xs. mset (walk_packages xs) = mset xs" and receivers: "\<And>xs. mset (walk xs) = mset xs"
  shows "(s, i) \<in> set (go_structural_implements alnum walk_packages walk rows) \<longleftrightarrow> implements_structurally alnum rows s i"
proof -
  let ?by = "go_packages alnum [] rows"
  have refl: "scope_reflects alnum rows pkg (scope_of ?by pkg)" for pkg
    using go_packages_reflect [of alnum "[]" "[]" rows pkg] by (simp add: scope_of_def scope_reflects_empty)
  have scopes: "(pkg, sc) \<in> set ?by \<longleftrightarrow> map_of ?by pkg = Some sc" for pkg sc
    using go_packages_distinct [of "[]" alnum rows] by (simp add: map_of_eq_Some_iff)
  have "set (walk_packages ?by) = set ?by" using packages by (metis mset_eq_setD)
  then have "(s, i) \<in> set (go_structural_implements alnum walk_packages walk rows) \<longleftrightarrow>
      (\<exists>pkg sc. map_of ?by pkg = Some sc \<and> (s, i) \<in> set (match_within_package walk sc))"
    by (force simp: go_structural_implements_def scopes [symmetric])
  also have "\<dots> \<longleftrightarrow> (\<exists>pkg. (s, i) \<in> set (match_within_package walk (scope_of ?by pkg)))"
  proof -
    have "walk [] = []" using receivers [of "[]"] by simp
    then have "match_within_package walk empty_scope = []" by (rule match_within_empty)
    then show ?thesis by (auto simp: scope_of_def split: option.splits)
  qed
  also have "\<dots> \<longleftrightarrow> implements_structurally alnum rows s i"
    by (simp add: set_match_within_package [OF refl receivers] implements_structurally_def)
  finally show ?thesis .
qed

lemma sorted_remdups_adj_strict: "sorted xs \<Longrightarrow> sorted_wrt (<) (remdups_adj xs)" for xs :: "'a :: linorder list"
proof (induction xs rule: remdups_adj.induct)
  case (3 x y xs)
  then show ?case by (cases "x = y") (auto simp: less_le)
qed simp_all

text \<open>C19. Go structural implementation is exact: the result lists, in ascending order and without repetition, exactly the
  pairs of a type and an interface of one package where some receiver name that resolves to the type (its last declaration)
  has every method the interface requires, whatever order the hash tables are walked in.\<close>

theorem go_structural_exact:
  assumes "\<And>xs. mset (walk_packages xs) = mset xs" and "\<And>xs. mset (walk xs) = mset xs"
  shows "set (go_structural_implements alnum walk_packages walk rows) = {(s, i). implements_structurally alnum rows s i} \<and>
    sorted_wrt (<) (go_structural_implements alnum walk_packages walk rows)"
proof
  show "set (go_structural_implements alnum walk_packages walk rows) = {(s, i). implements_structurally alnum rows s i}"
    using set_go_structural [OF assms] by auto
  show "sorted_wrt (<) (go_structural_implements alnum walk_packages walk rows)"
    unfolding go_structural_implements_def by (rule sorted_remdups_adj_strict) simp
qed

definition demo_go_rows :: "go_row list" where
  "demo_go_rows =
    [(1, ''Store'', ''type'', ''type Store interface {'' @ [CHR 0x0A] @ ''Get(k string) string'' @ [CHR 0x0A] @ ''}'', ''pkg''),
     (2, ''Mem'', ''type'', ''type Mem struct {}'', ''pkg''),
     (3, ''Get'', ''method'', ''func (m *Mem) Get(k string) string {}'', ''pkg''),
     (4, ''Get'', ''method'', ''func (m *Mem) Get(k string) string {}'', ''other'')]"

theorem go_structural_exact_witness:
  "go_structural_implements (\<lambda>c. True) rev rev demo_go_rows = [(2, 1)] \<and>
   (2, 1) \<in> {(s, i). implements_structurally (\<lambda>c. True) demo_go_rows s i}"
proof -
  have run: "go_structural_implements (\<lambda>c. True) rev rev demo_go_rows = [(2, 1)]" by code_simp
  have "set (go_structural_implements (\<lambda>c. True) rev rev demo_go_rows) = {(s, i). implements_structurally (\<lambda>c. True) demo_go_rows s i}"
    by (rule conjunct1 [OF go_structural_exact]) simp_all
  with run show ?thesis by auto
qed

end
