(* ===== verification/Edge_Stage.thy ===== *)
theory Edge_Stage
  imports Inherited_Calls Go_Structural
begin

text \<open>
  Stage 6 of the ingestion pipeline (\<open>stage6_call_edges\<close> of \<open>akashic-ingestion/src/ingestion/stages.rs\<close>): from the parsed
  files of every final module and the chunks of the run to the CALLS, REFERENCES, IMPLEMENTS, ROUTES_TO, MAKES_HTTP_CALL and
  symbol-import edges staged for the graph.

  The stage composes \<open>Chunk_Index\<close> (the call cascade), \<open>Inherited_Calls\<close> (calls the cascade dropped) and \<open>Go_Structural\<close>.
  \<open>final_modules\<close> and the deduplication table are hash maps: the first is given as the list of its entries in the order they
  are walked, the walk of the second is the argument \<open>walk\<close>. A confidence is a number of hundredths.
\<close>

section \<open>The input\<close>

record chunk_index_entry =
  ce_id :: uuid
  ce_name :: string
  ce_module_path :: string
  ce_fqn :: "string option"
  ce_parent_fqn :: "string option"
  ce_signature :: "string option"
  ce_chunk_type :: string
  ce_content :: string
  ce_language :: "string option"

text \<open>Of a \<open>RawChunk\<close> and a \<open>ParsedFile\<close>, the fields the stage reads.\<close>

record raw_chunk =
  rc_chunk_type :: string
  rc_name :: string
  rc_start_byte :: nat
  rc_end_byte :: nat

record 'f parsed_file =
  pf_chunks :: "raw_chunk list"
  pf_edges :: "'f raw_edge list"

record stage5_output =
  import_target_map :: "string \<times> string \<rightharpoonup> string"
  imported_by_module :: "string \<rightharpoonup> string set"

definition row_of_entry :: "chunk_index_entry \<Rightarrow> chunk_index_row" where
  "row_of_entry r =
     \<lparr>ir_id = ce_id r, ir_name = ce_name r, ir_module_path = ce_module_path r, ir_parent_fqn = ce_parent_fqn r,
      ir_signature = ce_signature r, ir_chunk_type = ce_chunk_type r, ir_content = ce_content r\<rparr>"

definition type_kinds :: "string list" where
  "type_kinds = [''struct'', ''class'', ''interface'', ''trait'', ''enum'', ''type'']"

definition method_kinds :: "string list" where
  "method_kinds = [''method'', ''function'']"

section \<open>The auxiliary maps of the inheritance search\<close>

definition aux_row :: "chunk_index_entry \<Rightarrow> hierarchy \<Rightarrow> hierarchy" where
  "aux_row r h =
     (let h = (case ce_fqn r of
                 None \<Rightarrow> h
               | Some f \<Rightarrow>
                   (let h = h\<lparr>fqn_by_id := (fqn_by_id h)(ce_id r \<mapsto> f)\<rparr>
                    in if ce_chunk_type r \<in> set type_kinds
                       then h\<lparr>type_id_by_fqn := (type_id_by_fqn h)(f \<mapsto> ce_id r)\<rparr> else h))
      in if ce_chunk_type r \<in> set method_kinds then
           (case ce_parent_fqn r of
              None \<Rightarrow> h
            | Some pfqn \<Rightarrow>
                h\<lparr>parent_fqn_by_id := (parent_fqn_by_id h)(ce_id r \<mapsto> pfqn),
                  method_by_type_and_name := (method_by_type_and_name h)((pfqn, ce_name r) \<mapsto> ce_id r)\<rparr>)
         else h)"

definition empty_hierarchy :: hierarchy where
  "empty_hierarchy =
     \<lparr>supertypes_of = Map.empty, fqn_by_id = Map.empty, type_id_by_fqn = Map.empty, parent_fqn_by_id = Map.empty,
      method_by_type_and_name = Map.empty\<rparr>"

definition aux_maps :: "chunk_index_entry list \<Rightarrow> hierarchy" where
  "aux_maps source = fold aux_row source empty_hierarchy"

section \<open>The import map of a module\<close>

definition import_target ::
  "stage5_output \<Rightarrow> chunk_index \<Rightarrow> string \<Rightarrow> string \<Rightarrow> string option \<Rightarrow> string \<Rightarrow> ((string \<times> string) \<times> uuid) option" where
  "import_target s5 idx module_path nm module_specifier source =
     (case Option.bind module_specifier (\<lambda>spec.
             Option.bind (import_target_map s5 (module_path, spec)) (\<lambda>final_mod.
               map_option (\<lambda>i. ((final_mod, source), i)) (by_path_and_name idx (final_mod, source)))) of
        Some found \<Rightarrow> Some found
      | None \<Rightarrow>
          Option.bind (unique_id (by_name idx nm)) (\<lambda>i.
            map_option (\<lambda>mod_path. ((mod_path, nm), i)) (chunk_module idx i)))"

definition import_edge ::
  "stage5_output \<Rightarrow> chunk_index \<Rightarrow> string \<Rightarrow> 'f raw_edge \<Rightarrow> import_map \<times> (string \<times> uuid) list \<Rightarrow> import_map \<times> (string \<times> uuid) list" where
  "import_edge s5 idx module_path e = (\<lambda>(imports, symbols).
     if re_kind e \<noteq> Import then (imports, symbols)
     else case re_target e of
            Name nm module_specifier \<Rightarrow>
              (let source = (case meta_string e ''edge.import_source'' of Some s \<Rightarrow> s | None \<Rightarrow> nm)
               in case import_target s5 idx module_path nm module_specifier source of
                    None \<Rightarrow> (imports, symbols)
                  | Some (place, i) \<Rightarrow> (imports(nm \<mapsto> place), symbols @ [(module_path, i)]))
          | _ \<Rightarrow> (imports, symbols))"

definition import_pass ::
  "stage5_output \<Rightarrow> chunk_index \<Rightarrow> string \<Rightarrow> 'f parsed_file list \<Rightarrow> (string \<times> uuid) list \<Rightarrow> import_map \<times> (string \<times> uuid) list" where
  "import_pass s5 idx module_path files symbols =
     fold (\<lambda>pf. fold (import_edge s5 idx module_path) (pf_edges pf)) files (Map.empty, symbols)"

section \<open>The edges of a file\<close>

definition chunk_spans :: "chunk_index \<Rightarrow> string \<Rightarrow> 'f parsed_file \<Rightarrow> (nat \<times> nat \<times> uuid) list" where
  "chunk_spans idx module_path pf =
     sort_key (\<lambda>(s, e, _). e - s)
       (List.map_filter (\<lambda>c. map_option (\<lambda>i. (rc_start_byte c, rc_end_byte c, i)) (by_path_and_name idx (module_path, rc_name c)))
         (filter (\<lambda>c. rc_chunk_type c \<noteq> ''http_call'') (pf_chunks pf)))"

definition enclosing_chunk :: "(nat \<times> nat \<times> uuid) list \<Rightarrow> nat \<Rightarrow> uuid option" where
  "enclosing_chunk spans start = map_option (\<lambda>(_, _, i). i) (List.find (\<lambda>(s, e, _). s \<le> start \<and> start < e) spans)"

definition ref_kind_or :: "'f raw_edge \<Rightarrow> string \<Rightarrow> string \<Rightarrow> string option" where
  "ref_kind_or e field dflt = Some (case meta_string e field of Some s \<Rightarrow> s | None \<Rightarrow> dflt)"

definition relabel :: "'f raw_edge \<Rightarrow> resolved_edge \<Rightarrow> resolved_edge" where
  "relabel e resolved =
     (if re_kind e = References then resolved\<lparr>rv_kind := References, rv_ref_kind := ref_kind_or e ''ref_kind'' ''type''\<rparr>
      else if re_kind e = RoutesTo then resolved\<lparr>rv_kind := RoutesTo, rv_ref_kind := ref_kind_or e ''http_method'' ''ANY''\<rparr>
      else if re_kind e = MakesHttpCall then
        resolved\<lparr>rv_kind := MakesHttpCall, rv_ref_kind := ref_kind_or e ''http_method'' ''ANY''\<rparr>
      else resolved)"

type_synonym edge_work = "resolved_edge list \<times> (string \<times> uuid) list"

definition located_edge ::
  "chunk_index \<Rightarrow> string \<Rightarrow> import_map \<Rightarrow> string set \<Rightarrow> (nat \<times> nat \<times> uuid) list \<Rightarrow> 'f raw_edge \<Rightarrow> edge_work \<Rightarrow> edge_work" where
  "located_edge idx module_path imports imported spans e = (\<lambda>(resolved, dropped).
     case re_source e of
       Byte_range start _ \<Rightarrow>
         (case enclosing_chunk spans start of
            None \<Rightarrow> (resolved, dropped)
          | Some src_chunk_id \<Rightarrow>
              (case resolve_call_edge e src_chunk_id module_path idx imports imported of
                 Some r \<Rightarrow> (resolved @ [relabel e r], dropped)
               | None \<Rightarrow>
                   if re_kind e = Call then
                     (case re_target e of
                        Name nm _ \<Rightarrow> (resolved, dropped @ [(nm, src_chunk_id)])
                      | _ \<Rightarrow> (resolved, dropped))
                   else (resolved, dropped)))
     | _ \<Rightarrow> (resolved, dropped))"

definition subtype_chunk :: "chunk_index \<Rightarrow> string \<Rightarrow> string \<Rightarrow> uuid option" where
  "subtype_chunk idx module_path subtype =
     (case by_path_and_name idx (module_path, subtype) of
        Some i \<Rightarrow> Some i
      | None \<Rightarrow> unique_id (by_name idx subtype))"

definition declared_edge ::
  "chunk_index \<Rightarrow> string \<Rightarrow> import_map \<Rightarrow> string set \<Rightarrow> 'f raw_edge \<Rightarrow> edge_work \<Rightarrow> edge_work" where
  "declared_edge idx module_path imports imported e = (\<lambda>(resolved, dropped).
     case re_source e of
       Name subtype _ \<Rightarrow>
         (case Option.bind (subtype_chunk idx module_path subtype)
                 (\<lambda>src_chunk_id. resolve_call_edge e src_chunk_id module_path idx imports imported) of
            None \<Rightarrow> (resolved, dropped)
          | Some r \<Rightarrow>
              (resolved @ [r\<lparr>rv_kind := re_kind e, rv_ref_kind := ref_kind_or e ''impl_kind'' ''implements''\<rparr>], dropped))
     | _ \<Rightarrow> (resolved, dropped))"

definition file_edge ::
  "chunk_index \<Rightarrow> string \<Rightarrow> import_map \<Rightarrow> string set \<Rightarrow> (nat \<times> nat \<times> uuid) list \<Rightarrow> 'f raw_edge \<Rightarrow> edge_work \<Rightarrow> edge_work" where
  "file_edge idx module_path imports imported spans e work =
     (if re_kind e \<in> {Call, References, RoutesTo, MakesHttpCall} then located_edge idx module_path imports imported spans e work
      else if re_kind e \<in> {Implements, Extends} then declared_edge idx module_path imports imported e work
      else work)"

definition module_edges ::
  "stage5_output \<Rightarrow> chunk_index \<Rightarrow> string \<times> 'f parsed_file list \<Rightarrow> edge_work \<times> (string \<times> uuid) list \<Rightarrow>
     edge_work \<times> (string \<times> uuid) list" where
  "module_edges s5 idx = (\<lambda>(module_path, files) (work, symbols).
     if list_all (\<lambda>pf. pf_chunks pf = []) files then (work, symbols)
     else
       let (imports, symbols) = import_pass s5 idx module_path files symbols;
           imported = (case imported_by_module s5 module_path of None \<Rightarrow> {} | Some ms \<Rightarrow> ms)
       in (fold (\<lambda>pf. fold (file_edge idx module_path imports imported (chunk_spans idx module_path pf)) (pf_edges pf)) files work,
           symbols))"

section \<open>Deduplication, inheritance, classification\<close>

type_synonym dedup_key = "uuid \<times> uuid \<times> edge_kind \<times> string option"

definition dedup_key :: "resolved_edge \<Rightarrow> dedup_key" where
  "dedup_key e = (rv_src e, rv_tgt e, rv_kind e, rv_ref_kind e)"

definition dedup_table :: "resolved_edge list \<Rightarrow> (dedup_key \<times> resolved_edge) list" where
  "dedup_table edges =
     fold (\<lambda>e. entry (dedup_key e) e (\<lambda>old. if rv_confidence e > rv_confidence old then e else old)) edges []"

type_synonym dedup_walk = "(dedup_key \<times> resolved_edge) list \<Rightarrow> (dedup_key \<times> resolved_edge) list"

definition dedup_edges :: "dedup_walk \<Rightarrow> resolved_edge list \<Rightarrow> resolved_edge list" where
  "dedup_edges walk edges = map snd (walk (dedup_table edges))"

definition supertype_table :: "resolved_edge list \<Rightarrow> (uuid \<times> uuid list) list" where
  "supertype_table edges =
     fold (\<lambda>e t. if rv_kind e \<in> {Implements, Extends} then entry (rv_src e) [] (\<lambda>ts. ts @ [rv_tgt e]) t else t) edges []"

definition add_inherited :: "hierarchy \<Rightarrow> (string \<times> uuid) list \<Rightarrow> resolved_edge list \<Rightarrow> resolved_edge list" where
  "add_inherited h dropped edges =
     edges @ filter_new_inherited_edges edges
       (inherited_call_targets (remdups_adj (sort dropped)) (h\<lparr>supertypes_of := map_of (supertype_table edges)\<rparr>))"

record ingest_edge =
  ie_src :: uuid
  ie_tgt :: uuid
  ie_confidence :: nat
  ie_method :: string
  ie_ref_kind :: "string option"

record graph_edges =
  calls_edges :: "ingest_edge list"
  reference_edges :: "ingest_edge list"
  implements_edges :: "ingest_edge list"
  routes_to_edges :: "ingest_edge list"
  http_call_edges :: "ingest_edge list"
  symbol_import_edges :: "(string \<times> uuid) list"

definition to_ingest_edge :: "resolved_edge \<Rightarrow> ingest_edge" where
  "to_ingest_edge e =
     \<lparr>ie_src = rv_src e, ie_tgt = rv_tgt e, ie_confidence = rv_confidence e, ie_method = rv_method e, ie_ref_kind = rv_ref_kind e\<rparr>"

definition is_call_bucket :: "edge_kind \<Rightarrow> bool" where
  "is_call_bucket k \<longleftrightarrow> k \<notin> {References, Implements, Extends, RoutesTo, MakesHttpCall}"

definition go_rows :: "chunk_index_entry list \<Rightarrow> go_row list" where
  "go_rows source =
     map (\<lambda>r. (ce_id r, ce_name r, ce_chunk_type r, ce_content r, ce_module_path r))
       (filter (\<lambda>r. ce_language r = Some ''go'' \<and> ce_chunk_type r \<in> {''type'', ''method''}) source)"

definition structural_edge :: "uuid \<times> uuid \<Rightarrow> resolved_edge" where
  "structural_edge = (\<lambda>(s, t).
     \<lparr>rv_src = s, rv_tgt = t, rv_kind = Implements, rv_confidence = 100, rv_method = ''structural'', rv_line = None,
      rv_ref_kind = Some ''implements''\<rparr>)"

definition resolve_modules ::
  "stage5_output \<Rightarrow> chunk_index \<Rightarrow> (string \<times> 'f parsed_file list) list \<Rightarrow> edge_work \<times> (string \<times> uuid) list" where
  "resolve_modules s5 idx final_modules = fold (module_edges s5 idx) final_modules (([], []), [])"

definition stage6_edges ::
  "dedup_walk \<Rightarrow> stage5_output \<Rightarrow> chunk_index_entry list \<Rightarrow> (string \<times> 'f parsed_file list) list \<Rightarrow> resolved_edge list" where
  "stage6_edges walk s5 source final_modules =
     (let ((resolved, dropped), _) = resolve_modules s5 (build_from (map row_of_entry source)) final_modules
      in add_inherited (aux_maps source) dropped (dedup_edges walk resolved))"

text \<open>The arguments that stand for hash-map walks and for the Unicode table.\<close>

record stage_walks =
  sw_dedup :: dedup_walk
  sw_alphanumeric :: "string \<Rightarrow> bool"
  sw_packages :: "(string \<times> package_scope) list \<Rightarrow> (string \<times> package_scope) list"
  sw_receivers :: "(string \<times> string set) list \<Rightarrow> (string \<times> string set) list"

definition stage6_call_edges ::
  "stage_walks \<Rightarrow> stage5_output \<Rightarrow> chunk_index_entry list \<Rightarrow> (string \<times> 'f parsed_file list) list \<Rightarrow> graph_edges \<Rightarrow> graph_edges" where
  "stage6_call_edges w s5 source final_modules graph =
     (let edges = stage6_edges (sw_dedup w) s5 source final_modules;
          symbols = snd (resolve_modules s5 (build_from (map row_of_entry source)) final_modules);
          of_kind = (\<lambda>p. map to_ingest_edge (filter (\<lambda>e. p (rv_kind e)) edges));
          rows = go_rows source
      in graph
         \<lparr>calls_edges := calls_edges graph @ of_kind is_call_bucket,
          reference_edges := reference_edges graph @ of_kind (\<lambda>k. k = References),
          implements_edges := implements_edges graph @ of_kind (\<lambda>k. k \<in> {Implements, Extends})
            @ (if rows = [] then [] else map (to_ingest_edge \<circ> structural_edge) 
                (go_structural_implements (sw_alphanumeric w) (sw_packages w) (sw_receivers w) rows)),
          routes_to_edges := routes_to_edges graph @ of_kind (\<lambda>k. k = RoutesTo),
          http_call_edges := http_call_edges graph @ of_kind (\<lambda>k. k = MakesHttpCall),
          symbol_import_edges := symbol_import_edges graph @ remdups_adj (sort symbols)\<rparr>)"

section \<open>Every identifier comes from the run\<close>

lemma final_in: "final xs = Some x \<Longrightarrow> x \<in> set xs"
  by (auto simp: final_def split: if_splits)

lemma by_path_id: "by_path_and_name (build_from rows) k = Some i \<Longrightarrow> i \<in> ir_id ` set rows"
  by (cases k) (auto simp: build_by_path dest: final_in)

lemma unique_id_in: "unique_id ids = Some i \<Longrightarrow> \<exists>is. ids = Some is \<and> i \<in> set is"
  by (auto simp: unique_id_def split: option.splits list.splits)

lemma by_name_ids: "by_name (build_from rows) nm = Some is \<Longrightarrow> i \<in> set is \<Longrightarrow> i \<in> ir_id ` set rows"
  by (auto simp: build_by_name ids_or_none_def split: if_splits)

lemma by_type_ids: "by_type_and_name (build_from rows) k = Some is \<Longrightarrow> i \<in> set is \<Longrightarrow> i \<in> ir_id ` set rows"
  by (cases k) (auto simp: build_by_type ids_or_none_def split: if_splits)

lemma tier_results:
  assumes "find_map id
      [tier_receiver e nm (build_from rows), tier_chain e nm (build_from rows), tier_field e nm (build_from rows),
       tier_import nm imports (build_from rows), tier_same_file m nm (build_from rows),
       tier_import_scoped nm ms (build_from rows), tier_unique nm (build_from rows)] = Some (tgt, c, l)"
  shows "tgt \<in> ir_id ` set rows \<and> 0 < c \<and> c \<le> 100"
proof -
  from find_map_Some [OF assms] consider
      "tier_receiver e nm (build_from rows) = Some (tgt, c, l)" | "tier_chain e nm (build_from rows) = Some (tgt, c, l)"
    | "tier_field e nm (build_from rows) = Some (tgt, c, l)" | "tier_import nm imports (build_from rows) = Some (tgt, c, l)"
    | "tier_same_file m nm (build_from rows) = Some (tgt, c, l)"
    | "tier_import_scoped nm ms (build_from rows) = Some (tgt, c, l)" | "tier_unique nm (build_from rows) = Some (tgt, c, l)"
    by fastforce
  then show ?thesis
  proof cases
    case 1
    then show ?thesis
      by (auto simp: tier_receiver_def bind_eq_Some_conv dest!: unique_id_in by_type_ids split: if_splits)
  next
    case 2
    then show ?thesis by (auto simp: tier_chain_def bind_eq_Some_conv dest!: unique_id_in by_type_ids)
  next
    case 3
    then show ?thesis by (auto simp: tier_field_def bind_eq_Some_conv dest!: unique_id_in by_type_ids split: if_splits)
  next
    case 4
    then show ?thesis by (auto simp: tier_import_def bind_eq_Some_conv dest!: by_path_id)
  next
    case 5
    then show ?thesis by (auto simp: tier_same_file_def dest!: by_path_id)
  next
    case 6
    then show ?thesis
      by (auto simp: tier_import_scoped_def bind_eq_Some_conv dest!: unique_id_in by_name_ids split: if_splits)
  next
    case 7
    then show ?thesis by (auto simp: tier_unique_def dest!: unique_id_in by_name_ids)
  qed
qed

lemma resolve_call_edge_result:
  assumes "resolve_call_edge e src m (build_from rows) imports ms = Some r"
  shows "rv_src r = src \<and> rv_tgt r \<in> ir_id ` set rows \<and> rv_kind r = Call \<and> rv_ref_kind r = None
    \<and> 0 < rv_confidence r \<and> rv_confidence r \<le> 100"
proof (cases "re_target e")
  case (Name nm spec)
  obtain t c l where "find_map id
      [tier_receiver e nm (build_from rows), tier_chain e nm (build_from rows), tier_field e nm (build_from rows),
       tier_import nm imports (build_from rows), tier_same_file m nm (build_from rows),
       tier_import_scoped nm ms (build_from rows), tier_unique nm (build_from rows)] = Some (t, c, l)"
    and r: "r = \<lparr>rv_src = src, rv_tgt = t, rv_kind = Call, rv_confidence = c, rv_method = l, rv_line = re_line e, rv_ref_kind = None\<rparr>"
    using assms unfolding resolve_call_edge_def Name edge_endpoint.case by (auto simp del: find_map.simps)
  from tier_results [OF this(1)] show ?thesis by (simp add: r)
qed (use assms in \<open>simp_all add: resolve_call_edge_def\<close>)

text \<open>A resolved edge is well typed when both ends are chunks of the run and exactly the calls carry no kind label.\<close>

definition edge_typed :: "uuid set \<Rightarrow> resolved_edge \<Rightarrow> bool" where
  "edge_typed ids e \<longleftrightarrow>
     rv_src e \<in> ids \<and> rv_tgt e \<in> ids \<and> 0 < rv_confidence e \<and> rv_confidence e \<le> 100 \<and>
     rv_kind e \<in> {Call, References, RoutesTo, MakesHttpCall, Implements, Extends} \<and> (rv_ref_kind e = None \<longleftrightarrow> rv_kind e = Call)"

definition work_typed :: "uuid set \<Rightarrow> edge_work \<Rightarrow> bool" where
  "work_typed ids work \<longleftrightarrow> (\<forall>e \<in> set (fst work). edge_typed ids e) \<and> snd ` set (snd work) \<subseteq> ids"

lemma enclosing_chunk_id:
  assumes "enclosing_chunk (chunk_spans (build_from rows) m pf) start = Some i"
  shows "i \<in> ir_id ` set rows"
proof -
  from assms obtain s e where "(s, e, i) \<in> set (chunk_spans (build_from rows) m pf)"
    by (auto simp: enclosing_chunk_def find_Some_iff) (metis nth_mem)
  then obtain c :: raw_chunk where "by_path_and_name (build_from rows) (m, rc_name c) = Some i"
    by (auto simp: chunk_spans_def map_filter_def)
  then show ?thesis by (rule by_path_id)
qed

lemma subtype_chunk_id: "subtype_chunk (build_from rows) m nm = Some i \<Longrightarrow> i \<in> ir_id ` set rows"
  by (auto simp: subtype_chunk_def dest!: by_path_id unique_id_in by_name_ids split: option.splits)

lemma ref_kind_or_Some [simp]: "ref_kind_or e f d \<noteq> None"
  by (simp add: ref_kind_or_def)

lemma file_edge_typed:
  assumes "work_typed (ir_id ` set rows) work"
  shows "work_typed (ir_id ` set rows)
    (file_edge (build_from rows) m imports ms (chunk_spans (build_from rows) m pf) e work)"
proof -
  obtain resolved dropped where work: "work = (resolved, dropped)" by (cases work)
  have declared: "work_typed (ir_id ` set rows) (declared_edge (build_from rows) m imports ms e work)"
    if "re_kind e \<in> {Implements, Extends}"
    using assms that unfolding declared_edge_def work
    by (auto simp: work_typed_def edge_typed_def bind_eq_Some_conv dest!: resolve_call_edge_result subtype_chunk_id
          split: edge_endpoint.split option.split)
  have located: "work_typed (ir_id ` set rows)
      (located_edge (build_from rows) m imports ms (chunk_spans (build_from rows) m pf) e work)"
    if "re_kind e \<in> {Call, References, RoutesTo, MakesHttpCall}"
    using assms that unfolding located_edge_def work
    by (auto simp: work_typed_def edge_typed_def relabel_def dest!: resolve_call_edge_result enclosing_chunk_id
          split: edge_endpoint.split option.split)
  from declared located assms show ?thesis by (auto simp: file_edge_def)
qed

lemma import_edge_ids:
  assumes "snd ` set (snd st) \<subseteq> ir_id ` set rows"
  shows "snd ` set (snd (import_edge s5 (build_from rows) m e st)) \<subseteq> ir_id ` set rows"
  using assms unfolding import_edge_def
  by (auto simp: import_target_def bind_eq_Some_conv Let_def split_beta dest!: by_path_id unique_id_in by_name_ids
        split: edge_endpoint.splits option.splits)

lemma import_pass_ids:
  assumes "snd ` set symbols \<subseteq> ir_id ` set rows"
  shows "snd ` set (snd (import_pass s5 (build_from rows) m files symbols)) \<subseteq> ir_id ` set rows"
  unfolding import_pass_def
  by (rule fold_invariant [where Q = "\<lambda>_. True"], simp, simp add: assms)
     (rule fold_invariant [where Q = "\<lambda>_. True"], simp, assumption, rule import_edge_ids)

definition pass_typed :: "uuid set \<Rightarrow> edge_work \<times> (string \<times> uuid) list \<Rightarrow> bool" where
  "pass_typed ids st \<longleftrightarrow> work_typed ids (fst st) \<and> snd ` set (snd st) \<subseteq> ids"

lemma module_edges_typed:
  assumes "pass_typed (ir_id ` set rows) st"
  shows "pass_typed (ir_id ` set rows) (module_edges s5 (build_from rows) md st)"
proof -
  obtain m files work symbols where md: "md = (m, files)" and st: "st = (work, symbols)" by (cases md, cases st)
  have files: "work_typed (ir_id ` set rows)
      (fold (\<lambda>pf. fold (file_edge (build_from rows) m imps ms (chunk_spans (build_from rows) m pf)) (pf_edges pf)) files work)" for imps ms
    by (rule fold_invariant [where Q = "\<lambda>_. True"], simp, use assms st in \<open>simp add: pass_typed_def\<close>)
       (rule fold_invariant [where Q = "\<lambda>_. True"], simp, assumption, rule file_edge_typed)
  have "snd ` set (snd (import_pass s5 (build_from rows) m files symbols)) \<subseteq> ir_id ` set rows"
    by (rule import_pass_ids) (use assms st in \<open>simp add: pass_typed_def\<close>)
  with files assms show ?thesis by (simp add: module_edges_def md st pass_typed_def split_beta Let_def)
qed

lemma resolve_modules_typed: "pass_typed (ir_id ` set rows) (resolve_modules s5 (build_from rows) final_modules)"
  unfolding resolve_modules_def
  by (rule fold_invariant [where Q = "\<lambda>_. True"], simp, simp add: pass_typed_def work_typed_def) (rule module_edges_typed)

section \<open>Deduplication keeps the best edge of each key\<close>

definition best_of :: "resolved_edge list \<Rightarrow> dedup_key \<Rightarrow> resolved_edge \<Rightarrow> bool" where
  "best_of es k e \<longleftrightarrow> e \<in> set es \<and> dedup_key e = k \<and> (\<forall>e' \<in> set es. dedup_key e' = k \<longrightarrow> rv_confidence e' \<le> rv_confidence e)"

lemma dedup_table_snoc: "dedup_table (es @ [e]) =
    entry (dedup_key e) e (\<lambda>old. if rv_confidence e > rv_confidence old then e else old) (dedup_table es)"
  by (simp add: dedup_table_def)

lemma dedup_table_distinct: "distinct (map fst (dedup_table es))"
proof (induction es rule: rev_induct)
  case Nil
  then show ?case by (simp add: dedup_table_def)
next
  case (snoc e es)
  then show ?case by (simp only: dedup_table_snoc distinct_entry)
qed

lemma dedup_table_keys: "fst ` set (dedup_table es) = dedup_key ` set es"
proof (induction es rule: rev_induct)
  case Nil
  then show ?case by (simp add: dedup_table_def)
next
  case (snoc e es)
  then show ?case by (simp add: dedup_table_snoc keys_entry)
qed

lemma dedup_table_best: "map_of (dedup_table es) k = Some e \<Longrightarrow> best_of es k e"
proof (induction es arbitrary: e rule: rev_induct)
  case Nil
  then show ?case by (simp add: dedup_table_def)
next
  case (snoc x es)
  have absent: "k \<notin> dedup_key ` set es" if "map_of (dedup_table es) k = None"
    using that unfolding map_of_eq_None_iff dedup_table_keys .
  show ?case
  proof (cases "dedup_key x = k")
    case False
    with snoc show ?thesis by (auto simp: dedup_table_snoc map_of_entry best_of_def)
  next
    case True
    show ?thesis
    proof (cases "map_of (dedup_table es) k")
      case None
      have "\<forall>e' \<in> set es. dedup_key e' \<noteq> k" using absent [OF None] by auto
      with None True snoc.prems show ?thesis by (auto simp: dedup_table_snoc map_of_entry best_of_def)
    next
      case (Some old)
      from snoc.IH [OF this] Some True snoc.prems show ?thesis
        by (auto simp: dedup_table_snoc map_of_entry best_of_def split: if_splits)
    qed
  qed
qed

lemma dedup_edges_entries:
  assumes "\<And>xs. mset (walk xs) = mset xs"
  shows "mset (map dedup_key (dedup_edges walk es)) = mset (map fst (dedup_table es))"
    and "e \<in> set (dedup_edges walk es) \<longleftrightarrow> map_of (dedup_table es) (dedup_key e) = Some e"
proof -
  have key: "dedup_key x = k" if "(k, x) \<in> set (dedup_table es)" for k x
    using that dedup_table_best [of es k x] dedup_table_distinct [of es] by (simp add: best_of_def)
  have walked: "set (walk (dedup_table es)) = set (dedup_table es)" using assms by (metis mset_eq_setD)
  have "map (dedup_key \<circ> snd) (walk (dedup_table es)) = map fst (walk (dedup_table es))"
    using key unfolding map_eq_conv walked by auto
  then have "map dedup_key (dedup_edges walk es) = map fst (walk (dedup_table es))" by (simp add: dedup_edges_def)
  then show "mset (map dedup_key (dedup_edges walk es)) = mset (map fst (dedup_table es))"
    using assms [of "dedup_table es"] by (simp only: mset_map)
  show "e \<in> set (dedup_edges walk es) \<longleftrightarrow> map_of (dedup_table es) (dedup_key e) = Some e"
  proof
    assume "e \<in> set (dedup_edges walk es)"
    then obtain k where k: "(k, e) \<in> set (dedup_table es)" unfolding dedup_edges_def set_map walked by auto
    with key [OF k] dedup_table_distinct [of es] show "map_of (dedup_table es) (dedup_key e) = Some e" by simp
  next
    assume "map_of (dedup_table es) (dedup_key e) = Some e"
    then have "(dedup_key e, e) \<in> set (dedup_table es)" by (rule map_of_SomeD)
    then show "e \<in> set (dedup_edges walk es)" unfolding dedup_edges_def set_map walked by (rule image_eqI [rotated]) simp
  qed
qed

lemma dedup_edges_distinct:
  assumes "\<And>xs. mset (walk xs) = mset xs"
  shows "distinct (map dedup_key (dedup_edges walk es))"
  using dedup_edges_entries(1) [OF assms, of es] dedup_table_distinct [of es] by (metis mset_eq_imp_distinct_iff)

lemma dedup_edges_best:
  assumes "\<And>xs. mset (walk xs) = mset xs"
  shows "e \<in> set (dedup_edges walk es) \<Longrightarrow> best_of es (dedup_key e) e"
    and "x \<in> set es \<Longrightarrow> \<exists>e \<in> set (dedup_edges walk es). dedup_key e = dedup_key x \<and> rv_confidence x \<le> rv_confidence e"
proof -
  show "best_of es (dedup_key e) e" if "e \<in> set (dedup_edges walk es)" for e
    using that unfolding dedup_edges_entries(2) [OF assms] by (rule dedup_table_best)
  assume x: "x \<in> set es"
  then have "map_of (dedup_table es) (dedup_key x) \<noteq> None"
    using dedup_table_keys [of es] by (auto simp: map_of_eq_None_iff)
  then obtain e where e: "map_of (dedup_table es) (dedup_key x) = Some e" by blast
  from dedup_table_best [OF this] x have "dedup_key e = dedup_key x" "rv_confidence x \<le> rv_confidence e"
    by (simp_all add: best_of_def)
  with e show "\<exists>e \<in> set (dedup_edges walk es). dedup_key e = dedup_key x \<and> rv_confidence x \<le> rv_confidence e"
    using dedup_edges_entries(2) [OF assms, of e es] by auto
qed

section \<open>The staged edges\<close>

lemma aux_row_methods:
  "method_by_type_and_name (aux_row r h) =
     (if ce_chunk_type r \<in> set method_kinds
      then (case ce_parent_fqn r of None \<Rightarrow> method_by_type_and_name h
            | Some p \<Rightarrow> (method_by_type_and_name h)((p, ce_name r) \<mapsto> ce_id r))
      else method_by_type_and_name h)"
  by (simp add: aux_row_def Let_def split: option.split)

lemma aux_methods: "method_by_type_and_name (aux_maps source) k = Some i \<Longrightarrow> i \<in> ce_id ` set source"
proof (induction source rule: rev_induct)
  case Nil
  then show ?case by (simp add: aux_maps_def empty_hierarchy_def)
next
  case (snoc r source)
  then show ?case by (auto simp: aux_maps_def aux_row_methods split: if_splits option.splits)
qed

lemma inherited_target_method:
  assumes "inherited_target h nm caller = Some m"
  shows "\<exists>k. method_by_type_and_name h k = Some m"
proof -
  from assms obtain f start where "parent_fqn_by_id h caller = Some f" "type_id_by_fqn h f = Some start"
    by (auto simp: inherited_target_def bind_eq_Some_conv)
  from inherited_target_correct [OF this, of nm] assms show ?thesis by (auto simp: outcome_ok_def provides_def)
qed

lemma inherited_edge_typed:
  assumes "e \<in> set (inherited_call_targets (remdups_adj (sort dropped)) (aux_maps source\<lparr>supertypes_of := spr\<rparr>))"
    and "snd ` set dropped \<subseteq> ce_id ` set source"
  shows "edge_typed (ce_id ` set source) e \<and> rv_kind e = Call"
proof -
  from assms(1) obtain c m nm where e: "e = inherited_edge c m" and "(nm, c) \<in> set dropped"
    and m: "inherited_target (aux_maps source\<lparr>supertypes_of := spr\<rparr>) nm c = Some m"
    by (auto simp: inherited_edges)
  moreover from this have "c \<in> ce_id ` set source" using assms(2) by force
  moreover have "m \<in> ce_id ` set source" using inherited_target_method [OF m] aux_methods by auto
  ultimately show ?thesis by (simp add: inherited_edge_def edge_typed_def)
qed

lemma ids_of_rows [simp]: "ir_id ` set (map row_of_entry source) = ce_id ` set source"
  by (simp add: image_image row_of_entry_def)

lemma stage6_edges_typed:
  assumes "\<And>xs. mset (walk xs) = mset xs" and "e \<in> set (stage6_edges walk s5 source final_modules)"
  shows "edge_typed (ce_id ` set source) e"
proof -
  obtain resolved dropped symbols where run: "resolve_modules s5 (build_from (map row_of_entry source)) final_modules
      = ((resolved, dropped), symbols)"
    by (metis prod.collapse)
  have typed: "\<forall>e \<in> set resolved. edge_typed (ce_id ` set source) e" "snd ` set dropped \<subseteq> ce_id ` set source"
    using resolve_modules_typed [of "map row_of_entry source" s5 final_modules]
    by (simp_all add: run pass_typed_def work_typed_def image_image row_of_entry_def)
  from assms(2) consider "e \<in> set (dedup_edges walk resolved)"
    | "e \<in> set (inherited_call_targets (remdups_adj (sort dropped))
          (aux_maps source\<lparr>supertypes_of := map_of (supertype_table (dedup_edges walk resolved))\<rparr>))"
    by (auto simp: stage6_edges_def run add_inherited_def filter_new_inherited_edges_def)
  then show ?thesis
  proof cases
    case 1
    from dedup_edges_best(1) [OF assms(1) this] typed(1) show ?thesis by (simp add: best_of_def)
  next
    case 2
    from inherited_edge_typed [OF this typed(2)] show ?thesis ..
  qed
qed

lemma add_inherited_calls:
  assumes "distinct (map dedup_key edges)" and "\<And>e. e \<in> set edges \<Longrightarrow> edge_typed ids e"
  shows "distinct (map (\<lambda>e. (rv_src e, rv_tgt e)) (filter (\<lambda>e. rv_kind e = Call) (add_inherited h dropped edges)))"
proof -
  let ?pair = "\<lambda>e. (rv_src e, rv_tgt e)"
  let ?inh = "inherited_call_targets (remdups_adj (sort dropped)) (h\<lparr>supertypes_of := map_of (supertype_table edges)\<rparr>)"
  have call_key: "dedup_key e = (rv_src e, rv_tgt e, Call, None)" if "e \<in> set edges" "rv_kind e = Call" for e
    using assms(2) [OF that(1)] that(2) by (simp add: dedup_key_def edge_typed_def)
  have "inj_on ?pair (set (filter (\<lambda>e. rv_kind e = Call) edges))"
  proof (rule inj_onI)
    fix x y assume xy: "x \<in> set (filter (\<lambda>e. rv_kind e = Call) edges)" "y \<in> set (filter (\<lambda>e. rv_kind e = Call) edges)" "?pair x = ?pair y"
    then have "dedup_key x = dedup_key y" using call_key by auto
    with xy assms(1) show "x = y" by (auto simp: distinct_map dest: inj_onD)
  qed
  moreover have "distinct edges" using assms(1) by (simp add: distinct_map)
  ultimately have old: "distinct (map ?pair (filter (\<lambda>e. rv_kind e = Call) edges))" by (simp add: distinct_map)
  have calls: "rv_kind e = Call" if "e \<in> set ?inh" for e using that by (auto simp: inherited_edges inherited_edge_def)
  have "distinct (map ?pair (filter p ?inh))" for p
    using inherited_loop_distinct by (simp add: inherited_call_targets_def distinct_map_filter)
  then have new: "distinct (map ?pair (filter (\<lambda>e. rv_kind e = Call) (filter_new_inherited_edges edges ?inh)))"
    by (simp add: filter_new_inherited_edges_def)
  have "?pair x \<noteq> ?pair y" if "x \<in> set edges" "rv_kind x = Call" "y \<in> set (filter_new_inherited_edges edges ?inh)" for x y
  proof
    assume "?pair x = ?pair y"
    moreover have "rv_kind y = Call" using that(3) calls by (simp add: filter_new_inherited_edges_def)
    ultimately have "edge_key y = edge_key x" using that(2) by (simp add: edge_key_def)
    with that(1,3) show False by (auto simp: filter_new_inherited_edges_def)
  qed
  with old new show ?thesis by (auto simp: add_inherited_def)
qed

lemma structural_edge_typed:
  assumes "\<And>xs. mset (walk_packages xs) = mset xs" and "\<And>xs. mset (walk xs) = mset xs"
    and "p \<in> set (go_structural_implements alnum walk_packages walk (go_rows source))"
  shows "edge_typed (ce_id ` set source) (structural_edge p)"
proof -
  obtain s t where p: "p = (s, t)" by (cases p)
  have rows: "fst ` set (go_rows source) \<subseteq> ce_id ` set source" by (auto simp: go_rows_def)
  from assms(3) have "implements_structurally alnum (go_rows source) s t"
    unfolding p by (simp only: set_go_structural [OF assms(1,2)])
  then obtain pkg req recv where t: "declares_interface alnum (go_rows source) pkg t req"
    and s: "declared_type (go_rows source) pkg recv = Some s"
    by (auto simp: implements_structurally_def)
  from t have "t \<in> fst ` set (go_rows source)" by (force simp: declares_interface_def)
  moreover from s have "s \<in> fst ` set (go_rows source)"
    by (auto simp: declared_type_def dest!: fetch_optional_Some [unfolded fetch_optional_def]) force
  ultimately show ?thesis using rows by (auto simp: p structural_edge_def edge_typed_def)
qed

definition graph_typed :: "uuid set \<Rightarrow> graph_edges \<Rightarrow> bool" where
  "graph_typed ids g \<longleftrightarrow>
     (\<forall>e \<in> set (calls_edges g). ie_src e \<in> ids \<and> ie_tgt e \<in> ids \<and> ie_ref_kind e = None) \<and>
     (\<forall>e \<in> set (reference_edges g) \<union> set (implements_edges g) \<union> set (routes_to_edges g) \<union> set (http_call_edges g).
        ie_src e \<in> ids \<and> ie_tgt e \<in> ids \<and> ie_ref_kind e \<noteq> None) \<and>
     (\<forall>s \<in> set (symbol_import_edges g). snd s \<in> ids)"

definition fair_walks :: "stage_walks \<Rightarrow> bool" where
  "fair_walks w \<longleftrightarrow> (\<forall>xs. mset (sw_dedup w xs) = mset xs) \<and> (\<forall>xs. mset (sw_packages w xs) = mset xs)
     \<and> (\<forall>xs. mset (sw_receivers w xs) = mset xs)"

lemma to_ingest_edge_typed:
  "edge_typed ids e \<Longrightarrow> ie_src (to_ingest_edge e) \<in> ids \<and> ie_tgt (to_ingest_edge e) \<in> ids
     \<and> (ie_ref_kind (to_ingest_edge e) = None \<longleftrightarrow> rv_kind e = Call)"
  by (simp add: edge_typed_def to_ingest_edge_def)

lemma is_call_bucket_typed: "edge_typed ids e \<Longrightarrow> is_call_bucket (rv_kind e) \<longleftrightarrow> rv_kind e = Call"
  by (auto simp: edge_typed_def is_call_bucket_def)

text \<open>C20. Typing of the staged graph: the stage keeps the graph well typed. Every staged edge runs between chunks of the run (no
  dangling end, also for inherited and structural edges), calls carry no kind label while references, implementations, routes
  and HTTP calls always do, and every symbol import names a chunk of the run.\<close>

theorem stage6_graph_typed:
  assumes "fair_walks w" and "graph_typed (ce_id ` set source) graph"
  shows "graph_typed (ce_id ` set source) (stage6_call_edges w s5 source final_modules graph)"
proof -
  let ?ids = "ce_id ` set source"
  have edges: "edge_typed ?ids e" if "e \<in> set (stage6_edges (sw_dedup w) s5 source final_modules)" for e
    using that assms(1) by (intro stage6_edges_typed [where walk = "sw_dedup w"]) (auto simp: fair_walks_def)
  note typed = to_ingest_edge_typed [OF edges] is_call_bucket_typed [OF edges]
  have structural: "edge_typed ?ids (structural_edge p) \<and> rv_kind (structural_edge p) = Implements"
    if "p \<in> set (go_structural_implements (sw_alphanumeric w) (sw_packages w) (sw_receivers w) (go_rows source))" for p
  proof
    show "edge_typed ?ids (structural_edge p)"
      using assms(1) by (intro structural_edge_typed [OF _ _ that]) (auto simp: fair_walks_def)
    show "rv_kind (structural_edge p) = Implements" by (simp add: structural_edge_def split_beta)
  qed
  have symbols: "snd s \<in> ?ids"
    if "s \<in> set (snd (resolve_modules s5 (build_from (map row_of_entry source)) final_modules))" for s
    using resolve_modules_typed [of "map row_of_entry source" s5 final_modules] that by (auto simp: pass_typed_def image_image row_of_entry_def)
  show ?thesis
    using assms(2) typed symbols structural to_ingest_edge_typed [of ?ids]
    by (auto simp: graph_typed_def stage6_call_edges_def Let_def)
qed

text \<open>C21. One CALLS edge per pair: among the calls the stage adds no two run between the same chunks, whether resolved by the cascade or
  inherited, so the graph writer's merge never overwrites one with another; and for every call the cascade resolved there is an
  edge between the same chunks with at least its confidence.\<close>

theorem stage6_calls_unique:
  assumes "fair_walks w"
  shows "\<exists>new. calls_edges (stage6_call_edges w s5 source final_modules graph) = calls_edges graph @ new \<and>
    distinct (map (\<lambda>e. (ie_src e, ie_tgt e)) new) \<and>
    (\<forall>r \<in> set (fst (fst (resolve_modules s5 (build_from (map row_of_entry source)) final_modules))). rv_kind r = Call \<longrightarrow>
       (\<exists>e \<in> set new. ie_src e = rv_src r \<and> ie_tgt e = rv_tgt r \<and> rv_confidence r \<le> ie_confidence e))"
proof -
  obtain resolved dropped symbols where run: "resolve_modules s5 (build_from (map row_of_entry source)) final_modules
      = ((resolved, dropped), symbols)"
    by (metis prod.collapse)
  let ?edges = "stage6_edges (sw_dedup w) s5 source final_modules"
  let ?dedup = "dedup_edges (sw_dedup w) resolved"
  let ?new = "map to_ingest_edge (filter (\<lambda>e. rv_kind e = Call) ?edges)"
  have walk: "\<And>xs. mset (sw_dedup w xs) = mset xs" using assms by (simp add: fair_walks_def)
  have "edge_typed (ce_id ` set source) e" if "e \<in> set ?edges" for e
    using stage6_edges_typed [OF walk that] .
  then have "filter (\<lambda>e. is_call_bucket (rv_kind e)) ?edges = filter (\<lambda>e. rv_kind e = Call) ?edges"
    by (intro filter_cong refl) (rule is_call_bucket_typed)
  then have calls: "calls_edges (stage6_call_edges w s5 source final_modules graph) = calls_edges graph @ ?new"
    by (simp add: stage6_call_edges_def Let_def)
  have edges: "?edges = add_inherited (aux_maps source) dropped ?dedup" by (simp add: stage6_edges_def run)
  have "\<forall>e \<in> set resolved. edge_typed (ce_id ` set source) e"
    using resolve_modules_typed [of "map row_of_entry source" s5 final_modules] by (simp add: run pass_typed_def work_typed_def image_image row_of_entry_def)
  then have "edge_typed (ce_id ` set source) e" if "e \<in> set ?dedup" for e
    using dedup_edges_best(1) [OF walk that] by (simp add: best_of_def)
  from add_inherited_calls [OF dedup_edges_distinct [OF walk] this]
  have unique: "distinct (map (\<lambda>e. (ie_src e, ie_tgt e)) ?new)" by (simp add: edges to_ingest_edge_def o_def)
  have "\<exists>e \<in> set ?new. ie_src e = rv_src r \<and> ie_tgt e = rv_tgt r \<and> rv_confidence r \<le> ie_confidence e"
    if r: "r \<in> set resolved" "rv_kind r = Call" for r
  proof -
    obtain e where e: "e \<in> set ?dedup" "dedup_key e = dedup_key r" "rv_confidence r \<le> rv_confidence e"
      using dedup_edges_best(2) [OF walk r(1)] by blast
    then have "to_ingest_edge e \<in> set ?new" using r(2) by (auto simp: edges add_inherited_def dedup_key_def)
    with e show ?thesis by (intro bexI [of _ "to_ingest_edge e"]) (simp_all add: to_ingest_edge_def dedup_key_def)
  qed
  with calls unique show ?thesis unfolding run fst_conv by blast
qed

section \<open>The source of a located edge\<close>

lemma find_sorted_least:
  "sorted (map f xs) \<Longrightarrow> List.find P xs = Some x \<Longrightarrow> y \<in> set xs \<Longrightarrow> P y \<Longrightarrow> f x \<le> f y"
  by (induction xs) (auto split: if_splits)

definition candidate :: "raw_chunk \<Rightarrow> nat \<Rightarrow> bool" where
  "candidate c start \<longleftrightarrow> rc_chunk_type c \<noteq> ''http_call'' \<and> rc_start_byte c \<le> start \<and> start < rc_end_byte c"

definition row_for :: "chunk_index_row list \<Rightarrow> string \<Rightarrow> raw_chunk \<Rightarrow> uuid option" where
  "row_for rows m c = map_option ir_id (final (filter (located m (rc_name c)) rows))"

lemma set_chunk_spans:
  "(s, e, i) \<in> set (chunk_spans (build_from rows) m pf) \<longleftrightarrow>
     (\<exists>c \<in> set (pf_chunks pf). rc_chunk_type c \<noteq> ''http_call'' \<and> s = rc_start_byte c \<and> e = rc_end_byte c \<and> row_for rows m c = Some i)"
  by (auto simp: chunk_spans_def set_map_filter row_for_def build_by_path)

text \<open>The source of a located edge is the narrowest enclosing chunk: a call, reference, route or HTTP call at a byte offset is
  attributed to a chunk of the file that contains the offset, is no HTTP call site and is known to the index, and no such chunk is
  narrower; the identifier is that of the last row of the module with the name of the chunk. No source is found exactly when no
  such chunk is.\<close>

theorem located_source_narrowest:
  "case enclosing_chunk (chunk_spans (build_from rows) m pf) start of
     None \<Rightarrow> \<forall>c \<in> set (pf_chunks pf). candidate c start \<longrightarrow> row_for rows m c = None
   | Some i \<Rightarrow> \<exists>c \<in> set (pf_chunks pf). candidate c start \<and> row_for rows m c = Some i \<and>
       (\<forall>d \<in> set (pf_chunks pf). candidate d start \<longrightarrow> row_for rows m d \<noteq> None \<longrightarrow>
          rc_end_byte c - rc_start_byte c \<le> rc_end_byte d - rc_start_byte d)"
proof -
  let ?spans = "chunk_spans (build_from rows) m pf"
  let ?hit = "\<lambda>(s, e, i :: uuid). s \<le> start \<and> start < e"
  have span: "\<exists>i. (rc_start_byte d, rc_end_byte d, i) \<in> set ?spans"
    if "d \<in> set (pf_chunks pf)" "candidate d start" "row_for rows m d \<noteq> None" for d
    using that by (auto simp: set_chunk_spans candidate_def)
  show ?thesis
  proof (cases "List.find ?hit ?spans")
    case None
    then have "\<forall>x \<in> set ?spans. \<not> ?hit x" unfolding find_None_iff by blast
    with None span show ?thesis by (fastforce simp: enclosing_chunk_def candidate_def)
  next
    case (Some x)
    obtain s e i where x: "x = (s, e, i)" by (cases x)
    have hit: "(s, e, i) \<in> set ?spans" "s \<le> start" "start < e"
      using fetch_optional_Some [unfolded fetch_optional_def, OF Some] by (simp_all add: x)
    then obtain c where c: "c \<in> set (pf_chunks pf)" "candidate c start" "s = rc_start_byte c" "e = rc_end_byte c" "row_for rows m c = Some i"
      by (auto simp: set_chunk_spans candidate_def)
    have "sorted (map (\<lambda>(s, e, _). e - s) ?spans)" by (simp add: chunk_spans_def)
    from find_sorted_least [OF this Some] have least: "e - s \<le> e' - s'" if "(s', e', j) \<in> set ?spans" "s' \<le> start" "start < e'" for s' e' j
      using that by (fastforce simp: x)
    have "rc_end_byte c - rc_start_byte c \<le> rc_end_byte d - rc_start_byte d"
      if "d \<in> set (pf_chunks pf)" "candidate d start" "row_for rows m d \<noteq> None" for d
      using span [OF that] least that(2) c(3,4) by (auto simp: candidate_def)
    with c Some show ?thesis by (auto simp: enclosing_chunk_def x)
  qed
qed

section \<open>Concrete runs\<close>

definition demo_entry :: "uuid \<Rightarrow> string \<Rightarrow> string \<Rightarrow> string \<Rightarrow> string option \<Rightarrow> chunk_index_entry" where
  "demo_entry i nm m ct parent =
     \<lparr>ce_id = i, ce_name = nm, ce_module_path = m, ce_fqn = Some nm, ce_parent_fqn = parent, ce_signature = None,
      ce_chunk_type = ct, ce_content = [], ce_language = Some ''rust''\<rparr>"

definition demo_raw_edge :: "edge_kind \<Rightarrow> edge_endpoint \<Rightarrow> string \<Rightarrow> unit raw_edge" where
  "demo_raw_edge k src tgt =
     \<lparr>re_source = src, re_target = Name tgt None, re_kind = k, re_provenance = Static, re_line = None, re_metadata = Map.empty\<rparr>"

definition demo_stage5 :: stage5_output where
  "demo_stage5 = \<lparr>import_target_map = Map.empty, imported_by_module = Map.empty\<rparr>"

definition empty_graph :: graph_edges where
  "empty_graph =
     \<lparr>calls_edges = [], reference_edges = [], implements_edges = [], routes_to_edges = [], http_call_edges = [],
      symbol_import_edges = []\<rparr>"

definition demo_walks :: "dedup_walk \<Rightarrow> stage_walks" where
  "demo_walks walk = \<lparr>sw_dedup = walk, sw_alphanumeric = (\<lambda>_. True), sw_packages = id, sw_receivers = id\<rparr>"

text \<open>\<open>Sub\<close> implements \<open>A\<close> and \<open>B\<close>, both of which define \<open>greet\<close>; a method of \<open>Sub\<close> calls \<open>greet\<close>.\<close>

definition diamond_source :: "chunk_index_entry list" where
  "diamond_source =
    [demo_entry 1 ''Sub'' ''m'' ''struct'' None, demo_entry 2 ''A'' ''a'' ''trait'' None, demo_entry 3 ''B'' ''b'' ''trait'' None,
     demo_entry 4 ''greet'' ''a'' ''method'' (Some ''A''), demo_entry 5 ''greet'' ''b'' ''method'' (Some ''B''),
     demo_entry 6 ''run'' ''m'' ''method'' (Some ''Sub'')]"

definition diamond_modules :: "(string \<times> unit parsed_file list) list" where
  "diamond_modules =
    [(''m'', [\<lparr>pf_chunks = [\<lparr>rc_chunk_type = ''method'', rc_name = ''run'', rc_start_byte = 0, rc_end_byte = 10\<rparr>],
               pf_edges = [demo_raw_edge Implements (Name ''Sub'' None) ''A'', demo_raw_edge Implements (Name ''Sub'' None) ''B'',
                           demo_raw_edge Call (Byte_range 3 8) ''greet'']\<rparr>])]"

lemma diamond_run:
  "calls_edges (stage6_call_edges (demo_walks id) demo_stage5 diamond_source diamond_modules empty_graph)
     = [\<lparr>ie_src = 6, ie_tgt = 4, ie_confidence = 90, ie_method = ''inherited'', ie_ref_kind = None\<rparr>]"
  "calls_edges (stage6_call_edges (demo_walks rev) demo_stage5 diamond_source diamond_modules empty_graph)
     = [\<lparr>ie_src = 6, ie_tgt = 5, ie_confidence = 90, ie_method = ''inherited'', ie_ref_kind = None\<rparr>]"
  by code_simp+

text \<open>Two methods \<open>new\<close> of one module; the call stands in the first.\<close>

definition twins_source :: "chunk_index_entry list" where
  "twins_source =
    [demo_entry 1 ''new'' ''m'' ''method'' (Some ''A''), demo_entry 2 ''new'' ''m'' ''method'' (Some ''B''),
     demo_entry 3 ''helper'' ''m'' ''function'' None]"

definition twins_modules :: "(string \<times> unit parsed_file list) list" where
  "twins_modules =
    [(''m'', [\<lparr>pf_chunks = [\<lparr>rc_chunk_type = ''method'', rc_name = ''new'', rc_start_byte = 0, rc_end_byte = 10\<rparr>,
                            \<lparr>rc_chunk_type = ''method'', rc_name = ''new'', rc_start_byte = 20, rc_end_byte = 30\<rparr>],
               pf_edges = [demo_raw_edge Call (Byte_range 3 8) ''helper'']\<rparr>])]"

lemma same_name_attribution:
  "calls_edges (stage6_call_edges (demo_walks id) demo_stage5 twins_source twins_modules empty_graph)
     = [\<lparr>ie_src = 2, ie_tgt = 3, ie_confidence = 80, ie_method = ''same_file'', ie_ref_kind = None\<rparr>]"
  by code_simp

text \<open>The inherited target depends on the hash seed: when two supertypes at the same distance define the called method, the same run
  binds the call to either of them, according to the order in which the deduplication table is walked.\<close>

theorem inherited_target_depends_on_hash_order:
  "\<exists>walk1 walk2. fair_walks (demo_walks walk1) \<and> fair_walks (demo_walks walk2) \<and>
     map ie_tgt (calls_edges (stage6_call_edges (demo_walks walk1) demo_stage5 diamond_source diamond_modules empty_graph)) = [4] \<and>
     map ie_tgt (calls_edges (stage6_call_edges (demo_walks walk2) demo_stage5 diamond_source diamond_modules empty_graph)) = [5]"
proof (intro exI conjI)
  show "fair_walks (demo_walks id)" "fair_walks (demo_walks rev)" by (simp_all add: fair_walks_def demo_walks_def)
qed (simp_all add: diamond_run)

theorem stage6_graph_typed_witness:
  "graph_typed (ce_id ` set diamond_source) (stage6_call_edges (demo_walks rev) demo_stage5 diamond_source diamond_modules empty_graph)"
  by (rule stage6_graph_typed) (simp_all add: fair_walks_def demo_walks_def graph_typed_def empty_graph_def)

theorem stage6_calls_unique_witness:
  "(\<exists>new. [\<lparr>ie_src = 6, ie_tgt = 5, ie_confidence = 90, ie_method = ''inherited'', ie_ref_kind = None\<rparr>] = calls_edges empty_graph @ new \<and>
      distinct (map (\<lambda>e. (ie_src e, ie_tgt e)) new))"
proof -
  have "fair_walks (demo_walks rev)" by (simp add: fair_walks_def demo_walks_def)
  from stage6_calls_unique [OF this, of demo_stage5 diamond_source diamond_modules empty_graph]
  show ?thesis unfolding diamond_run(2) by blast
qed

theorem located_source_narrowest_witness:
  "\<exists>c \<in> set [\<lparr>rc_chunk_type = ''method'', rc_name = ''run'', rc_start_byte = 0, rc_end_byte = 10\<rparr>].
     candidate c 3 \<and> row_for (map row_of_entry diamond_source) ''m'' c = Some 6"
proof -
  let ?pf = "\<lparr>pf_chunks = [\<lparr>rc_chunk_type = ''method'', rc_name = ''run'', rc_start_byte = 0, rc_end_byte = 10\<rparr>], pf_edges = []\<rparr> :: unit parsed_file"
  have "enclosing_chunk (chunk_spans (build_from (map row_of_entry diamond_source)) ''m'' ?pf) 3 = Some 6" by code_simp
  with located_source_narrowest [where rows = "map row_of_entry diamond_source" and m = "''m''" and pf = ?pf and start = 3] show ?thesis by auto
qed

end
