(* ===== verification/Corpus_Contract.thy ===== *)
theory Corpus_Contract
  imports Rust_Text "HOL-Library.Product_Lexorder"
begin

text \<open>
  Validation of a documentation corpus (\<open>akashic-domain/src/algos/corpus_contract.rs\<close>): version headers, heading slugs, the navigation
  page, code masking, relative links and the link check.

  The regular expressions are run by the \<open>regex\<close> crate; what each of them captures from a text is a field of \<open>captures\<close>, as are
  the Unicode tables behind \<open>to_lowercase\<close> and \<open>is_alphanumeric\<close>. A \<open>BTreeMap\<close> is the list of its entries in ascending order of the
  keys. Offsets count bytes.
\<close>

section \<open>What is matched\<close>

datatype version_part = MAJOR | MINOR | PATCH

record captures =
  cp_version :: "string \<Rightarrow> (version_part \<times> string) list"
  cp_nav_page :: "string \<Rightarrow> (string \<times> string \<times> string option) option"
  cp_link :: "string \<Rightarrow> (nat \<times> string) list"
  cp_heading :: "string \<Rightarrow> string list"
  cp_inline_code :: "string \<Rightarrow> (nat \<times> nat) list"
  cp_lowercase :: "string \<Rightarrow> string"
  cp_alphanumeric :: "string \<Rightarrow> bool"

datatype finding_severity = Error_severity | Warn_severity

record contract_finding =
  cf_rule :: string
  cf_file :: string
  cf_line :: "nat option"
  cf_detail :: string
  cf_severity :: finding_severity

record nav_page =
  np_title :: string
  np_path :: string
  np_description :: string

record nav_group =
  ng_title :: string
  ng_pages :: "nav_page list"

record nav_tree =
  nt_description :: string
  nt_groups :: "nav_group list"

section \<open>Version headers\<close>

definition parse_u32 :: "string \<Rightarrow> nat option" where
  "parse_u32 s =
     (let digits = (case s of c # cs \<Rightarrow> if c = CHR ''+'' \<and> cs \<noteq> [] then cs else s | [] \<Rightarrow> s)
      in case parse_digits digits of
           None \<Rightarrow> None
         | Some n \<Rightarrow> if n < 2 ^ 32 then Some n else None)"

fun version_loop ::
  "(version_part \<times> string) list \<Rightarrow> nat option \<times> nat option \<times> nat option \<Rightarrow> (nat option \<times> nat option \<times> nat option) option" where
  "version_loop [] st = Some st"
| "version_loop ((part, digits) # caps) (major, minor, patch) =
     (case parse_u32 digits of
        None \<Rightarrow> None
      | Some v \<Rightarrow>
          version_loop caps
            (case part of MAJOR \<Rightarrow> (Some v, minor, patch) | MINOR \<Rightarrow> (major, Some v, patch) | PATCH \<Rightarrow> (major, minor, Some v)))"

definition parse_version_header :: "captures \<Rightarrow> string \<Rightarrow> (nat \<times> nat \<times> nat) option" where
  "parse_version_header cp text =
     (case version_loop (cp_version cp text) (None, None, None) of
        Some (Some major, Some minor, Some patch) \<Rightarrow> Some (major, minor, patch)
      | _ \<Rightarrow> None)"

section \<open>Heading slugs\<close>

definition is_slug_stripped_punctuation :: "captures \<Rightarrow> string \<Rightarrow> bool" where
  "is_slug_stripped_punctuation cp c \<longleftrightarrow> c \<noteq> '' '' \<and> c \<noteq> ''-'' \<and> c \<noteq> ''_'' \<and> \<not> cp_alphanumeric cp c"

definition github_slug :: "captures \<Rightarrow> string \<Rightarrow> string" where
  "github_slug cp heading =
     concat (map (\<lambda>c. if c = '' '' then ''-'' else c)
       (filter (\<lambda>c. \<not> is_slug_stripped_punctuation cp c) (utf8_chars (cp_lowercase cp heading))))"

type_synonym slug_counter = "string \<rightharpoonup> nat"

definition slug_step :: "captures \<Rightarrow> slug_counter \<Rightarrow> string \<Rightarrow> string \<times> slug_counter" where
  "slug_step cp seen heading =
     (let base = github_slug cp heading;
          occurrence = (case seen base of None \<Rightarrow> 0 | Some n \<Rightarrow> n)
      in (if occurrence = 0 then base else base @ ''-'' @ dec_of_nat occurrence, seen(base \<mapsto> occurrence + 1)))"

fun slug_all :: "captures \<Rightarrow> slug_counter \<Rightarrow> string list \<Rightarrow> string list" where
  "slug_all cp seen [] = []"
| "slug_all cp seen (h # hs) = fst (slug_step cp seen h) # slug_all cp (snd (slug_step cp seen h)) hs"

definition heading_slugs :: "captures \<Rightarrow> string \<Rightarrow> string set" where
  "heading_slugs cp content = set (slug_all cp Map.empty (map trim (cp_heading cp content)))"

section \<open>The navigation page\<close>

fun split_inclusive :: "char \<Rightarrow> string \<Rightarrow> string list" where
  "split_inclusive c [] = []"
| "split_inclusive c (x # xs) =
     (if x = c then [x] # split_inclusive c xs
      else case split_inclusive c xs of [] \<Rightarrow> [[x]] | p # ps \<Rightarrow> (x # p) # ps)"

fun find_line :: "nat \<Rightarrow> string list \<Rightarrow> string \<Rightarrow> nat option" where
  "find_line offset [] target = None"
| "find_line offset (line # ls) target =
     (if trim (trim_end_matches CHR 0x0A line) = target then Some offset
      else find_line (offset + length line) ls target)"

definition find_line_start :: "string \<Rightarrow> string \<Rightarrow> nat option" where
  "find_line_start text target = find_line 0 (split_inclusive CHR 0x0A text) target"

fun lede_lines :: "bool \<Rightarrow> string list \<Rightarrow> string list" where
  "lede_lines collecting [] = []"
| "lede_lines collecting (line # ls) =
     (let trimmed = trim line in
      if trimmed = [] then (if collecting then [] else lede_lines collecting ls)
      else if starts_with ''# '' trimmed \<or> starts_with ''**Language:**'' trimmed then lede_lines collecting ls
      else trimmed # lede_lines True ls)"

definition extract_lede_description :: "string \<Rightarrow> string" where
  "extract_lede_description pre_text =
     (let para_lines = lede_lines False (text_lines pre_text) in
      if para_lines = [] then []
      else
        let joined = join_with '' '' para_lines
        in case strip_prefix ''> '' joined of Some s \<Rightarrow> s | None \<Rightarrow> joined)"

definition nav_page_of :: "string \<times> string \<times> string option \<Rightarrow> nav_page" where
  "nav_page_of = (\<lambda>(title, path, description).
     \<lparr>np_title = title, np_path = path, np_description = (case description of None \<Rightarrow> [] | Some d \<Rightarrow> trim d)\<rparr>)"

definition flush_group :: "nav_group list \<Rightarrow> nav_group option \<Rightarrow> nav_group list" where
  "flush_group groups current = (case current of None \<Rightarrow> groups | Some g \<Rightarrow> groups @ [g])"

fun nav_lines :: "captures \<Rightarrow> string list \<Rightarrow> nav_group list \<Rightarrow> nav_group option \<Rightarrow> nav_group list" where
  "nav_lines cp [] groups current = flush_group groups current"
| "nav_lines cp (line # ls) groups current =
     (let trimmed = trim line in
      if starts_with ''## '' trimmed then flush_group groups current
      else case strip_prefix ''### '' trimmed of
             Some title \<Rightarrow> nav_lines cp ls (flush_group groups current) (Some \<lparr>ng_title = trim title, ng_pages = []\<rparr>)
           | None \<Rightarrow>
               (case cp_nav_page cp trimmed of
                  Some caps \<Rightarrow>
                    nav_lines cp ls groups (map_option (\<lambda>g. g\<lparr>ng_pages := ng_pages g @ [nav_page_of caps]\<rparr>) current)
                | None \<Rightarrow> nav_lines cp ls groups current))"

definition all_pages_heading :: string where
  "all_pages_heading = ''## All pages''"

definition parse_nav :: "captures \<Rightarrow> string \<Rightarrow> contract_finding + nav_tree" where
  "parse_nav cp index_md =
     (case find_line_start index_md all_pages_heading of
        None \<Rightarrow> Inl \<lparr>cf_rule = ''nav_missing'', cf_file = ''index.md'', cf_line = None,
                     cf_detail = ''no \"## All pages\" section found in index'', cf_severity = Error_severity\<rparr>
      | Some marker_start \<Rightarrow>
          Inr \<lparr>nt_description = extract_lede_description (take marker_start index_md),
               nt_groups = nav_lines cp (drop 1 (text_lines (drop marker_start index_md))) [] None\<rparr>)"

section \<open>Code masking\<close>

text \<open>The length of the leading run of a fence character and what follows it, for a line that is indented by at most three bytes.\<close>

definition fence_marker :: "string \<Rightarrow> (char \<times> nat \<times> string) option" where
  "fence_marker line =
     (let trimmed = trim_start line;
          indent = length line - length trimmed;
          marker = trim_end (trim_end_matches CHR 0x0A trimmed)
      in case marker of
           [] \<Rightarrow> None
         | c # _ \<Rightarrow>
             let run_len = length (takeWhile (\<lambda>x. x = c) marker)
             in if indent \<le> 3 \<and> (c = CHR 0x60 \<or> c = CHR ''~'') \<and> 3 \<le> run_len then Some (c, run_len, drop run_len marker) else None)"

definition fence_step ::
  "nat \<Rightarrow> string \<Rightarrow> (nat \<times> nat) list \<times> (nat \<times> char \<times> nat) option \<Rightarrow> (nat \<times> nat) list \<times> (nat \<times> char \<times> nat) option" where
  "fence_step offset line = (\<lambda>(ranges, fence_open).
     case fence_marker line of
       None \<Rightarrow> (ranges, fence_open)
     | Some (c, run_len, info) \<Rightarrow>
         (case fence_open of
            None \<Rightarrow> (ranges, Some (offset, c, run_len))
          | Some (start, open_char, open_len) \<Rightarrow>
              if c = open_char \<and> open_len \<le> run_len \<and> trim info = [] then (ranges @ [(start, offset + length line)], None)
              else (ranges, fence_open)))"

fun fence_lines ::
  "nat \<Rightarrow> string list \<Rightarrow> (nat \<times> nat) list \<times> (nat \<times> char \<times> nat) option \<Rightarrow> (nat \<times> nat) list \<times> (nat \<times> char \<times> nat) option" where
  "fence_lines offset [] st = st"
| "fence_lines offset (line # ls) st = fence_lines (offset + length line) ls (fence_step offset line st)"

definition fenced_ranges :: "string \<Rightarrow> (nat \<times> nat) list" where
  "fenced_ranges content =
     (let (ranges, fence_open) = fence_lines 0 (split_inclusive CHR 0x0A content) ([], None)
      in case fence_open of None \<Rightarrow> ranges | Some (start, _) \<Rightarrow> ranges @ [(start, length content)])"

definition masked_code_ranges :: "captures \<Rightarrow> string \<Rightarrow> (nat \<times> nat) list" where
  "masked_code_ranges cp content = sort (fenced_ranges content @ cp_inline_code cp content)"

definition in_masked_range :: "(nat \<times> nat) list \<Rightarrow> nat \<Rightarrow> bool" where
  "in_masked_range ranges pos \<longleftrightarrow> (\<exists>(s, e) \<in> set ranges. s \<le> pos \<and> pos < e)"

section \<open>Paths\<close>

definition is_external_link :: "string \<Rightarrow> bool" where
  "is_external_link target \<longleftrightarrow>
     starts_with ''http://'' target \<or> starts_with ''https://'' target \<or> starts_with ''mailto:'' target"

text \<open>The count is clamped to \<open>u32::MAX\<close> before 1 is added; no text in memory is long enough for the sum to overflow.\<close>

definition line_number_at :: "string \<Rightarrow> nat \<Rightarrow> nat" where
  "line_number_at text byte_offset = min (length (filter (\<lambda>c. c = CHR 0x0A) (take byte_offset text))) (2 ^ 32 - 1) + 1"

definition file_dir :: "string \<Rightarrow> string" where
  "file_dir file_path = (case dropWhile (\<lambda>c. c \<noteq> CHR ''/'') (rev file_path) of [] \<Rightarrow> [] | _ # r \<Rightarrow> rev r)"

definition path_has_dir_prefix :: "string \<Rightarrow> string \<Rightarrow> bool" where
  "path_has_dir_prefix path prefix \<longleftrightarrow>
     prefix = [] \<or> path = prefix \<or> (case strip_prefix prefix path of None \<Rightarrow> False | Some after \<Rightarrow> starts_with ''/'' after)"

fun resolve_parts :: "string list \<Rightarrow> bool \<Rightarrow> string list \<Rightarrow> string list \<times> bool" where
  "resolve_parts segments underflowed [] = (segments, underflowed)"
| "resolve_parts segments underflowed (part # parts) =
     (if part = [] \<or> part = ''.'' then resolve_parts segments underflowed parts
      else if part = ''..'' then
        (if segments = [] then resolve_parts [] True parts else resolve_parts (butlast segments) underflowed parts)
      else resolve_parts (segments @ [part]) underflowed parts)"

definition resolve_relative_path :: "string \<Rightarrow> string \<Rightarrow> string \<times> bool" where
  "resolve_relative_path base_dir target_path =
     (let (segments, underflowed) =
        resolve_parts (if base_dir = [] then [] else split_char CHR ''/'' base_dir) False (split_char CHR ''/'' target_path)
      in (join_with ''/'' segments, underflowed))"

definition resolve_nav_path :: "string \<Rightarrow> string \<Rightarrow> string" where
  "resolve_nav_path index_path nav_path = fst (resolve_relative_path (file_dir index_path) nav_path)"

definition resolve_nav_tree :: "nav_tree \<Rightarrow> string \<Rightarrow> nav_tree" where
  "resolve_nav_tree nav index_path =
     \<lparr>nt_description = nt_description nav,
      nt_groups = map (\<lambda>g. \<lparr>ng_title = ng_title g,
        ng_pages = map (\<lambda>p. \<lparr>np_title = np_title p, np_path = resolve_nav_path index_path (np_path p),
                             np_description = np_description p\<rparr>) (ng_pages g)\<rparr>) (nt_groups nav)\<rparr>"

section \<open>The link check\<close>

definition escaped_corpus_root :: "string \<Rightarrow> string \<times> bool \<Rightarrow> bool" where
  "escaped_corpus_root prefix = (\<lambda>(resolved, underflowed).
     if prefix = [] then underflowed else \<not> path_has_dir_prefix resolved prefix)"

definition split_anchor :: "string \<Rightarrow> string \<times> string option" where
  "split_anchor target = (case split_once CHR ''#'' target of Some (p, a) \<Rightarrow> (p, Some a) | None \<Rightarrow> (target, None))"

definition check_link ::
  "captures \<Rightarrow> (string \<rightharpoonup> string) \<Rightarrow> string \<Rightarrow> string \<Rightarrow> string \<Rightarrow> nat \<times> string \<Rightarrow> contract_finding list" where
  "check_link cp files prefix file content = (\<lambda>(start, target).
     if in_masked_range (masked_code_ranges cp content) start then []
     else if is_external_link target then []
     else
       let (path_part, anchor) = split_anchor target;
           line = line_number_at content start;
           place = (if path_part = [] then (file, False) else resolve_relative_path (file_dir file) path_part)
       in if escaped_corpus_root prefix place then []
          else case files (fst place) of
                 None \<Rightarrow> [\<lparr>cf_rule = ''broken_link'', cf_file = file, cf_line = Some line,
                          cf_detail = ''link target \"'' @ target @ ''\" does not resolve to a known file'',
                          cf_severity = Error_severity\<rparr>]
               | Some target_content \<Rightarrow>
                   (case anchor of
                      Some a \<Rightarrow>
                        if a \<noteq> [] \<and> a \<notin> heading_slugs cp target_content
                        then [\<lparr>cf_rule = ''broken_anchor'', cf_file = file, cf_line = Some line,
                               cf_detail = ''anchor \"#'' @ a @ ''\" not found in \"'' @ fst place @ ''\"'',
                               cf_severity = Error_severity\<rparr>]
                        else []
                    | None \<Rightarrow> []))"

definition reachable_pages :: "nav_tree \<Rightarrow> string \<Rightarrow> string set" where
  "reachable_pages nav index_path =
     set (concat (map (\<lambda>g. map (\<lambda>p. fst (resolve_relative_path (file_dir index_path) (np_path p))) (ng_pages g)) (nt_groups nav)))"

definition check_links :: "captures \<Rightarrow> (string \<times> string) list \<Rightarrow> nav_tree \<Rightarrow> string \<Rightarrow> contract_finding list" where
  "check_links cp files nav index_path =
     (let reachable = reachable_pages nav index_path;
          prefix = file_dir index_path
      in concat (map (\<lambda>(file, content). concat (map (check_link cp (map_of files) prefix file content) (cp_link cp content))) files)
         @ List.map_filter (\<lambda>(file, _).
             if file = index_path \<or> \<not> ends_with ''.md'' file \<or> file \<in> reachable then None
             else Some \<lparr>cf_rule = ''orphan_page'', cf_file = file, cf_line = None,
                        cf_detail = ''page is not reachable from any nav group'', cf_severity = Warn_severity\<rparr>) files)"

section \<open>Relative paths\<close>

definition clean_segment :: "string \<Rightarrow> bool" where
  "clean_segment s \<longleftrightarrow> s \<noteq> [] \<and> s \<noteq> ''.'' \<and> s \<noteq> ''..'' \<and> CHR ''/'' \<notin> set s"

lemma split_join: "xs \<noteq> [] \<Longrightarrow> (\<And>x. x \<in> set xs \<Longrightarrow> c \<notin> set x) \<Longrightarrow> split_char c (join_with [c] xs) = xs"
  by (induction "[c]" xs rule: join_with.induct) (simp_all add: split_char_sep)

lemma resolve_parts_append:
  "resolve_parts segs u (xs @ ys) = (case resolve_parts segs u xs of (segs', u') \<Rightarrow> resolve_parts segs' u' ys)"
  by (induction segs u xs rule: resolve_parts.induct) simp_all

lemma resolve_parts_clean: "list_all clean_segment xs \<Longrightarrow> resolve_parts segs u xs = (segs @ xs, u)"
  by (induction xs arbitrary: segs) (simp_all add: clean_segment_def)

lemma resolve_parts_up: "resolve_parts (c @ a) u (replicate (length a) ''..'') = (c, u)"
  by (induction a rule: rev_induct) (simp_all add: butlast_append)

lemma join_clean_Nil: "list_all clean_segment xs \<Longrightarrow> join_with ''/'' xs = [] \<longleftrightarrow> xs = []"
  by (induction "''/''" xs rule: join_with.induct) (simp_all add: clean_segment_def)

lemma split_path:
  assumes "list_all clean_segment xs"
  shows "(if join_with ''/'' xs = [] then [] else split_char CHR ''/'' (join_with ''/'' xs)) = xs"
  using split_join [of xs "CHR ''/''"] assms by (auto simp: join_clean_Nil list_all_iff clean_segment_def)

text \<open>The relative path of one file from the directory of another: up to a common directory and down again.\<close>

definition relative_path :: "string list \<Rightarrow> string list \<Rightarrow> string" where
  "relative_path up down = join_with ''/'' (replicate (length up) ''..'' @ down)"

lemma resolve_parts_split_join:
  assumes "\<And>x. x \<in> set xs \<Longrightarrow> CHR ''/'' \<notin> set x"
  shows "resolve_parts segs u (split_char CHR ''/'' (join_with ''/'' xs)) = resolve_parts segs u xs"
  using split_join [of xs "CHR ''/''"] assms by (cases "xs = []") auto

lemma relative_link_resolves:
  assumes "list_all clean_segment (common @ up)" and "list_all clean_segment down"
  shows "resolve_relative_path (join_with ''/'' (common @ up)) (relative_path up down) = (join_with ''/'' (common @ down), False)"
proof -
  have slash: "CHR ''/'' \<notin> set x" if "x \<in> set (replicate (length up) ''..'' @ down)" for x
  proof (cases "x \<in> set down")
    case True
    with assms(2) have "clean_segment x" by (simp add: list_all_iff)
    then show ?thesis by (simp add: clean_segment_def)
  next
    case False
    with that have "x = ''..''" by simp
    then show ?thesis by simp
  qed
  have "resolve_parts (common @ up) False (replicate (length up) ''..'' @ down) = (common @ down, False)"
    by (simp add: resolve_parts_append resolve_parts_up resolve_parts_clean [OF assms(2)])
  then have "resolve_parts (common @ up) False (split_char CHR ''/'' (relative_path up down)) = (common @ down, False)"
    unfolding relative_path_def by (simp only: resolve_parts_split_join [OF slash])
  then show ?thesis by (simp only: resolve_relative_path_def split_path [OF assms(1)] Let_def prod.case)
qed

text \<open>Relative links find their target: from the directory \<open>common/up\<close>, the relative path that climbs \<open>up\<close> and descends \<open>down\<close> resolves
  to \<open>common/down\<close> without leaving the root, for every choice of the common directory.\<close>

theorem relative_link_roundtrip:
  assumes "list_all clean_segment (common @ up)" and "list_all clean_segment down"
  shows "resolve_relative_path (join_with ''/'' (common @ up)) (relative_path up down) = (join_with ''/'' (common @ down), False)"
  using assms by (rule relative_link_resolves)

theorem relative_link_roundtrip_witness:
  "resolve_relative_path ''docs/guide'' ''../api/x.md'' = (''docs/api/x.md'', False)"
  using relative_link_roundtrip [of "[''docs'']" "[''guide'']" "[''api'', ''x.md'']"]
  by (simp add: clean_segment_def relative_path_def)

section \<open>Fences\<close>

text \<open>Line by line: whether the line holds code, given the fence that is open, and the fence open after it.\<close>

definition fence_line :: "(char \<times> nat) option \<Rightarrow> string \<Rightarrow> bool \<times> (char \<times> nat) option" where
  "fence_line st line =
     (case fence_marker line of
        None \<Rightarrow> (st \<noteq> None, st)
      | Some (c, n, info) \<Rightarrow>
          (case st of
             None \<Rightarrow> (True, Some (c, n))
           | Some (open_char, open_len) \<Rightarrow>
               (True, if c = open_char \<and> open_len \<le> n \<and> trim info = [] then None else st)))"

fun code_at :: "nat \<Rightarrow> (char \<times> nat) option \<Rightarrow> string list \<Rightarrow> bool" where
  "code_at p st [] = False"
| "code_at p st (line # ls) =
     (if p < length line then fst (fence_line st line) else code_at (p - length line) (snd (fence_line st line)) ls)"

lemma in_masked_simps [simp]:
  "\<not> in_masked_range [] p" "in_masked_range ((a, b) # rs) p \<longleftrightarrow> a \<le> p \<and> p < b \<or> in_masked_range rs p"
  "in_masked_range (rs @ ss) p \<longleftrightarrow> in_masked_range rs p \<or> in_masked_range ss p"
  by (auto simp: in_masked_range_def)

definition open_fence :: "(nat \<times> char \<times> nat) option \<Rightarrow> (char \<times> nat) option" where
  "open_fence = map_option snd"

definition covered :: "(nat \<times> nat) list \<times> (nat \<times> char \<times> nat) option \<Rightarrow> nat \<Rightarrow> nat \<Rightarrow> bool" where
  "covered st p lim \<longleftrightarrow> in_masked_range (fst st) p \<or> (case snd st of None \<Rightarrow> False | Some (s, _) \<Rightarrow> s \<le> p \<and> p < lim)"

lemma fence_step_covered:
  assumes "case snd st of None \<Rightarrow> True | Some (s, _) \<Rightarrow> s \<le> offset"
  shows "covered (fence_step offset line st) p (offset + length line) \<longleftrightarrow>
      covered st p offset \<or> offset \<le> p \<and> p < offset + length line \<and> fst (fence_line (open_fence (snd st)) line)"
    and "open_fence (snd (fence_step offset line st)) = snd (fence_line (open_fence (snd st)) line)"
    and "case snd (fence_step offset line st) of None \<Rightarrow> True | Some (s, _) \<Rightarrow> s \<le> offset + length line"
proof -
  obtain ranges fence where st: "st = (ranges, fence)" by (cases st)
  have "(covered (fence_step offset line st) p (offset + length line) \<longleftrightarrow>
      covered st p offset \<or> offset \<le> p \<and> p < offset + length line \<and> fst (fence_line (open_fence (snd st)) line)) \<and>
    open_fence (snd (fence_step offset line st)) = snd (fence_line (open_fence (snd st)) line) \<and>
    (case snd (fence_step offset line st) of None \<Rightarrow> True | Some (s, _) \<Rightarrow> s \<le> offset + length line)"
  proof (cases "fence_marker line")
    case None
    with assms show ?thesis
      by (cases fence) (auto simp: st fence_step_def fence_line_def covered_def open_fence_def)
  next
    case (Some mark)
    obtain c n info where "mark = (c, n, info)" by (cases mark)
    with Some have m: "fence_marker line = Some (c, n, info)" by simp
    show ?thesis
    proof (cases fence)
      case None
      then show ?thesis by (auto simp: st m fence_step_def fence_line_def covered_def open_fence_def)
    next
      case (Some opened)
      obtain start oc on where "opened = (start, oc, on)" by (cases opened)
      with Some assms show ?thesis
        by (cases "c = oc \<and> on \<le> n \<and> trim info = []") (auto simp: st m fence_step_def fence_line_def covered_def open_fence_def)
    qed
  qed
  then show "covered (fence_step offset line st) p (offset + length line) \<longleftrightarrow>
      covered st p offset \<or> offset \<le> p \<and> p < offset + length line \<and> fst (fence_line (open_fence (snd st)) line)"
    and "open_fence (snd (fence_step offset line st)) = snd (fence_line (open_fence (snd st)) line)"
    and "case snd (fence_step offset line st) of None \<Rightarrow> True | Some (s, _) \<Rightarrow> s \<le> offset + length line"
    by simp_all
qed

lemma fence_lines_covered:
  assumes "case snd st of None \<Rightarrow> True | Some (s, _) \<Rightarrow> s \<le> offset"
  shows "covered (fence_lines offset ls st) p (offset + length (concat ls)) \<longleftrightarrow>
      covered st p offset \<or> offset \<le> p \<and> code_at (p - offset) (open_fence (snd st)) ls"
  using assms
proof (induction ls arbitrary: offset st)
  case (Cons line ls)
  note step = fence_step_covered [OF Cons.prems, of line]
  have IH: "covered (fence_lines offset (line # ls) st) p (offset + length (concat (line # ls))) \<longleftrightarrow>
      (covered st p offset \<or> offset \<le> p \<and> p < offset + length line \<and> fst (fence_line (open_fence (snd st)) line)) \<or>
      offset + length line \<le> p \<and> code_at (p - (offset + length line)) (snd (fence_line (open_fence (snd st)) line)) ls"
    using Cons.IH [OF step(3)] by (simp add: step(1,2) add.assoc)
  consider "p < offset" | "offset \<le> p" "p < offset + length line" | "offset + length line \<le> p" by linarith
  then show ?case
  proof cases
    case 1
    then show ?thesis unfolding IH by simp
  next
    case 2
    then have "p - offset < length line" by simp
    with 2 show ?thesis unfolding IH by simp
  next
    case 3
    then have "\<not> p - offset < length line" by simp
    with 3 show ?thesis unfolding IH by (simp add: diff_diff_left)
  qed
qed (simp add: covered_def)

lemma concat_split_inclusive: "concat (split_inclusive c s) = s"
  by (induction s) (auto split: list.splits)

lemma fenced_position: "in_masked_range (fenced_ranges content) p \<longleftrightarrow> code_at p None (split_inclusive CHR 0x0A content)"
proof -
  have "in_masked_range (fenced_ranges content) p \<longleftrightarrow>
      covered (fence_lines 0 (split_inclusive CHR 0x0A content) ([], None)) p (length content)"
    by (cases "fence_lines 0 (split_inclusive CHR 0x0A content) ([], None)"; cases "snd (fence_lines 0 (split_inclusive CHR 0x0A content) ([], None))")
      (auto simp: fenced_ranges_def covered_def)
  also have "\<dots> \<longleftrightarrow> code_at p None (split_inclusive CHR 0x0A content)"
    using fence_lines_covered [where st = "([], None)" and offset = 0 and ls = "split_inclusive CHR 0x0A content" and p = p]
    by (simp add: concat_split_inclusive covered_def open_fence_def)
  finally show ?thesis .
qed

section \<open>Slugs\<close>

text \<open>The slug of a heading: its base, with the number of earlier headings of the same base when there are any.\<close>

definition numbered :: "string \<Rightarrow> nat \<Rightarrow> string" where
  "numbered base n = (if n = 0 then base else base @ ''-'' @ dec_of_nat n)"

definition base_count :: "captures \<Rightarrow> string list \<Rightarrow> string \<Rightarrow> nat" where
  "base_count cp hs b = length (filter (\<lambda>h. github_slug cp h = b) hs)"

lemma slug_all_numbered:
  assumes "\<And>b. (case seen b of None \<Rightarrow> 0 | Some n \<Rightarrow> n) = base_count cp before b"
  shows "slug_all cp seen hs =
    map (\<lambda>i. numbered (github_slug cp (hs ! i)) (base_count cp (before @ take i hs) (github_slug cp (hs ! i)))) [0..<length hs]"
  using assms
proof (induction hs arbitrary: seen before)
  case (Cons h hs)
  let ?b = "github_slug cp h"
  have seen: "(case snd (slug_step cp seen h) b of None \<Rightarrow> 0 | Some n \<Rightarrow> n) = base_count cp (before @ [h]) b" for b
    using Cons.prems [of b] Cons.prems [of ?b] by (auto simp: slug_step_def Let_def base_count_def)
  have first: "fst (slug_step cp seen h) = numbered ?b (base_count cp before ?b)"
    using Cons.prems [of ?b] by (simp add: slug_step_def numbered_def Let_def)
  show ?case
    unfolding slug_all.simps first Cons.IH [OF seen] length_Cons upt_conv_Cons [OF zero_less_Suc] map_Suc_upt [symmetric]
    by (simp add: o_def)
qed simp

lemma dec_of_nat_inj: "dec_of_nat m = dec_of_nat n \<Longrightarrow> m = n"
  by (metis option.inject parse_digits_dec)

lemma hyphen_not_digit: "CHR ''-'' \<notin> set (dec_of_nat n)"
  using set_dec_of_nat digit_char_not_sign(1) by metis

lemma hyphen_suffix: "b @ ''-'' @ dec_of_nat m = c @ ''-'' @ dec_of_nat n \<Longrightarrow> b = c \<and> m = n"
proof -
  assume eq: "b @ ''-'' @ dec_of_nat m = c @ ''-'' @ dec_of_nat n"
  have cut: "takeWhile (\<lambda>x. x \<noteq> CHR ''-'') (rev (b @ ''-'' @ dec_of_nat m)) = rev (dec_of_nat m)" for b m
  proof -
    have "takeWhile (\<lambda>x. x \<noteq> CHR ''-'') (rev (dec_of_nat m) @ CHR ''-'' # rev b) = rev (dec_of_nat m) @ takeWhile (\<lambda>x. x \<noteq> CHR ''-'') (CHR ''-'' # rev b)"
      by (rule takeWhile_append2) (use hyphen_not_digit [of m] in auto)
    then show ?thesis by simp
  qed
  from arg_cong [OF eq, of "\<lambda>s. takeWhile (\<lambda>x. x \<noteq> CHR ''-'') (rev s)"]
  have "dec_of_nat m = dec_of_nat n" by (simp only: cut rev_is_rev_conv)
  with eq show ?thesis by (simp add: dec_of_nat_inj)
qed

lemma base_count_less:
  assumes "i < j" and "j < length hs" and "github_slug cp (hs ! i) = b"
  shows "base_count cp (take i hs) b < base_count cp (take j hs) b"
proof -
  have "take j hs = take i hs @ hs ! i # take (j - Suc i) (drop (Suc i) hs)"
    using assms(1,2) by (metis Cons_nth_drop_Suc Suc_diff_Suc le_add_diff_inverse less_imp_le order_less_trans take_Suc_Cons take_add)
  with assms(3) show ?thesis by (simp add: base_count_def)
qed

text \<open>Anchors are distinct: the slugs of the headings of a document are pairwise different when no heading's base slug is the base slug of another
  one followed by a hyphen and a number.\<close>

theorem heading_slugs_distinct:
  assumes "\<And>g h n. g \<in> set hs \<Longrightarrow> h \<in> set hs \<Longrightarrow> github_slug cp h \<noteq> github_slug cp g @ ''-'' @ dec_of_nat n"
  shows "distinct (slug_all cp Map.empty hs)"
proof -
  let ?b = "\<lambda>i. github_slug cp (hs ! i)"
  let ?k = "\<lambda>i. base_count cp (take i hs) (?b i)"
  have slugs: "slug_all cp Map.empty hs = map (\<lambda>i. numbered (?b i) (?k i)) [0..<length hs]"
    using slug_all_numbered [of Map.empty cp "[]" hs] by (simp add: base_count_def)
  have differ: "numbered (?b i) (?k i) \<noteq> numbered (?b j) (?k j)" if "i < j" "j < length hs" for i j
  proof
    assume eq: "numbered (?b i) (?k i) = numbered (?b j) (?k j)"
    have in_hs: "hs ! i \<in> set hs" "hs ! j \<in> set hs" using that by simp_all
    show False
    proof (cases "?b i = ?b j")
      case True
      then have "?k i < ?k j" using base_count_less [OF that, of cp "?b i"] by simp
      with eq True show False by (auto simp: numbered_def split: if_splits dest: dec_of_nat_inj)
    next
      case False
      from assms [OF in_hs, of "?k i"] assms [OF in_hs(2,1), of "?k j"] eq False hyphen_suffix [of "?b i" "?k i" "?b j" "?k j"]
      show False unfolding numbered_def by presburger
    qed
  qed
  show ?thesis
    unfolding slugs distinct_conv_nth
    using differ by (auto simp: neq_iff)
qed

definition demo_captures :: captures where
  "demo_captures =
     \<lparr>cp_version = (\<lambda>_. []), cp_nav_page = (\<lambda>_. None), cp_link = (\<lambda>_. [(4, ''../api/x.md#usage'')]),
      cp_heading = (\<lambda>_. [''usage'']), cp_inline_code = (\<lambda>_. []), cp_lowercase = id, cp_alphanumeric = (\<lambda>_. True)\<rparr>"

text \<open>A repeated heading and a heading that looks like its second slug share an anchor.\<close>

lemma slug_counter_collides: "slug_all demo_captures Map.empty [''a'', ''a'', ''a-1''] = [''a'', ''a-1'', ''a-1'']"
  by code_simp

theorem heading_slugs_distinct_witness: "distinct (slug_all demo_captures Map.empty [''intro'', ''usage'', ''intro''])"
proof (rule heading_slugs_distinct)
  fix g h :: string and n
  have slug: "github_slug demo_captures ''intro'' = ''intro''" "github_slug demo_captures ''usage'' = ''usage''" by code_simp+
  assume "g \<in> set [''intro'', ''usage'', ''intro'']" "h \<in> set [''intro'', ''usage'', ''intro'']"
  then have "github_slug demo_captures h = ''intro'' \<or> github_slug demo_captures h = ''usage''" by (auto simp: slug)
  then have "CHR ''-'' \<notin> set (github_slug demo_captures h)" by auto
  then show "github_slug demo_captures h \<noteq> github_slug demo_captures g @ ''-'' @ dec_of_nat n" by (metis in_set_conv_decomp append_Cons)
qed

section \<open>The link check\<close>

text \<open>What a broken link is, in terms of the lines of the file rather than of byte ranges.\<close>

definition code_position :: "captures \<Rightarrow> string \<Rightarrow> nat \<Rightarrow> bool" where
  "code_position cp content p \<longleftrightarrow>
     code_at p None (split_inclusive CHR 0x0A content) \<or> (\<exists>(a, b) \<in> set (cp_inline_code cp content). a \<le> p \<and> p < b)"

text \<open>Where a path leads from a directory: segment by segment, as in a file system, with a mark when it climbs above the root.\<close>

inductive walk :: "string list \<Rightarrow> string list \<Rightarrow> string list \<Rightarrow> bool \<Rightarrow> bool" where
  arrive: "walk dir [] dir False"
| stay: "part = [] \<or> part = ''.'' \<Longrightarrow> walk dir parts reached out \<Longrightarrow> walk dir (part # parts) reached out"
| up: "walk dir parts reached out \<Longrightarrow> walk (dir @ [d]) (''..'' # parts) reached out"
| out: "walk [] parts reached out \<Longrightarrow> walk [] (''..'' # parts) reached True"
| down: "part \<noteq> [] \<Longrightarrow> part \<noteq> ''.'' \<Longrightarrow> part \<noteq> ''..'' \<Longrightarrow> walk (dir @ [part]) parts reached out \<Longrightarrow> walk dir (part # parts) reached out"

inductive_cases walk_NilE: "walk dir [] reached out"
inductive_cases walk_ConsE: "walk dir (part # parts) reached out"

abbreviation segments_of :: "string \<Rightarrow> string list" where
  "segments_of path \<equiv> split_char CHR ''/'' path"

definition directory :: "string \<Rightarrow> string list" where
  "directory path = (let ds = butlast (segments_of path) in if ds = [[]] then [] else ds)"

text \<open>The place a link of a file names, without its anchor; a link that is only an anchor stays in the file.\<close>

definition leads_to :: "string \<Rightarrow> string \<Rightarrow> string list \<Rightarrow> bool \<Rightarrow> bool" where
  "leads_to path target reached out \<longleftrightarrow>
     (if target = [] then reached = segments_of path \<and> \<not> out else walk (directory path) (segments_of target) reached out)"

text \<open>A place is in the corpus when it lies below the directory of the index; for an index at the root, when the path did not climb out.\<close>

definition in_corpus :: "string \<Rightarrow> string list \<Rightarrow> bool \<Rightarrow> bool" where
  "in_corpus index_path reached out \<longleftrightarrow>
     (if directory index_path = [] then \<not> out else \<exists>rest. reached = directory index_path @ rest)"

definition has_anchor :: "captures \<Rightarrow> string \<Rightarrow> string \<Rightarrow> bool" where
  "has_anchor cp content a \<longleftrightarrow>
     (let hs = map trim (cp_heading cp content) in
      \<exists>i < length hs. a = numbered (github_slug cp (hs ! i)) (base_count cp (take i hs) (github_slug cp (hs ! i))))"

definition link_holds :: "captures \<Rightarrow> (string \<rightharpoonup> string) \<Rightarrow> string \<Rightarrow> string \<Rightarrow> string \<Rightarrow> bool" where
  "link_holds cp files index_path path target \<longleftrightarrow>
     is_external_link target \<or>
     (\<forall>reached out. leads_to path (fst (split_anchor target)) reached out \<and> in_corpus index_path reached out \<longrightarrow>
        (\<exists>text. files (join_with ''/'' reached) = Some text \<and>
           (\<forall>a. snd (split_anchor target) = Some a \<and> a \<noteq> [] \<longrightarrow> has_anchor cp text a)))"

lemma walk_resolve: "resolve_parts dir u parts = (reached, out) \<longleftrightarrow> (\<exists>v. walk dir parts reached v \<and> out = (u \<or> v))"
proof (induction parts arbitrary: dir u)
  case Nil
  then show ?case by (auto intro: walk.arrive elim: walk_NilE)
next
  case (Cons part parts)
  consider "part = [] \<or> part = ''.''" | "part = ''..''" "dir = []" | d ds where "part = ''..''" "dir = ds @ [d]"
    | "part \<noteq> []" "part \<noteq> ''.''" "part \<noteq> ''..''" by (metis rev_exhaust)
  then show ?case
  proof cases
    case 1
    have "walk dir (part # parts) reached v = walk dir parts reached v" for v
      using 1 by (auto intro: walk.stay elim: walk_ConsE)
    with 1 Cons show ?thesis by simp
  next
    case 2
    have "walk [] (''..'' # parts) reached v \<longleftrightarrow> v \<and> (\<exists>w. walk [] parts reached w)" for v
      by (auto intro: walk.out elim: walk_ConsE)
    with 2 Cons show ?thesis by (simp, blast)
  next
    case (3 d ds)
    have "walk (ds @ [d]) (''..'' # parts) reached v = walk ds parts reached v" for v
      by (auto intro: walk.up elim: walk_ConsE)
    with 3 Cons show ?thesis by simp
  next
    case 4
    have "walk dir (part # parts) reached v = walk (dir @ [part]) parts reached v" for v
      using 4 by (auto intro: walk.down elim: walk_ConsE)
    with 4 Cons show ?thesis by simp
  qed
qed

lemma file_dir_directory: "(if file_dir path = [] then [] else segments_of (file_dir path)) = directory path"
  and file_dir_join_directory: "file_dir path = join_with ''/'' (directory path)"
proof -
  obtain ds name where split: "segments_of path = ds @ [name]" by (metis rev_exhaust split_char_not_Nil)
  then have slash: "CHR ''/'' \<notin> set name" and slashes: "\<And>d. d \<in> set ds \<Longrightarrow> CHR ''/'' \<notin> set d"
    using split_char_piece [of _ "CHR ''/''" path] by auto
  have path: "path = (if ds = [] then name else join_with ''/'' ds @ CHR ''/'' # name)"
  proof -
    have "join_with ''/'' (ds @ [name]) = (if ds = [] then name else join_with ''/'' ds @ CHR ''/'' # name)"
      by (induction "''/''" ds rule: join_with.induct) simp_all
    with split join_split [of "CHR ''/''" path] show ?thesis by simp
  qed
  have long: "dropWhile (\<lambda>c. c \<noteq> CHR ''/'') (rev name @ CHR ''/'' # s) = CHR ''/'' # s" for s
    using slash by (induction name rule: rev_induct) auto
  have short: "dropWhile (\<lambda>c. c \<noteq> CHR ''/'') (rev name) = []" unfolding dropWhile_eq_Nil_conv using slash by auto
  have dir: "file_dir path = join_with ''/'' ds"
    by (subst path) (simp add: file_dir_def long short del: dropWhile_eq_Nil_conv)
  have "ds \<noteq> [] \<Longrightarrow> join_with ''/'' ds = [] \<longleftrightarrow> ds = [[]]"
    by (induction "''/''" ds rule: join_with.induct) simp_all
  with dir split split_join [of ds "CHR ''/''"] slashes
  show "(if file_dir path = [] then [] else segments_of (file_dir path)) = directory path" "file_dir path = join_with ''/'' (directory path)"
    by (cases "ds = []"; auto simp: directory_def Let_def)+
qed

lemma walk_unique: "walk dir parts a u \<Longrightarrow> walk dir parts b v \<Longrightarrow> a = b \<and> u = v"
  using walk_resolve [of dir False parts a u] walk_resolve [of dir False parts b v] by auto

lemma resolve_walk:
  "resolve_relative_path (file_dir path) target = (place, out) \<longleftrightarrow>
     (\<exists>reached. walk (directory path) (segments_of target) reached out \<and> place = join_with ''/'' reached)"
proof -
  obtain reached v where parts: "resolve_parts (directory path) False (segments_of target) = (reached, v)" by (metis prod.exhaust)
  then have "resolve_relative_path (file_dir path) target = (join_with ''/'' reached, v)"
    by (simp only: resolve_relative_path_def file_dir_directory Let_def prod.case)
  moreover have w: "walk (directory path) (segments_of target) reached v"
    using parts walk_resolve [of "directory path" False "segments_of target" reached v] by simp
  moreover from w have "walk (directory path) (segments_of target) r out \<longleftrightarrow> r = reached \<and> out = v" for r
    using walk_unique [OF w] by blast
  ultimately show ?thesis by (simp only: prod.inject) blast
qed

lemma walk_exists: "\<exists>reached out. walk dir parts reached out"
  using walk_resolve [of dir False parts] by (metis prod.exhaust)

lemma walk_slashless:
  "walk dir parts reached out \<Longrightarrow> (\<forall>p \<in> set (dir @ parts). CHR ''/'' \<notin> set p) \<Longrightarrow> (\<forall>p \<in> set reached. CHR ''/'' \<notin> set p)"
  by (induction rule: walk.induct) auto

lemma directory_slashless: "d \<in> set (directory path) \<Longrightarrow> CHR ''/'' \<notin> set d"
  using split_char_piece [of d "CHR ''/''" path] by (auto simp: directory_def Let_def dest: in_set_butlastD split: if_splits)

lemma leads_to_unique: "leads_to path target a u \<Longrightarrow> leads_to path target b v \<Longrightarrow> a = b \<and> u = v"
  using walk_unique by (auto simp: leads_to_def split: if_splits)

lemma prefix_segments:
  assumes "ds \<noteq> []" and "join_with ''/'' ds \<noteq> []" and slashless: "\<forall>p \<in> set (ds @ reached). CHR ''/'' \<notin> set p"
  shows "path_has_dir_prefix (join_with ''/'' reached) (join_with ''/'' ds) \<longleftrightarrow> (\<exists>rest. reached = ds @ rest)"
proof -
  have split_ds: "segments_of (join_with ''/'' ds) = ds" using split_join [of ds "CHR ''/''"] assms(1) slashless by simp
  have append: "join_with ''/'' (ds @ rest) = (if rest = [] then join_with ''/'' ds else join_with ''/'' ds @ CHR ''/'' # join_with ''/'' rest)" for rest
    using assms(1) by (induction "''/''" ds rule: join_with.induct) (cases rest; simp)+
  have "path_has_dir_prefix (join_with ''/'' (ds @ rest)) (join_with ''/'' ds)" for rest
    by (simp add: append path_has_dir_prefix_def starts_with_def)
  moreover have "\<exists>rest. reached = ds @ rest" if pre: "path_has_dir_prefix (join_with ''/'' reached) (join_with ''/'' ds)"
  proof -
    have "reached \<noteq> []" using pre assms(2) by (auto simp: path_has_dir_prefix_def strip_prefix_Some split: option.splits)
    then have split_r: "segments_of (join_with ''/'' reached) = reached" using split_join [of reached "CHR ''/''"] slashless by simp
    from pre assms(2) consider "join_with ''/'' reached = join_with ''/'' ds"
      | r where "join_with ''/'' reached = join_with ''/'' ds @ CHR ''/'' # r"
      by (auto simp: path_has_dir_prefix_def strip_prefix_Some starts_with_iff split: option.splits)
    then show ?thesis
    proof cases
      case 1
      with split_ds split_r have "reached = ds" by simp
      then show ?thesis by simp
    next
      case (2 r)
      have "segments_of (join_with ''/'' xs @ CHR ''/'' # r) = xs @ segments_of r"
        if "xs \<noteq> []" "\<forall>p \<in> set xs. CHR ''/'' \<notin> set p" for xs
        using that by (induction "''/''" xs rule: join_with.induct) (simp_all add: split_char_sep)
      with assms(1) slashless 2 split_r show ?thesis by auto
    qed
  qed
  ultimately show ?thesis by blast
qed

lemma not_escaped:
  assumes "\<forall>p \<in> set reached. CHR ''/'' \<notin> set p"
  shows "escaped_corpus_root (file_dir index_path) (join_with ''/'' reached, out) \<longleftrightarrow> \<not> in_corpus index_path reached out"
proof (cases "directory index_path = []")
  case True
  then show ?thesis by (simp add: escaped_corpus_root_def in_corpus_def file_dir_join_directory)
next
  case False
  have "join_with ''/'' (directory index_path) \<noteq> []"
    using False file_dir_directory [of index_path] by (simp add: file_dir_join_directory split: if_splits)
  with prefix_segments [OF False this] assms directory_slashless False show ?thesis
    by (simp add: escaped_corpus_root_def in_corpus_def file_dir_join_directory) blast
qed

lemma anchor_slugs: "a \<in> heading_slugs cp content \<longleftrightarrow> has_anchor cp content a"
proof -
  have empty: "base_count cp [] b = 0" for b by (simp add: base_count_def)
  have "slug_all cp Map.empty hs =
      map (\<lambda>i. numbered (github_slug cp (hs ! i)) (base_count cp (take i hs) (github_slug cp (hs ! i)))) [0..<length hs]" for hs
    using slug_all_numbered [of Map.empty cp "[]" hs] by (simp add: empty)
  then show ?thesis unfolding heading_slugs_def has_anchor_def Let_def by (auto simp: image_iff Bex_def cong: conj_cong)
qed

lemma masked_position: "in_masked_range (masked_code_ranges cp content) p \<longleftrightarrow> code_position cp content p"
proof -
  have "in_masked_range (masked_code_ranges cp content) p \<longleftrightarrow>
      in_masked_range (fenced_ranges content) p \<or> in_masked_range (cp_inline_code cp content) p"
    by (auto simp: masked_code_ranges_def in_masked_range_def)
  then show ?thesis by (simp add: fenced_position code_position_def) (simp add: in_masked_range_def)
qed

lemma link_place:
  "\<exists>reached out. leads_to path target reached out \<and> (\<forall>p \<in> set reached. CHR ''/'' \<notin> set p)
     \<and> (if target = [] then (path, False) else resolve_relative_path (file_dir path) target) = (join_with ''/'' reached, out)"
proof (cases "target = []")
  case True
  have "\<forall>p \<in> set (segments_of path). CHR ''/'' \<notin> set p" by (blast dest: split_char_piece)
  with True show ?thesis by (intro exI [of _ "segments_of path"] exI [of _ False]) (simp add: leads_to_def join_split)
next
  case False
  obtain reached out where w: "walk (directory path) (segments_of target) reached out" using walk_exists by blast
  have "\<forall>p \<in> set (directory path @ segments_of target). CHR ''/'' \<notin> set p"
    using directory_slashless [of _ path] split_char_piece [of _ "CHR ''/''" target] by (simp only: set_append) blast
  from walk_slashless [OF w this] have "\<forall>p \<in> set reached. CHR ''/'' \<notin> set p" .
  moreover have "resolve_relative_path (file_dir path) target = (join_with ''/'' reached, out)" using resolve_walk w by blast
  ultimately show ?thesis using w False by (intro exI [of _ reached] exI [of _ out]) (simp add: leads_to_def)
qed

lemma check_link_Nil:
  "check_link cp files (file_dir index_path) path content (start, target) = [] \<longleftrightarrow>
     code_position cp content start \<or> link_holds cp files index_path path target"
proof -
  obtain p a where split: "split_anchor target = (p, a)" by (metis prod.exhaust)
  obtain reached out where to: "leads_to path p reached out" and slashless: "\<forall>d \<in> set reached. CHR ''/'' \<notin> set d"
    and place: "(if p = [] then (path, False) else resolve_relative_path (file_dir path) p) = (join_with ''/'' reached, out)"
    using link_place [of path p] by blast
  have only: "(\<forall>r v. leads_to path p r v \<and> in_corpus index_path r v \<longrightarrow> Q r) \<longleftrightarrow> (in_corpus index_path reached out \<longrightarrow> Q reached)" for Q
    using leads_to_unique [OF to] to by blast
  have holds: "link_holds cp files index_path path target \<longleftrightarrow> is_external_link target \<or> (in_corpus index_path reached out \<longrightarrow>
      (\<exists>text. files (join_with ''/'' reached) = Some text \<and> (\<forall>x. a = Some x \<and> x \<noteq> [] \<longrightarrow> x \<in> heading_slugs cp text)))"
    unfolding link_holds_def split fst_conv snd_conv anchor_slugs only by (rule HOL.refl)
  show ?thesis
    unfolding holds using not_escaped [OF slashless, of index_path out]
    by (auto simp: check_link_def masked_position split place Let_def split: option.split)
qed

lemma concat_pairs_Nil: "concat (map (\<lambda>(x, y). F x y) ps) = [] \<longleftrightarrow> (\<forall>(x, y) \<in> set ps. F x y = [])"
  by (induction ps) auto

lemma map_filter_Nil: "List.map_filter f xs = [] \<longleftrightarrow> (\<forall>x \<in> set xs. f x = None)"
  by (induction xs) (auto simp: map_filter_simps split: option.split)

text \<open>C22. A clean report is a sound corpus: the check reports nothing exactly when every link that stands outside the fenced lines and inline
  code holds, and every Markdown page but the index is one of the places the navigation leads to. A link holds when it is external, or leads
  out of the directory of the index, or to a file of the corpus that has its anchor; paths are walked segment by segment, and the anchors of a
  file are the slugs of its headings, numbered by the earlier headings of the same slug.\<close>

theorem check_links_clean:
  "check_links cp files nav index_path = [] \<longleftrightarrow>
     (\<forall>(path, content) \<in> set files. \<forall>(start, target) \<in> set (cp_link cp content).
        code_position cp content start \<or> link_holds cp (map_of files) index_path path target) \<and>
     (\<forall>(path, content) \<in> set files. path = index_path \<or> \<not> ends_with ''.md'' path \<or>
        (\<exists>g \<in> set (nt_groups nav). \<exists>p \<in> set (ng_pages g). \<exists>reached out.
           walk (directory index_path) (segments_of (np_path p)) reached out \<and> path = join_with ''/'' reached))"
proof -
  have links: "concat (map (check_link cp (map_of files) (file_dir index_path) fl content) ls) = [] \<longleftrightarrow>
      (\<forall>(start, target) \<in> set ls. code_position cp content start \<or> link_holds cp (map_of files) index_path fl target)"
    for fl content ls
    by (auto simp: check_link_Nil)
  have place: "fl = fst (resolve_relative_path (file_dir index_path) t) \<longleftrightarrow>
      (\<exists>reached out. walk (directory index_path) (segments_of t) reached out \<and> fl = join_with ''/'' reached)" for fl t
    by (metis resolve_walk fst_conv surj_pair)
  have reach: "fl \<in> reachable_pages nav index_path \<longleftrightarrow>
      (\<exists>g \<in> set (nt_groups nav). \<exists>p \<in> set (ng_pages g). \<exists>reached out.
         walk (directory index_path) (segments_of (np_path p)) reached out \<and> fl = join_with ''/'' reached)" for fl
    unfolding place [symmetric] by (auto simp: reachable_pages_def)
  show ?thesis
    unfolding check_links_def Let_def append_is_Nil_conv concat_pairs_Nil links reach [symmetric] map_filter_Nil
    by (intro conj_cong refl ball_cong) (simp split: prod.split)
qed

lemma file_dir_join: "name \<noteq> [] \<Longrightarrow> CHR ''/'' \<notin> set name \<Longrightarrow> file_dir (join_with ''/'' (ds @ [name])) = join_with ''/'' ds"
proof -
  assume "name \<noteq> []" and slash: "CHR ''/'' \<notin> set name"
  have alone: "dropWhile (\<lambda>c. c \<noteq> CHR ''/'') (rev name) = []"
    unfolding dropWhile_eq_Nil_conv using slash by auto
  have "join_with ''/'' (ds @ [name]) = (if ds = [] then name else join_with ''/'' ds @ CHR ''/'' # name)"
    by (induction "''/''" ds rule: join_with.induct) simp_all
  moreover have "dropWhile (\<lambda>c. c \<noteq> CHR ''/'') (rev name @ CHR ''/'' # s) = CHR ''/'' # s" for s
    using slash by (induction name rule: rev_induct) auto
  ultimately show ?thesis unfolding file_dir_def by (cases "ds = []") (simp_all only: if_True if_False alone list.case rev_append rev.simps append_assoc append.simps rev_rev_ident join_with.simps)
qed

lemma split_anchor_with: "CHR ''#'' \<notin> set p \<Longrightarrow> split_anchor (p @ CHR ''#'' # a) = (p, Some a)"
  by (simp add: split_anchor_def split_once_at)

lemma hash_free_relative: "(\<And>s. s \<in> set down \<Longrightarrow> CHR ''#'' \<notin> set s) \<Longrightarrow> CHR ''#'' \<notin> set (relative_path up down)"
proof -
  have "CHR ''#'' \<notin> set (join_with ''/'' xs)" if "\<And>s. s \<in> set xs \<Longrightarrow> CHR ''#'' \<notin> set s" for xs
    using that by (induction "''/''" xs rule: join_with.induct) auto
  moreover assume down: "\<And>s. s \<in> set down \<Longrightarrow> CHR ''#'' \<notin> set s"
  then have "CHR ''#'' \<notin> set s" if "s \<in> set (replicate (length up) ''..'' @ down)" for s
    using that by (cases "s \<in> set down") simp_all
  ultimately show "CHR ''#'' \<notin> set (relative_path up down)" unfolding relative_path_def by blast
qed

text \<open>Correct relative links are accepted: a link from one file of the corpus to an anchor of another, written as the relative path between them, is
  never reported, wherever the index page is.\<close>

theorem relative_links_accepted:
  assumes "list_all clean_segment (common @ up @ [name])" and "list_all clean_segment down" and "\<And>s. s \<in> set down \<Longrightarrow> CHR ''#'' \<notin> set s"
    and "up \<noteq> [] \<or> down \<noteq> []"
    and "files (join_with ''/'' (common @ down)) = Some reached" and "a \<in> heading_slugs cp reached"
  shows "check_link cp files (file_dir index_path) (join_with ''/'' (common @ up @ [name])) content
    (start, relative_path up down @ ''#'' @ a) = []"
proof -
  let ?rel = "relative_path up down"
  have clean: "list_all clean_segment (common @ up)" "name \<noteq> []" "CHR ''/'' \<notin> set name"
    using assms(1) by (simp_all add: clean_segment_def)
  have split: "split_anchor (?rel @ ''#'' @ a) = (?rel, Some a)"
    using split_anchor_with [OF hash_free_relative [OF assms(3)]] by simp
  have dir: "file_dir (join_with ''/'' (common @ up @ [name])) = join_with ''/'' (common @ up)"
    using file_dir_join [OF clean(2,3), of "common @ up"] by simp
  have "?rel \<noteq> []"
  proof (cases up)
    case Nil
    then show ?thesis using assms(2,4) join_clean_Nil [OF assms(2)] by (simp add: relative_path_def)
  next
    case (Cons u us)
    then show ?thesis by (cases "replicate (length us) ''..'' @ down") (simp_all add: relative_path_def)
  qed
  have "resolve_relative_path (file_dir (join_with ''/'' (common @ up @ [name]))) ?rel = (join_with ''/'' (common @ down), False)"
    using relative_link_resolves [OF clean(1) assms(2)] by (simp add: dir)
  then obtain reached where w: "walk (directory (join_with ''/'' (common @ up @ [name]))) (segments_of ?rel) reached False"
    "join_with ''/'' (common @ down) = join_with ''/'' reached" using resolve_walk by blast
  have "link_holds cp files index_path (join_with ''/'' (common @ up @ [name])) (?rel @ ''#'' @ a)"
    unfolding link_holds_def split fst_conv snd_conv leads_to_def using walk_unique [OF w(1)] w(2) assms(5,6) \<open>?rel \<noteq> []\<close>
    by (auto simp: anchor_slugs)
  then show ?thesis unfolding check_link_Nil by blast
qed

theorem relative_links_accepted_witness:
  "check_link demo_captures [''api/x.md'' \<mapsto> ''text''] (file_dir ''index.md'') ''guide/start.md'' ''text'' (4, ''../api/x.md#usage'') = []"
proof -
  have "check_link demo_captures [''api/x.md'' \<mapsto> ''text''] (file_dir ''index.md'') (join_with ''/'' ([] @ [''guide''] @ [''start.md''])) ''text''
      (4, relative_path [''guide''] [''api'', ''x.md''] @ ''#'' @ ''usage'') = []"
  proof (rule relative_links_accepted)
    show "list_all clean_segment ([] @ [''guide''] @ [''start.md''])" "list_all clean_segment [''api'', ''x.md'']" by code_simp+
    show "CHR ''#'' \<notin> set s" if "s \<in> set [''api'', ''x.md'']" for s using that by auto
    show "[''api/x.md'' \<mapsto> ''text''] (join_with ''/'' ([] @ [''api'', ''x.md''])) = Some ''text''" by simp
    show "''usage'' \<in> heading_slugs demo_captures ''text''" by code_simp
  qed simp
  then show ?thesis by (simp add: relative_path_def)
qed

lemma demo_slug: "''usage'' \<in> heading_slugs demo_captures ''text''"
  by code_simp

theorem check_links_clean_witness:
  "check_links demo_captures [(''api/x.md'', ''text'')]
     \<lparr>nt_description = [], nt_groups = [\<lparr>ng_title = ''All'', ng_pages = [\<lparr>np_title = ''X'', np_path = ''./api/x.md'', np_description = []\<rparr>]\<rparr>]\<rparr>
     ''index.md'' = []"
proof -
  let ?m = "map_of [(''api/x.md'', ''text'')]"
  have "check_link demo_captures ?m (file_dir ''index.md'') (join_with ''/'' ([] @ [''api''] @ [''x.md''])) ''text''
      (4, relative_path [''api''] [''api'', ''x.md''] @ ''#'' @ ''usage'') = []"
    by (rule relative_links_accepted [OF _ _ _ _ _ demo_slug]) (auto simp: clean_segment_def)
  then have link: "code_position demo_captures ''text'' 4 \<or> link_holds demo_captures ?m ''index.md'' ''api/x.md'' ''../api/x.md#usage''"
    unfolding check_link_Nil by (simp add: relative_path_def)
  have "resolve_relative_path (file_dir ''index.md'') ''./api/x.md'' = (''api/x.md'', False)" by code_simp
  then have nav: "\<exists>reached out. walk (directory ''index.md'') (segments_of ''./api/x.md'') reached out \<and> ''api/x.md'' = join_with ''/'' reached"
    using resolve_walk by blast
  have links: "cp_link demo_captures ''text'' = [(4, ''../api/x.md#usage'')]" by (simp add: demo_captures_def)
  show ?thesis
    unfolding check_links_clean using link nav by (simp only: links list.set ball_simps bex_simps prod.case nav_tree.simps nav_group.simps nav_page.simps) blast
qed

end
