(* ===== verification/Idempotency.thy ===== *)
theory Idempotency
  imports Prelude
begin

text \<open>
  Idempotent requests (\<open>PgSagaExecutorRepo::idempotency_*\<close> of \<open>akashic-store-pg/src/repos/saga.rs\<close>, the helpers of
  \<open>akashic-http/src/api/extractors.rs\<close> and \<open>api/routes/ingestion.rs\<close>): check, reserve, work, finalize or release.

  The functions come twice: as sequential functions over the table, and as a machine whose step is one SQL statement, so that
  any number of requests interleave. \<open>'j\<close> is the type of JSON values (\<open>serde_json\<close>), \<open>null\<close> its null.
\<close>

section \<open>The table\<close>

record 'j saga_row =
  sg_id :: uuid
  sg_type :: string
  sg_key :: "string option"
  sg_repo :: string
  sg_status :: string
  sg_result :: "'j option"
  sg_updated_at :: instant

type_synonym 'j sagas = "'j saga_row list"

definition has_key :: "string \<Rightarrow> 'j saga_row \<Rightarrow> bool" where
  "has_key key r \<longleftrightarrow> sg_key r = Some key"

text \<open>The statements, each atomic: \<open>INSERT \<dots> ON CONFLICT DO NOTHING\<close> with its row count, the \<open>SELECT\<close>, the three \<open>DELETE\<close>s, the \<open>UPDATE\<close>.\<close>

definition insert_reservation :: "uuid \<Rightarrow> instant \<Rightarrow> string \<Rightarrow> string \<Rightarrow> string \<Rightarrow> 'j sagas \<Rightarrow> nat \<times> 'j sagas" where
  "insert_reservation i now saga_type key repo t =
     (if \<exists>r \<in> set t. has_key key r then (0, t)
      else (1, t @ [\<lparr>sg_id = i, sg_type = saga_type, sg_key = Some key, sg_repo = repo, sg_status = ''running'', sg_result = None,
                    sg_updated_at = now\<rparr>]))"

definition select_status :: "string \<Rightarrow> 'j sagas \<Rightarrow> (string \<times> 'j option) option" where
  "select_status key t = map_option (\<lambda>r. (sg_status r, sg_result r)) (fetch_optional (has_key key) t)"

definition delete_by_key :: "string \<Rightarrow> 'j sagas \<Rightarrow> 'j sagas" where
  "delete_by_key key = delete_where (has_key key)"

definition delete_failed :: "string \<Rightarrow> 'j sagas \<Rightarrow> 'j sagas" where
  "delete_failed key = delete_where (\<lambda>r. has_key key r \<and> sg_status r = ''failed'')"

definition update_completed :: "instant \<Rightarrow> string \<Rightarrow> 'j \<Rightarrow> 'j sagas \<Rightarrow> 'j sagas" where
  "update_completed now key result =
     update_where (has_key key) (\<lambda>r. r\<lparr>sg_status := ''completed'', sg_result := Some result, sg_updated_at := now\<rparr>)"

definition delete_running :: "string \<Rightarrow> 'j sagas \<Rightarrow> 'j sagas" where
  "delete_running key = delete_where (\<lambda>r. has_key key r \<and> sg_status r = ''running'')"

section \<open>The repository, one call at a time\<close>

datatype 'j idempotency_check = Check_completed 'j | Check_running | Check_fresh

definition idempotency_check :: "string \<Rightarrow> 'j sagas \<Rightarrow> 'j idempotency_check \<times> 'j sagas" where
  "idempotency_check key t =
     (case select_status key t of
        None \<Rightarrow> (Check_fresh, t)
      | Some (status, result) \<Rightarrow>
          if status = ''completed'' then
            (case result of Some v \<Rightarrow> (Check_completed v, t) | None \<Rightarrow> (Check_fresh, t))
          else if status = ''running'' then (Check_running, t)
          else if status = ''failed'' then (Check_fresh, delete_by_key key t)
          else (Check_fresh, t))"

datatype 'j idempotency_reservation = Reserved_key | Cached_result 'j | In_progress

fun reserve_attempts ::
  "nat \<Rightarrow> uuid \<Rightarrow> instant \<Rightarrow> 'j \<Rightarrow> string \<Rightarrow> string \<Rightarrow> string \<Rightarrow> 'j sagas \<Rightarrow> 'j idempotency_reservation \<times> 'j sagas" where
  "reserve_attempts 0 i now null saga_type key repo t = (In_progress, t)"
| "reserve_attempts (Suc n) i now null saga_type key repo t =
     (let (inserted, t) = insert_reservation i now saga_type key repo t in
      if inserted = 1 then (Reserved_key, t)
      else case select_status key t of
             Some (status, result) \<Rightarrow>
               if status = ''completed'' then (Cached_result (case result of Some v \<Rightarrow> v | None \<Rightarrow> null), t)
               else if status = ''failed'' then reserve_attempts n i now null saga_type key repo (delete_failed key t)
               else (In_progress, t)
           | None \<Rightarrow> reserve_attempts n i now null saga_type key repo t)"

definition idempotency_reserve ::
  "uuid \<Rightarrow> instant \<Rightarrow> 'j \<Rightarrow> string \<Rightarrow> string \<Rightarrow> string \<Rightarrow> 'j sagas \<Rightarrow> 'j idempotency_reservation \<times> 'j sagas" where
  "idempotency_reserve = reserve_attempts 3"

definition idempotency_finalize :: "instant \<Rightarrow> string \<Rightarrow> 'j \<Rightarrow> 'j sagas \<Rightarrow> 'j sagas" where
  "idempotency_finalize = update_completed"

definition idempotency_release :: "string \<Rightarrow> 'j sagas \<Rightarrow> 'j sagas" where
  "idempotency_release = delete_running"

definition cleanup_stale_sagas :: "instant \<Rightarrow> int \<Rightarrow> 'j sagas \<Rightarrow> int \<times> 'j sagas" where
  "cleanup_stale_sagas now stale_minutes t =
     (let stale = (\<lambda>r. sg_status r = ''running'' \<and> sg_updated_at r < now - seconds (60 * stale_minutes))
      in (int (rows_affected stale t), update_where stale (\<lambda>r. r\<lparr>sg_status := ''failed'', sg_updated_at := now\<rparr>) t))"

definition cleanup_expired_idempotency :: "instant \<Rightarrow> int \<Rightarrow> 'j sagas \<Rightarrow> int \<times> 'j sagas" where
  "cleanup_expired_idempotency now ttl_hours t =
     (let expired = (\<lambda>r. sg_status r = ''completed'' \<and> sg_key r \<noteq> None \<and> sg_updated_at r < now - seconds (3600 * ttl_hours))
      in (int (rows_affected expired t), delete_where expired t))"

section \<open>The handler's protocol\<close>

text \<open>The header: absent (or not visible ASCII) is no key, otherwise 1 to 64 bytes.\<close>

definition extract_idempotency_key :: "string option \<Rightarrow> string + string option" where
  "extract_idempotency_key header =
     (case header of
        None \<Rightarrow> Inr None
      | Some k \<Rightarrow> if k = [] \<or> 64 < length k then Inl ''Idempotency-Key must be 1-64 characters'' else Inr (Some k))"

datatype 'j idem_reply = Fresh_response 'j | Cached_response 'j | Conflict_reply | Work_failed | Db_failed

text \<open>Where a request with a key stands: before which statement, doing the work as the owner of the key, or answered.\<close>

datatype 'j idem_pc =
    Check_select
  | Check_delete
  | Reserve_insert nat
  | Reserve_select nat
  | Reserve_delete nat
  | Work
  | Finalize 'j
  | Release
  | Answered "'j idem_reply"

text \<open>The attempt after attempt number \<open>n\<close>, of three.\<close>

definition next_attempt :: "nat \<Rightarrow> 'j idem_pc" where
  "next_attempt n = (if n + 1 < 3 then Reserve_insert (n + 1) else Answered Conflict_reply)"

definition after_check :: "'j idem_pc" where
  "after_check = Reserve_insert 0"

text \<open>One statement that succeeds, with the identifier and time the database generates, the type and the repository. \<open>Work\<close> is left by the service's answer, below.\<close>

fun idem_statement :: "uuid \<times> instant \<times> string \<times> string \<Rightarrow> 'j \<Rightarrow> string \<Rightarrow> 'j idem_pc \<Rightarrow> 'j sagas \<Rightarrow> 'j idem_pc \<times> 'j sagas" where
  "idem_statement env null key Check_select t =
     (case select_status key t of
        None \<Rightarrow> (after_check, t)
      | Some (status, result) \<Rightarrow>
          if status = ''completed'' then
            (case result of Some v \<Rightarrow> (Answered (Cached_response v), t) | None \<Rightarrow> (after_check, t))
          else if status = ''running'' then (Answered Conflict_reply, t)
          else if status = ''failed'' then (Check_delete, t)
          else (after_check, t))"
| "idem_statement env null key Check_delete t = (after_check, delete_by_key key t)"
| "idem_statement env null key (Reserve_insert n) t =
     (let (i, now, saga_type, repo) = env;
          (inserted, t) = insert_reservation i now saga_type key repo t
      in (if inserted = 1 then Work else Reserve_select n, t))"
| "idem_statement env null key (Reserve_select n) t =
     (case select_status key t of
        Some (status, result) \<Rightarrow>
          if status = ''completed'' then (Answered (Cached_response (case result of Some v \<Rightarrow> v | None \<Rightarrow> null)), t)
          else if status = ''failed'' then (Reserve_delete n, t)
          else (Answered Conflict_reply, t)
      | None \<Rightarrow> (next_attempt n, t))"
| "idem_statement env null key (Reserve_delete n) t = (next_attempt n, delete_failed key t)"
| "idem_statement env null key Work t = (Work, t)"
| "idem_statement env null key (Finalize v) t = (Answered (Fresh_response v), update_completed (fst (snd env)) key v t)"
| "idem_statement env null key Release t = (Answered Work_failed, delete_running key t)"
| "idem_statement env null key (Answered r) t = (Answered r, t)"

text \<open>A statement that fails: the error is the answer, except that a failed release is only logged.\<close>

definition idem_failure :: "'j idem_pc \<Rightarrow> 'j idem_pc" where
  "idem_failure pc = (case pc of Release \<Rightarrow> Answered Work_failed | Answered r \<Rightarrow> Answered r | Work \<Rightarrow> Work | _ \<Rightarrow> Answered Db_failed)"

record 'j idem_sys =
  is_table :: "'j sagas"
  is_requests :: "(string \<times> 'j idem_pc) list"

inductive idem_step :: "'j \<Rightarrow> 'j idem_sys \<Rightarrow> 'j idem_sys \<Rightarrow> bool" for null where
  arrive: "idem_step null s (s\<lparr>is_requests := is_requests s @ [(key, Check_select)]\<rparr>)"
| statement: "n < length (is_requests s) \<Longrightarrow> is_requests s ! n = (key, pc) \<Longrightarrow>
    idem_statement env null key pc (is_table s) = (pc', t') \<Longrightarrow>
    idem_step null s (s\<lparr>is_table := t', is_requests := (is_requests s)[n := (key, pc')]\<rparr>)"
| failure: "n < length (is_requests s) \<Longrightarrow> is_requests s ! n = (key, pc) \<Longrightarrow>
    idem_step null s (s\<lparr>is_requests := (is_requests s)[n := (key, idem_failure pc)]\<rparr>)"
| work_ok: "n < length (is_requests s) \<Longrightarrow> is_requests s ! n = (key, Work) \<Longrightarrow>
    idem_step null s (s\<lparr>is_requests := (is_requests s)[n := (key, Finalize v)]\<rparr>)"
| work_err: "n < length (is_requests s) \<Longrightarrow> is_requests s ! n = (key, Work) \<Longrightarrow>
    idem_step null s (s\<lparr>is_requests := (is_requests s)[n := (key, Release)]\<rparr>)"

inductive idem_reachable :: "'j \<Rightarrow> 'j idem_sys \<Rightarrow> 'j idem_sys \<Rightarrow> bool" for null where
  refl: "idem_reachable null s s"
| step: "idem_reachable null s s' \<Longrightarrow> idem_step null s' s'' \<Longrightarrow> idem_reachable null s s''"

definition owns :: "'j idem_pc \<Rightarrow> bool" where
  "owns pc \<longleftrightarrow> pc = Work \<or> pc = Release \<or> (\<exists>v. pc = Finalize v)"

definition owners :: "string \<Rightarrow> 'j idem_sys \<Rightarrow> nat set" where
  "owners key s = {n. n < length (is_requests s) \<and> (\<exists>pc. is_requests s ! n = (key, pc) \<and> owns pc)}"

section \<open>One key at a time\<close>

definition rows_for :: "string \<Rightarrow> 'j sagas \<Rightarrow> 'j saga_row list" where
  "rows_for key t = filter (has_key key) t"

lemma select_rows: "select_status key t = (case rows_for key t of [] \<Rightarrow> None | r # _ \<Rightarrow> Some (sg_status r, sg_result r))"
  by (induction t) (auto simp: select_status_def fetch_optional_def rows_for_def)

lemma has_key_fixed [simp]:
  "has_key k (r\<lparr>sg_status := a\<rparr>) = has_key k r" "has_key k (r\<lparr>sg_result := b\<rparr>) = has_key k r" "has_key k (r\<lparr>sg_updated_at := c\<rparr>) = has_key k r"
  by (simp_all add: has_key_def)

lemma rows_insert:
  "rows_for k (snd (insert_reservation i now ty key repo t)) =
     (if k = key \<and> rows_for key t = [] then
        [\<lparr>sg_id = i, sg_type = ty, sg_key = Some key, sg_repo = repo, sg_status = ''running'', sg_result = None, sg_updated_at = now\<rparr>]
      else rows_for k t)"
  "fst (insert_reservation i now ty key repo t) = (if rows_for key t = [] then 1 else 0)"
  by (auto simp: insert_reservation_def rows_for_def filter_empty_conv has_key_def)

lemma rows_delete:
  "rows_for k (delete_by_key key t) = (if k = key then [] else rows_for k t)"
  "rows_for k (delete_failed key t) = (if k = key then filter (\<lambda>r. sg_status r \<noteq> ''failed'') (rows_for k t) else rows_for k t)"
  "rows_for k (delete_running key t) = (if k = key then filter (\<lambda>r. sg_status r \<noteq> ''running'') (rows_for k t) else rows_for k t)"
  by (auto simp: rows_for_def delete_by_key_def delete_failed_def delete_running_def delete_where_def has_key_def
        intro!: filter_cong)

lemma rows_complete:
  "rows_for k (update_completed now key v t) =
     (if k = key then map (\<lambda>r. r\<lparr>sg_status := ''completed'', sg_result := Some v, sg_updated_at := now\<rparr>) (rows_for k t) else rows_for k t)"
  by (induction t) (auto simp: rows_for_def update_completed_def update_where_def has_key_def)

lemmas row_effects = rows_insert rows_delete rows_complete

section \<open>Exactly once\<close>

definition answered_value :: "'j idem_pc \<Rightarrow> 'j option" where
  "answered_value pc = (case pc of Answered (Fresh_response v) \<Rightarrow> Some v | Answered (Cached_response v) \<Rightarrow> Some v | _ \<Rightarrow> None)"

definition requests_of :: "string \<Rightarrow> 'j idem_sys \<Rightarrow> (nat \<times> 'j idem_pc) set" where
  "requests_of key s = {(n, pc). n < length (is_requests s) \<and> is_requests s ! n = (key, pc)}"

definition deleting :: "'j idem_pc \<Rightarrow> bool" where
  "deleting pc \<longleftrightarrow> (case pc of Check_delete \<Rightarrow> True | Reserve_delete _ \<Rightarrow> True | _ \<Rightarrow> False)"

definition gives_fresh :: "'j idem_pc \<Rightarrow> bool" where
  "gives_fresh pc \<longleftrightarrow> (case pc of Answered (Fresh_response _) \<Rightarrow> True | _ \<Rightarrow> False)"

definition row_value :: "'j \<Rightarrow> 'j saga_row \<Rightarrow> 'j" where
  "row_value null r = (case sg_result r of Some v \<Rightarrow> v | None \<Rightarrow> null)"

text \<open>The invariant of a key: at most one row, never failed; only a running row has an owner, and only one; every response given so far is the
  result of the completed row, and at most one is the first one.\<close>

definition key_inv :: "'j \<Rightarrow> 'j saga_row list \<Rightarrow> (nat \<times> 'j idem_pc) set \<Rightarrow> bool" where
  "key_inv null rows reqs \<longleftrightarrow>
     length rows \<le> 1 \<and> (\<forall>r \<in> set rows. sg_status r \<noteq> ''failed'') \<and>
     (\<forall>n pc. (n, pc) \<in> reqs \<longrightarrow> \<not> deleting pc) \<and>
     (\<forall>n pc. (n, pc) \<in> reqs \<longrightarrow> owns pc \<longrightarrow> (\<exists>r. rows = [r] \<and> sg_status r = ''running'')) \<and>
     (\<forall>n pc m qc. (n, pc) \<in> reqs \<longrightarrow> (m, qc) \<in> reqs \<longrightarrow> owns pc \<longrightarrow> owns qc \<longrightarrow> n = m) \<and>
     (\<forall>n pc v. (n, pc) \<in> reqs \<longrightarrow> answered_value pc = Some v \<longrightarrow>
        (\<exists>r. rows = [r] \<and> sg_status r = ''completed'' \<and> row_value null r = v)) \<and>
     (\<forall>n pc m qc. (n, pc) \<in> reqs \<longrightarrow> (m, qc) \<in> reqs \<longrightarrow> gives_fresh pc \<longrightarrow> gives_fresh qc \<longrightarrow> n = m)"

lemma pc_simps [simp]:
  "answered_value (Answered (Fresh_response v)) = Some v" "answered_value (Answered (Cached_response v)) = Some v"
  "answered_value (Answered Conflict_reply) = None" "answered_value (Answered Work_failed) = None"
  "answered_value (Answered Db_failed) = None" "answered_value Check_select = None" "answered_value Check_delete = None"
  "answered_value (Reserve_insert k) = None" "answered_value (Reserve_select k) = None" "answered_value (Reserve_delete k) = None"
  "answered_value Work = None" "answered_value (Finalize v) = None" "answered_value Release = None"
  "gives_fresh (Answered (Fresh_response v))" "\<not> gives_fresh (Answered (Cached_response v))" "\<not> gives_fresh Work"
  "\<not> gives_fresh (Finalize v)" "\<not> gives_fresh Release"
  "\<not> deleting Work" "\<not> deleting (Finalize v)" "\<not> deleting Release" "\<not> deleting (Answered a)" "deleting Check_delete"
  "deleting (Reserve_delete k)"
  "owns Work" "owns Release" "owns (Finalize v)" "\<not> owns (Answered a)"
  by (simp_all add: answered_value_def gives_fresh_def deleting_def owns_def)

lemma fresh_value: "gives_fresh pc \<Longrightarrow> answered_value pc \<noteq> None"
  by (auto simp: gives_fresh_def split: idem_pc.splits idem_reply.splits)

lemma owns_value: "owns pc \<Longrightarrow> answered_value pc = None \<and> \<not> gives_fresh pc \<and> \<not> deleting pc"
  by (auto simp: owns_def)

lemma requests_update:
  assumes "n < length (is_requests s)" and "is_requests s ! n = (key, pc)"
  shows "requests_of k (s\<lparr>is_table := t', is_requests := (is_requests s)[n := (key, pc')]\<rparr>) =
    (if k = key then insert (n, pc') (requests_of k s - {(n, pc)}) else requests_of k s)"
    and "requests_of k (s\<lparr>is_requests := (is_requests s)[n := (key, pc')]\<rparr>) =
    (if k = key then insert (n, pc') (requests_of k s - {(n, pc)}) else requests_of k s)"
    and "(n, pc) \<in> requests_of key s"
  using assms by (auto simp: requests_of_def nth_list_update split: if_splits)

definition plain :: "'j idem_pc \<Rightarrow> bool" where
  "plain pc \<longleftrightarrow> \<not> owns pc \<and> answered_value pc = None \<and> \<not> deleting pc"

lemma plain_simps [simp]:
  "plain Check_select" "plain (Reserve_insert k)" "plain (Reserve_select k)" "plain (Answered Conflict_reply)"
  "plain (Answered Work_failed)" "plain (Answered Db_failed)" "plain (next_attempt k)" "plain after_check"
  by (simp_all add: plain_def owns_def deleting_def next_attempt_def after_check_def)

lemma inv_rows: "key_inv null rows reqs \<Longrightarrow> length rows \<le> 1 \<and> (\<forall>r \<in> set rows. sg_status r \<noteq> ''failed'')"
  unfolding key_inv_def by (elim conjE) blast

lemma inv_no_delete: "key_inv null rows reqs \<Longrightarrow> (n, pc) \<in> reqs \<Longrightarrow> \<not> deleting pc"
  unfolding key_inv_def by (elim conjE) blast

lemma inv_running: "key_inv null rows reqs \<Longrightarrow> (n, pc) \<in> reqs \<Longrightarrow> owns pc \<Longrightarrow> \<exists>r. rows = [r] \<and> sg_status r = ''running''"
  unfolding key_inv_def by (elim conjE) blast

lemma inv_one_owner: "key_inv null rows reqs \<Longrightarrow> (n, pc) \<in> reqs \<Longrightarrow> (m, qc) \<in> reqs \<Longrightarrow> owns pc \<Longrightarrow> owns qc \<Longrightarrow> n = m"
  by (erule key_inv_def [THEN iffD1, THEN conjunct2, THEN conjunct2, THEN conjunct2, THEN conjunct2, THEN conjunct1, rule_format])

lemma inv_value:
  "key_inv null rows reqs \<Longrightarrow> (n, pc) \<in> reqs \<Longrightarrow> answered_value pc = Some v \<Longrightarrow>
     \<exists>r. rows = [r] \<and> sg_status r = ''completed'' \<and> row_value null r = v"
  unfolding key_inv_def by (elim conjE) blast

lemma inv_one_fresh:
  "key_inv null rows reqs \<Longrightarrow> (n, pc) \<in> reqs \<Longrightarrow> (m, qc) \<in> reqs \<Longrightarrow> gives_fresh pc \<Longrightarrow> gives_fresh qc \<Longrightarrow> n = m"
  by (erule key_inv_def [THEN iffD1, THEN conjunct2, THEN conjunct2, THEN conjunct2, THEN conjunct2, THEN conjunct2, THEN conjunct2, rule_format])

lemma key_invI:
  assumes "length rows \<le> 1" and "\<And>r. r \<in> set rows \<Longrightarrow> sg_status r \<noteq> ''failed''"
    and "\<And>n pc. (n, pc) \<in> reqs \<Longrightarrow> \<not> deleting pc"
    and "\<And>n pc. (n, pc) \<in> reqs \<Longrightarrow> owns pc \<Longrightarrow> \<exists>r. rows = [r] \<and> sg_status r = ''running''"
    and "\<And>n pc m qc. (n, pc) \<in> reqs \<Longrightarrow> (m, qc) \<in> reqs \<Longrightarrow> owns pc \<Longrightarrow> owns qc \<Longrightarrow> n = m"
    and "\<And>n pc v. (n, pc) \<in> reqs \<Longrightarrow> answered_value pc = Some v \<Longrightarrow>
      \<exists>r. rows = [r] \<and> sg_status r = ''completed'' \<and> row_value null r = v"
    and "\<And>n pc m qc. (n, pc) \<in> reqs \<Longrightarrow> (m, qc) \<in> reqs \<Longrightarrow> gives_fresh pc \<Longrightarrow> gives_fresh qc \<Longrightarrow> n = m"
  shows "key_inv null rows reqs"
  unfolding key_inv_def using assms(1-4,6) by (intro conjI allI impI ballI) (blast intro: assms(5,7))+

lemma inv_replace:
  assumes inv: "key_inv null rows reqs" and "plain pc'"
  shows "key_inv null rows (insert (n, pc') (reqs - X))"
proof -
  have p: "\<not> owns pc'" "answered_value pc' = None" "\<not> deleting pc'" "\<not> gives_fresh pc'"
    using assms(2) fresh_value [of pc'] by (auto simp: plain_def)
  show ?thesis
    by (rule key_invI)
      (use p inv_rows [OF inv] in \<open>auto dest: inv_no_delete [OF inv] inv_running [OF inv] inv_one_owner [OF inv] inv_value [OF inv] inv_one_fresh [OF inv]\<close>)
qed

lemma inv_cached:
  assumes inv: "key_inv null [r] reqs" and "sg_status r = ''completed''"
  shows "key_inv null [r] (insert (n, Answered (Cached_response (row_value null r))) (reqs - X))"
  by (rule key_invI)
    (use assms(2) in \<open>auto dest: inv_no_delete [OF inv] inv_running [OF inv] inv_one_owner [OF inv] inv_value [OF inv] inv_one_fresh [OF inv]\<close>)

lemma inv_owner:
  assumes inv: "key_inv null rows reqs" and pc: "(n, pc) \<in> reqs" "owns pc" and "owns pc'"
  shows "key_inv null rows (insert (n, pc') (reqs - {(n, pc)}))"
  by (rule key_invI)
    (use owns_value [OF assms(4)] inv_rows [OF inv] inv_running [OF inv pc] pc in
      \<open>auto dest: inv_no_delete [OF inv] inv_running [OF inv] inv_one_owner [OF inv] inv_value [OF inv] inv_one_fresh [OF inv]\<close>)

definition quiet :: "(nat \<times> 'j idem_pc) set \<Rightarrow> bool" where
  "quiet reqs \<longleftrightarrow> (\<forall>(n, pc) \<in> reqs. \<not> owns pc \<and> answered_value pc = None \<and> \<not> gives_fresh pc \<and> \<not> deleting pc)"

lemma inv_quiet:
  assumes "quiet reqs" and "length rows \<le> 1" and "\<And>r. r \<in> set rows \<Longrightarrow> sg_status r \<noteq> ''failed''" and "\<not> deleting pc"
    and "owns pc \<Longrightarrow> \<exists>r. rows = [r] \<and> sg_status r = ''running''"
    and "\<And>v. answered_value pc = Some v \<Longrightarrow> \<exists>r. rows = [r] \<and> sg_status r = ''completed'' \<and> row_value null r = v"
  shows "key_inv null rows (insert (n, pc) reqs)"
proof -
  have q: "\<not> owns qc" "answered_value qc = None" "\<not> gives_fresh qc" "\<not> deleting qc" if "(m, qc) \<in> reqs" for m qc
    using assms(1) that by (auto simp: quiet_def)
  show ?thesis by (rule key_invI) (use assms(2-6) in \<open>auto dest: q\<close>)
qed

lemma quiet_none: "key_inv null [] reqs \<Longrightarrow> quiet (reqs - X)"
  using inv_no_delete inv_running inv_value fresh_value by (fastforce simp: quiet_def)

lemma inv_reserve:
  assumes "key_inv null [] reqs" and "sg_status r = ''running''"
  shows "key_inv null [r] (insert (n, Work) (reqs - X))"
  by (rule inv_quiet [OF quiet_none [OF assms(1)]]) (use assms(2) in simp_all)

lemma quiet_others:
  assumes inv: "key_inv null rows reqs" and pc: "(n, pc) \<in> reqs" "owns pc" and "single_valued reqs"
  shows "quiet (reqs - {(n, pc)})"
proof -
  obtain r where r: "rows = [r]" "sg_status r = ''running''" using inv_running [OF inv pc] by blast
  have "\<not> owns qc \<and> answered_value qc = None \<and> \<not> gives_fresh qc \<and> \<not> deleting qc" if "(m, qc) \<in> reqs" "(m, qc) \<noteq> (n, pc)" for m qc
  proof -
    have "\<not> owns qc" using inv_one_owner [OF inv pc(1) that(1) pc(2)] that pc(1) assms(4) by (auto dest: single_valuedD)
    moreover have "answered_value qc = None" using inv_value [OF inv that(1)] r by (cases "answered_value qc") auto
    ultimately show ?thesis using inv_no_delete [OF inv that(1)] fresh_value [of qc] by auto
  qed
  then show ?thesis by (auto simp: quiet_def)
qed

lemma inv_finalize:
  assumes "key_inv null rows reqs" and "(n, Finalize v) \<in> reqs" and "single_valued reqs"
  shows "key_inv null (map (\<lambda>r. r\<lparr>sg_status := ''completed'', sg_result := Some v, sg_updated_at := now\<rparr>) rows)
    (insert (n, Answered (Fresh_response v)) (reqs - {(n, Finalize v)}))"
proof -
  obtain r where "rows = [r]" using inv_running [OF assms(1,2)] by auto
  then show ?thesis
    by (intro inv_quiet quiet_others [OF assms(1,2) _ assms(3)]) (auto simp: row_value_def)
qed

lemma inv_release:
  assumes "key_inv null rows reqs" and "(n, Release) \<in> reqs" and "single_valued reqs"
  shows "key_inv null (filter (\<lambda>r. sg_status r \<noteq> ''running'') rows) (insert (n, Answered Work_failed) (reqs - {(n, Release)}))"
proof -
  obtain r where "rows = [r]" "sg_status r = ''running''" using inv_running [OF assms(1,2)] by auto
  then show ?thesis
    by (intro inv_quiet quiet_others [OF assms(1,2) _ assms(3)]) auto
qed

lemma single_valued_requests: "single_valued (requests_of key s)"
  by (auto simp: requests_of_def single_valued_def)

lemma statement_other_key: "k \<noteq> key \<Longrightarrow> rows_for k (snd (idem_statement env null key pc t)) = rows_for k t"
proof (induction env null key pc t rule: idem_statement.induct)
  case (3 env null key n t)
  then show ?case by (simp add: split_beta Let_def rows_insert(1))
qed (auto simp: row_effects split: option.split)

lemma statement_inv:
  assumes "key_inv null (rows_for key t) reqs" and "(n, pc) \<in> reqs" and "single_valued reqs"
    and "idem_statement env null key pc t = (pc', t')"
  shows "key_inv null (rows_for key t') (insert (n, pc') (reqs - {(n, pc)}))"
proof -
  have not_failed: "\<forall>r \<in> set (rows_for key t). sg_status r \<noteq> ''failed''" and one: "length (rows_for key t) \<le> 1"
    and deletes: "\<not> deleting pc"
    using inv_rows [OF assms(1)] inv_no_delete [OF assms(1,2)] by simp_all
  have rows: "rows_for key t = [] \<or> (\<exists>r. rows_for key t = [r])" using one by (cases "rows_for key t") auto
  show ?thesis
  proof (cases pc)
    case Check_select
    from rows show ?thesis
    proof
      assume "rows_for key t = []"
      with assms Check_select show ?thesis by (auto simp: select_rows intro: inv_replace)
    next
      assume "\<exists>r. rows_for key t = [r]"
      then obtain r where r: "rows_for key t = [r]" by blast
      have "pc' = Answered (Cached_response (row_value null r)) \<and> t' = t \<and> sg_status r = ''completed'' \<or> plain pc' \<and> t' = t"
        using not_failed assms(4) Check_select r by (auto simp: select_rows row_value_def split: if_splits option.splits)
      with assms(1) r show ?thesis using inv_replace inv_cached by metis
    qed
  next
    case (Reserve_insert k)
    obtain i now ty repo where env: "env = (i, now, ty, repo)" by (cases env)
    from rows show ?thesis
    proof
      assume "rows_for key t = []"
      with assms Reserve_insert show ?thesis
        using inv_reserve [of null reqs]
        by (auto simp: env split_beta Let_def rows_insert)
    next
      assume "\<exists>r. rows_for key t = [r]"
      then obtain r where r: "rows_for key t = [r]" by blast
      with assms Reserve_insert show ?thesis
        by (auto simp: env split_beta Let_def rows_insert intro: inv_replace)
    qed
  next
    case (Reserve_select k)
    from rows show ?thesis
    proof
      assume "rows_for key t = []"
      with assms Reserve_select show ?thesis by (auto simp: select_rows intro: inv_replace)
    next
      assume "\<exists>r. rows_for key t = [r]"
      then obtain r where r: "rows_for key t = [r]" by blast
      have "pc' = Answered (Cached_response (row_value null r)) \<and> t' = t \<and> sg_status r = ''completed'' \<or> plain pc' \<and> t' = t"
        using not_failed assms(4) Reserve_select r by (auto simp: select_rows row_value_def split: if_splits)
      with assms(1) r show ?thesis using inv_replace inv_cached by metis
    qed
  next
    case Work
    with assms have "pc' = pc" "t' = t" by simp_all
    moreover have "insert (n, pc) (reqs - {(n, pc)}) = reqs" using assms(2) by blast
    ultimately show ?thesis using assms(1) by simp
  next
    case (Finalize v)
    with assms inv_finalize [OF assms(1) _ assms(3)] show ?thesis by (auto simp: rows_complete)
  next
    case Release
    with assms inv_release [OF assms(1) _ assms(3)] show ?thesis by (auto simp: rows_delete)
  next
    case (Answered r)
    with assms have "pc' = pc" "t' = t" by simp_all
    moreover have "insert (n, pc) (reqs - {(n, pc)}) = reqs" using assms(2) by blast
    ultimately show ?thesis using assms(1) by simp
  qed (use deletes in simp_all)
qed

lemma failure_inv:
  assumes "key_inv null rows reqs" and "(n, pc) \<in> reqs"
  shows "key_inv null rows (insert (n, idem_failure pc) (reqs - {(n, pc)}))"
proof (cases "plain (idem_failure pc)")
  case True
  then show ?thesis by (rule inv_replace [OF assms(1)])
next
  case False
  then have "idem_failure pc = pc" by (cases pc) (auto simp: idem_failure_def)
  moreover have "insert (n, pc) (reqs - {(n, pc)}) = reqs" using assms(2) by blast
  ultimately show ?thesis using assms(1) by simp
qed

definition sys_inv :: "'j \<Rightarrow> 'j idem_sys \<Rightarrow> bool" where
  "sys_inv null s \<longleftrightarrow> (\<forall>key. key_inv null (rows_for key (is_table s)) (requests_of key s))"

lemma requests_arrive:
  "requests_of k (s\<lparr>is_requests := is_requests s @ [(key, Check_select)]\<rparr>) =
     (if k = key then insert (length (is_requests s), Check_select) (requests_of k s) else requests_of k s)"
  by (auto simp: requests_of_def nth_append split: if_splits)

lemma idem_step_inv: "idem_step null s s' \<Longrightarrow> sys_inv null s \<Longrightarrow> sys_inv null s'"
proof (induction rule: idem_step.induct)
  case (arrive s key)
  then show ?case
    using inv_replace [of null _ _ Check_select _ "{}"] by (simp add: sys_inv_def requests_arrive)
next
  case (statement n s key pc env pc' t')
  note upd = requests_update(1,3) [OF statement(1,2)]
  show ?case unfolding sys_inv_def
  proof
    fix k
    show "key_inv null (rows_for k (is_table (s\<lparr>is_table := t', is_requests := (is_requests s)[n := (key, pc')]\<rparr>)))
        (requests_of k (s\<lparr>is_table := t', is_requests := (is_requests s)[n := (key, pc')]\<rparr>))"
      using statement(4) statement_inv [OF _ upd(2) single_valued_requests statement(3)] statement_other_key [where k = k and key = key and env = env and null = null and pc = pc and t = "is_table s"] statement(3)
      by (auto simp: upd(1) sys_inv_def)
  qed
next
  case (failure n s key pc)
  note upd = requests_update(2,3) [OF failure(1,2)]
  from failure(3) failure_inv [OF _ upd(2)] show ?case by (auto simp: sys_inv_def upd(1))
next
  case (work_ok n s key v)
  note upd = requests_update(2,3) [OF work_ok(1,2)]
  from work_ok(3) inv_owner [OF _ upd(2), of null _ "Finalize v"] show ?case by (auto simp: sys_inv_def upd(1))
next
  case (work_err n s key)
  note upd = requests_update(2,3) [OF work_err(1,2)]
  from work_err(3) inv_owner [OF _ upd(2), of null _ Release] show ?case by (auto simp: sys_inv_def upd(1))
qed

lemma idem_reachable_inv: "idem_reachable null s s' \<Longrightarrow> sys_inv null s \<Longrightarrow> sys_inv null s'"
  by (induction rule: idem_reachable.induct) (auto intro: idem_step_inv)

text \<open>
  The handlers decode a stored response (\<open>idem_fast_path\<close>, \<open>idem_reserve\<close>); one that does not decode becomes the default reply. A response
  that decodes what was encoded reaches every caller as the fresh one did.
\<close>

definition cached_body :: "('j \<Rightarrow> 'b option) \<Rightarrow> 'b \<Rightarrow> 'j \<Rightarrow> 'b" where
  "cached_body decode fallback v = (case decode v of Some b \<Rightarrow> b | None \<Rightarrow> fallback)"

lemma cached_body_fresh:
  assumes "key_inv null rows reqs" and "decode (encode b) = Some b"
    and "(m, Answered (Fresh_response (encode b))) \<in> reqs" and "(n, Answered (Cached_response v)) \<in> reqs"
  shows "cached_body decode fallback v = b"
  using inv_value [OF assms(1,3), of "encode b"] inv_value [OF assms(1,4), of v] assms(2) by (auto simp: cached_body_def)

text \<open>C23. Idempotent requests work at most once: from a table without failed reservations, whatever number of requests interleave and whatever
  statements fail, at most one request at a time does the work of a key, at most one is answered with a fresh result, and every response
  given for the key, fresh or cached, carries the same value.\<close>

theorem idempotency_exactly_once:
  assumes "idem_reachable null \<lparr>is_table = t, is_requests = []\<rparr> s"
    and "\<And>key. length (filter (has_key key) t) \<le> 1" and "\<forall>r \<in> set t. sg_status r \<noteq> ''failed''"
  shows "(\<forall>m \<in> owners key s. \<forall>n \<in> owners key s. m = n) \<and>
    (\<forall>(m, pc) \<in> requests_of key s. \<forall>(n, qc) \<in> requests_of key s. \<forall>v w.
       answered_value pc = Some v \<longrightarrow> answered_value qc = Some w \<longrightarrow>
         v = w \<and> (pc = Answered (Fresh_response v) \<longrightarrow> qc = Answered (Fresh_response w) \<longrightarrow> m = n))"
proof -
  have "requests_of k \<lparr>is_table = t, is_requests = []\<rparr> = {}" for k by (simp add: requests_of_def)
  then have "sys_inv null \<lparr>is_table = t, is_requests = []\<rparr>"
    using assms(2,3) by (simp add: sys_inv_def key_inv_def rows_for_def)
  with idem_reachable_inv [OF assms(1)] have inv: "key_inv null (rows_for key (is_table s)) (requests_of key s)"
    by (simp add: sys_inv_def)
  have own: "n \<in> owners key s \<longleftrightarrow> (\<exists>pc. (n, pc) \<in> requests_of key s \<and> owns pc)" for n
    by (auto simp: owners_def requests_of_def)
  have owner: "m = n" if "m \<in> owners key s" "n \<in> owners key s" for m n
    using that inv_one_owner [OF inv] unfolding own by blast
  have same: "v = w" if "(m, pc) \<in> requests_of key s" "(n, qc) \<in> requests_of key s" "answered_value pc = Some v" "answered_value qc = Some w"
    for m pc n qc v w
    using inv_value [OF inv that(1,3)] inv_value [OF inv that(2,4)] by auto
  have fresh: "m = n" if "(m, Answered (Fresh_response v)) \<in> requests_of key s" "(n, Answered (Fresh_response w)) \<in> requests_of key s" for m n v w
    using inv_one_fresh [OF inv that] by simp
  from owner same fresh show ?thesis by blast
qed

section \<open>Concrete runs\<close>

text \<open>The next statement of a request, as a function of the state.\<close>

definition exec_request :: "'j \<Rightarrow> nat \<Rightarrow> 'j idem_sys \<Rightarrow> 'j idem_sys" where
  "exec_request null n s =
     (let (key, pc) = is_requests s ! n;
          (pc', t') = idem_statement (7, 1000, ''trigger_ingest'', ''repo'') null key pc (is_table s)
      in s\<lparr>is_table := t', is_requests := (is_requests s)[n := (key, pc')]\<rparr>)"

lemma exec_request_step: "n < length (is_requests s) \<Longrightarrow> idem_step null s (exec_request null n s)"
  unfolding exec_request_def split_beta Let_def
  by (rule idem_step.statement [OF _ prod.collapse [symmetric] prod.collapse [symmetric]])

lemma exec_request_length: "length (is_requests (exec_request null n s)) = length (is_requests s)"
  by (simp add: exec_request_def split_beta Let_def)

lemma exec_run:
  "idem_reachable null s0 s \<Longrightarrow> list_all (\<lambda>n. n < length (is_requests s)) ns \<Longrightarrow> idem_reachable null s0 (fold (exec_request null) ns s)"
  by (induction ns arbitrary: s) (simp_all add: exec_request_length idem_reachable.step exec_request_step)

definition two_requests :: "int saga_row list \<Rightarrow> int idem_sys" where
  "two_requests t = \<lparr>is_table = t, is_requests = [(''k'', Check_select), (''k'', Check_select)]\<rparr>"

lemma two_requests_reachable: "idem_reachable null \<lparr>is_table = t, is_requests = []\<rparr> (two_requests t)"
proof -
  let ?s = "\<lparr>is_table = t, is_requests = []\<rparr> :: int idem_sys"
  have "idem_reachable null ?s (?s\<lparr>is_requests := is_requests ?s @ [(''k'', Check_select)]\<rparr>)"
    by (rule idem_reachable.step [OF idem_reachable.refl idem_step.arrive])
  from idem_reachable.step [OF this idem_step.arrive [of null _ "''k''"]] show ?thesis by (simp add: two_requests_def)
qed

definition failed_reservation :: "int saga_row" where
  "failed_reservation =
     \<lparr>sg_id = 1, sg_type = ''trigger_ingest'', sg_key = Some ''k'', sg_repo = ''repo'', sg_status = ''failed'', sg_result = None,
      sg_updated_at = 0\<rparr>"

text \<open>C24. A failed reservation breaks the guarantee: the check deletes the row of its key without looking at the status again, so a request that saw
  a failed row deletes the reservation another request has made since; both then own the key at the same time and do the work.\<close>

theorem idempotency_check_race:
  "\<exists>s. idem_reachable (0 :: int) \<lparr>is_table = [failed_reservation], is_requests = []\<rparr> s \<and> owners ''k'' s = {0, 1}"
proof (intro exI conjI)
  let ?s = "fold (exec_request 0) [0, 1, 1, 1, 0, 0] (two_requests [failed_reservation])"
  show "idem_reachable 0 \<lparr>is_table = [failed_reservation], is_requests = []\<rparr> ?s"
    by (rule exec_run [OF two_requests_reachable]) (simp add: two_requests_def)
  have "is_requests ?s = [(''k'', Work), (''k'', Work)]" by code_simp
  then show "owners ''k'' ?s = {0, 1}" by (auto simp: owners_def nth_Cons' split: if_splits)
qed

theorem idempotency_exactly_once_witness:
  "owners ''k'' (fold (exec_request 0) [0, 1, 1, 1, 0] (two_requests [])) = {1}
   \<and> is_requests (fold (exec_request 0) [0, 1, 1, 1, 0] (two_requests [])) = [(''k'', Reserve_select 0), (''k'', Work)]"
proof -
  let ?s = "fold (exec_request 0) [0, 1, 1, 1, 0] (two_requests [])"
  have "idem_reachable 0 \<lparr>is_table = [], is_requests = []\<rparr> ?s"
    by (rule exec_run [OF two_requests_reachable]) (simp add: two_requests_def)
  from idempotency_exactly_once [OF this, of "''k''"] have one: "\<forall>m \<in> owners ''k'' ?s. \<forall>n \<in> owners ''k'' ?s. m = n" by simp
  have run: "is_requests ?s = [(''k'', Reserve_select 0), (''k'', Work)]" by code_simp
  then have "1 \<in> owners ''k'' ?s" by (simp add: owners_def)
  with one have "owners ''k'' ?s = {1}" by blast
  with run show ?thesis by blast
qed

section \<open>The sequential functions are runs of the machine\<close>

definition reserved_pc :: "'j idempotency_reservation \<Rightarrow> 'j idem_pc" where
  "reserved_pc r = (case r of Reserved_key \<Rightarrow> Work | Cached_result v \<Rightarrow> Answered (Cached_response v) | In_progress \<Rightarrow> Answered Conflict_reply)"

inductive alone :: "uuid \<times> instant \<times> string \<times> string \<Rightarrow> 'j \<Rightarrow> string \<Rightarrow> 'j idem_pc \<times> 'j sagas \<Rightarrow> 'j idem_pc \<times> 'j sagas \<Rightarrow> bool" for env null key where
  stop: "alone env null key st st"
| go: "alone env null key (idem_statement env null key pc t) st' \<Longrightarrow> alone env null key (pc, t) st'"

lemma reserve_attempts_alone:
  "k + n = 3 \<Longrightarrow> alone (i, now, ty, repo) null key (if n = 0 then Answered Conflict_reply else Reserve_insert k, t)
     (case reserve_attempts n i now null ty key repo t of (r, t') \<Rightarrow> (reserved_pc r, t'))"
proof (induction n arbitrary: k t)
  case 0
  then show ?case by (simp add: reserved_pc_def alone.stop)
next
  case (Suc n)
  let ?ins = "insert_reservation i now ty key repo t"
  have after: "alone (i, now, ty, repo) null key (next_attempt k, t')
      (case reserve_attempts n i now null ty key repo t' of (r, t') \<Rightarrow> (reserved_pc r, t'))" for t'
    using Suc.IH [of "Suc k" t'] Suc.prems by (simp add: next_attempt_def split: if_splits)
  have "alone (i, now, ty, repo) null key (Reserve_select k, snd ?ins)
      (case select_status key (snd ?ins) of
         Some (status, result) \<Rightarrow>
           if status = ''completed'' then (Answered (Cached_response (case result of Some v \<Rightarrow> v | None \<Rightarrow> null)), snd ?ins)
           else if status = ''failed'' then (case reserve_attempts n i now null ty key repo (delete_failed key (snd ?ins)) of (r, t') \<Rightarrow> (reserved_pc r, t'))
           else (Answered Conflict_reply, snd ?ins)
       | None \<Rightarrow> (case reserve_attempts n i now null ty key repo (snd ?ins) of (r, t') \<Rightarrow> (reserved_pc r, t')))"
  proof (cases "\<exists>result. select_status key (snd ?ins) = Some (''failed'', result)")
    case True
    have "alone (i, now, ty, repo) null key (Reserve_delete k, snd ?ins)
        (case reserve_attempts n i now null ty key repo (delete_failed key (snd ?ins)) of (r, t') \<Rightarrow> (reserved_pc r, t'))"
      by (rule alone.go) (use after in simp)
    with True show ?thesis by (auto intro: alone.go)
  next
    case False
    then show ?thesis
      by (intro alone.go) (use after in \<open>auto split: option.split intro: alone.stop\<close>)
  qed
  then have "alone (i, now, ty, repo) null key (if fst ?ins = 1 then Work else Reserve_select k, snd ?ins)
      (case reserve_attempts (Suc n) i now null ty key repo t of (r, t') \<Rightarrow> (reserved_pc r, t'))"
    by (cases "fst ?ins = 1") (auto simp: split_beta Let_def reserved_pc_def alone.stop split: option.splits)
  then show ?case by (intro alone.go) (simp add: split_beta Let_def)
qed

end
