(* ===== verification/Ingest_Jobs.thy ===== *)
theory Ingest_Jobs
  imports Rust_Text
begin

text \<open>
  Ingestion jobs: their table (\<open>akashic-store-pg/src/repos/ingestion_job.rs\<close>), the run of a job in the background
  (\<open>ingestion/pipeline.rs\<close> with the status updates of \<open>ingestion/stages.rs\<close>) and the service calls that start jobs
  (\<open>akashic-ingestion/src/services.rs\<close>): first as handlers that run alone, then as a machine of concurrent requests, spawned tasks, runs of
  the command line tool and restarts, which interleaves at every awaited call of a request.

  What a stage computes, and whether it fails, is a field of \<open>run_env\<close>; the calls of the job repository are modelled. \<open>budget\<close> is the
  number of repository calls of a run that the database still answers, so that it can go away at any point. Counts are \<open>i32\<close>
  values that the code only stores.
\<close>

section \<open>The table\<close>

record job_row =
  jb_id :: uuid
  jb_repo :: string
  jb_git_ref :: "string option"
  jb_status :: string
  jb_total_files :: "int option"
  jb_processed_files :: "int option"
  jb_total_chunks :: "int option"
  jb_error :: "string option"
  jb_started_at :: instant
  jb_completed_at :: "instant option"
  jb_has_checkpoint :: bool
  jb_resumed_from :: "uuid option"

type_synonym jobs = "job_row list"

definition new_job :: "uuid \<Rightarrow> instant \<Rightarrow> string \<Rightarrow> string \<Rightarrow> uuid option \<Rightarrow> job_row" where
  "new_job i now repo git_ref resumed =
     \<lparr>jb_id = i, jb_repo = repo, jb_git_ref = Some git_ref, jb_status = ''pending'', jb_total_files = Some 0,
      jb_processed_files = Some 0, jb_total_chunks = Some 0, jb_error = None, jb_started_at = now, jb_completed_at = None,
      jb_has_checkpoint = False, jb_resumed_from = resumed\<rparr>"

definition create_job :: "uuid \<Rightarrow> instant \<Rightarrow> string \<Rightarrow> string \<Rightarrow> jobs \<Rightarrow> uuid \<times> jobs" where
  "create_job i now repo git_ref t = (i, t @ [new_job i now repo git_ref None])"

definition create_job_resumed :: "uuid \<Rightarrow> instant \<Rightarrow> string \<Rightarrow> string \<Rightarrow> uuid \<Rightarrow> jobs \<Rightarrow> uuid \<times> jobs" where
  "create_job_resumed i now repo git_ref resumed t = (i, t @ [new_job i now repo git_ref (Some resumed)])"

definition coalesce :: "'a option \<Rightarrow> 'a option \<Rightarrow> 'a option" where
  "coalesce a b = (case a of Some _ \<Rightarrow> a | None \<Rightarrow> b)"

definition update_job_status ::
  "instant \<Rightarrow> uuid \<Rightarrow> string \<Rightarrow> int option \<Rightarrow> int option \<Rightarrow> string option \<Rightarrow> jobs \<Rightarrow> int option \<times> jobs" where
  "update_job_status now job status processed chunks err t =
     (let completed = (if status = ''done'' \<or> status = ''failed'' then Some now else None);
          total_files = Option.bind (fetch_optional (\<lambda>r. jb_id r = job) t) jb_total_files
      in (total_files,
          update_where (\<lambda>r. jb_id r = job)
            (\<lambda>r. r\<lparr>jb_status := status, jb_processed_files := coalesce processed (jb_processed_files r),
                   jb_total_chunks := coalesce chunks (jb_total_chunks r), jb_error := coalesce err (jb_error r),
                   jb_completed_at := coalesce completed (jb_completed_at r)\<rparr>) t))"

definition set_total_files :: "uuid \<Rightarrow> int \<Rightarrow> jobs \<Rightarrow> jobs" where
  "set_total_files job n_files = update_where (\<lambda>r. jb_id r = job) (\<lambda>r. r\<lparr>jb_total_files := Some n_files\<rparr>)"

definition terminal :: "string \<Rightarrow> bool" where
  "terminal status \<longleftrightarrow> status \<in> {''done'', ''completed'', ''failed''}"

definition has_active_job :: "string \<Rightarrow> jobs \<Rightarrow> bool" where
  "has_active_job repo t \<longleftrightarrow> (\<exists>r \<in> set t. jb_repo r = repo \<and> \<not> terminal (jb_status r))"

text \<open>\<open>ORDER BY started_at DESC LIMIT 1\<close>; PostgreSQL leaves the choice among equal times open, here the first row is taken.\<close>

definition newest :: "job_row list \<Rightarrow> job_row option" where
  "newest rs = (case sort_key (\<lambda>r. - jb_started_at r) rs of [] \<Rightarrow> None | r # _ \<Rightarrow> Some r)"

definition latest_job :: "string \<Rightarrow> jobs \<Rightarrow> job_row option" where
  "latest_job repo t = newest (filter (\<lambda>r. jb_repo r = repo) t)"

definition get_last_job_git_ref :: "string \<Rightarrow> jobs \<Rightarrow> string option" where
  "get_last_job_git_ref repo t = Option.bind (latest_job repo t) jb_git_ref"

definition find_resumable_job :: "string option \<Rightarrow> string \<Rightarrow> jobs \<Rightarrow> (uuid \<times> string \<times> string option) option" where
  "find_resumable_job source_type repo t =
     map_option (\<lambda>r. (jb_id r, case jb_git_ref r of None \<Rightarrow> [] | Some g \<Rightarrow> g, source_type))
       (newest (filter (\<lambda>r. jb_repo r = repo \<and> jb_status r = ''failed'' \<and> jb_has_checkpoint r) t))"

definition mark_stale_jobs_failed :: "instant \<Rightarrow> jobs \<Rightarrow> int \<times> jobs" where
  "mark_stale_jobs_failed now t =
     (let stale = (\<lambda>r. \<not> terminal (jb_status r) \<and> jb_started_at r < now - seconds 600)
      in (int (rows_affected stale t),
          update_where stale (\<lambda>r. r\<lparr>jb_status := ''failed'', jb_error := Some ''Backend restarted during ingestion'',
            jb_completed_at := Some now\<rparr>) t))"

section \<open>The run of a job\<close>

record run_env =
  rn_source :: string
  rn_crawl :: "string + nat"
  rn_clean_docs :: "string + unit"
  rn_pages :: "(string + nat) list"
  rn_clone :: "string + unit"
  rn_analyze :: "string + int"
  rn_repository_node :: "string + unit"
  rn_chunk :: "string + string list"
  rn_below_threshold :: "int \<Rightarrow> nat \<Rightarrow> bool"
  rn_ratio_texts :: "string \<times> string"
  rn_embed :: "(int \<times> int) list \<times> (string + int \<times> int)"
  rn_resolve :: "string + unit"
  rn_commit :: "string + unit"
  rn_after_commit :: "string + unit"

text \<open>The state of a run: the table, the calls the database still answers. A step gives a result or the error that ends the run.\<close>

type_synonym 'a run = "jobs \<times> nat \<Rightarrow> (string + 'a) \<times> jobs \<times> nat"

definition run_bind :: "'a run \<Rightarrow> ('a \<Rightarrow> 'b run) \<Rightarrow> 'b run" where
  "run_bind m f st = (case m st of (Inl e, st') \<Rightarrow> (Inl e, st') | (Inr x, st') \<Rightarrow> f x st')"

definition lift_stage :: "string + 'a \<Rightarrow> 'a run" where
  "lift_stage r st = (r, st)"

definition repo_call :: "(jobs \<Rightarrow> jobs) \<Rightarrow> unit run" where
  "repo_call f = (\<lambda>(t, budget). case budget of 0 \<Rightarrow> (Inl ''database error'', t, 0) | Suc n \<Rightarrow> (Inr (), f t, n))"

definition report :: "instant \<Rightarrow> uuid \<Rightarrow> string \<Rightarrow> int option \<Rightarrow> int option \<Rightarrow> string option \<Rightarrow> unit run" where
  "report now job status processed chunks err = repo_call (\<lambda>t. snd (update_job_status now job status processed chunks err t))"

fun report_all :: "instant \<Rightarrow> uuid \<Rightarrow> (int \<times> int) list \<Rightarrow> unit run" where
  "report_all now job [] = lift_stage (Inr ())"
| "report_all now job ((p, c) # ps) = run_bind (report now job ''storing'' (Some p) (Some c) None) (\<lambda>_. report_all now job ps)"

text \<open>The loop over the pages of a website: every fifth page and the last one report progress.\<close>

fun store_pages :: "instant \<Rightarrow> uuid \<Rightarrow> nat \<Rightarrow> nat \<Rightarrow> nat \<Rightarrow> (string + nat) list \<Rightarrow> nat run" where
  "store_pages now job n i sections [] = lift_stage (Inr sections)"
| "store_pages now job n i sections (page # pages) =
     run_bind (lift_stage page) (\<lambda>stored.
       let sections = sections + stored in
       if (i + 1) mod 5 = 0 \<or> i + 1 = n then
         run_bind (report now job ''storing'' (Some (int (i + 1))) (Some (int sections)) None)
           (\<lambda>_. store_pages now job n (i + 1) sections pages)
       else store_pages now job n (i + 1) sections pages)"

definition ingest_pages :: "instant \<Rightarrow> uuid \<Rightarrow> run_env \<Rightarrow> unit run" where
  "ingest_pages now job env =
     (let n = length (rn_pages env) in
      run_bind (lift_stage (rn_clean_docs env)) (\<lambda>_.
      run_bind (repo_call (set_total_files job (int n))) (\<lambda>_.
      run_bind (report now job ''storing'' None None None) (\<lambda>_.
      run_bind (store_pages now job n 0 0 (rn_pages env)) (\<lambda>sections.
      report now job ''done'' (Some (int n)) (Some (int sections)) None)))))"

text \<open>The completeness ratio and the threshold are printed by \<open>f64\<close> formatting; their texts are arguments.\<close>

definition ratio_gate_bail_message :: "string \<times> string \<Rightarrow> nat \<Rightarrow> int \<Rightarrow> string \<Rightarrow> string" where
  "ratio_gate_bail_message ratio_texts failed_count total_files failed_paths_joined =
     ''ingest aborted: completeness '' @ fst ratio_texts @ '' below threshold '' @ snd ratio_texts @ '' ('' @ dec_of_nat failed_count
       @ '' of '' @ dec_of_int total_files @ '' files failed); failed files: '' @ failed_paths_joined"

definition run_repository :: "instant \<Rightarrow> uuid \<Rightarrow> run_env \<Rightarrow> (int \<times> int) run" where
  "run_repository now job env =
     run_bind (report now job ''cloning'' None None None) (\<lambda>_.
     run_bind (lift_stage (rn_clone env)) (\<lambda>_.
     run_bind (report now job ''analyzing'' None None None) (\<lambda>_.
     run_bind (lift_stage (rn_analyze env)) (\<lambda>total_files.
     run_bind (repo_call (set_total_files job total_files)) (\<lambda>_.
     run_bind (report now job ''parsing'' None None None) (\<lambda>_.
     run_bind (lift_stage (rn_repository_node env)) (\<lambda>_.
     run_bind (lift_stage (rn_chunk env)) (\<lambda>failed_files.
     run_bind (report now job ''storing'' None None None) (\<lambda>_.
     run_bind (report_all now job (fst (rn_embed env))) (\<lambda>_.
     run_bind (lift_stage (snd (rn_embed env))) (\<lambda>(processed, chunks).
     run_bind (lift_stage (rn_resolve env)) (\<lambda>_.
     if rn_below_threshold env total_files (length failed_files) then
       run_bind (report now job ''failed'' (Some processed) (Some chunks)
           (Some (''completeness '' @ fst (rn_ratio_texts env) @ '' below threshold '' @ snd (rn_ratio_texts env)
             @ ''; failed files: '' @ join_with '', '' failed_files))) (\<lambda>_.
         lift_stage (Inl (ratio_gate_bail_message (rn_ratio_texts env) (length failed_files) total_files (join_with '', '' failed_files))))
     else
       run_bind (lift_stage (rn_commit env)) (\<lambda>_.
       run_bind (lift_stage (rn_after_commit env)) (\<lambda>_.
       run_bind (report now job ''done'' (Some processed) (Some chunks) None) (\<lambda>_.
       lift_stage (Inr (processed, chunks)))))))))))))))))"

definition run_inner :: "instant \<Rightarrow> uuid \<Rightarrow> run_env \<Rightarrow> (int \<times> int) run" where
  "run_inner now job env =
     (if rn_source env = ''website'' then
        run_bind (report now job ''crawling'' None None None) (\<lambda>_.
        run_bind (lift_stage (rn_crawl env)) (\<lambda>_.
        run_bind (ingest_pages now job env) (\<lambda>_. lift_stage (Inr (0, 0)))))
      else run_repository now job env)"

text \<open>The spawned task of \<open>start\<close> and \<open>start_resume\<close>: an error is recorded as the failure of the job, if the database answers.\<close>

definition job_task :: "instant \<Rightarrow> uuid \<Rightarrow> run_env \<Rightarrow> jobs \<times> nat \<Rightarrow> jobs \<times> nat" where
  "job_task now job env st =
     (case run_inner now job env st of
        (Inr _, st') \<Rightarrow> st'
      | (Inl e, st') \<Rightarrow> snd (report now job ''failed'' None None (Some e) st'))"

section \<open>The service\<close>

datatype service_error = Conflict | Not_found | Bad_request | Internal

definition resolve_reingest_git_ref :: "string option \<Rightarrow> string option \<Rightarrow> string" where
  "resolve_reingest_git_ref query_branch last_job_ref =
     (case query_branch of
        Some b \<Rightarrow> if trim b \<noteq> [] then b else (case last_job_ref of Some r \<Rightarrow> if trim r \<noteq> [] then r else [] | None \<Rightarrow> [])
      | None \<Rightarrow> (case last_job_ref of Some r \<Rightarrow> if trim r \<noteq> [] then r else [] | None \<Rightarrow> []))"

definition trigger_ingest :: "uuid \<Rightarrow> instant \<Rightarrow> bool \<Rightarrow> string \<Rightarrow> string \<Rightarrow> string \<Rightarrow> jobs \<Rightarrow> (service_error + uuid) \<times> jobs" where
  "trigger_ingest i now source_saved repo git_ref source t =
     (if has_active_job repo t then (Inl Conflict, t)
      else let (job, t) = create_job i now repo git_ref t
           in if source = ''gitlab'' \<and> \<not> source_saved then (Inl Internal, t) else (Inr job, t))"

definition reingest :: "uuid \<Rightarrow> instant \<Rightarrow> string option \<Rightarrow> string \<Rightarrow> jobs \<Rightarrow> (service_error + uuid) \<times> jobs" where
  "reingest i now branch repo t =
     (if has_active_job repo t then (Inl Conflict, t)
      else let (job, t) = create_job i now repo (resolve_reingest_git_ref branch (get_last_job_git_ref repo t)) t
           in (Inr job, t))"

definition resume_ingest :: "uuid \<Rightarrow> instant \<Rightarrow> string option \<Rightarrow> string \<Rightarrow> jobs \<Rightarrow> (service_error + uuid) \<times> jobs" where
  "resume_ingest i now source_type repo t =
     (case find_resumable_job source_type repo t of
        None \<Rightarrow> (Inl Not_found, t)
      | Some (prev_job, git_ref, _) \<Rightarrow>
          let (job, t) = create_job_resumed i now repo git_ref prev_job t in (Inr job, t))"

text \<open>Approving a submitted website: its row, if any, as repository, status and seed URL.\<close>

definition approve_source ::
  "uuid \<Rightarrow> instant \<Rightarrow> bool \<Rightarrow> (string \<times> string \<times> string option) option \<Rightarrow> jobs \<Rightarrow> (service_error + uuid) \<times> jobs" where
  "approve_source i now status_saved src t =
     (case src of
        None \<Rightarrow> (Inl Not_found, t)
      | Some (repo, status, seed_url) \<Rightarrow>
          if status \<noteq> ''pending_review'' then (Inl Conflict, t)
          else if has_active_job repo t then (Inl Conflict, t)
          else if seed_url = None then (Inl Bad_request, t)
          else let (job, t) = create_job i now repo [] t
               in if \<not> status_saved then (Inl Internal, t) else (Inr job, t))"

section \<open>A finished task leaves a terminal job\<close>

definition status_of :: "uuid \<Rightarrow> jobs \<Rightarrow> string option" where
  "status_of job t = map_option jb_status (fetch_optional (\<lambda>r. jb_id r = job) t)"

definition known :: "uuid \<Rightarrow> jobs \<Rightarrow> bool" where
  "known job t \<longleftrightarrow> (\<exists>r \<in> set t. jb_id r = job)"

lemma fetch_update_same:
  "(\<And>r. p r \<Longrightarrow> p (f r)) \<Longrightarrow> fetch_optional p (update_where p f t) = map_option f (fetch_optional p t)"
  by (induction t) (auto simp: fetch_optional_def update_where_def)

lemma status_of_update:
  "status_of job (snd (update_job_status now job status p c e t)) = (if known job t then Some status else None)"
proof -
  have "fetch_optional (\<lambda>r. jb_id r = job) (snd (update_job_status now job status p c e t)) =
      map_option (\<lambda>r. r\<lparr>jb_status := status, jb_processed_files := coalesce p (jb_processed_files r),
                   jb_total_chunks := coalesce c (jb_total_chunks r), jb_error := coalesce e (jb_error r),
                   jb_completed_at := coalesce (if status = ''done'' \<or> status = ''failed'' then Some now else None) (jb_completed_at r)\<rparr>)
        (fetch_optional (\<lambda>r. jb_id r = job) t)"
    by (simp add: update_job_status_def Let_def fetch_update_same)
  moreover have "fetch_optional (\<lambda>r. jb_id r = job) t = None \<longleftrightarrow> \<not> known job t"
    by (auto simp: fetch_optional_None known_def)
  ultimately show ?thesis by (cases "fetch_optional (\<lambda>r. jb_id r = job) t") (auto simp: status_of_def)
qed

text \<open>A step of the run of a job only writes the row of that job, and never its repository or start.\<close>

definition own_row :: "uuid \<Rightarrow> jobs \<Rightarrow> jobs \<Rightarrow> bool" where
  "own_row job = list_all2 (\<lambda>r r'. if jb_id r = job then jb_id r' = job \<and> jb_repo r' = jb_repo r \<and> jb_started_at r' = jb_started_at r
     else r' = r)"

lemma own_row_refl: "own_row job t t"
  by (simp add: own_row_def list_all2_refl)

lemma own_row_trans: "own_row job t u \<Longrightarrow> own_row job u v \<Longrightarrow> own_row job t v"
  unfolding own_row_def by (erule (1) list_all2_trans [rotated]) (auto split: if_splits)

lemma own_row_update_where:
  "(\<And>r. jb_id (f r) = jb_id r \<and> jb_repo (f r) = jb_repo r \<and> jb_started_at (f r) = jb_started_at r) \<Longrightarrow>
   own_row job t (update_where (\<lambda>r. jb_id r = job) f t)"
  by (induction t) (auto simp: own_row_def update_where_def)

lemma own_row_update:
  "own_row job t (snd (update_job_status now job status p c e t))" "own_row job t (set_total_files job n t)"
  by (simp_all add: update_job_status_def set_total_files_def Let_def own_row_update_where)

lemma own_row_known: "own_row job t t' \<Longrightarrow> known job t' = known job t"
  unfolding own_row_def by (induction rule: list_all2_induct) (auto simp: known_def split: if_splits)

text \<open>\<open>uses k m\<close>: the step makes at most \<open>k\<close> calls when enough are left, and writes only the row of the job.\<close>

definition uses :: "uuid \<Rightarrow> nat \<Rightarrow> 'a run \<Rightarrow> bool" where
  "uses job k m \<longleftrightarrow> (\<forall>t b r t' b'. m (t, b) = (r, t', b') \<longrightarrow> own_row job t t' \<and> (k \<le> b \<longrightarrow> b - k \<le> b'))"

lemma uses_mono: "uses job k m \<Longrightarrow> k \<le> l \<Longrightarrow> uses job l m"
  unfolding uses_def by fastforce

lemma uses_lift: "uses job 0 (lift_stage r)"
  by (simp add: uses_def lift_stage_def own_row_refl)

lemma uses_report: "uses job 1 (report now job status p c e)" "uses job 1 (repo_call (set_total_files job n))"
  by (auto simp: uses_def report_def repo_call_def own_row_refl own_row_update split: nat.splits)

lemma uses_bind: "uses job k m \<Longrightarrow> (\<And>x. uses job l (f x)) \<Longrightarrow> uses job (k + l) (run_bind m f)"
proof -
  assume m: "uses job k m" and f: "\<And>x. uses job l (f x)"
  show "uses job (k + l) (run_bind m f)"
    unfolding uses_def
  proof (intro allI impI)
    fix t b r t' b'
    assume run: "run_bind m f (t, b) = (r, t', b')"
    obtain r1 t1 b1 where first: "m (t, b) = (r1, t1, b1)" by (metis prod_cases3)
    from m first have k1: "own_row job t t1" "k \<le> b \<Longrightarrow> b - k \<le> b1" by (auto simp: uses_def)
    show "own_row job t t' \<and> (k + l \<le> b \<longrightarrow> b - (k + l) \<le> b')"
    proof (cases r1)
      case (Inl e)
      with run first k1 show ?thesis by (auto simp: run_bind_def)
    next
      case (Inr x)
      with run first have "f x (t1, b1) = (r, t', b')" by (simp add: run_bind_def)
      with f [of x] have k2: "own_row job t1 t'" "l \<le> b1 \<Longrightarrow> b1 - l \<le> b'" by (auto simp: uses_def)
      show ?thesis using own_row_trans [OF k1(1) k2(1)] k1(2) k2(2) by (cases "k \<le> b") (simp_all, linarith)
    qed
  qed
qed

lemma uses_if: "uses job k a \<Longrightarrow> uses job k b \<Longrightarrow> uses job k (if c then a else b)"
  by simp

lemma uses_report_all: "uses job (length ps) (report_all now job ps)"
proof (induction ps)
  case (Cons a ps)
  then show ?case using uses_bind [OF uses_report(1), where l = "length ps"] by (cases a) simp
qed (simp add: uses_lift)

lemma uses_store_pages: "uses job (length pages) (store_pages now job n i sections pages)"
proof (induction pages arbitrary: i sections)
  case (Cons page pages)
  have "uses job (1 + length pages)
      (let sections = sections + stored in
       if (i + 1) mod 5 = 0 \<or> i + 1 = n then
         run_bind (report now job ''storing'' (Some (int (i + 1))) (Some (int sections)) None) (\<lambda>_. store_pages now job n (i + 1) sections pages)
       else store_pages now job n (i + 1) sections pages)" for stored
    unfolding Let_def by (intro uses_if uses_bind uses_report(1) Cons.IH) (rule uses_mono [OF Cons.IH], simp)
  from uses_bind [OF uses_lift this] show ?case by (simp add: Let_def)
qed (simp add: uses_lift)

definition calls_needed :: "run_env \<Rightarrow> nat" where
  "calls_needed env = 7 + length (fst (rn_embed env)) + length (rn_pages env)"

lemma uses_ingest_pages: "uses job (3 + length (rn_pages env)) (ingest_pages now job env)"
proof -
  have "uses job (0 + (1 + (1 + (length (rn_pages env) + 1)))) (ingest_pages now job env)"
    unfolding ingest_pages_def Let_def by (intro uses_bind uses_lift uses_report uses_store_pages)
  then show ?thesis by (simp add: numeral_3_eq_3)
qed

lemma uses_run_repository: "uses job (6 + length (fst (rn_embed env))) (run_repository now job env)"
proof -
  have "uses job (1 + (0 + (1 + (0 + (1 + (1 + (0 + (0 + (1 + (length (fst (rn_embed env)) + (0 + (0 + 1)))))))))))) (run_repository now job env)"
    unfolding run_repository_def split_beta
    by (intro uses_bind uses_lift uses_report uses_report_all uses_if)
       (rule uses_mono [OF uses_bind [OF uses_report(1) uses_lift]] uses_mono [OF uses_bind [OF uses_lift uses_bind [OF uses_lift uses_bind [OF uses_report(1) uses_lift]]]]; simp)+
  then show ?thesis by (rule uses_mono) simp
qed

lemma uses_run_inner: "uses job (calls_needed env - 1) (run_inner now job env)"
proof (cases "rn_source env = ''website''")
  case True
  have "uses job (1 + (0 + ((3 + length (rn_pages env)) + 0))) (run_inner now job env)"
    unfolding run_inner_def if_P [OF True] by (intro uses_bind uses_lift uses_report uses_ingest_pages)
  then show ?thesis by (rule uses_mono) (simp add: calls_needed_def)
next
  case False
  then show ?thesis unfolding run_inner_def
    by (simp only: if_False) (rule uses_mono [OF uses_run_repository], simp add: calls_needed_def)
qed

text \<open>A run that succeeds reported \<open>done\<close> last.\<close>

definition ends_done :: "uuid \<Rightarrow> 'a run \<Rightarrow> bool" where
  "ends_done job m \<longleftrightarrow> (\<forall>t b x t' b'. m (t, b) = (Inr x, t', b') \<longrightarrow> status_of job t' = (if known job t then Some ''done'' else None))"

lemma ends_done_bind: "uses job k m \<Longrightarrow> (\<And>x. ends_done job (f x)) \<Longrightarrow> ends_done job (run_bind m f)"
proof -
  assume m: "uses job k m" and f: "\<And>x. ends_done job (f x)"
  show "ends_done job (run_bind m f)"
    unfolding ends_done_def
  proof (intro allI impI)
    fix t b x t' b'
    assume run: "run_bind m f (t, b) = (Inr x, t', b')"
    obtain r1 t1 b1 where first: "m (t, b) = (r1, t1, b1)" by (metis prod_cases3)
    with run obtain y where y: "r1 = Inr y" by (cases r1) (auto simp: run_bind_def)
    with run first have "f y (t1, b1) = (Inr x, t', b')" by (simp add: run_bind_def)
    with f [of y] have "status_of job t' = (if known job t1 then Some ''done'' else None)" unfolding ends_done_def by blast
    moreover have "known job t1 = known job t" using m first own_row_known by (auto simp: uses_def)
    ultimately show "status_of job t' = (if known job t then Some ''done'' else None)" by simp
  qed
qed

lemma ends_done_report: "ends_done job (report now job ''done'' p c e)"
  by (auto simp: ends_done_def report_def repo_call_def status_of_update split: nat.splits)

lemma run_bind_Inr: "run_bind m f st = (Inr x, st') \<longleftrightarrow> (\<exists>y st1. m st = (Inr y, st1) \<and> f y st1 = (Inr x, st'))"
  by (cases "m st"; cases "fst (m st)") (auto simp: run_bind_def)

lemma ends_done_then: "ends_done job m \<Longrightarrow> ends_done job (run_bind m (\<lambda>_. lift_stage (Inr x)))"
  unfolding ends_done_def run_bind_Inr lift_stage_def by (metis prod.inject)

lemma ends_done_fail: "ends_done job (run_bind m (\<lambda>_. lift_stage (Inl e)))"
  by (simp add: ends_done_def run_bind_Inr lift_stage_def)

lemma run_inner_ends_done: "ends_done job (run_inner now job env)"
proof (cases "rn_source env = ''website''")
  case True
  have pages: "ends_done job (ingest_pages now job env)"
    unfolding ingest_pages_def Let_def by (intro ends_done_bind ends_done_report) (rule uses_lift uses_report uses_store_pages)+
  show ?thesis unfolding run_inner_def if_P [OF True]
    by (intro ends_done_bind ends_done_then [OF pages]; rule uses_report uses_lift)
next
  case False
  have "ends_done job (run_repository now job env)"
    unfolding run_repository_def split_beta
    by (intro ends_done_bind ends_done_then ends_done_report)
       (rule uses_lift uses_report uses_report_all | simp only: if_splits; intro conjI impI ends_done_fail ends_done_bind ends_done_then ends_done_report; rule uses_lift uses_report)+
  then show ?thesis unfolding run_inner_def using False by simp
qed


section \<open>The properties of the table and of a run\<close>

lemma job_task_outcome:
  assumes "known job t" and "calls_needed env \<le> b"
  shows "own_row job t (fst (job_task now job env (t, b))) \<and>
     status_of job (fst (job_task now job env (t, b))) =
       Some (case fst (run_inner now job env (t, b)) of Inl e \<Rightarrow> ''failed'' | Inr x \<Rightarrow> ''done'')"
proof -
  obtain r t1 b1 where inner: "run_inner now job env (t, b) = (r, t1, b1)" by (metis prod_cases3)
  have own: "own_row job t t1" and left: "b - (calls_needed env - 1) \<le> b1"
    using uses_run_inner [of job env now] inner assms(2) unfolding uses_def by (metis diff_le_self le_trans)+
  have known1: "known job t1" using own_row_known [OF own] assms(1) by simp
  have pos: "b1 = Suc (b1 - 1)" using left assms(2) by (simp add: calls_needed_def)
  show ?thesis
  proof (cases r)
    case (Inl e)
    obtain n where "b1 = Suc n" using pos by blast
    then have "job_task now job env (t, b) = (snd (update_job_status now job ''failed'' None None (Some e) t1), n)"
      by (simp add: job_task_def inner Inl report_def repo_call_def)
    then show ?thesis using Inl inner known1 own_row_trans [OF own own_row_update(1)] by (simp add: status_of_update)
  next
    case (Inr x)
    have "job_task now job env (t, b) = (t1, b1)" by (simp add: job_task_def inner Inr)
    moreover have "status_of job t1 = (if known job t then Some ''done'' else None)"
      using run_inner_ends_done [of job now env] inner Inr unfolding ends_done_def by blast
    ultimately show ?thesis using Inr inner own assms(1) by simp
  qed
qed

lemma job_task_own_row: "own_row job t (fst (job_task now job env (t, b)))"
proof -
  obtain r t1 b1 where inner: "run_inner now job env (t, b) = (r, t1, b1)" by (metis prod_cases3)
  have own: "own_row job t t1" using uses_run_inner [of job env now] inner unfolding uses_def by blast
  show ?thesis
  proof (cases r)
    case (Inl e)
    have "own_row job t1 (fst (snd (report now job ''failed'' None None (Some e) (t1, b1))))"
      by (simp add: report_def repo_call_def own_row_refl own_row_update split: nat.splits)
    with own_row_trans [OF own this] Inl inner show ?thesis by (simp add: job_task_def)
  next
    case (Inr x)
    with inner own show ?thesis by (simp add: job_task_def)
  qed
qed

definition active_count :: "string \<Rightarrow> jobs \<Rightarrow> nat" where
  "active_count repo t = length (filter (\<lambda>r. jb_repo r = repo \<and> \<not> terminal (jb_status r)) t)"

lemma has_active_job_count: "has_active_job repo t \<longleftrightarrow> 0 < active_count repo t"
  by (auto simp: has_active_job_def active_count_def filter_empty_conv)

section \<open>The service as concurrent requests\<close>

text \<open>
  The handlers above are what a request does when nothing else runs. Requests run concurrently: between two awaits of one, any step of
  another may come, and no index of \<open>ingestion_jobs\<close> keeps a second active row out. So a request is a program counter, one value per
  awaited call, and \<open>request_step\<close> is one awaited call with the code up to the next await. The awaited call can be answered, refused, or
  executed with its answer lost; what the other tables answer (the row of \<open>sources\<close>) is an argument of the request.
\<close>

datatype ingest_request =
    Trigger_ingest string string string
  | Reingest string "string option"
  | Approve_source "string \<times> string \<times> string option"

datatype after_create = Save_source | Mark_approved | Reply

datatype ingest_pc =
    Checking ingest_request
  | Looking_up string "string option"
  | Recovering string "string option"
  | Creating string string after_create
  | Saving uuid
  | Finding string "string option"
  | Creating_resumed string string uuid
  | Replied "service_error + uuid"
  | Dropped

datatype call_outcome = Answered | Refused | Answer_lost

record call_env =
  ce_now :: instant
  ce_new :: uuid
  ce_outcome :: call_outcome

text \<open>The insertion of a job: \<open>gen_random_uuid()\<close> is \<open>ce_new\<close>, and the primary key refuses an id that is taken. Only an answered insertion
  spawns the task of the job.\<close>

definition inserted_job :: "call_env \<Rightarrow> (jobs \<Rightarrow> uuid \<times> jobs) \<Rightarrow> (uuid \<Rightarrow> ingest_pc) \<Rightarrow> jobs \<Rightarrow> ingest_pc \<times> jobs \<times> uuid list" where
  "inserted_job env create k t =
     (if ce_outcome env = Refused \<or> ce_new env \<in> jb_id ` set t then (Replied (Inl Internal), t, [])
      else let (job, t) = create t
           in if ce_outcome env = Answered then (k job, t, [job]) else (Replied (Inl Internal), t, []))"

definition after_check :: "ingest_request \<Rightarrow> ingest_pc" where
  "after_check rq =
     (case rq of
        Trigger_ingest repo git_ref source \<Rightarrow> Creating repo git_ref (if source = ''gitlab'' then Save_source else Reply)
      | Reingest repo branch \<Rightarrow> Looking_up repo branch
      | Approve_source (repo, _, seed_url) \<Rightarrow>
          if seed_url = None then Replied (Inl Bad_request) else Creating repo [] Mark_approved)"

definition rq_repo :: "ingest_request \<Rightarrow> string" where
  "rq_repo rq = (case rq of Trigger_ingest repo _ _ \<Rightarrow> repo | Reingest repo _ \<Rightarrow> repo | Approve_source (repo, _) \<Rightarrow> repo)"

definition after_created :: "after_create \<Rightarrow> uuid \<Rightarrow> ingest_pc" where
  "after_created k job = (case k of Reply \<Rightarrow> Replied (Inr job) | _ \<Rightarrow> Saving job)"

definition request_step :: "call_env \<Rightarrow> ingest_pc \<Rightarrow> jobs \<Rightarrow> ingest_pc \<times> jobs \<times> uuid list" where
  "request_step env pc t =
     (case pc of
        Replied r \<Rightarrow> (Replied r, t, [])
      | Dropped \<Rightarrow> (Dropped, t, [])
      | Creating repo git_ref k \<Rightarrow> inserted_job env (create_job (ce_new env) (ce_now env) repo git_ref) (after_created k) t
      | Creating_resumed repo git_ref prev \<Rightarrow>
          inserted_job env (create_job_resumed (ce_new env) (ce_now env) repo git_ref prev) (\<lambda>job. Replied (Inr job)) t
      | _ \<Rightarrow>
          if ce_outcome env \<noteq> Answered then (Replied (Inl Internal), t, [])
          else (case pc of
                  Checking rq \<Rightarrow> if has_active_job (rq_repo rq) t then Replied (Inl Conflict) else after_check rq
                | Looking_up repo branch \<Rightarrow> Recovering repo branch
                | Recovering repo branch \<Rightarrow> Creating repo (resolve_reingest_git_ref branch (get_last_job_git_ref repo t)) Reply
                | Finding repo source_type \<Rightarrow>
                    (case find_resumable_job source_type repo t of
                       None \<Rightarrow> Replied (Inl Not_found)
                     | Some (prev, git_ref, _) \<Rightarrow> Creating_resumed repo git_ref prev)
                | Saving job \<Rightarrow> Replied (Inr job)
                | _ \<Rightarrow> pc, t, []))"

text \<open>How a request enters: \<open>approve_source\<close> reads its source first (the read is the argument), the others begin with their first call.\<close>

definition arriving_approval :: "(string \<times> string \<times> string option) option \<Rightarrow> ingest_pc" where
  "arriving_approval src =
     (case src of
        None \<Rightarrow> Replied (Inl Not_found)
      | Some (repo, status, seed_url) \<Rightarrow>
          if status \<noteq> ''pending_review'' then Replied (Inl Conflict) else Checking (Approve_source (repo, status, seed_url)))"

text \<open>
  The run of the command line tool: \<open>run_sync\<close> creates its job without a check and calls \<open>run_inner\<close> itself, so that nobody records the
  error of a failed run.
\<close>

definition run_sync_rest :: "instant \<Rightarrow> uuid \<Rightarrow> run_env \<Rightarrow> jobs \<times> nat \<Rightarrow> jobs \<times> nat" where
  "run_sync_rest now job env st = snd (run_inner now job env st)"

text \<open>
  The state: the table, the requests (by number of arrival), the tasks the backend has spawned and the runs of the tool. A task and the rest
  of a run are one step each: they write the row of their own job only, and no other step looks at more of it than whether it is active. A
  request that its client abandons is dropped between two calls; a restart drops all requests and tasks and sweeps the table.
\<close>

record service =
  sv_jobs :: jobs
  sv_requests :: "ingest_pc list"
  sv_tasks :: "uuid list"
  sv_cli :: "uuid list"

datatype service_event =
    Arrive ingest_request
  | Arrive_approval "(string \<times> string \<times> string option) option"
  | Arrive_resume string "string option"
  | Call nat call_env
  | Abandon nat
  | Task_runs uuid instant run_env nat
  | Cli_starts call_env string string
  | Cli_runs uuid instant run_env nat
  | Restart instant

definition finished :: "ingest_pc \<Rightarrow> bool" where
  "finished pc \<longleftrightarrow> (case pc of Replied _ \<Rightarrow> True | Dropped \<Rightarrow> True | _ \<Rightarrow> False)"

definition drop_request :: "ingest_pc \<Rightarrow> ingest_pc" where
  "drop_request pc = (if finished pc then pc else Dropped)"

definition service_event :: "service_event \<Rightarrow> service \<Rightarrow> service" where
  "service_event ev s =
     (case ev of
        Arrive rq \<Rightarrow> s\<lparr>sv_requests := sv_requests s @ [Checking rq]\<rparr>
      | Arrive_approval src \<Rightarrow> s\<lparr>sv_requests := sv_requests s @ [arriving_approval src]\<rparr>
      | Arrive_resume repo source_type \<Rightarrow> s\<lparr>sv_requests := sv_requests s @ [Finding repo source_type]\<rparr>
      | Call n env \<Rightarrow>
          if n < length (sv_requests s) then
            let (pc, t, spawned) = request_step env (sv_requests s ! n) (sv_jobs s)
            in s\<lparr>sv_jobs := t, sv_requests := (sv_requests s)[n := pc], sv_tasks := sv_tasks s @ spawned\<rparr>
          else s
      | Abandon n \<Rightarrow>
          if n < length (sv_requests s) then s\<lparr>sv_requests := (sv_requests s)[n := drop_request (sv_requests s ! n)]\<rparr> else s
      | Task_runs job now env budget \<Rightarrow>
          if job \<in> set (sv_tasks s) then
            s\<lparr>sv_jobs := fst (job_task now job env (sv_jobs s, budget)), sv_tasks := filter (\<lambda>j. j \<noteq> job) (sv_tasks s)\<rparr>
          else s
      | Cli_starts env repo git_ref \<Rightarrow>
          let (_, t, started) = inserted_job env (create_job (ce_new env) (ce_now env) repo git_ref) (\<lambda>job. Replied (Inr job)) (sv_jobs s)
          in s\<lparr>sv_jobs := t, sv_cli := sv_cli s @ started\<rparr>
      | Cli_runs job now env budget \<Rightarrow>
          if job \<in> set (sv_cli s) then
            s\<lparr>sv_jobs := fst (run_sync_rest now job env (sv_jobs s, budget)), sv_cli := filter (\<lambda>j. j \<noteq> job) (sv_cli s)\<rparr>
          else s
      | Restart now \<Rightarrow>
          s\<lparr>sv_jobs := snd (mark_stale_jobs_failed now (sv_jobs s)), sv_requests := map drop_request (sv_requests s), sv_tasks := []\<rparr>)"

definition service_run :: "service_event list \<Rightarrow> service \<Rightarrow> service" where
  "service_run evs s = fold service_event evs s"

definition idle :: service where
  "idle = \<lparr>sv_jobs = [], sv_requests = [], sv_tasks = [], sv_cli = []\<rparr>"

text \<open>\<open>admitted repo pc\<close>: the request has found no active job of the repository and has not created its own yet.\<close>

definition admitted :: "string \<Rightarrow> ingest_pc \<Rightarrow> bool" where
  "admitted repo pc \<longleftrightarrow>
     (case pc of Looking_up r _ \<Rightarrow> r = repo | Recovering r _ \<Rightarrow> r = repo | Creating r _ _ \<Rightarrow> r = repo | _ \<Rightarrow> False)"

definition admitted_count :: "string \<Rightarrow> ingest_pc list \<Rightarrow> nat" where
  "admitted_count repo pcs = length (filter (admitted repo) pcs)"

text \<open>
  An event overtakes when a request passes its check while another of the repository is admitted; it is unchecked when it creates a job
  without a check, in a resume or in the tool.
\<close>

definition overtaking :: "string \<Rightarrow> service_event \<Rightarrow> service \<Rightarrow> bool" where
  "overtaking repo ev s \<longleftrightarrow>
     (case ev of
        Call n env \<Rightarrow> n < length (sv_requests s) \<and> \<not> admitted repo (sv_requests s ! n)
          \<and> admitted repo (fst (request_step env (sv_requests s ! n) (sv_jobs s))) \<and> 0 < admitted_count repo (sv_requests s)
      | _ \<Rightarrow> False)"

definition skips_check :: "string \<Rightarrow> service_event \<Rightarrow> service \<Rightarrow> bool" where
  "skips_check repo ev s \<longleftrightarrow>
     (case ev of
        Call n env \<Rightarrow> n < length (sv_requests s) \<and> (case sv_requests s ! n of Creating_resumed r _ _ \<Rightarrow> r = repo | _ \<Rightarrow> False)
      | Cli_starts _ r _ \<Rightarrow> r = repo
      | _ \<Rightarrow> False)"

fun events_with :: "(service_event \<Rightarrow> service \<Rightarrow> bool) \<Rightarrow> service_event list \<Rightarrow> service \<Rightarrow> nat" where
  "events_with p [] s = 0"
| "events_with p (ev # evs) s = (if p ev s then 1 else 0) + events_with p evs (service_event ev s)"

subsection \<open>Requests that run alone\<close>

lemmas request_defs = request_step_def inserted_job_def after_check_def after_created_def rq_repo_def Let_def

lemmas service_defs = service_run_def service_event_def request_defs

definition answered :: "instant \<Rightarrow> uuid \<Rightarrow> call_env" where
  "answered now i = \<lparr>ce_now = now, ce_new = i, ce_outcome = Answered\<rparr>"

definition alone :: "jobs \<Rightarrow> service" where
  "alone t = idle\<lparr>sv_jobs := t\<rparr>"

lemma alone_simps [simp]: "sv_jobs (alone t) = t" "sv_requests (alone t) = []" "sv_tasks (alone t) = []" "sv_cli (alone t) = []"
  by (simp_all add: alone_def idle_def)

lemma answered_simps [simp]: "ce_now (answered now i) = now" "ce_new (answered now i) = i" "ce_outcome (answered now i) = Answered"
  by (simp_all add: answered_def)

text \<open>With no other step in between, the calls of a request do what its handler does.\<close>

lemma trigger_alone:
  "i \<notin> jb_id ` set t \<Longrightarrow>
   (let s = service_run [Arrive (Trigger_ingest repo git_ref source), Call 0 (answered now i), Call 0 (answered now i), Call 0 (answered now i)] (alone t)
    in (sv_requests s, sv_jobs s) = ([Replied (fst (trigger_ingest i now True repo git_ref source t))], snd (trigger_ingest i now True repo git_ref source t)))"
  by (auto simp: service_defs trigger_ingest_def create_job_def)

lemma reingest_alone:
  "i \<notin> jb_id ` set t \<Longrightarrow>
   (let s = service_run (Arrive (Reingest repo branch) # replicate 4 (Call 0 (answered now i))) (alone t)
    in (sv_requests s, sv_jobs s) = ([Replied (fst (reingest i now branch repo t))], snd (reingest i now branch repo t)))"
  by (auto simp: service_defs reingest_def create_job_def numeral_eq_Suc)

lemma approve_alone:
  "i \<notin> jb_id ` set t \<Longrightarrow>
   (let s = service_run (Arrive_approval src # replicate 3 (Call 0 (answered now i))) (alone t)
    in (sv_requests s, sv_jobs s) = ([Replied (fst (approve_source i now True src t))], snd (approve_source i now True src t)))"
proof -
  assume new: "i \<notin> jb_id ` set t"
  have calls: "replicate 3 (Call 0 (answered now i)) = [Call 0 (answered now i), Call 0 (answered now i), Call 0 (answered now i)]"
    by (simp add: numeral_eq_Suc)
  show ?thesis
  proof (cases src)
    case None
    then show ?thesis by (simp add: calls service_defs approve_source_def arriving_approval_def)
  next
    case (Some s)
    obtain repo status seed where s: "s = (repo, status, seed)" by (cases s) blast
    show ?thesis unfolding Some s
      by (cases "status = ''pending_review''"; cases seed; cases "has_active_job repo t")
         (simp_all add: new calls service_defs approve_source_def create_job_def arriving_approval_def)
  qed
qed

lemma resume_alone:
  "i \<notin> jb_id ` set t \<Longrightarrow>
   (let s = service_run [Arrive_resume repo source_type, Call 0 (answered now i), Call 0 (answered now i)] (alone t)
    in (sv_requests s, sv_jobs s) = ([Replied (fst (resume_ingest i now source_type repo t))], snd (resume_ingest i now source_type repo t)))"
  by (auto simp: service_defs resume_ingest_def create_job_resumed_def split: option.splits)

subsection \<open>What a call can do\<close>

lemma request_step_cases:
  assumes "request_step env pc t = (pc', t', spawned)"
  obtains (quiet) "t' = t" "spawned = []" "\<And>repo. admitted repo pc' \<Longrightarrow> admitted repo pc"
  | (admits) repo where "t' = t" "spawned = []" "\<not> has_active_job repo t" "\<And>r. \<not> admitted r pc" "\<And>r. admitted r pc' \<longleftrightarrow> r = repo"
  | (creates) repo g where "\<And>r. admitted r pc \<longleftrightarrow> r = repo" "\<And>r. \<not> admitted r pc'" "ce_new env \<notin> jb_id ` set t"
      "t' = t @ [new_job (ce_new env) (ce_now env) repo g None]" "set spawned \<subseteq> {ce_new env}"
  | (resumes) repo g p where "pc = Creating_resumed repo g p" "\<And>r. \<not> admitted r pc'" "ce_new env \<notin> jb_id ` set t"
      "t' = t @ [new_job (ce_new env) (ce_now env) repo g (Some p)]" "set spawned \<subseteq> {ce_new env}"
proof (cases pc)
  case (Checking rq)
  show ?thesis
  proof (cases "ce_outcome env = Answered \<and> \<not> has_active_job (rq_repo rq) t \<and> (\<exists>r. admitted r (after_check rq))")
    case True
    have "admitted r (after_check rq) \<longleftrightarrow> r = rq_repo rq" for r
      using True by (cases rq) (auto simp: after_check_def admitted_def rq_repo_def split: if_splits)
    with True Checking assms show ?thesis by (intro admits [of "rq_repo rq"]) (auto simp: request_step_def admitted_def)
  next
    case False
    with Checking assms show ?thesis by (intro quiet) (auto simp: request_step_def admitted_def split: if_splits)
  qed
next
  case (Creating repo g k)
  note pc = Creating
  have k: "\<not> admitted r (after_created k job)" for r job by (cases k) (simp_all add: admitted_def after_created_def)
  show ?thesis
  proof (cases "ce_outcome env = Refused \<or> ce_new env \<in> jb_id ` set t")
    case True
    with pc assms show ?thesis by (intro quiet) (auto simp: request_step_def inserted_job_def admitted_def)
  next
    case False
    with pc k assms show ?thesis
      by (intro creates [of repo g]) (auto simp: request_step_def inserted_job_def create_job_def admitted_def Let_def split: if_splits)
  qed
next
  case (Creating_resumed repo g p)
  show ?thesis
  proof (cases "ce_outcome env = Refused \<or> ce_new env \<in> jb_id ` set t")
    case True
    with Creating_resumed assms show ?thesis by (intro quiet) (auto simp: request_step_def inserted_job_def admitted_def)
  next
    case False
    with Creating_resumed assms show ?thesis
      by (intro resumes [of repo g p]) (auto simp: request_step_def inserted_job_def create_job_resumed_def admitted_def Let_def split: if_splits)
  qed
next
  case (Looking_up repo branch)
  show ?thesis by (rule quiet) (use assms Looking_up in \<open>auto simp: request_step_def admitted_def split: if_splits\<close>)
next
  case (Recovering repo branch)
  show ?thesis by (rule quiet) (use assms Recovering in \<open>auto simp: request_step_def admitted_def split: if_splits\<close>)
next
  case (Saving job)
  show ?thesis by (rule quiet) (use assms Saving in \<open>auto simp: request_step_def admitted_def split: if_splits\<close>)
next
  case (Finding repo source_type)
  show ?thesis by (rule quiet) (use assms Finding in \<open>auto simp: request_step_def admitted_def split: if_splits option.splits\<close>)
next
  case (Replied r)
  show ?thesis by (rule quiet) (use assms Replied in \<open>auto simp: request_step_def admitted_def\<close>)
next
  case Dropped
  show ?thesis by (rule quiet) (use assms Dropped in \<open>auto simp: request_step_def admitted_def\<close>)
qed

lemma admitted_count_update:
  "n < length pcs \<Longrightarrow>
   admitted_count repo (pcs[n := pc]) + (if admitted repo (pcs ! n) then 1 else 0) = admitted_count repo pcs + (if admitted repo pc then 1 else 0)"
  unfolding admitted_count_def
proof (induction pcs arbitrary: n)
  case (Cons p pcs)
  show ?case using Cons.prems Cons.IH by (cases n) (auto split: if_splits)
qed simp

lemma admitted_count_le: "n < length pcs \<Longrightarrow> (admitted repo pc \<Longrightarrow> admitted repo (pcs ! n)) \<Longrightarrow>
  admitted_count repo (pcs[n := pc]) \<le> admitted_count repo pcs"
  using admitted_count_update [of n pcs repo pc] by (simp split: if_splits)

lemma drop_request_quiet: "\<not> admitted repo (drop_request pc)"
  by (cases pc) (simp_all add: drop_request_def finished_def admitted_def)

subsection \<open>The active jobs that passed a check\<close>

definition checked_active :: "string \<Rightarrow> uuid set \<Rightarrow> jobs \<Rightarrow> nat" where
  "checked_active repo U t = length (filter (\<lambda>r. jb_repo r = repo \<and> \<not> terminal (jb_status r) \<and> jb_id r \<notin> U) t)"

lemma checked_active_own_row:
  "own_row job t t' \<Longrightarrow> \<forall>r \<in> set t. jb_id r = job \<and> jb_repo r = repo \<and> terminal (jb_status r) \<longrightarrow> jb_id r \<in> U \<Longrightarrow>
   checked_active repo U t' \<le> checked_active repo U t"
  unfolding own_row_def by (induction rule: list_all2_induct) (auto simp: checked_active_def split: if_splits)

lemma checked_active_sweep: "checked_active repo U (snd (mark_stale_jobs_failed now t)) \<le> checked_active repo U t"
  by (induction t) (auto simp: checked_active_def mark_stale_jobs_failed_def update_where_def terminal_def Let_def)

lemma checked_active_new:
  "checked_active repo U (t @ [new_job i now repo' g p]) = checked_active repo U t + (if repo' = repo \<and> i \<notin> U then 1 else 0)"
  by (simp add: checked_active_def new_job_def terminal_def)

lemma checked_active_insert: "checked_active repo (insert i U) t \<le> checked_active repo U t"
  unfolding checked_active_def by (induction t) auto

lemma checked_active_none: "\<not> has_active_job repo t \<Longrightarrow> checked_active repo U t = 0"
  by (auto simp: checked_active_def has_active_job_def filter_empty_conv)

lemma active_count_checked:
  assumes "distinct (map jb_id t)" and "finite U"
  shows "active_count repo t \<le> checked_active repo U t + card U"
proof -
  let ?a = "filter (\<lambda>r. jb_repo r = repo \<and> \<not> terminal (jb_status r)) t"
  have "length ?a = length (filter (\<lambda>r. jb_id r \<notin> U) ?a) + length (filter (\<lambda>r. \<not> jb_id r \<notin> U) ?a)"
    by (rule sum_length_filter_compl [symmetric])
  moreover have "length (filter (\<lambda>r. \<not> jb_id r \<notin> U) ?a) = card (set (map jb_id (filter (\<lambda>r. \<not> jb_id r \<notin> U) ?a)))"
    by (subst distinct_card) (simp_all add: distinct_map_filter assms(1))
  moreover have "\<dots> \<le> card U" by (rule card_mono) (auto simp: assms(2))
  ultimately show ?thesis by (simp add: active_count_def checked_active_def conj_assoc)
qed

lemma own_row_ids: "own_row job t t' \<Longrightarrow> map jb_id t' = map jb_id t"
  unfolding own_row_def by (induction rule: list_all2_induct) (auto split: if_splits)

lemma own_row_source:
  "own_row job t t' \<Longrightarrow> r' \<in> set t' \<Longrightarrow> \<exists>r \<in> set t. jb_id r = jb_id r' \<and> jb_repo r = jb_repo r' \<and> (jb_id r' = job \<or> r' = r)"
  unfolding own_row_def by (induction rule: list_all2_induct) (auto split: if_splits)

lemma sweep_ids: "map jb_id (snd (mark_stale_jobs_failed now t)) = map jb_id t"
  by (induction t) (auto simp: mark_stale_jobs_failed_def update_where_def Let_def)

lemma sweep_source: "r' \<in> set (snd (mark_stale_jobs_failed now t)) \<Longrightarrow> \<exists>r \<in> set t. jb_id r = jb_id r' \<and> jb_repo r = jb_repo r'"
  by (auto simp: mark_stale_jobs_failed_def Let_def set_update_where split: if_splits)

subsection \<open>The invariant\<close>

text \<open>\<open>U\<close> holds the jobs of the repository that were created without a check.\<close>

definition ok_with :: "string \<Rightarrow> nat \<Rightarrow> nat \<Rightarrow> uuid set \<Rightarrow> service \<Rightarrow> bool" where
  "ok_with repo over un U s \<longleftrightarrow>
     distinct (map jb_id (sv_jobs s)) \<and> set (sv_tasks s) \<union> set (sv_cli s) \<subseteq> jb_id ` set (sv_jobs s) \<and> finite U \<and> card U \<le> un \<and>
     (\<forall>r \<in> set (sv_jobs s). jb_repo r = repo \<and> jb_id r \<in> set (sv_cli s) \<longrightarrow> jb_id r \<in> U) \<and>
     (\<forall>r \<in> set (sv_jobs s). jb_repo r = repo \<and> jb_id r \<in> set (sv_tasks s) \<and> terminal (jb_status r) \<longrightarrow> jb_id r \<in> U) \<and>
     checked_active repo U (sv_jobs s) + admitted_count repo (sv_requests s) \<le> 1 + over"

definition service_ok :: "string \<Rightarrow> nat \<Rightarrow> nat \<Rightarrow> service \<Rightarrow> bool" where
  "service_ok repo over un s \<longleftrightarrow> (\<exists>U. ok_with repo over un U s)"

lemma ok_withD:
  assumes "ok_with repo over un U s"
  shows "distinct (map jb_id (sv_jobs s))" and "set (sv_tasks s) \<union> set (sv_cli s) \<subseteq> jb_id ` set (sv_jobs s)" and "finite U" and "card U \<le> un"
    and "\<And>r. r \<in> set (sv_jobs s) \<Longrightarrow> jb_repo r = repo \<Longrightarrow> jb_id r \<in> set (sv_cli s) \<Longrightarrow> jb_id r \<in> U"
    and "\<And>r. r \<in> set (sv_jobs s) \<Longrightarrow> jb_repo r = repo \<Longrightarrow> jb_id r \<in> set (sv_tasks s) \<Longrightarrow> terminal (jb_status r) \<Longrightarrow> jb_id r \<in> U"
    and "checked_active repo U (sv_jobs s) + admitted_count repo (sv_requests s) \<le> 1 + over"
  using assms unfolding ok_with_def by blast+

lemma service_okI:
  assumes "distinct (map jb_id (sv_jobs s))" and "set (sv_tasks s) \<union> set (sv_cli s) \<subseteq> jb_id ` set (sv_jobs s)" and "finite U" and "card U \<le> un"
    and "\<And>r. r \<in> set (sv_jobs s) \<Longrightarrow> jb_repo r = repo \<Longrightarrow> jb_id r \<in> set (sv_cli s) \<Longrightarrow> jb_id r \<in> U"
    and "\<And>r. r \<in> set (sv_jobs s) \<Longrightarrow> jb_repo r = repo \<Longrightarrow> jb_id r \<in> set (sv_tasks s) \<Longrightarrow> terminal (jb_status r) \<Longrightarrow> jb_id r \<in> U"
    and "checked_active repo U (sv_jobs s) + admitted_count repo (sv_requests s) \<le> 1 + over"
  shows "service_ok repo over un s"
  using assms unfolding service_ok_def ok_with_def by blast

text \<open>Steps that leave the table alone, or write it in place.\<close>

lemma service_ok_requests:
  assumes "service_ok repo over un s" and "sv_jobs s' = sv_jobs s" "sv_cli s' = sv_cli s" "set (sv_tasks s') \<subseteq> set (sv_tasks s)"
    and "admitted_count repo (sv_requests s') \<le> admitted_count repo (sv_requests s)"
  shows "service_ok repo over un s'"
proof -
  from assms(1) obtain U where U: "ok_with repo over un U s" by (auto simp: service_ok_def)
  note ok = ok_withD [OF U]
  show ?thesis by (rule service_okI [of _ U]) (use ok assms(2-) in auto)
qed

lemma service_ok_row:
  assumes "service_ok repo over un s" and own: "own_row job (sv_jobs s) (sv_jobs s')" and "job \<in> set (sv_tasks s) \<union> set (sv_cli s)"
    and "sv_requests s' = sv_requests s" and "set (sv_cli s') \<subseteq> set (sv_cli s)" and "set (sv_tasks s') \<subseteq> set (sv_tasks s)"
    and "job \<in> set (sv_tasks s') \<Longrightarrow> job \<in> set (sv_cli s)"
  shows "service_ok repo over un s'"
proof -
  from assms(1) obtain U where U: "ok_with repo over un U s" by (auto simp: service_ok_def)
  note ok = ok_withD [OF U]
  have count: "checked_active repo U (sv_jobs s') \<le> checked_active repo U (sv_jobs s)"
    by (rule checked_active_own_row [OF own]) (use ok(5,6) assms(3) in blast)
  have ids: "jb_id ` set (sv_jobs s') = jb_id ` set (sv_jobs s)" using own_row_ids [OF own] by (metis set_map)
  show ?thesis
  proof (rule service_okI [of _ U])
    show "distinct (map jb_id (sv_jobs s'))" using ok(1) own_row_ids [OF own] by simp
    show "set (sv_tasks s') \<union> set (sv_cli s') \<subseteq> jb_id ` set (sv_jobs s')" using ok(2) assms(5,6) ids by blast
    show "jb_id r' \<in> U" if "r' \<in> set (sv_jobs s')" "jb_repo r' = repo" "jb_id r' \<in> set (sv_cli s')" for r'
      using own_row_source [OF own that(1)] that ok(5) assms(5) by (metis subsetD)
    show "jb_id r' \<in> U" if r': "r' \<in> set (sv_jobs s')" "jb_repo r' = repo" "jb_id r' \<in> set (sv_tasks s')" "terminal (jb_status r')" for r'
    proof -
      obtain r where r: "r \<in> set (sv_jobs s)" "jb_id r = jb_id r'" "jb_repo r = jb_repo r'" "jb_id r' = job \<or> r' = r"
        using own_row_source [OF own r'(1)] by blast
      from r(4) show ?thesis
      proof
        assume "jb_id r' = job"
        with r' r assms(7) ok(5) [of r] show ?thesis by simp
      next
        assume "r' = r"
        with r' r assms(6) ok(6) [of r] show ?thesis by blast
      qed
    qed
  qed (use ok count assms(4) in auto)
qed

lemma service_ok_restart:
  assumes "service_ok repo over un s"
  shows "service_ok repo over un (service_event (Restart now) s)"
proof -
  from assms obtain U where U: "ok_with repo over un U s" by (auto simp: service_ok_def)
  note ok = ok_withD [OF U]
  let ?t = "snd (mark_stale_jobs_failed now (sv_jobs s))"
  have ids: "jb_id ` set ?t = jb_id ` set (sv_jobs s)" using sweep_ids [of now "sv_jobs s"] by (metis set_map)
  have quiet: "admitted_count repo (map drop_request (sv_requests s)) = 0"
    by (auto simp: admitted_count_def filter_empty_conv drop_request_quiet)
  have sweep: "checked_active repo U ?t \<le> checked_active repo U (sv_jobs s)" by (rule checked_active_sweep)
  show ?thesis
  proof (rule service_okI [of _ U])
    show "jb_id r' \<in> U" if "r' \<in> set (sv_jobs (service_event (Restart now) s))" "jb_repo r' = repo"
        "jb_id r' \<in> set (sv_cli (service_event (Restart now) s))" for r'
      using sweep_source [of r' now "sv_jobs s"] that ok(5) by (auto simp: service_event_def) (metis that(2))
  qed (use ok ids quiet sweep sweep_ids [of now "sv_jobs s"] in \<open>auto simp: service_event_def\<close>)
qed

text \<open>Steps that insert a job: behind a check, where the insertion uses up the admission, or without one.\<close>

lemma service_ok_insert:
  assumes "service_ok repo over un s" and new: "i \<notin> jb_id ` set (sv_jobs s)"
    and jobs: "sv_jobs s' = sv_jobs s @ [new_job i now repo' g p]"
    and lists: "set (sv_tasks s') \<union> set (sv_cli s') \<subseteq> set (sv_tasks s) \<union> set (sv_cli s) \<union> {i}" "set (sv_tasks s') \<subseteq> set (sv_tasks s) \<union> {i}"
      "set (sv_cli s') \<subseteq> set (sv_cli s) \<union> (if counted then {i} else {})"
    and reqs: "admitted_count repo (sv_requests s') + (if repo' = repo \<and> \<not> counted then 1 else 0) \<le> admitted_count repo (sv_requests s)"
  shows "service_ok repo over (un + (if counted \<and> repo' = repo then 1 else 0)) s'"
proof -
  from assms(1) obtain U where U: "ok_with repo over un U s" by (auto simp: service_ok_def)
  note ok = ok_withD [OF U]
  let ?V = "if counted \<and> repo' = repo then insert i U else U"
  have fields: "jb_id (new_job i now repo' g p) = i" "jb_repo (new_job i now repo' g p) = repo'" "\<not> terminal (jb_status (new_job i now repo' g p))"
    by (simp_all add: new_job_def terminal_def)
  have card: "card ?V \<le> un + (if counted \<and> repo' = repo then 1 else 0)"
    using ok(3,4) by (simp add: card_insert_if)
  have "checked_active repo ?V (sv_jobs s) \<le> checked_active repo U (sv_jobs s)" by (simp add: checked_active_insert)
  then have bound: "checked_active repo ?V (sv_jobs s') + admitted_count repo (sv_requests s') \<le> 1 + over"
    using ok(7) reqs by (auto simp: jobs checked_active_new split: if_splits)
  show ?thesis
  proof (rule service_okI [of _ ?V])
    show "jb_id r \<in> ?V" if r: "r \<in> set (sv_jobs s')" "jb_repo r = repo" "jb_id r \<in> set (sv_cli s')" for r
    proof (cases "r \<in> set (sv_jobs s)")
      case True
      then have "jb_id r \<noteq> i" using new by auto
      with True r lists(3) ok(5) [of r] show ?thesis by (auto split: if_splits)
    next
      case False
      then have "r = new_job i now repo' g p" using r jobs by simp
      then have id: "jb_id r = i" "jb_repo r = repo'" by (simp_all add: fields)
      moreover have "i \<notin> set (sv_cli s)" using ok(2) new by blast
      ultimately show ?thesis using r lists(3) by (auto split: if_splits)
    qed
    show "jb_id r \<in> ?V" if r: "r \<in> set (sv_jobs s')" "jb_repo r = repo" "jb_id r \<in> set (sv_tasks s')" "terminal (jb_status r)" for r
    proof -
      have "r \<noteq> new_job i now repo' g p" using r fields(3) by auto
      then have old: "r \<in> set (sv_jobs s)" using r jobs by simp
      then have "jb_id r \<noteq> i" using new by auto
      with old r lists(2) ok(6) [of r] show ?thesis by auto
    qed
  qed (use ok(1,2,3) new lists jobs card bound in \<open>auto simp: fields\<close>)
qed

lemma service_ok_admit:
  assumes "service_ok repo over un s" and "\<not> has_active_job r (sv_jobs s)" and "r = repo \<Longrightarrow> \<not> has_active_job repo (sv_jobs s)"
    and "sv_jobs s' = sv_jobs s" "sv_cli s' = sv_cli s" "sv_tasks s' = sv_tasks s"
    and "admitted_count repo (sv_requests s') = admitted_count repo (sv_requests s) + (if r = repo then 1 else 0)"
    and "r = repo \<Longrightarrow> 0 < admitted_count repo (sv_requests s) \<Longrightarrow> d = 1" and "un \<le> un'"
  shows "service_ok repo (over + d) un' s'"
proof -
  from assms(1) obtain U where U: "ok_with repo over un U s" by (auto simp: service_ok_def)
  note ok = ok_withD [OF U]
  have "checked_active repo U (sv_jobs s') + admitted_count repo (sv_requests s') \<le> 1 + (over + d)"
    using ok(7) assms(2,4,7,8) checked_active_none [of repo "sv_jobs s" U]
    by (cases "r = repo"; cases "admitted_count repo (sv_requests s) = 0") auto
  with ok assms(4-6,9) show ?thesis by (intro service_okI [of _ U]) auto
qed

lemma service_ok_le:
  assumes "service_ok repo over un s" and "over \<le> over'" and "un \<le> un'"
  shows "service_ok repo over' un' s"
proof -
  from assms(1) obtain U where U: "ok_with repo over un U s" by (auto simp: service_ok_def)
  note ok = ok_withD [OF U]
  have "card U \<le> un'" and "checked_active repo U (sv_jobs s) + admitted_count repo (sv_requests s) \<le> 1 + over'"
    using ok(4,7) assms(2,3) by linarith+
  then show ?thesis by (intro service_okI [OF ok(1,2,3) _ ok(5,6)])
qed

lemmas service_ok_mono = service_ok_le [OF _ le_add1 le_add1]

lemma run_sync_own_row: "own_row job t (fst (run_sync_rest now job env (t, budget)))"
proof -
  obtain r t1 b1 where inner: "run_inner now job env (t, budget) = (r, t1, b1)" by (metis prod_cases3)
  then show ?thesis using uses_run_inner [of job env now] unfolding uses_def by (auto simp: run_sync_rest_def)
qed

lemma active_count_new: "active_count repo (t @ [new_job i now repo' g p]) = active_count repo t + (if repo = repo' then 1 else 0)"
  by (simp add: active_count_def new_job_def terminal_def)


text \<open>C25. A run to which the database answers leaves its job terminal: done exactly when the run succeeded, failed otherwise. The calls of a
  run are at most seven, one per progress report and one per page.
\<close>

theorem job_task_terminal:
  assumes "r \<in> set t" and "calls_needed env \<le> budget"
  shows "map_option jb_status (fetch_optional (\<lambda>x. jb_id x = jb_id r) (fst (job_task now (jb_id r) env (t, budget)))) =
     Some (case fst (run_inner now (jb_id r) env (t, budget)) of Inl e \<Rightarrow> ''failed'' | Inr counts \<Rightarrow> ''done'')"
  using job_task_outcome [of "jb_id r" t env budget now] assms by (auto simp: known_def status_of_def)

definition sample_run :: run_env where
  "sample_run = \<lparr>rn_source = ''gitlab'', rn_crawl = Inr 0, rn_clean_docs = Inr (), rn_pages = [], rn_clone = Inr (),
     rn_analyze = Inr 3, rn_repository_node = Inr (), rn_chunk = Inr [''src/a.rs''], rn_below_threshold = (\<lambda>files failed. 0 < failed),
     rn_ratio_texts = (''0.667'', ''0.95''), rn_embed = ([(1, 4)], Inr (2, 9)), rn_resolve = Inr (), rn_commit = Inr (),
     rn_after_commit = Inr ()\<rparr>"

theorem job_task_terminal_witness:
  "map_option jb_status (fetch_optional (\<lambda>x. jb_id x = 1) (fst (job_task 50 1 sample_run ([new_job 1 0 ''acme'' ''main'' None], 8)))) =
     Some ''failed''"
proof -
  have budget: "calls_needed sample_run \<le> 8" by (simp add: calls_needed_def sample_run_def)
  have fails: "\<exists>e. fst (run_inner 50 1 sample_run ([new_job 1 0 ''acme'' ''main'' None], 8)) = Inl e"
    by (simp add: run_inner_def run_repository_def sample_run_def run_bind_def report_def repo_call_def lift_stage_def numeral_eq_Suc)
  from job_task_terminal [of "new_job 1 0 ''acme'' ''main'' None" "[new_job 1 0 ''acme'' ''main'' None]" sample_run 8 50] budget fails
  show ?thesis by (auto simp: new_job_def)
qed

lemma service_ok_event:
  assumes ok: "service_ok repo over un s"
  shows "service_ok repo (over + (if overtaking repo ev s then 1 else 0)) (un + (if skips_check repo ev s then 1 else 0)) (service_event ev s)"
proof (cases ev)
  case (Arrive rq)
  with ok show ?thesis
    by (intro service_ok_requests [OF service_ok_mono [OF ok]])
       (simp_all add: service_event_def admitted_count_def admitted_def)
next
  case (Arrive_approval src)
  have "\<not> admitted repo (arriving_approval src)"
    by (auto simp: arriving_approval_def admitted_def split: option.splits)
  with Arrive_approval show ?thesis
    by (intro service_ok_requests [OF service_ok_mono [OF ok]]) (simp_all add: service_event_def admitted_count_def)
next
  case (Arrive_resume r st)
  then show ?thesis
    by (intro service_ok_requests [OF service_ok_mono [OF ok]]) (simp_all add: service_event_def admitted_count_def admitted_def)
next
  case (Abandon n)
  then show ?thesis
    by (intro service_ok_requests [OF service_ok_mono [OF ok]])
       (auto simp: service_event_def drop_request_quiet intro: admitted_count_le)
next
  case (Restart now)
  with service_ok_restart [OF service_ok_mono [OF ok]] show ?thesis by simp
next
  case (Task_runs job now env budget)
  show ?thesis
  proof (cases "job \<in> set (sv_tasks s)")
    case True
    with Task_runs show ?thesis
      by (intro service_ok_row [OF service_ok_mono [OF ok], of job]) (auto simp: service_event_def job_task_own_row)
  qed (use Task_runs service_ok_mono [OF ok] in \<open>simp add: service_event_def\<close>)
next
  case (Cli_runs job now env budget)
  show ?thesis
  proof (cases "job \<in> set (sv_cli s)")
    case True
    with Cli_runs show ?thesis
      by (intro service_ok_row [OF service_ok_mono [OF ok], of job]) (auto simp: service_event_def run_sync_own_row)
  qed (use Cli_runs service_ok_mono [OF ok] in \<open>simp add: service_event_def\<close>)
next
  case (Cli_starts env r g)
  show ?thesis
  proof (cases "ce_outcome env = Refused \<or> ce_new env \<in> jb_id ` set (sv_jobs s)")
    case True
    with Cli_starts service_ok_mono [OF ok] show ?thesis by (auto simp: service_event_def inserted_job_def)
  next
    case False
    then have "service_ok repo over (un + (if True \<and> r = repo then 1 else 0)) (service_event ev s)"
      unfolding Cli_starts
      by (intro service_ok_insert [OF ok, of "ce_new env" _ "ce_now env" r g None])
         (auto simp: service_event_def inserted_job_def create_job_def Let_def)
    then show ?thesis using Cli_starts by (simp add: overtaking_def skips_check_def)
  qed
next
  case (Call n env)
  show ?thesis
  proof (cases "n < length (sv_requests s)")
    case False
    with Call service_ok_mono [OF ok] show ?thesis by (simp add: service_event_def)
  next
    case n: True
    obtain pc t spawned where step: "request_step env (sv_requests s ! n) (sv_jobs s) = (pc, t, spawned)" by (metis prod_cases3)
    have s': "service_event ev s = s\<lparr>sv_jobs := t, sv_requests := (sv_requests s)[n := pc], sv_tasks := sv_tasks s @ spawned\<rparr>"
      by (simp add: Call service_event_def n step)
    note count = admitted_count_update [OF n, of repo pc]
    from step show ?thesis
    proof (cases rule: request_step_cases)
      case quiet
      with count show ?thesis unfolding s'
        by (intro service_ok_requests [OF service_ok_mono [OF ok]]) (auto intro: admitted_count_le [OF n])
    next
      case (admits r)
      show ?thesis unfolding s' by (rule service_ok_admit [OF ok]) (use admits count n step in \<open>auto simp: Call overtaking_def\<close>)
    next
      case (creates r g)
      have "\<not> skips_check repo ev s" using creates(1) [of r] by (auto simp: Call skips_check_def admitted_def split: ingest_pc.splits)
      moreover have "service_ok repo over (un + (if False \<and> r = repo then 1 else 0)) (service_event ev s)" unfolding s'
        by (rule service_ok_insert [OF ok, of "ce_new env" _ "ce_now env" r g None])
           (use creates count in \<open>auto split: if_splits\<close>)
      ultimately show ?thesis by (auto intro: service_ok_le)
    next
      case (resumes r g p)
      have "skips_check repo ev s \<longleftrightarrow> r = repo" using resumes(1) n by (simp add: Call skips_check_def)
      moreover have "service_ok repo over (un + (if True \<and> r = repo then 1 else 0)) (service_event ev s)" unfolding s'
        by (rule service_ok_insert [OF ok, of "ce_new env" _ "ce_now env" r g "Some p"])
           (use resumes count in \<open>auto simp: admitted_def split: if_splits\<close>)
      ultimately show ?thesis by (auto intro: service_ok_le)
    qed
  qed
qed

lemma service_ok_run:
  "service_ok repo over un s \<Longrightarrow>
   service_ok repo (over + events_with (overtaking repo) evs s) (un + events_with (skips_check repo) evs s) (service_run evs s)"
proof (induction evs arbitrary: over un s)
  case (Cons ev evs)
  from Cons.IH [OF service_ok_event [OF Cons.prems, of ev]] show ?case by (simp add: service_run_def add.assoc)
qed (simp add: service_run_def)

text \<open>Two requests of one repository that both check before either creates its job start two jobs, and both are answered with theirs.\<close>

definition overlapping :: "string \<Rightarrow> service_event list" where
  "overlapping repo =
     [Arrive (Trigger_ingest repo ''main'' ''local''), Arrive_approval (Some (repo, ''pending_review'', Some ''https://acme.test'')),
      Call 0 (answered 0 1), Call 1 (answered 0 2), Call 0 (answered 0 1), Call 1 (answered 0 2), Call 1 (answered 0 2)]"

lemma overlapping_requests:
  "sv_jobs (service_run (overlapping repo) idle) = [new_job 1 0 repo ''main'' None, new_job 2 0 repo [] None]
   \<and> sv_requests (service_run (overlapping repo) idle) = [Replied (Inr 1), Replied (Inr 2)]"
  by (simp add: overlapping_def service_defs arriving_approval_def idle_def has_active_job_def create_job_def new_job_def)

text \<open>C26. A repository has at most one active job more than the requests that passed their check while another request of the
  repository was between its check and its insertion, and the jobs that a resume or the command line tool created; with no overlap and
  neither of these, at most one. The requests are interleaved at every awaited call, with failing calls, lost answers, abandoned requests and
  restarts. The code does not exclude the overlap: two requests can leave two active jobs.
\<close>

theorem active_jobs_bounded:
  "active_count repo (sv_jobs (service_run evs idle))
     \<le> 1 + events_with (overtaking repo) evs idle + events_with (skips_check repo) evs idle
   \<and> (\<exists>evs'. active_count repo (sv_jobs (service_run evs' idle)) = 2
     \<and> events_with (overtaking repo) evs' idle = 1 \<and> events_with (skips_check repo) evs' idle = 0)"
proof
  let ?s = "service_run evs idle"
  have "service_ok repo 0 0 idle" by (rule service_okI [of _ "{}"]) (simp_all add: idle_def checked_active_def admitted_count_def)
  from service_ok_run [OF this, of evs] obtain U where
    "ok_with repo (0 + events_with (overtaking repo) evs idle) (0 + events_with (skips_check repo) evs idle) U ?s"
    by (auto simp: service_ok_def)
  note ok = ok_withD [OF this]
  from active_count_checked [OF ok(1,3), of repo] ok(4,7)
  show "active_count repo (sv_jobs ?s) \<le> 1 + events_with (overtaking repo) evs idle + events_with (skips_check repo) evs idle" by linarith
next
  have "active_count repo (sv_jobs (service_run (overlapping repo) idle)) = 2"
    by (simp add: overlapping_requests active_count_def new_job_def terminal_def)
  moreover have "events_with (overtaking repo) (overlapping repo) idle = 1 \<and> events_with (skips_check repo) (overlapping repo) idle = 0"
    by (simp add: overlapping_def overtaking_def admitted_def admitted_count_def skips_check_def service_defs arriving_approval_def idle_def
        has_active_job_def create_job_def new_job_def)
  ultimately show "\<exists>evs'. active_count repo (sv_jobs (service_run evs' idle)) = 2
      \<and> events_with (overtaking repo) evs' idle = 1 \<and> events_with (skips_check repo) evs' idle = 0" by blast
qed


lemma job_task_no_database: "fst (job_task now job env (t, 0)) = t"
  by (simp add: job_task_def run_inner_def run_repository_def run_bind_def report_def repo_call_def)

lemma sweep_keeps:
  "r \<in> set t \<Longrightarrow> now - seconds 600 \<le> jb_started_at r \<Longrightarrow> r \<in> set (snd (mark_stale_jobs_failed now t))"
  by (simp add: mark_stale_jobs_failed_def Let_def set_update_where)

text \<open>A job whose database went away stays active; when the backend restarts within ten minutes of its start, the sweep leaves it, and no
  request can start another job of its repository.
\<close>

theorem stranded_job_blocks:
  assumes "r \<in> set t" and "\<not> terminal (jb_status r)" and "restarted - seconds 600 \<le> jb_started_at r"
    and "t' = snd (mark_stale_jobs_failed restarted (fst (job_task now (jb_id r) env (t, 0))))"
  shows "r \<in> set t' \<and> trigger_ingest i later saved (jb_repo r) git_ref source t' = (Inl Conflict, t')
    \<and> reingest i later branch (jb_repo r) t' = (Inl Conflict, t')"
proof -
  have "r \<in> set t'" using sweep_keeps [OF assms(1,3)] by (simp add: assms(4) job_task_no_database)
  moreover from this assms(2) have "has_active_job (jb_repo r) t'" by (auto simp: has_active_job_def)
  ultimately show ?thesis by (simp add: trigger_ingest_def reingest_def)
qed

theorem stranded_job_blocks_witness:
  "reingest 2 (seconds 700) None ''acme''
     (snd (mark_stale_jobs_failed (seconds 500) (fst (job_task 0 1 sample_run ([new_job 1 0 ''acme'' ''main'' None], 0))))) =
   (Inl Conflict, [new_job 1 0 ''acme'' ''main'' None])"
proof -
  have "snd (mark_stale_jobs_failed (seconds 500) (fst (job_task 0 1 sample_run ([new_job 1 0 ''acme'' ''main'' None], 0)))) =
      [new_job 1 0 ''acme'' ''main'' None]"
    by (simp add: job_task_no_database mark_stale_jobs_failed_def update_where_def new_job_def seconds_def)
  with stranded_job_blocks [of "new_job 1 0 ''acme'' ''main'' None" "[new_job 1 0 ''acme'' ''main'' None]" "seconds 500" _ 0 sample_run
      2 "seconds 700" True "''main''" "''gitlab''" None]
  show ?thesis by (simp add: new_job_def terminal_def seconds_def)
qed

text \<open>Resuming starts a job without looking for an active one.
\<close>

theorem resume_starts_second_job:
  assumes "find_resumable_job source_type repo t \<noteq> None"
  shows "active_count repo (snd (resume_ingest i now source_type repo t)) = active_count repo t + 1
    \<and> fst (resume_ingest i now source_type repo t) = Inr i"
  using assms by (auto simp: resume_ingest_def create_job_resumed_def active_count_new)

theorem resume_starts_second_job_witness:
  "active_count ''acme'' (snd (resume_ingest 3 90 None ''acme''
     [(new_job 1 0 ''acme'' ''main'' None)\<lparr>jb_status := ''failed'', jb_has_checkpoint := True\<rparr>, new_job 2 60 ''acme'' ''main'' None])) = 2"
proof -
  let ?t = "[(new_job 1 0 ''acme'' ''main'' None)\<lparr>jb_status := ''failed'', jb_has_checkpoint := True\<rparr>, new_job 2 60 ''acme'' ''main'' None]"
  have "find_resumable_job None ''acme'' ?t \<noteq> None" by (simp add: find_resumable_job_def newest_def new_job_def)
  from resume_starts_second_job [OF this, of 3 90] show ?thesis
    by (simp add: active_count_def new_job_def terminal_def)
qed

end
