(* ===== verification/Llms.thy ===== *)
theory Llms
  imports Corpus_Contract "HOL-Library.List_Lexorder"
begin

text \<open>
  The texts published for language models (\<open>akashic-domain/src/algos/llms.rs\<close>): \<open>llms.txt\<close>, \<open>llms-full.txt\<close> and \<open>skill.md\<close>, with the
  reader that ingests an \<open>llms-full.txt\<close> (\<open>parse_llms_full\<close> of \<open>adapter/vitepress_llms.rs\<close>).

  Texts are UTF-8 byte strings. \<open>to_lowercase\<close> is the table of \<open>captures\<close>, the URL join of the \<open>url\<close> crate is an argument.
\<close>

section \<open>Paths\<close>

definition line_feed :: string where
  "line_feed = [CHR 0x0A]"

definition version_stamp :: "string \<Rightarrow> string \<Rightarrow> string \<Rightarrow> string" where
  "version_stamp repo version sha =
     ''documents '' @ repo @ '' '' @ version @ '' @ '' @ concat (take 7 (utf8_chars sha))"

definition url_unreserved :: "char \<Rightarrow> bool" where
  "url_unreserved b \<longleftrightarrow> CHR ''A'' \<le> b \<and> b \<le> CHR ''Z'' \<or> CHR ''a'' \<le> b \<and> b \<le> CHR ''z'' \<or> CHR ''0'' \<le> b \<and> b \<le> CHR ''9''
     \<or> b \<in> set ''-._~/''"

definition hex_upper :: "nat \<Rightarrow> char" where
  "hex_upper n = ''0123456789ABCDEF'' ! (n mod 16)"

definition encode_byte :: "char \<Rightarrow> string" where
  "encode_byte b = (if url_unreserved b then [b] else CHR ''%'' # [hex_upper (of_char b div 16), hex_upper (of_char b)])"

definition encode_path :: "string \<Rightarrow> string" where
  "encode_path path = concat (map encode_byte path)"

definition is_zh_tw_path :: "string \<Rightarrow> bool" where
  "is_zh_tw_path path \<longleftrightarrow> (\<exists>seg \<in> set (split_char CHR ''/'' path). seg = ''zh-TW'')"

definition nav_pages :: "nav_tree \<Rightarrow> nav_page list" where
  "nav_pages nav = concat (map ng_pages (nt_groups nav))"

definition nav_page_title :: "nav_tree \<Rightarrow> string \<Rightarrow> string \<Rightarrow> string option" where
  "nav_page_title nav path index_path =
     map_option np_title (List.find (\<lambda>p. resolve_nav_path index_path (np_path p) = path) (nav_pages nav))"

definition path_stem :: "string \<Rightarrow> string" where
  "path_stem path = (let seg = last (split_char CHR ''/'' path) in trim_end_pattern (length seg) ''.md'' seg)"

fun nav_order :: "string list \<Rightarrow> string list \<Rightarrow> string list \<Rightarrow> string list" where
  "nav_order known seen [] = seen"
| "nav_order known seen (resolved # ps) =
     (if resolved \<in> set known \<and> \<not> is_zh_tw_path resolved \<and> resolved \<notin> set seen then nav_order known (seen @ [resolved]) ps
      else nav_order known seen ps)"

definition order_pages :: "nav_tree \<Rightarrow> string list \<Rightarrow> string \<Rightarrow> string list" where
  "order_pages nav md_paths index_path =
     (let out = nav_order md_paths [] (map (\<lambda>p. resolve_nav_path index_path (np_path p)) (nav_pages nav))
      in out @ sort (filter (\<lambda>p. p \<notin> set out \<and> \<not> is_zh_tw_path p) md_paths))"

section \<open>The texts\<close>

definition raw_url :: "string \<Rightarrow> string \<Rightarrow> string \<Rightarrow> string" where
  "raw_url base repo path = base @ ''/api/v1/docs/'' @ encode_path repo @ ''/latest/raw/'' @ encode_path path"

definition link_line :: "string \<Rightarrow> string \<Rightarrow> string \<Rightarrow> nav_page \<Rightarrow> string" where
  "link_line base repo index_path p =
     ''- ['' @ np_title p @ ''](''  @ raw_url base repo (resolve_nav_path index_path (np_path p)) @ ''): '' @ np_description p @ line_feed"

definition render_llms_txt :: "string \<Rightarrow> string \<Rightarrow> string \<Rightarrow> nav_tree \<Rightarrow> string \<Rightarrow> string \<Rightarrow> string" where
  "render_llms_txt repo version sha nav index_path base_url =
     (let base = trim_end_matches CHR ''/'' base_url in
      ''# '' @ repo @ line_feed
      @ (if nt_description nav = [] then [] else ''> '' @ nt_description nav @ line_feed)
      @ ''<!-- '' @ version_stamp repo version sha @ '' -->'' @ line_feed
      @ concat (map (\<lambda>g. line_feed @ ''## '' @ ng_title g @ line_feed @ concat (map (link_line base repo index_path) (ng_pages g)))
          (nt_groups nav))
      @ line_feed @ ''## Optional'' @ line_feed @ ''- [llms-full.txt]('' @ base @ ''/docs/'' @ encode_path repo
      @ ''/llms-full.txt): full EN corpus, one fetch'' @ line_feed)"

definition em_dash :: string where
  "em_dash = [CHR 0xE2, CHR 0x80, CHR 0x94]"

definition render_global_llms_txt :: "(string \<times> string) list \<Rightarrow> string \<Rightarrow> string" where
  "render_global_llms_txt repos base_url =
     (let base = trim_end_matches CHR ''/'' base_url in
      ''# Akashic Record '' @ em_dash @ '' documentation index'' @ line_feed
      @ ''> Docs corpora published to this Akashic Record instance. Fetch a repo'' @ [CHR 0x27]
      @ ''s llms.txt for its page index.'' @ line_feed @ line_feed @ ''## Repos'' @ line_feed
      @ concat (map (\<lambda>(repo, description).
          ''- ['' @ repo @ ''](''  @ base @ ''/docs/'' @ encode_path repo @ ''/llms.txt)''
          @ (if description = [] then [] else '': '' @ description) @ line_feed) repos))"

record llms_page =
  lp_path :: string
  lp_markdown :: string

definition render_llms_full :: "string \<Rightarrow> string \<Rightarrow> string \<Rightarrow> llms_page list \<Rightarrow> string \<Rightarrow> string" where
  "render_llms_full repo version sha pages base_url =
     (let base = trim_end_matches CHR ''/'' base_url in
      ''<!-- '' @ version_stamp repo version sha @ '' -->'' @ line_feed
      @ concat (map (\<lambda>p. line_feed @ ''---'' @ line_feed @ ''url: '' @ raw_url base repo (lp_path p) @ line_feed @ ''---'' @ line_feed
          @ line_feed @ trim_end (lp_markdown p) @ line_feed) pages))"

section \<open>Skills\<close>

definition ascii_alphanumeric :: "char \<Rightarrow> bool" where
  "ascii_alphanumeric c \<longleftrightarrow> CHR ''A'' \<le> c \<and> c \<le> CHR ''Z'' \<or> CHR ''a'' \<le> c \<and> c \<le> CHR ''z'' \<or> CHR ''0'' \<le> c \<and> c \<le> CHR ''9''"

fun skill_chars :: "bool \<Rightarrow> string list \<Rightarrow> string" where
  "skill_chars prev_dash [] = []"
| "skill_chars prev_dash (c # cs) =
     (if length c = 1 \<and> ascii_alphanumeric (hd c) then ascii_lower (hd c) # skill_chars False cs
      else if \<not> prev_dash then CHR ''-'' # skill_chars True cs
      else skill_chars True cs)"

fun cut_boundary :: "string \<Rightarrow> nat \<Rightarrow> nat" where
  "cut_boundary s 0 = 0"
| "cut_boundary s (Suc n) = (if Suc n < length s \<and> is_continuation (s ! Suc n) then cut_boundary s n else Suc n)"

definition skill_name :: "string \<Rightarrow> string" where
  "skill_name repo =
     (let base = trim_end_matches CHR ''-'' (skill_chars True (utf8_chars repo));
          max_base = 64 - length ''-docs'';
          base = (if max_base < length base then take (cut_boundary base max_base) base else base)
      in trim_end_matches CHR ''-'' base @ ''-docs'')"

definition skill_description :: "string \<Rightarrow> nav_tree \<Rightarrow> string" where
  "skill_description repo nav =
     ''Use when working with the '' @ repo @ '' repository or its APIs. '' @ nt_description nav @ '' Topics: ''
     @ join_with '', '' (concat (map (\<lambda>g. ng_title g # map np_title (ng_pages g)) (nt_groups nav))) @ ''.''"

definition backslash :: char where
  "backslash = CHR 0x5C"

definition quote_mark :: char where
  "quote_mark = CHR 0x22"

definition trailing_backslashes :: "string list \<Rightarrow> nat" where
  "trailing_backslashes cs = length (takeWhile (\<lambda>c. c = [backslash]) (rev cs))"

fun drop_dangling :: "nat \<Rightarrow> string list \<Rightarrow> string list" where
  "drop_dangling 0 cs = cs"
| "drop_dangling (Suc n) cs = (if trailing_backslashes cs mod 2 = 1 then drop_dangling n (butlast cs) else cs)"

definition cap_escaped :: "string \<Rightarrow> string" where
  "cap_escaped escaped =
     (let cs = utf8_chars escaped in
      if length cs \<le> 1024 then escaped
      else let truncated = take 1021 cs in concat (drop_dangling (length truncated) truncated) @ ''...'')"

definition escape_description :: "string \<Rightarrow> string" where
  "escape_description s =
     replace_char CHR 0x0A '' '' (replace_char quote_mark [backslash, quote_mark] (replace_char backslash [backslash, backslash] s))"

definition quickstart_page :: "captures \<Rightarrow> nav_tree \<Rightarrow> nav_page option" where
  "quickstart_page cp nav =
     (case List.find (\<lambda>p. from_first ''getting-started'' (np_path p) \<noteq> None
                         \<or> from_first ''getting started'' (cp_lowercase cp (np_title p)) \<noteq> None) (nav_pages nav) of
        Some p \<Rightarrow> Some p
      | None \<Rightarrow> (case nav_pages nav of [] \<Rightarrow> None | p # _ \<Rightarrow> Some p))"

definition render_skill_md :: "captures \<Rightarrow> string \<Rightarrow> string \<Rightarrow> string \<Rightarrow> nav_tree \<Rightarrow> string \<Rightarrow> string \<Rightarrow> string" where
  "render_skill_md cp repo version sha nav index_path base_url =
     (let base = trim_end_matches CHR ''/'' base_url in
      ''---'' @ line_feed @ ''name: '' @ skill_name repo @ line_feed
      @ ''description: '' @ [quote_mark] @ cap_escaped (escape_description (skill_description repo nav)) @ [quote_mark] @ line_feed
      @ ''---'' @ line_feed @ line_feed @ ''# '' @ repo @ '' docs'' @ line_feed @ line_feed @ nt_description nav @ line_feed
      @ (case quickstart_page cp nav of
           None \<Rightarrow> []
         | Some qs \<Rightarrow> line_feed @ ''Quick start: ['' @ np_title qs @ ''](''
             @ raw_url base repo (resolve_nav_path index_path (np_path qs)) @ '')'' @ line_feed)
      @ line_feed @ ''## All pages'' @ line_feed
      @ concat (map (\<lambda>g. line_feed @ ''### '' @ ng_title g @ line_feed @ concat (map (link_line base repo index_path) (ng_pages g)))
          (nt_groups nav))
      @ line_feed @ ''For deeper or cross-page questions, use the akashic MCP server'' @ [CHR 0x27] @ ''s `search_knowledge` tool with `repo=''
      @ [quote_mark] @ repo @ [quote_mark] @ ''`, `prefer_space='' @ [quote_mark] @ ''doc'' @ [quote_mark] @ ''`.'' @ line_feed
      @ line_feed @ ''<!-- '' @ version_stamp repo version sha @ '' -->'' @ line_feed)"

section \<open>Reading a full text\<close>

definition is_rule :: "string \<Rightarrow> bool" where
  "is_rule line \<longleftrightarrow> trim line = ''---''"

definition url_key :: "string \<Rightarrow> string option" where
  "url_key line = map_option trim (strip_prefix ''url:'' (trim line))"

function find_blocks :: "string list \<Rightarrow> nat \<Rightarrow> (nat \<times> string) list" where
  "find_blocks lines i =
     (if i < length lines then
        (case (if is_rule (lines ! i) then List.find (\<lambda>j. is_rule (lines ! j)) [i + 1..<length lines] else None) of
           None \<Rightarrow> find_blocks lines (i + 1)
         | Some close \<Rightarrow>
             (case find_map url_key (drop (i + 1) (take close lines)) of
                Some url \<Rightarrow> (close, url) # find_blocks lines (close + 1)
              | None \<Rightarrow> find_blocks lines (i + 1)))
      else [])"
  by pat_completeness auto
termination
  by (relation "measure (\<lambda>(lines, i). length lines - i)") (auto simp: find_Some_iff split: if_splits)

declare find_blocks.simps [simp del]

definition blank :: "string \<Rightarrow> bool" where
  "blank line \<longleftrightarrow> trim line = []"

definition trim_body :: "string list \<Rightarrow> string list" where
  "trim_body body = rev (dropWhile (\<lambda>l. blank l \<or> is_rule l) (rev (dropWhile blank body)))"

record page_ref =
  pr_url :: string
  pr_title :: string
  pr_inline_markdown :: "string option"

definition page_of :: "(string \<Rightarrow> string) \<Rightarrow> string list \<Rightarrow> nat \<Rightarrow> string \<Rightarrow> nat \<Rightarrow> page_ref" where
  "page_of url_join lines close url body_end =
     (let body = trim_body (drop (close + 1) (take body_end lines)) in
      \<lparr>pr_url = url_join url,
       pr_title = (case find_map (\<lambda>l. map_option trim (strip_prefix ''# '' (trim l))) body of Some t \<Rightarrow> t | None \<Rightarrow> url),
       pr_inline_markdown = Some (join_with line_feed body)\<rparr>)"

fun block_pages :: "(string \<Rightarrow> string) \<Rightarrow> string list \<Rightarrow> (nat \<times> string) list \<Rightarrow> page_ref list" where
  "block_pages url_join lines [] = []"
| "block_pages url_join lines ((close, url) # blocks) =
     page_of url_join lines close url
       (case blocks of
          (next_close, _) # _ \<Rightarrow>
            (case List.find (\<lambda>j. is_rule (lines ! j)) (rev [0..<next_close]) of Some j \<Rightarrow> j | None \<Rightarrow> next_close)
        | [] \<Rightarrow> length lines)
     # block_pages url_join lines blocks"

definition parse_llms_full :: "(string \<Rightarrow> string) \<Rightarrow> string \<Rightarrow> page_ref list" where
  "parse_llms_full url_join text =
     (let lines = text_lines text in block_pages url_join lines (find_blocks lines 0))"

section \<open>The order of the pages\<close>

lemma nav_order_seen:
  "distinct seen \<Longrightarrow> set seen \<subseteq> {p \<in> set known. \<not> is_zh_tw_path p} \<Longrightarrow>
   distinct (nav_order known seen ps) \<and> set (nav_order known seen ps) =
     set seen \<union> {p \<in> set ps. p \<in> set known \<and> \<not> is_zh_tw_path p}"
  by (induction known seen ps rule: nav_order.induct) auto

lemma order_pages_parts:
  "order_pages nav md_paths index_path =
     nav_order md_paths [] (map (\<lambda>p. resolve_nav_path index_path (np_path p)) (nav_pages nav))
     @ sort (filter (\<lambda>p. p \<notin> set (nav_order md_paths [] (map (\<lambda>p. resolve_nav_path index_path (np_path p)) (nav_pages nav)))
         \<and> \<not> is_zh_tw_path p) md_paths)"
  by (simp add: order_pages_def Let_def)

text \<open>The pages of a full text: every page outside the Chinese mirror exactly once, first those of the navigation, then the others in
  lexicographic order.\<close>

theorem order_pages_exact:
  assumes "distinct md_paths"
  shows "distinct (order_pages nav md_paths index_path)
    \<and> set (order_pages nav md_paths index_path) = {p \<in> set md_paths. \<not> is_zh_tw_path p}
    \<and> (\<exists>n. set (take n (order_pages nav md_paths index_path)) =
             {p \<in> set (map (\<lambda>p. resolve_nav_path index_path (np_path p)) (nav_pages nav)). p \<in> set md_paths \<and> \<not> is_zh_tw_path p}
         \<and> sorted (drop n (order_pages nav md_paths index_path)))"
proof -
  define resolved where "resolved = map (\<lambda>p. resolve_nav_path index_path (np_path p)) (nav_pages nav)"
  define out where "out = nav_order md_paths [] resolved"
  define rest where "rest = filter (\<lambda>p. p \<notin> set out \<and> \<not> is_zh_tw_path p) md_paths"
  have out: "distinct out" "set out = {p \<in> set resolved. p \<in> set md_paths \<and> \<not> is_zh_tw_path p}"
    using nav_order_seen [of "[]" md_paths resolved] by (simp_all add: out_def)
  have rest: "distinct rest" "set rest = {p \<in> set md_paths. \<not> is_zh_tw_path p} - set out"
    using assms by (auto simp: rest_def)
  have whole: "order_pages nav md_paths index_path = out @ sort rest"
    unfolding order_pages_parts out_def rest_def resolved_def ..
  have "take (length out) (out @ sort rest) = out" "drop (length out) (out @ sort rest) = sort rest" by simp_all
  then have "\<exists>n. set (take n (out @ sort rest)) = set out \<and> sorted (drop n (out @ sort rest))" using sorted_sort by metis
  moreover have "distinct (out @ sort rest)" using out(1) rest by auto
  moreover have "set (out @ sort rest) = {p \<in> set md_paths. \<not> is_zh_tw_path p}" using out(2) rest(2) by auto
  ultimately show ?thesis unfolding whole resolved_def [symmetric] out(2) by blast
qed

section \<open>Percent encoding\<close>

fun hex_value :: "char \<Rightarrow> nat" where
  "hex_value c = length (takeWhile (\<lambda>d. d \<noteq> c) ''0123456789ABCDEF'')"

fun percent_decode :: "string \<Rightarrow> string" where
  "percent_decode [] = []"
| "percent_decode (c # cs) =
     (if c = CHR ''%'' then
        (case cs of a # b # rest \<Rightarrow> char_of (16 * hex_value a + hex_value b) # percent_decode rest | _ \<Rightarrow> c # percent_decode cs)
      else c # percent_decode cs)"

lemma hex_upper_value: "n < 16 \<Longrightarrow> hex_value (hex_upper n) = n"
proof -
  have "\<forall>n \<in> set [0..<16]. hex_value (hex_upper n) = n" by code_simp
  then show "n < 16 \<Longrightarrow> ?thesis" by simp
qed

lemma hex_upper_mod: "hex_upper n = hex_upper (n mod 16)"
  by (simp add: hex_upper_def)

lemma percent_decode_byte: "percent_decode (encode_byte b @ cs) = b # percent_decode cs"
proof (cases "url_unreserved b")
  case True
  then have "b \<noteq> CHR ''%''" by (auto simp: url_unreserved_def)
  with True show ?thesis by (simp add: encode_byte_def)
next
  case False
  have "hex_value (hex_upper (of_char b)) = of_char b mod 16"
    by (subst hex_upper_mod) (rule hex_upper_value, simp)
  moreover have "hex_value (hex_upper (of_char b div 16)) = of_char b div 16"
    by (rule hex_upper_value) (rule less_mult_imp_div_less, simp)
  ultimately show ?thesis using False by (simp add: encode_byte_def)
qed

lemma percent_decode_encode: "percent_decode (encode_path path @ cs) = path @ percent_decode cs"
  by (induction path) (simp_all add: encode_path_def percent_decode_byte)

lemma hex_upper_visible: "visible (hex_upper n)"
proof -
  have "hex_upper n \<in> set ''0123456789ABCDEF''" unfolding hex_upper_def by (rule nth_mem) simp
  then show ?thesis by (auto simp: visible_def)
qed

lemma unreserved_visible: "url_unreserved b \<Longrightarrow> visible b"
  by (auto simp: url_unreserved_def visible_def less_eq_char_def)

lemma percent_visible: "visible CHR ''%''"
  by (simp add: visible_def)

lemma encode_byte_visible: "c \<in> set (encode_byte b) \<Longrightarrow> visible c"
  by (auto simp: encode_byte_def hex_upper_visible unreserved_visible percent_visible split: if_splits)

lemma encode_path_visible: "c \<in> set (encode_path path) \<Longrightarrow> visible c"
  by (auto simp: encode_path_def intro: encode_byte_visible)

section \<open>Full texts read back\<close>

text \<open>A line without the carriage return that ends it: what \<open>str::lines\<close> does to a CRLF line.\<close>

definition chomp :: "string \<Rightarrow> string" where
  "chomp l = (case strip_suffix [CHR 0x0D] l of None \<Rightarrow> l | Some t \<Rightarrow> t)"

lemma chomp_plain: "\<not> ends_with [CHR 0x0D] l \<Longrightarrow> chomp l = l"
  by (simp add: chomp_def strip_suffix_def)

lemma text_lines_concat:
  "list_all (\<lambda>l. CHR 0x0A \<notin> set l) ls \<Longrightarrow> text_lines (concat (map (\<lambda>l. l @ line_feed) ls)) = map chomp ls"
proof -
  assume plain: "list_all (\<lambda>l. CHR 0x0A \<notin> set l) ls"
  have split: "split_char CHR 0x0A (concat (map (\<lambda>l. l @ line_feed) ls)) = ls @ [[]]"
    using plain by (induction ls) (simp_all add: line_feed_def split_char_sep)
  show ?thesis unfolding text_lines_def split by (simp add: chomp_def)
qed

lemma concat_lines: "ps \<noteq> [] \<Longrightarrow> concat (map (\<lambda>p. p @ line_feed) ps) = join_with line_feed ps @ line_feed"
  by (induction "line_feed" ps rule: join_with.induct) simp_all

lemma find_from:
  "List.find (\<lambda>j. P ((pre @ suf) ! j)) [length pre..<length pre + length suf] =
     (let k = length (takeWhile (\<lambda>x. \<not> P x) suf) in if k < length suf then Some (length pre + k) else None)"
proof (induction suf arbitrary: pre)
  case (Cons x suf)
  have range: "[length pre..<length pre + length (x # suf)] = length pre # [length (pre @ [x])..<length (pre @ [x]) + length suf]"
    by (subst upt_conv_Cons) simp_all
  show ?case
  proof (cases "P x")
    case False
    then show ?thesis unfolding range using Cons [of "pre @ [x]"] by (simp add: Let_def nth_append)
  next
    case True
    then show ?thesis unfolding range by (simp add: Let_def)
  qed
qed simp

text \<open>One step of the search for blocks: a line that starts none is skipped, one that starts a block is taken with it.\<close>

lemma find_blocks_skip:
  assumes "is_rule l \<Longrightarrow> \<forall>x \<in> set (takeWhile (\<lambda>x. \<not> is_rule x) suf). url_key x = None"
  shows "find_blocks (pre @ l # suf) (length pre) = find_blocks (pre @ l # suf) (Suc (length pre))"
proof (cases "is_rule l")
  case True
  let ?k = "length (takeWhile (\<lambda>x. \<not> is_rule x) suf)"
  have found: "List.find (\<lambda>j. is_rule ((pre @ l # suf) ! j)) [length pre + 1..<length (pre @ l # suf)] =
      (if ?k < length suf then Some (length pre + 1 + ?k) else None)"
    using find_from [of is_rule "pre @ [l]" suf] by (simp add: Let_def)
  have inside: "find_map url_key (drop (length pre + 1) (take (length pre + 1 + ?k) (pre @ l # suf))) = None"
    using assms [OF True] by (simp add: find_map_None takeWhile_eq_take [symmetric])
  show ?thesis
    by (subst find_blocks.simps) (use True found inside in \<open>simp\<close>)
next
  case False
  then show ?thesis by (subst find_blocks.simps) simp
qed

lemma find_blocks_take:
  assumes "is_rule l" "is_rule c" "\<forall>x \<in> set mid. \<not> is_rule x" "find_map url_key mid = Some u"
  shows "find_blocks (pre @ l # mid @ c # suf) (length pre) =
    (length pre + length mid + 1, u) # find_blocks (pre @ l # mid @ c # suf) (length pre + length mid + 2)"
proof -
  have while: "takeWhile (\<lambda>x. \<not> is_rule x) (mid @ c # suf) = mid" using assms(2,3) by (simp add: takeWhile_append2)
  have found: "List.find (\<lambda>j. is_rule ((pre @ l # mid @ c # suf) ! j)) [length pre + 1..<length (pre @ l # mid @ c # suf)] =
      Some (length pre + length mid + 1)"
    using find_from [of is_rule "pre @ [l]" "mid @ c # suf"] by (simp add: Let_def while)
  show ?thesis
    by (subst find_blocks.simps) (use assms(1,4) found in \<open>simp\<close>)
qed

lemma find_blocks_skip_list:
  "\<forall>x \<in> set B. url_key x = None \<Longrightarrow> \<forall>x \<in> set (takeWhile (\<lambda>x. \<not> is_rule x) R). url_key x = None \<Longrightarrow>
   find_blocks (pre @ B @ R) (length pre) = find_blocks (pre @ B @ R) (length pre + length B)"
proof (induction B arbitrary: pre)
  case (Cons l B)
  have "\<forall>x \<in> set (takeWhile (\<lambda>x. \<not> is_rule x) (B @ R)). url_key x = None"
    using Cons.prems by (induction B) auto
  from find_blocks_skip [of l "B @ R" pre, OF this] Cons.IH [of "pre @ [l]"] Cons.prems show ?case by simp
qed simp

lemma trim_end_ws: "ws_suffix (trim_end s) = None"
  by (induction s rule: trim_end.induct) (subst trim_end.simps, simp split: option.splits)

lemma trim_end_id: "ws_suffix s = None \<Longrightarrow> trim_end s = s"
  by (subst trim_end.simps) simp

lemma ws_suffix_None: "ws_suffix s = None \<longleftrightarrow> (\<forall>w \<in> set whitespace. \<not> ends_with w s)"
  by (auto simp: ws_suffix_def find_None_iff)

lemma ends_with_iff: "ends_with w s \<longleftrightarrow> (\<exists>r. s = r @ w)"
proof
  assume w: "ends_with w s"
  have "s = take (length s - length w) s @ drop (length s - length w) s" by simp
  with w show "\<exists>r. s = r @ w" by (metis ends_with_def)
qed (auto simp: ends_with_def)

lemma ws_suffix_append: "ws_suffix (p @ s) = None \<Longrightarrow> ws_suffix s = None"
  unfolding ws_suffix_None ends_with_iff by (metis append.assoc)

lemma trim_start_suffix: "\<exists>p. s = p @ trim_start s"
proof (induction s rule: trim_start.induct)
  case (1 s)
  show ?case
  proof (cases "ws_prefix s")
    case (Some w)
    then obtain p where "drop (length w) s = p @ trim_start (drop (length w) s)" using 1 by blast
    moreover have "trim_start s = trim_start (drop (length w) s)" by (subst trim_start.simps) (simp add: Some)
    ultimately have "s = take (length w) s @ p @ trim_start s" by (metis append_take_drop_id)
    then show ?thesis by (metis append.assoc)
  qed (subst trim_start.simps, simp)
qed

lemma trim_start_blank: "trim_start s = [] \<Longrightarrow> s = [] \<or> ws_suffix s \<noteq> None"
proof (induction s rule: trim_start.induct)
  case (1 s)
  show ?case
  proof (cases "ws_prefix s")
    case None
    with 1(2) show ?thesis by (simp add: trim_start.simps)
  next
    case (Some w)
    with 1(2) have "trim_start (drop (length w) s) = []" by (simp add: trim_start.simps)
    with 1(1) [OF Some] have "drop (length w) s = [] \<or> ws_suffix (drop (length w) s) \<noteq> None" by blast
    moreover have "s = w @ drop (length w) s" using ws_prefix_Some(2) [OF Some] by (metis starts_with_iff append_eq_conv_conj)
    moreover have "ws_suffix w \<noteq> None"
      using ws_prefix_Some(3) [OF Some] unfolding ws_suffix_None ends_with_iff by (metis append_Nil)
    ultimately show ?thesis by (metis append_Nil2 ws_suffix_append)
  qed
qed

text \<open>The last line of a text that is trimmed at its end is not blank.\<close>

lemma last_line_visible:
  assumes "ws_suffix s = None" and "s \<noteq> []"
  shows "\<not> blank (last (split_char CHR 0x0A s))"
proof
  let ?l = "last (split_char CHR 0x0A s)"
  assume "blank ?l"
  have s: "join_with [CHR 0x0A] (split_char CHR 0x0A s) = s" by (rule join_split)
  have suffix: "\<exists>p. join_with [c] ps = p @ last ps \<and> (p = [] \<or> last p = c)" if "ps \<noteq> []" for c and ps :: "string list"
    using that
  proof (induction "[c]" ps rule: join_with.induct)
    case (3 p q ps)
    then obtain r where r: "join_with [c] (q # ps) = r @ last (q # ps)" "r = [] \<or> last r = c" by auto
    then show ?case by (intro exI [of _ "p @ [c] @ r"]) (auto simp: r(1))
  qed auto
  obtain p where p: "s = p @ ?l" "p = [] \<or> last p = CHR 0x0A" using suffix [of "split_char CHR 0x0A s" "CHR 0x0A"] s by auto
  have none: "ws_suffix ?l = None" using ws_suffix_append [of p ?l] p(1) assms(1) by metis
  show False
  proof (cases "?l = []")
    case True
    with p assms(2) have "p = s" "last p = CHR 0x0A" by auto
    then have "ends_with [CHR 0x0A] s" using assms(2) unfolding ends_with_iff by (metis append_butlast_last_id)
    with assms(1) show False by (simp add: ws_suffix_None whitespace_def)
  next
    case False
    obtain q where q: "?l = q @ trim_start ?l" using trim_start_suffix by blast
    have "trim_start ?l \<noteq> []" using trim_start_blank False none by blast
    moreover have "ws_suffix (trim_start ?l) = None" using ws_suffix_append none q by metis
    ultimately show False using \<open>blank ?l\<close> by (simp add: blank_def trim_def trim_end_id)
  qed
qed

lemma chomp_id: "CHR 0x0D \<notin> set l \<Longrightarrow> chomp l = l"
  by (intro chomp_plain) (auto simp: ends_with_iff)

lemma last_line_suffix:
  assumes "ws_suffix s = None"
  shows "ws_suffix (last (split_char CHR 0x0A s)) = None"
proof -
  have "\<exists>p. join_with [c] ps = p @ last ps" if "ps \<noteq> []" for c and ps :: "string list"
    using that
  proof (induction "[c]" ps rule: join_with.induct)
    case (3 p q ps)
    then obtain r where "join_with [c] (q # ps) = r @ last (q # ps)" by auto
    then show ?case by (intro exI [of _ "p @ [c] @ r"]) auto
  qed auto
  from this [of "split_char CHR 0x0A s" "CHR 0x0A"] obtain p where "s = p @ last (split_char CHR 0x0A s)" by (auto simp: join_split)
  with assms show ?thesis using ws_suffix_append by metis
qed

text \<open>
  The lines of a page as they are rendered and as they are read, and the text they make: the page with trailing white space cut and CRLF
  line ends turned into line feeds. A page reads back when no line starts like the key, the last line is no rule and the first is not blank.
\<close>

definition source_lines :: "llms_page \<Rightarrow> string list" where
  "source_lines p = split_char CHR 0x0A (trim_end (lp_markdown p))"

definition body_lines :: "llms_page \<Rightarrow> string list" where
  "body_lines p = map chomp (source_lines p)"

definition page_text :: "llms_page \<Rightarrow> string" where
  "page_text p = join_with line_feed (body_lines p)"

definition readable_page :: "llms_page \<Rightarrow> bool" where
  "readable_page p \<longleftrightarrow>
     (let body = body_lines p in
      list_all (\<lambda>l. url_key l = None) body \<and> \<not> is_rule (last body) \<and> (trim_end (lp_markdown p) = [] \<or> \<not> blank (hd body)))"

definition page_source :: "string \<Rightarrow> string \<Rightarrow> llms_page \<Rightarrow> string list" where
  "page_source base repo p = [] # ''---'' # (''url: '' @ raw_url base repo (lp_path p)) # ''---'' # [] # source_lines p"

definition page_lines :: "string \<Rightarrow> string \<Rightarrow> llms_page \<Rightarrow> string list" where
  "page_lines base repo p = [] # ''---'' # (''url: '' @ raw_url base repo (lp_path p)) # ''---'' # [] # body_lines p"

lemma raw_url_visible: "\<forall>c \<in> set base. visible c \<Longrightarrow> c \<in> set (raw_url base repo path) \<Longrightarrow> visible c"
  by (auto simp: raw_url_def visible_def dest: encode_path_visible)

lemma raw_url_not_Nil: "raw_url base repo path \<noteq> []"
  by (simp add: raw_url_def)

lemma url_line:
  assumes "\<forall>c \<in> set base. visible c"
  shows "url_key (''url: '' @ raw_url base repo path) = Some (raw_url base repo path)"
    and "\<not> is_rule (''url: '' @ raw_url base repo path)"
proof -
  let ?u = "raw_url base repo path"
  have vis: "\<forall>c \<in> set ?u. visible c" using raw_url_visible [OF assms] by blast
  have u: "trim ?u = ?u" using vis raw_url_not_Nil by (intro trim_visible) auto
  have line: "trim (''url: '' @ ?u) = ''url: '' @ ?u"
    using vis raw_url_not_Nil [of base repo path] by (intro trim_visible) (auto simp: visible_def)
  then show "\<not> is_rule (''url: '' @ ?u)" by (simp add: is_rule_def)
  have "strip_prefix ''url:'' (''url: '' @ ?u) = Some (CHR 0x20 # ?u)" by (simp add: strip_prefix_Some)
  moreover have "trim (CHR 0x20 # ?u) = ?u" using u by (simp add: trim_def trim_start_space)
  ultimately show "url_key (''url: '' @ ?u) = Some ?u" unfolding url_key_def line by simp
qed

lemma rule_line: "is_rule ''---''"
  unfolding is_rule_def by (rule trim_visible) (simp_all add: visible_def)

lemma url_key_rule: "is_rule l \<Longrightarrow> url_key l = None"
  by (simp add: is_rule_def url_key_def strip_prefix_def starts_with_def)

lemma blank_line: "blank []" "\<not> is_rule []" "url_key [] = None"
  by (simp_all add: blank_def is_rule_def url_key_def strip_prefix_def starts_with_def)

fun page_blocks :: "string \<Rightarrow> string \<Rightarrow> nat \<Rightarrow> llms_page list \<Rightarrow> (nat \<times> string) list" where
  "page_blocks base repo n [] = []"
| "page_blocks base repo n (p # ps) =
     (n + 3, raw_url base repo (lp_path p)) # page_blocks base repo (n + length (page_lines base repo p)) ps"

lemma find_blocks_pages:
  assumes base: "\<forall>c \<in> set base. visible c" and "\<forall>p \<in> set ps. readable_page p"
  shows "find_blocks (pre @ concat (map (page_lines base repo) ps)) (length pre) = page_blocks base repo (length pre) ps"
  using assms(2)
proof (induction ps arbitrary: pre)
  case Nil
  then show ?case by (subst find_blocks.simps) simp
next
  case (Cons p ps)
  let ?u = "raw_url base repo (lp_path p)" and ?rest = "concat (map (page_lines base repo) ps)"
  let ?lines = "pre @ page_lines base repo p @ ?rest"
  have one: "find_blocks ?lines (length pre) = find_blocks ?lines (Suc (length pre))"
    using find_blocks_skip [of "[]" _ pre] blank_line(2) by (simp add: page_lines_def)
  have take: "find_blocks ?lines (Suc (length pre)) = (length pre + 3, ?u) # find_blocks ?lines (length pre + 4)"
    using find_blocks_take [OF rule_line rule_line, of "[''url: '' @ ?u]" ?u "pre @ [[]]" "[] # body_lines p @ ?rest"] url_line [OF base]
    by (simp add: page_lines_def numeral_eq_Suc)
  have body: "\<forall>x \<in> set ([] # body_lines p). url_key x = None"
    using Cons.prems by (simp add: readable_page_def Let_def list_all_iff blank_line)
  have next_page: "\<forall>x \<in> set (takeWhile (\<lambda>x. \<not> is_rule x) ?rest). url_key x = None"
    by (cases ps) (simp_all add: page_lines_def blank_line rule_line)
  have skip: "find_blocks ?lines (length pre + 4) = find_blocks ?lines (length pre + length (page_lines base repo p))"
    using find_blocks_skip_list [OF body next_page, of "pre @ [[], ''---'', ''url: '' @ ?u, ''---'']"]
    by (simp add: page_lines_def numeral_eq_Suc)
  from one take skip Cons.IH [of "pre @ page_lines base repo p"] Cons.prems show ?case by simp
qed

lemma trim_body_lines:
  assumes "readable_page p"
  shows "join_with line_feed (trim_body ([] # body_lines p @ [[]])) = page_text p"
    and "join_with line_feed (trim_body ([] # body_lines p)) = page_text p"
proof -
  have "join_with line_feed (trim_body ([] # body_lines p @ extra)) = page_text p" if "extra = [] \<or> extra = [[]]" for extra
  proof (cases "trim_end (lp_markdown p) = []")
    case True
    with that show ?thesis by (auto simp: body_lines_def source_lines_def page_text_def chomp_id trim_body_def blank_line)
  next
    case False
    let ?b = "body_lines p"
    have ne: "?b \<noteq> []" by (simp add: body_lines_def source_lines_def)
    let ?l = "last (source_lines p)"
    have "ws_suffix ?l = None" using last_line_suffix [OF trim_end_ws] by (simp add: source_lines_def)
    then have "\<not> ends_with [CHR 0x0D] ?l" unfolding ws_suffix_None by (simp add: whitespace_def)
    then have end_line: "last ?b = ?l" using ne by (simp add: body_lines_def last_map chomp_plain)
    have ends: "\<not> blank (hd ?b)" "\<not> blank (last ?b)" "\<not> is_rule (last ?b)"
      using assms False last_line_visible [OF trim_end_ws False] end_line by (simp_all add: readable_page_def source_lines_def Let_def)
    have "dropWhile blank ([] # ?b @ extra) = ?b @ extra" using ne ends(1) by (cases ?b) (simp_all add: blank_line)
    moreover have "dropWhile (\<lambda>l. blank l \<or> is_rule l) (rev (?b @ extra)) = rev ?b"
      using that ne ends(2,3) by (cases ?b rule: rev_cases) (auto simp: blank_line)
    ultimately show ?thesis by (simp add: trim_body_def page_text_def)
  qed
  from this [of "[[]]"] this [of "[]"] show "join_with line_feed (trim_body ([] # body_lines p @ [[]])) = page_text p"
    and "join_with line_feed (trim_body ([] # body_lines p)) = page_text p" by simp_all
qed

lemma block_pages_read:
  assumes base: "\<forall>c \<in> set base. visible c" and "\<forall>p \<in> set ps. readable_page p"
  shows "map (\<lambda>r. (pr_url r, pr_inline_markdown r))
      (block_pages url_join (pre @ concat (map (page_lines base repo) ps)) (page_blocks base repo (length pre) ps)) =
    map (\<lambda>p. (url_join (raw_url base repo (lp_path p)), Some (page_text p))) ps"
  using assms(2)
proof (induction ps arbitrary: pre)
  case (Cons p ps)
  let ?rest = "concat (map (page_lines base repo) ps)" and ?n = "length pre + length (page_lines base repo p)"
  let ?lines = "pre @ page_lines base repo p @ ?rest"
  have p: "readable_page p" using Cons.prems by simp
  have later: "map (\<lambda>r. (pr_url r, pr_inline_markdown r)) (block_pages url_join ?lines (page_blocks base repo ?n ps)) =
      map (\<lambda>p. (url_join (raw_url base repo (lp_path p)), Some (page_text p))) ps"
    using Cons.IH [of "pre @ page_lines base repo p"] Cons.prems by simp
  have after: "drop (Suc (length pre + 3)) (pre @ page_lines base repo p @ xs) = [] # body_lines p @ xs" for xs
    by (simp add: page_lines_def numeral_eq_Suc)
  show ?case
  proof (cases ps)
    case Nil
    have "drop (Suc (length pre + 3)) (take (length ?lines) ?lines) = [] # body_lines p" using after [of "[]"] Nil by simp
    with later Nil trim_body_lines(2) [OF p] show ?thesis by (simp add: page_of_def Let_def numeral_eq_Suc)
  next
    case (Cons q qs)
    let ?u = "''url: '' @ raw_url base repo (lp_path q)"
    have rest: "?rest = [] # ''---'' # ?u # ''---'' # [] # body_lines q @ concat (map (page_lines base repo) qs)"
      by (simp add: Cons page_lines_def)
    have at: "?lines ! (?n + 1) = ''---''" "?lines ! (?n + 2) = ?u"
      by (simp_all add: rest nth_append)
    have found: "List.find (\<lambda>j. is_rule (?lines ! j)) (rev [0..<?n + 3]) = Some (?n + 1)"
      using at url_line(2) [OF base] rule_line by (simp add: numeral_eq_Suc)
    have "take (?n + 1) ?lines = pre @ page_lines base repo p @ [[]]" by (simp add: rest)
    then have "drop (Suc (length pre + 3)) (take (?n + 1) ?lines) = [] # body_lines p @ [[]]" using after by simp
    with later found trim_body_lines(1) [OF p] show ?thesis by (simp add: Cons page_of_def Let_def numeral_eq_Suc)
  qed
qed simp

lemma concat_utf8_chars: "concat (utf8_chars s) = s"
  by (induction s rule: utf8_chars.induct) simp_all

lemma set_trim_end: "set (trim_end s) \<subseteq> set s"
proof (induction s rule: trim_end.induct)
  case (1 s)
  show ?case
  proof (cases "ws_suffix s")
    case (Some w)
    with 1 have "set (trim_end (take (length s - length w) s)) \<subseteq> set s" using set_take_subset by fast
    then show ?thesis by (subst trim_end.simps) (simp add: Some)
  qed (subst trim_end.simps, simp)
qed

lemma set_join_with: "l \<in> set ps \<Longrightarrow> set l \<subseteq> set (join_with sep ps)"
  by (induction sep ps rule: join_with.induct) auto

lemma split_char_set: "l \<in> set (split_char c s) \<Longrightarrow> set l \<subseteq> set s"
  using set_join_with [of l "split_char c s" "[c]"] by (simp add: join_split)

lemma page_lines_chomp:
  assumes "\<forall>c \<in> set base. visible c"
  shows "list_all (\<lambda>l. CHR 0x0A \<notin> set l) (page_source base repo p)" and "map chomp (page_source base repo p) = page_lines base repo p"
proof -
  have control: "\<not> visible CHR 0x0A" "\<not> visible CHR 0x0D" by (simp_all add: visible_def)
  have lf: "CHR 0x0A \<notin> set (raw_url base repo (lp_path p))" and cr: "CHR 0x0D \<notin> set (raw_url base repo (lp_path p))"
    using raw_url_visible [OF assms] control by blast+
  have "CHR 0x0A \<notin> set l" if "l \<in> set (source_lines p)" for l
    using that split_char_piece unfolding source_lines_def by metis
  with lf show "list_all (\<lambda>l. CHR 0x0A \<notin> set l) (page_source base repo p)" by (auto simp: page_source_def list_all_iff)
  show "map chomp (page_source base repo p) = page_lines base repo p"
    using cr by (simp add: page_source_def page_lines_def body_lines_def chomp_id)
qed

lemma page_text_plain: "CHR 0x0D \<notin> set (lp_markdown p) \<Longrightarrow> page_text p = trim_end (lp_markdown p)"
proof -
  assume "CHR 0x0D \<notin> set (lp_markdown p)"
  then have "CHR 0x0D \<notin> set l" if "l \<in> set (source_lines p)" for l
    using that split_char_set set_trim_end unfolding source_lines_def by (metis subsetD)
  then have "body_lines p = source_lines p" by (simp add: body_lines_def map_idI chomp_id)
  then show ?thesis by (simp add: page_text_def source_lines_def line_feed_def join_split)
qed

text \<open>A page with CRLF line ends does not come back byte for byte.\<close>

lemma crlf_page_altered: "page_text \<lparr>lp_path = ''a.md'', lp_markdown = ''a'' @ [CHR 0x0D, CHR 0x0A] @ ''b''\<rparr> = ''a'' @ line_feed @ ''b''"
  by code_simp

lemma stamp_line:
  "trim (''<!-- '' @ s @ '' -->'') = ''<!-- '' @ s @ '' -->''"
  by (rule trim_visible) (simp_all add: visible_def)

lemma source_lines_concat: "concat (map (\<lambda>l. l @ line_feed) (source_lines p)) = trim_end (lp_markdown p) @ line_feed"
  unfolding source_lines_def by (subst concat_lines) (simp_all add: line_feed_def join_split)

lemma render_llms_full_lines:
  "render_llms_full repo version sha pages base_url =
     concat (map (\<lambda>l. l @ line_feed) ((''<!-- '' @ version_stamp repo version sha @ '' -->'')
       # concat (map (page_source (trim_end_matches CHR ''/'' base_url) repo) pages)))"
proof -
  have "concat (map (\<lambda>l. l @ line_feed) (concat (map (page_source base repo) ps))) =
      concat (map (\<lambda>p. line_feed @ ''---'' @ line_feed @ ''url: '' @ raw_url base repo (lp_path p) @ line_feed @ ''---'' @ line_feed
          @ line_feed @ trim_end (lp_markdown p) @ line_feed) ps)" for base ps
    by (induction ps) (simp_all add: page_source_def source_lines_concat)
  then show ?thesis by (simp add: render_llms_full_def Let_def)
qed

text \<open>C27. The platform reads its own full text back: rendering a corpus and reading it gives the pages in their order, each with its URL and its
  text, up to trailing white space and CRLF line ends, which come back as line feeds. Every page must be free of lines that start with the key
  \<open>url:\<close> of the frontmatter, must not end in a rule and, unless it is blank, not begin with a blank line; the base URL must be visible ASCII,
  and repository, version and sha free of line breaks.\<close>

theorem llms_full_roundtrip:
  assumes "\<forall>c \<in> set base_url. visible c"
    and "\<forall>c \<in> set (repo @ version @ sha). c \<noteq> CHR 0x0A \<and> c \<noteq> CHR 0x0D" and "\<forall>p \<in> set pages. readable_page p"
  shows "map (\<lambda>r. (pr_url r, pr_inline_markdown r)) (parse_llms_full url_join (render_llms_full repo version sha pages base_url)) =
    map (\<lambda>p. (url_join (raw_url (trim_end_matches CHR ''/'' base_url) repo (lp_path p)), Some (page_text p))) pages"
proof -
  let ?base = "trim_end_matches CHR ''/'' base_url" and ?s = "''<!-- '' @ version_stamp repo version sha @ '' -->''"
  let ?rest = "concat (map (page_lines ?base repo) pages)"
  have base: "\<forall>c \<in> set ?base. visible c"
    using assms(1) by (auto simp: trim_end_matches_def dest: set_dropWhileD)
  have "sha = concat (take 7 (utf8_chars sha)) @ concat (drop 7 (utf8_chars sha))"
    by (metis append_take_drop_id concat_append concat_utf8_chars)
  then have "set (concat (take 7 (utf8_chars sha))) \<subseteq> set sha" by (metis Un_upper1 set_append)
  with assms(2) have "CHR 0x0A \<notin> set (version_stamp repo version sha)" "CHR 0x0D \<notin> set (version_stamp repo version sha)"
    unfolding version_stamp_def set_append by auto
  then have "CHR 0x0A \<notin> set ?s \<and> CHR 0x0D \<notin> set ?s" by simp
  moreover have "list_all (\<lambda>l. CHR 0x0A \<notin> set l) (concat (map (page_source ?base repo) pages))"
    using page_lines_chomp(1) [OF base] by (auto simp: list_all_iff)
  moreover have "map chomp (concat (map (page_source ?base repo) pages)) = ?rest"
    by (simp add: map_concat o_def page_lines_chomp(2) [OF base])
  ultimately have parsed: "text_lines (render_llms_full repo version sha pages base_url) = [?s] @ ?rest"
    unfolding render_llms_full_lines by (subst text_lines_concat) (simp_all add: chomp_id)
  have "\<not> is_rule ?s" using stamp_line [of "version_stamp repo version sha"] by (simp add: is_rule_def)
  then have "find_blocks ([?s] @ ?rest) 0 = find_blocks ([?s] @ ?rest) (length [?s])"
    using find_blocks_skip [of ?s ?rest "[]"] by simp
  then have "find_blocks ([?s] @ ?rest) 0 = page_blocks ?base repo (length [?s]) pages"
    using find_blocks_pages [OF base assms(3), of "[?s]"] by simp
  then show ?thesis unfolding parse_llms_full_def parsed Let_def using block_pages_read [OF base assms(3), of url_join "[?s]"] by simp
qed

section \<open>Skills\<close>

text \<open>Reading a double-quoted YAML scalar up to its closing quote: a backslash takes the next character as it is.\<close>

fun read_quoted :: "string \<Rightarrow> (string \<times> string) option" where
  "read_quoted [] = None"
| "read_quoted (c # cs) =
     (if c = quote_mark then Some ([], cs)
      else if c = backslash then (case cs of [] \<Rightarrow> None | d # ds \<Rightarrow> map_option (\<lambda>(v, r). (d # v, r)) (read_quoted ds))
      else map_option (\<lambda>(v, r). (c # v, r)) (read_quoted cs))"

fun quoted_state :: "bool \<Rightarrow> string \<Rightarrow> bool option" where
  "quoted_state b [] = Some b"
| "quoted_state b (c # cs) =
     (if b then quoted_state False cs else if c = quote_mark then None else quoted_state (c = backslash) cs)"

lemma quoted_state_append: "quoted_state b (s @ t) = Option.bind (quoted_state b s) (\<lambda>b. quoted_state b t)"
  by (induction b s rule: quoted_state.induct) auto

lemma special_chars: "backslash \<noteq> quote_mark" "backslash \<noteq> CHR 0x0A" "quote_mark \<noteq> CHR 0x0A" "backslash \<noteq> CHR '' ''" "quote_mark \<noteq> CHR '' ''"
  by (simp_all add: backslash_def quote_mark_def)

lemma read_quoted_closed: "quoted_state False s = Some False \<Longrightarrow> \<exists>v. read_quoted (s @ quote_mark # rest) = Some (v, rest)"
proof (induction s rule: length_induct)
  case (1 s)
  show ?case
  proof (cases s)
    case (Cons c cs)
    show ?thesis
    proof (cases "c = backslash")
      case True
      with Cons 1(2) special_chars(1) obtain d ds where cs: "cs = d # ds" "quoted_state False ds = Some False" by (cases cs) auto
      then obtain v where "read_quoted (ds @ quote_mark # rest) = Some (v, rest)" using 1(1) Cons by fastforce
      with Cons cs True special_chars(1) show ?thesis by simp
    next
      case False
      with Cons 1(2) have "c \<noteq> quote_mark" "quoted_state False cs = Some False" by (auto split: if_splits)
      moreover from this obtain v where "read_quoted (cs @ quote_mark # rest) = Some (v, rest)" using 1(1) Cons by fastforce
      ultimately show ?thesis using Cons False by simp
    qed
  qed simp
qed

definition escape_char :: "char \<Rightarrow> string" where
  "escape_char c =
     (if c = backslash then [backslash, backslash] else if c = quote_mark then [backslash, quote_mark]
      else if c = CHR 0x0A then '' '' else [c])"

lemma escape_description_chars: "escape_description s = concat (map escape_char s)"
  by (induction s) (auto simp: escape_description_def replace_char_def escape_char_def special_chars special_chars [symmetric])

lemma escape_closed: "quoted_state False (escape_description s) = Some False"
  unfolding escape_description_chars
  by (induction s) (simp_all add: quoted_state_append escape_char_def special_chars special_chars [symmetric])

lemma trailing_state:
  "quoted_state False p = Some b \<Longrightarrow> b = odd (length (takeWhile (\<lambda>c. c = backslash) (rev p)))"
proof (induction p arbitrary: b rule: rev_induct)
  case (snoc c p)
  then obtain b' where b': "quoted_state False p = Some b'" "quoted_state b' [c] = Some b"
    by (auto simp: quoted_state_append bind_eq_Some_conv)
  with snoc.IH [OF b'(1)] show ?case by (cases b') (auto split: if_splits)
qed simp

lemma trailing_bytes:
  "list_all (\<lambda>c. c \<noteq> [] \<and> list_all is_continuation (tl c)) cs \<Longrightarrow>
   trailing_backslashes cs = length (takeWhile (\<lambda>c. c = backslash) (rev (concat cs)))"
proof (induction cs rule: rev_induct)
  case (snoc c cs)
  show ?case
  proof (cases "c = [backslash]")
    case True
    with snoc show ?thesis by (simp add: trailing_backslashes_def)
  next
    case False
    obtain h conts where c: "c = h # conts" "list_all is_continuation conts" using snoc.prems by (cases c) auto
    have "last c \<noteq> backslash"
      using c False by (cases conts rule: rev_cases) (auto simp: backslash_def is_continuation_def)
    moreover obtain ys y where "c = ys @ [y]" using c(1) by (metis append_butlast_last_id list.distinct(1))
    ultimately have "takeWhile (\<lambda>c. c = backslash) (rev c @ rev (concat cs)) = []" by simp
    with False show ?thesis by (simp add: trailing_backslashes_def)
  qed
qed (simp add: trailing_backslashes_def)

lemma utf8_chars_shape: "list_all (\<lambda>c. c \<noteq> [] \<and> list_all is_continuation (tl c)) (utf8_chars s)"
  by (induction s rule: utf8_chars.induct) (auto simp: list_all_iff dest: set_takeWhileD)

lemma drop_dangling_prefix: "\<exists>m. drop_dangling n cs = take m cs"
proof (induction n cs rule: drop_dangling.induct)
  case (2 n cs)
  then show ?case by (auto simp: butlast_conv_take) (metis take_all order_refl)
qed (metis drop_dangling.simps(1) take_all order_refl)

lemma drop_dangling_even: "length cs \<le> n \<Longrightarrow> even (trailing_backslashes (drop_dangling n cs))"
  by (induction n cs rule: drop_dangling.induct) (auto simp: trailing_backslashes_def odd_iff_mod_2_eq_one)

lemma while_stop:
  "(case r of [] \<Rightarrow> True | d # _ \<Rightarrow> \<not> P d) \<Longrightarrow>
   takeWhile P (takeWhile P cs @ r) = takeWhile P cs \<and> dropWhile P (takeWhile P cs @ r) = r"
  by (induction cs) (auto split: list.splits)

lemma utf8_chars_take:
  assumes "case t of [] \<Rightarrow> True | c # _ \<Rightarrow> \<not> is_continuation c"
  shows "utf8_chars (concat (take m (utf8_chars s)) @ t) = take m (utf8_chars s) @ utf8_chars t"
proof (induction s arbitrary: m rule: utf8_chars.induct)
  case (2 c cs)
  show ?case
  proof (cases m)
    case (Suc k)
    let ?rest = "concat (take k (utf8_chars (dropWhile is_continuation cs))) @ t"
    have first: "case ?rest of [] \<Rightarrow> True | d # _ \<Rightarrow> \<not> is_continuation d"
    proof (cases "dropWhile is_continuation cs")
      case (Cons d ds)
      then have "\<not> is_continuation d" using hd_dropWhile [of is_continuation cs] by simp
      with Cons assms show ?thesis by (cases k) simp_all
    next
      case Nil
      show ?thesis unfolding Nil using assms by simp
    qed
    have "takeWhile is_continuation (takeWhile is_continuation cs @ ?rest) = takeWhile is_continuation cs"
      "dropWhile is_continuation (takeWhile is_continuation cs @ ?rest) = ?rest"
      using while_stop [OF first] by blast+
    with 2 [of k] Suc show ?thesis by simp
  qed simp
qed simp

lemma cap_escaped_long:
  assumes "\<not> length (utf8_chars s) \<le> 1024"
  shows "\<exists>m \<le> 1021. cap_escaped s = concat (take m (utf8_chars s)) @ ''...'' \<and> even (trailing_backslashes (take m (utf8_chars s)))"
proof -
  define cs where "cs = take 1021 (utf8_chars s)"
  obtain m where m: "drop_dangling (length cs) cs = take m cs" using drop_dangling_prefix by blast
  have "cap_escaped s = concat (take m cs) @ ''...''" using assms unfolding cap_escaped_def Let_def cs_def [symmetric] m by simp
  moreover have "even (trailing_backslashes (take m cs))" using drop_dangling_even [of cs "length cs"] m by simp
  moreover have "take m cs = take (min m 1021) (utf8_chars s)" by (simp add: cs_def)
  ultimately show ?thesis by (intro exI [of _ "min m 1021"]) auto
qed

lemma concat_take_utf8: "s = concat (take m (utf8_chars s)) @ concat (drop m (utf8_chars s))"
  by (metis append_take_drop_id concat_append concat_utf8_chars)

lemma cap_escaped_closed:
  assumes "quoted_state False s = Some False"
  shows "quoted_state False (cap_escaped s) = Some False"
proof (cases "length (utf8_chars s) \<le> 1024")
  case True
  with assms show ?thesis by (simp add: cap_escaped_def Let_def)
next
  case False
  then obtain m where m: "cap_escaped s = concat (take m (utf8_chars s)) @ ''...''" "even (trailing_backslashes (take m (utf8_chars s)))"
    using cap_escaped_long by blast
  obtain b where b: "quoted_state False (concat (take m (utf8_chars s))) = Some b"
    using assms concat_take_utf8 [of s m] by (metis bind_eq_Some_conv quoted_state_append)
  have "list_all (\<lambda>c. c \<noteq> [] \<and> list_all is_continuation (tl c)) (take m (utf8_chars s))"
    using utf8_chars_shape [of s] by (auto simp: list_all_iff dest: in_set_takeD)
  from trailing_bytes [OF this] trailing_state [OF b] m(2) have "b = False" by simp
  moreover have "quoted_state False ''...'' = Some False" by (simp add: quote_mark_def backslash_def)
  ultimately show ?thesis unfolding m(1) quoted_state_append b by simp
qed

lemma cap_escaped_length: "length (utf8_chars (cap_escaped s)) \<le> 1024"
proof (cases "length (utf8_chars s) \<le> 1024")
  case False
  then obtain m where m: "cap_escaped s = concat (take m (utf8_chars s)) @ ''...''" "m \<le> 1021" using cap_escaped_long by blast
  have "length (utf8_chars ''...'') = 3" by (simp add: is_continuation_def)
  moreover have "utf8_chars (cap_escaped s) = take m (utf8_chars s) @ utf8_chars ''...''"
    unfolding m(1) by (rule utf8_chars_take) (simp add: is_continuation_def)
  ultimately show ?thesis using m(2) by simp
qed (simp add: cap_escaped_def Let_def)

lemma cap_escaped_set: "set (cap_escaped s) \<subseteq> set s \<union> {CHR ''.''}"
proof (cases "length (utf8_chars s) \<le> 1024")
  case False
  then obtain m where m: "cap_escaped s = concat (take m (utf8_chars s)) @ ''...''" using cap_escaped_long by blast
  have "set (concat (take m (utf8_chars s))) \<subseteq> set s" using concat_take_utf8 [of s m] by (metis Un_upper1 set_append)
  then show ?thesis unfolding m set_append by auto
qed (auto simp: cap_escaped_def Let_def)

lemma escape_char_no_feed: "CHR 0x0A \<notin> set (escape_char c)"
  by (simp add: escape_char_def backslash_def quote_mark_def)

text \<open>Text from the repository cannot break the frontmatter of a skill: a YAML reader ends the description at the closing quote the renderer
  wrote, the value has at most 1024 characters, and there is no line feed in it.\<close>

theorem skill_description_unbroken:
  "\<exists>value. read_quoted (cap_escaped (escape_description description) @ quote_mark # after) = Some (value, after)
     \<and> length (utf8_chars (cap_escaped (escape_description description))) \<le> 1024
     \<and> CHR 0x0A \<notin> set (cap_escaped (escape_description description))"
proof -
  have "CHR 0x0A \<notin> set (escape_description description)"
    by (auto simp: escape_description_chars escape_char_no_feed)
  then have "CHR 0x0A \<notin> set (cap_escaped (escape_description description))" using cap_escaped_set by fastforce
  with read_quoted_closed [OF cap_escaped_closed [OF escape_closed], of description after] cap_escaped_length show ?thesis by blast
qed

lemma skill_chars_set: "c \<in> set (skill_chars b cs) \<Longrightarrow> CHR ''a'' \<le> c \<and> c \<le> CHR ''z'' \<or> CHR ''0'' \<le> c \<and> c \<le> CHR ''9'' \<or> c = CHR ''-''"
  by (induction b cs rule: skill_chars.induct)
     (auto simp: ascii_alphanumeric_def ascii_lower_def less_eq_char_def split: if_splits)

lemma cut_boundary_le: "cut_boundary s n \<le> n"
  by (induction s n rule: cut_boundary.induct) auto

lemma trim_end_matches_le: "length (trim_end_matches c s) \<le> length s" "set (trim_end_matches c s) \<subseteq> set s"
  by (auto simp: trim_end_matches_def dest: set_dropWhileD) (metis length_dropWhile_le length_rev)

text \<open>A skill name fits the 64 characters of the frontmatter and is made of lower-case letters, digits and hyphens.\<close>

theorem skill_name_valid:
  "length (skill_name repo) \<le> 64 \<and>
   set (skill_name repo) \<subseteq> {c. CHR ''a'' \<le> c \<and> c \<le> CHR ''z'' \<or> CHR ''0'' \<le> c \<and> c \<le> CHR ''9'' \<or> c = CHR ''-''}"
proof -
  define base where "base = trim_end_matches CHR ''-'' (skill_chars True (utf8_chars repo))"
  define cut where "cut = (if 59 < length base then take (cut_boundary base 59) base else base)"
  have name: "skill_name repo = trim_end_matches CHR ''-'' cut @ ''-docs''"
    by (simp add: skill_name_def Let_def base_def cut_def)
  have "length cut \<le> 59" using cut_boundary_le [of base 59] by (simp add: cut_def)
  then have "length (trim_end_matches CHR ''-'' cut) \<le> 59" using trim_end_matches_le(1) le_trans by blast
  moreover have chars: "c \<in> set (skill_chars True (utf8_chars repo))" if "c \<in> set (trim_end_matches CHR ''-'' cut)" for c
  proof -
    have "c \<in> set cut" using that trim_end_matches_le(2) by blast
    then have "c \<in> set base" by (auto simp: cut_def dest: in_set_takeD split: if_splits)
    then show ?thesis using trim_end_matches_le(2) unfolding base_def by blast
  qed
  moreover have "set ''-docs'' \<subseteq> {c. CHR ''a'' \<le> c \<and> c \<le> CHR ''z'' \<or> CHR ''0'' \<le> c \<and> c \<le> CHR ''9'' \<or> c = CHR ''-''}"
    by (simp add: less_eq_char_def)
  ultimately show ?thesis unfolding name set_append length_append using skill_chars_set by (intro conjI Un_least subsetI) (simp, blast+)
qed

definition demo_pages :: "llms_page list" where
  "demo_pages = [\<lparr>lp_path = ''index.md'', lp_markdown = ''# Acme'' @ line_feed @ line_feed @ ''---'' @ line_feed @ ''Text.'' @ line_feed\<rparr>,
     \<lparr>lp_path = ''guide/a b.md'', lp_markdown = []\<rparr>]"

theorem llms_full_roundtrip_witness:
  "map (\<lambda>r. (pr_url r, pr_inline_markdown r)) (parse_llms_full id (render_llms_full ''acme'' ''1.0'' ''0123456789'' demo_pages ''https://x/'')) =
     [(''https://x/api/v1/docs/acme/latest/raw/index.md'', Some (''# Acme'' @ line_feed @ line_feed @ ''---'' @ line_feed @ ''Text.'')),
      (''https://x/api/v1/docs/acme/latest/raw/guide/a%20b.md'', Some [])]"
proof -
  have base: "\<forall>c \<in> set ''https://x/''. visible c" by code_simp
  have header: "\<forall>c \<in> set (''acme'' @ ''1.0'' @ ''0123456789''). c \<noteq> CHR 0x0A \<and> c \<noteq> CHR 0x0D" by code_simp
  have pages: "\<forall>p \<in> set demo_pages. readable_page p" by code_simp
  have want: "map (\<lambda>p. (id (raw_url (trim_end_matches CHR ''/'' ''https://x/'') ''acme'' (lp_path p)), Some (page_text p))) demo_pages =
     [(''https://x/api/v1/docs/acme/latest/raw/index.md'', Some (''# Acme'' @ line_feed @ line_feed @ ''---'' @ line_feed @ ''Text.'')),
      (''https://x/api/v1/docs/acme/latest/raw/guide/a%20b.md'', Some [])]" by code_simp
  show ?thesis using llms_full_roundtrip [OF base header pages, of id] unfolding want .
qed

text \<open>A page that shows a frontmatter block of its own is read as two pages.\<close>

lemma frontmatter_splits_page:
  "map pr_url (parse_llms_full id (render_llms_full ''acme'' ''1.0'' ''0123456789''
     [\<lparr>lp_path = ''a.md'', lp_markdown = ''# A'' @ line_feed @ ''---'' @ line_feed @ ''url: b'' @ line_feed @ ''---'' @ line_feed @ ''B''\<rparr>] ''x'')) =
   [''x/api/v1/docs/acme/latest/raw/a.md'', ''b'']"
  by code_simp

theorem order_pages_exact_witness:
  "set (order_pages \<lparr>nt_description = [], nt_groups = [\<lparr>ng_title = ''G'', ng_pages = [\<lparr>np_title = ''B'', np_path = ''b.md'', np_description = []\<rparr>]\<rparr>]\<rparr>
     [''a.md'', ''b.md'', ''zh-TW/a.md''] ''index.md'') = {''a.md'', ''b.md''}"
proof -
  have "distinct [''a.md'', ''b.md'', ''zh-TW/a.md'']" by code_simp
  moreover have "is_zh_tw_path ''zh-TW/a.md''" "\<not> is_zh_tw_path ''a.md''" "\<not> is_zh_tw_path ''b.md''" by code_simp+
  ultimately show ?thesis using order_pages_exact [of "[''a.md'', ''b.md'', ''zh-TW/a.md'']"] by auto
qed

end
