(* ===== verification/Module_Grouping.thy ===== *)
theory Module_Grouping
  imports Rust_Text "HOL-Library.Multiset"
begin

text \<open>
  Stage 3 of an ingestion: files are parsed and grouped into modules (\<open>chunk_and_group\<close> of \<open>ingestion/stages.rs\<close> with
  \<open>ingestion/virtual_modules.rs\<close>).

  A \<open>HashMap\<close> is an association list; wherever the code iterates over one, the order is what a function of \<open>group_env\<close> makes of the list.
  Reading a file, extracting its chunks and the answer of the language model are functions of \<open>group_env\<close> too.
\<close>

section \<open>Files and modules\<close>

type_synonym chunk_symbols = "(string \<times> string \<times> string option) list"

record grouped_file =
  gf_relative_path :: string
  gf_symbols :: chunk_symbols

type_synonym modules = "(string \<times> grouped_file list) list"

type_synonym groups = "(string \<times> string list) list"

record group_env =
  ge_module_min :: nat
  ge_module_max :: nat
  ge_max_lines :: nat
  ge_read :: "string \<Rightarrow> string + string"
  ge_extract :: "string \<Rightarrow> string \<Rightarrow> string + chunk_symbols"
  ge_llm :: "string \<Rightarrow> (string \<times> chunk_symbols) list \<Rightarrow> string + groups"
  ge_walk_modules :: "nat \<Rightarrow> modules \<Rightarrow> modules"
  ge_walk_names :: "(string \<times> grouped_file) list \<Rightarrow> (string \<times> grouped_file) list"
  ge_walk_prefixes :: "groups \<Rightarrow> groups"

definition rsplit_once :: "char \<Rightarrow> string \<Rightarrow> (string \<times> string) option" where
  "rsplit_once c s =
     (if c \<in> set s then Some (rev (tl (dropWhile (\<lambda>x. x \<noteq> c) (rev s))), rev (takeWhile (\<lambda>x. x \<noteq> c) (rev s))) else None)"

definition parent_dir :: "string \<Rightarrow> string" where
  "parent_dir path = (case rsplit_once CHR ''/'' path of Some (d, _) \<Rightarrow> d | None \<Rightarrow> ''.'')"

definition base_name :: "string \<Rightarrow> string" where
  "base_name path = (case rsplit_once CHR ''/'' path of Some (_, n) \<Rightarrow> n | None \<Rightarrow> path)"

section \<open>Parsing\<close>

fun parse_files :: "group_env \<Rightarrow> string list \<Rightarrow> modules \<times> (string \<times> string) list \<Rightarrow> modules \<times> (string \<times> string) list" where
  "parse_files env [] st = st"
| "parse_files env (path # paths) (dirs, failed) =
     (case ge_read env path of
        Inl e \<Rightarrow> parse_files env paths (dirs, failed @ [(path, e)])
      | Inr content \<Rightarrow>
          (let source = join_with [CHR 0x0A] (take (ge_max_lines env) (text_lines content)) in
           case ge_extract env path source of
             Inl e \<Rightarrow> parse_files env paths (dirs, failed @ [(path, e)])
           | Inr symbols \<Rightarrow>
               parse_files env paths
                 (entry (parent_dir path) [] (\<lambda>fs. fs @ [\<lparr>gf_relative_path = path, gf_symbols = symbols\<rparr>]) dirs, failed)))"

section \<open>Rolling small modules up\<close>

definition small_modules :: "nat \<Rightarrow> (string \<Rightarrow> bool) \<Rightarrow> modules \<Rightarrow> string list" where
  "small_modules module_min eligible m = map fst (filter (\<lambda>(path, fs). length fs < module_min \<and> path \<noteq> ''.'' \<and> eligible path) m)"

text \<open>One pass over the small modules found before it. The pass over directories has no virtual paths.\<close>

fun rollup_round :: "string list \<Rightarrow> modules \<times> string list \<times> bool \<Rightarrow> modules \<times> string list \<times> bool" where
  "rollup_round [] st = st"
| "rollup_round (path # paths) (m, virtual, changed) =
     (case map_of m path of
        None \<Rightarrow> rollup_round paths (m, virtual, changed)
      | Some orphans \<Rightarrow>
          rollup_round paths
            (entry (parent_dir path) [] (\<lambda>fs. fs @ orphans) (filter (\<lambda>x. fst x \<noteq> path) m), removeAll path virtual, True))"

definition path_weight :: "string \<Rightarrow> nat" where
  "path_weight path = (if path = ''.'' then 0 else length path + 1)"

definition modules_weight :: "modules \<Rightarrow> nat" where
  "modules_weight m = sum_list (map (\<lambda>x. path_weight (fst x)) m)"

lemma parent_dir_lighter: "path \<noteq> ''.'' \<Longrightarrow> path_weight (parent_dir path) < path_weight path"
proof -
  have "length (tl (dropWhile (\<lambda>x. x \<noteq> CHR ''/'') (rev path))) < length path" if "CHR ''/'' \<in> set path"
    unfolding length_tl using length_dropWhile_le [of "\<lambda>x. x \<noteq> CHR ''/''" "rev path"] length_pos_if_in_set [OF that]
    by (metis (no_types, lifting) diff_less length_rev less_le_trans less_numeral_extra(1) linorder_not_le not_less_zero order_trans zero_less_diff)
  then show "path \<noteq> ''.'' \<Longrightarrow> ?thesis" by (auto simp: path_weight_def parent_dir_def rsplit_once_def)
qed

lemma weight_entry: "modules_weight (entry k d f m) \<le> modules_weight m + path_weight k"
proof (induction m)
  case (Cons x m)
  then show ?case by (cases x) (simp add: modules_weight_def)
qed (simp add: modules_weight_def)

lemma weight_remove: "map_of m path = Some fs \<Longrightarrow> modules_weight (filter (\<lambda>x. fst x \<noteq> path) m) + path_weight path \<le> modules_weight m"
proof (induction m)
  case (Cons x m)
  have "modules_weight (filter (\<lambda>x. fst x \<noteq> path) m) \<le> modules_weight m" by (induction m) (simp_all add: modules_weight_def)
  with Cons show ?case by (cases x) (auto simp: modules_weight_def split: if_splits)
qed simp

lemma weight_round:
  "rollup_round paths (m, virtual, changed) = (m', virtual', changed') \<Longrightarrow> ''.'' \<notin> set paths \<Longrightarrow>
   modules_weight m' \<le> modules_weight m \<and> (changed' \<longrightarrow> changed \<or> modules_weight m' < modules_weight m)"
proof (induction paths arbitrary: m virtual changed)
  case (Cons path paths)
  show ?case
  proof (cases "map_of m path")
    case None
    with Cons.IH [of m virtual changed] Cons.prems show ?thesis by auto
  next
    case (Some orphans)
    let ?m = "entry (parent_dir path) [] (\<lambda>fs. fs @ orphans) (filter (\<lambda>x. fst x \<noteq> path) m)"
    have path: "path \<noteq> ''.''" using Cons.prems(2) by auto
    have "modules_weight ?m < modules_weight m"
      using weight_entry [of "parent_dir path" "[]" "\<lambda>fs. fs @ orphans" "filter (\<lambda>x. fst x \<noteq> path) m"] weight_remove [OF Some]
        parent_dir_lighter [OF path] by linarith
    moreover have "modules_weight m' \<le> modules_weight ?m" using Cons.IH [of ?m "removeAll path virtual" True] Cons.prems Some by simp
    ultimately show ?thesis by simp
  qed
qed simp

lemma small_modules_no_root: "''.'' \<notin> set (small_modules module_min eligible m)"
  by (auto simp: small_modules_def)

lemma small_round_lighter:
  "rollup_round (small_modules module_min eligible w) (m, virtual, False) = (m', virtual', True) \<Longrightarrow> modules_weight m' < modules_weight m"
  using weight_round [OF _ small_modules_no_root] by blast

function rollup :: "nat \<Rightarrow> bool \<Rightarrow> (nat \<Rightarrow> modules \<Rightarrow> modules) \<Rightarrow> nat \<Rightarrow> modules \<times> string list \<Rightarrow> modules \<times> string list" where
  "rollup module_min only_virtual walk k (m, virtual) =
     (case rollup_round (small_modules module_min (\<lambda>p. only_virtual \<longrightarrow> p \<in> set virtual) (walk k m)) (m, virtual, False) of
        (m', virtual', changed) \<Rightarrow>
          if changed then rollup module_min only_virtual walk (k + 1) (m', virtual') else (m', virtual'))"
  by pat_completeness auto
termination
  by (relation "measure (\<lambda>(_, _, _, _, m, _). modules_weight m)") (auto dest!: sym [of "(_, _, True)"] small_round_lighter)

declare rollup.simps [simp del]

section \<open>Splitting large modules\<close>

definition u32_len :: "'a list \<Rightarrow> nat" where
  "u32_len xs = nat (int (length xs) mod 2 ^ 32)"

definition prefix_fallback :: "(groups \<Rightarrow> groups) \<Rightarrow> string list \<Rightarrow> groups" where
  "prefix_fallback walk names =
     (let prefixes = fold (\<lambda>n. entry (takeWhile (\<lambda>c. c \<notin> set ''_-.'') n) [] (\<lambda>ns. ns @ [n])) names [];
          orphans = concat (map snd (filter (\<lambda>(_, ns). length ns < 2) (walk prefixes)));
          result = filter (\<lambda>(_, ns). \<not> length ns < 2) (walk prefixes)
      in if orphans = [] then result
         else if result = [] then [(''All Files'', orphans)]
         else let largest = Max (set (map (\<lambda>(_, ns). length ns) result));
                  i = last (filter (\<lambda>i. length (snd (result ! i)) = largest) [0..<length result])
              in result[i := (fst (result ! i), snd (result ! i) @ orphans)])"

definition maybe_split_module :: "group_env \<Rightarrow> string \<Rightarrow> (string \<times> chunk_symbols) list \<Rightarrow> groups option" where
  "maybe_split_module env module_path meta =
     (if u32_len meta \<le> ge_module_max env then None
      else case ge_llm env module_path meta of
        Inr groups \<Rightarrow> Some groups
      | Inl _ \<Rightarrow> Some (prefix_fallback (ge_walk_prefixes env) (map fst meta)))"

definition index_by_name :: "grouped_file list \<Rightarrow> (string \<times> grouped_file) list" where
  "index_by_name fs = fold (\<lambda>f. entry (base_name (gf_relative_path f)) f (\<lambda>_. f)) fs []"

fun claim_names :: "string list \<Rightarrow> (string \<times> grouped_file) list \<Rightarrow> grouped_file list \<times> (string \<times> grouped_file) list" where
  "claim_names [] by_name = ([], by_name)"
| "claim_names (n # ns) by_name =
     (case map_of by_name n of
        None \<Rightarrow> claim_names ns by_name
      | Some f \<Rightarrow> let (fs, left) = claim_names ns (filter (\<lambda>x. fst x \<noteq> n) by_name) in (f # fs, left))"

definition virtual_path :: "string \<Rightarrow> string \<Rightarrow> string" where
  "virtual_path dir_path group_name = dir_path @ ''/'' @ group_name"

fun place_groups ::
  "string \<Rightarrow> groups \<Rightarrow> (string \<times> grouped_file) list \<Rightarrow> modules \<times> string list \<Rightarrow> (string \<times> grouped_file) list \<times> modules \<times> string list" where
  "place_groups dir_path [] by_name st = (by_name, st)"
| "place_groups dir_path ((group_name, names) # groups) by_name (final, virtual) =
     (let (matching, left) = claim_names names by_name in
      if matching = [] then place_groups dir_path groups left (final, virtual)
      else let path = virtual_path dir_path group_name in
        place_groups dir_path groups left (entry path matching (\<lambda>_. matching) final, List.insert path virtual))"

definition split_module :: "group_env \<Rightarrow> string \<times> grouped_file list \<Rightarrow> modules \<times> string list \<Rightarrow> modules \<times> string list" where
  "split_module env = (\<lambda>(dir_path, fs) (final, virtual).
     (let whole = (entry dir_path fs (\<lambda>_. fs) final, virtual) in
      if u32_len fs > ge_module_max env then
        (case maybe_split_module env dir_path (map (\<lambda>f. (base_name (gf_relative_path f), gf_symbols f)) fs) of
           None \<Rightarrow> whole
         | Some groups \<Rightarrow>
             (let (left, final, virtual) = place_groups dir_path groups (index_by_name fs) (final, virtual)
              in (if left = [] then final else entry dir_path [] (\<lambda>gs. gs @ map snd (ge_walk_names env left)) final, virtual)))
      else whole))"

section \<open>The stage\<close>

definition rolled_up :: "group_env \<Rightarrow> string list \<Rightarrow> modules" where
  "rolled_up env paths = fst (rollup (ge_module_min env) False (ge_walk_modules env) 0 (fst (parse_files env paths ([], [])), []))"

definition chunk_and_group :: "group_env \<Rightarrow> string list \<Rightarrow> modules \<times> string list \<times> (string \<times> string) list" where
  "chunk_and_group env paths =
     (let failed = snd (parse_files env paths ([], []));
          split = fold (split_module env) (ge_walk_modules env 0 (rolled_up env paths)) ([], []);
          (final, virtual) = rollup (ge_module_min env) True (ge_walk_modules env) 0 split
      in (final, virtual, failed))"

section \<open>No file is lost by rolling up\<close>

definition all_files :: "modules \<Rightarrow> grouped_file multiset" where
  "all_files m = mset (concat (map snd m))"

lemma all_files_simps [simp]: "all_files [] = {#}" "all_files (x # m) = mset (snd x) + all_files m"
  by (simp_all add: all_files_def)

lemma all_files_extend: "all_files (entry k [] (\<lambda>fs. fs @ xs) m) = all_files m + mset xs"
  by (induction m) auto

lemma all_files_fresh: "k \<notin> fst ` set m \<Longrightarrow> all_files (entry k v (\<lambda>_. v) m) = all_files m + mset v"
  by (induction m) auto

lemma filter_absent: "k \<notin> fst ` set m \<Longrightarrow> filter (\<lambda>x. fst x \<noteq> k) m = m"
  by (induction m) auto

lemma all_files_remove:
  "distinct (map fst m) \<Longrightarrow> map_of m k = Some fs \<Longrightarrow> all_files (filter (\<lambda>x. fst x \<noteq> k) m) + mset fs = all_files m"
proof (induction m)
  case (Cons x m)
  show ?case
  proof (cases "fst x = k")
    case True
    with Cons.prems show ?thesis by (cases x) (simp add: filter_absent)
  next
    case False
    with Cons show ?thesis by (cases x) (simp add: add.assoc)
  qed
qed simp

lemma distinct_keys_remove: "distinct (map fst m) \<Longrightarrow> distinct (map fst (filter P m))"
  by (induction m) auto

lemma round_conserves:
  "rollup_round paths (m, virtual, changed) = (m', virtual', changed') \<Longrightarrow> distinct (map fst m) \<Longrightarrow>
   all_files m' = all_files m \<and> distinct (map fst m')"
proof (induction paths arbitrary: m virtual changed)
  case (Cons path paths)
  show ?case
  proof (cases "map_of m path")
    case None
    with Cons.IH [of m virtual changed] Cons.prems show ?thesis by simp
  next
    case (Some orphans)
    let ?left = "filter (\<lambda>x. fst x \<noteq> path) m"
    have "distinct (map fst (entry (parent_dir path) [] (\<lambda>fs. fs @ orphans) ?left))"
      by (intro distinct_entry distinct_keys_remove Cons.prems(2))
    moreover have "all_files (entry (parent_dir path) [] (\<lambda>fs. fs @ orphans) ?left) = all_files m"
      using all_files_remove [OF Cons.prems(2) Some] by (simp add: all_files_extend)
    ultimately show ?thesis using Cons.IH Cons.prems(1) Some by simp
  qed
qed simp

lemma round_changed: "rollup_round paths (m, virtual, True) = (m', virtual', changed') \<Longrightarrow> changed'"
  by (induction paths arbitrary: m virtual) (auto split: option.splits)

lemma round_unchanged:
  "rollup_round paths (m, virtual, False) = (m', virtual', False) \<Longrightarrow>
   m' = m \<and> virtual' = virtual \<and> (\<forall>path \<in> set paths. map_of m path = None)"
  by (induction paths) (auto dest: round_changed split: option.splits)

lemma rollup_result:
  "rollup module_min only_virtual walk k (m, virtual) = (m', virtual') \<Longrightarrow> distinct (map fst m) \<Longrightarrow> (\<And>k xs. set (walk k xs) = set xs) \<Longrightarrow>
   all_files m' = all_files m \<and> distinct (map fst m')
   \<and> (\<forall>(path, fs) \<in> set m'. path \<noteq> ''.'' \<and> (only_virtual \<longrightarrow> path \<in> set virtual') \<longrightarrow> module_min \<le> length fs)"
proof (induction module_min only_virtual walk k "(m, virtual)" arbitrary: m virtual m' virtual' rule: rollup.induct)
  case (1 module_min only_virtual walk k m virtual m' virtual')
  let ?paths = "small_modules module_min (\<lambda>p. only_virtual \<longrightarrow> p \<in> set virtual) (walk k m)"
  obtain m1 virtual1 changed where first: "rollup_round ?paths (m, virtual, False) = (m1, virtual1, changed)" by (metis prod_cases3)
  note one = round_conserves [OF first 1(3)]
  show ?case
  proof (cases changed)
    case True
    with 1(2) first have "rollup module_min only_virtual walk (k + 1) (m1, virtual1) = (m', virtual')" by (simp add: rollup.simps [of _ _ _ k])
    from 1(1) [OF first [symmetric] refl True this] one 1(4) show ?thesis by auto
  next
    case False
    with 1(2) first have m': "m' = m1" "virtual' = virtual1" by (simp_all add: rollup.simps [of _ _ _ k])
    have same: "m1 = m" "virtual1 = virtual" "\<forall>path \<in> set ?paths. map_of m path = None"
      using first False round_unchanged [of ?paths m virtual m1 virtual1] by simp_all
    have "module_min \<le> length fs" if "(path, fs) \<in> set m" "path \<noteq> ''.''" "only_virtual \<longrightarrow> path \<in> set virtual" for path fs
    proof (rule ccontr)
      assume "\<not> module_min \<le> length fs"
      with that 1(4) have "path \<in> set ?paths" by (force simp: small_modules_def)
      with same(3) have "map_of m path = None" by blast
      with that(1) show False by (metis map_of_eq_None_iff image_eqI fst_conv)
    qed
    with m' same one show ?thesis by auto
  qed
qed

lemma parse_files_result:
  "parse_files env paths (dirs, failed) = (dirs', failed') \<Longrightarrow> distinct (map fst dirs) \<Longrightarrow>
   distinct (map fst dirs') \<and>
   image_mset gf_relative_path (all_files dirs') + mset (map fst failed') =
     image_mset gf_relative_path (all_files dirs) + mset (map fst failed) + mset paths"
proof (induction paths arbitrary: dirs failed)
  case (Cons path paths)
  note IH = Cons.IH
  show ?case
  proof (cases "ge_read env path")
    case (Inl e)
    with Cons.prems IH [of dirs "failed @ [(path, e)]"] show ?thesis by simp
  next
    case (Inr content)
    let ?source = "join_with [CHR 0x0A] (take (ge_max_lines env) (text_lines content))"
    show ?thesis
    proof (cases "ge_extract env path ?source")
      case (Inl e)
      with Inr Cons.prems IH [of dirs "failed @ [(path, e)]"] show ?thesis by (simp add: Let_def)
    next
      case (Inr symbols)
      let ?f = "\<lparr>gf_relative_path = path, gf_symbols = symbols\<rparr>"
      let ?dirs = "entry (parent_dir path) [] (\<lambda>fs. fs @ [?f]) dirs"
      have "parse_files env paths (?dirs, failed) = (dirs', failed')" using Cons.prems(1) \<open>ge_read env path = Inr content\<close> Inr by (simp add: Let_def)
      from IH [OF this distinct_entry [OF Cons.prems(2)]] show ?thesis by (simp add: all_files_extend)
    qed
  qed
qed simp

section \<open>Splitting\<close>

text \<open>Where the files of a directory go: the virtual modules a split creates.\<close>

definition split_groups :: "group_env \<Rightarrow> string \<times> grouped_file list \<Rightarrow> groups option" where
  "split_groups env = (\<lambda>(dir_path, fs).
     if u32_len fs > ge_module_max env
     then maybe_split_module env dir_path (map (\<lambda>f. (base_name (gf_relative_path f), gf_symbols f)) fs) else None)"

definition virtual_paths_of :: "group_env \<Rightarrow> string \<times> grouped_file list \<Rightarrow> string list" where
  "virtual_paths_of env x = (case split_groups env x of None \<Rightarrow> [] | Some groups \<Rightarrow> map (\<lambda>(g, _). virtual_path (fst x) g) groups)"

text \<open>A split is clean when it meets no name twice: the files of a split directory have different base names, and no virtual module has the
  path of another module.\<close>

definition splits_cleanly :: "group_env \<Rightarrow> modules \<Rightarrow> bool" where
  "splits_cleanly env m \<longleftrightarrow>
     distinct (concat (map (\<lambda>x. fst x # virtual_paths_of env x) m)) \<and>
     list_all (\<lambda>x. split_groups env x = None \<or> distinct (map (\<lambda>f. base_name (gf_relative_path f)) (snd x))) m"

lemma claim_names_result:
  "claim_names ns by_name = (fs, left) \<Longrightarrow> distinct (map fst by_name) \<Longrightarrow>
   mset fs + mset (map snd left) = mset (map snd by_name) \<and> distinct (map fst left)"
proof (induction ns arbitrary: by_name fs)
  case (Cons n ns)
  show ?case
  proof (cases "map_of by_name n")
    case None
    with Cons show ?thesis by simp
  next
    case (Some f)
    let ?rest = "filter (\<lambda>x. fst x \<noteq> n) by_name"
    obtain gs where gs: "claim_names ns ?rest = (gs, left)" "fs = f # gs"
      using Cons.prems(1) Some by (auto split: prod.splits)
    have "mset (map snd by_name) = add_mset f (mset (map snd ?rest))"
      using Cons.prems(2) Some
    proof (induction by_name)
      case (Cons x by_name)
      then show ?case by (cases x; cases "fst x = n") (auto simp: filter_absent)
    qed simp
    with Cons.IH [OF gs(1) distinct_keys_remove [OF Cons.prems(2)]] gs(2) show ?thesis by simp
  qed
qed simp

lemma place_groups_result:
  "place_groups dir groups by_name (final, virtual) = (left, final', virtual') \<Longrightarrow> distinct (map fst by_name) \<Longrightarrow>
   distinct (map fst final) \<Longrightarrow> distinct (map (\<lambda>(g, _). virtual_path dir g) groups) \<Longrightarrow>
   set (map (\<lambda>(g, _). virtual_path dir g) groups) \<inter> fst ` set final = {} \<Longrightarrow>
   all_files final' + mset (map snd left) = all_files final + mset (map snd by_name) \<and> distinct (map fst final')
   \<and> fst ` set final' \<subseteq> fst ` set final \<union> set (map (\<lambda>(g, _). virtual_path dir g) groups)"
proof (induction dir groups by_name "(final, virtual)" arbitrary: final virtual rule: place_groups.induct)
  case (2 dir group_name names groups by_name final virtual)
  obtain matching rest where claimed: "claim_names names by_name = (matching, rest)" by (metis prod.exhaust)
  note parts = claim_names_result [OF claimed 2(4)]
  let ?p = "virtual_path dir group_name"
  show ?case
  proof (cases "matching = []")
    case True
    with 2(3) claimed have "place_groups dir groups rest (final, virtual) = (left, final', virtual')" by simp
    from 2(1) [OF claimed [symmetric] refl True this] parts 2(5-7) True show ?thesis by auto
  next
    case False
    let ?final = "entry ?p matching (\<lambda>_. matching) final"
    have fresh: "?p \<notin> fst ` set final" using 2(7) by auto
    have run: "place_groups dir groups rest (?final, List.insert ?p virtual) = (left, final', virtual')"
      using 2(3) claimed False by (simp add: Let_def)
    have keys: "fst ` set ?final = insert ?p (fst ` set final)" by (rule keys_entry)
    from 2(2) [OF claimed [symmetric] refl False refl run] parts distinct_entry [OF 2(5)] 2(6,7)
    show ?thesis unfolding keys all_files_fresh [OF fresh] by (auto simp: ac_simps)
  qed
qed simp

lemma index_by_name_result:
  "distinct (map (\<lambda>f. base_name (gf_relative_path f)) fs) \<Longrightarrow>
   mset (map snd (index_by_name fs)) = mset fs \<and> distinct (map fst (index_by_name fs))
   \<and> fst ` set (index_by_name fs) = (\<lambda>f. base_name (gf_relative_path f)) ` set fs"
proof (induction fs rule: rev_induct)
  case (snoc f fs)
  let ?n = "base_name (gf_relative_path f)"
  have fresh: "mset (map snd (entry k v (\<lambda>_. v) xs)) = mset (map snd xs) + {#v#}" if "k \<notin> fst ` set xs" for k and v :: grouped_file and xs
    using that by (induction xs) auto
  have "mset (map snd (entry ?n f (\<lambda>_. f) (index_by_name fs))) = mset (map snd (index_by_name fs)) + {#f#}"
    by (rule fresh) (use snoc in auto)
  moreover have "index_by_name (fs @ [f]) = entry ?n f (\<lambda>_. f) (index_by_name fs)" by (simp add: index_by_name_def)
  ultimately show ?case using snoc by (simp add: keys_entry distinct_entry)
qed (simp add: index_by_name_def)

lemma split_module_result:
  assumes "split_module env x (final, virtual) = (final', virtual')" and "distinct (map fst final)"
    and "distinct (fst x # virtual_paths_of env x)" and "set (fst x # virtual_paths_of env x) \<inter> fst ` set final = {}"
    and "split_groups env x = None \<or> distinct (map (\<lambda>f. base_name (gf_relative_path f)) (snd x))"
    and "\<And>xs. mset (ge_walk_names env xs) = mset xs"
  shows "all_files final' = all_files final + mset (snd x) \<and> distinct (map fst final')
    \<and> fst ` set final' \<subseteq> fst ` set final \<union> set (fst x # virtual_paths_of env x)"
proof (cases "split_groups env x")
  case None
  obtain dir fs where x: "x = (dir, fs)" by (metis prod.exhaust)
  have "dir \<notin> fst ` set final" using assms(4) x by simp
  moreover have "split_module env x (final, virtual) = (entry dir fs (\<lambda>_. fs) final, virtual)"
    using None x by (auto simp: split_module_def split_groups_def Let_def)
  ultimately show ?thesis using assms(1,2) x keys_entry [of dir fs "\<lambda>_. fs" final] by (auto simp: all_files_fresh distinct_entry)
next
  case (Some groups)
  obtain dir fs where x: "x = (dir, fs)" by (metis prod.exhaust)
  obtain left final1 virtual1 where placed: "place_groups dir groups (index_by_name fs) (final, virtual) = (left, final1, virtual1)"
    by (metis prod_cases3)
  let ?vps = "map (\<lambda>(g, _). virtual_path dir g) groups"
  have vps: "virtual_paths_of env x = ?vps" using Some x by (simp add: virtual_paths_of_def)
  have names: "mset (map snd (index_by_name fs)) = mset fs" "distinct (map fst (index_by_name fs))"
    using index_by_name_result assms(5) Some x by simp_all
  have one: "all_files final1 + mset (map snd left) = all_files final + mset fs" "distinct (map fst final1)"
      "fst ` set final1 \<subseteq> fst ` set final \<union> set ?vps"
    using place_groups_result [OF placed names(2) assms(2)] assms(3,4) names(1) unfolding vps by auto
  have "mset (map snd (ge_walk_names env left)) = mset (map snd left)" using assms(6) by (metis mset_map)
  moreover have "final' = (if left = [] then final1 else entry dir [] (\<lambda>gs. gs @ map snd (ge_walk_names env left)) final1)"
    using assms(1) Some x placed by (auto simp: split_module_def split_groups_def Let_def split: if_splits)
  ultimately have files: "all_files final' = all_files final1 + mset (map snd left)"
      and keys: "fst ` set final' \<subseteq> insert dir (fst ` set final1)" and dist: "distinct (map fst final')"
    using one(2) keys_entry [of dir "[]" "\<lambda>gs. gs @ map snd (ge_walk_names env left)" final1]
    by (simp_all add: all_files_extend distinct_entry subset_insertI)
  have "fst x = dir" "snd x = fs" using x by simp_all
  then have "fst ` set final' \<subseteq> fst ` set final \<union> set (fst x # virtual_paths_of env x)"
    unfolding vps using keys one(3) by simp blast
  with files one(1) dist \<open>snd x = fs\<close> show ?thesis by simp
qed

lemma split_all_result:
  "fold (split_module env) m (final, virtual) = (final', virtual') \<Longrightarrow> distinct (map fst final) \<Longrightarrow>
   splits_cleanly env m \<Longrightarrow> set (concat (map (\<lambda>x. fst x # virtual_paths_of env x) m)) \<inter> fst ` set final = {} \<Longrightarrow>
   (\<And>xs. mset (ge_walk_names env xs) = mset xs) \<Longrightarrow>
   all_files final' = all_files final + all_files m \<and> distinct (map fst final')"
proof (induction m arbitrary: final virtual)
  case (Cons x m)
  obtain final1 virtual1 where step: "split_module env x (final, virtual) = (final1, virtual1)" by (metis prod.exhaust)
  have one: "all_files final1 = all_files final + mset (snd x)" "distinct (map fst final1)"
      "fst ` set final1 \<subseteq> fst ` set final \<union> set (fst x # virtual_paths_of env x)"
  proof -
    have "distinct (fst x # virtual_paths_of env x)" using Cons.prems(3) by (auto simp: splits_cleanly_def)
    moreover have "set (fst x # virtual_paths_of env x) \<inter> fst ` set final = {}" using Cons.prems(4) by auto
    moreover have "split_groups env x = None \<or> distinct (map (\<lambda>f. base_name (gf_relative_path f)) (snd x))"
      using Cons.prems(3) by (simp add: splits_cleanly_def)
    ultimately show "all_files final1 = all_files final + mset (snd x)" "distinct (map fst final1)"
      "fst ` set final1 \<subseteq> fst ` set final \<union> set (fst x # virtual_paths_of env x)"
      using split_module_result [OF step Cons.prems(2) _ _ _ Cons.prems(5)] by blast+
  qed
  have later: "splits_cleanly env m" using Cons.prems(3) by (auto simp: splits_cleanly_def)
  have apart: "set (concat (map (\<lambda>x. fst x # virtual_paths_of env x) m)) \<inter> fst ` set final1 = {}"
  proof -
    have "distinct ((fst x # virtual_paths_of env x) @ concat (map (\<lambda>x. fst x # virtual_paths_of env x) m))"
      using Cons.prems(3) by (simp add: splits_cleanly_def)
    then have "set (fst x # virtual_paths_of env x) \<inter> set (concat (map (\<lambda>x. fst x # virtual_paths_of env x) m)) = {}"
      unfolding distinct_append by blast
    moreover have "set (concat (map (\<lambda>x. fst x # virtual_paths_of env x) m)) \<inter> fst ` set final = {}" using Cons.prems(4) by auto
    ultimately show ?thesis using one(3) by blast
  qed
  have "fold (split_module env) m (final1, virtual1) = (final', virtual')" using Cons.prems(1) step by simp
  from Cons.IH [OF this one(2) later apart Cons.prems(5)] one(1) show ?case by (simp add: add.assoc)
qed simp

section \<open>The stage keeps every file, when splits are clean\<close>

lemma all_files_order: "mset a = mset b \<Longrightarrow> all_files a = all_files b"
proof -
  have "all_files m = (\<Sum>x \<in># mset m. mset (snd x))" for m by (induction m) simp_all
  then show "mset a = mset b \<Longrightarrow> ?thesis" by simp
qed

definition fair_order :: "group_env \<Rightarrow> bool" where
  "fair_order env \<longleftrightarrow> (\<forall>k xs. mset (ge_walk_modules env k xs) = mset xs) \<and> (\<forall>xs. mset (ge_walk_names env xs) = mset xs)"

text \<open>C28. Every file of the repository is either reported as failed or in exactly one module, with its multiplicity, when the splits meet no
  name twice; and no virtual module is left with fewer files than the minimum.\<close>

theorem chunk_and_group_keeps_files:
  assumes "chunk_and_group env paths = (final, virtual, failed)" and "fair_order env"
    and "splits_cleanly env (ge_walk_modules env 0 (rolled_up env paths))"
  shows "image_mset gf_relative_path (all_files final) + mset (map fst failed) = mset paths
    \<and> distinct (map fst final) \<and> (\<forall>(path, fs) \<in> set final. path \<noteq> ''.'' \<and> path \<in> set virtual \<longrightarrow> ge_module_min env \<le> length fs)"
proof -
  obtain dirs where parsed: "parse_files env paths ([], []) = (dirs, failed)"
    using assms(1) by (auto simp: chunk_and_group_def Let_def split: prod.splits) (metis prod.exhaust_sel)
  obtain rolled rest where roll: "rollup (ge_module_min env) False (ge_walk_modules env) 0 (dirs, []) = (rolled, rest)" by (metis prod.exhaust)
  then have rolled: "rolled_up env paths = rolled" by (simp add: rolled_up_def parsed)
  obtain split vsplit where split: "fold (split_module env) (ge_walk_modules env 0 rolled) ([], []) = (split, vsplit)" by (metis prod.exhaust)
  have last: "rollup (ge_module_min env) True (ge_walk_modules env) 0 (split, vsplit) = (final, virtual)"
    using assms(1) by (simp add: chunk_and_group_def Let_def rolled split parsed split: prod.splits)
  have walk: "set (ge_walk_modules env k xs) = set xs" "mset (ge_walk_modules env k xs) = mset xs" for k xs
    using assms(2) unfolding fair_order_def by (metis mset_eq_setD, blast)
  have p: "distinct (map fst dirs)" "image_mset gf_relative_path (all_files dirs) + mset (map fst failed) = mset paths"
    using parse_files_result [OF parsed] by simp_all
  have r: "all_files rolled = all_files dirs" using rollup_result [OF roll p(1) walk(1)] by blast
  have s: "all_files split = all_files (ge_walk_modules env 0 rolled)" "distinct (map fst split)"
    using split_all_result [OF split] assms(2,3) by (simp_all add: rolled fair_order_def)
  have "all_files (ge_walk_modules env 0 rolled) = all_files rolled"
    by (rule all_files_order [OF walk(2)])
  with r s p(2) rollup_result [OF last s(2) walk(1)] show ?thesis by auto
qed

section \<open>How files are lost\<close>

definition symbol_free_env :: "nat \<Rightarrow> nat \<Rightarrow> group_env" where
  "symbol_free_env module_min module_max =
     \<lparr>ge_module_min = module_min, ge_module_max = module_max, ge_max_lines = 1000, ge_read = (\<lambda>_. Inr []), ge_extract = (\<lambda>_ _. Inr []),
      ge_llm = (\<lambda>_ _. Inl ''no model''), ge_walk_modules = (\<lambda>_ m. m), ge_walk_names = id, ge_walk_prefixes = id\<rparr>"

text \<open>Files are lost without an error when a directory is split: two files of one name that were rolled up into the same directory
  become one; and a virtual module that gets the path of a directory replaces it, or is replaced by it.\<close>

theorem module_split_loses_files:
  "map (\<lambda>(p, fs). (p, map gf_relative_path fs)) (fst (chunk_and_group (symbol_free_env 2 2) [''a/mod.rs'', ''b/mod.rs'', ''lib.rs''])) =
     [(''./mod'', [''b/mod.rs'', ''lib.rs''])]
   \<and> map (\<lambda>(p, fs). (p, map gf_relative_path fs))
       (fst (chunk_and_group (symbol_free_env 2 2) [''src/auth/a.rs'', ''src/auth/b.rs'', ''src/auth_x.rs'', ''src/auth_y.rs'', ''src/auth_z.rs''])) =
     [(''src/auth'', [''src/auth_x.rs'', ''src/auth_y.rs'', ''src/auth_z.rs''])]
   \<and> snd (snd (chunk_and_group (symbol_free_env 2 2) [''a/mod.rs'', ''b/mod.rs'', ''lib.rs''])) = []"
  by code_simp

text \<open>Which modules there are depends on the iteration order of the hash map: a directory that is rolled up before its small subdirectories
  comes back to life with their files, one that is rolled up after them does not.\<close>

lemma rollup_depends_on_hash_order:
  "let f = (\<lambda>n. \<lparr>gf_relative_path = n, gf_symbols = []\<rparr>);
       m = [(''A'', [f ''A/1'', f ''A/2'']), (''A/B'', [f ''A/B/1'', f ''A/B/2'']), (''A/C'', [f ''A/C/1'', f ''A/C/2''])]
   in map (\<lambda>(p, fs). (p, length fs)) (fst (rollup 3 False (\<lambda>_ m. m) 0 (m, []))) = [(''.'', 2), (''A'', 4)]
    \<and> map (\<lambda>(p, fs). (p, length fs)) (fst (rollup 3 False (\<lambda>_. rev) 0 (m, []))) = [(''.'', 6)]"
  by code_simp

theorem chunk_and_group_keeps_files_witness:
  "image_mset gf_relative_path (all_files (fst (chunk_and_group (symbol_free_env 2 2) [''api_a.rs'', ''api_b.rs'', ''db_a.rs'', ''db_b.rs'']))) =
     {#''api_a.rs'', ''api_b.rs'', ''db_a.rs'', ''db_b.rs''#}
   \<and> map fst (fst (chunk_and_group (symbol_free_env 2 2) [''api_a.rs'', ''api_b.rs'', ''db_a.rs'', ''db_b.rs''])) = [''./api'', ''./db'']"
proof -
  let ?env = "symbol_free_env 2 2" and ?paths = "[''api_a.rs'', ''api_b.rs'', ''db_a.rs'', ''db_b.rs'']"
  have fair: "fair_order ?env" by (simp add: fair_order_def symbol_free_env_def)
  have clean: "splits_cleanly ?env (ge_walk_modules ?env 0 (rolled_up ?env ?paths))" by code_simp
  have run: "map fst (fst (chunk_and_group ?env ?paths)) = [''./api'', ''./db'']" "snd (snd (chunk_and_group ?env ?paths)) = []" by code_simp+
  obtain final virtual failed where stage: "chunk_and_group ?env ?paths = (final, virtual, failed)" by (metis prod_cases3)
  from chunk_and_group_keeps_files [OF stage fair clean] run show ?thesis unfolding stage by simp
qed

end
