(* ===== verification/Import_Resolution.thy ===== *)
theory Import_Resolution
  imports Edge_Stage Module_Grouping "HOL-Library.List_Lexorder"
begin

text \<open>
  Stage 5 of an ingestion: import specifiers are resolved to modules (\<open>stage5_import_edges\<close> and \<open>resolve_import_target\<close> of
  \<open>ingestion/stages.rs\<close>, \<open>ingestion/import_aliases.rs\<close>).

  Reading a file, listing a directory and parsing JSON and TOML are functions of \<open>repo_env\<close>. The hash maps that are iterated over are
  association lists in the order of iteration.
\<close>

section \<open>Aliases\<close>

record import_aliases =
  ia_ts_paths :: "(string \<times> string) list"
  ia_go_module :: "string option"
  ia_cargo_crates :: "string \<rightharpoonup> string"

definition contains :: "string \<Rightarrow> string \<Rightarrow> bool" where
  "contains p s \<longleftrightarrow> from_first p s \<noteq> None"

fun split_colons :: "string \<Rightarrow> string list" where
  "split_colons [] = [[]]"
| "split_colons [c] = [[c]]"
| "split_colons (a # b # cs) =
     (if a = CHR '':'' \<and> b = CHR '':'' then [] # split_colons cs
      else case split_colons (b # cs) of [] \<Rightarrow> [[a]] | p # ps \<Rightarrow> (a # p) # ps)"

definition split_once_at_pattern :: "string \<Rightarrow> string \<Rightarrow> (string \<times> string) option" where
  "split_once_at_pattern p s = map_option (\<lambda>t. (before_first p s, drop (length p) t)) (from_first p s)"

fun longest_alias :: "string \<Rightarrow> (string \<times> string) list \<Rightarrow> (string \<times> string) option \<Rightarrow> (string \<times> string) option" where
  "longest_alias raw [] best = best"
| "longest_alias raw ((prefix, repl) # paths) best =
     (if starts_with prefix raw \<and> (case best of None \<Rightarrow> True | Some (bp, _) \<Rightarrow> length bp < length prefix)
      then longest_alias raw paths (Some (prefix, repl)) else longest_alias raw paths best)"

definition normalize_go :: "string \<Rightarrow> string option \<Rightarrow> string option" where
  "normalize_go raw go_module =
     (case go_module of
        None \<Rightarrow> None
      | Some go_mod \<Rightarrow>
          if go_mod = [] then None else if raw = go_mod then Some [] else strip_prefix (go_mod @ ''/'') raw)"

definition normalize_cargo :: "string \<Rightarrow> (string \<rightharpoonup> string) \<Rightarrow> string option" where
  "normalize_cargo raw crates =
     (if contains ''::'' raw \<and> \<not> starts_with ''crate::'' raw \<and> \<not> starts_with ''self::'' raw \<and> \<not> starts_with ''super::'' raw
         \<and> \<not> contains ''::super::'' raw
      then
        (case split_once_at_pattern ''::'' raw of
           None \<Rightarrow> None
         | Some (head, after) \<Rightarrow>
             map_option (\<lambda>src_dir. src_dir @ ''/'' @ join_with ''/'' (split_colons after))
               (case crates head of
                  Some d \<Rightarrow> Some d
                | None \<Rightarrow>
                    (case crates (replace_char CHR ''-'' ''_'' head) of
                       Some d \<Rightarrow> Some d
                     | None \<Rightarrow> crates (replace_char CHR ''_'' ''-'' head))))
      else None)"

definition normalize_alias :: "string \<Rightarrow> import_aliases \<Rightarrow> string option" where
  "normalize_alias raw aliases =
     (case longest_alias raw (ia_ts_paths aliases) None of
        Some (prefix, repl) \<Rightarrow> Some (repl @ drop (length prefix) raw)
      | None \<Rightarrow>
          (case normalize_go raw (ia_go_module aliases) of
             Some p \<Rightarrow> Some p
           | None \<Rightarrow> normalize_cargo raw (ia_cargo_crates aliases)))"

section \<open>Configuration files\<close>

text \<open>Bytes that end no multi-byte character are matched, so the scan over characters is one over bytes.\<close>

fun strip_comments :: "bool \<Rightarrow> bool \<Rightarrow> bool \<Rightarrow> string \<Rightarrow> string" where
  "strip_comments in_string escape_next in_comment [] = []"
| "strip_comments in_string escape_next in_comment (ch # cs) =
     (if in_comment then
        (if ch = CHR 0x0A then CHR 0x0A # strip_comments False False False cs else strip_comments False False True cs)
      else if escape_next then ch # strip_comments in_string False False cs
      else if in_string then
        ch # strip_comments (ch = CHR 0x5C \<or> ch \<noteq> CHR 0x22) (ch = CHR 0x5C) False cs
      else if ch = CHR 0x22 then ch # strip_comments True False False cs
      else if ch = CHR ''/'' \<and> (case cs of d # _ \<Rightarrow> d = CHR ''/'' | [] \<Rightarrow> False) then strip_comments False False True cs
      else ch # strip_comments False False False cs)"

definition json_blank :: "char \<Rightarrow> bool" where
  "json_blank c \<longleftrightarrow> c \<in> {CHR 0x20, CHR 0x09, CHR 0x0A, CHR 0x0D}"

fun remove_trailing_commas :: "string \<Rightarrow> string" where
  "remove_trailing_commas [] = []"
| "remove_trailing_commas (c # cs) =
     (if c = CHR '','' \<and> (case dropWhile json_blank cs of d # _ \<Rightarrow> d = CHR ''}'' \<or> d = CHR '']'' | [] \<Rightarrow> False)
      then remove_trailing_commas cs else c # remove_trailing_commas cs)"

definition strip_json_comments :: "string \<Rightarrow> string" where
  "strip_json_comments src = remove_trailing_commas (strip_comments False False False src)"

record ts_options =
  ts_base_url :: "string option"
  ts_paths :: "(string \<times> string option) list option"

record repo_env =
  re_read :: "string \<Rightarrow> string option"
  re_json_options :: "string \<Rightarrow> ts_options option"
  re_toml_members :: "string \<Rightarrow> string option list option"
  re_toml_package :: "string \<Rightarrow> string option"
  re_subdirs :: "string \<Rightarrow> string list"

fun trim_start_dots :: "string \<Rightarrow> string" where
  "trim_start_dots s = (case s of a # b # cs \<Rightarrow> if a = CHR ''.'' \<and> b = CHR ''/'' then trim_start_dots cs else s | _ \<Rightarrow> s)"

declare trim_start_dots.simps [simp del]

definition ts_replacement :: "string \<Rightarrow> string \<Rightarrow> string" where
  "ts_replacement base_url target =
     (let bare = trim_end_matches CHR ''*'' target in
      if starts_with ''../'' bare then bare
      else if base_url = [] \<or> base_url = ''.'' then trim_start_dots bare
      else base_url @ ''/'' @ trim_start_dots bare)"

definition ts_aliases :: "ts_options \<Rightarrow> (string \<times> string) list" where
  "ts_aliases opts =
     (let base_url = trim_end_matches CHR ''/'' (trim_start_dots (case ts_base_url opts of Some b \<Rightarrow> b | None \<Rightarrow> ''.''))
      in case ts_paths opts of
           None \<Rightarrow> []
         | Some paths \<Rightarrow>
             List.map_filter (\<lambda>(pattern, target). map_option (\<lambda>t. (trim_end_matches CHR ''*'' pattern, ts_replacement base_url t)) target) paths)"

definition discover_tsconfig :: "repo_env \<Rightarrow> (string \<times> string) list" where
  "discover_tsconfig env =
     concat (map (\<lambda>f. case re_read env f of
         None \<Rightarrow> []
       | Some raw \<Rightarrow> (case re_json_options env (strip_json_comments raw) of None \<Rightarrow> [] | Some opts \<Rightarrow> ts_aliases opts))
       [''tsconfig.json'', ''jsconfig.json''])"

fun go_module_line :: "string list \<Rightarrow> string option" where
  "go_module_line [] = None"
| "go_module_line (l # ls) =
     (case strip_prefix ''module '' (trim l) of
        Some after \<Rightarrow> (case split_whitespace after of [] \<Rightarrow> None | m # _ \<Rightarrow> Some m)
      | None \<Rightarrow> go_module_line ls)"

definition discover_go_mod :: "repo_env \<Rightarrow> string option" where
  "discover_go_mod env = Option.bind (re_read env ''go.mod'') (\<lambda>raw. go_module_line (text_lines raw))"

definition trim_end_glob :: "string \<Rightarrow> string" where
  "trim_end_glob s =
     (let n = length (takeWhile (\<lambda>i. ends_with (concat (replicate i ''/*'')) s) [1..<length s + 1]) in take (length s - 2 * n) s)"

definition expand_member :: "repo_env \<Rightarrow> string option \<Rightarrow> string list" where
  "expand_member env item =
     (case item of
        None \<Rightarrow> []
      | Some pattern \<Rightarrow>
          if ends_with ''/*'' pattern then map (\<lambda>d. trim_end_glob pattern @ ''/'' @ d) (re_subdirs env (trim_end_glob pattern))
          else [pattern])"

definition discover_cargo_workspace :: "repo_env \<Rightarrow> string \<rightharpoonup> string" where
  "discover_cargo_workspace env =
     (case Option.bind (re_read env ''Cargo.toml'') (re_toml_members env) of
        None \<Rightarrow> Map.empty
      | Some members \<Rightarrow>
          fold (\<lambda>m crates. case Option.bind (re_read env (m @ ''/Cargo.toml'')) (re_toml_package env) of
              None \<Rightarrow> crates | Some crate \<Rightarrow> crates(crate \<mapsto> m @ ''/src''))
            (concat (map (expand_member env) members)) Map.empty)"

definition discover :: "repo_env \<Rightarrow> import_aliases" where
  "discover env =
     \<lparr>ia_ts_paths = discover_tsconfig env, ia_go_module = discover_go_mod env, ia_cargo_crates = discover_cargo_workspace env\<rparr>"

section \<open>Resolving a specifier\<close>

type_synonym module_files = "(string \<times> string list) list"

record module_indexes =
  mi_known :: "string set"
  mi_file :: "string \<rightharpoonup> string"
  mi_dir :: "string \<rightharpoonup> string list"

definition file_entries :: "module_files \<Rightarrow> (string \<times> string) list" where
  "file_entries mods =
     concat (map (\<lambda>(m, fs). concat (map (\<lambda>f. [(f, m), (parent_dir f @ ''/@'' @ base_name f, m)]) fs)) mods)"

definition dir_entries :: "module_files \<Rightarrow> (string \<times> string) list" where
  "dir_entries mods = concat (map (\<lambda>(m, fs). map (\<lambda>f. (parent_dir f, m)) fs) mods)"

definition build_indexes :: "module_files \<Rightarrow> module_indexes" where
  "build_indexes mods =
     \<lparr>mi_known = set (map fst mods),
      mi_file = fold (\<lambda>(k, m) t. t(k \<mapsto> m)) (file_entries mods) Map.empty,
      mi_dir = (\<lambda>d. map_option (\<lambda>ms. remdups_adj (sort ms))
                 (map_of (fold (\<lambda>(k, m). entry k [] (\<lambda>ms. ms @ [m])) (dir_entries mods) []) d))\<rparr>"

definition first_of :: "string list option \<Rightarrow> string option" where
  "first_of mods = map_option hd mods"

definition or_else :: "'a option \<Rightarrow> 'a option \<Rightarrow> 'a option" where
  "or_else a b = (case a of Some x \<Rightarrow> Some x | None \<Rightarrow> b)"

fun rust_prefixes :: "module_indexes \<Rightarrow> string list list \<Rightarrow> string option" where
  "rust_prefixes ix [] = None"
| "rust_prefixes ix (segs # shorter) =
     (let path = join_with ''/'' segs in
      if path \<in> mi_known ix then Some path
      else or_else (first_of (mi_dir ix path)) (or_else (mi_file ix (path @ ''.rs'')) (rust_prefixes ix shorter)))"

definition resolve_rust_path :: "module_indexes \<Rightarrow> string \<Rightarrow> string option" where
  "resolve_rust_path ix raw =
     (if starts_with ''super::'' raw \<or> contains ''::super::'' raw then None
      else let segs = filter (\<lambda>s. s \<noteq> [] \<and> s \<noteq> ''crate'' \<and> s \<noteq> ''self'') (split_colons raw)
           in rust_prefixes ix (map (\<lambda>k. take k segs) (rev [1..<length segs + 1])))"

definition only_module :: "string list option \<Rightarrow> string option" where
  "only_module mods = (case mods of Some [m] \<Rightarrow> Some m | _ \<Rightarrow> None)"

definition resolve_include :: "module_indexes \<Rightarrow> string \<Rightarrow> string option" where
  "resolve_include ix raw =
     or_else (mi_file ix raw)
       (Option.bind (split_once_at_pattern ''/@'' raw) (\<lambda>(dir, at_name).
          let stem = (case rsplit_once CHR ''.'' at_name of Some (s, _) \<Rightarrow> s | None \<Rightarrow> at_name) in
          or_else (find_map (\<lambda>ext. mi_file ix (dir @ ''/@'' @ stem @ ''.'' @ ext)) [''hpp'', ''h'', ''cpp'', ''c'', ''cc''])
            (only_module (mi_dir ix dir))))"

definition known_or_dir :: "module_indexes \<Rightarrow> string \<Rightarrow> string option" where
  "known_or_dir ix path = (if path \<in> mi_known ix then Some path else first_of (mi_dir ix path))"

definition resolve_import_target :: "module_indexes \<Rightarrow> import_aliases \<Rightarrow> string \<Rightarrow> string option" where
  "resolve_import_target ix aliases raw_target =
     (let raw = (case normalize_alias raw_target aliases of Some p \<Rightarrow> p | None \<Rightarrow> raw_target) in
      if contains ''::'' raw then resolve_rust_path ix raw
      else if contains ''/@'' raw then resolve_include ix raw
      else or_else (known_or_dir ix raw)
        (or_else (Option.bind (rsplit_once CHR ''/'' raw) (\<lambda>(parent, _). known_or_dir ix parent))
          (find_map (\<lambda>prefix. known_or_dir ix (prefix @ raw)) [''src/'', ''libs/'', ''include/''])))"

section \<open>The stage\<close>

definition target_entries :: "module_indexes \<Rightarrow> import_aliases \<Rightarrow> (string \<times> string) list \<Rightarrow> ((string \<times> string) \<times> string) list" where
  "target_entries ix aliases wanted =
     fold (\<lambda>(src, raw) t. case resolve_import_target ix aliases raw of
         None \<Rightarrow> t | Some m \<Rightarrow> if src \<noteq> m then entry (src, raw) m (\<lambda>_. m) t else t) wanted []"

definition unique_imports :: "((string \<times> string) \<times> string) list \<Rightarrow> (string \<times> string) list" where
  "unique_imports entries = remdups_adj (sort (map (\<lambda>((src, _), tgt). (src, tgt)) entries))"

definition imported_sets :: "(string \<times> string) list \<Rightarrow> string \<rightharpoonup> string set" where
  "imported_sets pairs =
     fold (\<lambda>(src, tgt) t. t(src \<mapsto> insert tgt (case t src of None \<Rightarrow> {} | Some s \<Rightarrow> s))) pairs Map.empty"

definition stage5_import_edges ::
  "module_files \<Rightarrow> import_aliases \<Rightarrow> (string \<times> string) list \<Rightarrow> (string \<rightharpoonup> uuid) \<Rightarrow> stage5_output \<times> (string \<times> string) list" where
  "stage5_import_edges mods aliases wanted ids =
     (let entries = target_entries (build_indexes mods) aliases wanted;
          pairs = unique_imports entries
      in (\<lparr>import_target_map = map_of entries, imported_by_module = imported_sets pairs\<rparr>,
          List.map_filter (\<lambda>(src, tgt). case (ids src, ids tgt) of
              (Some i, Some j) \<Rightarrow> Some (uuid_to_string i, uuid_to_string j) | _ \<Rightarrow> None) pairs))"

section \<open>What the indexes hold\<close>

lemma fold_update_Some:
  "fold (\<lambda>(k, m) t. t(k \<mapsto> m)) es t k = Some m \<Longrightarrow> t k = Some m \<or> (k, m) \<in> set es"
proof (induction es rule: rev_induct)
  case (snoc e es)
  then show ?case by (cases e) (auto split: if_splits)
qed simp

lemma or_else_Some: "or_else a b = Some m \<longleftrightarrow> a = Some m \<or> a = None \<and> b = Some m"
  by (cases a) (auto simp: or_else_def)

lemma fold_entry_lists:
  "map_of (fold (\<lambda>(k, m). entry k [] (\<lambda>ms. ms @ [m])) es []) d =
     (if filter (\<lambda>e. fst e = d) es = [] then None else Some (map snd (filter (\<lambda>e. fst e = d) es)))"
  by (induction es rule: rev_induct) (auto simp: map_of_entry split: option.splits if_splits)

lemma dir_index:
  "mi_dir (build_indexes mods) d =
     (let ms = map snd (filter (\<lambda>e. fst e = d) (dir_entries mods)) in if ms = [] then None else Some (remdups_adj (sort ms)))"
  by (simp add: build_indexes_def fold_entry_lists Let_def)

lemma index_file_known: "mi_file (build_indexes mods) k = Some m \<Longrightarrow> m \<in> mi_known (build_indexes mods)"
  by (auto simp: build_indexes_def file_entries_def dest!: fold_update_Some) (force)+

lemma index_dir_known:
  assumes "mi_dir (build_indexes mods) d = Some ms"
  shows "ms \<noteq> []" and "set ms \<subseteq> mi_known (build_indexes mods)"
proof -
  have *: "m \<in> mi_known (build_indexes mods)" if "(k, m) \<in> set (dir_entries mods)" for k m
    using that by (force simp: dir_entries_def build_indexes_def)
  from assms show "ms \<noteq> []" by (auto simp: dir_index Let_def remdups_adj_Nil_iff split: if_splits) (metis filter_empty_conv length_0_conv length_map length_sort)
  from assms * show "set ms \<subseteq> mi_known (build_indexes mods)" by (auto simp: dir_index Let_def split: if_splits)
qed

lemma first_of_known: "first_of (mi_dir (build_indexes mods) d) = Some m \<Longrightarrow> m \<in> mi_known (build_indexes mods)"
  using index_dir_known [of mods d] by (auto simp: first_of_def) (meson hd_in_set subsetD)

lemma rust_prefixes_known: "rust_prefixes (build_indexes mods) ps = Some m \<Longrightarrow> m \<in> mi_known (build_indexes mods)"
  by (induction ps) (auto simp: Let_def or_else_Some dest: first_of_known index_file_known split: if_splits)

lemma known_or_dir_known: "known_or_dir (build_indexes mods) p = Some m \<Longrightarrow> m \<in> mi_known (build_indexes mods)"
  by (auto simp: known_or_dir_def dest: first_of_known split: if_splits)

lemma only_module_known: "only_module (mi_dir (build_indexes mods) d) = Some m \<Longrightarrow> m \<in> mi_known (build_indexes mods)"
  using index_dir_known [of mods d] by (auto simp: only_module_def split: option.splits list.splits)

lemma resolve_include_known:
  assumes "resolve_include (build_indexes mods) raw = Some m"
  shows "m \<in> mi_known (build_indexes mods)"
proof -
  consider "mi_file (build_indexes mods) raw = Some m"
    | dir k where "mi_file (build_indexes mods) k = Some m"
    | dir where "only_module (mi_dir (build_indexes mods) dir) = Some m"
    using assms unfolding resolve_include_def or_else_Some bind_eq_Some_conv Let_def by (auto simp: or_else_Some simp del: find_map.simps dest!: find_map_Some)
  then show ?thesis by cases (auto dest: index_file_known only_module_known)
qed

lemma resolve_target_known: "resolve_import_target (build_indexes mods) aliases raw = Some m \<Longrightarrow> m \<in> fst ` set mods"
proof -
  have keys: "mi_known (build_indexes mods) = fst ` set mods" by (simp add: build_indexes_def)
  assume "resolve_import_target (build_indexes mods) aliases raw = Some m"
  then consider segs where "rust_prefixes (build_indexes mods) segs = Some m" | r where "resolve_include (build_indexes mods) r = Some m"
    | p where "known_or_dir (build_indexes mods) p = Some m"
    unfolding resolve_import_target_def Let_def or_else_Some resolve_rust_path_def
    by (auto simp: bind_eq_Some_conv or_else_Some simp del: find_map.simps dest!: find_map_Some split: if_split_asm)
  then show ?thesis unfolding keys [symmetric] by cases (auto dest: rust_prefixes_known resolve_include_known known_or_dir_known)
qed

section \<open>The result of the stage\<close>

definition import_pair :: "module_indexes \<Rightarrow> import_aliases \<Rightarrow> (string \<times> string) list \<Rightarrow> string \<Rightarrow> string \<Rightarrow> bool" where
  "import_pair ix aliases wanted src tgt \<longleftrightarrow>
     (\<exists>raw. (src, raw) \<in> set wanted \<and> resolve_import_target ix aliases raw = Some tgt \<and> src \<noteq> tgt)"

lemma target_entries_snoc:
  "target_entries ix aliases (wanted @ [(src, raw)]) =
     (case resolve_import_target ix aliases raw of
        None \<Rightarrow> target_entries ix aliases wanted
      | Some m \<Rightarrow> if src \<noteq> m then entry (src, raw) m (\<lambda>_. m) (target_entries ix aliases wanted) else target_entries ix aliases wanted)"
  unfolding target_entries_def by simp

lemma target_entries_map:
  "map_of (target_entries ix aliases wanted) (s, r) =
     (if (s, r) \<in> set wanted then (case resolve_import_target ix aliases r of Some m \<Rightarrow> if s \<noteq> m then Some m else None | None \<Rightarrow> None) else None)"
proof (induction wanted rule: rev_induct)
  case (snoc x wanted)
  obtain s' r' where x: "x = (s', r')" by (metis prod.exhaust)
  from snoc show ?case unfolding x target_entries_snoc by (auto simp: map_of_entry split: option.splits)
qed (simp add: target_entries_def)

lemma target_entries_distinct: "distinct (map fst (target_entries ix aliases wanted))"
proof (induction wanted rule: rev_induct)
  case (snoc x wanted)
  then show ?case by (cases x) (auto simp: target_entries_snoc intro: distinct_entry split: option.splits)
qed (simp add: target_entries_def)

lemma set_unique_imports:
  "set (unique_imports (target_entries ix aliases wanted)) = {(s, t). import_pair ix aliases wanted s t}"
proof -
  have "((s, r), t) \<in> set (target_entries ix aliases wanted) \<longleftrightarrow>
      (s, r) \<in> set wanted \<and> resolve_import_target ix aliases r = Some t \<and> s \<noteq> t" for s r t
    unfolding map_of_eq_Some_iff [OF target_entries_distinct, symmetric] target_entries_map by (auto split: option.splits)
  note member = this
  have "(s, t) \<in> set (unique_imports (target_entries ix aliases wanted)) \<longleftrightarrow> (\<exists>r. ((s, r), t) \<in> set (target_entries ix aliases wanted))" for s t
    by (force simp: unique_imports_def)
  then show ?thesis unfolding member import_pair_def by auto
qed

lemma imported_sets_map: "imported_sets pairs s = (if \<exists>t. (s, t) \<in> set pairs then Some {t. (s, t) \<in> set pairs} else None)"
proof -
  have "fold (\<lambda>(src, tgt) t. t(src \<mapsto> insert tgt (case t src of None \<Rightarrow> {} | Some s \<Rightarrow> s))) ps m s =
      (if \<exists>t. (s, t) \<in> set ps then Some ({t. (s, t) \<in> set ps} \<union> (case m s of None \<Rightarrow> {} | Some T \<Rightarrow> T)) else m s)" for ps m
    by (induction ps arbitrary: m) (auto split: option.splits if_splits)
  from this [of pairs Map.empty] show ?thesis by (simp add: imported_sets_def)
qed

text \<open>C29. Stage 5 computes the import relation: the target map, the imported sets and the staged edges hold exactly the resolved imports
  between different modules, and every target is a module of the run.\<close>

theorem stage5_imports_exact:
  assumes "stage5_import_edges mods aliases wanted ids = (out, edges)"
  shows "(import_target_map out (s, raw) = Some t \<longleftrightarrow>
       (s, raw) \<in> set wanted \<and> resolve_import_target (build_indexes mods) aliases raw = Some t \<and> s \<noteq> t)
    \<and> (imported_by_module out s = Some T \<longleftrightarrow> T \<noteq> {} \<and> T = {t. import_pair (build_indexes mods) aliases wanted s t})
    \<and> set edges = {(uuid_to_string i, uuid_to_string j) | i j.
         \<exists>s t. import_pair (build_indexes mods) aliases wanted s t \<and> ids s = Some i \<and> ids t = Some j}
    \<and> {t. import_pair (build_indexes mods) aliases wanted s t} \<subseteq> fst ` set mods"
proof -
  let ?ix = "build_indexes mods"
  note pairs = set_unique_imports [of ?ix aliases wanted]
  have out: "import_target_map out = map_of (target_entries ?ix aliases wanted)"
      "imported_by_module out = imported_sets (unique_imports (target_entries ?ix aliases wanted))"
      "edges = List.map_filter (\<lambda>(src, tgt). case (ids src, ids tgt) of
          (Some i, Some j) \<Rightarrow> Some (uuid_to_string i, uuid_to_string j) | _ \<Rightarrow> None) (unique_imports (target_entries ?ix aliases wanted))"
    using assms by (auto simp: stage5_import_edges_def Let_def)
  have "import_target_map out (s, raw) = Some t \<longleftrightarrow> (s, raw) \<in> set wanted \<and> resolve_import_target ?ix aliases raw = Some t \<and> s \<noteq> t"
    unfolding out target_entries_map by (auto split: option.splits)
  moreover have "imported_by_module out s = Some T \<longleftrightarrow> T \<noteq> {} \<and> T = {t. import_pair ?ix aliases wanted s t}"
    unfolding out imported_sets_map pairs by auto
  moreover have "set edges = {(uuid_to_string i, uuid_to_string j) | i j.
         \<exists>s t. import_pair ?ix aliases wanted s t \<and> ids s = Some i \<and> ids t = Some j}"
  proof (intro set_eqI iffI)
    fix e assume "e \<in> set edges"
    then show "e \<in> {(uuid_to_string i, uuid_to_string j) | i j. \<exists>s t. import_pair ?ix aliases wanted s t \<and> ids s = Some i \<and> ids t = Some j}"
      unfolding out set_map_filter pairs
      by (auto, rename_tac s t, case_tac "ids s"; case_tac "ids t"; force)
  next
    fix e assume "e \<in> {(uuid_to_string i, uuid_to_string j) | i j. \<exists>s t. import_pair ?ix aliases wanted s t \<and> ids s = Some i \<and> ids t = Some j}"
    then show "e \<in> set edges" unfolding out set_map_filter pairs by force
  qed
  moreover have "{t. import_pair ?ix aliases wanted s t} \<subseteq> fst ` set mods"
    by (auto simp: import_pair_def dest!: resolve_target_known)
  ultimately show ?thesis by blast
qed

section \<open>No dependence on hash order\<close>

lemma fold_update_map_of: "fold (\<lambda>(k, m) t. t(k \<mapsto> m)) es Map.empty = map_of (rev es)"
  by (induction es rule: rev_induct) (auto split: prod.splits)

lemma mset_concat_map: "mset xs = mset ys \<Longrightarrow> mset (concat (map f xs)) = mset (concat (map f ys))"
proof -
  have "mset (concat (map f zs)) = (\<Sum>z \<in># mset zs. mset (f z))" for zs by (induction zs) simp_all
  then show "mset xs = mset ys \<Longrightarrow> ?thesis" by simp
qed

lemma sort_cong_mset: "mset xs = mset ys \<Longrightarrow> sort xs = sort ys"
  by (metis sorted_list_of_multiset_mset)

lemma build_indexes_order:
  assumes "mset mods = mset mods'" and "distinct (map fst (file_entries mods))"
  shows "build_indexes mods = build_indexes mods'"
proof -
  have files: "mset (file_entries mods) = mset (file_entries mods')"
    unfolding file_entries_def by (rule mset_concat_map [OF assms(1)])
  then have distinct': "distinct (map fst (file_entries mods'))" using assms(2) by (metis mset_eq_imp_distinct_iff mset_map)
  have "map_of (rev (file_entries mods)) = map_of (rev (file_entries mods'))"
    using assms(2) distinct' mset_eq_setD [OF files] by (subst map_of_inject_set) (simp_all flip: rev_map)
  moreover have "mi_dir (build_indexes mods) d = mi_dir (build_indexes mods') d" for d
  proof -
    have "mset (dir_entries mods) = mset (dir_entries mods')" unfolding dir_entries_def by (rule mset_concat_map [OF assms(1)])
    then have "mset (map snd (filter (\<lambda>e. fst e = d) (dir_entries mods))) = mset (map snd (filter (\<lambda>e. fst e = d) (dir_entries mods')))"
      by (simp add: mset_filter)
    from mset_eq_length [OF this] sort_cong_mset [OF this] show ?thesis
      unfolding dir_index Let_def by (simp only: length_0_conv [symmetric])
  qed
  moreover have "set (map fst mods) = set (map fst mods')" using mset_eq_setD [OF assms(1)] by simp
  ultimately show ?thesis
    by (intro module_indexes.equality) (auto simp: fold_update_map_of build_indexes_def)
qed

lemma remdups_sort_cong: "set xs = set ys \<Longrightarrow> remdups_adj (sort xs) = remdups_adj (sort ys)" for xs ys :: "'a :: linorder list"
  by (rule strict_sorted_equal) (simp_all add: sorted_remdups_adj_strict)

text \<open>Stage 5 does not depend on the iteration order of the hash maps it reads, when no two files share an index key.\<close>

theorem stage5_order_independent:
  assumes "mset mods = mset mods'" and "mset wanted = mset wanted'" and "distinct (map fst (file_entries mods))"
  shows "stage5_import_edges mods aliases wanted ids = stage5_import_edges mods' aliases wanted' ids"
proof -
  let ?ix = "build_indexes mods"
  have same: "set wanted = set wanted'" by (rule mset_eq_setD [OF assms(2)])
  have entries: "map_of (target_entries ?ix aliases wanted) = map_of (target_entries ?ix aliases wanted')"
    by (rule ext) (auto simp: target_entries_map same)
  then have "set (target_entries ?ix aliases wanted) = set (target_entries ?ix aliases wanted')"
    using map_of_inject_set [OF target_entries_distinct target_entries_distinct] by blast
  then have "unique_imports (target_entries ?ix aliases wanted) = unique_imports (target_entries ?ix aliases wanted')"
    unfolding unique_imports_def by (intro remdups_sort_cong) simp
  with entries show ?thesis unfolding stage5_import_edges_def build_indexes_order [OF assms(1,3), symmetric] Let_def by simp
qed

section \<open>Aliases that match too much\<close>

lemma star_alias_captures_relative:
  "normalize_alias ''./util'' \<lparr>ia_ts_paths = ts_aliases \<lparr>ts_base_url = None, ts_paths = Some [(''*'', Some ''src/*'')]\<rparr>,
     ia_go_module = None, ia_cargo_crates = Map.empty\<rparr> = Some ''src/./util''"
  by code_simp

lemma exact_alias_captures_prefix:
  "normalize_alias ''react-dom'' \<lparr>ia_ts_paths = ts_aliases \<lparr>ts_base_url = None, ts_paths = Some [(''react'', Some ''vendor/react'')]\<rparr>,
     ia_go_module = None, ia_cargo_crates = Map.empty\<rparr> = Some ''vendor/react-dom''"
  by code_simp

text \<open>Stripping comments from a JSON text is not the identity on comment-free JSON: a comma in a string literal before a bracket is
  removed.\<close>

theorem strip_json_comments_corrupts_strings:
  "strip_json_comments (''{'' @ [CHR 0x22] @ ''a'' @ [CHR 0x22] @ '':'' @ [CHR 0x22] @ ''x, ]'' @ [CHR 0x22] @ ''}'') =
     ''{'' @ [CHR 0x22] @ ''a'' @ [CHR 0x22] @ '':'' @ [CHR 0x22] @ ''x ]'' @ [CHR 0x22] @ ''}''"
  by code_simp

definition demo_repo :: module_files where
  "demo_repo = [(''src/web'', [''src/web/app.ts'', ''src/web/util.ts'']), (''lib'', [''lib/mod.rs''])]"

theorem stage5_imports_exact_witness:
  "imported_by_module (fst (stage5_import_edges demo_repo \<lparr>ia_ts_paths = [(''@/'', ''src/'')], ia_go_module = None, ia_cargo_crates = Map.empty\<rparr>
     [(''lib'', ''@/web/util''), (''src/web'', ''@/web/app'')] (\<lambda>_. Some 1))) ''lib'' = Some {''src/web''}"
proof -
  let ?al = "\<lparr>ia_ts_paths = [(''@/'', ''src/'')], ia_go_module = None, ia_cargo_crates = Map.empty\<rparr>"
    and ?w = "[(''lib'', ''@/web/util''), (''src/web'', ''@/web/app'')]"
  have res: "resolve_import_target (build_indexes demo_repo) ?al ''@/web/util'' = Some ''src/web''" by code_simp
  have pair: "{t. import_pair (build_indexes demo_repo) ?al ?w ''lib'' t} = {''src/web''}"
    using res by (auto simp: import_pair_def)
  obtain out edges where run: "stage5_import_edges demo_repo ?al ?w (\<lambda>_. Some 1) = (out, edges)" by (metis prod.exhaust)
  from stage5_imports_exact [OF run, of "''lib''" "''@/web/util''" "''src/web''" "{''src/web''}"] pair run show ?thesis by simp
qed

theorem stage5_order_independent_witness:
  "stage5_import_edges demo_repo \<lparr>ia_ts_paths = [], ia_go_module = None, ia_cargo_crates = Map.empty\<rparr> [(''lib'', ''src/web'')] (\<lambda>_. Some 1) =
   stage5_import_edges (rev demo_repo) \<lparr>ia_ts_paths = [], ia_go_module = None, ia_cargo_crates = Map.empty\<rparr> [(''lib'', ''src/web'')] (\<lambda>_. Some 1)"
proof -
  have "distinct (map fst (file_entries demo_repo))" by code_simp
  then show ?thesis by (intro stage5_order_independent) simp_all
qed

end
