(* ===== verification/Note_Curation.thy ===== *)
theory Note_Curation
  imports Rust_Text
begin

text \<open>
  Notes, the knowledge people and agents write about a repository: \<open>PgNoteRepo\<close> (\<open>akashic-store-pg/src/repos/note.rs\<close>), the note
  nodes of the graph (\<open>akashic-store-neo4j/src/repos/note_graph.rs\<close>), the sagas a note belongs to (\<open>notes/saga.rs\<close>), the
  duplicate check (\<open>notes/dedup.rs\<close>) and the service that writes both stores (\<open>akashic-curation/src/services.rs\<close>).

  \<open>'v\<close> is the type of embeddings and \<open>'f\<close> that of \<open>f64\<close>. A request carries the outcome of each of its calls: \<open>ne_up\<close> says which
  statements reach PostgreSQL, \<open>ne_graph_up\<close> whether the graph transaction commits (a failed one changes nothing). The embedder, the vector
  index (\<open>ne_pick\<close>, an approximate search: the answer is one of the candidates, not always the closest) and the Unicode class of
  decimal digits are fields of the request as well.
\<close>

section \<open>The tables\<close>

record ('v, 'f) note_row =
  nt_id :: uuid
  nt_repo :: string
  nt_branch :: "string option"
  nt_category :: string
  nt_title :: "string option"
  nt_summary :: "string option"
  nt_content :: string
  nt_facts :: "string list option"
  nt_embedding :: 'v
  nt_related_symbols :: "string list option"
  nt_related_files :: "string list option"
  nt_tags :: "string list option"
  nt_saga_id :: "uuid option"
  nt_created_at :: instant
  nt_updated_at :: instant
  nt_staleness :: "'f option"
  nt_reasons :: "string list option"
  nt_access_count :: "int option"
  nt_archived :: "bool option"
  nt_invalid_at :: "instant option"
  nt_superseded_by :: "uuid option"

type_synonym ('v, 'f) note_table = "('v, 'f) note_row list"

record knowledge_row =
  kg_id :: uuid
  kg_type :: string
  kg_repo :: string
  kg_name :: "string option"
  kg_source_type :: "string option"
  kg_source_ref :: "string option"
  kg_status :: string

record note_node =
  nn_pg_id :: uuid
  nn_repo :: string
  nn_branch :: string
  nn_title :: "string option"
  nn_category :: "string option"
  nn_tagged_as :: "string option"

text \<open>A \<open>SUPERSEDES\<close> edge is the pair of the newer and the older note.\<close>

record note_graph =
  ng_notes :: "note_node list"
  ng_categories :: "string list"
  ng_supersedes :: "(uuid \<times> uuid) list"

record ('v, 'f) curation_state =
  cs_notes :: "('v, 'f) note_table"
  cs_sagas :: "knowledge_row list"
  cs_graph :: note_graph

datatype note_call =
  Call_similar | Call_find_saga | Call_create_saga | Call_saga_winner | Call_insert | Call_mark | Call_unmark
  | Call_compensate | Call_fetch | Call_update | Call_delete | Call_old_exists | Call_new_exists

record ('v, 'f) note_env =
  ne_up :: "note_call \<Rightarrow> bool"
  ne_graph_up :: bool
  ne_now :: instant
  ne_embed :: "string \<Rightarrow> string list + 'v"
  ne_pick :: "'v \<Rightarrow> ('v, 'f) note_table \<Rightarrow> ('v, 'f) note_row option"
  ne_similarity :: "'v \<Rightarrow> 'v \<Rightarrow> 'f"
  ne_ge :: "'f \<Rightarrow> 'f \<Rightarrow> bool"
  ne_cent :: "nat \<Rightarrow> 'f"
  ne_decimal :: "string \<Rightarrow> bool"
  ne_note_id :: uuid
  ne_saga_id :: uuid

section \<open>The note repository\<close>

record 'v note_insert_row =
  ni_repo :: string
  ni_branch :: string
  ni_category :: string
  ni_title :: string
  ni_summary :: string
  ni_content :: string
  ni_facts :: "string list"
  ni_related_symbols :: "string list"
  ni_related_files :: "string list"
  ni_tags :: "string list"
  ni_saga_id :: "uuid option"
  ni_embedding :: 'v

record 'v note_patch_row =
  np_title :: "string option"
  np_summary :: "string option"
  np_content :: "string option"
  np_category :: "string option"
  np_tags :: "string list option"
  np_embedding :: "'v option"

text \<open>\<open>f0\<close> is the default of \<open>staleness_score\<close>, \<open>0.0\<close>; the note id comes from \<open>gen_random_uuid()\<close>.\<close>

definition insert_note ::
  "bool \<Rightarrow> instant \<Rightarrow> uuid \<Rightarrow> 'f \<Rightarrow> knowledge_row list \<Rightarrow> 'v note_insert_row \<Rightarrow> ('v, 'f) note_table \<Rightarrow> uuid db \<times> ('v, 'f) note_table" where
  "insert_note up now i f0 sagas row t =
     (if \<not> up then (Inl Db_unavailable, t)
      else if i \<in> set (map nt_id t) then (Inl Unique_violation, t)
      else if (case ni_saga_id row of None \<Rightarrow> False | Some s \<Rightarrow> s \<notin> set (map kg_id sagas)) then (Inl Foreign_key_violation, t)
      else (Inr i, t @
        [\<lparr>nt_id = i, nt_repo = ni_repo row, nt_branch = Some (ni_branch row), nt_category = ni_category row,
          nt_title = Some (ni_title row), nt_summary = Some (ni_summary row), nt_content = ni_content row,
          nt_facts = Some (ni_facts row), nt_embedding = ni_embedding row,
          nt_related_symbols = Some (ni_related_symbols row), nt_related_files = Some (ni_related_files row),
          nt_tags = Some (ni_tags row), nt_saga_id = ni_saga_id row, nt_created_at = now, nt_updated_at = now,
          nt_staleness = Some f0, nt_reasons = Some [], nt_access_count = Some 0, nt_archived = Some False,
          nt_invalid_at = None, nt_superseded_by = None\<rparr>]))"

definition note_of :: "uuid \<Rightarrow> string \<Rightarrow> ('v, 'f) note_row \<Rightarrow> bool" where
  "note_of i repo r \<longleftrightarrow> nt_id r = i \<and> nt_repo r = repo"

definition fetch_note_by_id :: "bool \<Rightarrow> uuid \<Rightarrow> string \<Rightarrow> ('v, 'f) note_table \<Rightarrow> ('v, 'f) note_row option db" where
  "fetch_note_by_id up i repo t = (if \<not> up then Inl Db_unavailable else Inr (fetch_optional (note_of i repo) t))"

text \<open>The \<open>UPDATE\<close> sets all five columns to the parameters, \<open>NULL\<close> included; \<open>content\<close> and \<open>category\<close> are \<open>NOT NULL\<close>.\<close>

definition patch_note :: "instant \<Rightarrow> 'v note_patch_row \<Rightarrow> ('v, 'f) note_row \<Rightarrow> ('v, 'f) note_row" where
  "patch_note now p r =
     (let r = r\<lparr>nt_title := np_title p, nt_summary := np_summary p, nt_content := the (np_content p),
                nt_category := the (np_category p), nt_tags := np_tags p, nt_updated_at := now\<rparr> in
      case np_embedding p of None \<Rightarrow> r | Some v \<Rightarrow> r\<lparr>nt_embedding := v\<rparr>)"

definition update_note_row ::
  "bool \<Rightarrow> instant \<Rightarrow> uuid \<Rightarrow> string \<Rightarrow> 'v note_patch_row \<Rightarrow> ('v, 'f) note_table \<Rightarrow> nat db \<times> ('v, 'f) note_table" where
  "update_note_row up now i repo p t =
     (if \<not> up then (Inl Db_unavailable, t)
      else if (np_content p = None \<or> np_category p = None) \<and> 0 < rows_affected (note_of i repo) t
      then (Inl Not_null_violation, t)
      else (Inr (rows_affected (note_of i repo) t), update_where (note_of i repo) (patch_note now p) t))"

definition delete_note_row :: "bool \<Rightarrow> uuid \<Rightarrow> string \<Rightarrow> ('v, 'f) note_table \<Rightarrow> nat db \<times> ('v, 'f) note_table" where
  "delete_note_row up i repo t =
     (if \<not> up then (Inl Db_unavailable, t) else (Inr (rows_affected (note_of i repo) t), delete_where (note_of i repo) t))"

definition note_exists :: "bool \<Rightarrow> uuid \<Rightarrow> ('v, 'f) note_table \<Rightarrow> bool db" where
  "note_exists up i t = (if \<not> up then Inl Db_unavailable else Inr (i \<in> set (map nt_id t)))"

definition mark_superseded :: "bool \<Rightarrow> instant \<Rightarrow> uuid \<Rightarrow> uuid \<Rightarrow> ('v, 'f) note_table \<Rightarrow> nat db \<times> ('v, 'f) note_table" where
  "mark_superseded up now old new t =
     (if \<not> up then (Inl Db_unavailable, t)
      else (Inr (rows_affected (\<lambda>r. nt_id r = old) t),
            update_where (\<lambda>r. nt_id r = old) (\<lambda>r. r\<lparr>nt_invalid_at := Some now, nt_superseded_by := Some new\<rparr>) t))"

definition unmark_superseded :: "bool \<Rightarrow> uuid \<Rightarrow> ('v, 'f) note_table \<Rightarrow> nat db \<times> ('v, 'f) note_table" where
  "unmark_superseded up old t =
     (if \<not> up then (Inl Db_unavailable, t)
      else (Inr (rows_affected (\<lambda>r. nt_id r = old) t),
            update_where (\<lambda>r. nt_id r = old) (\<lambda>r. r\<lparr>nt_invalid_at := None, nt_superseded_by := None\<rparr>) t))"

text \<open>The page of \<open>ORDER BY created_at DESC OFFSET \<dots> LIMIT \<dots>\<close>; rows of one instant come in table order.\<close>

definition listed_notes :: "string \<Rightarrow> string option \<Rightarrow> string option \<Rightarrow> ('v, 'f) note_table \<Rightarrow> ('v, 'f) note_table" where
  "listed_notes repo branch category t =
     sort_key (\<lambda>r. - nt_created_at r)
       (filter (\<lambda>r. nt_repo r = repo \<and> (branch = None \<or> nt_branch r = branch) \<and> (category = None \<or> Some (nt_category r) = category)) t)"

definition list_notes_paginated ::
  "bool \<Rightarrow> string \<Rightarrow> string option \<Rightarrow> string option \<Rightarrow> nat \<Rightarrow> nat \<Rightarrow> ('v, 'f) note_table \<Rightarrow> (nat \<times> ('v, 'f) note_table) db" where
  "list_notes_paginated up repo branch category off lim t =
     (if \<not> up then Inl Db_unavailable
      else Inr (length (listed_notes repo branch category t), take lim (drop off (listed_notes repo branch category t))))"


section \<open>The note nodes of the graph\<close>

definition tag_for :: "note_graph \<Rightarrow> string \<Rightarrow> string option" where
  "tag_for g category = (if category \<in> set (ng_categories g) then Some category else None)"

definition create_note_node ::
  "bool \<Rightarrow> uuid \<Rightarrow> string \<Rightarrow> string \<Rightarrow> string \<Rightarrow> note_graph \<Rightarrow> (unit + unit) \<times> note_graph" where
  "create_note_node up i repo branch category g =
     (if \<not> up then (Inl (), g)
      else (Inr (), g\<lparr>ng_notes := ng_notes g @
             [\<lparr>nn_pg_id = i, nn_repo = repo, nn_branch = branch, nn_title = None, nn_category = None,
               nn_tagged_as = tag_for g category\<rparr>]\<rparr>))"

definition update_note_node :: "bool \<Rightarrow> uuid \<Rightarrow> string \<Rightarrow> string \<Rightarrow> note_graph \<Rightarrow> note_graph" where
  "update_note_node up i title category g =
     (if \<not> up then g
      else g\<lparr>ng_notes := update_where (\<lambda>n. nn_pg_id n = i)
               (\<lambda>n. n\<lparr>nn_title := Some title, nn_category := Some category, nn_tagged_as := tag_for g category\<rparr>) (ng_notes g)\<rparr>)"

definition detach_delete_note :: "bool \<Rightarrow> uuid \<Rightarrow> note_graph \<Rightarrow> note_graph" where
  "detach_delete_note up i g =
     (if \<not> up then g
      else g\<lparr>ng_notes := delete_where (\<lambda>n. nn_pg_id n = i) (ng_notes g),
             ng_supersedes := delete_where (\<lambda>(newer, older). newer = i \<or> older = i) (ng_supersedes g)\<rparr>)"

definition create_supersedes_edge :: "bool \<Rightarrow> uuid \<Rightarrow> uuid \<Rightarrow> note_graph \<Rightarrow> (unit + unit) \<times> note_graph" where
  "create_supersedes_edge up old new g =
     (if \<not> up \<or> old \<notin> set (map nn_pg_id (ng_notes g)) \<or> new \<notin> set (map nn_pg_id (ng_notes g)) then (Inl (), g)
      else (Inr (), if (new, old) \<in> set (ng_supersedes g) then g else g\<lparr>ng_supersedes := ng_supersedes g @ [(new, old)]\<rparr>))"

section \<open>Knowledge sagas\<close>

definition find_by_source :: "bool \<Rightarrow> string \<Rightarrow> string \<Rightarrow> string \<Rightarrow> knowledge_row list \<Rightarrow> uuid option db" where
  "find_by_source up repo source_type sref t =
     (if \<not> up then Inl Db_unavailable
      else Inr (map_option kg_id (fetch_optional
        (\<lambda>r. kg_repo r = repo \<and> kg_source_type r = Some source_type \<and> kg_source_ref r = Some sref) t)))"

definition find_by_name :: "bool \<Rightarrow> string \<Rightarrow> string \<Rightarrow> string \<Rightarrow> knowledge_row list \<Rightarrow> uuid option db" where
  "find_by_name up repo source_type nm t =
     (if \<not> up then Inl Db_unavailable
      else Inr (map_option kg_id (fetch_optional
        (\<lambda>r. kg_repo r = repo \<and> kg_source_type r = Some source_type \<and> kg_source_ref r = None \<and> kg_name r = Some nm) t)))"

text \<open>The partial unique index of the \<open>ON CONFLICT\<close> clause: knowledge sagas with a source reference.\<close>

definition same_source :: "string \<Rightarrow> string \<Rightarrow> string \<Rightarrow> knowledge_row \<Rightarrow> bool" where
  "same_source repo source_type sref r \<longleftrightarrow>
     kg_type r = ''knowledge'' \<and> kg_repo r = repo \<and> kg_source_type r = Some source_type \<and> kg_source_ref r = Some sref"

definition create_saga ::
  "bool \<Rightarrow> uuid \<Rightarrow> string \<Rightarrow> string \<Rightarrow> string \<Rightarrow> string option \<Rightarrow> string \<Rightarrow> string option \<Rightarrow> knowledge_row list
   \<Rightarrow> uuid option db \<times> knowledge_row list" where
  "create_saga up i saga_type repo status nm source_type source_ref t =
     (if \<not> up then (Inl Db_unavailable, t)
      else if (case source_ref of None \<Rightarrow> False
               | Some sref \<Rightarrow> saga_type = ''knowledge'' \<and> (\<exists>r \<in> set t. same_source repo source_type sref r)) then (Inr None, t)
      else if i \<in> set (map kg_id t) then (Inl Unique_violation, t)
      else (Inr (Some i), t @ [\<lparr>kg_id = i, kg_type = saga_type, kg_repo = repo, kg_name = nm, kg_source_type = Some source_type,
                                kg_source_ref = source_ref, kg_status = status\<rparr>]))"

text \<open>\<open>fetch_one\<close>: no row is an error too.\<close>

definition get_saga_by_source :: "bool \<Rightarrow> string \<Rightarrow> string \<Rightarrow> string \<Rightarrow> knowledge_row list \<Rightarrow> unit + uuid" where
  "get_saga_by_source up repo source_type sref t =
     (if \<not> up then Inl ()
      else case fetch_optional (same_source repo source_type sref) t of None \<Rightarrow> Inl () | Some r \<Rightarrow> Inr (kg_id r))"

definition find_existing :: "bool \<Rightarrow> string \<Rightarrow> string \<Rightarrow> string option \<Rightarrow> string option \<Rightarrow> knowledge_row list \<Rightarrow> uuid option db" where
  "find_existing up repo source_type source_ref nm t =
     (case source_ref of
        Some sref \<Rightarrow> find_by_source up repo source_type sref t
      | None \<Rightarrow> (case nm of Some n \<Rightarrow> find_by_name up repo source_type n t | None \<Rightarrow> Inr None))"

definition display_name :: "string \<Rightarrow> string option \<Rightarrow> string option \<Rightarrow> string option" where
  "display_name source_type source_ref nm =
     (case nm of Some n \<Rightarrow> Some n | None \<Rightarrow> map_option (\<lambda>r. source_type @ '':'' @ r) source_ref)"

definition find_or_create_saga ::
  "('v, 'f) note_env \<Rightarrow> string \<Rightarrow> string \<Rightarrow> string option \<Rightarrow> string option \<Rightarrow> knowledge_row list \<Rightarrow> (unit + uuid) \<times> knowledge_row list" where
  "find_or_create_saga env repo source_type source_ref nm t =
     (case find_existing (ne_up env Call_find_saga) repo source_type source_ref nm t of
        Inl _ \<Rightarrow> (Inl (), t)
      | Inr (Some i) \<Rightarrow> (Inr i, t)
      | Inr None \<Rightarrow>
          (case create_saga (ne_up env Call_create_saga) (ne_saga_id env) ''knowledge'' repo ''open''
                  (display_name source_type source_ref nm) source_type source_ref t of
             (Inl _, t') \<Rightarrow> (Inl (), t')
           | (Inr (Some i), t') \<Rightarrow> (Inr i, t')
           | (Inr None, t') \<Rightarrow>
               (get_saga_by_source (ne_up env Call_saga_winner) repo source_type
                  (case source_ref of Some r \<Rightarrow> r | None \<Rightarrow> []) t', t')))"

text \<open>The regular expression \<open>^wp/([A-Z]+)/(\d+)$\<close>; \<open>\d\<close> is every Unicode decimal digit.\<close>

definition ascii_upper_letter :: "char \<Rightarrow> bool" where
  "ascii_upper_letter c \<longleftrightarrow> CHR ''A'' \<le> c \<and> c \<le> CHR ''Z''"

definition extract_issue_from_branch :: "(string \<Rightarrow> bool) \<Rightarrow> string \<Rightarrow> string option" where
  "extract_issue_from_branch decimal branch =
     (case split_char (CHR ''/'') branch of
        [w, p, d] \<Rightarrow>
          if w = ''wp'' \<and> p \<noteq> [] \<and> list_all ascii_upper_letter p \<and> d \<noteq> [] \<and> list_all decimal (utf8_chars d)
          then Some (p @ ''-'' @ d) else None
      | _ \<Rightarrow> None)"

fun non_empty :: "string option \<Rightarrow> string option" where
  "non_empty (Some (c # cs)) = Some (c # cs)"
| "non_empty _ = None"

definition resolve_saga_for_note ::
  "('v, 'f) note_env \<Rightarrow> string \<Rightarrow> string option \<Rightarrow> string \<Rightarrow> string option \<Rightarrow> knowledge_row list
   \<Rightarrow> (unit + uuid option) \<times> knowledge_row list" where
  "resolve_saga_for_note env repo issue_ref branch topic t =
     (let found = (\<lambda>(r, t'). (map_sum id Some r, t')) in
      case non_empty issue_ref of
        Some iref \<Rightarrow> found (find_or_create_saga env repo ''issue'' (Some iref) None t)
      | None \<Rightarrow>
          (case extract_issue_from_branch (ne_decimal env) branch of
             Some extracted \<Rightarrow> found (find_or_create_saga env repo ''branch'' (Some extracted) None t)
           | None \<Rightarrow>
               (case non_empty topic of
                  Some tp \<Rightarrow> found (find_or_create_saga env repo ''manual'' None (Some tp) t)
                | None \<Rightarrow> (Inr None, t))))"

section \<open>The duplicate check\<close>

record 'f dedup_match =
  dm_note_id :: uuid
  dm_title :: "string option"
  dm_category :: string
  dm_similarity :: 'f

datatype 'f dedup_verdict = Block "'f dedup_match" | Warn "'f dedup_match" | Pass

text \<open>The rows the query ranks; \<open>archived = false\<close> is not true of \<open>NULL\<close>.\<close>

definition dedup_candidates :: "string \<Rightarrow> ('v, 'f) note_table \<Rightarrow> ('v, 'f) note_table" where
  "dedup_candidates repo t = filter (\<lambda>r. nt_repo r = repo \<and> nt_invalid_at r = None \<and> nt_archived r = Some False) t"

definition dedup_thresholds :: "uuid option \<Rightarrow> uuid option \<Rightarrow> nat \<times> nat" where
  "dedup_thresholds saga cand_saga =
     (if saga \<noteq> None \<and> saga = cand_saga then (95, 65) else (90, 70))"

definition check_dedup ::
  "('v, 'f) note_env \<Rightarrow> string \<Rightarrow> 'v \<Rightarrow> uuid option \<Rightarrow> ('v, 'f) note_table \<Rightarrow> 'f dedup_verdict db" where
  "check_dedup env repo v saga t =
     (if \<not> ne_up env Call_similar then Inl Db_unavailable
      else case ne_pick env v (dedup_candidates repo t) of
        None \<Rightarrow> Inr Pass
      | Some cand \<Rightarrow>
          (let s = ne_similarity env (nt_embedding cand) v;
               (block, warn) = dedup_thresholds saga (nt_saga_id cand);
               m = \<lparr>dm_note_id = nt_id cand, dm_title = nt_title cand, dm_category = nt_category cand, dm_similarity = s\<rparr> in
           Inr (if ne_ge env s (ne_cent env block) then Block m
                else if ne_ge env s (ne_cent env warn) then Warn m else Pass)))"

section \<open>The service\<close>

record save_note_request =
  sq_repo :: string
  sq_branch :: string
  sq_category :: string
  sq_title :: string
  sq_summary :: string
  sq_content :: string
  sq_facts :: "string list"
  sq_related_symbols :: "string list"
  sq_related_files :: "string list"
  sq_tags :: "string list"
  sq_issue_ref :: "string option"
  sq_topic :: "string option"
  sq_supersedes :: "uuid option"
  sq_skip_dedup :: bool

record saved_note =
  sv_note_id :: uuid
  sv_saga_id :: "uuid option"

text \<open>\<open>Conflict\<close> and \<open>NotFound\<close> of \<open>DomainError\<close>, and the ways to \<open>Internal\<close>.\<close>

datatype 'f note_error =
  Duplicate_note "'f dedup_match" | No_such_note uuid | Embedding_failed "string list" | Note_store_failed sql_error | Graph_failed uuid

definition embed_text :: "string \<Rightarrow> string \<Rightarrow> string \<Rightarrow> string" where
  "embed_text title summary content = title @ '' '' @ summary @ '' '' @ content"

definition insert_row_of :: "save_note_request \<Rightarrow> uuid option \<Rightarrow> 'v \<Rightarrow> 'v note_insert_row" where
  "insert_row_of req saga v =
     \<lparr>ni_repo = sq_repo req, ni_branch = sq_branch req, ni_category = sq_category req, ni_title = sq_title req,
      ni_summary = sq_summary req, ni_content = sq_content req, ni_facts = sq_facts req,
      ni_related_symbols = sq_related_symbols req, ni_related_files = sq_related_files req, ni_tags = sq_tags req,
      ni_saga_id = saga, ni_embedding = v\<rparr>"

text \<open>Steps 3 to 6: saga, insertion, mark of the superseded note, node in the graph or compensation.\<close>

definition marked_old ::
  "('v, 'f) note_env \<Rightarrow> save_note_request \<Rightarrow> uuid \<Rightarrow> ('v, 'f) note_table \<Rightarrow> ('v, 'f) note_table" where
  "marked_old env req i t =
     (case sq_supersedes req of None \<Rightarrow> t
      | Some old \<Rightarrow> snd (mark_superseded (ne_up env Call_mark) (ne_now env) old i t))"

definition persist_note ::
  "('v, 'f) note_env \<Rightarrow> save_note_request \<Rightarrow> 'v \<Rightarrow> ('v, 'f) curation_state \<Rightarrow> ('f note_error + saved_note) \<times> ('v, 'f) curation_state" where
  "persist_note env req v st =
     (let (found, sagas) = resolve_saga_for_note env (sq_repo req) (sq_issue_ref req) (sq_branch req) (sq_topic req) (cs_sagas st);
          saga = (case found of Inl _ \<Rightarrow> None | Inr s \<Rightarrow> s);
          st = st\<lparr>cs_sagas := sagas\<rparr> in
      case insert_note (ne_up env Call_insert) (ne_now env) (ne_note_id env) (ne_cent env 0) sagas (insert_row_of req saga v)
             (cs_notes st) of
        (Inl e, t) \<Rightarrow> (Inl (Note_store_failed e), st\<lparr>cs_notes := t\<rparr>)
      | (Inr i, t) \<Rightarrow>
          (let t = marked_old env req i t in
           case create_note_node (ne_graph_up env) i (sq_repo req) (sq_branch req) (sq_category req) (cs_graph st) of
             (Inl _, g) \<Rightarrow>
               (Inl (Graph_failed i),
                st\<lparr>cs_notes := snd (delete_note_row (ne_up env Call_compensate) i (sq_repo req) t), cs_graph := g\<rparr>)
           | (Inr _, g) \<Rightarrow> (Inr \<lparr>sv_note_id = i, sv_saga_id = saga\<rparr>, st\<lparr>cs_notes := t, cs_graph := g\<rparr>)))"

definition save_note ::
  "('v, 'f) note_env \<Rightarrow> save_note_request \<Rightarrow> ('v, 'f) curation_state \<Rightarrow> ('f note_error + saved_note) \<times> ('v, 'f) curation_state" where
  "save_note env req st =
     (case ne_embed env (embed_text (sq_title req) (sq_summary req) (sq_content req)) of
        Inl causes \<Rightarrow> (Inl (Embedding_failed causes), st)
      | Inr v \<Rightarrow>
          (case if sq_skip_dedup req then Inr Pass else check_dedup env (sq_repo req) v None (cs_notes st) of
             Inr (Block m) \<Rightarrow> (Inl (Duplicate_note m), st)
           | _ \<Rightarrow> persist_note env req v st))"

record note_list_item =
  li_id :: uuid
  li_title :: "string option"
  li_category :: string
  li_summary :: "string option"
  li_tags :: "string list option"
  li_saga_id :: "uuid option"
  li_created_at :: instant
  li_updated_at :: instant
  li_access_count :: int

definition list_notes ::
  "bool \<Rightarrow> string \<Rightarrow> string option \<Rightarrow> string option \<Rightarrow> nat \<Rightarrow> nat \<Rightarrow> ('v, 'f) note_table \<Rightarrow> (nat \<times> note_list_item list) db" where
  "list_notes up repo branch category off lim t =
     map_sum id (map_prod id (map (\<lambda>r.
       \<lparr>li_id = nt_id r, li_title = nt_title r, li_category = nt_category r, li_summary = nt_summary r, li_tags = nt_tags r,
        li_saga_id = nt_saga_id r, li_created_at = nt_created_at r, li_updated_at = nt_updated_at r,
        li_access_count = (case nt_access_count r of None \<Rightarrow> 0 | Some n \<Rightarrow> n)\<rparr>)))
       (list_notes_paginated up repo branch category off lim t)"

record note_detail =
  nd_id :: uuid
  nd_repo :: string
  nd_branch :: string
  nd_category :: string
  nd_title :: "string option"
  nd_summary :: "string option"
  nd_content :: string
  nd_facts :: "string list"
  nd_related_symbols :: "string list"
  nd_related_files :: "string list"
  nd_tags :: "string list"
  nd_saga_id :: "uuid option"
  nd_supersedes :: "uuid option"
  nd_is_superseded :: bool
  nd_access_count :: int
  nd_created_at :: instant
  nd_updated_at :: instant

abbreviation or_default :: "'a \<Rightarrow> 'a option \<Rightarrow> 'a" where
  "or_default d x \<equiv> (case x of None \<Rightarrow> d | Some y \<Rightarrow> y)"

definition detail_of :: "('v, 'f) note_row \<Rightarrow> note_detail" where
  "detail_of r =
     \<lparr>nd_id = nt_id r, nd_repo = nt_repo r, nd_branch = or_default [] (nt_branch r), nd_category = nt_category r,
      nd_title = nt_title r, nd_summary = nt_summary r, nd_content = nt_content r, nd_facts = or_default [] (nt_facts r),
      nd_related_symbols = or_default [] (nt_related_symbols r), nd_related_files = or_default [] (nt_related_files r),
      nd_tags = or_default [] (nt_tags r), nd_saga_id = nt_saga_id r, nd_supersedes = nt_superseded_by r,
      nd_is_superseded = (nt_invalid_at r \<noteq> None), nd_access_count = or_default 0 (nt_access_count r),
      nd_created_at = nt_created_at r, nd_updated_at = nt_updated_at r\<rparr>"

definition get_note :: "bool \<Rightarrow> string \<Rightarrow> uuid \<Rightarrow> ('v, 'f) note_table \<Rightarrow> 'f note_error + note_detail" where
  "get_note up repo i t =
     (case fetch_note_by_id up i repo t of
        Inl e \<Rightarrow> Inl (Note_store_failed e)
      | Inr None \<Rightarrow> Inl (No_such_note i)
      | Inr (Some r) \<Rightarrow> Inr (detail_of r))"

record note_patch =
  pt_title :: "string option"
  pt_summary :: "string option"
  pt_content :: "string option"
  pt_facts :: "string list option"
  pt_related_symbols :: "string list option"
  pt_related_files :: "string list option"
  pt_tags :: "string list option"
  pt_category :: "string option"
  pt_supersedes :: "uuid option"

definition text_contains :: "string \<Rightarrow> string \<Rightarrow> bool" where
  "text_contains p s \<longleftrightarrow> from_first p s \<noteq> None"

definition is_quota_error :: "string list \<Rightarrow> bool" where
  "is_quota_error causes \<longleftrightarrow> list_ex (\<lambda>c. text_contains ''quota_exceeded'' c \<or> text_contains ''QuotaExceeded'' c) causes"

definition has_content_change :: "note_patch \<Rightarrow> bool" where
  "has_content_change p \<longleftrightarrow> pt_title p \<noteq> None \<or> pt_summary p \<noteq> None \<or> pt_content p \<noteq> None"

text \<open>The new embedding, computed before the update; an error other than a quota rejection is tolerated.\<close>

definition patched_embedding ::
  "('v, 'f) note_env \<Rightarrow> string \<Rightarrow> uuid \<Rightarrow> note_patch \<Rightarrow> ('v, 'f) note_table \<Rightarrow> 'f note_error + 'v option" where
  "patched_embedding env repo i p t =
     (if \<not> has_content_change p then Inr None
      else case fetch_note_by_id (ne_up env Call_fetch) i repo t of
        Inl e \<Rightarrow> Inl (Note_store_failed e)
      | Inr None \<Rightarrow> Inl (No_such_note i)
      | Inr (Some cur) \<Rightarrow>
          (case ne_embed env (embed_text
                  (or_default (or_default [] (nt_title cur)) (pt_title p))
                  (or_default (or_default [] (nt_summary cur)) (pt_summary p))
                  (or_default (nt_content cur) (pt_content p))) of
             Inr v \<Rightarrow> Inr (Some v)
           | Inl causes \<Rightarrow> if is_quota_error causes then Inl (Embedding_failed causes) else Inr None))"

definition patch_row_of :: "note_patch \<Rightarrow> 'v option \<Rightarrow> 'v note_patch_row" where
  "patch_row_of p v =
     \<lparr>np_title = pt_title p, np_summary = pt_summary p, np_content = pt_content p, np_category = pt_category p, np_tags = pt_tags p,
      np_embedding = v\<rparr>"

definition mirror_patch :: "bool \<Rightarrow> uuid \<Rightarrow> note_patch \<Rightarrow> note_graph \<Rightarrow> note_graph" where
  "mirror_patch up i p g =
     (if (pt_title p \<noteq> None \<or> pt_category p \<noteq> None) \<and> (or_default [] (pt_title p) \<noteq> [] \<or> or_default [] (pt_category p) \<noteq> [])
      then update_note_node up i (or_default [] (pt_title p)) (or_default [] (pt_category p)) g else g)"

definition update_note ::
  "('v, 'f) note_env \<Rightarrow> string \<Rightarrow> uuid \<Rightarrow> note_patch \<Rightarrow> ('v, 'f) curation_state \<Rightarrow> ('f note_error + unit) \<times> ('v, 'f) curation_state" where
  "update_note env repo i p st =
     (case patched_embedding env repo i p (cs_notes st) of
        Inl e \<Rightarrow> (Inl e, st)
      | Inr v \<Rightarrow>
          (case update_note_row (ne_up env Call_update) (ne_now env) i repo (patch_row_of p v) (cs_notes st) of
             (Inl e, t) \<Rightarrow> (Inl (Note_store_failed e), st\<lparr>cs_notes := t\<rparr>)
           | (Inr rows, t) \<Rightarrow>
               if rows = 0 then (Inl (No_such_note i), st\<lparr>cs_notes := t\<rparr>)
               else (Inr (), st\<lparr>cs_notes := t, cs_graph := mirror_patch (ne_graph_up env) i p (cs_graph st)\<rparr>)))"

definition delete_note ::
  "('v, 'f) note_env \<Rightarrow> string \<Rightarrow> uuid \<Rightarrow> ('v, 'f) curation_state \<Rightarrow> ('f note_error + unit) \<times> ('v, 'f) curation_state" where
  "delete_note env repo i st =
     (case delete_note_row (ne_up env Call_delete) i repo (cs_notes st) of
        (Inl e, t) \<Rightarrow> (Inl (Note_store_failed e), st\<lparr>cs_notes := t\<rparr>)
      | (Inr rows, t) \<Rightarrow>
          if rows = 0 then (Inl (No_such_note i), st\<lparr>cs_notes := t\<rparr>)
          else (Inr (), st\<lparr>cs_notes := t, cs_graph := detach_delete_note (ne_graph_up env) i (cs_graph st)\<rparr>))"

definition supersede_note ::
  "('v, 'f) note_env \<Rightarrow> uuid \<Rightarrow> uuid \<Rightarrow> ('v, 'f) curation_state \<Rightarrow> ('f note_error + unit) \<times> ('v, 'f) curation_state" where
  "supersede_note env old new st =
     (case note_exists (ne_up env Call_old_exists) old (cs_notes st) of
        Inl e \<Rightarrow> (Inl (Note_store_failed e), st)
      | Inr False \<Rightarrow> (Inl (No_such_note old), st)
      | Inr True \<Rightarrow>
          (case note_exists (ne_up env Call_new_exists) new (cs_notes st) of
             Inl e \<Rightarrow> (Inl (Note_store_failed e), st)
           | Inr False \<Rightarrow> (Inl (No_such_note new), st)
           | Inr True \<Rightarrow>
               (case mark_superseded (ne_up env Call_mark) (ne_now env) old new (cs_notes st) of
                  (Inl e, t) \<Rightarrow> (Inl (Note_store_failed e), st\<lparr>cs_notes := t\<rparr>)
                | (Inr _, t) \<Rightarrow>
                    (case create_supersedes_edge (ne_graph_up env) old new (cs_graph st) of
                       (Inl _, g) \<Rightarrow>
                         (Inl (Graph_failed old),
                          st\<lparr>cs_notes := snd (unmark_superseded (ne_up env Call_unmark) old t), cs_graph := g\<rparr>)
                     | (Inr _, g) \<Rightarrow> (Inr (), st\<lparr>cs_notes := t, cs_graph := g\<rparr>)))))"

section \<open>What the statements keep\<close>

lemma insert_note_Inr:
  "insert_note up now i f0 sagas row t = (Inr j, t') \<Longrightarrow>
     j = i \<and> i \<notin> nt_id ` set t \<and> (\<exists>r. t' = t @ [r] \<and> nt_id r = i \<and> nt_repo r = ni_repo row
       \<and> nt_saga_id r = ni_saga_id row \<and> (\<forall>s. ni_saga_id row = Some s \<longrightarrow> s \<in> kg_id ` set sagas))"
  by (auto simp: insert_note_def split: if_splits option.splits)

lemma ids_marked [simp]: "map nt_id (snd (mark_superseded up now old new t)) = map nt_id t"
  by (simp add: mark_superseded_def map_update_where)

lemma ids_unmarked [simp]: "map nt_id (snd (unmark_superseded up old t)) = map nt_id t"
  by (simp add: unmark_superseded_def map_update_where)

lemma unmark_mark:
  assumes "\<And>r. r \<in> set t \<Longrightarrow> nt_id r = old \<Longrightarrow> nt_invalid_at r = None \<and> nt_superseded_by r = None"
  shows "snd (unmark_superseded True old (snd (mark_superseded up now old new t))) = t"
proof -
  have "map (\<lambda>r. if nt_id r = old then r\<lparr>nt_invalid_at := None, nt_superseded_by := None\<rparr> else r) t = t"
    using assms by (auto intro!: map_idI)
  then show ?thesis
    by (auto simp: unmark_superseded_def mark_superseded_def update_where_def o_def if_distrib cong: if_cong)
qed

section \<open>Updating a note\<close>

lemma update_note_row_Inl: "update_note_row up now i repo p t = (Inl e, t') \<Longrightarrow> t' = t"
  by (auto simp: update_note_row_def split: if_splits)

lemma update_note_row_none: "update_note_row up now i repo p t = (Inr 0, t') \<Longrightarrow> t' = t"
  by (auto simp: update_note_row_def rows_affected_def filter_empty_conv update_where_none split: if_splits)

lemma update_note_row_some:
  "update_note_row up now i repo p t = (Inr n, t') \<Longrightarrow> 0 < n \<Longrightarrow>
     up \<and> (\<exists>r \<in> set t. note_of i repo r) \<and> np_content p \<noteq> None \<and> np_category p \<noteq> None
     \<and> t' = update_where (note_of i repo) (patch_note now p) t"
  by (auto simp: update_note_row_def rows_affected_pos split: if_splits)

lemma patch_row_simps [simp]:
  "np_title (patch_row_of p v) = pt_title p" "np_summary (patch_row_of p v) = pt_summary p"
  "np_content (patch_row_of p v) = pt_content p" "np_category (patch_row_of p v) = pt_category p"
  "np_tags (patch_row_of p v) = pt_tags p" "np_embedding (patch_row_of p v) = v"
  by (simp_all add: patch_row_of_def)

lemma update_note_cases:
  assumes "update_note env repo i p st = (res, st')"
  obtains (failed) e where "res = Inl e" and "st' = st"
  | (updated) v where "res = Inr ()" and "patched_embedding env repo i p (cs_notes st) = Inr v"
      and "\<exists>r \<in> set (cs_notes st). note_of i repo r" and "pt_content p \<noteq> None" and "pt_category p \<noteq> None"
      and "st' = st\<lparr>cs_notes := update_where (note_of i repo) (patch_note (ne_now env) (patch_row_of p v)) (cs_notes st),
             cs_graph := mirror_patch (ne_graph_up env) i p (cs_graph st)\<rparr>"
proof (cases "patched_embedding env repo i p (cs_notes st)")
  case (Inl a)
  with assms show ?thesis by (intro failed) (auto simp: update_note_def)
next
  case (Inr v)
  obtain r t where row: "update_note_row (ne_up env Call_update) (ne_now env) i repo (patch_row_of p v) (cs_notes st) = (r, t)"
    by (cases "update_note_row (ne_up env Call_update) (ne_now env) i repo (patch_row_of p v) (cs_notes st)")
  show ?thesis
  proof (cases r)
    case (Inl a)
    from update_note_row_Inl [OF row [unfolded Inl]] assms \<open>patched_embedding _ _ _ _ _ = Inr v\<close> Inl show ?thesis
      by (intro failed) (auto simp: update_note_def row)
  next
    case n: (Inr n)
    show ?thesis
    proof (cases n)
      case 0
      from update_note_row_none [OF row [unfolded n 0]] assms Inr n 0 show ?thesis
        by (intro failed) (auto simp: update_note_def row)
    next
      case (Suc k)
      have "res = Inr ()" and "st' = st\<lparr>cs_notes := t, cs_graph := mirror_patch (ne_graph_up env) i p (cs_graph st)\<rparr>"
        using assms Inr n Suc by (simp_all add: update_note_def row)
      with update_note_row_some [OF row [unfolded n]] Inr Suc show ?thesis
        by (intro updated [of v]) simp_all
    qed
  qed
qed

lemma update_where_key:
  assumes "distinct (map k t)" and "r \<in> set t" and "p r" and "\<And>x. p x \<Longrightarrow> k x = k r"
  shows "\<exists>pre post. t = pre @ r # post \<and> update_where p f t = pre @ f r # post"
proof -
  from assms(2) obtain pre post where t: "t = pre @ r # post"
    by (auto simp: in_set_conv_decomp)
  have "\<not> p x" if "x \<in> set pre \<union> set post" for x
    using assms(1) assms(4) [of x] that by (auto simp: t image_iff)
  then have "update_where p f pre = pre" "update_where p f post = post"
    by (auto intro!: update_where_none)
  moreover have "update_where p f t = update_where p f pre @ f r # update_where p f post"
    using assms(3) by (simp add: t update_where_def)
  ultimately show ?thesis using t by auto
qed

text \<open>C30. With a patch that has title, summary, content and category, updating a note is all or nothing: an error (no database, no such
  note, a rejected embedding quota) leaves both stores exactly as they were, whichever call it came from; success changes exactly the row of
  that note, to the texts of the patch, and its embedding to that of the patched text, or leaves the stale embedding in place when the
  embedder failed for a reason other than its quota.\<close>

theorem update_note_all_or_nothing:
  assumes keys: "distinct (map nt_id (cs_notes st))"
    and run: "update_note env repo i p st = (res, st')"
    and patch: "pt_title p = Some title" "pt_summary p = Some summary" "pt_content p = Some content" "pt_category p = Some category"
  shows "(\<exists>e. res = Inl e \<and> st' = st)
    \<or> (\<exists>pre cur post v. cs_notes st = pre @ cur # post \<and> note_of i repo cur
        \<and> (case ne_embed env (embed_text title summary content) of
             Inr w \<Rightarrow> v = w
           | Inl causes \<Rightarrow> \<not> is_quota_error causes \<and> v = nt_embedding cur)
        \<and> cs_notes st' = pre @ cur\<lparr>nt_title := Some title, nt_summary := Some summary, nt_content := content, nt_category := category,
             nt_tags := pt_tags p, nt_updated_at := ne_now env, nt_embedding := v\<rparr> # post
        \<and> cs_sagas st' = cs_sagas st \<and> res = Inr ())"
  using run
proof (cases rule: update_note_cases)
  case (updated v)
  then obtain r where r: "r \<in> set (cs_notes st)" "note_of i repo r" by blast
  have "\<And>x. note_of i repo x \<Longrightarrow> nt_id x = nt_id r" using r(2) by (simp add: note_of_def)
  from update_where_key [where f = "patch_note (ne_now env) (patch_row_of p v)" and p = "note_of i repo", OF keys r this] obtain pre post where
    rows: "cs_notes st = pre @ r # post"
      "cs_notes st' = pre @ patch_note (ne_now env) (patch_row_of p v) r # post"
    using updated(6) by fastforce
  have found: "fetch_optional (note_of i repo) (cs_notes st) = Some r"
    using r by (intro fetch_optional_key [where k = nt_id] keys) (auto simp: note_of_def)
  have "ne_up env Call_fetch"
    using updated(2) patch by (auto simp: patched_embedding_def has_content_change_def fetch_note_by_id_def split: if_splits)
  then have v: "(case ne_embed env (embed_text title summary content) of Inr w \<Rightarrow> v = Some w
      | Inl causes \<Rightarrow> \<not> is_quota_error causes \<and> v = None)"
    using updated(2) patch found
    by (auto simp: patched_embedding_def has_content_change_def fetch_note_by_id_def split: if_splits sum.splits)
  have "patch_note (ne_now env) (patch_row_of p v) r = r\<lparr>nt_title := Some title, nt_summary := Some summary, nt_content := content,
      nt_category := category, nt_tags := pt_tags p, nt_updated_at := ne_now env,
      nt_embedding := or_default (nt_embedding r) v\<rparr>"
    using patch by (simp add: patch_note_def Let_def split: option.split)
  with rows r(2) v updated show ?thesis
    by (intro disjI2 exI [of _ pre] exI [of _ r] exI [of _ post] exI [of _ "or_default (nt_embedding r) v"])
       (auto split: sum.splits)
qed auto

text \<open>A patch that leaves the content or the category out never updates a note: the statement sets the column to \<open>NULL\<close>.\<close>

theorem partial_patch_rejected:
  assumes "pt_content p = None \<or> pt_category p = None"
  shows "\<exists>e. update_note env repo i p st = (Inl e, st)"
proof -
  obtain res st' where run: "update_note env repo i p st = (res, st')" by (cases "update_note env repo i p st")
  from run show ?thesis using assms by (cases rule: update_note_cases) (auto simp: run)
qed

section \<open>Superseding a note\<close>

text \<open>The service as one transaction over both stores: every check and write goes through, or nothing happens. The mark in PostgreSQL, its
  rollback and the graph edge of the code refine it.\<close>

definition superseded_state :: "instant \<Rightarrow> uuid \<Rightarrow> uuid \<Rightarrow> ('v, 'f) curation_state \<Rightarrow> ('v, 'f) curation_state" where
  "superseded_state now old new st =
     st\<lparr>cs_notes := update_where (\<lambda>r. nt_id r = old) (\<lambda>r. r\<lparr>nt_invalid_at := Some now, nt_superseded_by := Some new\<rparr>) (cs_notes st),
        cs_graph := (cs_graph st)\<lparr>ng_supersedes :=
          (if (new, old) \<in> set (ng_supersedes (cs_graph st)) then ng_supersedes (cs_graph st)
           else ng_supersedes (cs_graph st) @ [(new, old)])\<rparr>\<rparr>"

definition supersede_failure :: "('v, 'f) note_env \<Rightarrow> uuid \<Rightarrow> uuid \<Rightarrow> ('v, 'f) curation_state \<Rightarrow> 'f note_error option" where
  "supersede_failure env old new st =
     (if \<not> ne_up env Call_old_exists then Some (Note_store_failed Db_unavailable)
      else if old \<notin> nt_id ` set (cs_notes st) then Some (No_such_note old)
      else if \<not> ne_up env Call_new_exists then Some (Note_store_failed Db_unavailable)
      else if new \<notin> nt_id ` set (cs_notes st) then Some (No_such_note new)
      else if \<not> ne_up env Call_mark then Some (Note_store_failed Db_unavailable)
      else if \<not> ne_graph_up env \<or> \<not> {old, new} \<subseteq> nn_pg_id ` set (ng_notes (cs_graph st)) then Some (Graph_failed old)
      else None)"

definition supersede_atomically ::
  "('v, 'f) note_env \<Rightarrow> uuid \<Rightarrow> uuid \<Rightarrow> ('v, 'f) curation_state \<Rightarrow> ('f note_error + unit) \<times> ('v, 'f) curation_state" where
  "supersede_atomically env old new st =
     (case supersede_failure env old new st of Some e \<Rightarrow> (Inl e, st) | None \<Rightarrow> (Inr (), superseded_state (ne_now env) old new st))"

text \<open>C31. The compensation works on current notes: with the rollback reachable and the old note not superseded before, the service is the
  atomic transaction. Both stores change and it succeeds, or neither changes and it reports the failure.\<close>

theorem supersede_note_refines_atomic:
  assumes "ne_up env Call_unmark"
    and "\<forall>r \<in> set (cs_notes st). nt_id r = old \<longrightarrow> nt_invalid_at r = None \<and> nt_superseded_by r = None"
  shows "supersede_note env old new st = supersede_atomically env old new st"
proof -
  have restored: "snd (unmark_superseded True old
      (update_where (\<lambda>r. nt_id r = old) (\<lambda>r. r\<lparr>nt_invalid_at := Some (ne_now env), nt_superseded_by := Some new\<rparr>) (cs_notes st)))
    = cs_notes st"
    using unmark_mark [of "cs_notes st" old True "ne_now env" new] assms(2) by (simp add: mark_superseded_def)
  show ?thesis
    using assms(1) restored
    by (simp add: supersede_note_def supersede_atomically_def supersede_failure_def superseded_state_def note_exists_def
        mark_superseded_def create_supersedes_edge_def image_iff)
qed

text \<open>On a note that was superseded before, the rollback is not the inverse of the mark: the failed call revives the note.\<close>

theorem supersede_rollback_forgets:
  assumes "ne_up env = (\<lambda>_. True)" and "\<not> ne_graph_up env"
    and "r \<in> set (cs_notes st)" and "nt_id r = old" and "nt_superseded_by r = Some earlier"
    and "new \<in> nt_id ` set (cs_notes st)"
    and "supersede_note env old new st = (res, st')"
  shows "res = Inl (Graph_failed old) \<and> r\<lparr>nt_invalid_at := None, nt_superseded_by := None\<rparr> \<in> set (cs_notes st')"
proof -
  have "old \<in> set (map nt_id (cs_notes st))" "new \<in> set (map nt_id (cs_notes st))"
    using assms(3,4,6) by auto
  with assms(1,2,7) have run: "res = Inl (Graph_failed old)"
    "cs_notes st' = snd (unmark_superseded True old (snd (mark_superseded True (ne_now env) old new (cs_notes st))))"
    by (auto simp: supersede_note_def note_exists_def mark_superseded_def create_supersedes_edge_def)
  have "r\<lparr>nt_invalid_at := None, nt_superseded_by := None\<rparr> \<in> set (cs_notes st')"
    using assms(3,4) unfolding run(2)
    by (auto simp: unmark_superseded_def mark_superseded_def update_where_def image_iff intro!: bexI [of _ r])
  with run(1) show ?thesis by blast
qed

section \<open>Saving a note\<close>

lemma insert_note_Inl: "insert_note up now i f0 sagas row t = (Inl e, t') \<Longrightarrow> t' = t"
  by (auto simp: insert_note_def split: if_splits)

lemma ids_marked_old [simp]: "map nt_id (marked_old env req i t) = map nt_id t"
  by (simp add: marked_old_def split: option.split)

text \<open>The ways a save ends; \<open>t\<close> is the table after the insertion.\<close>

lemma save_note_cases:
  assumes "save_note env req st = (res, st')"
  obtains (unchanged) e where "res = Inl e" and "cs_notes st' = cs_notes st" and "cs_graph st' = cs_graph st"
      and "\<forall>i. e \<noteq> Graph_failed i"
  | (inserted) t sagas saga v where
      "insert_note (ne_up env Call_insert) (ne_now env) (ne_note_id env) (ne_cent env 0) sagas (insert_row_of req saga v) (cs_notes st)
         = (Inr (ne_note_id env), t)"
      and "ne_embed env (embed_text (sq_title req) (sq_summary req) (sq_content req)) = Inr v"
      and "cs_sagas st' = sagas"
      and "if ne_graph_up env
           then res = Inr \<lparr>sv_note_id = ne_note_id env, sv_saga_id = saga\<rparr> \<and> cs_notes st' = marked_old env req (ne_note_id env) t
             \<and> cs_graph st' = snd (create_note_node True (ne_note_id env) (sq_repo req) (sq_branch req) (sq_category req) (cs_graph st))
           else res = Inl (Graph_failed (ne_note_id env)) \<and> cs_graph st' = cs_graph st
             \<and> cs_notes st' = snd (delete_note_row (ne_up env Call_compensate) (ne_note_id env) (sq_repo req)
                 (marked_old env req (ne_note_id env) t))"
proof (cases "ne_embed env (embed_text (sq_title req) (sq_summary req) (sq_content req))")
  case (Inl a)
  with assms show ?thesis by (intro unchanged) (auto simp: save_note_def)
next
  case v: (Inr v)
  obtain found sagas where saga:
    "resolve_saga_for_note env (sq_repo req) (sq_issue_ref req) (sq_branch req) (sq_topic req) (cs_sagas st) = (found, sagas)"
    by (cases "resolve_saga_for_note env (sq_repo req) (sq_issue_ref req) (sq_branch req) (sq_topic req) (cs_sagas st)")
  define sg where "sg = (case found of Inl _ \<Rightarrow> None | Inr s \<Rightarrow> s)"
  obtain r t where ins: "insert_note (ne_up env Call_insert) (ne_now env) (ne_note_id env) (ne_cent env 0) sagas
      (insert_row_of req sg v) (cs_notes st) = (r, t)"
    by (cases "insert_note (ne_up env Call_insert) (ne_now env) (ne_note_id env) (ne_cent env 0) sagas
      (insert_row_of req sg v) (cs_notes st)")
  have "(\<exists>m. res = Inl (Duplicate_note m) \<and> st' = st) \<or> persist_note env req v st = (res, st')"
    using assms v by (auto simp: save_note_def split: sum.splits dedup_verdict.splits)
  then consider m where "res = Inl (Duplicate_note m)" "st' = st" | "persist_note env req v st = (res, st')" by blast
  then show ?thesis
  proof cases
    case 1
    then show ?thesis by (intro unchanged) auto
  next
    case 2
    show ?thesis
    proof (cases r)
      case (Inl e)
      with 2 ins insert_note_Inl [OF ins [unfolded Inl]] show ?thesis
        by (intro unchanged [of "Note_store_failed e"]) (auto simp: persist_note_def saga sg_def)
    next
      case (Inr i)
      with insert_note_Inr [of _ _ _ _ _ _ _ i t] ins have i: "i = ne_note_id env" by blast
      from 2 ins [unfolded Inr] have
        "cs_sagas st' = sagas \<and> (if ne_graph_up env
           then res = Inr \<lparr>sv_note_id = i, sv_saga_id = sg\<rparr> \<and> cs_notes st' = marked_old env req i t
             \<and> cs_graph st' = snd (create_note_node True i (sq_repo req) (sq_branch req) (sq_category req) (cs_graph st))
           else res = Inl (Graph_failed i) \<and> cs_graph st' = cs_graph st
             \<and> cs_notes st' = snd (delete_note_row (ne_up env Call_compensate) i (sq_repo req) (marked_old env req i t)))"
        by (auto simp: persist_note_def saga sg_def create_note_node_def Let_def)
      with ins [unfolded Inr i] v i show ?thesis by (intro inserted [of sagas sg v t]) auto
    qed
  qed
qed

text \<open>C32. A failed save can hide another note. The graph refuses the node of the new note, the service removes the new row and reports the
  failure, but the note it was to supersede stays marked: invalid, superseded by a note that does not exist, and no longer a candidate of the
  duplicate check.\<close>

theorem failed_save_hides_superseded:
  assumes run: "save_note env req st = (Inl (Graph_failed i), st')"
    and "sq_supersedes req = Some old" and "ne_up env Call_mark" and "ne_up env Call_compensate"
    and r: "r \<in> set (cs_notes st)" "nt_id r = old"
  shows "i \<notin> nt_id ` set (cs_notes st')
    \<and> r\<lparr>nt_invalid_at := Some (ne_now env), nt_superseded_by := Some i\<rparr> \<in> set (cs_notes st')
    \<and> (\<forall>repo. old \<notin> nt_id ` set (dedup_candidates repo (cs_notes st')))"
  using run
proof (cases rule: save_note_cases)
  case (inserted t sagas saga v)
  from insert_note_Inr [OF inserted(1)] obtain n where n: "t = cs_notes st @ [n]" "nt_id n = ne_note_id env"
    "nt_repo n = sq_repo req" and fresh: "ne_note_id env \<notin> nt_id ` set (cs_notes st)"
    by (auto simp: insert_row_of_def)
  have down: "\<not> ne_graph_up env" and i: "i = ne_note_id env"
    using inserted(4) by (auto split: if_splits)
  let ?mark = "\<lambda>r. r\<lparr>nt_invalid_at := Some (ne_now env), nt_superseded_by := Some i\<rparr>"
  have other: "x \<in> set (cs_notes st) \<Longrightarrow> nt_id x \<noteq> i" for x using fresh i by (metis imageI)
  then have "old \<noteq> i" using r by blast
  have "cs_notes st' = delete_where (note_of i (sq_repo req)) (update_where (\<lambda>r. nt_id r = old) ?mark t)"
    using inserted(4) down assms(2-4) by (simp add: delete_note_row_def marked_old_def mark_superseded_def i)
  also have "\<dots> = update_where (\<lambda>r. nt_id r = old) ?mark (cs_notes st)"
  proof -
    have "\<forall>x \<in> set (update_where (\<lambda>r. nt_id r = old) ?mark (cs_notes st)). nt_id x \<noteq> i"
      by (rule update_where_all) (use other \<open>old \<noteq> i\<close> in auto)
    moreover have "update_where (\<lambda>r. nt_id r = old) ?mark t = update_where (\<lambda>r. nt_id r = old) ?mark (cs_notes st) @ [n]"
      using n i \<open>old \<noteq> i\<close> by (simp add: update_where_append) (simp add: update_where_def)
    ultimately show ?thesis using n i by (auto simp: delete_where_def note_of_def filter_id_conv)
  qed
  finally have rows: "cs_notes st' = update_where (\<lambda>r. nt_id r = old) ?mark (cs_notes st)" .
  have "map nt_id (cs_notes st') = map nt_id (cs_notes st)" by (simp add: rows map_update_where)
  then have "i \<notin> nt_id ` set (cs_notes st')" using fresh i by (metis set_map)
  moreover have "?mark r \<in> set (cs_notes st')" using r by (auto simp: rows set_update_where)
  moreover have "\<forall>x \<in> set (cs_notes st'). nt_id x = old \<longrightarrow> nt_invalid_at x \<noteq> None"
    unfolding rows by (rule update_where_all) simp_all
  then have "old \<notin> nt_id ` set (dedup_candidates repo (cs_notes st'))" for repo
    by (auto simp: dedup_candidates_def)
  ultimately show ?thesis by blast
qed auto

section \<open>Both stores over any history\<close>

datatype ('v, 'f) note_op =
  Save_op "('v, 'f) note_env" save_note_request
  | Update_op "('v, 'f) note_env" string uuid note_patch
  | Delete_op "('v, 'f) note_env" string uuid
  | Supersede_op "('v, 'f) note_env" uuid uuid

fun note_step :: "('v, 'f) note_op \<Rightarrow> ('v, 'f) curation_state \<Rightarrow> ('v, 'f) curation_state" where
  "note_step (Save_op env req) st = snd (save_note env req st)"
| "note_step (Update_op env repo i p) st = snd (update_note env repo i p st)"
| "note_step (Delete_op env repo i) st = snd (delete_note env repo i st)"
| "note_step (Supersede_op env old new) st = snd (supersede_note env old new st)"

text \<open>The one call a save needs when the graph fails it: the delete that compensates.\<close>

fun compensates :: "('v, 'f) note_op \<Rightarrow> bool" where
  "compensates (Save_op env req) \<longleftrightarrow> ne_up env Call_compensate"
| "compensates _ \<longleftrightarrow> True"

definition empty_curation :: "string list \<Rightarrow> ('v, 'f) curation_state" where
  "empty_curation categories =
     \<lparr>cs_notes = [], cs_sagas = [], cs_graph = \<lparr>ng_notes = [], ng_categories = categories, ng_supersedes = []\<rparr>\<rparr>"

text \<open>Ids are unique and every row of the table has its node in the graph.\<close>

definition stores_agree :: "('v, 'f) curation_state \<Rightarrow> bool" where
  "stores_agree st \<longleftrightarrow> distinct (map nt_id (cs_notes st))
     \<and> nt_id ` set (cs_notes st) \<subseteq> nn_pg_id ` set (ng_notes (cs_graph st))"

lemma stores_agree_ids:
  assumes "stores_agree st" and ids: "map nt_id (cs_notes st') = map nt_id (cs_notes st)"
    and "nn_pg_id ` set (ng_notes (cs_graph st)) \<subseteq> nn_pg_id ` set (ng_notes (cs_graph st'))"
  shows "stores_agree st'"
proof -
  have "set (map nt_id (cs_notes st')) = set (map nt_id (cs_notes st))" by (simp only: ids)
  with assms(1) have "nt_id ` set (cs_notes st') \<subseteq> nn_pg_id ` set (ng_notes (cs_graph st))"
    by (simp add: stores_agree_def)
  then have "nt_id ` set (cs_notes st') \<subseteq> nn_pg_id ` set (ng_notes (cs_graph st'))"
    using assms(3) by (rule order_trans)
  with assms(1) ids show ?thesis by (simp add: stores_agree_def)
qed

lemma save_stores_agree:
  assumes inv: "stores_agree st" and "ne_up env Call_compensate" and run: "save_note env req st = (res, st')"
  shows "stores_agree st'"
  using run
proof (cases rule: save_note_cases)
  case unchanged
  with inv show ?thesis by (simp add: stores_agree_def)
next
  case (inserted t sagas saga v)
  from insert_note_Inr [OF inserted(1)] obtain n where n: "t = cs_notes st @ [n]" "nt_id n = ne_note_id env"
    "nt_repo n = sq_repo req" and fresh: "ne_note_id env \<notin> nt_id ` set (cs_notes st)"
    by (auto simp: insert_row_of_def)
  let ?m = "marked_old env req (ne_note_id env) t"
  have ids: "map nt_id ?m = map nt_id (cs_notes st) @ [ne_note_id env]" by (simp add: n)
  have dist: "distinct (map nt_id ?m)" using inv fresh unfolding ids by (auto simp: stores_agree_def)
  have mem: "nt_id ` set ?m = insert (ne_note_id env) (nt_id ` set (cs_notes st))"
    by (simp only: set_map [symmetric] ids) simp
  show ?thesis
  proof (cases "ne_graph_up env")
    case True
    with inserted(4) dist mem inv show ?thesis
      by (auto simp: stores_agree_def create_note_node_def image_iff)
  next
    case False
    have other: "x \<in> set (cs_notes st) \<Longrightarrow> nt_id x \<noteq> ne_note_id env" for x using fresh by (metis imageI)
    have kept: "\<forall>r \<in> set ?m. nt_id r = ne_note_id env \<longrightarrow> nt_repo r = sq_repo req"
      using n other by (auto simp: marked_old_def mark_superseded_def set_update_where split: option.splits)
    from False inserted(4) assms(2) have rows: "cs_notes st' = delete_where (note_of (ne_note_id env) (sq_repo req)) ?m"
      and graph: "cs_graph st' = cs_graph st"
      by (simp_all add: delete_note_row_def)
    have "distinct (map nt_id (cs_notes st'))"
      using dist unfolding rows delete_where_def by (rule distinct_map_filter)
    moreover have sub: "nt_id ` set (cs_notes st') \<subseteq> nt_id ` set (cs_notes st)"
    proof
      fix x assume "x \<in> nt_id ` set (cs_notes st')"
      then obtain r where r: "x = nt_id r" "r \<in> set (cs_notes st')" by blast
      then have "r \<in> set ?m" and "\<not> note_of (ne_note_id env) (sq_repo req) r"
        by (auto simp: rows delete_where_def)
      then have "nt_id r \<noteq> ne_note_id env" using kept by (auto simp: note_of_def)
      moreover have "nt_id r \<in> insert (ne_note_id env) (nt_id ` set (cs_notes st))"
        using \<open>r \<in> set ?m\<close> mem by blast
      ultimately show "x \<in> nt_id ` set (cs_notes st)" using r by blast
    qed
    moreover note order_trans [OF sub]
    ultimately show ?thesis using inv graph by (simp add: stores_agree_def)
  qed
qed

lemma update_stores_agree:
  assumes inv: "stores_agree st" and run: "update_note env repo i p st = (res, st')"
  shows "stores_agree st'"
  using run
proof (cases rule: update_note_cases)
  case (updated v)
  show ?thesis
  proof (rule stores_agree_ids [OF inv])
    show "map nt_id (cs_notes st') = map nt_id (cs_notes st)"
      using updated(6) by (simp add: map_update_where patch_note_def Let_def split: option.split)
    have "map nn_pg_id (ng_notes (cs_graph st')) = map nn_pg_id (ng_notes (cs_graph st))"
      using updated(6) by (simp add: mirror_patch_def update_note_node_def map_update_where)
    then show "nn_pg_id ` set (ng_notes (cs_graph st)) \<subseteq> nn_pg_id ` set (ng_notes (cs_graph st'))"
      by (metis set_map order_refl)
  qed
qed (use inv in simp)

lemma delete_stores_agree:
  assumes inv: "stores_agree st" and run: "delete_note env repo i st = (res, st')"
  shows "stores_agree st'"
proof -
  have keep: "delete_where (note_of i repo) (cs_notes st) = cs_notes st" if "rows_affected (note_of i repo) (cs_notes st) = 0"
    using that by (auto simp: rows_affected_def delete_where_def filter_empty_conv filter_id_conv)
  from run consider "cs_notes st' = cs_notes st" "cs_graph st' = cs_graph st"
    | "cs_notes st' = delete_where (note_of i repo) (cs_notes st)" "\<exists>r \<in> set (cs_notes st). note_of i repo r"
      "cs_graph st' = detach_delete_note (ne_graph_up env) i (cs_graph st)"
    using keep by (auto simp: delete_note_def delete_note_row_def rows_affected_pos split: if_splits)
  then show ?thesis
  proof cases
    case 1
    with inv show ?thesis by (simp add: stores_agree_def)
  next
    case 2
    have dist: "distinct (map nt_id (cs_notes st'))"
      using inv unfolding 2(1) delete_where_def stores_agree_def by (blast intro: distinct_map_filter)
    have "nt_id r \<noteq> i \<and> r \<in> set (cs_notes st)" if "r \<in> set (cs_notes st')" for r
    proof -
      from 2(2) obtain d where d: "d \<in> set (cs_notes st)" "nt_id d = i" "nt_repo d = repo" by (auto simp: note_of_def)
      from that have r: "r \<in> set (cs_notes st)" "\<not> note_of i repo r" by (auto simp: 2(1) delete_where_def)
      have "nt_id r = i \<Longrightarrow> r = d"
        using inv r(1) d(1,2) unfolding stores_agree_def by (metis distinct_map inj_onD)
      then show ?thesis using r d by (auto simp: note_of_def)
    qed
    moreover have "x \<in> nn_pg_id ` set (ng_notes (cs_graph st'))" if "x \<in> nn_pg_id ` set (ng_notes (cs_graph st))" "x \<noteq> i" for x
      using that by (auto simp: 2(3) detach_delete_note_def delete_where_def)
    ultimately have "nt_id ` set (cs_notes st') \<subseteq> nn_pg_id ` set (ng_notes (cs_graph st'))"
      using inv unfolding stores_agree_def by blast
    with dist show ?thesis by (simp add: stores_agree_def)
  qed
qed

lemma supersede_stores_agree:
  assumes inv: "stores_agree st" and run: "supersede_note env old new st = (res, st')"
  shows "stores_agree st'"
proof -
  have "map nt_id (cs_notes st') = map nt_id (cs_notes st) \<and> ng_notes (cs_graph st') = ng_notes (cs_graph st)"
    using run
    by (auto simp: supersede_note_def note_exists_def mark_superseded_def unmark_superseded_def create_supersedes_edge_def
        map_update_where split: if_splits bool.splits)
  with inv show ?thesis by (intro stores_agree_ids [OF inv]) simp_all
qed

text \<open>C33. Over any history of saves, updates, deletes and supersessions, with any call of any of them failing, every note of PostgreSQL has
  its node in the graph, as long as the compensating delete of a failed save goes through. The converse fails: a delete whose graph call
  fails leaves its node.\<close>

theorem notes_have_nodes:
  assumes "list_all compensates ops"
  shows "stores_agree (fold note_step ops (empty_curation categories))"
proof -
  have "stores_agree st \<Longrightarrow> compensates p \<Longrightarrow> stores_agree (note_step p st)" for p and st :: "('a, 'b) curation_state"
    by (cases p) (metis note_step.simps compensates.simps prod.collapse
        save_stores_agree update_stores_agree delete_stores_agree supersede_stores_agree)+
  then have "stores_agree st \<Longrightarrow> stores_agree (fold note_step ops st)" for st :: "('a, 'b) curation_state"
    using assms by (induction ops arbitrary: st) auto
  then show ?thesis by (auto simp: stores_agree_def empty_curation_def)
qed

text \<open>Nodes without a row: what a delete whose graph call fails leaves behind.\<close>

definition orphan_nodes :: "('v, 'f) curation_state \<Rightarrow> uuid list" where
  "orphan_nodes st = filter (\<lambda>i. i \<notin> nt_id ` set (cs_notes st)) (map nn_pg_id (ng_notes (cs_graph st)))"

section \<open>Listing\<close>

text \<open>The pages of one size tile the filtered listing: no note is skipped or shown twice, and the total is its length.\<close>

lemma concat_pages: "0 < lim \<Longrightarrow> length xs \<le> n * lim \<Longrightarrow> concat (map (\<lambda>k. take lim (drop (k * lim) xs)) [0..<n]) = xs"
proof (induction n arbitrary: xs)
  case (Suc n)
  have "map (\<lambda>k. take lim (drop (k * lim) xs)) [0..<Suc n]
      = take lim xs # map (\<lambda>k. take lim (drop (k * lim) (drop lim xs))) [0..<n]"
    by (simp add: upt_conv_Cons map_Suc_upt [symmetric] o_def add.commute del: upt_Suc)
  with Suc.IH [of "drop lim xs"] Suc.prems show ?case by (simp add: le_diff_conv add.commute del: upt_Suc)
qed simp

lemma note_pages_tile:
  assumes "0 < lim" and "length (listed_notes repo branch category t) \<le> n * lim"
  shows "concat (map (\<lambda>k. snd (projr (list_notes_paginated True repo branch category (k * lim) lim t))) [0..<n])
     = listed_notes repo branch category t"
  using concat_pages [OF assms] by (simp add: list_notes_paginated_def)

section \<open>Instances\<close>

definition demo_env :: "bool \<Rightarrow> uuid \<Rightarrow> (string, nat) note_env" where
  "demo_env graph_up i =
     \<lparr>ne_up = (\<lambda>_. True), ne_graph_up = graph_up, ne_now = 7, ne_embed = Inr,
      ne_pick = (\<lambda>v rows. case rows of [] \<Rightarrow> None | r # _ \<Rightarrow> Some r), ne_similarity = (\<lambda>v w. if v = w then 100 else 0),
      ne_ge = (\<lambda>a b. b \<le> a), ne_cent = id, ne_decimal = (\<lambda>u. u \<in> {''0'', ''1'', ''2''}), ne_note_id = i, ne_saga_id = 90\<rparr>"

definition demo_request :: "string \<Rightarrow> uuid option \<Rightarrow> save_note_request" where
  "demo_request content old =
     \<lparr>sq_repo = ''r'', sq_branch = ''wp/AB/12'', sq_category = ''DECISION'', sq_title = ''t'', sq_summary = ''s'', sq_content = content,
      sq_facts = [], sq_related_symbols = [], sq_related_files = [], sq_tags = [], sq_issue_ref = None, sq_topic = None,
      sq_supersedes = old, sq_skip_dedup = False\<rparr>"

definition demo_patch :: note_patch where
  "demo_patch = \<lparr>pt_title = Some ''t2'', pt_summary = Some ''s2'', pt_content = Some ''c2'', pt_facts = None, pt_related_symbols = None,
     pt_related_files = None, pt_tags = None, pt_category = Some ''CONFIG'', pt_supersedes = None\<rparr>"

definition demo_note :: "uuid \<Rightarrow> string \<Rightarrow> (string, nat) note_row" where
  "demo_note i content =
     \<lparr>nt_id = i, nt_repo = ''r'', nt_branch = Some ''wp/AB/12'', nt_category = ''DECISION'', nt_title = Some ''t'', nt_summary = Some ''s'',
      nt_content = content, nt_facts = Some [], nt_embedding = embed_text ''t'' ''s'' content, nt_related_symbols = Some [],
      nt_related_files = Some [], nt_tags = Some [], nt_saga_id = Some 90, nt_created_at = 7, nt_updated_at = 7, nt_staleness = Some 0,
      nt_reasons = Some [], nt_access_count = Some 0, nt_archived = Some False, nt_invalid_at = None, nt_superseded_by = None\<rparr>"

definition demo_node :: "uuid \<Rightarrow> note_node" where
  "demo_node i = \<lparr>nn_pg_id = i, nn_repo = ''r'', nn_branch = ''wp/AB/12'', nn_title = None, nn_category = None,
     nn_tagged_as = Some ''DECISION''\<rparr>"

definition demo_state :: "(string, nat) curation_state" where
  "demo_state =
     \<lparr>cs_notes = [demo_note 1 ''a'', demo_note 2 ''b''],
      cs_sagas = [\<lparr>kg_id = 90, kg_type = ''knowledge'', kg_repo = ''r'', kg_name = Some ''branch:AB-12'', kg_source_type = Some ''branch'',
                   kg_source_ref = Some ''AB-12'', kg_status = ''open''\<rparr>],
      cs_graph = \<lparr>ng_notes = [demo_node 1, demo_node 2], ng_categories = [''DECISION''], ng_supersedes = []\<rparr>\<rparr>"

lemmas demo_defs = demo_env_def demo_request_def demo_patch_def demo_note_def demo_node_def demo_state_def

lemma demo_saves:
  "fold note_step [Save_op (demo_env True 1) (demo_request ''a'' None), Save_op (demo_env True 2) (demo_request ''b'' None)]
     (empty_curation [''DECISION'']) = demo_state"
  by (code_simp)

lemma demo_failed_save:
  "fst (save_note (demo_env False 3) (demo_request ''c'' (Some 1)) demo_state) = Inl (Graph_failed 3)"
  by code_simp

theorem update_note_all_or_nothing_witness:
  "\<exists>v. cs_notes (snd (update_note (demo_env True 0) ''r'' 2 demo_patch demo_state))
     = [demo_note 1 ''a'', (demo_note 2 ''b'')\<lparr>nt_title := Some ''t2'', nt_summary := Some ''s2'', nt_content := ''c2'', nt_category := ''CONFIG'',
          nt_tags := None, nt_updated_at := 7, nt_embedding := v\<rparr>] \<and> v = embed_text ''t2'' ''s2'' ''c2''"
proof -
  let ?run = "update_note (demo_env True 0) ''r'' 2 demo_patch demo_state"
  have ok: "fst ?run = Inr ()" by code_simp
  have keys: "distinct (map nt_id (cs_notes demo_state))" by (simp add: demo_defs)
  have patch: "pt_title demo_patch = Some ''t2''" "pt_summary demo_patch = Some ''s2''" "pt_content demo_patch = Some ''c2''"
    "pt_category demo_patch = Some ''CONFIG''" "pt_tags demo_patch = None"
    and env: "ne_embed (demo_env True 0) = Inr" "ne_now (demo_env True 0) = 7"
    by (simp_all add: demo_patch_def demo_env_def)
  have "?run = (fst ?run, snd ?run)" by simp
  from update_note_all_or_nothing [OF keys this patch(1-4)] obtain pre cur post v where
    rows: "cs_notes demo_state = pre @ cur # post" "note_of 2 ''r'' cur" "v = embed_text ''t2'' ''s2'' ''c2''"
    "cs_notes (snd ?run) = pre @ cur\<lparr>nt_title := Some ''t2'', nt_summary := Some ''s2'', nt_content := ''c2'', nt_category := ''CONFIG'',
       nt_tags := None, nt_updated_at := 7, nt_embedding := v\<rparr> # post"
    using ok patch(5) env by auto
  have "pre = [demo_note 1 ''a''] \<and> cur = demo_note 2 ''b'' \<and> post = []"
    using rows(1,2) by (auto simp: demo_state_def demo_note_def note_of_def Cons_eq_append_conv)
  with rows(3,4) show ?thesis by auto
qed

theorem supersede_note_refines_atomic_witness:
  "fst (supersede_note (demo_env True 0) 1 2 demo_state) = Inr ()
   \<and> cs_graph (snd (supersede_note (demo_env True 0) 1 2 demo_state)) = (cs_graph demo_state)\<lparr>ng_supersedes := [(2, 1)]\<rparr>"
proof -
  have "supersede_note (demo_env True 0) 1 2 demo_state = supersede_atomically (demo_env True 0) 1 2 demo_state"
    by (rule supersede_note_refines_atomic) (simp_all add: demo_defs)
  then show ?thesis by (simp add: supersede_atomically_def supersede_failure_def superseded_state_def demo_defs)
qed

theorem failed_save_hides_superseded_witness:
  "3 \<notin> nt_id ` set (cs_notes (snd (save_note (demo_env False 3) (demo_request ''c'' (Some 1)) demo_state)))
   \<and> (demo_note 1 ''a'')\<lparr>nt_invalid_at := Some 7, nt_superseded_by := Some 3\<rparr>
       \<in> set (cs_notes (snd (save_note (demo_env False 3) (demo_request ''c'' (Some 1)) demo_state)))"
proof -
  let ?run = "save_note (demo_env False 3) (demo_request ''c'' (Some 1)) demo_state"
  have run: "?run = (Inl (Graph_failed 3), snd ?run)" using demo_failed_save by (metis prod.collapse)
  have "ne_now (demo_env False 3) = 7" by (simp add: demo_env_def)
  with failed_save_hides_superseded [OF run, of 1 "demo_note 1 ''a''"] show ?thesis
    by (simp add: demo_env_def demo_request_def demo_state_def demo_note_def)
qed

theorem notes_have_nodes_witness: "stores_agree demo_state"
proof -
  have "list_all compensates [Save_op (demo_env True 1) (demo_request ''a'' None), Save_op (demo_env True 2) (demo_request ''b'' None)]"
    by (simp add: demo_env_def)
  from notes_have_nodes [OF this, of "[''DECISION'']"] show ?thesis unfolding demo_saves .
qed

lemma delete_leaves_orphan: "orphan_nodes (snd (delete_note (demo_env False 0) ''r'' 1 demo_state)) = [1]"
  by code_simp

end
