(* ===== verification/Corpus_Store.thy ===== *)
theory Corpus_Store
  imports Corpus_Contract
begin

text \<open>
  The store of documentation corpora (\<open>PgCorpusStore\<close> of \<open>akashic-store-pg/src/repos/corpus.rs\<close>, the tables \<open>corpus_versions\<close> and
  \<open>corpus_files\<close>, \<open>akashic-domain/src/types/corpus.rs\<close>): inserting a version in one transaction, resolving a selector, the derive status.

  \<open>up\<close> says which statements reach the database; a transaction that is dropped changes nothing. SHA-256 is an argument. Text is ordered
  by its bytes. The unique indexes are checked by the statement that inserts the row; an insertion that PostgreSQL refuses for its values (a
  NUL character in a text, an index row over 2704 bytes) is a statement that does not reach the database, so which values those are is left to
  \<open>up\<close>.
\<close>

section \<open>The tables\<close>

datatype derive_status = Pending | Running | Complete | Failed | Superseded

fun derive_status_str :: "derive_status \<Rightarrow> string" where
  "derive_status_str Pending = ''pending''"
| "derive_status_str Running = ''running''"
| "derive_status_str Complete = ''complete''"
| "derive_status_str Failed = ''failed''"
| "derive_status_str Superseded = ''superseded''"

definition parse_derive_status :: "string \<Rightarrow> derive_status option" where
  "parse_derive_status s =
     (if s = ''pending'' then Some Pending else if s = ''running'' then Some Running else if s = ''complete'' then Some Complete
      else if s = ''failed'' then Some Failed else if s = ''superseded'' then Some Superseded else None)"

lemma derive_status_roundtrip [simp]: "parse_derive_status (derive_status_str d) = Some d"
  by (cases d) (simp_all add: parse_derive_status_def)

lemma parse_derive_status_simps [simp]:
  "parse_derive_status ''pending'' = Some Pending" "parse_derive_status ''running'' = Some Running"
  by (simp_all add: parse_derive_status_def)

datatype corpus_source = Push | Pull

fun corpus_source_str :: "corpus_source \<Rightarrow> string" where
  "corpus_source_str Push = ''push''"
| "corpus_source_str Pull = ''pull''"

record corpus_manifest =
  mf_repo :: string
  mf_version :: string
  mf_sha :: string
  mf_index :: string
  mf_languages :: "string list"
  mf_tool_version :: string

record new_corpus_file =
  fl_path :: string
  fl_content :: string
  fl_is_markdown :: bool

record new_corpus_version =
  nv_manifest :: corpus_manifest
  nv_nav :: nav_tree
  nv_source :: corpus_source
  nv_is_tagged :: bool
  nv_files :: "new_corpus_file list"

record version_row =
  vr_id :: uuid
  vr_repo :: string
  vr_version :: string
  vr_sha :: string
  vr_manifest :: corpus_manifest
  vr_nav :: nav_tree
  vr_source :: string
  vr_page_count :: int
  vr_asset_count :: int
  vr_total_bytes :: int
  vr_is_latest :: bool
  vr_is_tagged :: bool
  vr_derive_status :: string
  vr_derive_error :: "string option"
  vr_derive_job_id :: "uuid option"
  vr_ingested_at :: instant

record file_row =
  fr_version_id :: uuid
  fr_path :: string
  fr_content :: string
  fr_content_hash :: string
  fr_size_bytes :: int
  fr_is_markdown :: bool

record corpus_db =
  cd_versions :: "version_row list"
  cd_files :: "file_row list"

record corpus_version_meta =
  cm_id :: uuid
  cm_repo :: string
  cm_version :: string
  cm_sha :: string
  cm_is_latest :: bool
  cm_is_tagged :: bool
  cm_derive_status :: derive_status
  cm_ingested_at :: instant
  cm_page_count :: "int option"
  cm_asset_count :: "int option"
  cm_index_path :: string

text \<open>\<open>manifest->>'index'\<close> of a stored manifest is its index.\<close>

definition row_to_meta :: "version_row \<Rightarrow> corpus_version_meta option" where
  "row_to_meta r =
     map_option (\<lambda>d. \<lparr>cm_id = vr_id r, cm_repo = vr_repo r, cm_version = vr_version r, cm_sha = vr_sha r, cm_is_latest = vr_is_latest r,
        cm_is_tagged = vr_is_tagged r, cm_derive_status = d, cm_ingested_at = vr_ingested_at r, cm_page_count = Some (vr_page_count r),
        cm_asset_count = Some (vr_asset_count r), cm_index_path = mf_index (vr_manifest r)\<rparr>)
       (parse_derive_status (vr_derive_status r))"

section \<open>Inserting a version\<close>

datatype corpus_call = Begin_call | Flip_call | Insert_call | Rollback_call | Refetch_call | File_call nat | Commit_call

datatype insert_outcome = Inserted corpus_version_meta | Existing corpus_version_meta

definition same_key :: "string \<Rightarrow> string \<Rightarrow> version_row \<Rightarrow> bool" where
  "same_key repo sha r \<longleftrightarrow> vr_repo r = repo \<and> vr_sha r = sha"

definition flip_latest :: "string \<Rightarrow> version_row list \<Rightarrow> version_row list" where
  "flip_latest repo = update_where (\<lambda>r. vr_repo r = repo \<and> vr_is_latest r) (\<lambda>r. r\<lparr>vr_is_latest := False\<rparr>)"

definition new_row :: "uuid \<Rightarrow> instant \<Rightarrow> new_corpus_version \<Rightarrow> version_row" where
  "new_row i now v =
     (let m = nv_manifest v; fs = nv_files v in
      \<lparr>vr_id = i, vr_repo = mf_repo m, vr_version = mf_version m, vr_sha = mf_sha m, vr_manifest = m, vr_nav = nv_nav v,
       vr_source = corpus_source_str (nv_source v),
       vr_page_count = int (length (filter fl_is_markdown fs)), vr_asset_count = int (length (filter (\<lambda>f. \<not> fl_is_markdown f) fs)),
       vr_total_bytes = int (sum_list (map (\<lambda>f. length (fl_content f)) fs)),
       vr_is_latest = True, vr_is_tagged = nv_is_tagged v, vr_derive_status = ''pending'', vr_derive_error = None,
       vr_derive_job_id = None, vr_ingested_at = now\<rparr>)"

text \<open>The unique constraints of the table: the key, \<open>(repo_name, sha)\<close> and the partial index \<open>corpus_latest_one\<close>.\<close>

definition insert_row :: "version_row \<Rightarrow> version_row list \<Rightarrow> sql_error + version_row list" where
  "insert_row n t =
     (if (\<exists>r \<in> set t. vr_id r = vr_id n \<or> same_key (vr_repo n) (vr_sha n) r \<or> (vr_repo r = vr_repo n \<and> vr_is_latest r \<and> vr_is_latest n))
      then Inl Unique_violation else Inr (t @ [n]))"

definition fetch_meta_by_repo_sha :: "bool \<Rightarrow> string \<Rightarrow> string \<Rightarrow> version_row list \<Rightarrow> corpus_version_meta option" where
  "fetch_meta_by_repo_sha up repo sha t =
     (if \<not> up then None else case fetch_optional (same_key repo sha) t of None \<Rightarrow> None | Some r \<Rightarrow> row_to_meta r)"

fun insert_files ::
  "(corpus_call \<Rightarrow> bool) \<Rightarrow> (string \<Rightarrow> string) \<Rightarrow> uuid \<Rightarrow> nat \<Rightarrow> new_corpus_file list \<Rightarrow> file_row list \<Rightarrow> file_row list option" where
  "insert_files up sha256 i n [] t = Some t"
| "insert_files up sha256 i n (f # fs) t =
     (if \<not> up (File_call n) \<or> (i, fl_path f) \<in> set (map (\<lambda>r. (fr_version_id r, fr_path r)) t) then None
      else insert_files up sha256 i (Suc n) fs
             (t @ [\<lparr>fr_version_id = i, fr_path = fl_path f, fr_content = fl_content f, fr_content_hash = sha256 (fl_content f),
                    fr_size_bytes = int (length (fl_content f)), fr_is_markdown = fl_is_markdown f\<rparr>]))"

definition inserted_meta :: "uuid \<Rightarrow> instant \<Rightarrow> new_corpus_version \<Rightarrow> corpus_version_meta" where
  "inserted_meta i now v =
     (let m = nv_manifest v; r = new_row i now v in
      \<lparr>cm_id = i, cm_repo = mf_repo m, cm_version = mf_version m, cm_sha = mf_sha m, cm_is_latest = True, cm_is_tagged = nv_is_tagged v,
       cm_derive_status = Pending, cm_ingested_at = now, cm_page_count = Some (vr_page_count r),
       cm_asset_count = Some (vr_asset_count r), cm_index_path = mf_index m\<rparr>)"

text \<open>\<open>None\<close> is the error of the call. A unique violation of the insertion is taken for a replay of the same repository and SHA.\<close>

definition insert_version ::
  "(corpus_call \<Rightarrow> bool) \<Rightarrow> (string \<Rightarrow> string) \<Rightarrow> uuid \<Rightarrow> instant \<Rightarrow> new_corpus_version \<Rightarrow> corpus_db \<Rightarrow> insert_outcome option \<times> corpus_db" where
  "insert_version up sha256 i now v db =
     (let repo = mf_repo (nv_manifest v); sha = mf_sha (nv_manifest v) in
      if \<not> up Begin_call \<or> \<not> up Flip_call \<or> \<not> up Insert_call then (None, db)
      else case insert_row (new_row i now v) (flip_latest repo (cd_versions db)) of
        Inl _ \<Rightarrow>
          if \<not> up Rollback_call then (None, db)
          else (map_option Existing (fetch_meta_by_repo_sha (up Refetch_call) repo sha (cd_versions db)), db)
      | Inr t \<Rightarrow>
          (case insert_files up sha256 i 0 (nv_files v) (cd_files db) of
             None \<Rightarrow> (None, db)
           | Some fs \<Rightarrow>
               if \<not> up Commit_call then (None, db)
               else (Some (Inserted (inserted_meta i now v)), \<lparr>cd_versions = t, cd_files = fs\<rparr>)))"

section \<open>Reading\<close>

definition latest_row :: "string \<Rightarrow> version_row list \<Rightarrow> version_row option" where
  "latest_row repo = fetch_optional (\<lambda>r. vr_repo r = repo \<and> vr_is_latest r)"

definition first_by :: "(version_row \<Rightarrow> int) \<Rightarrow> version_row list \<Rightarrow> version_row option" where
  "first_by key t = (case sort_key key t of [] \<Rightarrow> None | r # _ \<Rightarrow> Some r)"

text \<open>The outer option is an error (an unknown derive status), the inner one an unknown selector.\<close>

definition resolve_version :: "string \<Rightarrow> string \<Rightarrow> version_row list \<Rightarrow> corpus_version_meta option option" where
  "resolve_version repo selector t =
     (let result = (\<lambda>row. case row of None \<Rightarrow> Some None | Some r \<Rightarrow> map_option Some (row_to_meta r)) in
      if selector = ''latest'' then result (latest_row repo t)
      else case first_by (\<lambda>r. - vr_ingested_at r) (filter (\<lambda>r. vr_repo r = repo \<and> vr_version r = selector) t) of
        Some r \<Rightarrow> result (Some r)
      | None \<Rightarrow>
          if 7 \<le> length selector
          then result (first_by vr_ingested_at (filter (\<lambda>r. vr_repo r = repo \<and> starts_with selector (vr_sha r)) t))
          else Some None)"

definition list_versions :: "string \<Rightarrow> version_row list \<Rightarrow> corpus_version_meta list option" where
  "list_versions repo t =
     those (map row_to_meta (sort_key (\<lambda>r. - vr_ingested_at r) (filter (\<lambda>r. vr_repo r = repo) t)))"

definition list_repos :: "version_row list \<Rightarrow> (string \<times> nat \<times> corpus_version_meta) list option" where
  "list_repos t =
     those (map (\<lambda>r. map_option (\<lambda>m. (vr_repo r, length (filter (\<lambda>v. vr_repo v = vr_repo r) t), m)) (row_to_meta r))
       (sort_key vr_repo (filter vr_is_latest t)))"

definition get_version_by_id :: "uuid \<Rightarrow> version_row list \<Rightarrow> corpus_version_meta option option" where
  "get_version_by_id i t =
     (case fetch_optional (\<lambda>r. vr_id r = i) t of None \<Rightarrow> Some None | Some r \<Rightarrow> map_option Some (row_to_meta r))"

definition get_file :: "uuid \<Rightarrow> string \<Rightarrow> file_row list \<Rightarrow> file_row option" where
  "get_file i path = fetch_optional (\<lambda>r. fr_version_id r = i \<and> fr_path r = path)"

definition get_nav :: "uuid \<Rightarrow> version_row list \<Rightarrow> nav_tree option" where
  "get_nav i t = map_option vr_nav (fetch_optional (\<lambda>r. vr_id r = i) t)"

definition list_md_paths :: "uuid \<Rightarrow> file_row list \<Rightarrow> string list" where
  "list_md_paths i t = sort (map fr_path (filter (\<lambda>r. fr_version_id r = i \<and> fr_is_markdown r) t))"

section \<open>The derive status\<close>

definition set_derive_status :: "uuid \<Rightarrow> derive_status \<Rightarrow> string option \<Rightarrow> uuid option \<Rightarrow> version_row list \<Rightarrow> version_row list" where
  "set_derive_status i status err job =
     update_where (\<lambda>r. vr_id r = i)
       (\<lambda>r. r\<lparr>vr_derive_status := derive_status_str status, vr_derive_error := err, vr_derive_job_id := job\<rparr>)"

definition claimable :: "uuid \<Rightarrow> version_row \<Rightarrow> bool" where
  "claimable i r \<longleftrightarrow> vr_id r = i \<and> vr_derive_status r \<noteq> ''running''"

definition claim_derive_running :: "uuid \<Rightarrow> uuid option \<Rightarrow> version_row list \<Rightarrow> bool \<times> version_row list" where
  "claim_derive_running i job t =
     (0 < rows_affected (claimable i) t,
      update_where (claimable i) (\<lambda>r. r\<lparr>vr_derive_status := ''running'', vr_derive_error := None, vr_derive_job_id := job\<rparr>) t)"

section \<open>What the store keeps\<close>

text \<open>Keys are unique, every repository with a version has exactly one latest version, the files belong to versions, and every derive status
  is one the code knows.\<close>

definition one_latest :: "version_row list \<Rightarrow> bool" where
  "one_latest t \<longleftrightarrow> distinct (map vr_repo (filter vr_is_latest t)) \<and> vr_repo ` set t \<subseteq> vr_repo ` set (filter vr_is_latest t)"

definition versions_ok :: "version_row list \<Rightarrow> bool" where
  "versions_ok t \<longleftrightarrow> distinct (map vr_id t) \<and> distinct (map (\<lambda>r. (vr_repo r, vr_sha r)) t) \<and> one_latest t
     \<and> (\<forall>r \<in> set t. parse_derive_status (vr_derive_status r) \<noteq> None)"

definition files_ok :: "uuid set \<Rightarrow> file_row list \<Rightarrow> bool" where
  "files_ok ids fs \<longleftrightarrow> distinct (map (\<lambda>r. (fr_version_id r, fr_path r)) fs) \<and> (\<forall>r \<in> set fs. fr_version_id r \<in> ids)"

definition corpus_inv :: "corpus_db \<Rightarrow> bool" where
  "corpus_inv db \<longleftrightarrow> versions_ok (cd_versions db) \<and> files_ok (vr_id ` set (cd_versions db)) (cd_files db)"

definition unlatest :: "string \<Rightarrow> version_row \<Rightarrow> version_row" where
  "unlatest repo r = (if vr_repo r = repo \<and> vr_is_latest r then r\<lparr>vr_is_latest := False\<rparr> else r)"

lemma flip_map: "flip_latest repo = map (unlatest repo)"
  by (simp add: fun_eq_iff flip_latest_def update_where_def unlatest_def)

lemma unlatest_simps [simp]:
  "vr_id (unlatest repo r) = vr_id r" "vr_repo (unlatest repo r) = vr_repo r" "vr_sha (unlatest repo r) = vr_sha r"
  "vr_derive_status (unlatest repo r) = vr_derive_status r" "same_key a b (unlatest repo r) = same_key a b r"
  "vr_is_latest (unlatest repo r) \<longleftrightarrow> vr_is_latest r \<and> vr_repo r \<noteq> repo"
  by (auto simp: unlatest_def same_key_def)

lemma unlatest_other [simp]: "vr_repo r \<noteq> repo \<Longrightarrow> unlatest repo r = r"
  by (simp add: unlatest_def)

lemma flip_filter: "filter vr_is_latest (flip_latest repo t) = filter (\<lambda>r. vr_repo r \<noteq> repo) (filter vr_is_latest t)"
  by (induction t) (auto simp: flip_map)

lemma flip_latest_row: "repo' \<noteq> repo \<Longrightarrow> latest_row repo' (flip_latest repo t) = latest_row repo' t"
  by (induction t) (auto simp: latest_row_def flip_map fetch_optional_def)

lemma new_row_simps [simp]:
  "vr_id (new_row i now v) = i" "vr_repo (new_row i now v) = mf_repo (nv_manifest v)" "vr_sha (new_row i now v) = mf_sha (nv_manifest v)"
  "vr_is_latest (new_row i now v)" "vr_derive_status (new_row i now v) = ''pending''"
  by (simp_all add: new_row_def Let_def)

lemma new_row_meta: "row_to_meta (new_row i now v) = Some (inserted_meta i now v)"
  by (simp add: row_to_meta_def new_row_def inserted_meta_def Let_def parse_derive_status_def)

text \<open>A run of its own meets a violation exactly for a replay.\<close>

lemma insert_row_flipped:
  assumes "i \<notin> vr_id ` set t"
  shows "insert_row (new_row i now v) (flip_latest (mf_repo (nv_manifest v)) t) =
    (if \<exists>r \<in> set t. same_key (mf_repo (nv_manifest v)) (mf_sha (nv_manifest v)) r then Inl Unique_violation
     else Inr (flip_latest (mf_repo (nv_manifest v)) t @ [new_row i now v]))"
proof -
  have "\<forall>r \<in> set t. vr_id r \<noteq> i" using assms by blast
  then show ?thesis by (auto simp: insert_row_def flip_map)
qed

lemma insert_files_ok:
  assumes "files_ok ids t" and "i \<in> ids" and "insert_files up sha256 i n fs t = Some t'"
  shows "files_ok ids t'"
  using assms
proof (induction fs arbitrary: n t)
  case (Cons f fs)
  let ?r = "\<lparr>fr_version_id = i, fr_path = fl_path f, fr_content = fl_content f, fr_content_hash = sha256 (fl_content f),
    fr_size_bytes = int (length (fl_content f)), fr_is_markdown = fl_is_markdown f\<rparr>"
  from Cons.prems have "files_ok ids (t @ [?r])" by (auto simp: files_ok_def split: if_splits)
  with Cons.IH [of "t @ [?r]" "Suc n"] Cons.prems show ?case by (simp split: if_splits)
qed simp

lemma insert_files_rows:
  assumes "insert_files up sha256 i n fs t = Some t'"
  shows "map (\<lambda>r. (fr_path r, fr_content r, fr_is_markdown r)) (filter (\<lambda>r. fr_version_id r = i) t')
      = map (\<lambda>r. (fr_path r, fr_content r, fr_is_markdown r)) (filter (\<lambda>r. fr_version_id r = i) t)
        @ map (\<lambda>f. (fl_path f, fl_content f, fl_is_markdown f)) fs"
  using assms by (induction fs arbitrary: n t) (auto split: if_splits)

lemma insert_files_keeps:
  assumes "insert_files up sha256 i n fs t = Some t'"
  shows "filter (\<lambda>r. fr_version_id r \<noteq> i) t' = filter (\<lambda>r. fr_version_id r \<noteq> i) t"
  using assms by (induction fs arbitrary: n t) (auto split: if_splits)

lemma versions_ok_added:
  assumes ok: "versions_ok t" and fresh: "\<forall>r \<in> set t. vr_id r \<noteq> i" and v: "mf_repo (nv_manifest v) = repo"
    and new: "\<forall>r \<in> set t. \<not> same_key repo (mf_sha (nv_manifest v)) r"
  shows "versions_ok (flip_latest repo t @ [new_row i now v])"
proof -
  let ?n = "new_row i now v" and ?f = "flip_latest repo t"
  have "distinct (map vr_id (?f @ [?n]))"
    using ok fresh by (auto simp: versions_ok_def flip_map o_def)
  moreover have "distinct (map (\<lambda>r. (vr_repo r, vr_sha r)) (?f @ [?n]))"
    using ok new v by (auto simp: versions_ok_def flip_map o_def same_key_def)
  moreover have "one_latest (?f @ [?n])"
  proof -
    have "distinct (map vr_repo (filter vr_is_latest ?f))"
      using ok unfolding flip_filter versions_ok_def one_latest_def by (blast intro: distinct_map_filter)
    moreover have "repo \<notin> set (map vr_repo (filter vr_is_latest ?f))" by (auto simp: flip_filter)
    moreover have "vr_repo r \<in> insert repo (vr_repo ` set (filter vr_is_latest ?f))" if "r \<in> set ?f" for r
    proof -
      from that obtain x where x: "x \<in> set t" "vr_repo r = vr_repo x" by (auto simp: flip_map)
      with ok obtain y where "y \<in> set t" "vr_is_latest y" "vr_repo y = vr_repo r"
        unfolding versions_ok_def one_latest_def by (smt (verit) filter_is_subset image_iff mem_Collect_eq set_filter subsetD)
      then show ?thesis by (auto simp: flip_filter image_iff)
    qed
    ultimately show ?thesis using v by (auto simp: one_latest_def)
  qed
  moreover have "\<forall>r \<in> set (?f @ [?n]). parse_derive_status (vr_derive_status r) \<noteq> None"
    using ok by (auto simp: versions_ok_def flip_map)
  ultimately show ?thesis by (simp only: versions_ok_def)
qed

lemma versions_ok_map:
  assumes "versions_ok t"
    and "\<And>r. r \<in> set t \<Longrightarrow> vr_id (f r) = vr_id r \<and> vr_repo (f r) = vr_repo r \<and> vr_sha (f r) = vr_sha r \<and> vr_is_latest (f r) = vr_is_latest r
           \<and> parse_derive_status (vr_derive_status (f r)) \<noteq> None"
  shows "versions_ok (map f t)"
proof -
  have "map vr_id (map f t) = map vr_id t" "map (\<lambda>r. (vr_repo r, vr_sha r)) (map f t) = map (\<lambda>r. (vr_repo r, vr_sha r)) t"
    using assms(2) by simp_all
  moreover have "map vr_repo (filter vr_is_latest (map f t)) = map vr_repo (filter vr_is_latest t)"
    using assms(2) by (induction t) auto
  moreover have "map vr_repo (map f t) = map vr_repo t" using assms(2) by simp
  moreover from this have "vr_repo ` set (map f t) = vr_repo ` set t" by (metis set_map)
  moreover have "\<forall>r \<in> set (map f t). parse_derive_status (vr_derive_status r) \<noteq> None" using assms(2) by auto
  ultimately show ?thesis using assms(1) unfolding versions_ok_def one_latest_def by (metis set_map)
qed

lemma set_derive_status_ok:
  assumes "versions_ok t"
  shows "versions_ok (set_derive_status i st err job t)"
  unfolding set_derive_status_def update_where_def
  by (rule versions_ok_map [OF assms]) (use assms in \<open>auto simp: versions_ok_def\<close>)

lemma claim_derive_ok:
  assumes "versions_ok t"
  shows "versions_ok (snd (claim_derive_running i job t))"
  unfolding claim_derive_running_def update_where_def snd_conv
  by (rule versions_ok_map [OF assms]) (use assms in \<open>auto simp: versions_ok_def\<close>)

text \<open>The ways an insertion ends.\<close>

lemma insert_version_cases:
  assumes fresh: "i \<notin> vr_id ` set (cd_versions db)" and run: "insert_version up sha256 i now v db = (res, db')"
  obtains (unchanged) "res = None" and "db' = db"
  | (replay) r m where "res = Some (Existing m)" and "db' = db" and "row_to_meta r = Some m"
      and "fetch_optional (same_key (mf_repo (nv_manifest v)) (mf_sha (nv_manifest v))) (cd_versions db) = Some r"
  | (inserted) fs where "res = Some (Inserted (inserted_meta i now v))"
      and "db' = \<lparr>cd_versions = flip_latest (mf_repo (nv_manifest v)) (cd_versions db) @ [new_row i now v], cd_files = fs\<rparr>"
      and "\<forall>r \<in> set (cd_versions db). \<not> same_key (mf_repo (nv_manifest v)) (mf_sha (nv_manifest v)) r"
      and "insert_files up sha256 i 0 (nv_files v) (cd_files db) = Some fs"
proof (cases "up Begin_call \<and> up Flip_call \<and> up Insert_call")
  case False
  with run show ?thesis by (intro unchanged) (auto simp: insert_version_def Let_def)
next
  case up: True
  show ?thesis
  proof (cases "\<exists>r \<in> set (cd_versions db). same_key (mf_repo (nv_manifest v)) (mf_sha (nv_manifest v)) r")
    case True
    with run up have out: "(res, db') = (if \<not> up Rollback_call then (None, db)
        else (map_option Existing (fetch_meta_by_repo_sha (up Refetch_call) (mf_repo (nv_manifest v)) (mf_sha (nv_manifest v)) (cd_versions db)), db))"
      by (simp add: insert_version_def Let_def insert_row_flipped [OF fresh])
    show ?thesis
    proof (cases res)
      case None
      with out show ?thesis by (intro unchanged) (auto split: if_splits)
    next
      case (Some r)
      with out show ?thesis
        by (auto simp: fetch_meta_by_repo_sha_def map_option_case split: if_splits option.splits intro: replay)
    qed
  next
    case False
    with run up have out: "(res, db') = (case insert_files up sha256 i 0 (nv_files v) (cd_files db) of
        None \<Rightarrow> (None, db)
      | Some fs \<Rightarrow>
          if \<not> up Commit_call then (None, db)
          else (Some (Inserted (inserted_meta i now v)),
                \<lparr>cd_versions = flip_latest (mf_repo (nv_manifest v)) (cd_versions db) @ [new_row i now v], cd_files = fs\<rparr>))"
      by (simp add: insert_version_def Let_def insert_row_flipped [OF fresh])
    show ?thesis
    proof (cases "insert_files up sha256 i 0 (nv_files v) (cd_files db)")
      case None
      with out show ?thesis by (intro unchanged) auto
    next
      case (Some fs)
      with out False show ?thesis by (cases "up Commit_call") (auto intro: unchanged inserted)
    qed
  qed
qed

lemma insert_version_keeps_inv:
  assumes inv: "corpus_inv db" and fresh: "i \<notin> vr_id ` set (cd_versions db)"
    and run: "insert_version up sha256 i now v db = (res, db')"
  shows "corpus_inv db'"
proof -
  let ?repo = "mf_repo (nv_manifest v)"
  let ?t = "flip_latest ?repo (cd_versions db) @ [new_row i now v]"
  have unused: "\<forall>r \<in> set (cd_versions db). vr_id r \<noteq> i" using fresh by blast
  from fresh run show ?thesis
  proof (cases rule: insert_version_cases)
    case (inserted fs)
    have "versions_ok ?t" using inv by (intro versions_ok_added [OF _ unused refl inserted(3)]) (simp add: corpus_inv_def)
    moreover have "files_ok (vr_id ` set ?t) fs"
    proof (rule insert_files_ok [OF _ _ inserted(4)])
      show "files_ok (vr_id ` set ?t) (cd_files db)"
        using inv by (auto simp: corpus_inv_def files_ok_def flip_map image_image)
      show "i \<in> vr_id ` set ?t" by (auto simp: image_iff)
    qed
    ultimately show ?thesis using inserted by (simp add: corpus_inv_def)
  qed (use inv in simp_all)
qed

text \<open>A key that is taken is a unique violation.\<close>

lemma insert_version_taken:
  assumes "i \<in> vr_id ` set (cd_versions db)"
  shows "snd (insert_version up sha256 i now v db) = db" and "fst (insert_version up sha256 i now v db) \<noteq> Some (Inserted m)"
proof -
  have "insert_row (new_row i now v) (flip_latest repo (cd_versions db)) = Inl Unique_violation" for repo
    using assms by (auto simp: insert_row_def flip_map image_iff)
  then show "snd (insert_version up sha256 i now v db) = db" "fst (insert_version up sha256 i now v db) \<noteq> Some (Inserted m)"
    by (auto simp: insert_version_def Let_def)
qed

text \<open>C34. Inserting a version is a transaction: the invariant of the store holds after it; a new version becomes the latest one of its
  repository, with exactly the files it came with, and the latest versions of the other repositories stay; a replay and an error change nothing,
  and the replay returns the version of the same repository and SHA.\<close>

theorem insert_version_effect:
  assumes inv: "corpus_inv db" and fresh: "i \<notin> vr_id ` set (cd_versions db)"
    and run: "insert_version up sha256 i now v db = (res, db')"
  shows "corpus_inv db' \<and>
    (case res of
       Some (Inserted m) \<Rightarrow>
         resolve_version (mf_repo (nv_manifest v)) ''latest'' (cd_versions db') = Some (Some m) \<and> cm_id m = i
         \<and> map (\<lambda>r. (fr_path r, fr_content r, fr_is_markdown r)) (filter (\<lambda>r. fr_version_id r = i) (cd_files db'))
             = map (\<lambda>f. (fl_path f, fl_content f, fl_is_markdown f)) (nv_files v)
         \<and> (\<forall>repo. repo \<noteq> mf_repo (nv_manifest v) \<longrightarrow> latest_row repo (cd_versions db') = latest_row repo (cd_versions db))
     | Some (Existing m) \<Rightarrow> db' = db \<and> cm_repo m = mf_repo (nv_manifest v) \<and> cm_sha m = mf_sha (nv_manifest v)
     | None \<Rightarrow> db' = db)"
proof -
  let ?repo = "mf_repo (nv_manifest v)" and ?sha = "mf_sha (nv_manifest v)" and ?n = "new_row i now v"
  let ?t = "flip_latest ?repo (cd_versions db) @ [?n]"
  from fresh run show ?thesis
  proof (cases rule: insert_version_cases)
    case unchanged
    with inv show ?thesis by simp
  next
    case (replay r m)
    have "same_key ?repo ?sha r" using fetch_optional_Some [OF replay(4)] by simp
    with replay inv show ?thesis by (auto simp: row_to_meta_def same_key_def)
  next
    case (inserted fs)
    have "corpus_inv db'" by (rule insert_version_keeps_inv [OF inv fresh run])
    moreover have "latest_row ?repo ?t = Some ?n"
      by (simp add: latest_row_def fetch_optional_append flip_map)
        (auto simp: fetch_optional_def find_None_iff split: option.split dest: find_Some_iff [THEN iffD1])
    moreover have "filter (\<lambda>r. fr_version_id r = i) (cd_files db) = []"
      using inv fresh unfolding corpus_inv_def files_ok_def filter_empty_conv by blast
    moreover have "latest_row repo ?t = latest_row repo (cd_versions db)" if "repo \<noteq> ?repo" for repo
      using flip_latest_row [OF that] that
      by (auto simp: latest_row_def fetch_optional_append split: option.split)
    ultimately show ?thesis
      using inserted insert_files_rows [OF inserted(4)]
      by (simp add: resolve_version_def new_row_meta) (simp add: inserted_meta_def Let_def)
  qed
qed

text \<open>The one constraint the code forgets: while another publication of the repository commits between the flip and the insertion, the row it
  left is still latest, the violation is taken for a replay, and the lookup of the replay finds nothing.\<close>

lemma concurrent_publish_refused:
  assumes "r \<in> set t" and "vr_repo r = mf_repo (nv_manifest v)" and "vr_is_latest r"
    and "\<forall>x \<in> set t. \<not> same_key (mf_repo (nv_manifest v)) (mf_sha (nv_manifest v)) x"
  shows "insert_row (new_row i now v) t = Inl Unique_violation"
    and "fetch_meta_by_repo_sha True (mf_repo (nv_manifest v)) (mf_sha (nv_manifest v)) t = None"
  using assms by (auto simp: insert_row_def fetch_meta_by_repo_sha_def fetch_optional_None [THEN iffD2])

text \<open>A running derivation cannot be claimed again.\<close>

lemma claim_running:
  assumes "r \<in> set t" and "vr_id r = i" and "vr_derive_status r = ''running''" and "distinct (map vr_id t)"
  shows "claim_derive_running i job t = (False, t)"
proof -
  have none: "\<not> claimable i x" if "x \<in> set t" for x
    using assms that by (auto simp: claimable_def distinct_map dest: inj_onD)
  then have "rows_affected (claimable i) t = 0" by (simp add: rows_affected_def filter_empty_conv)
  with none show ?thesis by (simp add: claim_derive_running_def update_where_none)
qed

section \<open>An instance\<close>

definition demo_manifest :: "string \<Rightarrow> corpus_manifest" where
  "demo_manifest sha = \<lparr>mf_repo = ''r'', mf_version = ''1.0.0'', mf_sha = sha, mf_index = ''index.md'', mf_languages = [], mf_tool_version = ''t''\<rparr>"

definition demo_version :: "string \<Rightarrow> new_corpus_version" where
  "demo_version sha =
     \<lparr>nv_manifest = demo_manifest sha, nv_nav = \<lparr>nt_description = [], nt_groups = []\<rparr>, nv_source = Push, nv_is_tagged = False,
      nv_files = [\<lparr>fl_path = ''index.md'', fl_content = sha, fl_is_markdown = True\<rparr>]\<rparr>"

definition demo_db :: corpus_db where
  "demo_db = \<lparr>cd_versions = [new_row 1 5 (demo_version ''aaaaaaa'')],
     cd_files = [\<lparr>fr_version_id = 1, fr_path = ''index.md'', fr_content = ''aaaaaaa'', fr_content_hash = ''aaaaaaa'', fr_size_bytes = 7,
                  fr_is_markdown = True\<rparr>]\<rparr>"

lemma demo_inv: "corpus_inv demo_db"
  by (simp add: corpus_inv_def versions_ok_def one_latest_def files_ok_def demo_db_def)

theorem insert_version_effect_witness:
  "latest_row ''r'' (cd_versions (snd (insert_version (\<lambda>_. True) id 2 6 (demo_version ''bbbbbbb'') demo_db)))
     = Some (new_row 2 6 (demo_version ''bbbbbbb''))
   \<and> corpus_inv (snd (insert_version (\<lambda>_. True) id 2 6 (demo_version ''bbbbbbb'') demo_db))"
proof -
  let ?run = "insert_version (\<lambda>_. True) id 2 6 (demo_version ''bbbbbbb'') demo_db"
  have "(2 :: uuid) \<notin> vr_id ` set (cd_versions demo_db)" by (simp add: demo_db_def)
  moreover have "?run = (fst ?run, snd ?run)" by simp
  ultimately have "corpus_inv (snd ?run)" using insert_version_effect [OF demo_inv] by blast
  moreover have "latest_row ''r'' (cd_versions (snd ?run)) = Some (new_row 2 6 (demo_version ''bbbbbbb''))" by code_simp
  ultimately show ?thesis by blast
qed

end
