(* ===== verification/Doc_Sections.thy ===== *)
theory Doc_Sections
  imports Rust_Text
begin

text \<open>
  Markdown pages as trees of sections (\<open>akashic-extraction/src/special/sections.rs\<close>), the unit that the documentation space stores,
  embeds and links.

  The matches of the two regular expressions are fields of \<open>section_regex\<close>: for the headings, the byte offset of the line, the number
  of \<open>#\<close> and the raw title, in ascending order; for the inline code, the identifiers. \<open>u16\<close> casts wrap.
\<close>

record section_regex =
  sx_headings :: "string \<Rightarrow> (nat \<times> nat \<times> string) list"
  sx_inline_code :: "string \<Rightarrow> string list"
  sx_lowercase :: "string \<Rightarrow> string"

record flat_heading =
  fh_heading :: string
  fh_content :: string
  fh_level :: nat

datatype raw_section =
  Raw_section (rs_heading: string) (rs_content: string) (rs_depth: nat) (rs_position: nat) (rs_children: "raw_section list")
    (rs_tags: "string list")

section \<open>Tags\<close>

fun collect_tags :: "string list \<Rightarrow> string list \<Rightarrow> string list" where
  "collect_tags tags [] = tags"
| "collect_tags tags (t # ts) =
     (if t \<in> set tags then collect_tags tags ts
      else let tags = tags @ [t] in if 10 \<le> length tags then tags else collect_tags tags ts)"

definition extract_tags :: "section_regex \<Rightarrow> string \<Rightarrow> string list" where
  "extract_tags rx content = collect_tags [] (map (sx_lowercase rx) (sx_inline_code rx content))"

section \<open>The tree\<close>

lemma length_takeWhile_less: "length (takeWhile P xs) < Suc (length xs)"
  by (simp add: le_imp_less_Suc length_takeWhile_le)

lemma length_dropWhile_less: "length (dropWhile P xs) < Suc (length xs)"
  by (simp add: le_imp_less_Suc length_dropWhile_le)

text \<open>The loop of \<open>build_tree\<close>, with the level of the first heading of its slice and the number of sections pushed so far. It stops at a
  heading of another level.\<close>

function build_siblings :: "section_regex \<Rightarrow> nat \<Rightarrow> nat \<Rightarrow> flat_heading list \<Rightarrow> raw_section list" where
  "build_siblings rx lvl pushed [] = []"
| "build_siblings rx lvl pushed (h # hs) =
     (if fh_level h < lvl then []
      else if lvl < fh_level h then []
      else
        let below = takeWhile (\<lambda>x. lvl < fh_level x) hs;
            children = (case below of [] \<Rightarrow> [] | c # _ \<Rightarrow> build_siblings rx (fh_level c) 0 below)
        in Raw_section (fh_heading h) (fh_content h) (fh_level h - 1) (pushed mod 2 ^ 16) children (extract_tags rx (fh_content h))
           # build_siblings rx lvl (Suc pushed) (dropWhile (\<lambda>x. lvl < fh_level x) hs))"
  by pat_completeness auto

termination
  by (relation "measure (\<lambda>(rx, lvl, pushed, hs). length hs)") (auto simp: length_takeWhile_less length_dropWhile_less)

definition build_tree :: "section_regex \<Rightarrow> flat_heading list \<Rightarrow> raw_section list" where
  "build_tree rx flat = (case flat of [] \<Rightarrow> [] | h # _ \<Rightarrow> build_siblings rx (fh_level h) 0 flat)"

section \<open>Parsing a page\<close>

text \<open>What follows the line at an offset, up to the next heading.\<close>

definition content_start :: "string \<Rightarrow> nat \<Rightarrow> nat" where
  "content_start source start =
     (let line = takeWhile (\<lambda>c. c \<noteq> CHR 0x0A) (drop start source)
      in if start + length line < length source then start + length line + 1 else length source)"

fun flat_headings :: "string \<Rightarrow> (nat \<times> nat \<times> string) list \<Rightarrow> flat_heading list" where
  "flat_headings source [] = []"
| "flat_headings source ((start, level, title) # hs) =
     (let content_end = (case hs of [] \<Rightarrow> length source | (next_start, _) # _ \<Rightarrow> next_start);
          body_start = content_start source start
      in \<lparr>fh_heading = trim title, fh_content = trim (take (content_end - body_start) (drop body_start source)), fh_level = level\<rparr>
         # flat_headings source hs)"

definition parse_markdown_sections :: "section_regex \<Rightarrow> string \<Rightarrow> raw_section list" where
  "parse_markdown_sections rx source =
     (let headings = sx_headings rx source in
      if headings = [] then
        (let content = trim source in [Raw_section ''Content'' content 0 0 [] (extract_tags rx content)])
      else build_tree rx (flat_headings source headings))"


section \<open>What the tree holds\<close>

fun preorder :: "raw_section \<Rightarrow> (string \<times> string \<times> nat) list" where
  "preorder (Raw_section heading content depth position children tags) = (heading, content, depth) # concat (map preorder children)"

definition as_row :: "flat_heading \<Rightarrow> string \<times> string \<times> nat" where
  "as_row h = (fh_heading h, fh_content h, fh_level h - 1)"

text \<open>No heading is more than one level deeper than the one before it.\<close>

fun steps_down :: "nat \<Rightarrow> flat_heading list \<Rightarrow> bool" where
  "steps_down prev [] \<longleftrightarrow> True"
| "steps_down prev (h # hs) \<longleftrightarrow> fh_level h \<le> Suc prev \<and> steps_down (fh_level h) hs"

lemma steps_down_append: "steps_down n (xs @ y # ys) \<Longrightarrow> steps_down n xs \<and> steps_down (fh_level y) ys"
  by (induction xs arbitrary: n) auto

lemma siblings_preorder:
  "(case hs of [] \<Rightarrow> True | h # t \<Rightarrow> fh_level h = lvl \<and> steps_down lvl t) \<Longrightarrow> \<forall>x \<in> set hs. lvl \<le> fh_level x \<Longrightarrow>
     concat (map preorder (build_siblings rx lvl pushed hs)) = map as_row hs"
proof (induction rx lvl pushed hs rule: build_siblings.induct)
  case (2 rx lvl pushed h hs)
  define below where "below = takeWhile (\<lambda>x. lvl < fh_level x) hs"
  define rest where "rest = dropWhile (\<lambda>x. lvl < fh_level x) hs"
  have hs: "hs = below @ rest" by (simp add: below_def rest_def)
  from 2 have h: "fh_level h = lvl" and steps: "steps_down lvl hs" and least: "\<forall>x \<in> set hs. lvl \<le> fh_level x" by simp_all
  have deeper: "x \<in> set below \<Longrightarrow> lvl < fh_level x" for x by (auto simp: below_def dest: set_takeWhileD)
  have "steps_down lvl below" using steps steps_down_append by (cases rest) (auto simp: hs)
  then have children: "concat (map preorder (case below of [] \<Rightarrow> [] | c # _ \<Rightarrow> build_siblings rx (fh_level c) 0 below)) = map as_row below"
  proof (cases below)
    case (Cons c cs)
    have "lvl < fh_level c" using deeper Cons by simp
    with \<open>steps_down lvl below\<close> Cons have c: "fh_level c = Suc lvl" "steps_down (fh_level c) cs" by auto
    have "\<forall>x \<in> set below. fh_level c \<le> fh_level x" using deeper c by (auto simp: Suc_le_eq)
    with 2(1) [of below, OF _ _ _ Cons] c h Cons show ?thesis by (auto simp: below_def)
  qed simp
  have tail: "concat (map preorder (build_siblings rx lvl (Suc pushed) rest)) = map as_row rest"
  proof -
    have "case rest of [] \<Rightarrow> True | r # t \<Rightarrow> fh_level r = lvl \<and> steps_down lvl t"
    proof (cases rest)
      case (Cons r t)
      have "\<not> lvl < fh_level r" using Cons hd_dropWhile [of "\<lambda>x. lvl < fh_level x" hs] by (simp add: rest_def)
      moreover have "lvl \<le> fh_level r" using least Cons by (simp add: hs)
      ultimately show ?thesis using steps steps_down_append [of lvl below r t] Cons by (simp add: hs)
    qed simp
    moreover have "\<forall>x \<in> set rest. lvl \<le> fh_level x" using least by (simp add: hs)
    ultimately show ?thesis using h unfolding rest_def by (intro 2(2)) simp_all
  qed
  have tree: "build_siblings rx lvl pushed (h # hs) =
      Raw_section (fh_heading h) (fh_content h) (fh_level h - 1) (pushed mod 2 ^ 16)
        (case below of [] \<Rightarrow> [] | c # _ \<Rightarrow> build_siblings rx (fh_level c) 0 below) (extract_tags rx (fh_content h))
      # build_siblings rx lvl (Suc pushed) rest"
    using h unfolding below_def rest_def by (simp add: Let_def)
  have rows: "map as_row (h # hs) = as_row h # map as_row below @ map as_row rest" by (simp add: hs)
  show ?case unfolding tree rows by (simp add: children tail as_row_def)
qed simp


lemma map_level_flat: "map fh_level (flat_headings source hs) = map (\<lambda>(_, level, _). level) hs"
  by (induction source hs rule: flat_headings.induct) (auto simp: Let_def)

text \<open>C35. On a page whose headings never skip a level downwards and never go above the level of the first one, the section tree, read in preorder,
  is exactly the list of the headings, each with the text up to the next heading: no section is lost, duplicated or reordered.\<close>

theorem page_sections_complete:
  assumes "flat_headings source (sx_headings rx source) = h # hs"
    and "steps_down (fh_level h) hs" and "\<forall>x \<in> set hs. fh_level h \<le> fh_level x"
  shows "concat (map preorder (parse_markdown_sections rx source)) = map as_row (flat_headings source (sx_headings rx source))"
proof -
  have "sx_headings rx source \<noteq> []" using assms(1) by auto
  moreover have "concat (map preorder (build_siblings rx (fh_level h) 0 (h # hs))) = map as_row (h # hs)"
    by (rule siblings_preorder) (use assms in auto)
  ultimately show ?thesis using assms(1) by (simp add: parse_markdown_sections_def build_tree_def Let_def)
qed

text \<open>Outside these pages sections disappear without an error: after a heading above the level of the first one, the rest of the page is
  dropped, and so is a subsection after a deeper one that skipped its level.\<close>

lemma shallower_heading_dropped:
  assumes "fh_level b < fh_level a"
  shows "concat (map preorder (build_tree rx (a # b # rest))) = [as_row a]"
  using assms by (simp add: build_tree_def as_row_def)

theorem skipped_level_drops_sections:
  assumes "fh_level a < fh_level c" and "fh_level c < fh_level b" and "\<forall>x \<in> set rest. fh_level a < fh_level x"
  shows "concat (map preorder (build_tree rx (a # b # c # rest))) = [as_row a, as_row b]"
proof -
  have all: "takeWhile (\<lambda>x. fh_level a < fh_level x) rest = rest" "dropWhile (\<lambda>x. fh_level a < fh_level x) rest = []"
    using assms by (simp_all add: takeWhile_eq_all_conv)
  show ?thesis using assms by (simp add: build_tree_def as_row_def all)
qed

definition demo_regex :: section_regex where
  "demo_regex = \<lparr>sx_headings = (\<lambda>s. if s = [] then [] else [(0, 1, '' A''), (4, 2, '' B''), (11, 1, '' C'')]), sx_inline_code = (\<lambda>_. []),
     sx_lowercase = id\<rparr>"

theorem page_sections_complete_witness:
  "concat (map preorder (parse_markdown_sections demo_regex ''# A
## B
b
# C'')) = [(''A'', [], 0), (''B'', ''b'', 1), (''C'', [], 0)]"
proof -
  let ?page = "''# A
## B
b
# C''"
  have flat: "flat_headings ?page (sx_headings demo_regex ?page) =
      [\<lparr>fh_heading = ''A'', fh_content = [], fh_level = 1\<rparr>, \<lparr>fh_heading = ''B'', fh_content = ''b'', fh_level = 2\<rparr>,
       \<lparr>fh_heading = ''C'', fh_content = [], fh_level = 1\<rparr>]"
    by code_simp
  from page_sections_complete [OF flat] show ?thesis unfolding flat by (simp add: as_row_def)
qed

theorem skipped_level_drops_sections_witness:
  "concat (map preorder (build_tree demo_regex
     [\<lparr>fh_heading = ''A'', fh_content = [], fh_level = 1\<rparr>, \<lparr>fh_heading = ''B'', fh_content = [], fh_level = 3\<rparr>,
      \<lparr>fh_heading = ''C'', fh_content = [], fh_level = 2\<rparr>])) = [(''A'', [], 0), (''B'', [], 2)]"
  by (subst skipped_level_drops_sections) (simp_all add: as_row_def)

end
