(* ===== verification/Corpus_Derive.thy ===== *)
theory Corpus_Derive
  imports Corpus_Store Doc_Sections
begin

text \<open>
  The background job that rebuilds the documents of a repository from a published corpus version (\<open>corpus_derive.rs\<close>, \<open>doc_store.rs\<close>,
  \<open>PgDocumentRepo\<close>, \<open>retry_derive\<close>).

  Any number of runs, publications and retries interleave; a run advances by one \<open>await\<close>. A step is \<open>Answered\<close>, \<open>Refused\<close> (it has no
  effect) or \<open>Answer_lost\<close> (its PostgreSQL statement takes effect, but the run sees an error: the answer is lost, or a later write of the same
  step, to the graph, fails). \<open>'v\<close> is the type of embeddings. The graph and the EXPLAINS edges are not part of the state. A restart of the
  process ends every run and closes its connections; a lock lasts as long as its run, that is, its connection does not break before.
\<close>

section \<open>Documents and their sections\<close>

record doc_row =
  dc_id :: uuid
  dc_repo :: string
  dc_title :: string
  dc_type :: string
  dc_source_url :: "string option"

record 'v section_row =
  se_id :: uuid
  se_doc :: uuid
  se_parent :: "uuid option"
  se_heading :: string
  se_content :: string
  se_depth :: int
  se_position :: int
  se_tags :: "string list"
  se_embedding :: 'v

definition insert_document ::
  "uuid \<Rightarrow> string \<Rightarrow> string \<Rightarrow> string \<Rightarrow> string option \<Rightarrow> doc_row list \<Rightarrow> sql_error + doc_row list" where
  "insert_document i repo title doc_type source_url docs =
     (if i \<in> dc_id ` set docs then Inl Unique_violation
      else Inr (docs @ [\<lparr>dc_id = i, dc_repo = repo, dc_title = title, dc_type = doc_type, dc_source_url = source_url\<rparr>]))"

text \<open>The cast of a \<open>u16\<close> to an \<open>i16\<close>.\<close>

definition as_i16 :: "nat \<Rightarrow> int" where
  "as_i16 n = (let m = int n mod 2 ^ 16 in if m < 2 ^ 15 then m else m - 2 ^ 16)"

definition insert_section ::
  "uuid \<Rightarrow> uuid \<Rightarrow> uuid option \<Rightarrow> string \<Rightarrow> string \<Rightarrow> int \<Rightarrow> int \<Rightarrow> string list \<Rightarrow> 'v \<Rightarrow> doc_row list \<Rightarrow> 'v section_row list
    \<Rightarrow> sql_error + 'v section_row list" where
  "insert_section i d parent heading content depth position tags embedding docs secs =
     (if i \<in> se_id ` set secs then Inl Unique_violation
      else if d \<notin> dc_id ` set docs \<or> (case parent of None \<Rightarrow> False | Some p \<Rightarrow> p \<notin> se_id ` set secs) then Inl Foreign_key_violation
      else Inr (secs @ [\<lparr>se_id = i, se_doc = d, se_parent = parent, se_heading = heading, se_content = content, se_depth = depth,
                         se_position = position, se_tags = tags, se_embedding = embedding\<rparr>]))"

definition corpus_doc :: "string \<Rightarrow> doc_row \<Rightarrow> bool" where
  "corpus_doc repo d \<longleftrightarrow> dc_repo d = repo \<and> dc_type d = ''corpus''"

text \<open>The deletion cascades to the sections of the documents.\<close>

definition clean_repo_corpus_docs :: "string \<Rightarrow> doc_row list \<Rightarrow> 'v section_row list \<Rightarrow> doc_row list \<times> 'v section_row list" where
  "clean_repo_corpus_docs repo docs secs =
     (delete_where (corpus_doc repo) docs, delete_where (\<lambda>x. se_doc x \<in> dc_id ` set (filter (corpus_doc repo) docs)) secs)"

section \<open>The job\<close>

record 'v derive_env =
  de_regex :: section_regex
  de_hashtext :: "string \<Rightarrow> int"
  de_utf8 :: "string \<Rightarrow> bool"
  de_embed :: "string \<Rightarrow> 'v"

definition page_title :: "string \<Rightarrow> raw_section list \<Rightarrow> string" where
  "page_title path sections =
     (let seg = last (split_char CHR ''/'' path); stem = trim_end_pattern (length seg) ''.md'' seg in
      case sections of
        s # _ \<Rightarrow> if rs_heading s \<noteq> ''Content'' then rs_heading s else stem
      | [] \<Rightarrow> stem)"

definition section_embed_text :: "string \<Rightarrow> raw_section \<Rightarrow> string" where
  "section_embed_text title x =
     ''In documentation '' @ [CHR 0x27] @ title @ [CHR 0x27] @ '', section '' @ [CHR 0x27] @ rs_heading x @ [CHR 0x27] @ '': ''
       @ concat (take 512 (utf8_chars (rs_content x)))"

datatype derive_outcome = Completed | Outdated | Errored string

datatype derive_pc =
    At_claim
  | At_lookup
  | At_lock corpus_version_meta
  | At_check corpus_version_meta
  | At_clean corpus_version_meta
  | At_list corpus_version_meta
  | At_code_sha corpus_version_meta "string list"
  | At_file corpus_version_meta "string list"
  | At_document corpus_version_meta string string "raw_section list" "string list"
  | At_sections corpus_version_meta uuid string "(uuid option \<times> raw_section) list" "string list"
  | At_unlock corpus_version_meta derive_outcome
  | At_status derive_outcome
  | Ended

record derive_run =
  dn_version :: uuid
  dn_job :: "uuid option"
  dn_pc :: derive_pc

record 'v derive_sys =
  dv_corpus :: corpus_db
  dv_docs :: "doc_row list"
  dv_sections :: "'v section_row list"
  dv_lock :: "int \<Rightarrow> nat option"
  dv_runs :: "derive_run list"

datatype reply = Answered | Refused | Answer_lost

definition set_versions :: "version_row list \<Rightarrow> 'v derive_sys \<Rightarrow> 'v derive_sys" where
  "set_versions t s = s\<lparr>dv_corpus := (dv_corpus s)\<lparr>cd_versions := t\<rparr>\<rparr>"

abbreviation versions :: "'v derive_sys \<Rightarrow> version_row list" where
  "versions s \<equiv> cd_versions (dv_corpus s)"

text \<open>One \<open>await\<close> of the guarded body: the next program counter and the new state. \<open>i\<close> is the id a row gets, \<open>msg\<close> the text of an error. Every
  error goes through the unlock.\<close>

definition locked_step :: "'v derive_env \<Rightarrow> uuid \<Rightarrow> reply \<Rightarrow> string \<Rightarrow> uuid \<Rightarrow> derive_pc \<Rightarrow> 'v derive_sys \<Rightarrow> derive_pc \<times> 'v derive_sys" where
  "locked_step env i rep msg v pc s =
     (let db = dv_corpus s in
      case pc of
        At_check m \<Rightarrow>
          (case if rep = Answered then resolve_version (cm_repo m) ''latest'' (cd_versions db) else None of
             None \<Rightarrow> (At_unlock m (Errored msg), s)
           | Some latest \<Rightarrow> (if map_option cm_id latest = Some v then At_clean m else At_unlock m Outdated, s))
      | At_clean m \<Rightarrow>
          if rep = Refused then (At_unlock m (Errored msg), s)
          else (let (docs, secs) = clean_repo_corpus_docs (cm_repo m) (dv_docs s) (dv_sections s) in
            (if rep = Answered then At_list m else At_unlock m (Errored msg), s\<lparr>dv_docs := docs, dv_sections := secs\<rparr>))
      | At_list m \<Rightarrow> (if rep = Answered then At_code_sha m (list_md_paths v (cd_files db)) else At_unlock m (Errored msg), s)
      | At_code_sha m paths \<Rightarrow> (if rep = Answered then At_file m paths else At_unlock m (Errored msg), s)
      | At_file m [] \<Rightarrow> (At_unlock m Completed, s)
      | At_file m (p # rest) \<Rightarrow>
          (case if rep = Answered then get_file v p (cd_files db) else None of
             None \<Rightarrow> (At_unlock m (Errored msg), s)
           | Some f \<Rightarrow>
               if \<not> de_utf8 env (fr_content f) then (At_unlock m (Errored msg), s)
               else (let sections = parse_markdown_sections (de_regex env) (fr_content f) in
                 (At_document m p (page_title p sections) sections rest, s)))
      | At_document m p title sections rest \<Rightarrow>
          (case if rep = Refused then Inl Db_unavailable else insert_document i (cm_repo m) title ''corpus'' (Some p) (dv_docs s) of
             Inl _ \<Rightarrow> (At_unlock m (Errored msg), s)
           | Inr docs \<Rightarrow>
               (if rep = Answered then At_sections m i title (map (Pair None) sections) rest else At_unlock m (Errored msg), s\<lparr>dv_docs := docs\<rparr>))
      | At_sections m d title [] rest \<Rightarrow> (At_file m rest, s)
      | At_sections m d title ((parent, x) # work) rest \<Rightarrow>
          (case if rep = Refused then Inl Db_unavailable
                else insert_section i d parent (rs_heading x) (rs_content x) (as_i16 (rs_depth x)) (as_i16 (rs_position x))
                       (map (sx_lowercase (de_regex env)) (rs_tags x)) (de_embed env (section_embed_text title x)) (dv_docs s) (dv_sections s) of
             Inl _ \<Rightarrow> (At_unlock m (Errored msg), s)
           | Inr secs \<Rightarrow>
               (if rep = Answered then At_sections m d title (map (Pair (Some i)) (rs_children x) @ work) rest
                else At_unlock m (Errored msg), s\<lparr>dv_sections := secs\<rparr>))
      | _ \<Rightarrow> (pc, s))"

text \<open>One \<open>await\<close> of run \<open>k\<close>. The wait for the advisory lock does not move while another connection holds it. The unlock and the recording of
  a failure are best effort.\<close>

definition advance :: "'v derive_env \<Rightarrow> nat \<Rightarrow> uuid \<Rightarrow> reply \<Rightarrow> string \<Rightarrow> uuid \<Rightarrow> uuid option \<Rightarrow> derive_pc \<Rightarrow> 'v derive_sys
    \<Rightarrow> derive_pc \<times> 'v derive_sys" where
  "advance env k i rep msg v job pc s =
     (let db = dv_corpus s in
      case pc of
        At_claim \<Rightarrow>
          if rep = Refused then (Ended, s)
          else (let (claimed, t) = claim_derive_running v job (cd_versions db) in
            (if claimed \<and> rep = Answered then At_lookup else Ended, set_versions t s))
      | At_lookup \<Rightarrow>
          (case if rep = Answered then get_version_by_id v (cd_versions db) else None of
             Some (Some m) \<Rightarrow> (At_lock m, s)
           | _ \<Rightarrow> (At_status (Errored msg), s))
      | At_lock m \<Rightarrow>
          if rep \<noteq> Answered then (At_status (Errored msg), s)
          else if dv_lock s (de_hashtext env (cm_repo m)) \<noteq> None then (At_lock m, s)
          else (At_check m, s\<lparr>dv_lock := (dv_lock s)(de_hashtext env (cm_repo m) \<mapsto> k)\<rparr>)
      | At_unlock m outcome \<Rightarrow> (At_status outcome, s\<lparr>dv_lock := (dv_lock s)(de_hashtext env (cm_repo m) := None)\<rparr>)
      | At_status outcome \<Rightarrow>
          (Ended,
           if rep = Refused then s
           else set_versions (case outcome of
               Completed \<Rightarrow> set_derive_status v Complete None job (cd_versions db)
             | Outdated \<Rightarrow> set_derive_status v Superseded None job (cd_versions db)
             | Errored e \<Rightarrow> set_derive_status v Failed (Some e) job (cd_versions db)) s)
      | Ended \<Rightarrow> (Ended, s)
      | _ \<Rightarrow> locked_step env i rep msg v pc s)"

definition run_step :: "'v derive_env \<Rightarrow> nat \<Rightarrow> uuid \<Rightarrow> reply \<Rightarrow> string \<Rightarrow> 'v derive_sys \<Rightarrow> 'v derive_sys" where
  "run_step env k i rep msg s =
     (if k < length (dv_runs s) then
        (let r = dv_runs s ! k; (pc, s') = advance env k i rep msg (dn_version r) (dn_job r) (dn_pc r) s
         in s'\<lparr>dv_runs := (dv_runs s)[k := r\<lparr>dn_pc := pc\<rparr>]\<rparr>)
      else s)"

definition spawn :: "uuid \<Rightarrow> uuid option \<Rightarrow> 'v derive_sys \<Rightarrow> 'v derive_sys" where
  "spawn v job s = s\<lparr>dv_runs := dv_runs s @ [\<lparr>dn_version = v, dn_job = job, dn_pc = At_claim\<rparr>]\<rparr>"

datatype retry_outcome = Not_found | Spawned uuid "uuid option"

definition retry_derive :: "bool \<Rightarrow> string \<Rightarrow> uuid \<Rightarrow> 'v derive_sys \<Rightarrow> retry_outcome option \<times> 'v derive_sys" where
  "retry_derive up repo job s =
     (case if up then resolve_version repo ''latest'' (versions s) else None of
        None \<Rightarrow> (None, s)
      | Some None \<Rightarrow> (Some Not_found, s)
      | Some (Some m) \<Rightarrow> (Some (Spawned (cm_id m) (Some job)), spawn (cm_id m) (Some job) s))"

text \<open>The insertion and the spawn of \<open>validate_and_store\<close>.\<close>

definition store_version :: "(corpus_call \<Rightarrow> bool) \<Rightarrow> (string \<Rightarrow> string) \<Rightarrow> uuid \<Rightarrow> instant \<Rightarrow> new_corpus_version \<Rightarrow> uuid
    \<Rightarrow> 'v derive_sys \<Rightarrow> insert_outcome option \<times> 'v derive_sys" where
  "store_version up sha256 i now v job s =
     (case insert_version up sha256 i now v (dv_corpus s) of
        (Some (Inserted m), db) \<Rightarrow> (Some (Inserted m), spawn (cm_id m) (Some job) (s\<lparr>dv_corpus := db\<rparr>))
      | (res, db) \<Rightarrow> (res, s\<lparr>dv_corpus := db\<rparr>))"

datatype derive_event =
    Publish "corpus_call \<Rightarrow> bool" "string \<Rightarrow> string" uuid instant new_corpus_version uuid
  | Retry bool string uuid
  | Run_step nat uuid reply string
  | Restart

fun derive_exec :: "'v derive_env \<Rightarrow> derive_event \<Rightarrow> 'v derive_sys \<Rightarrow> 'v derive_sys" where
  "derive_exec env (Publish up sha256 i now v job) s = snd (store_version up sha256 i now v job s)"
| "derive_exec env (Retry up repo job) s = snd (retry_derive up repo job s)"
| "derive_exec env (Run_step k i rep msg) s = run_step env k i rep msg s"
| "derive_exec env Restart s = s\<lparr>dv_lock := (\<lambda>_. None), dv_runs := []\<rparr>"

definition derive_history :: "'v derive_env \<Rightarrow> derive_event list \<Rightarrow> 'v derive_sys \<Rightarrow> 'v derive_sys" where
  "derive_history env es s = fold (derive_exec env) es s"

end
