(* ===== verification/Derive_Invariant.thy ===== *)
theory Derive_Invariant
  imports Corpus_Derive
begin

text \<open>
  What the derivation of \<open>Corpus_Derive\<close> keeps, over any interleaving of publications, retries, steps of runs and restarts. The invariant holds
  for every run how far it is, that it owns the lock of its repository and that its version is marked as running; and for every latest version
  that is complete or about to be, that its documents are there and that no run is rebuilding its repository. The proof is one frame lemma for
  a step of one run (\<open>step_frame\<close>) and one lemma per group of program counters.
\<close>

section \<open>What readers see\<close>

definition section_line :: "'v derive_env \<Rightarrow> raw_section \<Rightarrow> string \<times> string \<times> int \<times> int \<times> string list" where
  "section_line env x = (rs_heading x, rs_content x, as_i16 (rs_depth x), as_i16 (rs_position x), map (sx_lowercase (de_regex env)) (rs_tags x))"

fun section_lines :: "'v derive_env \<Rightarrow> raw_section \<Rightarrow> (string \<times> string \<times> int \<times> int \<times> string list) list" where
  "section_lines env (Raw_section heading content depth position children tags) =
     section_line env (Raw_section heading content depth position children tags) # concat (map (section_lines env) children)"

type_synonym page_view = "string option \<times> string \<times> (string \<times> string \<times> int \<times> int \<times> string list) list"

text \<open>What a version asks for: each of its pages, in the order of the paths, with its title and its sections in preorder.\<close>

definition file_view :: "'v derive_env \<Rightarrow> uuid \<Rightarrow> file_row list \<Rightarrow> string \<Rightarrow> page_view" where
  "file_view env v files p =
     (case get_file v p files of
        None \<Rightarrow> (Some p, [], [])
      | Some f \<Rightarrow>
          let sections = parse_markdown_sections (de_regex env) (fr_content f) in
          (Some p, page_title p sections, concat (map (section_lines env) sections)))"

definition pages_view :: "'v derive_env \<Rightarrow> uuid \<Rightarrow> file_row list \<Rightarrow> page_view list" where
  "pages_view env v files = map (file_view env v files) (list_md_paths v files)"

text \<open>What the tables hold for a repository.\<close>

definition doc_lines :: "uuid \<Rightarrow> 'v section_row list \<Rightarrow> (string \<times> string \<times> int \<times> int \<times> string list) list" where
  "doc_lines d secs = map (\<lambda>x. (se_heading x, se_content x, se_depth x, se_position x, se_tags x)) (filter (\<lambda>x. se_doc x = d) secs)"

definition doc_view :: "'v section_row list \<Rightarrow> doc_row \<Rightarrow> page_view" where
  "doc_view secs d = (dc_source_url d, dc_title d, doc_lines (dc_id d) secs)"

definition repo_docs :: "string \<Rightarrow> 'v derive_sys \<Rightarrow> doc_row list" where
  "repo_docs repo s = filter (corpus_doc repo) (dv_docs s)"

definition corpus_view :: "string \<Rightarrow> 'v derive_sys \<Rightarrow> page_view list" where
  "corpus_view repo s = map (doc_view (dv_sections s)) (repo_docs repo s)"

definition docs_ok :: "'v derive_sys \<Rightarrow> bool" where
  "docs_ok s \<longleftrightarrow> distinct (map dc_id (dv_docs s)) \<and> (\<forall>x \<in> set (dv_sections s). se_doc x \<in> dc_id ` set (dv_docs s))"

definition same_docs :: "string \<Rightarrow> 'v derive_sys \<Rightarrow> 'v derive_sys \<Rightarrow> bool" where
  "same_docs repo s s' \<longleftrightarrow> repo_docs repo s' = repo_docs repo s \<and> (\<forall>d \<in> set (repo_docs repo s). doc_view (dv_sections s') d = doc_view (dv_sections s) d)"

lemma same_docs_refl [simp]: "dv_docs s' = dv_docs s \<Longrightarrow> dv_sections s' = dv_sections s \<Longrightarrow> same_docs repo s s'"
  by (simp add: same_docs_def repo_docs_def)

lemma same_docs_view: "same_docs repo s s' \<Longrightarrow> corpus_view repo s' = corpus_view repo s"
  by (simp add: same_docs_def corpus_view_def)

lemma docs_ok_cong: "docs_ok s \<Longrightarrow> dv_docs s' = dv_docs s \<Longrightarrow> dv_sections s' = dv_sections s \<Longrightarrow> docs_ok s'"
  by (simp add: docs_ok_def)

lemma same_doc_id:
  assumes "docs_ok s" and "a \<in> set (dv_docs s)" and "b \<in> set (dv_docs s)" and "dc_id a = dc_id b"
  shows "a = b"
  using assms unfolding docs_ok_def distinct_map by (metis inj_onD)

lemma clean_docs:
  assumes ok: "docs_ok s" and run: "clean_repo_corpus_docs repo (dv_docs s) (dv_sections s) = (dv_docs s', dv_sections s')"
  shows "docs_ok s'" and "repo_docs repo s' = []" and "repo' \<noteq> repo \<Longrightarrow> same_docs repo' s s'"
proof -
  have docs: "dv_docs s' = filter (\<lambda>d. \<not> corpus_doc repo d) (dv_docs s)"
    and secs: "dv_sections s' = filter (\<lambda>x. se_doc x \<notin> dc_id ` set (repo_docs repo s)) (dv_sections s)"
    using run by (simp_all add: clean_repo_corpus_docs_def delete_where_def repo_docs_def)
  show "docs_ok s'"
    using ok by (auto simp: docs_ok_def docs secs repo_docs_def distinct_map_filter)
  show "repo_docs repo s' = []" by (simp add: repo_docs_def docs filter_empty_conv)
  assume other: "repo' \<noteq> repo"
  have "repo_docs repo' s' = repo_docs repo' s"
    unfolding repo_docs_def docs filter_filter using other by (intro filter_cong) (auto simp: corpus_doc_def)
  moreover have "doc_view (dv_sections s') d = doc_view (dv_sections s) d" if d: "d \<in> set (repo_docs repo' s)" for d
  proof -
    have "dc_id d \<notin> dc_id ` set (repo_docs repo s)"
    proof
      assume "dc_id d \<in> dc_id ` set (repo_docs repo s)"
      then obtain e where e: "e \<in> set (repo_docs repo s)" "dc_id d = dc_id e" by blast
      with d ok have "d = e" by (intro same_doc_id [OF ok]) (auto simp: repo_docs_def)
      with d e other show False by (auto simp: repo_docs_def corpus_doc_def)
    qed
    then have "filter (\<lambda>x. se_doc x = dc_id d) (dv_sections s') = filter (\<lambda>x. se_doc x = dc_id d) (dv_sections s)"
      unfolding secs filter_filter by (metis (mono_tags, lifting))
    then show ?thesis by (simp add: doc_view_def doc_lines_def)
  qed
  ultimately show "same_docs repo' s s'" by (simp add: same_docs_def)
qed

lemma insert_document_docs:
  assumes ok: "docs_ok s" and run: "insert_document i repo title ''corpus'' url (dv_docs s) = Inr (dv_docs s')"
    and secs: "dv_sections s' = dv_sections s"
  obtains d where "docs_ok s'" and "repo_docs repo s' = repo_docs repo s @ [d]" and "dc_id d = i" and "doc_view (dv_sections s') d = (url, title, [])"
    and "\<And>repo'. repo' \<noteq> repo \<Longrightarrow> same_docs repo' s s'"
proof
  let ?d = "\<lparr>dc_id = i, dc_repo = repo, dc_title = title, dc_type = ''corpus'', dc_source_url = url\<rparr>"
  have docs: "dv_docs s' = dv_docs s @ [?d]" and fresh: "i \<notin> dc_id ` set (dv_docs s)"
    using run by (auto simp: insert_document_def split: if_splits)
  show "docs_ok s'" using ok fresh by (auto simp: docs_ok_def docs secs)
  show "repo_docs repo s' = repo_docs repo s @ [?d]" by (simp add: repo_docs_def docs corpus_doc_def)
  show "dc_id ?d = i" by simp
  have "\<forall>x \<in> set (dv_sections s). se_doc x \<noteq> i" using ok fresh unfolding docs_ok_def by metis
  then show "doc_view (dv_sections s') ?d = (url, title, [])" by (auto simp: doc_view_def doc_lines_def secs)
  show "same_docs repo' s s'" if "repo' \<noteq> repo" for repo'
    using that by (simp add: same_docs_def repo_docs_def docs secs corpus_doc_def)
qed

lemma insert_section_docs:
  assumes ok: "docs_ok s" and docs: "dv_docs s' = dv_docs s"
    and run: "insert_section i d parent heading content depth position tags v (dv_docs s) (dv_sections s) = Inr (dv_sections s')"
    and repo: "repo_docs repo s = ds @ [e]" and e: "dc_id e = d"
  shows "docs_ok s'" and "repo_docs repo s' = ds @ [e]"
    and "doc_lines d (dv_sections s') = doc_lines d (dv_sections s) @ [(heading, content, depth, position, tags)]"
    and "x \<in> set ds \<Longrightarrow> doc_view (dv_sections s') x = doc_view (dv_sections s) x"
    and "repo' \<noteq> repo \<Longrightarrow> same_docs repo' s s'"
proof -
  have secs: "\<exists>x. dv_sections s' = dv_sections s @ [x] \<and> se_doc x = d \<and> (se_heading x, se_content x, se_depth x, se_position x, se_tags x) =
      (heading, content, depth, position, tags)" and d: "d \<in> dc_id ` set (dv_docs s)"
    using run [symmetric] by (auto simp: insert_section_def split: if_splits)
  have keep: "doc_view (dv_sections s') x = doc_view (dv_sections s) x" if "dc_id x \<noteq> d" for x
    using secs that by (auto simp: doc_view_def doc_lines_def)
  show "docs_ok s'" using ok secs d by (auto simp: docs_ok_def docs)
  show "repo_docs repo s' = ds @ [e]" using repo by (simp add: repo_docs_def docs)
  show "doc_lines d (dv_sections s') = doc_lines d (dv_sections s) @ [(heading, content, depth, position, tags)]"
    using secs by (auto simp: doc_lines_def)
  have "distinct (map dc_id (repo_docs repo s))" using ok by (simp add: docs_ok_def repo_docs_def distinct_map_filter)
  then have "d \<notin> dc_id ` set ds" using e repo by auto
  then have "x \<in> set ds \<Longrightarrow> dc_id x \<noteq> d" for x by (metis imageI)
  then show "x \<in> set ds \<Longrightarrow> doc_view (dv_sections s') x = doc_view (dv_sections s) x" by (rule keep)
  assume other: "repo' \<noteq> repo"
  have "dc_id x \<noteq> d" if "x \<in> set (repo_docs repo' s)" for x
  proof
    assume "dc_id x = d"
    moreover have in_repo: "e \<in> set (repo_docs repo s)" using repo by simp
    ultimately have "x = e" using that e by (intro same_doc_id [OF ok]) (auto simp: repo_docs_def)
    with that in_repo other show False by (auto simp: repo_docs_def corpus_doc_def)
  qed
  with keep show "same_docs repo' s s'" by (simp add: same_docs_def repo_docs_def docs)
qed

section \<open>The invariant\<close>

abbreviation corpus_files_of :: "'v derive_sys \<Rightarrow> file_row list" where
  "corpus_files_of s \<equiv> cd_files (dv_corpus s)"

fun pc_meta :: "derive_pc \<Rightarrow> corpus_version_meta option" where
  "pc_meta (At_lock m) = Some m"
| "pc_meta (At_check m) = Some m"
| "pc_meta (At_clean m) = Some m"
| "pc_meta (At_list m) = Some m"
| "pc_meta (At_code_sha m paths) = Some m"
| "pc_meta (At_file m paths) = Some m"
| "pc_meta (At_document m p title sections rest) = Some m"
| "pc_meta (At_sections m d title work rest) = Some m"
| "pc_meta (At_unlock m outcome) = Some m"
| "pc_meta _ = None"

definition active :: "derive_pc \<Rightarrow> bool" where
  "active pc \<longleftrightarrow> pc \<noteq> At_claim \<and> pc \<noteq> Ended"

definition locked :: "derive_pc \<Rightarrow> bool" where
  "locked pc \<longleftrightarrow> (case pc of At_lock m \<Rightarrow> False | _ \<Rightarrow> pc_meta pc \<noteq> None)"

fun rebuilding :: "derive_pc \<Rightarrow> bool" where
  "rebuilding (At_check m) \<longleftrightarrow> False"
| "rebuilding (At_unlock m outcome) \<longleftrightarrow> False"
| "rebuilding pc \<longleftrightarrow> locked pc"

text \<open>How far the documents of the repository are.\<close>

fun progress :: "'v derive_env \<Rightarrow> uuid \<Rightarrow> 'v derive_sys \<Rightarrow> derive_pc \<Rightarrow> bool" where
  "progress env v s (At_list m) \<longleftrightarrow> corpus_view (cm_repo m) s = []"
| "progress env v s (At_code_sha m paths) \<longleftrightarrow> corpus_view (cm_repo m) s = [] \<and> paths = list_md_paths v (corpus_files_of s)"
| "progress env v s (At_file m rest) \<longleftrightarrow>
     (\<exists>pre. list_md_paths v (corpus_files_of s) = pre @ rest \<and> corpus_view (cm_repo m) s = map (file_view env v (corpus_files_of s)) pre)"
| "progress env v s (At_document m p title sections rest) \<longleftrightarrow>
     (\<exists>pre. list_md_paths v (corpus_files_of s) = pre @ p # rest \<and> corpus_view (cm_repo m) s = map (file_view env v (corpus_files_of s)) pre
       \<and> file_view env v (corpus_files_of s) p = (Some p, title, concat (map (section_lines env) sections)))"
| "progress env v s (At_sections m d title work rest) \<longleftrightarrow>
     (\<exists>pre p ds e. list_md_paths v (corpus_files_of s) = pre @ p # rest \<and> repo_docs (cm_repo m) s = ds @ [e] \<and> dc_id e = d
       \<and> map (doc_view (dv_sections s)) ds = map (file_view env v (corpus_files_of s)) pre \<and> dc_source_url e = Some p \<and> dc_title e = title
       \<and> file_view env v (corpus_files_of s) p = (Some p, title, doc_lines d (dv_sections s) @ concat (map (section_lines env) (map snd work))))"
| "progress env v s (At_unlock m Completed) \<longleftrightarrow> corpus_view (cm_repo m) s = pages_view env v (corpus_files_of s)"
| "progress env v s pc \<longleftrightarrow> True"

definition settled :: "'v derive_env \<Rightarrow> 'v derive_sys \<Rightarrow> version_row \<Rightarrow> bool" where
  "settled env s row \<longleftrightarrow>
     corpus_view (vr_repo row) s = pages_view env (vr_id row) (corpus_files_of s)
     \<and> (\<forall>r \<in> set (dv_runs s). rebuilding (dn_pc r) \<longrightarrow> map_option cm_repo (pc_meta (dn_pc r)) \<noteq> Some (vr_repo row))"

text \<open>The rows of which the documents must be there: latest, and complete or about to be.\<close>

definition due :: "'v derive_sys \<Rightarrow> version_row \<Rightarrow> bool" where
  "due s row \<longleftrightarrow> row \<in> set (versions s) \<and> vr_is_latest row
     \<and> (vr_derive_status row = ''complete'' \<or> (\<exists>r \<in> set (dv_runs s). dn_version r = vr_id row \<and> dn_pc r = At_status Completed))"

definition run_ok :: "'v derive_env \<Rightarrow> 'v derive_sys \<Rightarrow> nat \<Rightarrow> derive_run \<Rightarrow> bool" where
  "run_ok env s k r \<longleftrightarrow>
     (\<exists>row \<in> set (versions s). vr_id row = dn_version r \<and> (active (dn_pc r) \<longrightarrow> vr_derive_status row = ''running'')
       \<and> (\<forall>m. pc_meta (dn_pc r) = Some m \<longrightarrow> cm_id m = dn_version r \<and> cm_repo m = vr_repo row
            \<and> (locked (dn_pc r) \<longrightarrow> dv_lock s (de_hashtext env (cm_repo m)) = Some k) \<and> progress env (dn_version r) s (dn_pc r)))"

definition runs_alone :: "derive_run list \<Rightarrow> bool" where
  "runs_alone rs \<longleftrightarrow> (\<forall>j < length rs. \<forall>k < length rs. active (dn_pc (rs ! j)) \<and> active (dn_pc (rs ! k)) \<and> dn_version (rs ! j) = dn_version (rs ! k)
      \<longrightarrow> j = k)"

definition derive_inv :: "'v derive_env \<Rightarrow> 'v derive_sys \<Rightarrow> bool" where
  "derive_inv env s \<longleftrightarrow> corpus_inv (dv_corpus s) \<and> docs_ok s \<and> runs_alone (dv_runs s)
     \<and> (\<forall>k < length (dv_runs s). run_ok env s k (dv_runs s ! k)) \<and> (\<forall>row. due s row \<longrightarrow> settled env s row)"

lemma progress_cong:
  assumes docs: "pc_meta pc = Some m" "same_docs (cm_repo m) s s'"
    and files: "list_md_paths v (corpus_files_of s') = list_md_paths v (corpus_files_of s)"
      "file_view env v (corpus_files_of s') = file_view env v (corpus_files_of s)"
    and p: "progress env v s pc"
  shows "progress env v s' pc"
proof -
  have view: "corpus_view (cm_repo m) s' = corpus_view (cm_repo m) s" by (rule same_docs_view [OF docs(2)])
  show ?thesis
  proof (cases pc)
    case (At_sections m' d title work rest)
    with docs have m': "m' = m" by simp
    from p obtain pre p ds e where old: "list_md_paths v (corpus_files_of s) = pre @ p # rest" "repo_docs (cm_repo m) s = ds @ [e]" "dc_id e = d"
      "map (doc_view (dv_sections s)) ds = map (file_view env v (corpus_files_of s)) pre" "dc_source_url e = Some p" "dc_title e = title"
      "file_view env v (corpus_files_of s) p = (Some p, title, doc_lines d (dv_sections s) @ concat (map (section_lines env) (map snd work)))"
      unfolding At_sections m' by auto
    have new: "repo_docs (cm_repo m) s' = ds @ [e]" using docs(2) old(2) by (simp add: same_docs_def)
    have eq: "doc_view (dv_sections s') x = doc_view (dv_sections s) x" if "x \<in> set (ds @ [e])" for x
      using docs(2) that old(2) by (auto simp: same_docs_def)
    have "map (doc_view (dv_sections s')) ds = map (doc_view (dv_sections s)) ds" using eq by simp
    moreover have "doc_lines d (dv_sections s') = doc_lines d (dv_sections s)" using eq [of e] old(3) by (simp add: doc_view_def)
    ultimately show ?thesis using old new files unfolding At_sections m' by auto
  next
    case (At_unlock m' outcome)
    with docs have "m' = m" by simp
    with At_unlock p show ?thesis by (cases outcome) (simp_all add: view files pages_view_def)
  qed (use p docs(1) in \<open>auto simp: view files\<close>)
qed

lemma rebuilding_locked: "rebuilding pc \<Longrightarrow> locked pc"
  by (cases pc) (simp_all add: locked_def)

lemma locked_active: "locked pc \<Longrightarrow> active pc"
  by (cases pc) (simp_all add: locked_def active_def)

lemma progress_unlocked: "\<not> locked pc \<Longrightarrow> progress env v s pc"
  by (cases pc) (simp_all add: locked_def)

lemma due_version:
  assumes "corpus_inv (dv_corpus s)" and "due s row" and "x \<in> set (versions s)" and "vr_id x = vr_id row"
  shows "x = row"
  using assms unfolding corpus_inv_def versions_ok_def due_def distinct_map by (metis inj_onD)

definition no_other :: "'v derive_sys \<Rightarrow> nat \<Rightarrow> uuid \<Rightarrow> bool" where
  "no_other s k v \<longleftrightarrow> (\<forall>j < length (dv_runs s). j \<noteq> k \<and> active (dn_pc (dv_runs s ! j)) \<longrightarrow> dn_version (dv_runs s ! j) \<noteq> v)"

text \<open>A step of run \<open>k\<close> that touches only its own version, the documents of its own repository while it rebuilds them, and its own lock.\<close>

lemma step_frame:
  assumes inv: "derive_inv env s" and k: "k < length (dv_runs s)" and r: "dv_runs s ! k = r"
    and runs: "dv_runs s' = (dv_runs s)[k := r\<lparr>dn_pc := pc'\<rparr>]"
    and files: "corpus_files_of s' = corpus_files_of s"
    and rows: "versions s' = map f (versions s)"
      "\<And>x. x \<in> set (versions s) \<Longrightarrow> vr_id (f x) = vr_id x \<and> vr_repo (f x) = vr_repo x \<and> vr_is_latest (f x) = vr_is_latest x
          \<and> (vr_derive_status (f x) = vr_derive_status x \<or> vr_id x = dn_version r \<and> no_other s k (dn_version r))"
    and corpus: "corpus_inv (dv_corpus s')" and docs: "docs_ok s'"
    and touched: "\<And>repo. same_docs repo s s' \<or> rebuilding (dn_pc r) \<and> map_option cm_repo (pc_meta (dn_pc r)) = Some repo"
    and lock: "\<And>h j. j \<noteq> k \<Longrightarrow> dv_lock s h = Some j \<Longrightarrow> dv_lock s' h = Some j"
    and own: "run_ok env s' k (r\<lparr>dn_pc := pc'\<rparr>)"
    and alone: "active pc' \<Longrightarrow> active (dn_pc r) \<or> no_other s k (dn_version r)"
    and rebuild: "\<And>m. rebuilding pc' \<Longrightarrow> pc_meta pc' = Some m \<Longrightarrow>
        rebuilding (dn_pc r) \<and> pc_meta (dn_pc r) = Some m \<or> (\<forall>row. due s row \<longrightarrow> vr_repo row \<noteq> cm_repo m)"
    and new: "\<And>x. x \<in> set (versions s) \<Longrightarrow> due s' (f x) \<Longrightarrow> \<not> due s x \<Longrightarrow> settled env s' (f x)"
  shows "derive_inv env s'"
proof -
  have old: "runs_alone (dv_runs s)" "\<And>j. j < length (dv_runs s) \<Longrightarrow> run_ok env s j (dv_runs s ! j)" "\<And>row. due s row \<Longrightarrow> settled env s row"
    using inv by (auto simp: derive_inv_def)
  have others: "dv_runs s' ! j = (if j = k then r\<lparr>dn_pc := pc'\<rparr> else dv_runs s ! j)" if "j < length (dv_runs s)" for j
    using that k by (simp add: runs nth_list_update)
  have "runs_alone (dv_runs s')"
    unfolding runs_alone_def
  proof (intro allI impI, elim conjE)
    fix i j
    assume len: "i < length (dv_runs s')" "j < length (dv_runs s')" and act: "active (dn_pc (dv_runs s' ! i))" "active (dn_pc (dv_runs s' ! j))"
      and same: "dn_version (dv_runs s' ! i) = dn_version (dv_runs s' ! j)"
    have lens: "i < length (dv_runs s)" "j < length (dv_runs s)" using len by (simp_all add: runs)
    have clash: "a = k" if "b = k" "a < length (dv_runs s)" "active (dn_pc (dv_runs s' ! a))" "active (dn_pc (dv_runs s' ! b))"
      "dn_version (dv_runs s' ! a) = dn_version (dv_runs s' ! b)" for a b
    proof (rule ccontr)
      assume "a \<noteq> k"
      with that others k have a: "active (dn_pc (dv_runs s ! a))" "dn_version (dv_runs s ! a) = dn_version r" "active pc'"
        by simp_all
      from alone [OF a(3)] show False
      proof
        assume "active (dn_pc r)"
        with old(1) a \<open>a \<noteq> k\<close> that(2) k r show False unfolding runs_alone_def by blast
      next
        assume "no_other s k (dn_version r)"
        with a \<open>a \<noteq> k\<close> that(2) show False by (simp add: no_other_def)
      qed
    qed
    show "i = j"
    proof (cases "i = k \<or> j = k")
      case True
      then show ?thesis using clash [of j i] clash [of i j] lens act same by metis
    next
      case False
      then show ?thesis using old(1) lens act same others unfolding runs_alone_def by metis
    qed
  qed
  moreover have "run_ok env s' j (dv_runs s' ! j)" if j: "j < length (dv_runs s')" for j
  proof (cases "j = k")
    case True
    then show ?thesis using own others k by simp
  next
    case False
    let ?q = "dv_runs s ! j"
    have len: "j < length (dv_runs s)" using j by (simp add: runs)
    from old(2) [OF len] obtain x where x: "x \<in> set (versions s)" "vr_id x = dn_version ?q" "active (dn_pc ?q) \<longrightarrow> vr_derive_status x = ''running''"
      and m: "\<And>m. pc_meta (dn_pc ?q) = Some m \<Longrightarrow> cm_id m = dn_version ?q \<and> cm_repo m = vr_repo x
        \<and> (locked (dn_pc ?q) \<longrightarrow> dv_lock s (de_hashtext env (cm_repo m)) = Some j) \<and> progress env (dn_version ?q) s (dn_pc ?q)"
      unfolding run_ok_def by blast
    have fx: "vr_id (f x) = vr_id x" "vr_repo (f x) = vr_repo x"
      and stat: "vr_derive_status (f x) = vr_derive_status x \<or> vr_id x = dn_version r \<and> no_other s k (dn_version r)"
      using rows(2) [OF x(1)] by auto
    have "vr_derive_status (f x) = ''running''" if act: "active (dn_pc ?q)"
      using stat x act False len unfolding no_other_def by metis
    moreover have "progress env (dn_version ?q) s' (dn_pc ?q)" if some: "pc_meta (dn_pc ?q) = Some m" for m
    proof (cases "locked (dn_pc ?q)")
      case True
      have "same_docs (cm_repo m) s s'"
      proof (rule disjE [OF touched [of "cm_repo m"]], assumption)
        assume k_rebuilds: "rebuilding (dn_pc r) \<and> map_option cm_repo (pc_meta (dn_pc r)) = Some (cm_repo m)"
        then obtain m' where "pc_meta (dn_pc r) = Some m'" "cm_repo m' = cm_repo m" by auto
        with old(2) [OF k] k_rebuilds r have "dv_lock s (de_hashtext env (cm_repo m)) = Some k"
          unfolding run_ok_def using rebuilding_locked by metis
        with True some m False show ?thesis by auto
      qed
      then show ?thesis using m [OF some] some files by (intro progress_cong [of _ m s s']) simp_all
    qed (rule progress_unlocked)
    moreover have "dv_lock s' (de_hashtext env (cm_repo m)) = Some j" if "pc_meta (dn_pc ?q) = Some m" "locked (dn_pc ?q)" for m
      using m that lock False by blast
    moreover have "f x \<in> set (versions s')" using x(1) by (simp add: rows(1))
    ultimately show ?thesis
      unfolding run_ok_def using others [OF len] False x(2) m fx by (intro bexI [of _ "f x"]) auto
  qed
  moreover have "settled env s' row" if due: "due s' row" for row
  proof -
    from due obtain x where x: "x \<in> set (versions s)" "row = f x" unfolding due_def rows(1) by auto
    show ?thesis
    proof (cases "due s x")
      case True
      with old(3) have set_s: "settled env s x" by blast
      have fx: "vr_id row = vr_id x" "vr_repo row = vr_repo x" using rows(2) [OF x(1)] x(2) by auto
      have k_in: "r \<in> set (dv_runs s)" using k r by auto
      from set_s k_in have not_k: "\<not> (rebuilding (dn_pc r) \<and> map_option cm_repo (pc_meta (dn_pc r)) = Some (vr_repo x))"
        by (auto simp: settled_def)
      have "same_docs (vr_repo x) s s'" using touched [of "vr_repo x"] not_k by blast
      then have "corpus_view (vr_repo row) s' = pages_view env (vr_id row) (corpus_files_of s')"
        using set_s fx files by (simp add: settled_def same_docs_view)
      moreover have "map_option cm_repo (pc_meta (dn_pc q)) \<noteq> Some (vr_repo row)"
        if q: "q \<in> set (dv_runs s')" "rebuilding (dn_pc q)" for q
      proof -
        from q(1) have "q \<in> set (dv_runs s) \<or> q = r\<lparr>dn_pc := pc'\<rparr>"
          unfolding runs by (metis insert_iff set_update_subset_insert subsetD)
        then show ?thesis
        proof
          assume "q \<in> set (dv_runs s)"
          with set_s q fx show ?thesis by (simp add: settled_def)
        next
          assume "q = r\<lparr>dn_pc := pc'\<rparr>"
          with q(2) rebuild not_k True fx show ?thesis by (cases "pc_meta pc'") force+
        qed
      qed
      ultimately show ?thesis by (simp add: settled_def)
    next
      case False
      with new x due show ?thesis by blast
    qed
  qed
  ultimately show ?thesis using corpus docs by (simp add: derive_inv_def)
qed

lemma view_runs [simp]:
  "repo_docs repo (s\<lparr>dv_runs := rs\<rparr>) = repo_docs repo s" "corpus_view repo (s\<lparr>dv_runs := rs\<rparr>) = corpus_view repo s"
  "same_docs repo s0 (s\<lparr>dv_runs := rs\<rparr>) = same_docs repo s0 s" "docs_ok (s\<lparr>dv_runs := rs\<rparr>) = docs_ok s"
  by (simp_all add: repo_docs_def corpus_view_def same_docs_def docs_ok_def)

lemma progress_runs [simp]: "progress env v (s\<lparr>dv_runs := rs\<rparr>) pc = progress env v s pc"
proof (cases pc)
  case (At_unlock m outcome)
  then show ?thesis by (cases outcome) simp_all
qed simp_all

lemma bex_update: "\<exists>q \<in> set (xs[k := y]). P q \<Longrightarrow> \<not> P y \<Longrightarrow> \<exists>q \<in> set xs. P q"
  by (metis insert_iff set_update_subset_insert subsetD)

lemma due_cong: "dv_corpus s' = dv_corpus s \<Longrightarrow> dv_runs s' = dv_runs s \<Longrightarrow> due s' x = due s x"
  by (simp add: due_def)

lemma run_row:
  assumes "derive_inv env s" and "k < length (dv_runs s)"
  obtains row where "row \<in> set (versions s)" and "vr_id row = dn_version (dv_runs s ! k)"
    and "active (dn_pc (dv_runs s ! k)) \<Longrightarrow> vr_derive_status row = ''running''"
    and "\<And>m. pc_meta (dn_pc (dv_runs s ! k)) = Some m \<Longrightarrow> cm_id m = dn_version (dv_runs s ! k) \<and> cm_repo m = vr_repo row
       \<and> (locked (dn_pc (dv_runs s ! k)) \<longrightarrow> dv_lock s (de_hashtext env (cm_repo m)) = Some k)
       \<and> progress env (dn_version (dv_runs s ! k)) s (dn_pc (dv_runs s ! k))"
  using assms unfolding derive_inv_def run_ok_def by blast

lemma run_progress:
  assumes "derive_inv env s" and "k < length (dv_runs s)" and "pc_meta (dn_pc (dv_runs s ! k)) = Some m"
  shows "progress env (dn_version (dv_runs s ! k)) s (dn_pc (dv_runs s ! k))"
  using assms unfolding derive_inv_def run_ok_def by blast

lemma run_running:
  assumes "derive_inv env s" and "k < length (dv_runs s)" and "active (dn_pc (dv_runs s ! k))"
  shows "\<exists>row \<in> set (versions s). vr_id row = dn_version (dv_runs s ! k) \<and> vr_derive_status row = ''running''"
  using assms unfolding derive_inv_def run_ok_def by blast

text \<open>The steps that leave the versions alone.\<close>

lemma step_keeps:
  assumes inv: "derive_inv env s" and k: "k < length (dv_runs s)" and r: "dv_runs s ! k = r"
    and same: "dv_corpus s1 = dv_corpus s" "dv_runs s1 = dv_runs s" and docs: "docs_ok s1"
    and touched: "\<And>repo. same_docs repo s s1 \<or> rebuilding (dn_pc r) \<and> map_option cm_repo (pc_meta (dn_pc r)) = Some repo"
    and lock: "\<And>h j. j \<noteq> k \<Longrightarrow> dv_lock s h = Some j \<Longrightarrow> dv_lock s1 h = Some j"
    and own: "run_ok env s1 k (r\<lparr>dn_pc := pc'\<rparr>)" and act: "active pc' \<Longrightarrow> active (dn_pc r)"
    and rebuild: "\<And>m. rebuilding pc' \<Longrightarrow> pc_meta pc' = Some m \<Longrightarrow>
        rebuilding (dn_pc r) \<and> pc_meta (dn_pc r) = Some m \<or> (\<forall>row. due s row \<longrightarrow> vr_repo row \<noteq> cm_repo m)"
    and due: "pc' = At_status Completed \<Longrightarrow> (\<And>x. x \<in> set (versions s) \<Longrightarrow> vr_is_latest x \<Longrightarrow> vr_id x = dn_version r \<Longrightarrow>
        settled env (s1\<lparr>dv_runs := (dv_runs s)[k := r\<lparr>dn_pc := pc'\<rparr>]\<rparr>) x)"
  shows "derive_inv env (s1\<lparr>dv_runs := (dv_runs s)[k := r\<lparr>dn_pc := pc'\<rparr>]\<rparr>)"
proof (rule step_frame [OF inv k r, where f = id])
  let ?s = "s1\<lparr>dv_runs := (dv_runs s)[k := r\<lparr>dn_pc := pc'\<rparr>]\<rparr>"
  show "corpus_inv (dv_corpus ?s)" using inv same by (simp add: derive_inv_def)
  show "run_ok env ?s k (r\<lparr>dn_pc := pc'\<rparr>)" using own by (simp add: run_ok_def)
  show "settled env ?s (id x)" if x: "x \<in> set (versions s)" "due ?s (id x)" "\<not> due s x" for x
  proof (cases "pc' = At_status Completed \<and> vr_id x = dn_version r")
    case True
    with due x show ?thesis by (simp add: due_def same)
  next
    case False
    let ?P = "\<lambda>q. dn_version q = vr_id x \<and> dn_pc q = At_status Completed"
    have "\<exists>q \<in> set (dv_runs s). ?P q" if "\<exists>q \<in> set ((dv_runs s)[k := r\<lparr>dn_pc := pc'\<rparr>]). ?P q"
      using that by (rule bex_update) (use False in auto)
    with x(2) have "due s x" by (auto simp: due_def same)
    with x(3) show ?thesis by simp
  qed
qed (use same docs touched lock act rebuild in auto)

lemma step_locked:
  assumes inv: "derive_inv env s" and k: "k < length (dv_runs s)" and r: "dv_runs s ! k = r"
    and was: "locked (dn_pc r)" "pc_meta (dn_pc r) = Some m"
    and same: "dv_corpus s1 = dv_corpus s" "dv_runs s1 = dv_runs s" "dv_lock s1 = dv_lock s" and docs: "docs_ok s1"
    and touched: "\<And>repo. repo \<noteq> cm_repo m \<or> \<not> rebuilding (dn_pc r) \<Longrightarrow> same_docs repo s s1"
    and now: "pc_meta pc' = Some m" "progress env (dn_version r) s1 pc'"
    and rebuild: "rebuilding pc' \<Longrightarrow> rebuilding (dn_pc r) \<or> (\<forall>row. due s row \<longrightarrow> vr_repo row \<noteq> cm_repo m)"
  shows "derive_inv env (s1\<lparr>dv_runs := (dv_runs s)[k := r\<lparr>dn_pc := pc'\<rparr>]\<rparr>)"
proof (rule step_keeps [OF inv k r same(1,2) docs])
  from inv k obtain row where row: "row \<in> set (versions s)" "vr_id row = dn_version r" "active (dn_pc r) \<Longrightarrow> vr_derive_status row = ''running''"
    "\<And>m. pc_meta (dn_pc r) = Some m \<Longrightarrow> cm_id m = dn_version r \<and> cm_repo m = vr_repo row
       \<and> (locked (dn_pc r) \<longrightarrow> dv_lock s (de_hashtext env (cm_repo m)) = Some k) \<and> progress env (dn_version r) s (dn_pc r)"
    unfolding r [symmetric] by (rule run_row) blast
  show "run_ok env s1 k (r\<lparr>dn_pc := pc'\<rparr>)"
    unfolding run_ok_def using row was now same locked_active [OF was(1)] by (intro bexI [of _ row]) auto
  show "same_docs repo s s1 \<or> rebuilding (dn_pc r) \<and> map_option cm_repo (pc_meta (dn_pc r)) = Some repo" for repo
    using touched [of repo] was by auto
  show "active (dn_pc r)" by (rule locked_active [OF was(1)])
  show "settled env (s1\<lparr>dv_runs := (dv_runs s)[k := r\<lparr>dn_pc := pc'\<rparr>]\<rparr>) x" if "pc' = At_status Completed" for x
    using that now by simp
qed (use same rebuild was now in auto)

text \<open>The check of the latest version under the lock.\<close>

lemma checked_latest:
  assumes inv: "derive_inv env s" and k: "k < length (dv_runs s)" and r: "dv_runs s ! k = r" and pc: "dn_pc r = At_check m"
    and res: "resolve_version (cm_repo m) ''latest'' (versions s) = Some latest" "map_option cm_id latest = Some (dn_version r)"
  shows "due s row \<Longrightarrow> vr_repo row \<noteq> cm_repo m"
proof
  assume due: "due s row" and repo: "vr_repo row = cm_repo m"
  have ok: "versions_ok (versions s)" using inv by (simp add: derive_inv_def corpus_inv_def)
  from res obtain lr where lr: "latest_row (cm_repo m) (versions s) = Some lr" "vr_id lr = dn_version r"
    by (auto simp: resolve_version_def row_to_meta_def split: option.splits)
  then have lr_in: "lr \<in> set (versions s)" "vr_repo lr = cm_repo m" "vr_is_latest lr"
    using fetch_optional_Some [of _ "versions s" lr] by (auto simp: latest_row_def)
  have row_in: "row \<in> set (versions s)" "vr_is_latest row" using due by (auto simp: due_def)
  have "distinct (map vr_repo (filter vr_is_latest (versions s)))" using ok by (simp add: versions_ok_def one_latest_def)
  moreover have "row \<in> set (filter vr_is_latest (versions s))" "lr \<in> set (filter vr_is_latest (versions s))" using row_in lr_in by auto
  ultimately have "row = lr" using repo lr_in(2) unfolding distinct_map by (metis inj_onD)
  obtain x where x: "x \<in> set (versions s)" "vr_id x = dn_version r" "vr_derive_status x = ''running''"
    using run_running [OF inv k] unfolding r pc active_def by auto
  have "x = row" using ok x(1,2) lr_in(1) lr(2) \<open>row = lr\<close> unfolding versions_ok_def distinct_map by (metis inj_onD)
  with due x(3) have "\<exists>q \<in> set (dv_runs s). dn_version q = vr_id x \<and> dn_pc q = At_status Completed" by (simp add: due_def)
  then obtain q where q: "q \<in> set (dv_runs s)" "dn_version q = dn_version r" "dn_pc q = At_status Completed"
    unfolding x(2) by blast
  from q(1) obtain j where j: "j < length (dv_runs s)" "dv_runs s ! j = q" by (auto simp: in_set_conv_nth)
  have act: "active (dn_pc (dv_runs s ! j))" "active (dn_pc (dv_runs s ! k))" "dn_version (dv_runs s ! j) = dn_version (dv_runs s ! k)"
    using j r q pc by (simp_all add: active_def)
  have "runs_alone (dv_runs s)" using inv by (simp add: derive_inv_def)
  then have "j = k" using j(1) k act unfolding runs_alone_def by blast
  with j(2) r have "q = r" by blast
  with q(3) pc show False by simp
qed

lemma advance_locked:
  assumes inv: "derive_inv env s" and k: "k < length (dv_runs s)" and r: "dv_runs s ! k = r"
    and was: "locked (dn_pc r)" "\<And>m out. dn_pc r \<noteq> At_unlock m out"
    and adv: "advance env k i rep msg (dn_version r) (dn_job r) (dn_pc r) s = (pc', s1)"
  shows "derive_inv env (s1\<lparr>dv_runs := (dv_runs s)[k := r\<lparr>dn_pc := pc'\<rparr>]\<rparr>)"
proof -
  have docs: "docs_ok s" using inv by (simp add: derive_inv_def)
  from was(1) obtain m where m: "pc_meta (dn_pc r) = Some m" by (cases "dn_pc r") (auto simp: locked_def)
  have prog: "progress env (dn_version r) s (dn_pc r)" using run_progress [OF inv k] r m by simp
  have same: "derive_inv env (s\<lparr>dv_runs := (dv_runs s)[k := r\<lparr>dn_pc := pc'\<rparr>]\<rparr>)"
    if "pc_meta pc' = Some m" "progress env (dn_version r) s pc'"
      "rebuilding pc' \<Longrightarrow> rebuilding (dn_pc r) \<or> (\<forall>row. due s row \<longrightarrow> vr_repo row \<noteq> cm_repo m)" for pc'
    by (rule step_locked [OF inv k r was(1) m refl refl refl docs _ that]) simp_all
  have fail: "derive_inv env (s\<lparr>dv_runs := (dv_runs s)[k := r\<lparr>dn_pc := At_unlock m (Errored e)\<rparr>]\<rparr>)" for e
    by (rule same) simp_all
  show ?thesis
  proof (cases "dn_pc r")
    case (At_check m')
    with m have m': "m' = m" by simp
    have "derive_inv env (s\<lparr>dv_runs := (dv_runs s)[k := r\<lparr>dn_pc := At_clean m\<rparr>]\<rparr>)"
      if "resolve_version (cm_repo m) ''latest'' (versions s) = Some latest" "map_option cm_id latest = Some (dn_version r)" for latest
      using checked_latest [OF inv k r At_check [unfolded m'] that] by (intro same) auto
    moreover have "derive_inv env (s\<lparr>dv_runs := (dv_runs s)[k := r\<lparr>dn_pc := At_unlock m Outdated\<rparr>]\<rparr>)" by (rule same) simp_all
    ultimately show ?thesis using adv fail by (auto simp: advance_def locked_step_def Let_def At_check m' split: option.splits if_splits)
  next
    case (At_clean m')
    with m have m': "m' = m" by simp
    let ?c = "clean_repo_corpus_docs (cm_repo m) (dv_docs s) (dv_sections s)"
    let ?s = "s\<lparr>dv_docs := fst ?c, dv_sections := snd ?c\<rparr>"
    have run: "?c = (dv_docs ?s, dv_sections ?s)" by simp
    have "derive_inv env (?s\<lparr>dv_runs := (dv_runs s)[k := r\<lparr>dn_pc := pc'\<rparr>]\<rparr>)" if "pc' = At_list m \<or> pc' = At_unlock m (Errored e)" for pc' e
    proof (rule step_locked [OF inv k r was(1) m _ _ _ clean_docs(1) [OF docs run]])
      show "same_docs repo s ?s" if "repo \<noteq> cm_repo m \<or> \<not> rebuilding (dn_pc r)" for repo
        using clean_docs(3) [OF docs run] that At_clean by (auto simp: locked_def)
      show "progress env (dn_version r) ?s pc'"
        using that clean_docs(2) [OF docs run] by (auto simp: corpus_view_def)
    qed (use that At_clean in \<open>auto simp: locked_def\<close>)
    then show ?thesis using adv fail by (auto simp: advance_def locked_step_def Let_def At_clean m' split: if_splits prod.splits)
  next
    case (At_list m')
    with m prog have "corpus_view (cm_repo m) s = []" and m': "m' = m" by simp_all
    then have "derive_inv env (s\<lparr>dv_runs := (dv_runs s)[k := r\<lparr>dn_pc := At_code_sha m (list_md_paths (dn_version r) (corpus_files_of s))\<rparr>]\<rparr>)"
      by (intro same) (simp_all add: At_list locked_def)
    then show ?thesis using adv fail by (auto simp: advance_def locked_step_def Let_def At_list m' split: if_splits)
  next
    case (At_code_sha m' paths)
    with m prog have "corpus_view (cm_repo m) s = []" "paths = list_md_paths (dn_version r) (corpus_files_of s)" and m': "m' = m" by simp_all
    then have "derive_inv env (s\<lparr>dv_runs := (dv_runs s)[k := r\<lparr>dn_pc := At_file m paths\<rparr>]\<rparr>)"
      by (intro same) (simp_all add: At_code_sha locked_def)
    then show ?thesis using adv fail by (auto simp: advance_def locked_step_def Let_def At_code_sha m' split: if_splits)
  next
    case (At_file m' paths)
    with m have m': "m' = m" by simp
    from prog obtain pre where pre: "list_md_paths (dn_version r) (corpus_files_of s) = pre @ paths"
      "corpus_view (cm_repo m) s = map (file_view env (dn_version r) (corpus_files_of s)) pre"
      by (auto simp: At_file m')
    show ?thesis
    proof (cases paths)
      case Nil
      with pre have "derive_inv env (s\<lparr>dv_runs := (dv_runs s)[k := r\<lparr>dn_pc := At_unlock m Completed\<rparr>]\<rparr>)"
        by (intro same) (simp_all add: At_file locked_def pages_view_def)
      then show ?thesis using adv by (auto simp: advance_def locked_step_def Let_def At_file m' Nil)
    next
      case (Cons p rest)
      have "derive_inv env (s\<lparr>dv_runs := (dv_runs s)[k := r\<lparr>dn_pc := At_document m p (page_title p x) x rest\<rparr>]\<rparr>)"
        if "get_file (dn_version r) p (corpus_files_of s) = Some f" "x = parse_markdown_sections (de_regex env) (fr_content f)" for f x
        using that pre Cons by (intro same) (auto simp: At_file locked_def file_view_def Let_def)
      then show ?thesis using adv fail by (auto simp: advance_def locked_step_def Let_def At_file m' Cons split: option.splits if_splits)
    qed
  next
    case (At_document m' p title sections rest)
    with m have m': "m' = m" by simp
    from prog obtain pre where pre: "list_md_paths (dn_version r) (corpus_files_of s) = pre @ p # rest"
      "corpus_view (cm_repo m) s = map (file_view env (dn_version r) (corpus_files_of s)) pre"
      "file_view env (dn_version r) (corpus_files_of s) p = (Some p, title, concat (map (section_lines env) sections))"
      by (auto simp: At_document m')
    have "derive_inv env (s\<lparr>dv_docs := docs'\<rparr>\<lparr>dv_runs := (dv_runs s)[k := r\<lparr>dn_pc := pc'\<rparr>]\<rparr>)"
      if ins: "insert_document i (cm_repo m) title ''corpus'' (Some p) (dv_docs s) = Inr docs'"
        and pc': "pc' = At_sections m i title (map (Pair None) sections) rest \<or> pc' = At_unlock m (Errored e)" for docs' pc' e
    proof -
      let ?s = "s\<lparr>dv_docs := docs'\<rparr>"
      obtain d where d: "docs_ok ?s" "repo_docs (cm_repo m) ?s = repo_docs (cm_repo m) s @ [d]" "dc_id d = i"
        "doc_view (dv_sections ?s) d = (Some p, title, [])" "\<And>repo'. repo' \<noteq> cm_repo m \<Longrightarrow> same_docs repo' s ?s"
        using insert_document_docs [OF docs, of i "cm_repo m" title "Some p" ?s] ins by auto
      show ?thesis
      proof (rule step_locked [OF inv k r was(1) m _ _ _ d(1)])
        have "progress env (dn_version r) ?s (At_sections m i title (map (Pair None) sections) rest)"
          using pre d(2,3,4) by (auto simp: corpus_view_def doc_view_def comp_def)
        then show "progress env (dn_version r) ?s pc'" using pc' by auto
      qed (use d pc' At_document in \<open>auto simp: locked_def\<close>)
    qed
    then show ?thesis using adv fail by (auto simp: advance_def locked_step_def Let_def At_document m' split: sum.splits if_splits)
  next
    case (At_sections m' d title work rest)
    with m have m': "m' = m" by simp
    from prog obtain pre p ds e where pre: "list_md_paths (dn_version r) (corpus_files_of s) = pre @ p # rest"
      "repo_docs (cm_repo m) s = ds @ [e]" "dc_id e = d"
      "map (doc_view (dv_sections s)) ds = map (file_view env (dn_version r) (corpus_files_of s)) pre" "dc_source_url e = Some p" "dc_title e = title"
      "file_view env (dn_version r) (corpus_files_of s) p = (Some p, title, doc_lines d (dv_sections s) @ concat (map (section_lines env) (map snd work)))"
      unfolding At_sections m' by auto
    show ?thesis
    proof (cases work)
      case Nil
      have "progress env (dn_version r) s (At_file m rest)"
        using pre Nil by (auto simp: corpus_view_def doc_view_def intro!: exI [of _ "pre @ [p]"])
      then have "derive_inv env (s\<lparr>dv_runs := (dv_runs s)[k := r\<lparr>dn_pc := At_file m rest\<rparr>]\<rparr>)"
        by (intro same) (simp_all add: At_sections locked_def)
      then show ?thesis using adv by (auto simp: advance_def locked_step_def Let_def At_sections m' Nil)
    next
      case (Cons w work')
      obtain parent x where w: "w = (parent, x)" by (cases w)
      let ?ins = "insert_section i d parent (rs_heading x) (rs_content x) (as_i16 (rs_depth x)) (as_i16 (rs_position x))
        (map (sx_lowercase (de_regex env)) (rs_tags x)) (de_embed env (section_embed_text title x)) (dv_docs s) (dv_sections s)"
      let ?next = "At_sections m d title (map (Pair (Some i)) (rs_children x) @ work') rest"
      have "derive_inv env (s\<lparr>dv_sections := secs\<rparr>\<lparr>dv_runs := (dv_runs s)[k := r\<lparr>dn_pc := pc'\<rparr>]\<rparr>)"
        if ins: "?ins = Inr secs" and pc': "pc' = ?next \<or> pc' = At_unlock m (Errored e)" for secs pc' e
      proof -
        let ?s = "s\<lparr>dv_sections := secs\<rparr>"
        note new = insert_section_docs [where s = s and s' = ?s, simplified, OF docs ins pre(2,3)]
        have lines: "section_lines env x = section_line env x # concat (map (section_lines env) (rs_children x))" by (cases x) simp
        have "map (doc_view secs) ds = map (doc_view (dv_sections s)) ds" using new(4) by simp
        then have "progress env (dn_version r) ?s ?next"
          using pre new(2,3) by (auto simp: Cons w lines section_line_def comp_def intro!: exI [of _ pre])
        then show ?thesis
          using new pc' At_sections by (intro step_locked [OF inv k r was(1) m _ _ _ new(1)]) (auto simp: locked_def)
      qed
      then show ?thesis using adv fail by (auto simp: advance_def locked_step_def Let_def At_sections m' Cons w split: sum.splits if_splits)
    qed
  qed (use was in \<open>auto simp: locked_def\<close>)
qed

lemma unique_row:
  assumes "corpus_inv (dv_corpus s)" and "x \<in> set (versions s)" and "y \<in> set (versions s)" and "vr_id x = vr_id y"
  shows "x = y"
  using assms unfolding corpus_inv_def versions_ok_def distinct_map by (metis inj_onD)

lemma run_exists:
  assumes "derive_inv env s" and "k < length (dv_runs s)"
  shows "\<exists>row \<in> set (versions s). vr_id row = dn_version (dv_runs s ! k)"
  using assms unfolding derive_inv_def run_ok_def by blast

lemma advance_unlock:
  assumes inv: "derive_inv env s" and k: "k < length (dv_runs s)" and r: "dv_runs s ! k = r" and pc: "dn_pc r = At_unlock m out"
  shows "derive_inv env (s\<lparr>dv_lock := (dv_lock s)(de_hashtext env (cm_repo m) := None)\<rparr>
    \<lparr>dv_runs := (dv_runs s)[k := r\<lparr>dn_pc := At_status out\<rparr>]\<rparr>)"
proof -
  let ?s = "s\<lparr>dv_lock := (dv_lock s)(de_hashtext env (cm_repo m) := None)\<rparr>"
  obtain row where row: "row \<in> set (versions s)" "vr_id row = dn_version r" "vr_derive_status row = ''running''" "cm_repo m = vr_repo row"
    and held: "dv_lock s (de_hashtext env (cm_repo m)) = Some k" and prog: "progress env (dn_version r) s (dn_pc r)"
  proof (rule run_row [OF inv k])
    fix row
    assume "row \<in> set (versions s)" "vr_id row = dn_version (dv_runs s ! k)" "active (dn_pc (dv_runs s ! k)) \<Longrightarrow> vr_derive_status row = ''running''"
      "\<And>m. pc_meta (dn_pc (dv_runs s ! k)) = Some m \<Longrightarrow> cm_id m = dn_version (dv_runs s ! k) \<and> cm_repo m = vr_repo row
       \<and> (locked (dn_pc (dv_runs s ! k)) \<longrightarrow> dv_lock s (de_hashtext env (cm_repo m)) = Some k)
       \<and> progress env (dn_version (dv_runs s ! k)) s (dn_pc (dv_runs s ! k))"
    then show thesis unfolding r pc by (intro that) (auto simp: pc active_def locked_def)
  qed
  show ?thesis
  proof (rule step_keeps [OF inv k r])
    show "run_ok env ?s k (r\<lparr>dn_pc := At_status out\<rparr>)" using row by (auto simp: run_ok_def)
    show "dv_lock ?s h = Some j" if "j \<noteq> k" "dv_lock s h = Some j" for h j using that held by auto
    show "settled env (?s\<lparr>dv_runs := (dv_runs s)[k := r\<lparr>dn_pc := At_status out\<rparr>]\<rparr>) x"
      if out: "At_status out = At_status Completed" and x: "x \<in> set (versions s)" "vr_id x = dn_version r" for x
    proof -
      have "x = row" using unique_row [of s] inv x row(1,2) unfolding derive_inv_def by metis
      moreover have "corpus_view (cm_repo m) s = pages_view env (dn_version r) (corpus_files_of s)" using prog out by (simp add: pc)
      moreover have "map_option cm_repo (pc_meta (dn_pc q)) \<noteq> Some (cm_repo m)"
        if q: "q \<in> set ((dv_runs s)[k := r\<lparr>dn_pc := At_status out\<rparr>])" "rebuilding (dn_pc q)" for q
      proof
        assume some: "map_option cm_repo (pc_meta (dn_pc q)) = Some (cm_repo m)"
        from q(1) obtain j where j: "j < length (dv_runs s)" "(dv_runs s)[k := r\<lparr>dn_pc := At_status out\<rparr>] ! j = q"
          by (auto simp: in_set_conv_nth)
        have "j \<noteq> k" using j q(2) by (auto simp: locked_def)
        then have q_j: "dv_runs s ! j = q" using j by simp
        from some obtain m' where m': "pc_meta (dn_pc q) = Some m'" "cm_repo m' = cm_repo m" by auto
        have "run_ok env s j q" using inv j(1) q_j by (auto simp: derive_inv_def)
        with m' rebuilding_locked [OF q(2)] have "dv_lock s (de_hashtext env (cm_repo m)) = Some j" unfolding run_ok_def by metis
        with held \<open>j \<noteq> k\<close> show False by simp
      qed
      ultimately show ?thesis using row x by (auto simp: settled_def corpus_view_def repo_docs_def)
    qed
  qed (use inv in \<open>auto simp: derive_inv_def docs_ok_def pc active_def\<close>)
qed

lemma advance_waiting:
  assumes inv: "derive_inv env s" and k: "k < length (dv_runs s)" and r: "dv_runs s ! k = r"
    and pc: "dn_pc r = At_lookup \<or> (\<exists>m. dn_pc r = At_lock m) \<or> dn_pc r = Ended"
    and adv: "advance env k i rep msg (dn_version r) (dn_job r) (dn_pc r) s = (pc', s1)"
  shows "derive_inv env (s1\<lparr>dv_runs := (dv_runs s)[k := r\<lparr>dn_pc := pc'\<rparr>]\<rparr>)"
proof -
  have docs: "docs_ok s" using inv by (simp add: derive_inv_def)
  obtain row where row: "row \<in> set (versions s)" "vr_id row = dn_version r" "active (dn_pc r) \<longrightarrow> vr_derive_status row = ''running''"
    and meta: "\<And>m. dn_pc r = At_lock m \<Longrightarrow> cm_id m = dn_version r \<and> cm_repo m = vr_repo row"
  proof (rule run_row [OF inv k])
    fix row
    assume "row \<in> set (versions s)" "vr_id row = dn_version (dv_runs s ! k)" "active (dn_pc (dv_runs s ! k)) \<Longrightarrow> vr_derive_status row = ''running''"
      "\<And>m. pc_meta (dn_pc (dv_runs s ! k)) = Some m \<Longrightarrow> cm_id m = dn_version (dv_runs s ! k) \<and> cm_repo m = vr_repo row
       \<and> (locked (dn_pc (dv_runs s ! k)) \<longrightarrow> dv_lock s (de_hashtext env (cm_repo m)) = Some k)
       \<and> progress env (dn_version (dv_runs s ! k)) s (dn_pc (dv_runs s ! k))"
    then show thesis by (intro that) (auto simp: r)
  qed
  have move: "derive_inv env (s2\<lparr>dv_runs := (dv_runs s)[k := r\<lparr>dn_pc := pc2\<rparr>]\<rparr>)"
    if "dv_corpus s2 = dv_corpus s" "dv_runs s2 = dv_runs s" "dv_docs s2 = dv_docs s" "dv_sections s2 = dv_sections s"
      "\<And>h j. j \<noteq> k \<Longrightarrow> dv_lock s h = Some j \<Longrightarrow> dv_lock s2 h = Some j" "run_ok env s2 k (r\<lparr>dn_pc := pc2\<rparr>)"
      "active pc2 \<Longrightarrow> active (dn_pc r)" "\<not> rebuilding pc2" "pc2 \<noteq> At_status Completed" for s2 pc2
    by (rule step_keeps [OF inv k r that(1,2)]) (use that docs in \<open>auto simp: docs_ok_def\<close>)
  from pc show ?thesis
  proof (elim disjE exE)
    assume pc: "dn_pc r = At_lookup"
    have ok: "run_ok env s k (r\<lparr>dn_pc := At_status out\<rparr>)" for out using row by (auto simp: run_ok_def pc active_def)
    have fail: "derive_inv env (s\<lparr>dv_runs := (dv_runs s)[k := r\<lparr>dn_pc := At_status (Errored msg)\<rparr>]\<rparr>)"
      by (rule move) (auto simp: ok pc active_def locked_def)
    have found: "derive_inv env (s\<lparr>dv_runs := (dv_runs s)[k := r\<lparr>dn_pc := At_lock m\<rparr>]\<rparr>)"
      if "get_version_by_id (dn_version r) (versions s) = Some (Some m)" for m
    proof -
      from that obtain x where x: "fetch_optional (\<lambda>r'. vr_id r' = dn_version r) (versions s) = Some x" "row_to_meta x = Some m"
        by (auto simp: get_version_by_id_def split: option.splits)
      have "x \<in> set (versions s)" "vr_id x = dn_version r" using fetch_optional_Some [OF x(1)] by simp_all
      then have "x = row" using unique_row [of s] inv row(1,2) unfolding derive_inv_def by metis
      then have "cm_id m = dn_version r \<and> cm_repo m = vr_repo row" using x(2) row(2) by (auto simp: row_to_meta_def)
      then show ?thesis using row by (intro move) (auto simp: run_ok_def pc active_def locked_def)
    qed
    show ?thesis using adv fail found by (auto simp: advance_def Let_def pc split: option.splits if_splits)
  next
    fix m
    assume pc: "dn_pc r = At_lock m"
    have fail: "derive_inv env (s\<lparr>dv_runs := (dv_runs s)[k := r\<lparr>dn_pc := At_status (Errored msg)\<rparr>]\<rparr>)"
      by (rule move) (use row in \<open>auto simp: run_ok_def pc active_def locked_def\<close>)
    have wait: "derive_inv env (s\<lparr>dv_runs := (dv_runs s)[k := r\<lparr>dn_pc := At_lock m\<rparr>]\<rparr>)"
      by (rule move) (use row meta [OF pc] in \<open>auto simp: run_ok_def pc active_def locked_def\<close>)
    have take: "derive_inv env (s\<lparr>dv_lock := (dv_lock s)(de_hashtext env (cm_repo m) \<mapsto> k)\<rparr>
        \<lparr>dv_runs := (dv_runs s)[k := r\<lparr>dn_pc := At_check m\<rparr>]\<rparr>)" if "dv_lock s (de_hashtext env (cm_repo m)) = None"
      by (rule move) (use row meta [OF pc] that in \<open>auto simp: run_ok_def pc active_def locked_def\<close>)
    show ?thesis using adv fail wait take by (auto simp: advance_def Let_def pc split: if_splits)
  next
    assume pc: "dn_pc r = Ended"
    have "derive_inv env (s\<lparr>dv_runs := (dv_runs s)[k := r\<lparr>dn_pc := Ended\<rparr>]\<rparr>)"
      by (rule move) (use row in \<open>auto simp: run_ok_def pc active_def locked_def\<close>)
    then show ?thesis using adv by (simp add: advance_def Let_def pc)
  qed
qed

lemma corpus_inv_versions:
  assumes "corpus_inv db" and "versions_ok t" and "map vr_id t = map vr_id (cd_versions db)"
  shows "corpus_inv (db\<lparr>cd_versions := t\<rparr>)"
proof -
  have "vr_id ` set t = vr_id ` set (cd_versions db)" using assms(3) by (metis set_map)
  with assms show ?thesis by (simp add: corpus_inv_def)
qed

lemma set_versions_simps [simp]:
  "versions (set_versions t s) = t" "corpus_files_of (set_versions t s) = corpus_files_of s" "dv_docs (set_versions t s) = dv_docs s"
  "dv_sections (set_versions t s) = dv_sections s" "dv_lock (set_versions t s) = dv_lock s" "dv_runs (set_versions t s) = dv_runs s"
  "dv_corpus (set_versions t s) = (dv_corpus s)\<lparr>cd_versions := t\<rparr>"
  by (simp_all add: set_versions_def)

lemma not_due_again:
  assumes "due (s1\<lparr>dv_runs := (dv_runs s)[k := q]\<rparr>) y" and "vr_is_latest y = vr_is_latest x" and "vr_id y = vr_id x" and "x \<in> set (versions s)"
    and "vr_derive_status y = ''complete'' \<Longrightarrow> due s x" and "dn_pc q \<noteq> At_status Completed"
  shows "due s x"
proof -
  let ?P = "\<lambda>r. dn_version r = vr_id x \<and> dn_pc r = At_status Completed"
  have "\<exists>r \<in> set (dv_runs s). ?P r" if "\<exists>r \<in> set ((dv_runs s)[k := q]). ?P r"
    using that by (rule bex_update) (use assms(6) in auto)
  with assms show ?thesis by (auto simp: due_def)
qed

text \<open>The steps that change the derive status of the version of the run.\<close>

lemma step_status:
  assumes inv: "derive_inv env s" and k: "k < length (dv_runs s)" and r: "dv_runs s ! k = r"
    and t: "t = map f (versions s)"
      "\<And>x. x \<in> set (versions s) \<Longrightarrow> vr_id (f x) = vr_id x \<and> vr_repo (f x) = vr_repo x \<and> vr_is_latest (f x) = vr_is_latest x
          \<and> (vr_derive_status (f x) = vr_derive_status x \<or> vr_id x = dn_version r \<and> no_other s k (dn_version r))"
    and ok: "versions_ok t"
    and own: "run_ok env (set_versions t s) k (r\<lparr>dn_pc := pc'\<rparr>)" and alone: "active pc' \<Longrightarrow> active (dn_pc r) \<or> no_other s k (dn_version r)"
    and pc': "\<not> rebuilding pc'" "pc' \<noteq> At_status Completed"
    and new: "\<And>x. x \<in> set (versions s) \<Longrightarrow> vr_is_latest x \<Longrightarrow> vr_derive_status (f x) = ''complete'' \<Longrightarrow> due s x"
  shows "derive_inv env (set_versions t s\<lparr>dv_runs := (dv_runs s)[k := r\<lparr>dn_pc := pc'\<rparr>]\<rparr>)"
proof (rule step_frame [OF inv k r, where f = f])
  let ?s = "set_versions t s\<lparr>dv_runs := (dv_runs s)[k := r\<lparr>dn_pc := pc'\<rparr>]\<rparr>"
  have "map vr_id t = map vr_id (versions s)" using t(2) by (simp add: t(1))
  then show "corpus_inv (dv_corpus ?s)" using inv ok corpus_inv_versions by (simp add: derive_inv_def)
  show "docs_ok ?s" using inv by (simp add: derive_inv_def docs_ok_def)
  show "run_ok env ?s k (r\<lparr>dn_pc := pc'\<rparr>)" using own by (simp add: run_ok_def)
  show "settled env ?s (f x)" if x: "x \<in> set (versions s)" "due ?s (f x)" "\<not> due s x" for x
  proof -
    have "vr_is_latest x" using x(2) t(2) [OF x(1)] by (simp add: due_def)
    with new x(1) have complete: "vr_derive_status (f x) = ''complete'' \<Longrightarrow> due s x" by blast
    have "due s x" by (rule not_due_again [OF x(2) _ _ x(1) complete]) (use t(2) [OF x(1)] pc'(2) in simp_all)
    with x(3) show ?thesis by simp
  qed
qed (use t(2) alone pc' in \<open>simp_all add: t(1)\<close>)

lemma advance_status:
  assumes inv: "derive_inv env s" and k: "k < length (dv_runs s)" and r: "dv_runs s ! k = r" and pc: "dn_pc r = At_status out"
    and adv: "advance env k i rep msg (dn_version r) (dn_job r) (dn_pc r) s = (pc', s1)"
  shows "derive_inv env (s1\<lparr>dv_runs := (dv_runs s)[k := r\<lparr>dn_pc := pc'\<rparr>]\<rparr>)"
proof -
  let ?v = "dn_version r"
  have ok: "versions_ok (versions s)" using inv by (simp add: derive_inv_def corpus_inv_def)
  have r_in: "r \<in> set (dv_runs s)" using k r by auto
  have "active (dn_pc r)" by (simp add: pc active_def)
  then have alone: "no_other s k ?v" using inv k unfolding derive_inv_def runs_alone_def no_other_def r [symmetric] by blast
  obtain row where row: "row \<in> set (versions s)" "vr_id row = ?v" using run_exists [OF inv k] r by blast
  have set_status: "derive_inv env (set_versions (set_derive_status ?v d err (dn_job r) (versions s)) s\<lparr>dv_runs := (dv_runs s)[k := r\<lparr>dn_pc := Ended\<rparr>]\<rparr>)"
    if d: "d = Complete \<Longrightarrow> out = Completed" for d err
  proof (rule step_status [OF inv k r])
    let ?f = "\<lambda>x. if vr_id x = ?v then x\<lparr>vr_derive_status := derive_status_str d, vr_derive_error := err, vr_derive_job_id := dn_job r\<rparr> else x"
    show "set_derive_status ?v d err (dn_job r) (versions s) = map ?f (versions s)"
      by (simp add: set_derive_status_def update_where_def)
    show "versions_ok (set_derive_status ?v d err (dn_job r) (versions s))" by (rule set_derive_status_ok [OF ok])
    show "run_ok env (set_versions (set_derive_status ?v d err (dn_job r) (versions s)) s) k (r\<lparr>dn_pc := Ended\<rparr>)"
      using row by (auto simp: run_ok_def active_def set_derive_status_def update_where_def intro!: bexI [of _ "?f row"])
    show "due s x" if x: "x \<in> set (versions s)" "vr_is_latest x" "vr_derive_status (?f x) = ''complete''" for x
    proof (cases "vr_id x = ?v")
      case True
      with x(3) d have "out = Completed" by (cases d) simp_all
      with r_in pc True x show ?thesis by (auto simp: due_def)
    next
      case False
      with x show ?thesis by (simp add: due_def)
    qed
  qed (use alone in \<open>auto simp: active_def locked_def\<close>)
  have "derive_inv env (s\<lparr>dv_runs := (dv_runs s)[k := r\<lparr>dn_pc := Ended\<rparr>]\<rparr>)"
    by (rule step_keeps [OF inv k r refl refl]) (use inv row in \<open>auto simp: derive_inv_def run_ok_def active_def locked_def\<close>)
  then show ?thesis using adv set_status by (auto simp: advance_def Let_def pc split: derive_outcome.splits if_splits)
qed

lemma advance_claim:
  assumes inv: "derive_inv env s" and k: "k < length (dv_runs s)" and r: "dv_runs s ! k = r" and pc: "dn_pc r = At_claim"
    and adv: "advance env k i rep msg (dn_version r) (dn_job r) (dn_pc r) s = (pc', s1)"
  shows "derive_inv env (s1\<lparr>dv_runs := (dv_runs s)[k := r\<lparr>dn_pc := pc'\<rparr>]\<rparr>)"
proof -
  let ?v = "dn_version r"
  have ok: "versions_ok (versions s)" using inv by (simp add: derive_inv_def corpus_inv_def)
  obtain row where row: "row \<in> set (versions s)" "vr_id row = ?v" using run_exists [OF inv k] r by blast
  have only: "x = row" if "x \<in> set (versions s)" "vr_id x = ?v" for x
    using unique_row [of s x row] inv that row by (simp add: derive_inv_def)
  have alone: "no_other s k ?v" if "claimable ?v row"
  proof -
    have "dn_version (dv_runs s ! j) \<noteq> ?v" if "j < length (dv_runs s)" "active (dn_pc (dv_runs s ! j))" for j
      using run_running [OF inv that] only \<open>claimable ?v row\<close> by (metis claimable_def)
    then show ?thesis by (simp add: no_other_def)
  qed
  let ?t = "snd (claim_derive_running ?v (dn_job r) (versions s))"
  have claim: "derive_inv env (set_versions ?t s\<lparr>dv_runs := (dv_runs s)[k := r\<lparr>dn_pc := pc2\<rparr>]\<rparr>)"
    if pc2: "pc2 = Ended \<or> pc2 = At_lookup \<and> claimable ?v row" for pc2
  proof (rule step_status [OF inv k r])
    let ?f = "\<lambda>x. if claimable ?v x then x\<lparr>vr_derive_status := ''running'', vr_derive_error := None, vr_derive_job_id := dn_job r\<rparr> else x"
    show t: "?t = map ?f (versions s)" by (simp add: claim_derive_running_def update_where_def)
    show "versions_ok ?t" by (rule claim_derive_ok [OF ok])
    show "run_ok env (set_versions ?t s) k (r\<lparr>dn_pc := pc2\<rparr>)"
      using row pc2 unfolding t by (auto simp: run_ok_def active_def claimable_def intro!: bexI [of _ "?f row"])
    show "vr_id (?f x) = vr_id x \<and> vr_repo (?f x) = vr_repo x \<and> vr_is_latest (?f x) = vr_is_latest x
          \<and> (vr_derive_status (?f x) = vr_derive_status x \<or> vr_id x = ?v \<and> no_other s k ?v)" if "x \<in> set (versions s)" for x
      using alone only that by (auto simp: claimable_def)
    show "due s x" if "x \<in> set (versions s)" "vr_is_latest x" "vr_derive_status (?f x) = ''complete''" for x
      using that by (auto simp: due_def split: if_splits)
  qed (use pc2 alone in \<open>auto simp: active_def locked_def\<close>)
  have refused: "derive_inv env (s\<lparr>dv_runs := (dv_runs s)[k := r\<lparr>dn_pc := Ended\<rparr>]\<rparr>)"
    by (rule step_keeps [OF inv k r refl refl]) (use inv row in \<open>auto simp: derive_inv_def run_ok_def active_def locked_def\<close>)
  have won: "fst (claim_derive_running ?v (dn_job r) (versions s)) \<Longrightarrow> claimable ?v row"
    using only by (auto simp: claim_derive_running_def rows_affected_pos claimable_def)
  show ?thesis
    using adv claim [of pc'] refused won by (auto simp: advance_def Let_def pc split: if_splits prod.splits)
qed

lemma run_step_inv:
  assumes inv: "derive_inv env s"
  shows "derive_inv env (run_step env k i rep msg s)"
proof (cases "k < length (dv_runs s)")
  case k: True
  let ?r = "dv_runs s ! k"
  obtain pc' s1 where adv: "advance env k i rep msg (dn_version ?r) (dn_job ?r) (dn_pc ?r) s = (pc', s1)" by fastforce
  have step: "run_step env k i rep msg s = s1\<lparr>dv_runs := (dv_runs s)[k := ?r\<lparr>dn_pc := pc'\<rparr>]\<rparr>"
    using k adv by (simp add: run_step_def Let_def)
  consider (locked) "locked (dn_pc ?r)" "\<And>m out. dn_pc ?r \<noteq> At_unlock m out" | (unlock) m out where "dn_pc ?r = At_unlock m out"
    | (waiting) "dn_pc ?r = At_lookup \<or> (\<exists>m. dn_pc ?r = At_lock m) \<or> dn_pc ?r = Ended" | (status) out where "dn_pc ?r = At_status out"
    | (claim) "dn_pc ?r = At_claim"
    by (cases "dn_pc ?r") (auto simp: locked_def)
  then show ?thesis
  proof cases
    case locked
    from advance_locked [OF inv k refl locked adv] show ?thesis by (simp add: step)
  next
    case (unlock m out)
    from advance_unlock [OF inv k refl unlock] adv show ?thesis by (simp add: step unlock advance_def Let_def)
  next
    case waiting
    from advance_waiting [OF inv k refl waiting adv] show ?thesis by (simp add: step)
  next
    case (status out)
    from advance_status [OF inv k refl status adv] show ?thesis by (simp add: step)
  next
    case claim
    from advance_claim [OF inv k refl claim adv] show ?thesis by (simp add: step)
  qed
qed (simp add: run_step_def inv)

text \<open>The events that start runs.\<close>

lemma spawn_inv:
  assumes inv: "derive_inv env s" and v: "v \<in> vr_id ` set (versions s)"
  shows "derive_inv env (spawn v job s)"
proof -
  let ?n = "\<lparr>dn_version = v, dn_job = job, dn_pc = At_claim\<rparr>"
  let ?s = "s\<lparr>dv_runs := dv_runs s @ [?n]\<rparr>"
  have idle: "\<not> active (dn_pc ?n)" by (simp add: active_def)
  have "runs_alone (dv_runs ?s)"
    using inv idle by (auto simp: derive_inv_def runs_alone_def nth_append less_Suc_eq)
  moreover have "run_ok env ?s k (dv_runs ?s ! k)" if "k < length (dv_runs ?s)" for k
  proof (cases "k < length (dv_runs s)")
    case True
    then have "run_ok env s k (dv_runs s ! k)" using inv by (simp add: derive_inv_def)
    with True show ?thesis by (simp add: run_ok_def nth_append)
  next
    case False
    with that have k: "k = length (dv_runs s)" by simp
    from v obtain row where "row \<in> set (versions s)" "vr_id row = v" by blast
    then have "run_ok env ?s k ?n" unfolding run_ok_def by (intro bexI [of _ row]) (simp_all add: active_def)
    with k show ?thesis by simp
  qed
  moreover have "settled env ?s row" if "due ?s row" for row
  proof -
    from that have "due s row" by (auto simp: due_def)
    with inv have "settled env s row" by (simp add: derive_inv_def)
    then show ?thesis by (auto simp: settled_def locked_def)
  qed
  ultimately show ?thesis using inv by (simp add: derive_inv_def spawn_def)
qed

lemma files_kept:
  assumes "filter (\<lambda>r. fr_version_id r \<noteq> i) t' = filter (\<lambda>r. fr_version_id r \<noteq> i) t" and "v \<noteq> i"
  shows "list_md_paths v t' = list_md_paths v t" and "file_view env v t' = file_view env v t"
proof -
  have split: "filter (\<lambda>r. fr_version_id r = v \<and> P r) xs = filter (\<lambda>r. fr_version_id r = v \<and> P r) (filter (\<lambda>r. fr_version_id r \<noteq> i) xs)" for P xs
    unfolding filter_filter using assms(2) by (metis (mono_tags, lifting))
  show "list_md_paths v t' = list_md_paths v t"
    unfolding list_md_paths_def using split [of fr_is_markdown t] split [of fr_is_markdown t'] assms(1) by metis
  have find: "List.find P xs = (case filter P xs of [] \<Rightarrow> None | x # _ \<Rightarrow> Some x)" for P and xs :: "file_row list"
    by (induction xs) auto
  have "get_file v p t' = get_file v p t" for p
    unfolding get_file_def fetch_optional_def find using split [of "\<lambda>r. fr_path r = p" t] split [of "\<lambda>r. fr_path r = p" t'] assms(1) by metis
  then show "file_view env v t' = file_view env v t" by (simp add: fun_eq_iff file_view_def)
qed

lemma inserted_inv:
  assumes inv: "derive_inv env s" and fresh: "i \<notin> vr_id ` set (versions s)"
    and run: "insert_version up sha256 i now v (dv_corpus s) = (res, db)"
  shows "derive_inv env (s\<lparr>dv_corpus := db\<rparr>)"
proof -
  have corpus: "corpus_inv (dv_corpus s)" using inv by (simp add: derive_inv_def)
  have new_corpus: "corpus_inv db" by (rule insert_version_keeps_inv [OF corpus fresh run])
  from fresh run show ?thesis
  proof (cases rule: insert_version_cases)
    case unchanged
    with inv show ?thesis by simp
  next
    case (replay r m)
    with inv show ?thesis by simp
  next
    case (inserted fs)
    let ?s = "s\<lparr>dv_corpus := db\<rparr>" and ?repo = "mf_repo (nv_manifest v)"
    have rows: "cd_versions db = map (unlatest ?repo) (versions s) @ [new_row i now v]" and files: "cd_files db = fs"
      using inserted by (simp_all add: flip_map)
    have kept: "list_md_paths w fs = list_md_paths w (corpus_files_of s)" "file_view env w fs = file_view env w (corpus_files_of s)"
      if "w \<noteq> i" for w
      using files_kept [OF insert_files_keeps [OF inserted(4)] that] by simp_all
    have old_ids: "dn_version r \<noteq> i" if "r \<in> set (dv_runs s)" for r
    proof -
      from that obtain k where k: "k < length (dv_runs s)" "dv_runs s ! k = r" by (auto simp: in_set_conv_nth)
      from run_exists [OF inv k(1)] k(2) obtain row where "row \<in> set (versions s)" "vr_id row = dn_version r" by blast
      with fresh show ?thesis by (metis imageI)
    qed
    have "run_ok env ?s k (dv_runs ?s ! k)" if k: "k < length (dv_runs ?s)" for k
    proof -
      let ?r = "dv_runs s ! k"
      have k': "k < length (dv_runs s)" using k by simp
      with inv have "run_ok env s k ?r" by (simp add: derive_inv_def)
      then obtain x where x: "x \<in> set (versions s)" "vr_id x = dn_version ?r" "active (dn_pc ?r) \<longrightarrow> vr_derive_status x = ''running''"
        "\<And>m. pc_meta (dn_pc ?r) = Some m \<Longrightarrow> cm_id m = dn_version ?r \<and> cm_repo m = vr_repo x
          \<and> (locked (dn_pc ?r) \<longrightarrow> dv_lock s (de_hashtext env (cm_repo m)) = Some k) \<and> progress env (dn_version ?r) s (dn_pc ?r)"
        unfolding run_ok_def by blast
      have "dn_version ?r \<noteq> i" using k' old_ids by simp
      then have "progress env (dn_version ?r) ?s (dn_pc ?r)" if "pc_meta (dn_pc ?r) = Some m" for m
        using x(4) [OF that] that kept files by (intro progress_cong [of _ m s ?s]) simp_all
      moreover have "unlatest ?repo x \<in> set (versions ?s)" using x(1) by (simp add: rows)
      ultimately show ?thesis unfolding run_ok_def using x by (intro bexI [of _ "unlatest ?repo x"]) auto
    qed
    moreover have "settled env ?s row" if due: "due ?s row" for row
    proof -
      have not_new: "row \<noteq> new_row i now v"
        using due old_ids by (auto simp: due_def)
      with due obtain x where x: "x \<in> set (versions s)" "row = unlatest ?repo x" by (auto simp: due_def rows)
      with due have "vr_repo x \<noteq> ?repo" by (simp add: due_def)
      with x have row: "row = x" by simp
      have "due s x" using due x(1) by (simp add: due_def row)
      with inv have "settled env s x" by (simp add: derive_inv_def)
      moreover have "vr_id x \<noteq> i" using fresh x(1) by (metis imageI)
      ultimately show ?thesis using kept files by (simp add: settled_def pages_view_def row corpus_view_def repo_docs_def)
    qed
    ultimately show ?thesis using inv new_corpus by (simp add: derive_inv_def docs_ok_def)
  qed
qed

lemma store_version_inv:
  assumes inv: "derive_inv env s"
  shows "derive_inv env (snd (store_version up sha256 i now v job s))"
proof -
  obtain res db where run: "insert_version up sha256 i now v (dv_corpus s) = (res, db)" by fastforce
  show ?thesis
  proof (cases "i \<in> vr_id ` set (versions s)")
    case True
    from insert_version_taken [OF True, of up sha256 now v] run have "db = dv_corpus s" "\<And>m. res \<noteq> Some (Inserted m)" by auto
    then show ?thesis using inv run by (auto simp: store_version_def split: option.split insert_outcome.split)
  next
    case False
    note new = inserted_inv [OF inv False run]
    have "cm_id m \<in> vr_id ` set (versions (s\<lparr>dv_corpus := db\<rparr>))" if "res = Some (Inserted m)" for m
      using False run
    proof (cases rule: insert_version_cases)
      case (inserted fs)
      with that show ?thesis by (auto simp: inserted_meta_def Let_def)
    qed (use that in auto)
    with new show ?thesis using run spawn_inv [OF new] by (auto simp: store_version_def split: option.split insert_outcome.split)
  qed
qed

lemma retry_inv:
  assumes inv: "derive_inv env s"
  shows "derive_inv env (snd (retry_derive up repo job s))"
proof -
  have "cm_id m \<in> vr_id ` set (versions s)" if "resolve_version repo ''latest'' (versions s) = Some (Some m)" for m
  proof -
    from that obtain x where "latest_row repo (versions s) = Some x" "row_to_meta x = Some m"
      by (auto simp: resolve_version_def split: option.splits)
    moreover from this have "x \<in> set (versions s)" using fetch_optional_Some by (fastforce simp: latest_row_def)
    ultimately show ?thesis by (auto simp: row_to_meta_def)
  qed
  then show ?thesis using inv spawn_inv [OF inv] by (auto simp: retry_derive_def split: option.split)
qed

lemma derive_exec_inv: "derive_inv env s \<Longrightarrow> derive_inv env (derive_exec env e s)"
proof (cases e)
  case Restart
  assume inv: "derive_inv env s"
  have "settled env (s\<lparr>dv_lock := (\<lambda>_. None), dv_runs := []\<rparr>) row" if "due (s\<lparr>dv_lock := (\<lambda>_. None), dv_runs := []\<rparr>) row" for row
  proof -
    from that have "due s row" by (auto simp: due_def)
    with inv have "settled env s row" by (simp add: derive_inv_def)
    then show ?thesis by (simp add: settled_def corpus_view_def repo_docs_def)
  qed
  with inv Restart show ?thesis by (simp add: derive_inv_def docs_ok_def runs_alone_def)
qed (simp_all add: store_version_inv retry_inv run_step_inv)

lemma derive_history_inv: "derive_inv env s \<Longrightarrow> derive_inv env (derive_history env es s)"
  by (induction es arbitrary: s) (simp_all add: derive_history_def derive_exec_inv)

lemma derive_inv_start:
  assumes "cd_versions (dv_corpus s) = []" and "cd_files (dv_corpus s) = []" and "dv_runs s = []" and "docs_ok s"
  shows "derive_inv env s"
  using assms by (simp add: derive_inv_def corpus_inv_def versions_ok_def one_latest_def files_ok_def runs_alone_def due_def)

text \<open>C36. Over any interleaving of publications, retries, runs and restarts, whatever calls fail: when the latest version of a repository is
  marked complete, its corpus documents are exactly the pages of that version, in order, each with its title and its sections.\<close>

theorem complete_docs_exact:
  assumes start: "cd_versions (dv_corpus s) = []" "cd_files (dv_corpus s) = []" "dv_runs s = []" "docs_ok s"
    and run: "derive_history env es s = s'"
    and latest: "latest_row repo (versions s') = Some row" and complete: "vr_derive_status row = ''complete''"
  shows "corpus_view repo s' = pages_view env (vr_id row) (cd_files (dv_corpus s'))"
proof -
  have "derive_inv env s'" using derive_history_inv [OF derive_inv_start [OF start]] run by blast
  moreover have row: "row \<in> set (versions s')" "vr_repo row = repo" "vr_is_latest row"
    using fetch_optional_Some [OF latest [unfolded latest_row_def]] by simp_all
  moreover have "due s' row" using row complete by (simp add: due_def)
  ultimately have "settled env s' row" by (simp add: derive_inv_def)
  then show ?thesis by (simp add: settled_def row(2))
qed

section \<open>Runs that do not come back\<close>

text \<open>A version marked as running without a run.\<close>

definition abandoned :: "uuid \<Rightarrow> 'v derive_sys \<Rightarrow> bool" where
  "abandoned v s \<longleftrightarrow> v \<in> vr_id ` set (versions s) \<and> (\<forall>row \<in> set (versions s). vr_id row = v \<longrightarrow> vr_derive_status row = ''running'')
     \<and> (\<forall>r \<in> set (dv_runs s). dn_version r = v \<longrightarrow> \<not> active (dn_pc r))"

lemma filter_update_where:
  assumes "\<And>x. p x \<Longrightarrow> \<not> q x \<and> \<not> q (f x)"
  shows "filter q (update_where p f t) = filter q t"
  using assms by (induction t) (auto simp: update_where_def)

lemma advance_other_versions:
  assumes "advance env k i rep msg w job pc s = (pc', s1)" and "w \<noteq> v"
  shows "filter (\<lambda>x. vr_id x = v) (versions s1) = filter (\<lambda>x. vr_id x = v) (versions s)"
proof -
  have set_status: "filter (\<lambda>x. vr_id x = v) (set_derive_status w d err job t) = filter (\<lambda>x. vr_id x = v) t" for d err t
    unfolding set_derive_status_def using assms(2) by (intro filter_update_where) auto
  have claim: "filter (\<lambda>x. vr_id x = v) (snd (claim_derive_running w job t)) = filter (\<lambda>x. vr_id x = v) t" for t
    unfolding claim_derive_running_def snd_conv using assms(2) by (intro filter_update_where) (auto simp: claimable_def)
  have claimed: "claim_derive_running w job t = (c, t') \<Longrightarrow> filter (\<lambda>x. vr_id x = v) t' = filter (\<lambda>x. vr_id x = v) t" for c t t'
    using claim [of t] by simp
  from assms(1) show ?thesis
    by (cases pc)
      (auto simp: advance_def locked_step_def Let_def set_status dest!: claimed
        split: if_splits option.splits sum.splits prod.splits list.splits derive_outcome.splits)
qed

lemma abandoned_alt:
  "abandoned v s \<longleftrightarrow> filter (\<lambda>x. vr_id x = v) (versions s) \<noteq> [] \<and> (\<forall>x \<in> set (filter (\<lambda>x. vr_id x = v) (versions s)). vr_derive_status x = ''running'')
     \<and> (\<forall>r \<in> set (dv_runs s). dn_version r = v \<longrightarrow> \<not> active (dn_pc r))"
  by (auto simp: abandoned_def filter_empty_conv)

lemma advance_abandoned:
  assumes v: "abandoned v s" and k: "k < length (dv_runs s)" and own: "dn_version (dv_runs s ! k) = v"
    and adv: "advance env k i rep msg v job (dn_pc (dv_runs s ! k)) s = (pc', s1)"
  shows "\<not> active pc' \<and> versions s1 = versions s"
proof -
  have "\<not> active (dn_pc (dv_runs s ! k))" using v k own by (simp add: abandoned_def)
  then consider "dn_pc (dv_runs s ! k) = At_claim" | "dn_pc (dv_runs s ! k) = Ended" by (auto simp: active_def)
  then show ?thesis
  proof cases
    case 1
    have "\<forall>x \<in> set (versions s). \<not> claimable v x" using v by (auto simp: abandoned_def claimable_def)
    then have "claim_derive_running v job (versions s) = (False, versions s)"
      by (auto simp: claim_derive_running_def rows_affected_def filter_empty_conv update_where_none)
    with adv 1 show ?thesis by (auto simp: advance_def Let_def active_def split: if_splits)
  next
    case 2
    with adv show ?thesis by (auto simp: advance_def Let_def active_def)
  qed
qed

lemma run_step_abandoned:
  assumes v: "abandoned v s"
  shows "abandoned v (run_step env k i rep msg s)"
proof (cases "k < length (dv_runs s)")
  case k: True
  let ?r = "dv_runs s ! k"
  obtain pc' s1 where adv: "advance env k i rep msg (dn_version ?r) (dn_job ?r) (dn_pc ?r) s = (pc', s1)" by fastforce
  have step: "run_step env k i rep msg s = s1\<lparr>dv_runs := (dv_runs s)[k := ?r\<lparr>dn_pc := pc'\<rparr>]\<rparr>"
    using k adv by (simp add: run_step_def Let_def)
  have "filter (\<lambda>x. vr_id x = v) (versions s1) = filter (\<lambda>x. vr_id x = v) (versions s) \<and> (dn_version ?r = v \<longrightarrow> \<not> active pc')"
    using advance_abandoned [OF v k] advance_other_versions [OF adv] adv by metis
  moreover have "q = ?r\<lparr>dn_pc := pc'\<rparr> \<or> q \<in> set (dv_runs s)" if "q \<in> set ((dv_runs s)[k := ?r\<lparr>dn_pc := pc'\<rparr>])" for q
    using that by (metis insert_iff set_update_subset_insert subsetD)
  ultimately show ?thesis using v unfolding abandoned_alt step by fastforce
qed (simp add: run_step_def v)

lemma spawn_abandoned: "abandoned v s \<Longrightarrow> abandoned v (spawn w job s)"
  by (auto simp: abandoned_def spawn_def active_def)

lemma derive_exec_abandoned:
  assumes v: "abandoned v s"
  shows "abandoned v (derive_exec env e s)"
proof (cases e)
  case (Publish up sha256 i now nv job)
  obtain res db where run: "insert_version up sha256 i now nv (dv_corpus s) = (res, db)" by fastforce
  have "abandoned v (s\<lparr>dv_corpus := db\<rparr>)"
  proof (cases "i \<in> vr_id ` set (versions s)")
    case True
    from insert_version_taken(1) [OF True, of up sha256 now nv] run v show ?thesis by simp
  next
    case False
    then have "i \<noteq> v" using v by (auto simp: abandoned_def)
    from False run show ?thesis
    proof (cases rule: insert_version_cases)
      case (inserted fs)
      with v \<open>i \<noteq> v\<close> show ?thesis by (auto simp: abandoned_def flip_map image_iff)
    qed (use v in simp_all)
  qed
  then show ?thesis
    using run spawn_abandoned by (auto simp: Publish store_version_def split: option.split insert_outcome.split)
next
  case (Retry up repo job)
  then show ?thesis using v spawn_abandoned by (auto simp: retry_derive_def split: option.split)
next
  case (Run_step k i rep msg)
  then show ?thesis using run_step_abandoned [OF v] by simp
next
  case Restart
  then show ?thesis using v by (simp add: abandoned_def)
qed

lemma derive_history_abandoned: "abandoned v s \<Longrightarrow> abandoned v (derive_history env es s)"
  by (induction es arbitrary: s) (simp_all add: derive_history_def derive_exec_abandoned)

text \<open>C37. A version whose run a restart of the process interrupts keeps the status \<open>running\<close> for ever, whatever happens later: no run can
  claim it again, and each retry still answers that a job was started.\<close>

theorem interrupted_derive_stuck:
  assumes start: "cd_versions (dv_corpus s) = []" "cd_files (dv_corpus s) = []" "dv_runs s = []" "docs_ok s"
    and run: "derive_history env es s = s'" and active: "r \<in> set (dv_runs s')" "active (dn_pc r)"
    and later: "derive_history env es' (derive_exec env Restart s') = s''" and row: "row \<in> set (versions s'')" "vr_id row = dn_version r"
  shows "vr_derive_status row = ''running''
    \<and> (latest_row repo (versions s'') = Some row \<longrightarrow> fst (retry_derive True repo job s'') = Some (Spawned (vr_id row) (Some job)))"
proof -
  have inv: "derive_inv env s'" using derive_history_inv [OF derive_inv_start [OF start]] run by blast
  obtain k where k: "k < length (dv_runs s')" "dv_runs s' ! k = r" using active(1) by (auto simp: in_set_conv_nth)
  obtain x where x: "x \<in> set (versions s')" "vr_id x = dn_version r" "vr_derive_status x = ''running''"
    using run_running [OF inv k(1)] active(2) unfolding k(2) by blast
  have corpus: "corpus_inv (dv_corpus s')" using inv by (simp add: derive_inv_def)
  have "y = x" if "y \<in> set (versions s')" "vr_id y = dn_version r" for y
    using unique_row [OF corpus that(1) x(1)] that(2) x(2) by simp
  with x(3) have "\<forall>y \<in> set (versions s'). vr_id y = dn_version r \<longrightarrow> vr_derive_status y = ''running''" by blast
  moreover have "dn_version r \<in> vr_id ` set (versions s')" using x(1) unfolding x(2) [symmetric] by (rule imageI)
  ultimately have "abandoned (dn_version r) (derive_exec env Restart s')" by (simp add: abandoned_def)
  then have "abandoned (dn_version r) s''" using derive_history_abandoned later by blast
  with row have running: "vr_derive_status row = ''running''" by (simp add: abandoned_def)
  then obtain m where "row_to_meta row = Some m" "cm_id m = vr_id row" by (auto simp: row_to_meta_def)
  then have "latest_row repo (versions s'') = Some row \<Longrightarrow> fst (retry_derive True repo job s'') = Some (Spawned (vr_id row) (Some job))"
    by (simp add: retry_derive_def resolve_version_def)
  with running show ?thesis by blast
qed

section \<open>An instance\<close>

definition demo_derive_env :: "nat derive_env" where
  "demo_derive_env = \<lparr>de_regex = \<lparr>sx_headings = (\<lambda>_. []), sx_inline_code = (\<lambda>_. []), sx_lowercase = id\<rparr>, de_hashtext = (\<lambda>_. 0),
     de_utf8 = (\<lambda>_. True), de_embed = length\<rparr>"

definition demo_derive_sys :: "nat derive_sys" where
  "demo_derive_sys = \<lparr>dv_corpus = \<lparr>cd_versions = [], cd_files = []\<rparr>, dv_docs = [], dv_sections = [], dv_lock = (\<lambda>_. None), dv_runs = []\<rparr>"

definition demo_publish :: derive_event where
  "demo_publish = Publish (\<lambda>_. True) id 1 0 (demo_version ''aaaaaaa'') 9"

definition demo_steps :: "nat \<Rightarrow> derive_event list" where
  "demo_steps n = replicate n (Run_step 0 5 Answered [])"

theorem complete_docs_exact_witness:
  "corpus_view ''r'' (derive_history demo_derive_env (demo_publish # demo_steps 14) demo_derive_sys)
     = [(Some ''index.md'', ''index'', [(''Content'', ''aaaaaaa'', 0, 0, [])])]"
proof -
  let ?s = "derive_history demo_derive_env (demo_publish # demo_steps 14) demo_derive_sys"
  have latest: "latest_row ''r'' (versions ?s) = Some ((new_row 1 0 (demo_version ''aaaaaaa''))\<lparr>vr_derive_status := ''complete'', vr_derive_job_id := Some 9\<rparr>)"
    by code_simp
  have "pages_view demo_derive_env 1 (cd_files (dv_corpus ?s)) = [(Some ''index.md'', ''index'', [(''Content'', ''aaaaaaa'', 0, 0, [])])]"
    by code_simp
  moreover have "corpus_view ''r'' ?s = pages_view demo_derive_env 1 (cd_files (dv_corpus ?s))"
    using complete_docs_exact [OF _ _ _ _ refl latest] by (simp add: demo_derive_sys_def docs_ok_def)
  ultimately show ?thesis by simp
qed

theorem interrupted_derive_stuck_witness:
  "map vr_derive_status (versions (derive_history demo_derive_env [Retry True ''r'' 7, Run_step 0 5 Answered []]
     (derive_exec demo_derive_env Restart (derive_history demo_derive_env (demo_publish # demo_steps 4) demo_derive_sys)))) = [''running'']"
proof -
  let ?s = "derive_history demo_derive_env (demo_publish # demo_steps 4) demo_derive_sys"
  let ?s' = "derive_history demo_derive_env [Retry True ''r'' 7, Run_step 0 5 Answered []] (derive_exec demo_derive_env Restart ?s)"
  have runs: "map dn_version (dv_runs ?s) = [1] \<and> list_all (\<lambda>r. active (dn_pc r)) (dv_runs ?s)" by code_simp
  then obtain r where r: "dv_runs ?s = [r]" "dn_version r = 1" "active (dn_pc r)" by auto
  have ids: "map vr_id (versions ?s') = [1]" by code_simp
  then obtain row where row: "versions ?s' = [row]" "vr_id row = 1" by auto
  have start: "cd_versions (dv_corpus demo_derive_sys) = []" "cd_files (dv_corpus demo_derive_sys) = []" "dv_runs demo_derive_sys = []"
    "docs_ok demo_derive_sys"
    by (simp_all add: demo_derive_sys_def docs_ok_def)
  have "r \<in> set (dv_runs ?s)" "row \<in> set (versions ?s')" "vr_id row = dn_version r" using r row by simp_all
  with interrupted_derive_stuck [OF start refl _ r(3) refl] have "vr_derive_status row = ''running''" by blast
  with row show ?thesis by simp
qed

end
