(* ===== verification/Corpus_Publish.thy ===== *)
theory Corpus_Publish
  imports Derive_Invariant Idempotency Token_Store
begin

text \<open>
  The ways into the corpus store: the artifact a CI job pushes (\<open>extract_tar_gz\<close> and \<open>CorpusIngestService\<close> of \<open>corpus.rs\<close>, the
  \<open>publish\<close> and \<open>validate\<close> handlers of \<open>docs_publish.rs\<close>) and the docs contract found in a checkout (\<open>corpus_pull.rs\<close>).

  The gzip and tar readers are arguments: an archive is what iterating over it gives, entry by entry, and an entry what its reads give, chunk
  by chunk. So are UTF-8 validation, the glob of the markdown files and the JSON and TOML parsers. The \<open>message\<close> of a rejection is left out;
  its code and its findings are kept. The background update of \<open>last_used_at\<close> of the publish token (modelled in \<open>Token_Store\<close>) and the audit row of
  a publication, which nothing here reads, are not part of the state.
\<close>

section \<open>Rejections\<close>

datatype reject_code = Schema | Repo_mismatch | Too_large | Contract | Internal

record rejection =
  rj_code :: reject_code
  rj_findings :: "contract_finding list"

definition plain_rejection :: "reject_code \<Rightarrow> rejection" where
  "plain_rejection code = \<lparr>rj_code = code, rj_findings = []\<rparr>"

definition one_finding :: "reject_code \<Rightarrow> string \<Rightarrow> string \<Rightarrow> string \<Rightarrow> rejection" where
  "one_finding code rule file_path detail =
     \<lparr>rj_code = code,
      rj_findings = [\<lparr>cf_rule = rule, cf_file = file_path, cf_line = None, cf_detail = detail, cf_severity = Error_severity\<rparr>]\<rparr>"

definition unsafe_entry_rejection :: "string \<Rightarrow> string \<Rightarrow> rejection" where
  "unsafe_entry_rejection file_path detail = one_finding Contract ''unsafe_entry'' file_path detail"

definition too_large_rejection :: "string \<Rightarrow> rejection" where
  "too_large_rejection detail = one_finding Too_large ''too_large'' [] detail"

section \<open>The archive\<close>

definition max_total_bytes :: nat where
  "max_total_bytes = 64 * 1024 * 1024"

definition max_file_bytes :: nat where
  "max_file_bytes = 8 * 1024 * 1024"

definition max_entry_count :: nat where
  "max_entry_count = 2000"

definition manifest_entry :: string where
  "manifest_entry = ''manifest.json''"

datatype entry_type = Regular | Directory | Other_type string

text \<open>\<open>te_path\<close> is \<open>Inl\<close> an error text or \<open>Inr\<close> the bytes of the path; \<open>te_reads\<close> what the reads return before the end of the entry.\<close>

record tar_entry =
  te_path :: "string + string"
  te_type :: entry_type
  te_reads :: "(string + string) list"

record publish_env =
  pe_captures :: captures
  pe_utf8 :: "string \<Rightarrow> bool"
  pe_lossy :: "string \<Rightarrow> string"
  pe_markdown :: "string \<Rightarrow> bool"
  pe_manifest :: "string \<Rightarrow> string + corpus_manifest"

record extracted_artifact =
  ea_manifest :: corpus_manifest
  ea_files :: "new_corpus_file list"

text \<open>The components of a Unix path are its segments, without the empty and the \<open>.\<close> ones.\<close>

definition validate_and_normalize_path :: "publish_env \<Rightarrow> string \<Rightarrow> string + string" where
  "validate_and_normalize_path env path =
     (if \<not> pe_utf8 env path then Inl ''entry path is not valid UTF-8''
      else if starts_with ''/'' path then Inl (''entry path \"'' @ path @ ''\" is absolute'')
      else if ''..'' \<in> set (split_char CHR ''/'' path) then Inl (''entry path \"'' @ path @ ''\" contains a \"..\" component'')
      else Inr path)"

text \<open>The content so far and the running total; the caps are checked after every chunk.\<close>

fun read_entry :: "string \<Rightarrow> string \<Rightarrow> nat \<Rightarrow> (string + string) list \<Rightarrow> rejection + (string \<times> nat)" where
  "read_entry path content seen [] = Inr (content, seen)"
| "read_entry path content seen (Inl e # rest) = Inl (plain_rejection Contract)"
| "read_entry path content seen (Inr chunk # rest) =
     (if chunk = [] then Inr (content, seen)
      else
        let content = content @ chunk in
        if max_file_bytes < length content
        then Inl (too_large_rejection (''\"'' @ path @ ''\" exceeds the '' @ dec_of_nat max_file_bytes @ ''-byte single-file cap''))
        else
          let seen = seen + length chunk in
          if max_total_bytes < seen
          then Inl (too_large_rejection (''archive exceeds the '' @ dec_of_nat max_total_bytes @ ''-byte total uncompressed-size cap''))
          else read_entry path content seen rest)"

fun extract_entries ::
  "publish_env \<Rightarrow> nat \<Rightarrow> nat \<Rightarrow> string option \<Rightarrow> new_corpus_file list \<Rightarrow> (string + tar_entry) list
    \<Rightarrow> rejection + (string option \<times> new_corpus_file list)" where
  "extract_entries env entry_no seen manifest files [] = Inr (manifest, files)"
| "extract_entries env entry_no seen manifest files (Inl e # rest) = Inl (plain_rejection Contract)"
| "extract_entries env entry_no seen manifest files (Inr item # rest) =
     (let entry_no = entry_no + 1 in
      if max_entry_count < entry_no
      then Inl (too_large_rejection (''archive has more than '' @ dec_of_nat max_entry_count @ '' entries''))
      else case te_path item of
        Inl e \<Rightarrow> Inl (unsafe_entry_rejection [] (''unreadable entry path: '' @ e))
      | Inr raw_path \<Rightarrow>
          (case validate_and_normalize_path env raw_path of
             Inl msg \<Rightarrow> Inl (unsafe_entry_rejection (pe_lossy env raw_path) msg)
           | Inr path \<Rightarrow>
               (case te_type item of
                  Other_type t \<Rightarrow>
                    Inl (unsafe_entry_rejection path (''entry type '' @ t @ '' is not allowed (only regular files and directories)''))
                | Directory \<Rightarrow> extract_entries env entry_no seen manifest files rest
                | Regular \<Rightarrow>
                    (case read_entry path [] seen (te_reads item) of
                       Inl r \<Rightarrow> Inl r
                     | Inr (content, seen) \<Rightarrow>
                         if path = manifest_entry then extract_entries env entry_no seen (Some content) files rest
                         else extract_entries env entry_no seen manifest
                           (files @ [\<lparr>fl_path = path, fl_content = content, fl_is_markdown = pe_markdown env path\<rparr>]) rest))))"

text \<open>\<open>Inl\<close> is an archive that cannot be opened.\<close>

definition extract_tar_gz :: "publish_env \<Rightarrow> string + (string + tar_entry) list \<Rightarrow> rejection + extracted_artifact" where
  "extract_tar_gz env archive =
     (case archive of
        Inl e \<Rightarrow> Inl (plain_rejection Contract)
      | Inr entries \<Rightarrow>
          (case extract_entries env 0 0 None [] entries of
             Inl r \<Rightarrow> Inl r
           | Inr (None, files) \<Rightarrow> Inl (one_finding Schema ''schema_invalid'' manifest_entry (manifest_entry @ '' entry missing''))
           | Inr (Some bytes, files) \<Rightarrow>
               (case pe_manifest env bytes of
                  Inl e \<Rightarrow> Inl (one_finding Schema ''schema_invalid'' manifest_entry e)
                | Inr manifest \<Rightarrow> Inr \<lparr>ea_manifest = manifest, ea_files = files\<rparr>)))"

section \<open>Validation\<close>

text \<open>A \<open>BTreeMap\<close> as the list of its entries in ascending order: inserting replaces, \<open>or_default\<close> keeps.\<close>

fun btree_insert :: "bool \<Rightarrow> string \<Rightarrow> string \<Rightarrow> (string \<times> string) list \<Rightarrow> (string \<times> string) list" where
  "btree_insert replace k v [] = [(k, v)]"
| "btree_insert replace k v ((k', v') # m) =
     (if k = k' then (k', if replace then v else v') # m
      else if k < k' then (k, v) # (k', v') # m
      else (k', v') # btree_insert replace k v m)"

fun build_markdown_map ::
  "publish_env \<Rightarrow> (string \<times> string) list \<Rightarrow> new_corpus_file list \<Rightarrow> rejection + (string \<times> string) list" where
  "build_markdown_map env m [] = Inr m"
| "build_markdown_map env m (f # fs) =
     (if \<not> fl_is_markdown f then build_markdown_map env m fs
      else if pe_utf8 env (fl_content f) then build_markdown_map env (btree_insert True (fl_path f) (fl_content f) m) fs
      else Inl (one_finding Contract ''invalid_utf8'' (fl_path f) ''markdown file content is not valid UTF-8''))"

record validation_core =
  vc_nav :: nav_tree
  vc_pages :: nat
  vc_assets :: nat
  vc_warnings :: "contract_finding list"

definition add_assets :: "new_corpus_file list \<Rightarrow> (string \<times> string) list \<Rightarrow> (string \<times> string) list" where
  "add_assets files m = fold (\<lambda>f m. if fl_is_markdown f then m else btree_insert False (fl_path f) [] m) files m"

definition validate_core :: "publish_env \<Rightarrow> corpus_manifest \<Rightarrow> new_corpus_file list \<Rightarrow> string \<Rightarrow> rejection + validation_core" where
  "validate_core env manifest files expected_repo =
     (if mf_repo manifest \<noteq> expected_repo then Inl (plain_rejection Repo_mismatch)
      else case build_markdown_map env [] files of
        Inl r \<Rightarrow> Inl r
      | Inr markdown \<Rightarrow>
          (case map_of markdown (mf_index manifest) of
             None \<Rightarrow> Inl (one_finding Contract ''missing_index'' (mf_index manifest)
                       ''index file listed in manifest.json does not exist in the corpus'')
           | Some index_md \<Rightarrow>
               (case parse_nav (pe_captures env) index_md of
                  Inl finding \<Rightarrow> Inl \<lparr>rj_code = Contract, rj_findings = [finding\<lparr>cf_file := mf_index manifest\<rparr>]\<rparr>
                | Inr nav \<Rightarrow>
                    (let findings = check_links (pe_captures env) (add_assets files markdown) nav (mf_index manifest);
                         errors = filter (\<lambda>f. cf_severity f = Error_severity) findings
                     in if errors \<noteq> [] then Inl \<lparr>rj_code = Contract, rj_findings = errors\<rparr>
                        else Inr \<lparr>vc_nav = nav, vc_pages = length (filter fl_is_markdown files),
                                  vc_assets = length (filter (\<lambda>f. \<not> fl_is_markdown f) files),
                                  vc_warnings = filter (\<lambda>f. cf_severity f \<noteq> Error_severity) findings\<rparr>))))"

section \<open>The service\<close>

record publish_accepted =
  pa_repo :: string
  pa_version :: string
  pa_sha :: string
  pa_pages :: nat
  pa_assets :: nat
  pa_warnings :: "contract_finding list"
  pa_derive_job_id :: "uuid option"
  pa_replayed :: bool

record validation_report =
  rp_repo :: string
  rp_version :: string
  rp_sha :: string
  rp_pages :: nat
  rp_assets :: nat
  rp_warnings :: "contract_finding list"

definition validate_extracted :: "publish_env \<Rightarrow> extracted_artifact \<Rightarrow> string \<Rightarrow> rejection + validation_report" where
  "validate_extracted env art expected_repo =
     (let m = ea_manifest art in
      case validate_core env m (ea_files art) expected_repo of
        Inl r \<Rightarrow> Inl r
      | Inr c \<Rightarrow> Inr \<lparr>rp_repo = mf_repo m, rp_version = mf_version m, rp_sha = mf_sha m, rp_pages = vc_pages c, rp_assets = vc_assets c,
                   rp_warnings = vc_warnings c\<rparr>)"

text \<open>What the database and the clock give to an insertion: which statements reach it, the id, the time, and the id of the job.\<close>

record store_env =
  st_up :: "corpus_call \<Rightarrow> bool"
  st_sha256 :: "string \<Rightarrow> string"
  st_id :: uuid
  st_now :: instant
  st_job :: uuid

definition new_version_of :: "corpus_manifest \<Rightarrow> nav_tree \<Rightarrow> corpus_source \<Rightarrow> bool \<Rightarrow> new_corpus_file list \<Rightarrow> new_corpus_version" where
  "new_version_of manifest nav source is_tagged files =
     \<lparr>nv_manifest = manifest, nv_nav = nav, nv_source = source, nv_is_tagged = is_tagged, nv_files = files\<rparr>"

definition validate_and_store ::
  "publish_env \<Rightarrow> store_env \<Rightarrow> corpus_manifest \<Rightarrow> new_corpus_file list \<Rightarrow> string \<Rightarrow> corpus_source \<Rightarrow> bool \<Rightarrow> 'v derive_sys
    \<Rightarrow> (rejection + publish_accepted) \<times> 'v derive_sys" where
  "validate_and_store env se manifest files expected_repo source is_tagged s =
     (case validate_core env manifest files expected_repo of
        Inl r \<Rightarrow> (Inl r, s)
      | Inr c \<Rightarrow>
          (let accepted = (\<lambda>job replayed. Inr \<lparr>pa_repo = mf_repo manifest, pa_version = mf_version manifest, pa_sha = mf_sha manifest,
                 pa_pages = vc_pages c, pa_assets = vc_assets c, pa_warnings = vc_warnings c, pa_derive_job_id = job, pa_replayed = replayed\<rparr>)
           in case store_version (st_up se) (st_sha256 se) (st_id se) (st_now se) (new_version_of manifest (vc_nav c) source is_tagged files)
                    (st_job se) s of
             (Some (Inserted _), s') \<Rightarrow> (accepted (Some (st_job se)) False, s')
           | (Some (Existing _), s') \<Rightarrow> (accepted None True, s')
           | (None, s') \<Rightarrow> (Inl (plain_rejection Internal), s')))"

definition ingest_extracted ::
  "publish_env \<Rightarrow> store_env \<Rightarrow> extracted_artifact \<Rightarrow> string \<Rightarrow> bool \<Rightarrow> 'v derive_sys \<Rightarrow> (rejection + publish_accepted) \<times> 'v derive_sys" where
  "ingest_extracted env se art expected_repo is_tagged s =
     validate_and_store env se (ea_manifest art) (ea_files art) expected_repo Push is_tagged s"

definition ingest_tree ::
  "publish_env \<Rightarrow> store_env \<Rightarrow> corpus_manifest \<Rightarrow> new_corpus_file list \<Rightarrow> corpus_source \<Rightarrow> 'v derive_sys
    \<Rightarrow> (rejection + publish_accepted) \<times> 'v derive_sys" where
  "ingest_tree env se manifest files source s = validate_and_store env se manifest files (mf_repo manifest) source False s"

section \<open>The handlers\<close>

text \<open>\<open>'j\<close> is the type of JSON values. A request carries its header, its archive and the outcome of each of its calls.\<close>

datatype publish_call = Token_call | Extract_call | Check_call | Reserve_call | Finalize_call | Release_call

record 'j publish_req =
  pq_authorization :: "string option"
  pq_archive :: "string + (string + tar_entry) list"
  pq_up :: "publish_call \<Rightarrow> bool"
  pq_token_times :: "instant \<times> instant"
  pq_store :: store_env
  pq_saga_id :: uuid
  pq_to_json :: "publish_accepted \<Rightarrow> 'j"
  pq_from_json :: "'j \<Rightarrow> publish_accepted option"
  pq_null :: 'j

record ('j, 'v) publish_state =
  ps_tokens :: "publish_token_row list"
  ps_sagas :: "'j sagas"
  ps_sys :: "'v derive_sys"

datatype publish_reply = Unauthorized | Rejected nat rejection | Published publish_accepted | Validated validation_report | In_conflict | Server_error

fun reject_code_status :: "reject_code \<Rightarrow> nat" where
  "reject_code_status Schema = 422"
| "reject_code_status Contract = 422"
| "reject_code_status Repo_mismatch = 403"
| "reject_code_status Too_large = 413"
| "reject_code_status Internal = 500"

definition reject_response :: "rejection \<Rightarrow> publish_reply" where
  "reject_response r = Rejected (reject_code_status (rj_code r)) r"

definition publish_token_of :: "'j publish_req \<Rightarrow> publish_token_row list \<Rightarrow> validated_publish_token option" where
  "publish_token_of req t =
     (case pq_authorization req of
        None \<Rightarrow> None
      | Some header \<Rightarrow>
          (case strip_prefix ''Bearer '' header of
             None \<Rightarrow> None
           | Some presented \<Rightarrow>
               (case fst (validate_publish_token (st_sha256 (pq_store req)) (pq_up req Token_call) (fst (pq_token_times req))
                            (snd (pq_token_times req)) presented t) of
                  Inl _ \<Rightarrow> None
                | Inr token \<Rightarrow> token)))"

definition publish_key :: "string \<Rightarrow> string \<Rightarrow> string" where
  "publish_key repo sha = ''docs_publish:'' @ repo @ '':'' @ sha"

definition cached_fallback :: "string \<Rightarrow> string \<Rightarrow> publish_accepted" where
  "cached_fallback repo sha =
     \<lparr>pa_repo = repo, pa_version = [], pa_sha = sha, pa_pages = 0, pa_assets = 0, pa_warnings = [], pa_derive_job_id = None, pa_replayed = True\<rparr>"

definition cached_response :: "'j publish_req \<Rightarrow> string \<Rightarrow> string \<Rightarrow> 'j \<Rightarrow> publish_reply" where
  "cached_response req repo sha v =
     Published (case pq_from_json req v of None \<Rightarrow> cached_fallback repo sha | Some r \<Rightarrow> r)"

text \<open>The steps after the key is reserved: the work, then finalizing or releasing it.\<close>

definition publish_work ::
  "publish_env \<Rightarrow> 'j publish_req \<Rightarrow> extracted_artifact \<Rightarrow> string \<Rightarrow> string \<Rightarrow> ('j, 'v) publish_state \<Rightarrow> publish_reply \<times> ('j, 'v) publish_state" where
  "publish_work env req art token_repo key st =
     (case ingest_extracted env (pq_store req) art token_repo False (ps_sys st) of
        (Inl rejection, sys) \<Rightarrow>
          (reject_response rejection,
           st\<lparr>ps_sagas := (if pq_up req Release_call then idempotency_release key (ps_sagas st) else ps_sagas st), ps_sys := sys\<rparr>)
      | (Inr accepted, sys) \<Rightarrow>
          if \<not> pq_up req Finalize_call then (Server_error, st\<lparr>ps_sys := sys\<rparr>)
          else (Published accepted,
                st\<lparr>ps_sagas := idempotency_finalize (st_now (pq_store req)) key (pq_to_json req accepted) (ps_sagas st), ps_sys := sys\<rparr>))"

definition publish :: "publish_env \<Rightarrow> 'j publish_req \<Rightarrow> ('j, 'v) publish_state \<Rightarrow> publish_reply \<times> ('j, 'v) publish_state" where
  "publish env req st =
     (case publish_token_of req (ps_tokens st) of
        None \<Rightarrow> (Unauthorized, st)
      | Some token \<Rightarrow>
          if \<not> pq_up req Extract_call then (Server_error, st)
          else case extract_tar_gz env (pq_archive req) of
            Inl rejection \<Rightarrow> (reject_response rejection, st)
          | Inr art \<Rightarrow>
              if mf_repo (ea_manifest art) \<noteq> vp_repo_name token then (reject_response (plain_rejection Repo_mismatch), st)
              else
                let repo = mf_repo (ea_manifest art); sha = mf_sha (ea_manifest art); key = publish_key repo sha in
                if \<not> pq_up req Check_call then (Server_error, st)
                else case idempotency_check key (ps_sagas st) of
                  (Check_completed v, t) \<Rightarrow> (cached_response req repo sha v, st\<lparr>ps_sagas := t\<rparr>)
                | (Check_running, t) \<Rightarrow> (In_conflict, st\<lparr>ps_sagas := t\<rparr>)
                | (Check_fresh, t) \<Rightarrow>
                    if \<not> pq_up req Reserve_call then (Server_error, st\<lparr>ps_sagas := t\<rparr>)
                    else case idempotency_reserve (pq_saga_id req) (st_now (pq_store req)) (pq_null req) ''docs_publish'' key repo t of
                      (Cached_result v, t) \<Rightarrow> (cached_response req repo sha v, st\<lparr>ps_sagas := t\<rparr>)
                    | (In_progress, t) \<Rightarrow> (In_conflict, st\<lparr>ps_sagas := t\<rparr>)
                    | (Reserved_key, t) \<Rightarrow> publish_work env req art (vp_repo_name token) key (st\<lparr>ps_sagas := t\<rparr>))"

definition validate_request :: "publish_env \<Rightarrow> 'j publish_req \<Rightarrow> publish_token_row list \<Rightarrow> publish_reply" where
  "validate_request env req tokens =
     (case publish_token_of req tokens of
        None \<Rightarrow> Unauthorized
      | Some token \<Rightarrow>
          if \<not> pq_up req Extract_call then Server_error
          else case extract_tar_gz env (pq_archive req) of
            Inl rejection \<Rightarrow> reject_response rejection
          | Inr art \<Rightarrow>
              if mf_repo (ea_manifest art) \<noteq> vp_repo_name token then reject_response (plain_rejection Repo_mismatch)
              else case validate_extracted env art (vp_repo_name token) of
                Inl rejection \<Rightarrow> reject_response rejection
              | Inr report \<Rightarrow> Validated report)"

section \<open>The docs contract of a checkout\<close>

text \<open>The file system gives the node at a path; \<open>Dir_node\<close> lists its entries. \<open>Path::join\<close> with an absolute path is that path.\<close>

datatype fs_node = File_node string | Unreadable_file | Unreadable_dir | Special_node | Dir_node "(string \<times> fs_node) list"

record docs_toml =
  dt_version_header :: string
  dt_docs_root :: string
  dt_index :: string
  dt_languages :: "string list"
  dt_name :: "string option"
  dt_exclude :: "string list"

record pull_env =
  pl_fs :: "string \<Rightarrow> fs_node option"
  pl_toml :: "string \<Rightarrow> docs_toml option"
  pl_glob :: "string list \<Rightarrow> string \<Rightarrow> bool"
  pl_lossy :: "string \<Rightarrow> string"

definition path_join :: "string \<Rightarrow> string \<Rightarrow> string" where
  "path_join base p = (if starts_with ''/'' p then p else if base = [] \<or> ends_with ''/'' base then base @ p else base @ ''/'' @ p)"

definition read_to_string :: "publish_env \<Rightarrow> pull_env \<Rightarrow> string \<Rightarrow> string option" where
  "read_to_string env pl path =
     (case pl_fs pl path of Some (File_node text) \<Rightarrow> if pe_utf8 env text then Some text else None | _ \<Rightarrow> None)"

text \<open>\<open>rel\<close> are the names below \<open>docs_root\<close>. An unreadable directory or file ends the walk with an error.\<close>

fun walk_dir :: "pull_env \<Rightarrow> string \<Rightarrow> string list \<Rightarrow> string list \<Rightarrow> (string \<times> fs_node) list \<Rightarrow> new_corpus_file list option" where
  "walk_dir pl docs_root globs rel [] = Some []"
| "walk_dir pl docs_root globs rel ((name, node) # es) =
     (let first = (case node of
          Dir_node sub \<Rightarrow> walk_dir pl docs_root globs (rel @ [name]) sub
        | Special_node \<Rightarrow> Some []
        | File_node content \<Rightarrow>
            (let path = pl_lossy pl (join_with ''/'' (rel @ [name])) in
             if pl_glob pl globs path then Some []
             else (let artifact_path = docs_root @ ''/'' @ path in
               Some [\<lparr>fl_path = artifact_path, fl_content = content, fl_is_markdown = ends_with ''.md'' artifact_path\<rparr>]))
        | Unreadable_dir \<Rightarrow> None
        | Unreadable_file \<Rightarrow> if pl_glob pl globs (pl_lossy pl (join_with ''/'' (rel @ [name]))) then Some [] else None)
      in case (first, walk_dir pl docs_root globs rel es) of (Some fs, Some gs) \<Rightarrow> Some (fs @ gs) | _ \<Rightarrow> None)"

definition collect_docs_files :: "pull_env \<Rightarrow> string \<Rightarrow> string \<Rightarrow> string list \<Rightarrow> new_corpus_file list option" where
  "collect_docs_files pl checkout docs_root globs =
     (case pl_fs pl (path_join checkout docs_root) of
        Some (Dir_node es) \<Rightarrow> map_option (sort_key fl_path) (walk_dir pl docs_root globs [] es)
      | _ \<Rightarrow> None)"

definition load_contract :: "publish_env \<Rightarrow> pull_env \<Rightarrow> string \<Rightarrow> docs_toml option" where
  "load_contract env pl checkout = Option.bind (read_to_string env pl (path_join checkout ''.akashic/docs.toml'')) (pl_toml pl)"

definition maybe_ingest_repo_docs ::
  "publish_env \<Rightarrow> pull_env \<Rightarrow> store_env \<Rightarrow> string \<Rightarrow> string \<Rightarrow> string \<Rightarrow> 'v derive_sys \<Rightarrow> publish_accepted option \<times> 'v derive_sys" where
  "maybe_ingest_repo_docs env pl se checkout repo head_sha s =
     (case load_contract env pl checkout of
        None \<Rightarrow> (None, s)
      | Some c \<Rightarrow>
          (case Option.bind (read_to_string env pl (path_join checkout (dt_version_header c))) (parse_version_header (pe_captures env)) of
             None \<Rightarrow> (None, s)
           | Some (major, minor, patch) \<Rightarrow>
               (case collect_docs_files pl checkout (dt_docs_root c) (dt_exclude c) of
                  None \<Rightarrow> (None, s)
                | Some files \<Rightarrow>
                    (let manifest = \<lparr>mf_repo = (case dt_name c of Some name \<Rightarrow> name | None \<Rightarrow> repo),
                           mf_version = dec_of_nat major @ ''.'' @ dec_of_nat minor @ ''.'' @ dec_of_nat patch, mf_sha = head_sha,
                           mf_index = dt_index c, mf_languages = dt_languages c, mf_tool_version = ''pull-bootstrap''\<rparr>
                     in case ingest_tree env se manifest files Pull s of
                          (Inr accepted, s') \<Rightarrow> (Some accepted, s')
                        | (Inl _, s') \<Rightarrow> (None, s')))))"


section \<open>What an accepted archive holds\<close>

text \<open>The bytes of an entry up to its end.\<close>

fun entry_bytes :: "(string + string) list \<Rightarrow> string" where
  "entry_bytes [] = []"
| "entry_bytes (Inl e # rest) = []"
| "entry_bytes (Inr chunk # rest) = (if chunk = [] then [] else chunk @ entry_bytes rest)"

definition stored_entry :: "tar_entry \<Rightarrow> bool" where
  "stored_entry e \<longleftrightarrow> te_type e = Regular \<and> te_path e \<noteq> Inr manifest_entry"

definition regular_bytes :: "tar_entry list \<Rightarrow> nat" where
  "regular_bytes es = sum_list (map (\<lambda>e. length (entry_bytes (te_reads e))) (filter (\<lambda>e. te_type e = Regular) es))"

definition safe_entry :: "publish_env \<Rightarrow> tar_entry \<Rightarrow> bool" where
  "safe_entry env e \<longleftrightarrow> (te_type e = Regular \<or> te_type e = Directory)
     \<and> (\<exists>path. te_path e = Inr path \<and> pe_utf8 env path \<and> \<not> starts_with ''/'' path \<and> ''..'' \<notin> set (split_char CHR ''/'' path))
     \<and> (te_type e = Regular \<longrightarrow> length (entry_bytes (te_reads e)) \<le> max_file_bytes)"

lemma read_entry_ok:
  assumes "read_entry path content seen reads = Inr (content', seen')" and "length content \<le> max_file_bytes" and "seen \<le> max_total_bytes"
  shows "content' = content @ entry_bytes reads \<and> seen' = seen + length (entry_bytes reads) \<and> length content' \<le> max_file_bytes
    \<and> seen' \<le> max_total_bytes"
  using assms
proof (induction path content seen reads rule: read_entry.induct)
  case (3 path content seen chunk rest)
  show ?case
  proof (cases "chunk = []")
    case False
    with 3(2) have "length (content @ chunk) \<le> max_file_bytes" "seen + length chunk \<le> max_total_bytes"
      "read_entry path (content @ chunk) (seen + length chunk) rest = Inr (content', seen')"
      by (auto simp: Let_def split: if_splits)
    with 3(1) [OF False HOL.refl _ HOL.refl] False show ?thesis by (auto simp: not_less)
  qed (use 3 in simp)
qed simp_all

lemma validated_path:
  "validate_and_normalize_path env raw = Inr path \<longleftrightarrow>
     path = raw \<and> pe_utf8 env raw \<and> \<not> starts_with ''/'' raw \<and> ''..'' \<notin> set (split_char CHR ''/'' raw)"
  by (auto simp: validate_and_normalize_path_def)

lemma extract_entries_ok:
  assumes "extract_entries env n seen manifest files items = Inr (manifest', files')" and "seen \<le> max_total_bytes"
  shows "\<exists>es. items = map Inr es \<and> n + length es \<le> max n max_entry_count \<and> list_all (safe_entry env) es
    \<and> seen + regular_bytes es \<le> max_total_bytes
    \<and> map (\<lambda>f. (Inr (fl_path f), fl_content f)) files' = map (\<lambda>f. (Inr (fl_path f), fl_content f)) files
        @ map (\<lambda>e. (te_path e, entry_bytes (te_reads e))) (filter stored_entry es)"
  using assms
proof (induction env n seen manifest files items rule: extract_entries.induct)
  case (1 env n seen manifest files)
  then show ?case by (intro exI [of _ "[]"]) (simp add: regular_bytes_def)
next
  case (3 env n seen manifest files item rest)
  from "3.prems"(1) obtain path where path: "te_path item = Inr path" "validate_and_normalize_path env path = Inr path" "n + 1 \<le> max_entry_count"
    by (auto simp: Let_def validated_path split: if_splits sum.splits)
  have room: "\<not> max_entry_count < n + 1" using path(3) by simp
  show ?case
  proof (cases "te_type item")
    case (Other_type t)
    with "3.prems"(1) path show ?thesis by (simp add: Let_def)
  next
    case Directory
    with "3.prems" path have "extract_entries env (n + 1) seen manifest files rest = Inr (manifest', files')" by (simp add: Let_def)
    from "3.IH"(3) [OF HOL.refl room path(1) path(2) Directory this "3.prems"(2)] path(3) obtain es where es: "rest = map Inr es"
      "n + 1 + length es \<le> max (n + 1) max_entry_count" "list_all (safe_entry env) es" "seen + regular_bytes es \<le> max_total_bytes"
      "map (\<lambda>f. (Inr (fl_path f), fl_content f)) files' = map (\<lambda>f. (Inr (fl_path f), fl_content f)) files
        @ map (\<lambda>e. (te_path e, entry_bytes (te_reads e))) (filter stored_entry es)"
      by auto
    have "safe_entry env item" "\<not> stored_entry item" using Directory path by (auto simp: stored_entry_def safe_entry_def validated_path)
    with Directory path es show ?thesis by (intro exI [of _ "item # es"]) (auto simp: regular_bytes_def)
  next
    case Regular
    from "3.prems"(1) path Regular obtain content seen' where read: "read_entry path [] seen (te_reads item) = Inr (content, seen')"
      by (auto simp: Let_def split: sum.splits prod.splits)
    from read_entry_ok [OF this _ "3.prems"(2)] have bytes: "content = entry_bytes (te_reads item)" "seen' = seen + length content"
      "length content \<le> max_file_bytes" "seen' \<le> max_total_bytes"
      by auto
    let ?files = "if path = manifest_entry then files else files @ [\<lparr>fl_path = path, fl_content = content, fl_is_markdown = pe_markdown env path\<rparr>]"
    have "\<exists>es. rest = map Inr es \<and> n + 1 + length es \<le> max (n + 1) max_entry_count \<and> list_all (safe_entry env) es
      \<and> seen' + regular_bytes es \<le> max_total_bytes
      \<and> map (\<lambda>f. (Inr (fl_path f), fl_content f)) files' = map (\<lambda>f. (Inr (fl_path f), fl_content f)) ?files
        @ map (\<lambda>e. (te_path e, entry_bytes (te_reads e))) (filter stored_entry es)"
    proof (cases "path = manifest_entry")
      case True
      with "3.prems"(1) path Regular read have "extract_entries env (n + 1) seen' (Some content) files rest = Inr (manifest', files')"
        by (simp add: Let_def)
      from "3.IH"(1) [OF HOL.refl room path(1) path(2) Regular read HOL.refl True this bytes(4)] path(3) True show ?thesis by simp
    next
      case False
      with "3.prems"(1) path Regular read have "extract_entries env (n + 1) seen' manifest ?files rest = Inr (manifest', files')"
        by (simp add: Let_def)
      from "3.IH"(2) [OF HOL.refl room path(1) path(2) Regular read HOL.refl False _ bytes(4)] this path(3) False show ?thesis by simp
    qed
    then obtain es where es: "rest = map Inr es"
      "n + 1 + length es \<le> max (n + 1) max_entry_count" "list_all (safe_entry env) es" "seen' + regular_bytes es \<le> max_total_bytes"
      "map (\<lambda>f. (Inr (fl_path f), fl_content f)) files' = map (\<lambda>f. (Inr (fl_path f), fl_content f)) ?files
        @ map (\<lambda>e. (te_path e, entry_bytes (te_reads e))) (filter stored_entry es)"
      by blast
    have "safe_entry env item" "stored_entry item \<longleftrightarrow> path \<noteq> manifest_entry"
      using Regular path bytes by (auto simp: stored_entry_def safe_entry_def validated_path)
    with Regular path bytes es show ?thesis by (intro exI [of _ "item # es"]) (auto simp: regular_bytes_def)
  qed
qed simp

text \<open>C40. An archive that is accepted has at most 2000 entries, all regular files or directories under relative paths without \<open>..\<close>, at most
  8 MiB in a file and 64 MiB in all, counting the bytes that were read, whatever the headers declare; and the files are exactly its regular
  entries other than the manifest, in order, each with all its bytes.\<close>

theorem extracted_artifact_exact:
  assumes "extract_tar_gz env (Inr items) = Inr art"
  shows "\<exists>es. items = map Inr es \<and> length es \<le> max_entry_count \<and> list_all (safe_entry env) es \<and> regular_bytes es \<le> max_total_bytes
    \<and> map (\<lambda>f. (Inr (fl_path f), fl_content f)) (ea_files art) = map (\<lambda>e. (te_path e, entry_bytes (te_reads e))) (filter stored_entry es)"
proof -
  from assms obtain manifest where "extract_entries env 0 0 None [] items = Inr (manifest, ea_files art)"
    by (auto simp: extract_tar_gz_def split: sum.splits option.splits)
  from extract_entries_ok [OF this] show ?thesis by simp
qed

text \<open>A rejection is final: what comes after the offending chunk or entry is not looked at, so no more than the caps and one chunk is ever
  held.\<close>

lemma read_entry_stops:
  "read_entry path content seen reads = Inl r \<Longrightarrow> read_entry path content seen (reads @ later) = Inl r"
  by (induction path content seen reads rule: read_entry.induct) (auto simp: Let_def split: if_splits)

lemma extract_entries_stops:
  "extract_entries env n seen manifest files items = Inl r \<Longrightarrow> extract_entries env n seen manifest files (items @ later) = Inl r"
proof (induction env n seen manifest files items rule: extract_entries.induct)
  case (3 env n seen manifest files item rest)
  then show ?case
    by (auto simp: Let_def split: if_splits sum.splits prod.splits entry_type.splits)
qed simp_all

section \<open>What a publication touches\<close>

lemma insert_version_rows:
  "cd_versions (snd (insert_version up sha256 i now v db)) = cd_versions db
    \<or> cd_versions (snd (insert_version up sha256 i now v db)) = flip_latest (mf_repo (nv_manifest v)) (cd_versions db) @ [new_row i now v]"
  by (auto simp: insert_version_def insert_row_def Let_def split: sum.split option.split)

lemma store_version_rows:
  "versions (snd (store_version up sha256 i now v job s)) = cd_versions (snd (insert_version up sha256 i now v (dv_corpus s)))"
  by (cases "insert_version up sha256 i now v (dv_corpus s)") (auto simp: store_version_def spawn_def split: option.split insert_outcome.split)

lemma store_version_other_repos:
  assumes "repo \<noteq> mf_repo (nv_manifest v)"
  shows "filter (\<lambda>r. vr_repo r = repo) (versions (snd (store_version up sha256 i now v job s))) = filter (\<lambda>r. vr_repo r = repo) (versions s)"
proof -
  have "filter (\<lambda>r. vr_repo r = repo) (flip_latest (mf_repo (nv_manifest v)) t @ [new_row i now v]) = filter (\<lambda>r. vr_repo r = repo) t" for t
    using assms by (induction t) (auto simp: flip_map)
  then show ?thesis using insert_version_rows [of up sha256 i now v "dv_corpus s"] by (auto simp: store_version_rows)
qed

lemma validate_and_store_other_repos:
  assumes "validate_and_store env se manifest files expected source tagged s = (res, s')" and "repo \<noteq> mf_repo manifest"
  shows "filter (\<lambda>r. vr_repo r = repo) (versions s') = filter (\<lambda>r. vr_repo r = repo) (versions s)"
proof (cases "validate_core env manifest files expected")
  case (Inl r)
  with assms(1) show ?thesis by (simp add: validate_and_store_def)
next
  case (Inr c)
  let ?v = "new_version_of manifest (vc_nav c) source tagged files"
  from assms(1) Inr have "s' = snd (store_version (st_up se) (st_sha256 se) (st_id se) (st_now se) ?v (st_job se) s)"
    by (auto simp: validate_and_store_def Let_def split: option.splits insert_outcome.splits prod.splits)
  then show ?thesis using store_version_other_repos [of repo ?v] assms(2) by (simp add: new_version_of_def)
qed

lemma check_other_keys: "k \<noteq> key \<Longrightarrow> rows_for k (snd (idempotency_check key t)) = rows_for k t"
  by (auto simp: idempotency_check_def row_effects split: option.split)

lemma reserve_other_keys: "k \<noteq> key \<Longrightarrow> rows_for k (snd (idempotency_reserve i now null ty key repo t)) = rows_for k t"
proof -
  assume other: "k \<noteq> key"
  have "rows_for k (snd (reserve_attempts n i now null ty key repo t)) = rows_for k t" for n
  proof (induction n arbitrary: t)
    case (Suc n)
    have "rows_for k (snd (insert_reservation i now ty key repo t)) = rows_for k t" using other by (simp add: row_effects)
    then show ?case
      using Suc other row_effects(4) [of k key "snd (insert_reservation i now ty key repo t)"]
      by (auto simp: Let_def split: prod.splits option.split)
  qed simp
  then show ?thesis by (simp add: idempotency_reserve_def)
qed

text \<open>C38. A publication touches only the repository of its token: without a live token nothing changes, and with one the versions of every other
  repository and the idempotency rows of every other key keep their values, whatever the archive claims and whatever calls fail.\<close>

theorem publish_only_own_repo:
  assumes run: "publish env req st = (reply, st')"
  shows "(publish_token_of req (ps_tokens st) = None \<longrightarrow> reply = Unauthorized \<and> st' = st)
    \<and> (\<forall>token. publish_token_of req (ps_tokens st) = Some token \<longrightarrow>
         (\<forall>repo. repo \<noteq> vp_repo_name token \<longrightarrow>
            filter (\<lambda>r. vr_repo r = repo) (versions (ps_sys st')) = filter (\<lambda>r. vr_repo r = repo) (versions (ps_sys st)))
         \<and> (\<forall>key. (\<forall>sha. key \<noteq> publish_key (vp_repo_name token) sha) \<longrightarrow> rows_for key (ps_sagas st') = rows_for key (ps_sagas st)))"
proof (cases "publish_token_of req (ps_tokens st)")
  case None
  with run show ?thesis by (simp add: publish_def)
next
  case (Some token)
  show ?thesis
  proof (cases "ps_sagas st' = ps_sagas st \<and> ps_sys st' = ps_sys st")
    case True
    with Some show ?thesis by simp
  next
    case False
    with run Some obtain art where art: "extract_tar_gz env (pq_archive req) = Inr art" "mf_repo (ea_manifest art) = vp_repo_name token"
      by (auto simp: publish_def split: if_splits sum.splits)
    let ?key = "publish_key (vp_repo_name token) (mf_sha (ea_manifest art))"
    obtain c t where check: "idempotency_check ?key (ps_sagas st) = (c, t)" by fastforce
    obtain rv t' where reserve: "idempotency_reserve (pq_saga_id req) (st_now (pq_store req)) (pq_null req) ''docs_publish'' ?key (vp_repo_name token) t = (rv, t')"
      by fastforce
    have rows: "rows_for k t = rows_for k (ps_sagas st)" "rows_for k t' = rows_for k (ps_sagas st)" if "k \<noteq> ?key" for k
      using check_other_keys [OF that] reserve_other_keys [OF that] check reserve by (metis snd_conv)+
    have "(st' = st) \<or> st' = st\<lparr>ps_sagas := t\<rparr> \<or> st' = st\<lparr>ps_sagas := t'\<rparr>
        \<or> (reply, st') = publish_work env req art (vp_repo_name token) ?key (st\<lparr>ps_sagas := t'\<rparr>)"
      using run Some art check reserve
      by (auto simp: publish_def Let_def split: if_splits idempotency_check.splits idempotency_reservation.splits)
    then consider "ps_sys st' = ps_sys st" "\<And>k. k \<noteq> ?key \<Longrightarrow> rows_for k (ps_sagas st') = rows_for k (ps_sagas st)"
      | (work) "(reply, st') = publish_work env req art (vp_repo_name token) ?key (st\<lparr>ps_sagas := t'\<rparr>)"
      using rows by auto
    then show ?thesis
    proof cases
      case 1
      with Some show ?thesis by auto
    next
      case work
      obtain res sys where ingest: "ingest_extracted env (pq_store req) art (vp_repo_name token) False (ps_sys st) = (res, sys)" by fastforce
      have "filter (\<lambda>r. vr_repo r = repo) (versions sys) = filter (\<lambda>r. vr_repo r = repo) (versions (ps_sys st))" if "repo \<noteq> vp_repo_name token" for repo
        using ingest that art(2) by (auto simp: ingest_extracted_def intro: validate_and_store_other_repos)
      moreover have "ps_sys st' = sys"
        using work ingest by (auto simp: publish_work_def split: sum.splits if_splits)
      moreover have "rows_for k (ps_sagas st') = rows_for k (ps_sagas st)" if "k \<noteq> ?key" for k
        using work ingest rows(2) [OF that] that
        by (auto simp: publish_work_def idempotency_release_def idempotency_finalize_def row_effects split: sum.splits if_splits)
      ultimately show ?thesis using Some by auto
    qed
  qed
qed

section \<open>The dry run\<close>

lemma insert_files_succeeds:
  assumes "\<And>n. up (File_call n)" and "distinct (map fl_path fs)" and "\<And>r. r \<in> set t \<Longrightarrow> fr_version_id r = i \<Longrightarrow> fr_path r \<notin> fl_path ` set fs"
  shows "insert_files up sha256 i n fs t \<noteq> None"
  using assms
proof (induction fs arbitrary: n t)
  case (Cons f fs)
  let ?r = "\<lparr>fr_version_id = i, fr_path = fl_path f, fr_content = fl_content f, fr_content_hash = sha256 (fl_content f),
    fr_size_bytes = int (length (fl_content f)), fr_is_markdown = fl_is_markdown f\<rparr>"
  have "(i, fl_path f) \<notin> set (map (\<lambda>r. (fr_version_id r, fr_path r)) t)"
  proof
    assume "(i, fl_path f) \<in> set (map (\<lambda>r. (fr_version_id r, fr_path r)) t)"
    then obtain r where r: "r \<in> set t" "fr_version_id r = i" "fr_path r = fl_path f" by auto
    from Cons.prems(3) [OF r(1,2)] r(3) show False by simp
  qed
  moreover have "insert_files up sha256 i (Suc n) fs (t @ [?r]) \<noteq> None"
  proof (rule Cons.IH)
    show "fr_path r \<notin> fl_path ` set fs" if r: "r \<in> set (t @ [?r])" "fr_version_id r = i" for r
    proof (cases "r = ?r")
      case True
      then have "fr_path r = fl_path f" by simp
      with Cons.prems(2) show ?thesis by simp
    next
      case False
      with r have "r \<in> set t" by simp
      from Cons.prems(3) [OF this r(2)] show ?thesis by simp
    qed
  qed (use Cons.prems in simp_all)
  ultimately show ?case using Cons.prems(1) by simp
qed simp

lemma insert_version_succeeds:
  assumes inv: "corpus_inv db" and fresh: "i \<notin> vr_id ` set (cd_versions db)" and up: "\<And>c. up c" and paths: "distinct (map fl_path (nv_files v))"
  shows "fst (insert_version up sha256 i now v db) \<noteq> None"
proof (cases "\<exists>r \<in> set (cd_versions db). same_key (mf_repo (nv_manifest v)) (mf_sha (nv_manifest v)) r")
  case True
  then have "fetch_optional (same_key (mf_repo (nv_manifest v)) (mf_sha (nv_manifest v))) (cd_versions db) \<noteq> None"
    unfolding fetch_optional_None by blast
  then obtain r where r: "fetch_optional (same_key (mf_repo (nv_manifest v)) (mf_sha (nv_manifest v))) (cd_versions db) = Some r" by blast
  from fetch_optional_Some [OF this] inv have "row_to_meta r \<noteq> None"
    by (auto simp: corpus_inv_def versions_ok_def row_to_meta_def)
  with True r up show ?thesis
    by (auto simp: insert_version_def Let_def insert_row_flipped [OF fresh] fetch_meta_by_repo_sha_def)
next
  case False
  have "fr_version_id r \<noteq> i" if "r \<in> set (cd_files db)" for r
    using inv fresh that unfolding corpus_inv_def files_ok_def by metis
  then have "insert_files up sha256 i 0 (nv_files v) (cd_files db) \<noteq> None"
    using up paths by (intro insert_files_succeeds) auto
  with False up show ?thesis by (auto simp: insert_version_def Let_def insert_row_flipped [OF fresh])
qed

text \<open>Two files with one path pass the validation and then violate the key of the files: the insertion fails, with the status of a broken server.\<close>

lemma insert_files_taken:
  assumes "(i, p) \<in> set (map (\<lambda>r. (fr_version_id r, fr_path r)) t)" and "p \<in> fl_path ` set fs"
  shows "insert_files up sha256 i n fs t = None"
  using assms
proof (induction fs arbitrary: n t)
  case (Cons f fs)
  then show ?case by (cases "p = fl_path f") auto
qed simp

lemma insert_files_duplicate: "\<not> distinct (map fl_path fs) \<Longrightarrow> insert_files up sha256 i n fs t = None"
proof (induction fs arbitrary: n t)
  case (Cons f fs)
  show ?case
  proof (cases "fl_path f \<in> fl_path ` set fs")
    case True
    then show ?thesis by (simp add: insert_files_taken [of i "fl_path f"])
  next
    case False
    with Cons show ?thesis by simp
  qed
qed simp

text \<open>The key is free.\<close>

lemma check_free: "rows_for key t = [] \<Longrightarrow> idempotency_check key t = (Check_fresh, t)"
  by (simp add: idempotency_check_def select_rows)

lemma reserve_free:
  assumes "rows_for key t = []"
  shows "\<exists>t'. idempotency_reserve i now null ty key repo t = (Reserved_key, t')"
proof -
  obtain n t' where "insert_reservation i now ty key repo t = (n, t')" by fastforce
  with row_effects(2) [of i now ty key repo t] assms show ?thesis by (auto simp: idempotency_reserve_def numeral_3_eq_3)
qed

text \<open>C39. The dry run predicts the publication: with the database up, unused ids, a free idempotency key and no path twice in the archive, the
  \<open>publish\<close> endpoint accepts exactly the archives \<open>validate\<close> reports as valid, with the same counts and warnings, and rejects every other one
  with the same answer.\<close>

theorem validate_predicts_publish:
  assumes up: "\<And>c. pq_up req c" "\<And>c. st_up (pq_store req) c" and inv: "corpus_inv (dv_corpus (ps_sys st))"
    and fresh: "st_id (pq_store req) \<notin> vr_id ` set (versions (ps_sys st))"
    and archive: "\<And>art. extract_tar_gz env (pq_archive req) = Inr art \<Longrightarrow>
        distinct (map fl_path (ea_files art)) \<and> rows_for (publish_key (mf_repo (ea_manifest art)) (mf_sha (ea_manifest art))) (ps_sagas st) = []"
  shows "case validate_request env req (ps_tokens st) of
      Validated report \<Rightarrow> \<exists>a. fst (publish env req st) = Published a \<and> pa_repo a = rp_repo report \<and> pa_version a = rp_version report
        \<and> pa_sha a = rp_sha report \<and> pa_pages a = rp_pages report \<and> pa_assets a = rp_assets report \<and> pa_warnings a = rp_warnings report
    | answer \<Rightarrow> fst (publish env req st) = answer"
proof (cases "publish_token_of req (ps_tokens st)")
  case None
  then show ?thesis by (simp add: validate_request_def publish_def)
next
  case (Some token)
  show ?thesis
  proof (cases "extract_tar_gz env (pq_archive req)")
    case (Inl r)
    with Some up show ?thesis by (simp add: validate_request_def publish_def reject_response_def)
  next
    case (Inr art)
    show ?thesis
    proof (cases "mf_repo (ea_manifest art) = vp_repo_name token")
      case False
      with Some Inr up show ?thesis by (simp add: validate_request_def publish_def reject_response_def)
    next
      case repo: True
      let ?key = "publish_key (mf_repo (ea_manifest art)) (mf_sha (ea_manifest art))"
      from archive [OF Inr] have free: "rows_for ?key (ps_sagas st) = []" and paths: "distinct (map fl_path (ea_files art))" by simp_all
      from reserve_free [OF free] obtain t' where reserve: "idempotency_reserve (pq_saga_id req) (st_now (pq_store req)) (pq_null req)
          ''docs_publish'' ?key (mf_repo (ea_manifest art)) (ps_sagas st) = (Reserved_key, t')"
        by blast
      have publish: "publish env req st = publish_work env req art (vp_repo_name token) ?key (st\<lparr>ps_sagas := t'\<rparr>)"
        using Some Inr up reserve check_free [OF free] by (simp add: publish_def Let_def repo)
      show ?thesis
      proof (cases "validate_core env (ea_manifest art) (ea_files art) (vp_repo_name token)")
        case (Inl r)
        with Some up repo show ?thesis
          using \<open>extract_tar_gz env (pq_archive req) = Inr art\<close>
          by (simp add: publish publish_work_def ingest_extracted_def validate_and_store_def validate_request_def validate_extracted_def
              reject_response_def Let_def)
      next
        case (Inr c)
        let ?v = "new_version_of (ea_manifest art) (vc_nav c) Push False (ea_files art)"
        obtain res db where ins: "insert_version (st_up (pq_store req)) (st_sha256 (pq_store req)) (st_id (pq_store req)) (st_now (pq_store req)) ?v
            (dv_corpus (ps_sys st)) = (res, db)"
          by fastforce
        have d: "distinct (map fl_path (nv_files ?v))" using paths by (simp add: new_version_of_def)
        have "fst (insert_version (st_up (pq_store req)) (st_sha256 (pq_store req)) (st_id (pq_store req)) (st_now (pq_store req)) ?v
            (dv_corpus (ps_sys st))) \<noteq> None"
          by (rule insert_version_succeeds [OF inv fresh up(2) d])
        then have "res \<noteq> None" unfolding ins by simp
        then consider m where "res = Some (Inserted m)" | m where "res = Some (Existing m)" by (cases res) (auto, metis insert_outcome.exhaust)
        then obtain a where a: "fst (validate_and_store env (pq_store req) (ea_manifest art) (ea_files art) (vp_repo_name token) Push False (ps_sys st)) = Inr a"
          "pa_repo a = mf_repo (ea_manifest art)" "pa_version a = mf_version (ea_manifest art)" "pa_sha a = mf_sha (ea_manifest art)"
          "pa_pages a = vc_pages c" "pa_assets a = vc_assets c" "pa_warnings a = vc_warnings c"
          by cases (use Inr ins in \<open>auto simp: validate_and_store_def store_version_def Let_def\<close>)
        then have "fst (publish env req st) = Published a"
          using up by (cases "validate_and_store env (pq_store req) (ea_manifest art) (ea_files art) (vp_repo_name token) Push False (ps_sys st)")
            (simp add: publish publish_work_def ingest_extracted_def)
        moreover have "validate_request env req (ps_tokens st) = Validated
            \<lparr>rp_repo = mf_repo (ea_manifest art), rp_version = mf_version (ea_manifest art), rp_sha = mf_sha (ea_manifest art),
             rp_pages = vc_pages c, rp_assets = vc_assets c, rp_warnings = vc_warnings c\<rparr>"
          using Some \<open>extract_tar_gz env (pq_archive req) = Inr art\<close> repo up Inr
          by (simp add: validate_request_def validate_extracted_def Let_def)
        ultimately show ?thesis using a by simp
      qed
    qed
  qed
qed

section \<open>Publishing again\<close>

lemma check_completed:
  assumes "rows_for key t = [r]" and "sg_status r = ''completed''" and "sg_result r = Some v"
  shows "idempotency_check key t = (Check_completed v, t)"
  using assms by (simp add: idempotency_check_def select_rows)

text \<open>A publication that went through is answered from the idempotency row when the same archive comes again, whoever holds a token of the
  repository: nothing is stored again, and the answer is the first one, so it says that nothing was replayed.\<close>

lemma republish_cached:
  assumes token: "publish_token_of req' (ps_tokens st) = Some token" and up: "\<And>c. pq_up req' c"
    and art: "extract_tar_gz env (pq_archive req') = Inr art" "mf_repo (ea_manifest art) = vp_repo_name token"
    and row: "rows_for (publish_key (mf_repo (ea_manifest art)) (mf_sha (ea_manifest art))) (ps_sagas st) = [r]"
      "sg_status r = ''completed''" "sg_result r = Some (pq_to_json req' a)"
    and json: "pq_from_json req' (pq_to_json req' a) = Some a"
  shows "publish env req' st = (Published a, st)"
  using token up art check_completed [OF row] json by (simp add: publish_def Let_def cached_response_def)

section \<open>The docs contract\<close>

text \<open>The contract chooses the repository: with \<open>name\<close> a checkout writes to the corpus of any repository, where the endpoint demands a token of
  it; and an absolute \<open>docs_root\<close> is read from there, whatever the checkout is.\<close>

lemma path_join_absolute: "starts_with ''/'' p \<Longrightarrow> path_join base p = p"
  by (simp add: path_join_def)

theorem pull_leaves_checkout:
  assumes "starts_with ''/'' docs_root"
  shows "collect_docs_files pl checkout docs_root globs = collect_docs_files pl checkout' docs_root globs"
  using assms by (simp add: collect_docs_files_def path_join_absolute)

theorem pull_names_any_repo:
  assumes "load_contract env pl checkout = Some c" and "dt_name c = Some name"
    and "maybe_ingest_repo_docs env pl se checkout repo head_sha s = (Some a, s')"
  shows "pa_repo a = name"
  using assms
  by (auto simp: maybe_ingest_repo_docs_def ingest_tree_def validate_and_store_def Let_def
      split: option.splits sum.splits prod.splits insert_outcome.splits)

section \<open>An instance\<close>

definition artifact_env :: publish_env where
  "artifact_env = \<lparr>pe_captures = demo_captures\<lparr>cp_link := \<lambda>_. []\<rparr>, pe_utf8 = (\<lambda>_. True), pe_lossy = id, pe_markdown = ends_with ''.md'',
     pe_manifest = (\<lambda>_. Inr ((demo_manifest ''ccccccc'')\<lparr>mf_repo := ''p''\<rparr>))\<rparr>"

definition artifact_entries :: "tar_entry list" where
  "artifact_entries =
     [\<lparr>te_path = Inr ''manifest.json'', te_type = Regular, te_reads = [Inr ''{}'']\<rparr>,
      \<lparr>te_path = Inr ''index.md'', te_type = Regular, te_reads = [Inr ''## All'', Inr '' pages'']\<rparr>]"

definition artifact :: extracted_artifact where
  "artifact = \<lparr>ea_manifest = (demo_manifest ''ccccccc'')\<lparr>mf_repo := ''p''\<rparr>,
     ea_files = [\<lparr>fl_path = ''index.md'', fl_content = ''## All pages'', fl_is_markdown = True\<rparr>]\<rparr>"

lemma artifact_extracted: "extract_tar_gz artifact_env (Inr (map Inr artifact_entries)) = Inr artifact"
proof -
  have "extract_entries artifact_env 0 0 None [] (map Inr artifact_entries) = Inr (Some ''{}'', ea_files artifact)"
    by (simp add: artifact_entries_def artifact_def artifact_env_def validate_and_normalize_path_def starts_with_def ends_with_def Let_def
        max_file_bytes_def max_total_bytes_def max_entry_count_def manifest_entry_def)
  then show ?thesis by (simp add: extract_tar_gz_def) (simp add: artifact_env_def artifact_def)
qed

theorem extracted_artifact_exact_witness:
  "list_all (safe_entry artifact_env) artifact_entries \<and> regular_bytes artifact_entries \<le> max_total_bytes
   \<and> map (\<lambda>f. (Inr (fl_path f) :: string + string, fl_content f)) (ea_files artifact)
       = map (\<lambda>e. (te_path e, entry_bytes (te_reads e))) (filter stored_entry artifact_entries)"
proof -
  from extracted_artifact_exact [OF artifact_extracted] obtain es where es: "map Inr artifact_entries = map (Inr :: tar_entry \<Rightarrow> string + tar_entry) es"
    "list_all (safe_entry artifact_env) es" "regular_bytes es \<le> max_total_bytes"
    "map (\<lambda>f. (Inr (fl_path f) :: string + string, fl_content f)) (ea_files artifact)
       = map (\<lambda>e. (te_path e, entry_bytes (te_reads e))) (filter stored_entry es)"
    by blast
  from es(1) have "es = artifact_entries" by (simp add: inj_map_eq_map)
  with es(2-4) show ?thesis by (simp only:)
qed

definition artifact_secret :: string where
  "artifact_secret = replicate 32 (CHR ''a'')"

definition artifact_req :: "string publish_req" where
  "artifact_req = \<lparr>pq_authorization = Some (''Bearer akp_'' @ artifact_secret), pq_archive = Inr (map Inr artifact_entries), pq_up = (\<lambda>_. True),
     pq_token_times = (1, 1), pq_store = \<lparr>st_up = (\<lambda>_. True), st_sha256 = id, st_id = 2, st_now = 6, st_job = 9\<rparr>, pq_saga_id = 3,
     pq_to_json = pa_sha, pq_from_json = (\<lambda>_. None), pq_null = []\<rparr>"

definition artifact_token :: publish_token_row where
  "artifact_token = \<lparr>pt_id = 4, pt_token_hash = artifact_secret, pt_repo_name = ''p'', pt_created_by = ''u'', pt_created_at = 0, pt_expires_at = Some 10,
     pt_revoked_at = None, pt_last_used_at = None\<rparr>"

definition artifact_state :: "(string, nat) publish_state" where
  "artifact_state = \<lparr>ps_tokens = [artifact_token], ps_sagas = [], ps_sys = demo_derive_sys\<lparr>dv_corpus := demo_db\<rparr>\<rparr>"

lemma artifact_token_of: "publish_token_of artifact_req [artifact_token] = Some \<lparr>vp_token_id = 4, vp_repo_name = ''p''\<rparr>"
  by code_simp

theorem validate_predicts_publish_witness:
  "case fst (publish artifact_env artifact_req artifact_state) of Published a \<Rightarrow> pa_pages a = 1 \<and> pa_warnings a = [] | _ \<Rightarrow> False"
proof -
  have core: "validate_core artifact_env (ea_manifest artifact) (ea_files artifact) ''p''
      = Inr \<lparr>vc_nav = \<lparr>nt_description = [], nt_groups = []\<rparr>, vc_pages = 1, vc_assets = 0, vc_warnings = []\<rparr>"
    by code_simp
  have "pq_archive artifact_req = Inr (map Inr artifact_entries)" "mf_repo (ea_manifest artifact) = ''p''"
    by (simp_all add: artifact_req_def artifact_def)
  then have valid: "validate_request artifact_env artifact_req (ps_tokens artifact_state) = Validated
      \<lparr>rp_repo = ''p'', rp_version = ''1.0.0'', rp_sha = ''ccccccc'', rp_pages = 1, rp_assets = 0, rp_warnings = []\<rparr>"
    using artifact_token_of artifact_extracted core
    by (simp add: validate_request_def artifact_state_def validate_extracted_def Let_def) (simp add: artifact_req_def artifact_def demo_manifest_def)
  have inv: "corpus_inv (dv_corpus (ps_sys artifact_state))" using demo_inv by (simp add: artifact_state_def)
  have fresh: "st_id (pq_store artifact_req) \<notin> vr_id ` set (versions (ps_sys artifact_state))"
    by (simp add: artifact_state_def artifact_req_def demo_db_def)
  have "distinct (map fl_path (ea_files art)) \<and> rows_for (publish_key (mf_repo (ea_manifest art)) (mf_sha (ea_manifest art))) (ps_sagas artifact_state) = []"
    if "extract_tar_gz artifact_env (pq_archive artifact_req) = Inr art" for art
  proof -
    have "art = artifact" using that artifact_extracted by (simp add: artifact_req_def)
    then show ?thesis by (simp add: artifact_def artifact_state_def rows_for_def)
  qed
  moreover have "pq_up artifact_req c" "st_up (pq_store artifact_req) c'" for c c' by (simp_all add: artifact_req_def)
  ultimately have "case Validated \<lparr>rp_repo = ''p'', rp_version = ''1.0.0'', rp_sha = ''ccccccc'', rp_pages = 1, rp_assets = 0, rp_warnings = []\<rparr> of
      Validated report \<Rightarrow> \<exists>a. fst (publish artifact_env artifact_req artifact_state) = Published a \<and> pa_repo a = rp_repo report
        \<and> pa_version a = rp_version report \<and> pa_sha a = rp_sha report \<and> pa_pages a = rp_pages report \<and> pa_assets a = rp_assets report
        \<and> pa_warnings a = rp_warnings report
    | answer \<Rightarrow> fst (publish artifact_env artifact_req artifact_state) = answer"
    unfolding valid [symmetric] by (intro validate_predicts_publish inv fresh) simp_all
  then show ?thesis by auto
qed

theorem publish_only_own_repo_witness:
  "filter (\<lambda>r. vr_repo r = ''r'') (versions (ps_sys (snd (publish artifact_env artifact_req artifact_state))))
     = [new_row 1 5 (demo_version ''aaaaaaa'')]"
proof -
  have token: "publish_token_of artifact_req (ps_tokens artifact_state) = Some \<lparr>vp_token_id = 4, vp_repo_name = ''p''\<rparr>"
    using artifact_token_of by (simp add: artifact_state_def)
  have "publish artifact_env artifact_req artifact_state
      = (fst (publish artifact_env artifact_req artifact_state), snd (publish artifact_env artifact_req artifact_state))" by simp
  from publish_only_own_repo [OF this] token
  have "filter (\<lambda>r. vr_repo r = ''r'') (versions (ps_sys (snd (publish artifact_env artifact_req artifact_state))))
      = filter (\<lambda>r. vr_repo r = ''r'') (versions (ps_sys artifact_state))" by auto
  also have "\<dots> = [new_row 1 5 (demo_version ''aaaaaaa'')]"
    by (simp add: artifact_state_def demo_db_def demo_version_def demo_manifest_def)
  finally show ?thesis .
qed

end
