(* ===== verification/Spec2Isabelle.thy ===== *)
theory Spec2Isabelle
  imports Prelude Rust_Text Token_Store Oauth_Grants Device_Flow Auth_Service Quota Rate_Limit Cimd Admin_Grants
    Base64url Oauth_Http Snapshot Snapshot_Commit Community Http_Link Alerts Chunk_Index Inherited_Calls
    Go_Structural Edge_Stage Corpus_Contract Idempotency Ingest_Jobs Llms Module_Grouping
    Import_Resolution Note_Curation Corpus_Store Doc_Sections Corpus_Derive
    Derive_Invariant Corpus_Publish
begin

text \<open>
  A verification library of the akashic-record backend (\<open>src/backend/crates\<close>), a self-hosted knowledge
  platform about code: it ingests GitLab repositories into PostgreSQL (content) and Neo4j (graph), and serves
  them over a REST API and an MCP endpoint.

  \<^bold>\<open>Parts and how they interact.\<close> A request enters through the HTTP layer (\<open>akashic-http\<close>, \<open>akashic-mcp\<close>), passes
  the rate limiter (\<open>akashic-platform\<close>) and an authentication layer, and calls a service. Identity
  (\<open>akashic-identity\<close>) issues and checks sessions, bearer tokens and passthrough tokens; the quota engine
  (\<open>akashic-quota\<close>) wraps the embedding and LLM providers; the repositories of \<open>akashic-store-pg\<close> hold the state of all of
  them. Ingestion (\<open>akashic-ingestion\<close>) builds a snapshot of a repository in memory and commits it to both stores; the pure
  analyses over the result are in \<open>akashic-domain/src/algos\<close>. The alert evaluator watches the metrics.

  \<^bold>\<open>Theories.\<close>
  \<^item> \<open>Prelude\<close>, \<open>Rust_Text\<close>: tables as lists of rows with the SQL statements on them, results as sums, machine types;
    Rust's text operations on UTF-8 byte strings with decimal and hexadecimal round trips.
  \<^item> \<open>Token_Store\<close> (\<open>repos/identity.rs\<close>, \<open>repos/publish_token.rs\<close>): sessions, MCP tokens, tombstones, publish tokens. A
    revoked token never authenticates again, over any history with delayed background updates (locale \<open>bearer_store\<close>,
    interpreted on both token tables); an issued token validates.
  \<^item> \<open>Oauth_Grants\<close> (\<open>oauth_code.rs\<close>, \<open>oauth_consent.rs\<close>): one-time codes and consents, redeemed at most once over any history
    (locale \<open>single_use\<close>).
  \<^item> \<open>Device_Flow\<close> (\<open>PgDeviceFlowRepo\<close>, \<open>IdentityServices::device_*\<close>): the sequential service and the interleaving of its
    awaits; exactly-once delivery, delivery only to the approver, and that the sequential service is a run of the concurrent one.
  \<^item> \<open>Auth_Service\<close> (\<open>store.rs\<close>, \<open>services.rs\<close>, \<open>auth/*.rs\<close>, \<open>mcp_middleware.rs\<close>): login, callback, exchange, passthrough
    validation, account operations and the fail-closed MCP gate (locale \<open>one_time_tickets\<close>).
  \<^item> \<open>Quota\<close>, \<open>Rate_Limit\<close>, \<open>Cimd\<close>: the metered providers, whose overshoot is bounded by the charges outstanding at a time, with background
    charges that are delayed, lost or fail (locale \<open>metered\<close>); the client key and buckets of the limiter, the metadata fetcher with its SSRF guard, body cap and cache.
  \<^item> \<open>Admin_Grants\<close> (\<open>admin_grant.rs\<close>, \<open>routes/admins.rs\<close>): the recursive query as a terminating loop that refines
    reachability over active grants; granting and cascading revocation.
  \<^item> \<open>Base64url\<close>, \<open>Oauth_Http\<close> (\<open>mcp_oauth.rs\<close>, \<open>oauth_device.rs\<close>): the encoder, PKCE, the pages and every endpoint of the OAuth
    flow; a bearer is minted only for a user who approved that client, redirect URI and challenge, over every interleaving.
  \<^item> \<open>Snapshot\<close> (\<open>repos/snapshot.rs\<close>), \<open>Snapshot_Commit\<close> (\<open>snapshot_commit.rs\<close>): the transactional imports statement by
    statement against the schema's constraints and the width of its embedding columns (atomic, successful on self-contained input),
    and the commit gate over both stores (PostgreSQL before the graph; the preserving commit keeps what it does not rewrite).
  \<^item> \<open>Community\<close> (\<open>community.rs\<close>, \<open>code_community.rs\<close>): union-find with path compression, which returns and computes the
    connected components; grouping is a partition and independent of hash-map order.
  \<^item> \<open>Http_Link\<close> (\<open>http_link.rs\<close>): cross-service links equal the full cross product; dangling calls are exact.
  \<^item> \<open>Alerts\<close> (\<open>alerts/*.rs\<close>): the five rules share a contract (locale \<open>alert_rule\<close>, interpreted on each), from which the cooldown
    follows over any run; the readiness alert is exact and the state bounded.
  \<^item> \<open>Chunk_Index\<close> (\<open>resolution/chunk_index.rs\<close>, \<open>resolution/mod.rs\<close>): the lookup tables over the chunks of a repository, the signature and
    struct-field parsers that feed them, and the tiers of the call cascade. The cascade over the tables gives what a linear scan
    of the rows gives (locale \<open>poisoning_registry\<close>, interpreted on the return-type and the field registry).
  \<^item> \<open>Inherited_Calls\<close> (\<open>tier0.rs\<close>): the breadth-first search of the supertypes for calls the cascade dropped; it ends on cyclic
    hierarchies and finds the nearest definition.
  \<^item> \<open>Go_Structural\<close> (\<open>go_structural.rs\<close>): structural interface satisfaction, exact and independent of hash-map order.
  \<^item> \<open>Edge_Stage\<close> (\<open>stage6_call_edges\<close> of \<open>stages.rs\<close>): the stage that composes the three above, from the parsed files to the edges staged for
    the graph. The staged graph stays well typed, no pair gets two CALLS edges, a located edge starts at the narrowest chunk.
  \<^item> \<open>Corpus_Contract\<close> (\<open>corpus_contract.rs\<close>): validation of a documentation corpus. The link check reports nothing exactly on sound
    corpora, where soundness walks paths segment by segment and numbers the anchors by itself; it accepts every relative link to an existing anchor; the fence ranges agree with a line automaton.
  \<^item> \<open>Idempotency\<close> (\<open>repos/saga.rs\<close>, \<open>extractors.rs\<close>, \<open>routes/ingestion.rs\<close>): idempotency keys, sequentially and with one SQL statement as
    the step of any number of interleaved requests. The work of a key is done at most once while no reservation has failed; with a
    failed one, two requests can own the key.
  \<^item> \<open>Ingest_Jobs\<close> (\<open>repos/ingestion_job.rs\<close>, \<open>pipeline.rs\<close>, \<open>services.rs\<close>): the job table, the run of a job with its status reports and a
    database that can go away at any call, the requests that start jobs, one awaited call per step. A run that reaches the database leaves its
    job terminal; the active jobs of a repository are bounded by the overlapping and the unchecked starts, and two overlapping requests do start
    two; a job stranded by an outage blocks its repository.
  \<^item> \<open>Module_Grouping\<close> (\<open>chunk_and_group\<close> of \<open>stages.rs\<close>, \<open>virtual_modules.rs\<close>): files are grouped into modules. The roll-up
    ends (the weight of the paths decreases), no file is lost unless a split meets a name twice, and then files are lost silently.
  \<^item> \<open>Import_Resolution\<close> (\<open>resolve_import_target\<close> and \<open>stage5_import_edges\<close> of \<open>stages.rs\<close>, \<open>import_aliases.rs\<close>): specifiers are
    resolved to modules. The stage computes exactly the import relation, only between modules of the run, whatever the hash order.
  \<^item> \<open>Llms\<close> (\<open>llms.rs\<close>, \<open>vitepress_llms.rs\<close>): the texts published for language models. A full text reads back; the description of a
    skill cannot break its frontmatter; paths are percent-encoded injectively; skill names are short and plain.
  \<^item> \<open>Note_Curation\<close> (\<open>akashic-curation\<close>, \<open>repos/note.rs\<close>, \<open>note_graph.rs\<close>): notes in both stores. Updates are all or nothing;
    superseding refines one atomic transaction; every row keeps its node over any history with failures; a failed save can hide the
    note it was to supersede.
  \<^item> \<open>Corpus_Store\<close> (\<open>repos/corpus.rs\<close>): the versions and files of documentation corpora. Inserting a version is a transaction that keeps
    one latest version per repository; a publication that races another is refused as a replay that does not exist.
  \<^item> \<open>Doc_Sections\<close> (\<open>special/sections.rs\<close>): markdown pages as trees of sections. On pages whose headings step down one level at a time no
    section is lost; on others sections are dropped silently.
  \<^item> \<open>Corpus_Derive\<close>, \<open>Derive_Invariant\<close> (\<open>corpus_derive.rs\<close>, \<open>doc_store.rs\<close>, \<open>repos/document.rs\<close>): the background job that rebuilds the documents of a
    repository, with any number of runs, publications, retries and restarts interleaved. A latest version marked complete has exactly its
    pages as documents; an interrupted run leaves its version stuck.
  \<^item> \<open>Corpus_Publish\<close> (\<open>ingestion/corpus.rs\<close>, \<open>docs_publish.rs\<close>, \<open>corpus_pull.rs\<close>): the ways into the corpus. What extraction accepts, a
    publication touches only the repository of its token, the dry run predicts it; the docs contract of a checkout has no such limits.

  \<^bold>\<open>Conventions.\<close> A statement on a broken pool is an error value (\<open>up = False\<close>, or a statement budget inside a
  transaction). Clocks, random values, SHA-256, DNS, HTTP, JSON, \<open>f64\<close> and third-party crates are arguments. Work sent
  to the background is a value that runs later, at any time. Concurrent requests interleave at the \<open>await\<close> points of the code in
  \<open>Device_Flow\<close>, \<open>Idempotency\<close>, \<open>Ingest_Jobs\<close> and \<open>Derive_Invariant\<close>, and at the delayed background writes in \<open>Token_Store\<close> and
  \<open>Quota\<close>. Coarser steps are taken where each theory says so: a whole request of the OAuth endpoints (\<open>Oauth_Http\<close>), which spends a consent or
  a code in a single statement; a spawned ingestion task (\<open>Ingest_Jobs\<close>), which writes its own row; the calls of the note service
  (\<open>Note_Curation\<close>), which follow each other.
  Hash maps whose iteration order could show are given that order as an argument. Loops are total functions; the one loop
  that needs an invariant to end (\<open>uf_find\<close>) is partial, and that it returns is a theorem. No fuel is used.

  \<^bold>\<open>Not modelled.\<close> Tree-sitter extraction and its language tables (their behaviour is that of the third-party grammars);
  the crawler, clone and web adapters (network I/O); Neo4j queries (Cypher text run by the server); the embedding and LLM
  providers and the GitLab client (remote services, arguments here); retrieval scoring in floating point; configuration,
  metrics, tracing and server start-up (glue); the frontend. Of \<open>akashic-store-pg\<close>, the repositories of chunks, modules, communities,
  document clusters, sources, symbols and the audit log are single statements, mostly searches, and not modelled.
\<close>

end
